(* ===== verification/Prelude.thy ===== *)
theory Prelude
  imports Main "HOL-Library.Word"
begin

unbundle bit_operations_syntax

text \<open>
  What every component shares. Bytes are 8-bit words; the machine is a big-endian 68030,
  so multi-byte values are read and written most significant byte first. C integers are
  kept as mathematical integers with the wrap-around written out: \<open>u32\<close> and \<open>u16\<close> reduce
  to the unsigned range, \<open>s32\<close> to the two's complement range of a 32-bit \<open>long\<close> or \<open>int\<close>.
  A result of type \<open>'a option\<close> is \<open>None\<close> exactly where the C code has no defined result:
  it reads or writes outside a buffer, or its loop does not end.
\<close>

named_theorems be_simps \<open>reading back what was written big-endian\<close>
named_theorems cint_simps \<open>C integer conversions that change nothing\<close>

type_synonym byte = "8 word"

section \<open>C integers\<close>

definition u16 :: "int \<Rightarrow> int" where
  "u16 x = x mod 65536"

definition u32 :: "int \<Rightarrow> int" where
  "u32 x = x mod 4294967296"

definition s32 :: "int \<Rightarrow> int" where
  "s32 x = (x + 2147483648) mod 4294967296 - 2147483648"

text \<open>Signed division of C truncates towards zero.\<close>

definition cdiv :: "int \<Rightarrow> int \<Rightarrow> int" where
  "cdiv a b = sgn a * sgn b * (\<bar>a\<bar> div \<bar>b\<bar>)"

lemma u32_id [cint_simps]: "0 \<le> x \<Longrightarrow> x < 4294967296 \<Longrightarrow> u32 x = x"
  by (simp add: u32_def)

lemma u16_id [cint_simps]: "0 \<le> x \<Longrightarrow> x < 65536 \<Longrightarrow> u16 x = x"
  by (simp add: u16_def)

lemma s32_id [cint_simps]: "- 2147483648 \<le> x \<Longrightarrow> x < 2147483648 \<Longrightarrow> s32 x = x"
  by (simp add: s32_def)

lemma u32_bounds [simp]: "0 \<le> u32 x" "u32 x < 4294967296"
  by (simp_all add: u32_def)

lemma u16_bounds [simp]: "0 \<le> u16 x" "u16 x < 65536"
  by (simp_all add: u16_def)

lemma s32_bounds [simp]: "- 2147483648 \<le> s32 x" "s32 x < 2147483648"
  by (simp_all add: s32_def)

lemma u32_s32 [simp]: "u32 (s32 x) = u32 x"
  by (simp add: u32_def s32_def mod_simps)

lemma s32_u32 [simp]: "s32 (u32 x) = s32 x"
  by (simp add: u32_def s32_def mod_simps)

lemma cdiv_nonneg [cint_simps]: "0 \<le> a \<Longrightarrow> 0 < b \<Longrightarrow> cdiv a b = a div b"
  by (cases "a = 0") (simp_all add: cdiv_def)

section \<open>Big-endian access\<close>

definition g8 :: "byte list \<Rightarrow> nat \<Rightarrow> int" where
  "g8 p i = uint (p ! i)"

definition g16 :: "byte list \<Rightarrow> nat \<Rightarrow> int" where
  "g16 p i = g8 p i * 256 + g8 p (i + 1)"

definition g32 :: "byte list \<Rightarrow> nat \<Rightarrow> int" where
  "g32 p i = g16 p i * 65536 + g16 p (i + 2)"

definition p16 :: "int \<Rightarrow> byte list" where
  "p16 v = [word_of_int (v div 256), word_of_int v]"

definition p32 :: "int \<Rightarrow> byte list" where
  "p32 v = p16 (v div 65536) @ p16 v"

text \<open>A signed 32-bit field.\<close>

definition gl32 :: "byte list \<Rightarrow> nat \<Rightarrow> int" where
  "gl32 p i = s32 (g32 p i)"

lemma g8_bounds [simp]: "0 \<le> g8 p i" "g8 p i < 256"
  using uint_lt2p [of "p ! i"] by (simp_all add: g8_def)

lemma g16_bounds [simp]: "0 \<le> g16 p i" "g16 p i < 65536"
  unfolding g16_def using g8_bounds [of p i] g8_bounds [of p "i + 1"] by linarith+

lemma g32_bounds [simp]: "0 \<le> g32 p i" "g32 p i < 4294967296"
  unfolding g32_def using g16_bounds [of p i] g16_bounds [of p "i + 2"] by linarith+

lemma gl32_bounds [simp]: "- 2147483648 \<le> gl32 p i" "gl32 p i < 2147483648"
  by (simp_all add: gl32_def)

lemma length_p16 [simp]: "length (p16 v) = 2"
  by (simp add: p16_def)

lemma length_p32 [simp]: "length (p32 v) = 4"
  by (simp add: p32_def)

lemma g8_append [be_simps]:
  "g8 (xs @ ys) i = (if i < length xs then g8 xs i else g8 ys (i - length xs))"
  by (simp add: g8_def nth_append)

lemma g16_append_right [be_simps]:
  "length xs \<le> i \<Longrightarrow> g16 (xs @ ys) i = g16 ys (i - length xs)"
  by (simp add: g16_def g8_append Suc_diff_le)

lemma g16_append_left [be_simps]:
  "i + 1 < length xs \<Longrightarrow> g16 (xs @ ys) i = g16 xs i"
  by (simp add: g16_def g8_append)

lemma g32_append_right [be_simps]:
  "length xs \<le> i \<Longrightarrow> g32 (xs @ ys) i = g32 ys (i - length xs)"
  by (simp add: g32_def g16_append_right Suc_diff_le)

lemma g32_append_left [be_simps]:
  "i + 3 < length xs \<Longrightarrow> g32 (xs @ ys) i = g32 xs i"
  by (simp add: g32_def g16_append_left)

lemma g16_p16 [be_simps]: "g16 (p16 v) 0 = u16 v"
proof -
  have "(v div 256 mod 256) * 256 + v mod 256 = v mod 65536"
    using mod_mult2_eq' [of v 256 256] by simp
  then show ?thesis
    by (simp add: g16_def g8_def p16_def u16_def take_bit_eq_mod uint_word_of_int)
qed

lemma g32_p32 [be_simps]: "g32 (p32 v) 0 = u32 v"
proof -
  have "(v div 65536 mod 65536) * 65536 + v mod 65536 = v mod 4294967296"
    using mod_mult2_eq' [of v 65536 65536] by simp
  then show ?thesis
    using g16_p16 [of "v div 65536"] g16_p16 [of v]
    by (simp add: g32_def p32_def g16_append_left g16_append_right u16_def u32_def)
qed

lemma g32_drop: "i + j + 3 < length p \<Longrightarrow> g32 (drop i p) j = g32 p (i + j)"
  by (simp add: g32_def g16_def g8_def ac_simps)

lemma g32_take: "j + 3 < n \<Longrightarrow> g32 (take n p) j = g32 p j"
  by (simp add: g32_def g16_def g8_def)

section \<open>Division\<close>

lemma int_div_less: "0 < b \<Longrightarrow> a < b * c \<Longrightarrow> a div b < (c :: int)"
proof (rule ccontr)
  assume b: "0 < b" and a: "a < b * c" and "\<not> a div b < c"
  then have "b * c \<le> b * (a div b)" by (intro mult_left_mono) auto
  also have "\<dots> \<le> a" using b by (metis minus_mod_eq_mult_div pos_mod_sign diff_le_eq le_add_same_cancel1)
  finally show False using a by simp
qed

lemma int_div_eqI: "a = b * q + r \<Longrightarrow> 0 \<le> r \<Longrightarrow> r < b \<Longrightarrow> a div b = (q :: int)"
  by (metis div_pos_pos_trivial div_mult_self2 add.right_neutral add.commute linorder_not_less order_le_less_trans)

section \<open>Lists\<close>

lemma take_drop_eq_map_nth:
  "i + n \<le> length xs \<Longrightarrow> take n (drop i xs) = map (\<lambda>k. xs ! k) [i..<i + n]"
  by (rule nth_equalityI) auto

lemma map_upt_shift: "map f [i + k..<j + k] = map (\<lambda>x. f (x + k)) [i..<j]"
  by (rule nth_equalityI) (auto simp: ac_simps)

lemma map_upt_split:
  "i \<le> j \<Longrightarrow> j \<le> k \<Longrightarrow> map f [i..<k] = map f [i..<j] @ map f [j..<k]"
  by (metis le_Suc_ex map_append upt_add_eq_append)

lemma find_SomeD: "List.find P xs = Some x \<Longrightarrow> x \<in> set xs \<and> P x"
  by (induction xs) (auto split: if_splits)

section \<open>C strings\<close>

text \<open>
  The bytes of a string constant, without the final NUL, and the string that starts a
  buffer: what \<open>strlen\<close> measures and \<open>strcpy\<close> copies.
\<close>

definition bytes_of :: "string \<Rightarrow> byte list" where
  "bytes_of cs = map (\<lambda>c. of_char c) cs"

definition cstr :: "byte list \<Rightarrow> byte list" where
  "cstr xs = takeWhile (\<lambda>b. b \<noteq> 0) xs"

lemma cstr_no_nul: "0 \<notin> set xs \<Longrightarrow> cstr xs = xs"
  by (auto simp: cstr_def takeWhile_eq_all_conv)

lemma cstr_nul [simp]: "0 \<notin> set (cstr xs)"
  by (auto simp: cstr_def dest: set_takeWhileD)

lemma length_cstr: "length (cstr xs) \<le> length xs"
  by (simp add: cstr_def length_takeWhile_le)

section \<open>Reading lines\<close>

text \<open>\<open>fgets\<close> with a buffer of \<open>n + 1\<close> bytes: up to \<open>n\<close> bytes, ending after a newline.\<close>

fun take_line :: "nat \<Rightarrow> byte list \<Rightarrow> byte list" where
  "take_line 0 xs = []"
| "take_line (Suc n) [] = []"
| "take_line (Suc n) (x # xs) = (if x = 10 then [x] else x # take_line n xs)"

function fgets_all :: "nat \<Rightarrow> byte list \<Rightarrow> byte list list" where
  "fgets_all n xs =
    (if xs = [] \<or> n = 0 then []
     else take_line n xs # fgets_all n (drop (length (take_line n xs)) xs))"
  by pat_completeness auto
termination
proof (relation "measure (\<lambda>(n, xs). length xs)")
  fix n :: nat and xs :: "byte list" assume x: "\<not> (xs = [] \<or> n = 0)"
  then have "take_line n xs \<noteq> []" by (cases xs; cases n) simp_all
  then show "((n, drop (length (take_line n xs)) xs), (n, xs)) \<in> measure (\<lambda>(n, xs). length xs)"
    using x by auto
qed simp

declare fgets_all.simps [simp del]

definition is_space :: "byte \<Rightarrow> bool" where
  "is_space c \<longleftrightarrow> c = 32 \<or> c = 9 \<or> c = 10 \<or> c = 11 \<or> c = 12 \<or> c = 13"

text \<open>\<open>fgets_all n\<close> of lines that fit the buffer gives the lines back.\<close>

definition unlines :: "byte list list \<Rightarrow> byte list" where
  "unlines ls = concat (map (\<lambda>l. l @ [10]) ls)"

lemma take_line_line: "10 \<notin> set l \<Longrightarrow> length l < n \<Longrightarrow> take_line n (l @ 10 # xs) = l @ [10]"
proof (induction l arbitrary: n)
  case Nil
  then obtain m where "n = Suc m" by (cases n) auto
  then show ?case by simp
next
  case (Cons c l)
  then obtain m where "n = Suc m" "length l < m" by (cases n) auto
  then show ?case using Cons by auto
qed

lemma fgets_unlines:
  "\<forall>l\<in>set ls. 10 \<notin> set l \<and> length l < n \<Longrightarrow> fgets_all n (unlines ls) = map (\<lambda>l. l @ [10]) ls"
proof (induction ls)
  case Nil
  then show ?case by (simp add: unlines_def fgets_all.simps)
next
  case (Cons l ls)
  have u: "unlines (l # ls) = l @ 10 # unlines ls" by (simp add: unlines_def)
  have t: "take_line n (l @ 10 # unlines ls) = l @ [10]" using Cons.prems by (intro take_line_line) auto
  have "0 < n" using Cons.prems by auto
  then show ?case
    unfolding u using Cons by (subst fgets_all.simps) (simp add: t)
qed

section \<open>Powers of two\<close>

text \<open>Masking with a power of two less one, and clearing those bits.\<close>

lemma and_pow2_minus_1: "(x :: int) AND (2 ^ k - 1) = x mod 2 ^ k"
  by (simp add: take_bit_eq_mod [symmetric] take_bit_eq_mask mask_eq_exp_minus_1)

lemma and_not_pow2_minus_1: "(x :: int) AND NOT (2 ^ k - 1) = x - x mod 2 ^ k"
proof -
  have "x AND NOT (mask k) = push_bit k (drop_bit k x)"
    by (rule bit_eqI) (auto simp: bit_simps)
  then show ?thesis
    using bits_ident [of k x] by (simp add: take_bit_eq_mod mask_eq_exp_minus_1)
qed

end
