(* ===== verification/UfsDisk.thy ===== *)
theory UfsDisk
  imports Prelude
begin

text \<open>
  The on-disk structures of \<open>mint/ufsxfs/ufs.c\<close> and how the driver reads them: the Atari
  root sector's entries, the VTOC, the UFS superblock and the inode, each a record with the
  fields the driver uses and a decoder at the byte offsets the C structure has on the 68030
  (2-byte alignment, big-endian). The device layer below (XHDI, bio) is not part of the
  repository and is a parameter: \<open>bio.read\<close> a function from a descriptor, a record number
  and a length to the bytes, \<open>None\<close> when it fails.
\<close>

section \<open>Error values\<close>

text \<open>The MiNT error codes the driver answers; \<open>XH r\<close> is a code XHDI returned.\<close>

datatype merr =
    EROFS | ESECTOR | EBADARG | EREAD | EMEDIUMTYPE | ENOMEM | ENOENT | ENOTDIR | EMOUNT
  | ENAMETOOLONG | ENMFILES | EINVAL | EACCES | ENOSYS | XH int

section \<open>Constants\<close>

definition UFS_FIRST_DRIVE :: nat where "UFS_FIRST_DRIVE = 21"
definition UFS_MAX_DRIVES :: nat where "UFS_MAX_DRIVES = 8"
definition XHDI_MAX_MAJOR :: nat where "XHDI_MAX_MAJOR = 32"
definition ATARI_PART_OFF :: nat where "ATARI_PART_OFF = 0x1c6"
definition VTOC_SANE :: int where "VTOC_SANE = 0x600DDEEE"
definition V_NUMPAR :: int where "V_NUMPAR = 16"
definition V_SWAP :: int where "V_SWAP = 3"
definition V_BACKUP :: int where "V_BACKUP = 7"
definition V_UNMNT :: int where "V_UNMNT = 1"
definition SBOFF :: int where "SBOFF = 8192"
definition UFS_MAGIC :: int where "UFS_MAGIC = 0x011954"
definition UFS_ROOTINO :: int where "UFS_ROOTINO = 2"
definition NDADDR :: int where "NDADDR = 12"
definition NIADDR :: nat where "NIADDR = 3"
definition MAXNAMLEN :: int where "MAXNAMLEN = 255"

text \<open>The file types of \<open>smode\<close>, in octal in the source.\<close>

definition UFS_IFMT :: int where "UFS_IFMT = 0xF000"
definition UFS_IFIFO :: int where "UFS_IFIFO = 0x1000"
definition UFS_IFCHR :: int where "UFS_IFCHR = 0x2000"
definition UFS_IFDIR :: int where "UFS_IFDIR = 0x4000"
definition UFS_IFBLK :: int where "UFS_IFBLK = 0x6000"
definition UFS_IFREG :: int where "UFS_IFREG = 0x8000"
definition UFS_IFLNK :: int where "UFS_IFLNK = 0xA000"
definition UFS_IFSOCK :: int where "UFS_IFSOCK = 0xC000"

lemmas ufs_consts =
  UFS_FIRST_DRIVE_def UFS_MAX_DRIVES_def XHDI_MAX_MAJOR_def ATARI_PART_OFF_def VTOC_SANE_def
  V_NUMPAR_def V_SWAP_def V_BACKUP_def V_UNMNT_def SBOFF_def UFS_MAGIC_def UFS_ROOTINO_def
  NDADDR_def NIADDR_def MAXNAMLEN_def UFS_IFMT_def UFS_IFIFO_def UFS_IFCHR_def UFS_IFDIR_def
  UFS_IFBLK_def UFS_IFREG_def UFS_IFLNK_def UFS_IFSOCK_def

section \<open>The root sector's entries and the VTOC\<close>

record atari_part =
  ap_flag :: int
  ap_id :: "byte list"
  ap_start :: int
  ap_size :: int

definition atari_part_at :: "byte list \<Rightarrow> nat \<Rightarrow> atari_part" where
  "atari_part_at sec o0 = \<lparr>ap_flag = g8 sec o0, ap_id = take 3 (drop (o0 + 1) sec),
     ap_start = g32 sec (o0 + 4), ap_size = g32 sec (o0 + 8)\<rparr>"

record vtoc_part =
  vp_tag :: int
  vp_flag :: int
  vp_start :: int
  vp_size :: int

definition vtoc_part_at :: "byte list \<Rightarrow> nat \<Rightarrow> vtoc_part" where
  "vtoc_part_at sec o0 = \<lparr>vp_tag = g16 sec o0, vp_flag = g16 sec (o0 + 2),
     vp_start = gl32 sec (o0 + 4), vp_size = gl32 sec (o0 + 8)\<rparr>"

record vtoc =
  v_sanity :: int
  v_volume :: "byte list"
  v_nparts :: int
  v_part :: "vtoc_part list"

definition vtoc_of :: "byte list \<Rightarrow> vtoc" where
  "vtoc_of sec = \<lparr>v_sanity = g32 sec 12, v_volume = take 8 (drop 20 sec),
     v_nparts = g16 sec 30, v_part = map (\<lambda>i. vtoc_part_at sec (72 + 12 * i)) [0..<16]\<rparr>"

section \<open>The superblock\<close>

record ufs_sb =
  sb_iblkno :: int
  sb_cgoffset :: int
  sb_cgmask :: int
  sb_dsize :: int
  sb_ncg :: int
  sb_bsize :: int
  sb_fsize :: int
  sb_frag :: int
  sb_bshift :: int
  sb_fshift :: int
  sb_nindir :: int
  sb_inopb :: int
  sb_ipg :: int
  sb_fpg :: int
  sb_nbfree :: int
  sb_nifree :: int
  sb_nffree :: int
  sb_magic :: int

definition ufs_sb_of :: "byte list \<Rightarrow> ufs_sb" where
  "ufs_sb_of p = \<lparr>sb_iblkno = gl32 p 16, sb_cgoffset = gl32 p 24, sb_cgmask = gl32 p 28,
     sb_dsize = gl32 p 40, sb_ncg = gl32 p 44, sb_bsize = gl32 p 48, sb_fsize = gl32 p 52,
     sb_frag = gl32 p 56, sb_bshift = gl32 p 80, sb_fshift = gl32 p 84,
     sb_nindir = gl32 p 116, sb_inopb = gl32 p 120, sb_ipg = gl32 p 184, sb_fpg = gl32 p 188,
     sb_nbfree = gl32 p 196, sb_nifree = gl32 p 200, sb_nffree = gl32 p 204,
     sb_magic = gl32 p 1372\<rparr>"

section \<open>The inode\<close>

record ufs_dinode =
  smode :: int
  nlink :: int
  suid :: int
  sgid :: int
  size_hi :: int
  isize :: int
  atime :: int
  mtime :: int
  ctime :: int
  db :: "int list"
  ib :: "int list"
  iflags :: int
  iblocks :: int
  igen :: int
  imode :: int
  iuid :: int
  igid :: int
  eftflag :: int

definition ufs_dinode_of :: "byte list \<Rightarrow> ufs_dinode" where
  "ufs_dinode_of p = \<lparr>smode = g16 p 0, nlink = g16 p 2, suid = g16 p 4, sgid = g16 p 6,
     size_hi = gl32 p 8, isize = gl32 p 12, atime = gl32 p 16, mtime = gl32 p 24,
     ctime = gl32 p 32, db = map (\<lambda>k. gl32 p (40 + 4 * k)) [0..<12],
     ib = map (\<lambda>k. gl32 p (88 + 4 * k)) [0..<3], iflags = gl32 p 100, iblocks = gl32 p 104,
     igen = gl32 p 108, imode = gl32 p 112, iuid = gl32 p 116, igid = gl32 p 120,
     eftflag = g32 p 124\<rparr>"

text \<open>
  The bytes of the structure from \<open>db\<close> to its end: what \<open>memcpy(target, in.db, n)\<close> reads
  for a short symbolic link.
\<close>

definition ufs_dinode_db_bytes :: "ufs_dinode \<Rightarrow> byte list" where
  "ufs_dinode_db_bytes ip = concat (map p32 (db ip)) @ concat (map p32 (ib ip)) @
     concat (map p32 [iflags ip, iblocks ip, igen ip, imode ip, iuid ip, igid ip, eftflag ip])"

section \<open>A mounted slice\<close>

text \<open>bio's device descriptor, as far as the driver sets and reads it.\<close>

record DI =
  di_major :: int
  di_minor :: int
  di_start :: int
  di_size :: int
  di_pshift :: nat
  di_lshift :: nat
  di_wp :: bool

type_synonym bio = "DI \<Rightarrow> int \<Rightarrow> int \<Rightarrow> byte list option"

record UFS =
  s_drv :: nat
  s_major :: int
  s_minor :: int
  s_start :: int
  s_size :: int
  s_tag :: int
  s_slice :: int
  s_di :: DI
  s_bsize :: int
  s_fsize :: int
  s_frag :: int
  s_bshift :: int
  s_fshift :: int
  s_nindir :: int
  s_inopb :: int
  s_ipg :: int
  s_fpg :: int
  s_iblkno :: int
  s_cgoffset :: int
  s_cgmask :: int
  s_dsize :: int
  s_nbfree :: int
  s_nffree :: int
  s_nifree :: int
  s_ncg :: int
  s_root :: ufs_dinode
  s_volume :: "byte list"

section \<open>Block access\<close>

text \<open>
  bio's I/O vector for the driver's descriptors. \<open>xh\<close> is \<open>XHReadWrite\<close> for reading: device,
  first sector and sector count to an XHDI code or the bytes. The model returns the bytes
  where the code fills \<open>buf\<close>; the shift counts are those of \<open>bio.set_pshift\<close> and
  \<open>bio.set_lshift\<close>.
\<close>

type_synonym xhdi = "int \<Rightarrow> int \<Rightarrow> int \<Rightarrow> int \<Rightarrow> int + byte list"

definition ufs_rwabs :: "xhdi \<Rightarrow> DI \<Rightarrow> int \<Rightarrow> int \<Rightarrow> int \<Rightarrow> merr + byte list" where
  "ufs_rwabs xh di rw sz rec =
    (let n = drop_bit (di_pshift di) sz;
         recno = u32 (push_bit (di_lshift di) rec)
     in if rw AND 1 \<noteq> 0 then Inl EROFS
        else if n = 0 \<or> u32 (recno + n) > di_size di then Inl ESECTOR
        else (case xh (di_major di) (di_minor di) (u32 (recno + di_start di)) (u16 n) of
                Inl r \<Rightarrow> Inl (XH r) | Inr d \<Rightarrow> Inr d))"

definition ufs_nochange :: "DI \<Rightarrow> int" where
  "ufs_nochange di = 0"

definition ufs_bread :: "bio \<Rightarrow> UFS \<Rightarrow> int \<Rightarrow> int \<Rightarrow> byte list option" where
  "ufs_bread br s frag bytes = br (s_di s) frag bytes"

end
