(* ===== verification/UfsFile.thy ===== *)
theory UfsFile
  imports UfsDisk
begin

text \<open>
  Inodes and files of \<open>mint/ufsxfs/ufs.c\<close>: \<open>ufs_iget\<close>, the mode and owner readers,
  \<open>ufs_bmap\<close> with its wrap-around in \<open>ulong per\<close>, and \<open>ufs_readfile\<close>. The specification
  side is the pointer tree an FFS inode describes (\<open>ptr_tree\<close>, \<open>bmap_spec\<close>) and the file as
  a byte sequence (\<open>ufs_content\<close>).
\<close>

section \<open>Inodes\<close>

definition ufs_inode_cg :: "UFS \<Rightarrow> int \<Rightarrow> int" where
  "ufs_inode_cg s ino = ino div s_ipg s"

definition ufs_inode_frag :: "UFS \<Rightarrow> int \<Rightarrow> int" where
  "ufs_inode_frag s ino =
    (let cg = ufs_inode_cg s ino
     in u32 (s_fpg s * cg + s_cgoffset s * (cg AND NOT (s_cgmask s)) + s_iblkno s +
             ((ino mod s_ipg s) div s_inopb s) * s_frag s))"

definition ufs_inode_off :: "UFS \<Rightarrow> int \<Rightarrow> nat" where
  "ufs_inode_off s ino = nat (ino mod s_inopb s) * 128"

definition ufs_iget :: "bio \<Rightarrow> UFS \<Rightarrow> int \<Rightarrow> merr + ufs_dinode" where
  "ufs_iget br s ino =
    (if ino = UFS_ROOTINO then Inr (s_root s)
     else if ino < UFS_ROOTINO \<or> ino \<ge> u32 (s_ipg s * s_ncg s) then Inl EBADARG
     else (case ufs_bread br s (ufs_inode_frag s ino) (s_bsize s) of
             None \<Rightarrow> Inl EREAD
           | Some d \<Rightarrow> Inr (ufs_dinode_of (take 128 (drop (ufs_inode_off s ino) d)))))"

text \<open>
  \<open>S_IFLNK\<close>, \<open>S_IFIFO\<close> and \<open>S_IFSOCK\<close> are FreeMiNT's values, passed in that order.
\<close>

definition ufs_mode :: "int \<times> int \<times> int \<Rightarrow> ufs_dinode \<Rightarrow> int" where
  "ufs_mode mt ip =
    (case mt of (S_IFLNK, S_IFIFO, S_IFSOCK) \<Rightarrow>
       let m = smode ip; low = m AND NOT UFS_IFMT
       in if m AND UFS_IFMT = UFS_IFLNK then u16 (low OR S_IFLNK)
          else if m AND UFS_IFMT = UFS_IFIFO then u16 (low OR S_IFIFO)
          else if m AND UFS_IFMT = UFS_IFSOCK then u16 (low OR S_IFSOCK)
          else m)"

definition ufs_uid :: "ufs_dinode \<Rightarrow> int" where
  "ufs_uid ip = (if eftflag ip \<noteq> 0 then iuid ip else suid ip)"

definition ufs_gid :: "ufs_dinode \<Rightarrow> int" where
  "ufs_gid ip = (if eftflag ip \<noteq> 0 then igid ip else sgid ip)"

section \<open>Block mapping\<close>

text \<open>The level loop: the level, what is left of \<open>n\<close>, and \<open>per\<close>, all \<open>ulong\<close>.\<close>

function ufs_bmap_level :: "int \<Rightarrow> nat \<Rightarrow> int \<Rightarrow> int \<Rightarrow> nat \<times> int \<times> int" where
  "ufs_bmap_level nindir level n per =
    (if level < NIADDR then
       if n < u32 (per * nindir) then (level, n, per)
       else ufs_bmap_level nindir (Suc level) (u32 (n - per * nindir)) (u32 (per * nindir))
     else (level, n, per))"
  by pat_completeness auto
termination
  by (relation "measure (\<lambda>(nindir, level, n, per). NIADDR - level)") auto

declare ufs_bmap_level.simps [simp del]

text \<open>The walk down: the first argument is \<open>level + 1\<close>.\<close>

fun ufs_bmap_walk :: "bio \<Rightarrow> UFS \<Rightarrow> nat \<Rightarrow> int \<Rightarrow> int \<Rightarrow> int \<Rightarrow> int" where
  "ufs_bmap_walk br s 0 addr n per = addr"
| "ufs_bmap_walk br s (Suc l) addr n per =
    (if addr = 0 then 0
     else (case ufs_bread br s addr (s_bsize s) of
             None \<Rightarrow> 0
           | Some d \<Rightarrow> ufs_bmap_walk br s l (g32 d (4 * nat (n div per))) (n mod per)
                          (per div s_nindir s)))"

definition ufs_bmap :: "bio \<Rightarrow> UFS \<Rightarrow> ufs_dinode \<Rightarrow> int \<Rightarrow> int" where
  "ufs_bmap br s ip n =
    (if n < NDADDR then u32 (db ip ! nat n)
     else (case ufs_bmap_level (s_nindir s) 0 (n - NDADDR) 1 of
             (level, n, per) \<Rightarrow>
               if level = NIADDR then 0
               else ufs_bmap_walk br s (Suc level) (u32 (ib ip ! level)) n per))"

section \<open>Reading a file\<close>

text \<open>
  How many bytes of the file's block \<open>blk\<close> are on the disk: whole blocks but for the last,
  which may be fragments only.
\<close>

definition ufs_have :: "UFS \<Rightarrow> int \<Rightarrow> int \<Rightarrow> int" where
  "ufs_have s sz blk =
    (let have = s32 (sz - push_bit (nat (s_bshift s)) blk);
         have = (if have > s_bsize s then s_bsize s else have)
     in s32 (have + s_fsize s - 1) AND NOT (s_fsize s - 1))"

text \<open>
  The copying loop; its result is the bytes put into \<open>buf\<close>, whose number is what the
  function returns. \<open>None\<close>: the loop does not end, or it copies bytes the unit does not
  have.
\<close>

partial_function (option) ufs_readloop ::
    "bio \<Rightarrow> UFS \<Rightarrow> ufs_dinode \<Rightarrow> int \<Rightarrow> int \<Rightarrow> byte list option" where
  "ufs_readloop br s ip pos len =
    (if len \<le> 0 then Some []
     else
       let blk = u32 (drop_bit (nat (s_bshift s)) pos);
           off = pos AND (s_bsize s - 1);
           n = (if s_bsize s - off > len then len else s_bsize s - off);
           have = ufs_have s (isize ip) blk;
           frag = ufs_bmap br s ip blk
       in if frag = 0 then
            Option.bind (ufs_readloop br s ip (pos + n) (len - n))
              (\<lambda>r. Some (replicate (nat n) 0 @ r))
          else
            (case ufs_bread br s frag have of
               None \<Rightarrow> Some []
             | Some d \<Rightarrow>
                 if off + n > int (length d) then None
                 else Option.bind (ufs_readloop br s ip (pos + n) (len - n))
                        (\<lambda>r. Some (take (nat n) (drop (nat off) d) @ r))))"

definition ufs_readfile :: "bio \<Rightarrow> UFS \<Rightarrow> ufs_dinode \<Rightarrow> int \<Rightarrow> int \<Rightarrow> byte list option" where
  "ufs_readfile br s ip pos len =
    (let sz = isize ip
     in if pos \<ge> sz then Some []
        else ufs_readloop br s ip pos (if len > s32 (sz - pos) then s32 (sz - pos) else len))"

section \<open>The geometry of a sane file system\<close>

definition ufs_geom :: "UFS \<Rightarrow> bool" where
  "ufs_geom s \<longleftrightarrow>
     0 \<le> s_bshift s \<and> s_bsize s = 2 ^ nat (s_bshift s) \<and>
     0 \<le> s_fshift s \<and> s_fsize s = 2 ^ nat (s_fshift s) \<and>
     4096 \<le> s_bsize s \<and> s_bsize s \<le> 8192 \<and> 512 \<le> s_fsize s \<and> s_fsize s \<le> s_bsize s \<and>
     s_frag s = s_bsize s div s_fsize s \<and>
     s_nindir s = s_bsize s div 4 \<and> s_inopb s = s_bsize s div 128 \<and>
     0 < s_ipg s \<and> 0 < s_fpg s \<and> 0 < s_ncg s"

section \<open>The pointer tree of an inode\<close>

fun ptr_tree :: "bio \<Rightarrow> UFS \<Rightarrow> nat \<Rightarrow> int \<Rightarrow> int \<Rightarrow> int" where
  "ptr_tree br s 0 addr n = addr"
| "ptr_tree br s (Suc l) addr n =
    (if addr = 0 then 0
     else (case ufs_bread br s addr (s_bsize s) of
             None \<Rightarrow> 0
           | Some d \<Rightarrow> ptr_tree br s l (g32 d (4 * nat (n div s_nindir s ^ l)))
                          (n mod s_nindir s ^ l)))"

definition bmap_spec :: "bio \<Rightarrow> UFS \<Rightarrow> ufs_dinode \<Rightarrow> int \<Rightarrow> int" where
  "bmap_spec br s ip n =
    (let N = s_nindir s; m = n - 12
     in if n < 12 then u32 (db ip ! nat n)
        else if m < N then ptr_tree br s 1 (u32 (ib ip ! 0)) m
        else if m - N < N ^ 2 then ptr_tree br s 2 (u32 (ib ip ! 1)) (m - N)
        else if m - N - N ^ 2 < N ^ 3 then ptr_tree br s 3 (u32 (ib ip ! 2)) (m - N - N ^ 2)
        else 0)"

lemma ufs_bmap_walk_tree:
  assumes "0 < s_nindir s"
  shows "ufs_bmap_walk br s (Suc l) addr n (s_nindir s ^ l) = ptr_tree br s (Suc l) addr n"
proof (induction l arbitrary: addr n)
  case 0
  show ?case by (simp split: option.splits)
next
  case (Suc l)
  have "s_nindir s ^ Suc l div s_nindir s = s_nindir s ^ l"
    using assms by simp
  then show ?case
    using Suc.IH by (simp split: option.splits)
qed

lemma ufs_bmap_level_stop:
  "level < NIADDR \<Longrightarrow> n < u32 (per * N) \<Longrightarrow> ufs_bmap_level N level n per = (level, n, per)"
  by (subst ufs_bmap_level.simps) simp

lemma ufs_bmap_level_next:
  "level < NIADDR \<Longrightarrow> l' = Suc level \<Longrightarrow> u32 (per * N) = per' \<Longrightarrow> per' \<le> n \<Longrightarrow>
   u32 (n - per * N) = n' \<Longrightarrow> ufs_bmap_level N level n per = ufs_bmap_level N l' n' per'"
  by (subst ufs_bmap_level.simps) simp

lemma ufs_bmap_level_0:
  "0 < N \<Longrightarrow> N < 4294967296 \<Longrightarrow> n < N \<Longrightarrow> ufs_bmap_level N 0 n 1 = (0, n, 1)"
  by (rule ufs_bmap_level_stop) (simp_all add: NIADDR_def u32_id)

lemma ufs_bmap_level_to1:
  assumes "0 < N" "N < 4294967296" "N \<le> n" "n < 4294967296"
  shows "ufs_bmap_level N 0 n 1 = ufs_bmap_level N 1 (n - N) N"
  using assms by (intro ufs_bmap_level_next) (simp_all add: NIADDR_def u32_id)

lemma ufs_bmap_level_to2:
  assumes "0 < N" "N\<^sup>2 < 4294967296" "N\<^sup>2 \<le> n" "n < 4294967296"
  shows "ufs_bmap_level N 1 n N = ufs_bmap_level N 2 (n - N\<^sup>2) (N\<^sup>2)"
proof -
  have "N * N = N\<^sup>2" "0 \<le> N\<^sup>2" by (simp_all add: power2_eq_square)
  moreover from this have "u32 (n - N\<^sup>2) = n - N\<^sup>2"
    using assms by (intro u32_id) linarith+
  ultimately show ?thesis
    using assms by (intro ufs_bmap_level_next) (simp_all add: NIADDR_def u32_id)
qed

lemma ufs_bmap_level_1:
  assumes "0 < N" "N\<^sup>2 < 4294967296" "n < N\<^sup>2"
  shows "ufs_bmap_level N 1 n N = (1, n, N)"
proof -
  have "N * N = N\<^sup>2" by (simp add: power2_eq_square)
  then show ?thesis
    using assms by (intro ufs_bmap_level_stop) (simp_all add: NIADDR_def u32_id)
qed

lemma ufs_bmap_direct: "n < 12 \<Longrightarrow> ufs_bmap br s ip n = bmap_spec br s ip n"
  by (simp add: ufs_bmap_def bmap_spec_def NDADDR_def)

lemma ufs_bmap_spec_two_levels:
  assumes N: "0 < s_nindir s" "(s_nindir s)\<^sup>2 < 4294967296"
    and n: "0 \<le> n" "n < 4294967296" "n < 12 + s_nindir s + (s_nindir s)\<^sup>2"
  shows "ufs_bmap br s ip n = bmap_spec br s ip n"
proof -
  let ?N = "s_nindir s"
  have NN: "?N \<le> ?N\<^sup>2" using N(1) by (simp add: self_le_power)
  consider "n < 12" | "12 \<le> n" "n - 12 < ?N" | "12 \<le> n" "?N \<le> n - 12" by linarith
  then show ?thesis
  proof cases
    case 1
    then show ?thesis by (rule ufs_bmap_direct)
  next
    case 2
    then have "ufs_bmap_level ?N 0 (n - 12) 1 = (0, n - 12, 1)"
      using N NN by (intro ufs_bmap_level_0) auto
    with 2 show ?thesis
      using ufs_bmap_walk_tree [OF N(1), of br 0]
      by (simp add: ufs_bmap_def bmap_spec_def NDADDR_def NIADDR_def del: ptr_tree.simps ufs_bmap_walk.simps)
  next
    case 3
    have "ufs_bmap_level ?N 0 (n - 12) 1 = ufs_bmap_level ?N 1 (n - 12 - ?N) ?N"
      using N n NN 3 by (intro ufs_bmap_level_to1) linarith+
    also have "\<dots> = (1, n - 12 - ?N, ?N)"
      using N n 3 by (intro ufs_bmap_level_1) linarith+
    finally have "ufs_bmap_level ?N 0 (n - 12) 1 = (1, n - 12 - ?N, ?N)" .
    with 3 n show ?thesis
      using ufs_bmap_walk_tree [OF N(1), of br 1]
      by (simp add: ufs_bmap_def bmap_spec_def NDADDR_def NIADDR_def numeral_2_eq_2 del: ptr_tree.simps ufs_bmap_walk.simps)
  qed
qed

lemma ufs_geom_nindir:
  assumes "ufs_geom s"
  shows "1024 \<le> s_nindir s" "s_nindir s \<le> 2048"
  using assms unfolding ufs_geom_def by linarith+

lemma ufs_geom_square:
  assumes "ufs_geom s"
  shows "1048576 \<le> (s_nindir s)\<^sup>2" "(s_nindir s)\<^sup>2 < 4294967296"
proof -
  have "1024 * 1024 \<le> s_nindir s * s_nindir s" "s_nindir s * s_nindir s \<le> 2048 * 2048"
    using ufs_geom_nindir [OF assms]
      mult_mono [of 1024 "s_nindir s" 1024 "s_nindir s"]
      mult_mono [of "s_nindir s" 2048 "s_nindir s" 2048] by linarith+
  then show "1048576 \<le> (s_nindir s)\<^sup>2" "(s_nindir s)\<^sup>2 < 4294967296"
    by (simp_all add: power2_eq_square)
qed

lemma ufs_bmap_spec_geom:
  assumes g: "ufs_geom s" and n: "0 \<le> n" "n * s_bsize s < 2147483648"
  shows "ufs_bmap br s ip n = bmap_spec br s ip n"
proof -
  have "n * 4096 \<le> n * s_bsize s"
    using g n by (intro mult_left_mono) (auto simp: ufs_geom_def)
  with n have "n < 524288" by linarith
  then show ?thesis
    using ufs_geom_nindir [OF g] ufs_geom_square [OF g] n
    by (intro ufs_bmap_spec_two_levels) linarith+
qed

lemma ufs_bmap_triple_8k:
  assumes "s_nindir s = 2048" "12 + 2048 + 2048\<^sup>2 \<le> n" "n < 4294967296"
  shows "ufs_bmap br s ip n = 0"
proof -
  let ?m = "n - 12 - 2048 - 2048\<^sup>2"
  have "ufs_bmap_level 2048 0 (n - 12) 1 = ufs_bmap_level 2048 1 (n - 12 - 2048) 2048"
    using assms by (intro ufs_bmap_level_to1) auto
  also have "\<dots> = ufs_bmap_level 2048 2 ?m (2048\<^sup>2)"
    using assms by (intro ufs_bmap_level_to2) auto
  also have "\<dots> = ufs_bmap_level 2048 3 (u32 (?m - 2048\<^sup>2 * 2048)) (u32 (2048\<^sup>2 * 2048))"
    using assms by (intro ufs_bmap_level_next) (simp_all add: NIADDR_def u32_def)
  also have "fst \<dots> = 3"
    by (subst ufs_bmap_level.simps) (simp add: NIADDR_def)
  finally have "fst (ufs_bmap_level 2048 0 (n - 12) 1) = 3" .
  then show ?thesis
    using assms
    by (cases "ufs_bmap_level 2048 0 (n - 12) 1") (simp add: ufs_bmap_def NDADDR_def NIADDR_def)
qed

section \<open>A file as a sequence of bytes\<close>

text \<open>The bytes of block \<open>blk\<close> that are on the disk, and byte \<open>i\<close> of the file.\<close>

definition blk_bytes :: "UFS \<Rightarrow> int \<Rightarrow> int \<Rightarrow> int" where
  "blk_bytes s sz blk =
    min (s_bsize s) (((sz - blk * s_bsize s + s_fsize s - 1) div s_fsize s) * s_fsize s)"

definition ufs_byte :: "bio \<Rightarrow> UFS \<Rightarrow> ufs_dinode \<Rightarrow> int \<Rightarrow> byte" where
  "ufs_byte br s ip i =
    (let blk = i div s_bsize s; frag = bmap_spec br s ip blk
     in if frag = 0 then 0
        else (case ufs_bread br s frag (blk_bytes s (isize ip) blk) of
                None \<Rightarrow> 0 | Some d \<Rightarrow> d ! nat (i mod s_bsize s)))"

definition ufs_content :: "bio \<Rightarrow> UFS \<Rightarrow> ufs_dinode \<Rightarrow> byte list" where
  "ufs_content br s ip = map (\<lambda>i. ufs_byte br s ip (int i)) [0..<nat (isize ip)]"

text \<open>
  A readable file: sane geometry, a size a \<open>long\<close> holds, and a device that delivers as many
  bytes as asked for, for each block of the file that is not a hole.
\<close>

definition file_ok :: "bio \<Rightarrow> UFS \<Rightarrow> ufs_dinode \<Rightarrow> bool" where
  "file_ok br s ip \<longleftrightarrow> ufs_geom s \<and> 0 \<le> isize ip \<and> isize ip < 2147483648 \<and>
     (\<forall>blk. 0 \<le> blk \<and> blk * s_bsize s < isize ip \<and> bmap_spec br s ip blk \<noteq> 0 \<longrightarrow>
        (\<exists>d. ufs_bread br s (bmap_spec br s ip blk) (blk_bytes s (isize ip) blk) = Some d \<and>
             int (length d) = blk_bytes s (isize ip) blk))"

lemma ufs_geom_pow:
  assumes "ufs_geom s"
  obtains b f where "b = nat (s_bshift s)" "f = nat (s_fshift s)"
    "s_bsize s = 2 ^ b" "s_fsize s = 2 ^ f" "f \<le> b" "2 ^ b \<le> (8192 :: int)" "4096 \<le> (2 ^ b :: int)"
    "(512 :: int) \<le> 2 ^ f"
  using assms by (force simp: ufs_geom_def)

lemma round_up_min:
  assumes "(0 :: int) < f" "f dvd B"
  shows "(if B < x then B else x) + f - 1 - ((if B < x then B else x) + f - 1) mod f
       = min B (((x + f - 1) div f) * f)"
proof -
  obtain k where k: "B = f * k" using assms(2) by (elim dvdE)
  have r: "y + f - 1 - (y + f - 1) mod f = ((y + f - 1) div f) * f" for y
    by (simp add: minus_mod_eq_div_mult)
  have B: "((B + f - 1) div f) * f = B"
  proof -
    have e: "B + f - 1 = (f - 1) + f * k" using k by simp
    have "(B + f - 1) div f = k"
      unfolding e using assms(1) by (subst div_mult_self2) simp_all
    then show ?thesis using k by (metis mult.commute)
  qed
  show ?thesis
  proof (cases "B < x")
    case True
    then have "((B + f - 1) div f) * f \<le> ((x + f - 1) div f) * f"
      using assms(1) by (intro mult_right_mono zdiv_mono1) auto
    with True show ?thesis by (simp add: r B)
  next
    case False
    then have "((x + f - 1) div f) * f \<le> ((B + f - 1) div f) * f"
      using assms(1) by (intro mult_right_mono zdiv_mono1) auto
    with False show ?thesis by (simp add: r B)
  qed
qed

lemma ufs_have_eq:
  assumes g: "ufs_geom s" and sz: "0 \<le> sz" "sz < 2147483648"
    and blk: "0 \<le> blk" "blk * s_bsize s < sz"
  shows "ufs_have s sz blk = blk_bytes s sz blk"
proof -
  obtain b f where p: "b = nat (s_bshift s)" "f = nat (s_fshift s)"
    "s_bsize s = 2 ^ b" "s_fsize s = 2 ^ f" "f \<le> b" "2 ^ b \<le> (8192 :: int)"
    "(4096 :: int) \<le> 2 ^ b" "(512 :: int) \<le> 2 ^ f"
    using g by (rule ufs_geom_pow)
  have f: "(2 ^ f :: int) \<le> 8192" using p(5,6)
    by (meson dual_order.trans one_le_numeral power_increasing)
  have x: "s32 (sz - push_bit b blk) = sz - blk * 2 ^ b"
  proof -
    have "0 \<le> blk * 2 ^ b" using blk(1) by simp
    then have "s32 (sz - blk * 2 ^ b) = sz - blk * 2 ^ b"
      using sz blk(2) unfolding p(3) by (intro s32_id) linarith+
    then show ?thesis by (simp add: push_bit_eq_mult)
  qed
  define y where "y = (if 2 ^ b < sz - blk * 2 ^ b then 2 ^ b else sz - blk * 2 ^ b)"
  have y: "0 < y" "y \<le> 8192"
    using p(3,6,7) blk by (auto simp: y_def)
  have "s32 (y + 2 ^ f - 1) = y + 2 ^ f - 1"
    using y f p(8) by (intro s32_id) auto
  then have "ufs_have s sz blk = (y + 2 ^ f - 1) - (y + 2 ^ f - 1) mod 2 ^ f"
    unfolding ufs_have_def Let_def p(3,4) p(1) [symmetric] x y_def [symmetric]
    by (simp add: and_not_pow2_minus_1)
  also have "\<dots> = blk_bytes s sz blk"
    using round_up_min [of "2 ^ f" "2 ^ b" "sz - blk * 2 ^ b"] p(5)
    by (simp add: y_def blk_bytes_def p(3,4) le_imp_power_dvd)
  finally show ?thesis .
qed


lemma ufs_byte_in_block:
  assumes B: "0 < s_bsize s" and k: "0 \<le> k" "pos mod s_bsize s + k < s_bsize s"
  shows "ufs_byte br s ip (pos + k) =
    (let blk = pos div s_bsize s; frag = bmap_spec br s ip blk
     in if frag = 0 then 0
        else (case ufs_bread br s frag (blk_bytes s (isize ip) blk) of
                None \<Rightarrow> 0 | Some d \<Rightarrow> d ! nat (pos mod s_bsize s + k)))"
proof -
  have e: "pos + k = (pos mod s_bsize s + k) + s_bsize s * (pos div s_bsize s)"
    by (simp add: algebra_simps)
  have "(pos + k) div s_bsize s = pos div s_bsize s"
    unfolding e using B k by (subst div_mult_self2) (simp_all add: div_pos_pos_trivial)
  moreover have "(pos + k) mod s_bsize s = pos mod s_bsize s + k"
    unfolding e using B k by (subst mod_mult_self2) (simp_all add: mod_pos_pos_trivial)
  ultimately show ?thesis by (simp add: ufs_byte_def Let_def cong: option.case_cong)
qed

lemma blk_bytes_ge:
  assumes g: "ufs_geom s"
    and i: "pos div s_bsize s * s_bsize s + j \<le> sz" "j \<le> s_bsize s"
  shows "j \<le> blk_bytes s sz (pos div s_bsize s)"
proof -
  let ?x = "sz - pos div s_bsize s * s_bsize s"
  have f: "0 < s_fsize s" using g by (simp add: ufs_geom_def)
  have "?x + s_fsize s - 1 - (?x + s_fsize s - 1) mod s_fsize s \<ge> ?x"
    using pos_mod_bound [OF f, of "?x + s_fsize s - 1"] by linarith
  then have "?x \<le> (?x + s_fsize s - 1) div s_fsize s * s_fsize s"
    by (simp add: minus_mod_eq_div_mult)
  then show ?thesis using i by (simp add: blk_bytes_def)
qed

text \<open>One round of the loop, with the shifts and masks read as division by the block size.\<close>

lemma ufs_readloop_step:
  assumes g: "ufs_geom s" and sz: "isize ip < 2147483648"
    and p: "0 \<le> pos" "0 < len" "pos + len \<le> isize ip"
    and blk: "blk = pos div s_bsize s" and off: "off = pos mod s_bsize s"
    and n: "n = (if s_bsize s - off > len then len else s_bsize s - off)"
    and frag: "frag = bmap_spec br s ip blk"
  shows "ufs_readloop br s ip pos len =
    (if frag = 0 then
       Option.bind (ufs_readloop br s ip (pos + n) (len - n))
          (\<lambda>r. Some (replicate (nat n) 0 @ r))
     else (case ufs_bread br s frag (blk_bytes s (isize ip) blk) of
           None \<Rightarrow> Some []
         | Some d \<Rightarrow>
             if off + n > int (length d) then None
             else Option.bind (ufs_readloop br s ip (pos + n) (len - n))
                    (\<lambda>r. Some (take (nat n) (drop (nat off) d) @ r))))"
proof -
  obtain b where b: "b = nat (s_bshift s)" "s_bsize s = 2 ^ b" and B0: "0 < s_bsize s"
    using g by (auto simp: ufs_geom_def)
  have blk0: "0 \<le> blk" using p B0 by (simp add: blk pos_imp_zdiv_nonneg_iff)
  have blk1: "blk * s_bsize s \<le> pos" 
    using div_mult_mod_eq [of pos "s_bsize s"] pos_mod_sign [OF B0, of pos]
    unfolding blk by linarith
  have blk_le: "blk \<le> pos"
    using mult_left_mono [of 1 "s_bsize s" blk] B0 blk0 blk1 by linarith
  have 1: "u32 (drop_bit (nat (s_bshift s)) pos) = blk"
    using p sz blk0 blk_le
    by (simp add: drop_bit_eq_div b(1) [symmetric] b(2) [symmetric] blk [symmetric] u32_id)
  have 2: "pos AND (s_bsize s - 1) = off"
    by (simp add: b(2) and_pow2_minus_1 off)
  have 3: "ufs_have s (isize ip) blk = blk_bytes s (isize ip) blk"
    using g sz p blk0 blk1 by (intro ufs_have_eq) auto
  have 4: "ufs_bmap br s ip blk = frag"
    unfolding frag using g p blk0 blk1 sz by (intro ufs_bmap_spec_geom) auto
  show ?thesis
    unfolding ufs_readloop.simps [of br s ip pos len] Let_def 1 2 3 4 n [symmetric]
    using p by simp
qed

text \<open>The bytes one round copies are the file's.\<close>

lemma ufs_chunk:
  assumes ok: "file_ok br s ip" and p: "0 \<le> pos"
    and blk: "blk = pos div s_bsize s" and off: "off = pos mod s_bsize s"
    and n: "0 < n" "pos + n \<le> isize ip" "off + n \<le> s_bsize s"
    and frag: "frag = bmap_spec br s ip blk"
  shows "if frag = 0
    then map (\<lambda>k. ufs_byte br s ip (pos + int k)) [0..<nat n] = replicate (nat n) 0
    else \<exists>d. ufs_bread br s frag (blk_bytes s (isize ip) blk) = Some d \<and> off + n \<le> int (length d) \<and>
           map (\<lambda>k. ufs_byte br s ip (pos + int k)) [0..<nat n] = take (nat n) (drop (nat off) d)"
proof -
  have g: "ufs_geom s" and B0: "0 < s_bsize s"
    using ok by (auto simp: file_ok_def ufs_geom_def)
  have off0: "0 \<le> off" and pb: "pos = blk * s_bsize s + off"
    using B0 by (simp_all add: off blk)
  have chunk: "ufs_byte br s ip (pos + int k) =
      (if frag = 0 then 0 else case ufs_bread br s frag (blk_bytes s (isize ip) blk) of
          None \<Rightarrow> 0 | Some d \<Rightarrow> d ! (nat off + k))" if "k < nat n" for k
  proof -
    have "nat (off + int k) = nat off + k" using off0 by simp
    then show ?thesis
      using ufs_byte_in_block [OF B0, of "int k" pos br ip] that n
      by (simp add: blk [symmetric] off [symmetric] frag Let_def cong: option.case_cong)
  qed
  show ?thesis
  proof (cases "frag = 0")
    case True
    then show ?thesis using chunk by (auto intro!: nth_equalityI)
  next
    case False
    have "0 \<le> blk" using p B0 by (simp add: blk pos_imp_zdiv_nonneg_iff)
    moreover have "blk * s_bsize s < isize ip" using p n off0 pb by linarith
    moreover note False
    ultimately obtain d where d: "ufs_bread br s frag (blk_bytes s (isize ip) blk) = Some d"
      "int (length d) = blk_bytes s (isize ip) blk"
      using ok by (auto simp: file_ok_def frag)
    have "blk * s_bsize s + (off + n) \<le> isize ip" using n pb by linarith
    then have len: "off + n \<le> int (length d)"
      using blk_bytes_ge [OF g, of pos "off + n" "isize ip"] n by (simp add: d(2) blk)
    have "ufs_byte br s ip (pos + int k) = d ! (nat off + k)" if "k < nat n" for k
      using chunk [OF that] False d(1) by simp
    then have "map (\<lambda>k. ufs_byte br s ip (pos + int k)) [0..<nat n] = take (nat n) (drop (nat off) d)"
      using len off0 n by (intro nth_equalityI) auto
    then show ?thesis using False d(1) len by auto
  qed
qed

lemma ufs_readloop_content:
  assumes ok: "file_ok br s ip" and "0 \<le> pos" "0 \<le> len" "pos + len \<le> isize ip"
  shows "ufs_readloop br s ip pos len =
    Some (map (\<lambda>i. ufs_byte br s ip (int i)) [nat pos..<nat (pos + len)])"
  using assms(2-)
proof (induction "nat len" arbitrary: pos len rule: less_induct)
  case less
  show ?case
  proof (cases "len = 0")
    case True
    then show ?thesis by (simp add: ufs_readloop.simps)
  next
    case False
    have g: "ufs_geom s" and sz: "isize ip < 2147483648" and B0: "0 < s_bsize s"
      using ok by (auto simp: file_ok_def ufs_geom_def)
    define blk off where bo: "blk = pos div s_bsize s" "off = pos mod s_bsize s"
    define n where n_def: "n = (if s_bsize s - off > len then len else s_bsize s - off)"
    define frag where frag: "frag = bmap_spec br s ip blk"
    have "off < s_bsize s" using B0 by (simp add: bo)
    then have n: "0 < n" "n \<le> len" "off + n \<le> s_bsize s"
      using less.prems False by (auto simp: n_def)
    have IH: "ufs_readloop br s ip (pos + n) (len - n) =
        Some (map (\<lambda>i. ufs_byte br s ip (int i)) [nat (pos + n)..<nat (pos + len)])"
      using less.hyps [of "len - n" "pos + n"] less.prems n by simp
    have "map (\<lambda>i. ufs_byte br s ip (int i)) [nat pos..<nat (pos + len)] =
        map (\<lambda>i. ufs_byte br s ip (int i)) [nat pos..<nat (pos + n)] @
        map (\<lambda>i. ufs_byte br s ip (int i)) [nat (pos + n)..<nat (pos + len)]"
      using less.prems n by (intro map_upt_split) auto
    moreover have "map (\<lambda>i. ufs_byte br s ip (int i)) [nat pos..<nat (pos + n)] =
        map (\<lambda>k. ufs_byte br s ip (pos + int k)) [0..<nat n]"
      using less.prems n by (intro nth_equalityI) auto
    moreover note ufs_chunk [OF ok less.prems(1) bo n(1) _ n(3) frag]
    ultimately show ?thesis
      using ufs_readloop_step [OF g sz less.prems(1) _ less.prems(3) bo n_def frag] less.prems n False
      by (auto simp: IH split: if_splits)
  qed
qed

lemma ufs_readfile_slice:
  assumes "file_ok br s ip" "0 \<le> pos" "0 \<le> len"
  shows "ufs_readfile br s ip pos len = Some (take (nat len) (drop (nat pos) (ufs_content br s ip)))"
proof (cases "pos \<ge> isize ip")
  case True
  then show ?thesis using assms by (simp add: ufs_readfile_def ufs_content_def)
next
  case False
  define l where "l = (if len > isize ip - pos then isize ip - pos else len)"
  have "s32 (isize ip - pos) = isize ip - pos"
    using assms False by (intro s32_id) (auto simp: file_ok_def)
  then have "ufs_readfile br s ip pos len = ufs_readloop br s ip pos l"
    using False by (simp add: ufs_readfile_def l_def Let_def)
  also have "\<dots> = Some (map (\<lambda>i. ufs_byte br s ip (int i)) [nat pos..<nat (pos + l)])"
    using assms False by (intro ufs_readloop_content) (auto simp: l_def)
  also have "map (\<lambda>i. ufs_byte br s ip (int i)) [nat pos..<nat (pos + l)] =
      take (nat len) (drop (nat pos) (ufs_content br s ip))"
    using assms False by (intro nth_equalityI) (auto simp: ufs_content_def l_def split: if_splits)
  finally show ?thesis .
qed

section \<open>Where the inodes lie\<close>

text \<open>
  The layout \<open>newfs\<close> makes: the inode blocks of cylinder group \<open>cg\<close> lie inside the group's
  own fragments, and a group's inodes fill whole blocks.
\<close>

definition cg_start_off :: "UFS \<Rightarrow> int \<Rightarrow> int" where
  "cg_start_off s cg = s_cgoffset s * (cg AND NOT (s_cgmask s)) + s_iblkno s"

definition ufs_ilayout :: "UFS \<Rightarrow> bool" where
  "ufs_ilayout s \<longleftrightarrow> ufs_geom s \<and> s_inopb s dvd s_ipg s \<and>
     (\<forall>cg. 0 \<le> cg \<and> cg < s_ncg s \<longrightarrow> 0 \<le> cg_start_off s cg \<and>
        cg_start_off s cg + (s_ipg s div s_inopb s) * s_frag s \<le> s_fpg s) \<and>
     s_fpg s * s_ncg s < 4294967296 \<and> s_ipg s * s_ncg s < 4294967296"

lemma ufs_geomD:
  assumes "ufs_geom s"
  shows "4096 \<le> s_bsize s" "s_bsize s \<le> 8192" "s_frag s = s_bsize s div s_fsize s"
    "s_nindir s = s_bsize s div 4" "s_inopb s = s_bsize s div 128"
    "0 < s_ipg s" "0 < s_fpg s" "0 < s_ncg s" "0 < s_fsize s" "s_fsize s \<le> s_bsize s"
  using assms unfolding ufs_geom_def by auto

lemma ufs_geom_frag_inopb:
  assumes "ufs_geom s"
  shows "0 < s_frag s" "32 \<le> s_inopb s" "s_inopb s * 128 = s_bsize s"
proof -
  note g = ufs_geomD [OF assms]
  obtain b where b: "s_bsize s = 2 ^ b" using assms by (auto simp: ufs_geom_def)
  have "(2 :: int) ^ 12 \<le> 2 ^ b" using g(1) by (simp add: b)
  then have "12 \<le> b" by (subst (asm) power_increasing_iff) simp_all
  then have "(128 :: int) dvd s_bsize s"
    using le_imp_power_dvd [of 7 b "2 :: int"] by (simp add: b)
  then show "s_inopb s * 128 = s_bsize s" by (simp add: g(5))
  then show "32 \<le> s_inopb s" using g(1) by linarith
  show "0 < s_frag s" using g by (simp add: g(3) pos_imp_zdiv_pos_iff)
qed

lemma ufs_inode_parts:
  assumes l: "ufs_ilayout s" and ino: "0 \<le> ino" "ino < s_ipg s * s_ncg s"
    and cg_def: "cg = ino div s_ipg s" and b_def: "b = (ino mod s_ipg s) div s_inopb s"
  shows "0 \<le> cg" "cg < s_ncg s" "0 \<le> b" "b < s_ipg s div s_inopb s"
    "ino = cg * s_ipg s + b * s_inopb s + ino mod s_inopb s"
    "ufs_inode_frag s ino = s_fpg s * cg + cg_start_off s cg + b * s_frag s"
    "s_fpg s * cg \<le> ufs_inode_frag s ino"
    "ufs_inode_frag s ino + s_frag s \<le> s_fpg s * (cg + 1)"
proof -
  have geo: "ufs_geom s" and dv: "s_inopb s dvd s_ipg s"
    and bnd: "s_fpg s * s_ncg s < 4294967296"
    using l by (simp_all add: ufs_ilayout_def)
  note g = ufs_geomD [OF geo] and fr = ufs_geom_frag_inopb [OF geo]
  have i0: "0 < s_inopb s" using fr(2) by simp
  define M where "M = s_ipg s div s_inopb s"
  have M: "s_inopb s * M = s_ipg s" using dv by (simp add: M_def)
  show cg: "0 \<le> cg" "cg < s_ncg s"
    using ino g(6) by (simp_all add: cg_def pos_imp_zdiv_nonneg_iff int_div_less)
  have r: "0 \<le> ino mod s_ipg s" "ino mod s_ipg s < s_inopb s * M" using g(6) by (simp_all add: M)
  then have b: "0 \<le> b" "b < M"
    using i0 by (simp_all add: b_def pos_imp_zdiv_nonneg_iff int_div_less)
  show "0 \<le> b" "b < s_ipg s div s_inopb s" using b by (simp_all add: M_def)
  have "ino mod s_ipg s mod s_inopb s = ino mod s_inopb s" using dv by (rule mod_mod_cancel)
  then show "ino = cg * s_ipg s + b * s_inopb s + ino mod s_inopb s"
    unfolding cg_def b_def
    using div_mult_mod_eq [of ino "s_ipg s"] div_mult_mod_eq [of "ino mod s_ipg s" "s_inopb s"]
    by linarith
  have lay: "0 \<le> cg_start_off s cg" "cg_start_off s cg + M * s_frag s \<le> s_fpg s"
    using l cg by (simp_all add: ufs_ilayout_def M_def)
  have bf: "0 \<le> b * s_frag s" "b * s_frag s + s_frag s \<le> M * s_frag s"
    using b fr(1) mult_right_mono [of "b + 1" M "s_frag s"] by (simp_all add: algebra_simps)
  have fc: "0 \<le> s_fpg s * cg" "s_fpg s * cg + s_fpg s \<le> s_fpg s * s_ncg s"
    using cg g(7) mult_left_mono [of "cg + 1" "s_ncg s" "s_fpg s"] by (simp_all add: algebra_simps)
  have "u32 (s_fpg s * cg + cg_start_off s cg + b * s_frag s) =
      s_fpg s * cg + cg_start_off s cg + b * s_frag s"
    using lay bf fc bnd fr(1) by (intro u32_id) linarith+
  then show fe: "ufs_inode_frag s ino = s_fpg s * cg + cg_start_off s cg + b * s_frag s"
    by (simp add: ufs_inode_frag_def ufs_inode_cg_def cg_start_off_def cg_def b_def Let_def add.assoc)
  show "s_fpg s * cg \<le> ufs_inode_frag s ino" using fe lay bf by linarith
  show "ufs_inode_frag s ino + s_frag s \<le> s_fpg s * (cg + 1)"
    using fe lay bf by (simp add: algebra_simps)
qed

lemma ufs_inode_location:
  assumes l: "ufs_ilayout s"
    and i: "0 \<le> i" "i < s_ipg s * s_ncg s" and j: "0 \<le> j" "j < s_ipg s * s_ncg s"
    and eq: "ufs_inode_frag s i = ufs_inode_frag s j" "ufs_inode_off s i = ufs_inode_off s j"
  shows "i = j"
proof -
  have geo: "ufs_geom s" using l by (simp add: ufs_ilayout_def)
  note g = ufs_geomD [OF geo] and fr = ufs_geom_frag_inopb [OF geo]
  note pi = ufs_inode_parts [OF l i refl refl] and pj = ufs_inode_parts [OF l j refl refl]
  have "i div s_ipg s = j div s_ipg s"
  proof -
    have "x = y" if "s_fpg s * x \<le> f" "f + s_frag s \<le> s_fpg s * (x + 1)"
      "s_fpg s * y \<le> f" "f + s_frag s \<le> s_fpg s * (y + 1)" for x y f
    proof -
      have "f div s_fpg s = x"
        using that(1,2) fr(1) by (intro int_div_eqI [where r = "f - s_fpg s * x"]) (auto simp: algebra_simps)
      moreover have "f div s_fpg s = y"
        using that(3,4) fr(1) by (intro int_div_eqI [where r = "f - s_fpg s * y"]) (auto simp: algebra_simps)
      ultimately have "x = y" by simp
      then show ?thesis by simp
    qed
    then show ?thesis using pi(7,8) pj(7,8) eq(1) by metis
  qed
  moreover from this have "(i mod s_ipg s) div s_inopb s = (j mod s_ipg s) div s_inopb s"
    using pi(6) pj(6) eq(1) fr(1) by simp
  moreover have "i mod s_inopb s = j mod s_inopb s"
    using eq(2) fr(2) by (simp add: ufs_inode_off_def nat_eq_iff)
  ultimately show ?thesis using pi(5) pj(5) by metis
qed

end
