(* ===== verification/UfsDir.thy ===== *)
theory UfsDir
  imports UfsFile
begin

text \<open>
  Directories of \<open>mint/ufsxfs/ufs.c\<close>: \<open>ufs_dirlookup\<close>, \<open>ufs_dirname\<close>, \<open>ufs_readdir\<close> and
  \<open>ufs_getname\<close>. Their loops take the reader as an argument (\<open>ufs_readfile\<close> of the
  directory), so that what they rely on is stated once, in the locale \<open>file_reader\<close>, and
  discharged by \<open>ufs_readfile_slice\<close>. The specification is a directory as a list of entries
  (\<open>dent\<close>) and the bytes they are encoded to. Names are byte lists without the final NUL; a
  name the code copies with \<open>strcpy\<close> or measures with \<open>strlen\<close> ends at its first NUL
  (\<open>cstr\<close>). \<open>kmalloc\<close> may fail: its outcome is an argument.
\<close>

section \<open>The entry header\<close>

record ufs_direct =
  d_ino :: int
  d_reclen :: int
  d_namlen :: int

definition ufs_direct_at :: "byte list \<Rightarrow> nat \<Rightarrow> ufs_direct" where
  "ufs_direct_at blk off = \<lparr>d_ino = g32 blk off, d_reclen = g16 blk (off + 4),
     d_namlen = g16 blk (off + 6)\<rparr>"

section \<open>Looking a name up\<close>

text \<open>
  The scan of one block read: a hit, an entry whose length is impossible (the code gives
  up), the end of the block, or a comparison that runs past the bytes read.
\<close>

datatype dscan = DHit int | DBad | DEnd | DFault

function dirlookup_scan :: "byte list \<Rightarrow> nat \<Rightarrow> byte list \<Rightarrow> dscan" where
  "dirlookup_scan blk off name =
    (if off + 8 \<le> length blk then
       let d = ufs_direct_at blk off
       in if d_reclen d < 8 then DBad
          else if d_ino d \<noteq> 0 \<and> d_namlen d = int (length name) then
            if off + 8 + length name > length blk then DFault
            else if take (length name) (drop (off + 8) blk) = name then DHit (d_ino d)
            else dirlookup_scan blk (off + nat (d_reclen d)) name
          else dirlookup_scan blk (off + nat (d_reclen d)) name
     else DEnd)"
  by pat_completeness auto
termination
  by (relation "measure (\<lambda>(blk, off, name). length blk - off)") auto

declare dirlookup_scan.simps [simp del]

function dirlookup_loop ::
    "(int \<Rightarrow> int \<Rightarrow> byte list option) \<Rightarrow> int \<Rightarrow> int \<Rightarrow> int \<Rightarrow> byte list \<Rightarrow> int option" where
  "dirlookup_loop rd bsize sz pos name =
    (if pos < sz then
       (case rd pos bsize of
          None \<Rightarrow> None
        | Some blk \<Rightarrow>
            if blk = [] then Some 0
            else (case dirlookup_scan blk 0 name of
                    DHit i \<Rightarrow> Some i
                  | DBad \<Rightarrow> Some 0
                  | DFault \<Rightarrow> None
                  | DEnd \<Rightarrow> dirlookup_loop rd bsize sz (pos + int (length blk)) name))
     else Some 0)"
  by pat_completeness auto
termination
  by (relation "measure (\<lambda>(rd, bsize, sz, pos, name). nat (sz - pos))") auto

declare dirlookup_loop.simps [simp del]

definition ufs_dirlookup ::
    "bool \<Rightarrow> bio \<Rightarrow> UFS \<Rightarrow> ufs_dinode \<Rightarrow> byte list \<Rightarrow> int option" where
  "ufs_dirlookup km br s dir name =
    (if \<not> km then Some 0
     else dirlookup_loop (ufs_readfile br s dir) (s_bsize s) (isize dir) 0 name)"

section \<open>The name of an inode\<close>

datatype nscan = NHit "byte list" | NLong | NBad | NEnd | NFault

function dirname_scan :: "byte list \<Rightarrow> nat \<Rightarrow> int \<Rightarrow> int \<Rightarrow> nscan" where
  "dirname_scan blk off ino mx =
    (if off + 8 \<le> length blk then
       let d = ufs_direct_at blk off
       in if d_reclen d < 8 then NBad
          else if d_ino d = ino then
            if d_namlen d \<ge> mx then NLong
            else if off + 8 + nat (d_namlen d) > length blk then NFault
            else NHit (take (nat (d_namlen d)) (drop (off + 8) blk))
          else dirname_scan blk (off + nat (d_reclen d)) ino mx
     else NEnd)"
  by pat_completeness auto
termination
  by (relation "measure (\<lambda>(blk, off, ino, mx). length blk - off)") auto

declare dirname_scan.simps [simp del]

function dirname_loop ::
    "(int \<Rightarrow> int \<Rightarrow> byte list option) \<Rightarrow> int \<Rightarrow> int \<Rightarrow> int \<Rightarrow> int \<Rightarrow> int \<Rightarrow> (merr + byte list) option"
  where
  "dirname_loop rd bsize sz pos ino mx =
    (if pos < sz then
       (case rd pos bsize of
          None \<Rightarrow> None
        | Some blk \<Rightarrow>
            if blk = [] then Some (Inl ENOENT)
            else (case dirname_scan blk 0 ino mx of
                    NHit nm \<Rightarrow> Some (Inr nm)
                  | NLong \<Rightarrow> Some (Inl EBADARG)
                  | NBad \<Rightarrow> Some (Inl ENOENT)
                  | NFault \<Rightarrow> None
                  | NEnd \<Rightarrow> dirname_loop rd bsize sz (pos + int (length blk)) ino mx))
     else Some (Inl ENOENT))"
  by pat_completeness auto
termination
  by (relation "measure (\<lambda>(rd, bsize, sz, pos, ino, mx). nat (sz - pos))") auto

declare dirname_loop.simps [simp del]

definition ufs_dirname ::
    "bool \<Rightarrow> bio \<Rightarrow> UFS \<Rightarrow> ufs_dinode \<Rightarrow> int \<Rightarrow> int \<Rightarrow> (merr + byte list) option" where
  "ufs_dirname km br s dir ino mx =
    (if \<not> km then Some (Inl ENOMEM)
     else dirname_loop (ufs_readfile br s dir) (s_bsize s) (isize dir) 0 ino mx)"

section \<open>Reading a directory entry by entry\<close>

record ufs_dirinfo =
  di_pos :: int
  di_size :: int

text \<open>
  One \<open>readdir\<close>: the caller's buffer has \<open>nmlen\<close> bytes; unless the directory was opened in
  TOS mode the inode number goes in front of the name. The result is an error or the bytes
  put into the buffer (without the final NUL) and the inode number for the cookie, with the
  new position.
\<close>

function readdir_loop ::
    "(int \<Rightarrow> int \<Rightarrow> byte list option) \<Rightarrow> bool \<Rightarrow> int \<Rightarrow> int \<Rightarrow> int \<Rightarrow>
     ((merr + byte list \<times> int) \<times> int) option" where
  "readdir_loop rd tos nmlen sz pos =
    (if pos < sz then
       (case rd pos 8 of
          None \<Rightarrow> None
        | Some h \<Rightarrow>
            let d = ufs_direct_at h 0
            in if length h < 8 \<or> d_reclen d < 8 then Some (Inl ENMFILES, pos)
               else if d_ino d \<noteq> 0 \<and> d_namlen d \<le> MAXNAMLEN then
                 (case rd (pos + 8) (d_namlen d) of
                    None \<Rightarrow> None
                  | Some nm \<Rightarrow>
                      if int (length nm) < d_namlen d then Some (Inl ENMFILES, pos + d_reclen d)
                      else if \<not> tos \<and> nmlen < 4 then None
                      else
                        let room = (if tos then nmlen else nmlen - 4);
                            pre = (if tos then [] else p32 (d_ino d))
                        in if room \<le> d_namlen d then Some (Inl EBADARG, pos + d_reclen d)
                           else Some (Inr (pre @ cstr nm, d_ino d), pos + d_reclen d))
               else readdir_loop rd tos nmlen sz (pos + d_reclen d))
     else Some (Inl ENMFILES, pos))"
  by pat_completeness auto
termination
  by (relation "measure (\<lambda>(rd, tos, nmlen, sz, pos). nat (sz - pos))") auto

declare readdir_loop.simps [simp del]

section \<open>The path of a directory\<close>

text \<open>
  The walk up through \<open>..\<close>: \<open>path\<close> is what has been put into the buffer so far (the pieces
  reversed), \<open>sz\<close> the buffer's size less one. \<open>km\<close> says which of the walk's allocations
  succeed, by number. The walk ends even where the parents form a cycle: each round puts a
  \<open>/\<close> into the buffer. \<open>None\<close>: a block is read past its end.
\<close>

function getname_loop ::
    "(nat \<Rightarrow> bool) \<Rightarrow> bio \<Rightarrow> UFS \<Rightarrow> int \<Rightarrow> int \<Rightarrow> nat \<Rightarrow> int \<Rightarrow> byte list \<Rightarrow>
     (merr + byte list) option" where
  "getname_loop km br s root_ino sz k ino path =
    (if ino = root_ino then Some (Inr (rev path))
     else
       (case ufs_iget br s ino of
          Inl e \<Rightarrow> Some (Inl e)
        | Inr node \<Rightarrow>
          (case ufs_dirlookup (km k) br s node [46, 46] of
             None \<Rightarrow> None
           | Some parent \<Rightarrow>
             if parent = 0 then Some (Inl ENOENT)
             else (case ufs_iget br s parent of
                 Inl e \<Rightarrow> Some (Inl e)
               | Inr pnode \<Rightarrow>
                 (case ufs_dirname (km (k + 1)) br s pnode ino 256 of
                    None \<Rightarrow> None
                  | Some (Inl e) \<Rightarrow> Some (Inl e)
                  | Some (Inr nm) \<Rightarrow>
                      if int (length path) + int (length (cstr nm)) + 1 > sz
                      then Some (Inl EBADARG)
                      else getname_loop km br s root_ino sz (k + 2) parent
                             (path @ rev (cstr nm) @ [47]))))))"
  by pat_completeness auto
termination
  by (relation "measure (\<lambda>(km, br, s, root_ino, sz, k, ino, path). nat (sz - int (length path)))") auto

declare getname_loop.simps [simp del]

section \<open>A directory as a list of entries\<close>

record dent =
  e_ino :: int
  e_name :: "byte list"
  e_pad :: "byte list"

definition dent_len :: "dent \<Rightarrow> nat" where
  "dent_len e = 8 + length (e_name e) + length (e_pad e)"

definition enc_dent :: "dent \<Rightarrow> byte list" where
  "enc_dent e = p32 (e_ino e) @ p16 (int (dent_len e)) @ p16 (int (length (e_name e))) @
     e_name e @ e_pad e"

definition enc_dents :: "dent list \<Rightarrow> byte list" where
  "enc_dents es = concat (map enc_dent es)"

definition wf_dent :: "dent \<Rightarrow> bool" where
  "wf_dent e \<longleftrightarrow> 0 \<le> e_ino e \<and> e_ino e < 4294967296 \<and> dent_len e < 65536 \<and>
     length (e_name e) \<le> 255 \<and> 0 \<notin> set (e_name e)"

text \<open>The inode of the first live entry with the name, 0 when there is none.\<close>

definition dir_find :: "dent list \<Rightarrow> byte list \<Rightarrow> int" where
  "dir_find es name =
    (case find (\<lambda>e. e_ino e \<noteq> 0 \<and> e_name e = name) es of None \<Rightarrow> 0 | Some e \<Rightarrow> e_ino e)"

text \<open>Entries do not cross a block: the blocks but the last are full.\<close>

fun blocks_ok :: "int \<Rightarrow> dent list list \<Rightarrow> bool" where
  "blocks_ok B [] = True"
| "blocks_ok B [b] = (b \<noteq> [] \<and> int (length (enc_dents b)) \<le> B)"
| "blocks_ok B (b # b' # bs) = (b \<noteq> [] \<and> int (length (enc_dents b)) = B \<and> blocks_ok B (b' # bs))"

lemma length_enc_dent [simp]: "length (enc_dent e) = dent_len e"
  by (simp add: enc_dent_def dent_len_def)

lemma enc_dents_simps [simp]:
  "enc_dents [] = []" "enc_dents (e # es) = enc_dent e @ enc_dents es"
  "enc_dents (es @ fs) = enc_dents es @ enc_dents fs"
  by (simp_all add: enc_dents_def)

lemma dent_len_ge: "8 \<le> dent_len e" "dent_len e \<ge> 8 + length (e_name e)"
  by (simp_all add: dent_len_def)

lemma enc_dents_nonempty: "es \<noteq> [] \<Longrightarrow> enc_dents es \<noteq> []"
  by (cases es) (auto simp: enc_dents_def enc_dent_def p32_def p16_def)

lemma ufs_direct_at_shift:
  "ufs_direct_at (pre @ xs) (length pre + k) = ufs_direct_at xs k"
  by (simp add: ufs_direct_at_def be_simps)

lemma ufs_direct_at_enc:
  assumes "wf_dent e"
  shows "ufs_direct_at (enc_dent e @ xs) 0 =
    \<lparr>d_ino = e_ino e, d_reclen = int (dent_len e), d_namlen = int (length (e_name e))\<rparr>"
  using assms
  by (simp add: ufs_direct_at_def enc_dent_def wf_dent_def be_simps cint_simps)

lemma ufs_direct_at_dent:
  assumes "wf_dent e"
  shows "ufs_direct_at (pre @ enc_dent e @ xs) (length pre) =
    \<lparr>d_ino = e_ino e, d_reclen = int (dent_len e), d_namlen = int (length (e_name e))\<rparr>"
  using ufs_direct_at_shift [of pre "enc_dent e @ xs" 0] ufs_direct_at_enc [OF assms, of xs]
  by simp

lemma take_drop_name:
  "take (length (e_name e)) (drop (length pre + 8) (pre @ enc_dent e @ xs)) = e_name e"
  by (simp add: enc_dent_def)

lemma dirlookup_scan_dents:
  assumes "\<forall>e \<in> set es. wf_dent e"
  shows "dirlookup_scan (pre @ enc_dents es) (length pre) name =
    (case find (\<lambda>e. e_ino e \<noteq> 0 \<and> e_name e = name) es of
       None \<Rightarrow> DEnd | Some e \<Rightarrow> DHit (e_ino e))"
  using assms
proof (induction es arbitrary: pre)
  case Nil
  then show ?case by (subst dirlookup_scan.simps) simp
next
  case (Cons e es)
  have wf: "wf_dent e" using Cons.prems by simp
  let ?blk = "pre @ enc_dent e @ enc_dents es"
  have IH: "dirlookup_scan ?blk (length pre + dent_len e) name =
      (case find (\<lambda>e. e_ino e \<noteq> 0 \<and> e_name e = name) es of
       None \<Rightarrow> DEnd | Some e \<Rightarrow> DHit (e_ino e))"
    using Cons.IH [of "pre @ enc_dent e"] Cons.prems by simp
  have "dirlookup_scan ?blk (length pre) name =
      (if e_ino e \<noteq> 0 \<and> int (length (e_name e)) = int (length name) then
         if e_name e = name then DHit (e_ino e)
         else dirlookup_scan ?blk (length pre + dent_len e) name
       else dirlookup_scan ?blk (length pre + dent_len e) name)"
    using dent_len_ge [of e] take_drop_name [of e pre "enc_dents es"]
    unfolding dirlookup_scan.simps [of ?blk "length pre"] ufs_direct_at_dent [OF wf] Let_def
    by auto
  then show ?case by (simp add: IH)
qed

lemma find_append:
  "find P (xs @ ys) = (case find P xs of None \<Rightarrow> find P ys | Some x \<Rightarrow> Some x)"
  by (induction xs) auto

text \<open>The name of the first entry with an inode number.\<close>

definition dir_nameof :: "dent list \<Rightarrow> int \<Rightarrow> merr + byte list" where
  "dir_nameof es ino =
    (case find (\<lambda>e. e_ino e = ino) es of None \<Rightarrow> Inl ENOENT | Some e \<Rightarrow> Inr (e_name e))"

lemma dirname_scan_dents:
  assumes "\<forall>e \<in> set es. wf_dent e"
  shows "dirname_scan (pre @ enc_dents es) (length pre) ino 256 =
    (case find (\<lambda>e. e_ino e = ino) es of None \<Rightarrow> NEnd | Some e \<Rightarrow> NHit (e_name e))"
  using assms
proof (induction es arbitrary: pre)
  case Nil
  then show ?case by (subst dirname_scan.simps) simp
next
  case (Cons e es)
  have wf: "wf_dent e" using Cons.prems by simp
  let ?blk = "pre @ enc_dent e @ enc_dents es"
  have IH: "dirname_scan ?blk (length pre + dent_len e) ino 256 =
      (case find (\<lambda>e. e_ino e = ino) es of None \<Rightarrow> NEnd | Some e \<Rightarrow> NHit (e_name e))"
    using Cons.IH [of "pre @ enc_dent e"] Cons.prems by simp
  have "dirname_scan ?blk (length pre) ino 256 =
      (if e_ino e = ino then NHit (e_name e)
       else dirname_scan ?blk (length pre + dent_len e) ino 256)"
    using dent_len_ge [of e] take_drop_name [of e pre "enc_dents es"] wf
    unfolding dirname_scan.simps [of ?blk "length pre"] ufs_direct_at_dent [OF wf] Let_def
    by (auto simp: wf_dent_def)
  then show ?case by (simp add: IH)
qed

section \<open>What the loops rely on\<close>

locale file_reader =
  fixes good :: "'f \<Rightarrow> bool"
    and rd :: "'f \<Rightarrow> int \<Rightarrow> int \<Rightarrow> byte list option"
    and content :: "'f \<Rightarrow> byte list"
  assumes rd_slice: "good f \<Longrightarrow> 0 \<le> pos \<Longrightarrow> 0 \<le> len \<Longrightarrow>
    rd f pos len = Some (take (nat len) (drop (nat pos) (content f)))"
begin

lemma dirlookup_blocks:
  assumes f: "good f" and c: "content f = pre @ enc_dents (concat bls)"
    and wf: "\<forall>e \<in> set (concat bls). wf_dent e" and b: "blocks_ok B bls" and B: "0 < B"
    and pos: "pos = int (length pre)"
  shows "dirlookup_loop (rd f) B (int (length (content f))) pos name =
    Some (dir_find (concat bls) name)"
  using c wf b pos
proof (induction bls arbitrary: pre pos)
  case Nil
  then show ?case by (subst dirlookup_loop.simps) (simp add: dir_find_def)
next
  case (Cons b bls)
  have b: "b \<noteq> []" "int (length (enc_dents b)) \<le> B"
    and full: "bls \<noteq> [] \<Longrightarrow> int (length (enc_dents b)) = B" and bls: "blocks_ok B bls"
    using Cons.prems(3) by (cases bls; auto)+
  have rd: "rd f pos B = Some (enc_dents b)"
    using rd_slice [OF f, of pos B] Cons.prems(1,4) B b full by (cases bls) auto
  have ne: "enc_dents b \<noteq> []" using b(1) by (rule enc_dents_nonempty)
  have lt: "pos < int (length (content f))"
    using Cons.prems(1,4) ne by (cases "enc_dents b") auto
  have scan: "dirlookup_scan (enc_dents b) 0 name =
      (case find (\<lambda>e. e_ino e \<noteq> 0 \<and> e_name e = name) b of None \<Rightarrow> DEnd | Some e \<Rightarrow> DHit (e_ino e))"
    using dirlookup_scan_dents [of b "[]" name] Cons.prems(2) by simp
  have IH: "dirlookup_loop (rd f) B (int (length (content f))) (pos + int (length (enc_dents b))) name =
      Some (dir_find (concat bls) name)"
    using Cons.IH [of "pre @ enc_dents b"] Cons.prems bls by simp
  show ?case
    using lt ne rd IH unfolding dirlookup_loop.simps [of "rd f" B _ pos]
    by (cases "find (\<lambda>e. e_ino e \<noteq> 0 \<and> e_name e = name) b")
      (simp_all add: scan dir_find_def find_append)
qed


lemma dirname_blocks:
  assumes f: "good f" and c: "content f = pre @ enc_dents (concat bls)"
    and wf: "\<forall>e \<in> set (concat bls). wf_dent e" and b: "blocks_ok B bls" and B: "0 < B"
    and pos: "pos = int (length pre)"
  shows "dirname_loop (rd f) B (int (length (content f))) pos ino 256 =
    Some (dir_nameof (concat bls) ino)"
  using c wf b pos
proof (induction bls arbitrary: pre pos)
  case Nil
  then show ?case by (subst dirname_loop.simps) (simp add: dir_nameof_def)
next
  case (Cons b bls)
  have b: "b \<noteq> []" "int (length (enc_dents b)) \<le> B"
    and full: "bls \<noteq> [] \<Longrightarrow> int (length (enc_dents b)) = B" and bls: "blocks_ok B bls"
    using Cons.prems(3) by (cases bls; auto)+
  have rd: "rd f pos B = Some (enc_dents b)"
    using rd_slice [OF f, of pos B] Cons.prems(1,4) B b full by (cases bls) auto
  have ne: "enc_dents b \<noteq> []" using b(1) by (rule enc_dents_nonempty)
  have lt: "pos < int (length (content f))"
    using Cons.prems(1,4) ne by (cases "enc_dents b") auto
  have scan: "dirname_scan (enc_dents b) 0 ino 256 =
      (case find (\<lambda>e. e_ino e = ino) b of None \<Rightarrow> NEnd | Some e \<Rightarrow> NHit (e_name e))"
    using dirname_scan_dents [of b "[]" ino] Cons.prems(2) by simp
  have IH: "dirname_loop (rd f) B (int (length (content f))) (pos + int (length (enc_dents b))) ino 256 =
      Some (dir_nameof (concat bls) ino)"
    using Cons.IH [of "pre @ enc_dents b"] Cons.prems bls by simp
  show ?case
    using lt ne rd IH unfolding dirname_loop.simps [of "rd f" B _ pos]
    by (cases "find (\<lambda>e. e_ino e = ino) b") (simp_all add: scan dir_nameof_def find_append)
qed

lemma readdir_dents:
  assumes f: "good f" and c: "content f = enc_dents (pre @ es)"
    and wf: "\<forall>e \<in> set (pre @ es). wf_dent e" and room: "260 \<le> nmlen"
  shows "readdir_loop (rd f) tos nmlen (int (length (content f))) (int (length (enc_dents pre))) =
    Some (case dropWhile (\<lambda>e. e_ino e = 0) es of
            [] \<Rightarrow> (Inl ENMFILES, int (length (content f)))
          | e # r \<Rightarrow> (Inr ((if tos then [] else p32 (e_ino e)) @ e_name e, e_ino e),
                      int (length (content f)) - int (length (enc_dents r))))"
  using c wf
proof (induction es arbitrary: pre)
  case Nil
  then show ?case by (subst readdir_loop.simps) simp
next
  case (Cons e es)
  have wf: "wf_dent e" using Cons.prems by simp
  let ?pos = "int (length (enc_dents pre))"
  have hd: "rd f ?pos 8 = Some (take 8 (enc_dent e))"
    using rd_slice [OF f, of ?pos 8] Cons.prems(1) dent_len_ge(1) [of e] by simp
  have nm: "rd f (?pos + 8) (int (length (e_name e))) = Some (e_name e)"
    using rd_slice [OF f, of "?pos + 8" "int (length (e_name e))"] Cons.prems(1)
    by (simp add: nat_add_distrib enc_dent_def)
  have d: "ufs_direct_at (take 8 (enc_dent e)) 0 =
      \<lparr>d_ino = e_ino e, d_reclen = int (dent_len e), d_namlen = int (length (e_name e))\<rparr>"
    using wf by (simp add: ufs_direct_at_def enc_dent_def wf_dent_def be_simps cint_simps)
  have lt: "?pos < int (length (content f))" and len: "length (take 8 (enc_dent e)) = 8"
    using Cons.prems(1) dent_len_ge(1) [of e] by simp_all
  have nul: "cstr (e_name e) = e_name e"
    using wf by (auto simp: wf_dent_def cstr_def takeWhile_eq_all_conv)
  have IH: "readdir_loop (rd f) tos nmlen (int (length (content f))) (?pos + int (dent_len e)) =
    Some (case dropWhile (\<lambda>e. e_ino e = 0) es of
            [] \<Rightarrow> (Inl ENMFILES, int (length (content f)))
          | e # r \<Rightarrow> (Inr ((if tos then [] else p32 (e_ino e)) @ e_name e, e_ino e),
                      int (length (content f)) - int (length (enc_dents r))))"
    using Cons.IH [of "pre @ [e]"] Cons.prems by simp
  have sz: "int (length (content f)) - int (length (enc_dents es)) = ?pos + int (dent_len e)"
    using Cons.prems(1) by simp
  show ?case
    using lt len wf room nul dent_len_ge(1) [of e]
    unfolding readdir_loop.simps [of "rd f" tos nmlen _ ?pos] hd option.case d Let_def
    by (auto simp: nm IH sz MAXNAMLEN_def wf_dent_def)
qed

end

interpretation uf: file_reader
  "\<lambda>(br, s, ip). file_ok br s ip" "\<lambda>(br, s, ip). ufs_readfile br s ip"
  "\<lambda>(br, s, ip). ufs_content br s ip"
  by unfold_locales (auto simp: ufs_readfile_slice)

end
