(* ===== verification/UfsMount.thy ===== *)
theory UfsMount
  imports UfsDir
begin

text \<open>
  Mounting in \<open>mint/ufsxfs/ufs.c\<close>: \<open>ufs_free_drive\<close>, \<open>ufs_mount_slice\<close>, \<open>ufs_scan_device\<close>
  and \<open>init_xfs\<close> over the driver's static state (\<open>ufs[]\<close>, \<open>nufs\<close>, \<open>root_drv\<close>,
  \<open>next_drive\<close>) and the state it shares with the kernel (the drive bits at 0x4c2, the
  blocks it holds from \<open>kmalloc\<close>, bio's descriptors). The kernel, XHDI and bio are the
  environment \<open>menv\<close>: which allocations succeed, what a device answers.
\<close>

section \<open>State and environment\<close>

record mst =
  m_ufs :: "nat \<Rightarrow> UFS option"
  m_nufs :: nat
  m_root_drv :: int
  m_next_drive :: nat
  m_bits :: int
  m_allocs :: nat
  m_blocks :: nat
  m_dis :: "nat set"

text \<open>
  \<open>e_km k\<close>: the \<open>k\<close>-th allocation succeeds. \<open>e_res_di\<close>: bio gives the descriptor of a
  drive. \<open>e_inq\<close>: \<open>XHInqTarget2\<close>, an error or the sector size. \<open>e_xh\<close>: \<open>XHReadWrite\<close> for
  reading. \<open>e_pshift\<close>, \<open>e_lshift\<close>: the counts \<open>bio.set_pshift\<close> and \<open>bio.set_lshift\<close> set.
\<close>

record menv =
  e_ndrives :: nat
  e_km :: "nat \<Rightarrow> bool"
  e_res_di :: "nat \<Rightarrow> bool"
  e_inq :: "int \<Rightarrow> int \<Rightarrow> int + int"
  e_xh :: xhdi
  e_bio :: bio
  e_pshift :: "int \<Rightarrow> nat"
  e_lshift :: "int \<Rightarrow> nat"

definition mst_init :: "int \<Rightarrow> mst" where
  "mst_init bits = \<lparr>m_ufs = (\<lambda>_. None), m_nufs = 0, m_root_drv = -1,
     m_next_drive = UFS_FIRST_DRIVE, m_bits = bits, m_allocs = 0, m_blocks = 0, m_dis = {}\<rparr>"

definition kmalloc :: "menv \<Rightarrow> mst \<Rightarrow> bool \<times> mst" where
  "kmalloc env st =
    (let st' = st\<lparr>m_allocs := Suc (m_allocs st)\<rparr>
     in if e_km env (m_allocs st) then (True, st'\<lparr>m_blocks := Suc (m_blocks st')\<rparr>)
        else (False, st'))"

definition kfree :: "mst \<Rightarrow> mst" where
  "kfree st = st\<lparr>m_blocks := m_blocks st - 1\<rparr>"

section \<open>A free drive letter\<close>

definition ufs_free_drive :: "menv \<Rightarrow> mst \<Rightarrow> nat \<Rightarrow> nat option" where
  "ufs_free_drive env st from =
    List.find (\<lambda>d. d \<noteq> 20 \<and> \<not> bit (m_bits st) d \<and> m_ufs st d = None) [from..<e_ndrives env]"

section \<open>Mounting a slice\<close>

definition ufs_sb_ok :: "ufs_sb \<Rightarrow> bool" where
  "ufs_sb_ok sb \<longleftrightarrow>
     \<not> (sb_magic sb \<noteq> UFS_MAGIC \<or> sb_bsize sb < 4096 \<or> sb_bsize sb > 8192 \<or>
        sb_fsize sb < 512 \<or> sb_fsize sb > sb_bsize sb \<or>
        sb_frag sb \<noteq> cdiv (sb_bsize sb) (sb_fsize sb) \<or>
        sb_nindir sb \<noteq> cdiv (sb_bsize sb) 4 \<or> sb_inopb sb \<noteq> cdiv (sb_bsize sb) 128 \<or>
        sb_ipg sb \<le> 0 \<or> sb_fpg sb \<le> 0 \<or> sb_ncg sb \<le> 0)"

text \<open>The volume's name as a C string: the VTOC's, or one made from the tag.\<close>

definition ufs_volume :: "int \<Rightarrow> byte list \<Rightarrow> byte list" where
  "ufs_volume tag vol =
    (let v = cstr (take 8 vol)
     in if v = [] then
          bytes_of (if tag = 2 then ''root'' else if tag = 5 then ''var''
                    else if tag = 8 then ''home'' else if tag = 4 then ''usr'' else ''ufs'')
        else v)"

definition ufs_di_of :: "menv \<Rightarrow> int \<Rightarrow> int \<Rightarrow> vtoc_part \<Rightarrow> ufs_sb \<Rightarrow> DI" where
  "ufs_di_of env major minor p sb = \<lparr>di_major = major, di_minor = minor,
     di_start = u32 (vp_start p), di_size = u32 (vp_size p), di_pshift = e_pshift env 512,
     di_lshift = e_lshift env (sb_fsize sb), di_wp = True\<rparr>"

text \<open>The structure before its root inode is read; \<open>root\<close> is still zero then.\<close>

definition ufs_fill ::
    "menv \<Rightarrow> nat \<Rightarrow> int \<Rightarrow> int \<Rightarrow> vtoc_part \<Rightarrow> int \<Rightarrow> byte list \<Rightarrow> ufs_sb \<Rightarrow> UFS" where
  "ufs_fill env drv major minor p slc volume sb = \<lparr>
     s_drv = drv, s_major = major, s_minor = minor, s_start = u32 (vp_start p),
     s_size = u32 (vp_size p), s_tag = vp_tag p, s_slice = slc,
     s_di = ufs_di_of env major minor p sb,
     s_bsize = sb_bsize sb, s_fsize = sb_fsize sb, s_frag = sb_frag sb,
     s_bshift = sb_bshift sb, s_fshift = sb_fshift sb, s_nindir = sb_nindir sb,
     s_inopb = sb_inopb sb, s_ipg = sb_ipg sb, s_fpg = sb_fpg sb, s_iblkno = sb_iblkno sb,
     s_cgoffset = sb_cgoffset sb, s_cgmask = sb_cgmask sb, s_dsize = sb_dsize sb,
     s_nbfree = sb_nbfree sb, s_nffree = sb_nffree sb, s_nifree = sb_nifree sb,
     s_ncg = sb_ncg sb, s_root = ufs_dinode_of (replicate 128 0),
     s_volume = ufs_volume (vp_tag p) volume\<rparr>"

definition ufs_mount_slice ::
    "menv \<Rightarrow> int \<Rightarrow> int \<Rightarrow> vtoc_part \<Rightarrow> int \<Rightarrow> byte list \<Rightarrow> mst \<Rightarrow> (merr + unit) \<times> mst" where
  "ufs_mount_slice env major minor p slc volume st =
    (case kmalloc env st of
       (False, st) \<Rightarrow> (Inl ENOMEM, st)
     | (True, st) \<Rightarrow>
       (case e_xh env major minor (u32 (vp_start p + SBOFF div 512)) (SBOFF div 512) of
          Inl r \<Rightarrow> (Inl (XH r), kfree st)
        | Inr d \<Rightarrow>
          let sb = ufs_sb_of d
          in if \<not> ufs_sb_ok sb then (Inl EMEDIUMTYPE, kfree st)
             else (case ufs_free_drive env st (m_next_drive st) of
               None \<Rightarrow> (Inl ENOMEM, kfree st)
             | Some drv \<Rightarrow>
               if m_nufs st \<ge> UFS_MAX_DRIVES then (Inl ENOMEM, kfree st)
               else (case kmalloc env st of
                 (False, st) \<Rightarrow> (Inl ENOMEM, kfree st)
               | (True, st) \<Rightarrow>
                 let s = ufs_fill env drv major minor p slc volume sb; st = kfree st
                 in if \<not> e_res_di env drv then (Inl ENOMEM, kfree st)
                    else
                      let st = st\<lparr>m_dis := insert drv (m_dis st)\<rparr>
                      in (case ufs_bread (e_bio env) s (u32 (s_iblkno s)) (s_bsize s) of
                            None \<Rightarrow>
                              (Inl EREAD, kfree (st\<lparr>m_dis := m_dis st - {drv}\<rparr>))
                          | Some b \<Rightarrow>
                              let ri = ufs_dinode_of (take 128 (drop (nat UFS_ROOTINO * 128) b));
                                  s = s\<lparr>s_root := ri\<rparr>
                              in if smode ri AND UFS_IFMT \<noteq> UFS_IFDIR then
                                   (Inl EMEDIUMTYPE, kfree (st\<lparr>m_dis := m_dis st - {drv}\<rparr>))
                                 else
                                   (Inr (),
                                    st\<lparr>m_ufs := (m_ufs st)(drv := Some s),
                                       m_nufs := Suc (m_nufs st),
                                       m_next_drive := Suc drv,
                                       m_bits := u32 (m_bits st OR push_bit drv 1),
                                       m_root_drv := (if s_tag s = 2 \<and> m_root_drv st < 0
                                                      then int drv else m_root_drv st)\<rparr>))))))"

section \<open>Scanning a device\<close>

text \<open>The start of the first \<open>UNX\<close> entry of the root sector.\<close>

definition find_unx :: "byte list \<Rightarrow> int option" where
  "find_unx sec =
    (case List.find (\<lambda>i. let ap = atari_part_at sec (ATARI_PART_OFF + 12 * i)
                         in ap_flag ap AND 1 \<noteq> 0 \<and> ap_id ap = bytes_of ''UNX'') [0..<4] of
       None \<Rightarrow> None | Some i \<Rightarrow> Some (ap_start (atari_part_at sec (ATARI_PART_OFF + 12 * i))))"

definition slice_skipped :: "vtoc_part \<Rightarrow> bool" where
  "slice_skipped p \<longleftrightarrow> vp_size p \<le> 0 \<or> vp_start p \<le> 0 \<or> vp_tag p = V_SWAP \<or>
     vp_tag p = V_BACKUP \<or> vp_flag p AND V_UNMNT \<noteq> 0"

text \<open>The loop over the slices: the slices left with their numbers, and how many were found.\<close>

fun scan_slices ::
    "menv \<Rightarrow> int \<Rightarrow> int \<Rightarrow> byte list \<Rightarrow> (vtoc_part \<times> int) list \<Rightarrow> nat \<Rightarrow> mst \<Rightarrow> nat \<times> mst" where
  "scan_slices env major minor volume [] found st = (found, st)"
| "scan_slices env major minor volume ((p, i) # ps) found st =
    (if slice_skipped p then scan_slices env major minor volume ps found st
     else (case ufs_mount_slice env major minor p i volume st of
             (r, st) \<Rightarrow>
               scan_slices env major minor volume ps (if r = Inr () then Suc found else found) st))"

definition ufs_scan_device :: "menv \<Rightarrow> int \<Rightarrow> int \<Rightarrow> mst \<Rightarrow> (merr + unit) \<times> mst" where
  "ufs_scan_device env major minor st =
    (case e_inq env major minor of
       Inl r \<Rightarrow> (Inl (XH r), st)
     | Inr bs \<Rightarrow>
       if bs \<noteq> 512 then (Inl EMEDIUMTYPE, st)
       else (case kmalloc env st of
         (False, st) \<Rightarrow> (Inl ENOMEM, st)
       | (True, st) \<Rightarrow>
         (case e_xh env major minor 0 1 of
            Inl r \<Rightarrow> (Inl (XH r), kfree st)
          | Inr sec \<Rightarrow>
            (case find_unx sec of
               None \<Rightarrow> (Inl EMEDIUMTYPE, kfree st)
             | Some unx \<Rightarrow>
               (case e_xh env major minor (u32 (unx + 2)) 1 of
                  Inl r \<Rightarrow> (Inl (XH r), kfree st)
                | Inr sec \<Rightarrow>
                  let v = vtoc_of sec; n = v_nparts v
                  in if v_sanity v \<noteq> VTOC_SANE \<or> n < 1 \<or> n > V_NUMPAR
                     then (Inl EMEDIUMTYPE, kfree st)
                     else (case scan_slices env major minor (v_volume v)
                              (map (\<lambda>i. (v_part v ! i, int i)) [0..<nat n]) 0 st of
                        (found, st) \<Rightarrow>
                          (if found > 0 then Inr () else Inl EMEDIUMTYPE, kfree st)))))))"

section \<open>init_xfs\<close>

text \<open>What the driver finds of the kernel and of XHDI.\<close>

record kinfo =
  k_major :: int
  k_minor :: int
  k_kversion :: int
  k_xtime :: bool
  k_bio_version :: int
  k_xhdi_cookie :: "int option"
  k_xhdi_magic :: int
  k_xhdi_version :: int

datatype init_msg = OldMint | NoXhdi | NoSlice | Mounted "byte list list"

text \<open>One line of the report: a blank, the drive's letter, a colon, a blank, the volume.\<close>

definition mount_line :: "(nat \<Rightarrow> byte) \<Rightarrow> UFS \<Rightarrow> nat \<Rightarrow> byte list" where
  "mount_line letter s d = [32, letter d, 58, 32] @ s_volume s"

definition ufs_report :: "(nat \<Rightarrow> byte) \<Rightarrow> menv \<Rightarrow> mst \<Rightarrow> byte list list" where
  "ufs_report letter env st =
    concat (map (\<lambda>d. case m_ufs st d of None \<Rightarrow> [] | Some s \<Rightarrow> [mount_line letter s d])
                [0..<e_ndrives env])"

definition scan_devices :: "menv \<Rightarrow> mst \<Rightarrow> mst" where
  "scan_devices env st =
    fold (\<lambda>major st. snd (ufs_scan_device env (int major) 0 st)) [0..<XHDI_MAX_MAJOR] st"

text \<open>True: the driver returns its \<open>FILESYS\<close>; False: NULL.\<close>

definition init_xfs ::
    "(nat \<Rightarrow> byte) \<Rightarrow> menv \<Rightarrow> kinfo \<Rightarrow> mst \<Rightarrow> bool \<times> init_msg \<times> mst" where
  "init_xfs letter env k st =
    (if k_major k < 1 \<or> (k_major k = 1 \<and> k_minor k < 16) \<or> k_kversion k = 0 \<or> \<not> k_xtime k \<or>
        k_bio_version k \<noteq> 3 then (False, OldMint, st)
     else if (case k_xhdi_cookie k of None \<Rightarrow> True
              | Some t \<Rightarrow> t = 0 \<or> k_xhdi_magic k \<noteq> 0x27011992) then (False, NoXhdi, st)
     else if k_xhdi_version k < 0x110 then (False, NoXhdi, st)
     else let st = scan_devices env st
          in if m_nufs st = 0 then (False, NoSlice, st)
             else (True, Mounted (ufs_report letter env st), st))"

section \<open>What mounting keeps\<close>

text \<open>What the checks of \<open>ufs_mount_slice\<close> establish of a slice mounted as drive \<open>d\<close>.\<close>

definition mounted_ok :: "nat \<Rightarrow> UFS \<Rightarrow> bool" where
  "mounted_ok d s \<longleftrightarrow> s_drv s = d \<and> s_tag s \<noteq> V_SWAP \<and> s_tag s \<noteq> V_BACKUP \<and>
     0 < s_start s \<and> 0 < s_size s \<and> di_start (s_di s) = s_start s \<and> DI.di_size (s_di s) = s_size s \<and>
     di_wp (s_di s) \<and>
     4096 \<le> s_bsize s \<and> s_bsize s \<le> 8192 \<and> 512 \<le> s_fsize s \<and> s_fsize s \<le> s_bsize s \<and>
     s_frag s = s_bsize s div s_fsize s \<and> s_nindir s = s_bsize s div 4 \<and>
     s_inopb s = s_bsize s div 128 \<and> 0 < s_ipg s \<and> 0 < s_fpg s \<and> 0 < s_ncg s \<and>
     smode (s_root s) AND UFS_IFMT = UFS_IFDIR \<and> s_volume s \<noteq> [] \<and> length (s_volume s) \<le> 8"

text \<open>
  The table, the counter, the drive bits, bio's descriptors and the memory held agree, over
  the drive bits \<open>bits0\<close> found at start and \<open>h\<close> further blocks held.
\<close>

definition mount_inv :: "menv \<Rightarrow> int \<Rightarrow> nat \<Rightarrow> mst \<Rightarrow> bool" where
  "mount_inv env bits0 h st \<longleftrightarrow>
     finite (dom (m_ufs st)) \<and> m_nufs st = card (dom (m_ufs st)) \<and> m_nufs st \<le> UFS_MAX_DRIVES \<and>
     (\<forall>d s. m_ufs st d = Some s \<longrightarrow>
        mounted_ok d s \<and> UFS_FIRST_DRIVE \<le> d \<and> d < e_ndrives env \<and> d < m_next_drive st \<and>
        \<not> bit bits0 d) \<and>
     UFS_FIRST_DRIVE \<le> m_next_drive st \<and>
     (\<forall>d. bit (m_bits st) d \<longleftrightarrow> bit bits0 d \<or> m_ufs st d \<noteq> None) \<and>
     m_dis st = dom (m_ufs st) \<and> m_blocks st = m_nufs st + h \<and>
     (m_root_drv st = -1 \<or> 0 \<le> m_root_drv st \<and>
       (\<exists>s. m_ufs st (nat (m_root_drv st)) = Some s \<and> s_tag s = 2))"

lemma bit_u32: "bit (u32 x) d \<longleftrightarrow> d < 32 \<and> bit x d"
proof -
  have "u32 x = take_bit 32 x" by (simp add: u32_def take_bit_eq_mod)
  then show ?thesis by (simp add: bit_take_bit_iff)
qed

lemma ufs_free_driveD:
  "ufs_free_drive env st from = Some d \<Longrightarrow>
   from \<le> d \<and> d < e_ndrives env \<and> d \<noteq> 20 \<and> \<not> bit (m_bits st) d \<and> m_ufs st d = None"
  by (auto simp: ufs_free_drive_def dest!: find_SomeD)

lemma ufs_volume_ok: "ufs_volume tag vol \<noteq> []" "length (ufs_volume tag vol) \<le> 8"
proof -
  have "length (cstr (take 8 vol)) \<le> 8"
    using length_cstr [of "take 8 vol"] by simp
  then show "ufs_volume tag vol \<noteq> []" "length (ufs_volume tag vol) \<le> 8"
    by (simp_all add: ufs_volume_def Let_def bytes_of_def)
qed

lemma ufs_fill_ok:
  assumes sb: "ufs_sb_ok sb" and p: "\<not> slice_skipped p" "vp_start p < 2147483648" "vp_size p < 2147483648"
    and ri: "smode ri AND UFS_IFMT = UFS_IFDIR"
  shows "mounted_ok d (ufs_fill env d major minor p slc volume sb\<lparr>s_root := ri\<rparr>)"
  using assms ufs_volume_ok
  by (auto simp: mounted_ok_def ufs_fill_def ufs_di_of_def ufs_sb_ok_def slice_skipped_def cint_simps)

text \<open>Mounting either fails and leaves all but the allocation count, or adds one drive.\<close>

lemma ufs_mount_slice_result:
  assumes m: "ufs_mount_slice env major minor p slc volume st = (r, st')"
    and dis: "m_dis st = dom (m_ufs st)"
  shows "(\<exists>e. r = Inl e) \<and> st' = st\<lparr>m_allocs := m_allocs st'\<rparr> \<or>
    r = Inr () \<and> (\<exists>drv sb ri. ufs_sb_ok sb \<and> smode ri AND UFS_IFMT = UFS_IFDIR \<and>
      ufs_free_drive env st (m_next_drive st) = Some drv \<and> m_nufs st < UFS_MAX_DRIVES \<and>
      st' = st\<lparr>m_ufs := (m_ufs st)(drv \<mapsto> ufs_fill env drv major minor p slc volume sb\<lparr>s_root := ri\<rparr>),
               m_nufs := Suc (m_nufs st), m_next_drive := Suc drv,
               m_bits := u32 (m_bits st OR push_bit drv 1), m_dis := insert drv (m_dis st),
               m_blocks := Suc (m_blocks st), m_allocs := m_allocs st',
               m_root_drv := (if vp_tag p = 2 \<and> m_root_drv st < 0 then int drv else m_root_drv st)\<rparr>)"
proof -
  have fd: "ufs_free_drive env (st\<lparr>m_allocs := a, m_blocks := b\<rparr>) k = ufs_free_drive env st k" for a b k
    by (simp add: ufs_free_drive_def)
  have tag: "s_tag (ufs_fill env drv major minor p slc volume sb) = vp_tag p" for drv sb
    by (simp add: ufs_fill_def)
  have nd: "ufs_free_drive env st k = Some d \<Longrightarrow> m_dis st - {d} = m_dis st" for k d
    using dis by (auto dest: ufs_free_driveD)
  note m = m [unfolded ufs_mount_slice_def kmalloc_def kfree_def Let_def]
  show ?thesis
  proof (cases "e_km env (m_allocs st)")
    case False
    then show ?thesis using m by auto
  next
    case km: True
    show ?thesis
    proof (cases "e_xh env major minor (u32 (vp_start p + SBOFF div 512)) (SBOFF div 512)")
      case (Inl e)
      then show ?thesis using m km by auto
    next
      case xh: (Inr d)
      show ?thesis
      proof (cases "ufs_sb_ok (ufs_sb_of d)")
        case False
        then show ?thesis using m km xh by auto
      next
        case sb: True
        show ?thesis
        proof (cases "ufs_free_drive env st (m_next_drive st)")
          case None
          then show ?thesis using m km xh sb fd by auto
        next
          case drv: (Some drv)
          let ?s = "ufs_fill env drv major minor p slc volume (ufs_sb_of d)"
          show ?thesis
          proof (cases "m_nufs st < UFS_MAX_DRIVES \<and> e_km env (Suc (m_allocs st)) \<and> e_res_di env drv \<and>
              (\<exists>b. ufs_bread (e_bio env) ?s (u32 (s_iblkno ?s)) (s_bsize ?s) = Some b \<and>
                smode (ufs_dinode_of (take 128 (drop (nat UFS_ROOTINO * 128) b))) AND UFS_IFMT = UFS_IFDIR)")
            case True
            then obtain b where b: "m_nufs st < UFS_MAX_DRIVES" "e_km env (Suc (m_allocs st))"
              "e_res_di env drv" "ufs_bread (e_bio env) ?s (u32 (s_iblkno ?s)) (s_bsize ?s) = Some b"
              "smode (ufs_dinode_of (take 128 (drop (nat UFS_ROOTINO * 128) b))) AND UFS_IFMT = UFS_IFDIR"
              by blast
            have "r = Inr ()" using m km xh sb drv b by (simp add: fd)
            moreover have "st' = st\<lparr>m_ufs := (m_ufs st)(drv \<mapsto> ?s\<lparr>s_root :=
                    ufs_dinode_of (take 128 (drop (nat UFS_ROOTINO * 128) b))\<rparr>),
                m_nufs := Suc (m_nufs st), m_next_drive := Suc drv,
                m_bits := u32 (m_bits st OR push_bit drv 1), m_dis := insert drv (m_dis st),
                m_blocks := Suc (m_blocks st), m_allocs := m_allocs st',
                m_root_drv := (if vp_tag p = 2 \<and> m_root_drv st < 0 then int drv else m_root_drv st)\<rparr>"
              using m km xh sb drv b by (auto simp: fd tag)
            ultimately show ?thesis using b drv sb by blast
          next
            case False
            then show ?thesis
              using m km xh sb drv by (auto simp: fd nd split: if_splits option.splits)
          qed
        qed
      qed
    qed
  qed
qed

lemma mount_inv_fail:
  "mount_inv env bits0 h st \<Longrightarrow> st' = st\<lparr>m_allocs := a\<rparr> \<Longrightarrow> mount_inv env bits0 h st'"
  by (simp add: mount_inv_def)

lemma mount_inv_add:
  assumes i: "mount_inv env bits0 h st" and nd: "e_ndrives env \<le> 32"
    and bits: "0 \<le> bits0" "bits0 < 4294967296"
    and d: "ufs_free_drive env st (m_next_drive st) = Some drv" and n: "m_nufs st < UFS_MAX_DRIVES"
    and s: "mounted_ok drv s"
    and st': "st' = st\<lparr>m_ufs := (m_ufs st)(drv \<mapsto> s),
               m_nufs := Suc (m_nufs st), m_next_drive := Suc drv,
               m_bits := u32 (m_bits st OR push_bit drv 1), m_dis := insert drv (m_dis st),
               m_blocks := Suc (m_blocks st), m_allocs := a,
               m_root_drv := (if s_tag s = 2 \<and> m_root_drv st < 0 then int drv else m_root_drv st)\<rparr>"
  shows "mount_inv env bits0 h st'"
proof -
  note dd = ufs_free_driveD [OF d]
  note inv = i [unfolded mount_inv_def]
  have fin: "finite (dom (m_ufs st))" and card: "m_nufs st = card (dom (m_ufs st))"
    and dis: "m_dis st = dom (m_ufs st)" and blk: "m_blocks st = m_nufs st + h"
    and nx: "UFS_FIRST_DRIVE \<le> m_next_drive st"
    and ok: "\<And>d s. m_ufs st d = Some s \<Longrightarrow> mounted_ok d s \<and> UFS_FIRST_DRIVE \<le> d \<and>
        d < e_ndrives env \<and> d < m_next_drive st \<and> \<not> bit bits0 d"
    and bit: "\<And>d. bit (m_bits st) d \<longleftrightarrow> bit bits0 d \<or> m_ufs st d \<noteq> None"
    and root: "m_root_drv st = -1 \<or> 0 \<le> m_root_drv st \<and>
       (\<exists>s. m_ufs st (nat (m_root_drv st)) = Some s \<and> s_tag s = 2)"
    using inv by blast+
  have new: "drv \<notin> dom (m_ufs st)" using dd by auto
  have b32: "bit bits0 d \<Longrightarrow> d < 32" for d
  proof -
    have "u32 bits0 = bits0" using bits by (simp add: u32_id)
    then show "bit bits0 d \<Longrightarrow> d < 32" using bit_u32 [of bits0 d] by simp
  qed
  have bit': "bit (u32 (m_bits st OR push_bit drv 1)) d \<longleftrightarrow>
      bit bits0 d \<or> ((m_ufs st)(drv \<mapsto> s)) d \<noteq> None" for d
    using bit [of d] b32 [of d] ok [of d] dd nd
    by (auto simp: bit_u32 bit_simps)
  show ?thesis
    unfolding mount_inv_def
  proof (intro conjI)
    show "finite (dom (m_ufs st'))" using fin st' by simp
    show "m_nufs st' = card (dom (m_ufs st'))" using fin card new st' by simp
    show "m_nufs st' \<le> UFS_MAX_DRIVES" using n st' by simp
    show "\<forall>d s. m_ufs st' d = Some s \<longrightarrow> mounted_ok d s \<and> UFS_FIRST_DRIVE \<le> d \<and>
        d < e_ndrives env \<and> d < m_next_drive st' \<and> \<not> bit bits0 d"
      using ok dd nx s bit [of drv] st' by (fastforce split: if_splits)
    show "UFS_FIRST_DRIVE \<le> m_next_drive st'" using nx dd st' by simp
    show "\<forall>d. bit (m_bits st') d \<longleftrightarrow> bit bits0 d \<or> m_ufs st' d \<noteq> None"
      using bit' st' by simp
    show "m_dis st' = dom (m_ufs st')" using dis st' by simp
    show "m_blocks st' = m_nufs st' + h" using blk st' by simp
    show "m_root_drv st' = -1 \<or> 0 \<le> m_root_drv st' \<and>
       (\<exists>s. m_ufs st' (nat (m_root_drv st')) = Some s \<and> s_tag s = 2)"
      using root st' new by (auto split: if_splits)
  qed
qed

lemma ufs_mount_slice_inv:
  assumes i: "mount_inv env bits0 h st" and nd: "e_ndrives env \<le> 32"
    and bits: "0 \<le> bits0" "bits0 < 4294967296"
    and p: "\<not> slice_skipped p" "vp_start p < 2147483648" "vp_size p < 2147483648"
    and m: "ufs_mount_slice env major minor p slc volume st = (r, st')"
  shows "mount_inv env bits0 h st'"
proof -
  have "m_dis st = dom (m_ufs st)" using i by (simp add: mount_inv_def)
  from ufs_mount_slice_result [OF m this] show ?thesis
  proof (elim disjE conjE exE)
    fix e assume "st' = st\<lparr>m_allocs := m_allocs st'\<rparr>"
    then show ?thesis by (rule mount_inv_fail [OF i])
  next
    fix drv sb ri
    let ?s = "ufs_fill env drv major minor p slc volume sb\<lparr>s_root := ri\<rparr>"
    assume a: "ufs_sb_ok sb" "smode ri AND UFS_IFMT = UFS_IFDIR"
      "ufs_free_drive env st (m_next_drive st) = Some drv" "m_nufs st < UFS_MAX_DRIVES"
      and st': "st' = st\<lparr>m_ufs := (m_ufs st)(drv \<mapsto> ?s),
               m_nufs := Suc (m_nufs st), m_next_drive := Suc drv,
               m_bits := u32 (m_bits st OR push_bit drv 1), m_dis := insert drv (m_dis st),
               m_blocks := Suc (m_blocks st), m_allocs := m_allocs st',
               m_root_drv := (if vp_tag p = 2 \<and> m_root_drv st < 0 then int drv else m_root_drv st)\<rparr>"
    have "s_tag ?s = vp_tag p" by (simp add: ufs_fill_def)
    show ?thesis
      by (rule mount_inv_add [OF i nd bits a(3,4) ufs_fill_ok [OF a(1) p a(2),
                where env = env and major = major and minor = minor and slc = slc and volume = volume]])
        (unfold \<open>s_tag ?s = vp_tag p\<close>, rule st')
  qed
qed

lemma scan_slices_inv:
  assumes "mount_inv env bits0 h st" "e_ndrives env \<le> 32" "0 \<le> bits0" "bits0 < 4294967296"
    and "\<forall>(p, i) \<in> set ps. vp_start p < 2147483648 \<and> vp_size p < 2147483648"
  shows "mount_inv env bits0 h (snd (scan_slices env major minor volume ps found st))"
  using assms
proof (induction ps arbitrary: found st)
  case Nil
  then show ?case by simp
next
  case (Cons q ps)
  obtain p i where q: "q = (p, i)" by fastforce
  have "mount_inv env bits0 h (snd (ufs_mount_slice env major minor p i volume st))"
    if "\<not> slice_skipped p"
    using that Cons.prems
    by (cases "ufs_mount_slice env major minor p i volume st")
      (auto simp: q intro!: ufs_mount_slice_inv [of env bits0 h st])
  then show ?case
    using Cons by (auto simp: q split: prod.splits)
qed

lemma mount_inv_block:
  "mount_inv env bits0 (Suc h) st \<Longrightarrow> mount_inv env bits0 h (kfree st)"
  "mount_inv env bits0 h st \<Longrightarrow>
     mount_inv env bits0 (Suc h) (st\<lparr>m_allocs := a, m_blocks := Suc (m_blocks st)\<rparr>)"
  "mount_inv env bits0 h st \<Longrightarrow> mount_inv env bits0 h (st\<lparr>m_allocs := a\<rparr>)"
  by (simp_all add: mount_inv_def kfree_def)

lemma vtoc_parts_bounded:
  "n \<le> V_NUMPAR \<Longrightarrow> \<forall>(p, i) \<in> set (map (\<lambda>i. (v_part (vtoc_of sec) ! i, int i)) [0..<nat n]).
     vp_start p < 2147483648 \<and> vp_size p < 2147483648"
  by (auto simp: vtoc_of_def vtoc_part_at_def V_NUMPAR_def)

lemma ufs_scan_device_inv:
  assumes i: "mount_inv env bits0 h st" "e_ndrives env \<le> 32" "0 \<le> bits0" "bits0 < 4294967296"
  shows "mount_inv env bits0 h (snd (ufs_scan_device env major minor st))"
proof -
  let ?st1 = "st\<lparr>m_allocs := Suc (m_allocs st), m_blocks := Suc (m_blocks st)\<rparr>"
  have 1: "mount_inv env bits0 (Suc h) ?st1" using mount_inv_block(2) [OF i(1)] .
  have 2: "mount_inv env bits0 h (kfree ?st1)" using 1 by (rule mount_inv_block(1))
  have 3: "mount_inv env bits0 h
     (kfree (snd (scan_slices env major minor vol
        (map (\<lambda>i. (v_part (vtoc_of sec) ! i, int i)) [0..<nat n]) 0 ?st1)))"
    if "n \<le> V_NUMPAR" for vol sec n
    using scan_slices_inv [OF 1 i(2-4) vtoc_parts_bounded [OF that]] by (rule mount_inv_block(1))
  show ?thesis
    unfolding ufs_scan_device_def kmalloc_def Let_def
    using i 2 3 mount_inv_block(3) [OF i(1)]
    by (auto simp: not_less not_le split: sum.splits option.splits prod.splits)
      (metis snd_conv)
qed

lemma scan_devices_inv:
  assumes "e_ndrives env \<le> 32" "0 \<le> bits0" "bits0 < 4294967296" "mount_inv env bits0 h st"
  shows "mount_inv env bits0 h (scan_devices env st)"
proof -
  have "mount_inv env bits0 h (fold (\<lambda>major st. snd (ufs_scan_device env (int major) 0 st)) ms st)" for ms
    using assms(4)
    by (induction ms arbitrary: st) (use assms(1-3) ufs_scan_device_inv in auto)
  then show ?thesis by (simp add: scan_devices_def)
qed

lemma mount_inv_start: "mount_inv env bits 0 (mst_init bits)"
  by (simp add: mount_inv_def mst_init_def)

end
