(* ===== verification/UfsCalls.thy ===== *)
theory UfsCalls
  imports UfsMount
begin

text \<open>
  The \<open>FILESYS\<close> and \<open>DEVDRV\<close> calls of \<open>mint/ufsxfs/ufs.c\<close>: lookup, attributes, directory
  reading, names, symbolic links, information and open files. The table of mounted slices
  and the root drive are read only here, so the calls take them as arguments and return
  what they put into the caller's structures. Numbers FreeMiNT's headers define are
  arguments; \<open>XATTR\<close> and \<open>STAT\<close> carry the fields the driver sets.
\<close>

type_synonym utab = "nat \<Rightarrow> UFS option"

datatype fsptr = Ftab | OtherFs nat | NoFs

record fcookie =
  fc_fs :: fsptr
  fc_dev :: nat
  fc_aux :: int
  fc_index :: int

section \<open>Root and lookup\<close>

definition ufs_root :: "nat \<Rightarrow> utab \<Rightarrow> int \<Rightarrow> merr + fcookie" where
  "ufs_root ndrives tab drv =
    (if drv < 0 \<or> drv \<ge> int ndrives \<or> tab (nat drv) = None then Inl EMEDIUMTYPE
     else Inr \<lparr>fc_fs = Ftab, fc_dev = nat drv, fc_aux = 0, fc_index = UFS_ROOTINO\<rparr>)"

text \<open>
  \<open>EMOUNT\<close> comes with the directory's own cookie: the second component is what \<open>fc\<close> holds
  when it was set.
\<close>

definition ufs_lookup ::
    "bool \<Rightarrow> bio \<Rightarrow> utab \<Rightarrow> fcookie \<Rightarrow> byte list \<Rightarrow> (merr option \<times> fcookie option) option" where
  "ufs_lookup km br tab dir name =
    (case tab (fc_dev dir) of
       None \<Rightarrow> Some (Some EMEDIUMTYPE, None)
     | Some s \<Rightarrow>
       if name = [] \<or> name = [46] then Some (None, Some dir)
       else if name = [46, 46] \<and> fc_index dir = UFS_ROOTINO then Some (Some EMOUNT, Some dir)
       else (case ufs_iget br s (fc_index dir) of
          Inl r \<Rightarrow> Some (Some r, None)
        | Inr i \<Rightarrow>
          if smode i AND UFS_IFMT \<noteq> UFS_IFDIR then Some (Some ENOTDIR, None)
          else if int (length name) > MAXNAMLEN then Some (Some ENAMETOOLONG, None)
          else (case ufs_dirlookup km br s i name of
             None \<Rightarrow> None
           | Some ino \<Rightarrow>
             if ino = 0 then Some (Some ENOENT, None)
             else Some (None, Some \<lparr>fc_fs = Ftab, fc_dev = fc_dev dir, fc_aux = 0,
                                    fc_index = ino\<rparr>))))"

text \<open>True: the driver's \<open>devtab\<close>; False: NULL.\<close>

definition ufs_getdev :: "fcookie \<Rightarrow> bool" where
  "ufs_getdev fc \<longleftrightarrow> fc_fs fc = Ftab"

section \<open>Attributes\<close>

text \<open>FreeMiNT's file type values: \<open>S_IFLNK\<close>, \<open>S_IFIFO\<close>, \<open>S_IFSOCK\<close> and the tests.\<close>

record mint_stat =
  mt_types :: "int \<times> int \<times> int"
  mt_ischr :: "int \<Rightarrow> bool"
  mt_isblk :: "int \<Rightarrow> bool"
  mt_isdir :: "int \<Rightarrow> bool"
  mt_FA_DIR :: int
  mt_FA_RDONLY :: int

record XATTR =
  x_mode :: int
  x_index :: int
  x_dev :: nat
  x_rdev :: int
  x_nlink :: int
  x_uid :: int
  x_gid :: int
  x_size :: int
  x_blksize :: int
  x_nblocks :: int
  x_mtime :: int
  x_mdate :: int
  x_atime :: int
  x_adate :: int
  x_ctime :: int
  x_cdate :: int
  x_attr :: int

definition hi16 :: "int \<Rightarrow> int" where
  "hi16 t = u16 (drop_bit 16 (u32 t))"

text \<open>\<open>None\<close>: the division by \<open>bsize >> 9\<close> has no result.\<close>

definition ufs_getxattr :: "mint_stat \<Rightarrow> bio \<Rightarrow> utab \<Rightarrow> fcookie \<Rightarrow> (merr + XATTR) option" where
  "ufs_getxattr ms br tab fc =
    (case tab (fc_dev fc) of
       None \<Rightarrow> Some (Inl EMEDIUMTYPE)
     | Some s \<Rightarrow> (case ufs_iget br s (fc_index fc) of
         Inl r \<Rightarrow> Some (Inl r)
       | Inr i \<Rightarrow>
         let md = ufs_mode (mt_types ms) i; q = drop_bit 9 (s_bsize s)
         in if q = 0 then None
            else Some (Inr \<lparr>x_mode = md, x_index = fc_index fc, x_dev = fc_dev fc,
              x_rdev = (if mt_ischr ms md \<or> mt_isblk ms md then u16 (db i ! 0) else 0),
              x_nlink = nlink i, x_uid = u16 (ufs_uid i), x_gid = u16 (ufs_gid i),
              x_size = isize i, x_blksize = s_bsize s,
              x_nblocks = cdiv (s32 (iblocks i + q - 1)) q,
              x_mtime = hi16 (mtime i), x_mdate = u16 (mtime i),
              x_atime = hi16 (atime i), x_adate = u16 (atime i),
              x_ctime = hi16 (ctime i), x_cdate = u16 (ctime i),
              x_attr = (if mt_isdir ms md then mt_FA_DIR ms else mt_FA_RDONLY ms)\<rparr>)))"

record STAT =
  st_dev :: nat
  st_ino :: int
  st_mode :: int
  st_nlink :: int
  st_uid :: int
  st_gid :: int
  st_rdev :: int
  st_atime :: int
  st_mtime :: int
  st_ctime :: int
  st_size :: int
  st_blocks :: int
  st_blksize :: int
  st_gen :: int

definition ufs_stat64 :: "mint_stat \<Rightarrow> bio \<Rightarrow> utab \<Rightarrow> fcookie \<Rightarrow> merr + STAT" where
  "ufs_stat64 ms br tab fc =
    (case tab (fc_dev fc) of
       None \<Rightarrow> Inl EMEDIUMTYPE
     | Some s \<Rightarrow> (case ufs_iget br s (fc_index fc) of
         Inl r \<Rightarrow> Inl r
       | Inr i \<Rightarrow>
         let md = ufs_mode (mt_types ms) i
         in Inr \<lparr>st_dev = fc_dev fc, st_ino = fc_index fc, st_mode = md, st_nlink = nlink i,
              st_uid = ufs_uid i, st_gid = ufs_gid i,
              st_rdev = (if mt_ischr ms md \<or> mt_isblk ms md then db i ! 0 else 0),
              st_atime = atime i, st_mtime = mtime i, st_ctime = ctime i, st_size = isize i,
              st_blocks = iblocks i, st_blksize = s_bsize s, st_gen = igen i\<rparr>))"

section \<open>What a read-only file system refuses\<close>

text \<open>The changing calls by name; the driver's answer, \<open>None\<close> for \<open>E_OK\<close>.\<close>

datatype ufs_change =
    Chattr | Chown | Chmode | Mkdir | Rmdir | Creat | Remove | Rename | Writelabel | Symlink
  | Hardlink | Sync | Dskchng | Release

definition ufs_change_call :: "ufs_change \<Rightarrow> merr option" where
  "ufs_change_call c = (if c \<in> {Sync, Dskchng, Release} then None else Some EROFS)"

definition ufs_dupcookie :: "fcookie \<Rightarrow> fcookie" where
  "ufs_dupcookie src = src"

section \<open>Names and directories\<close>

definition ufs_getname ::
    "(nat \<Rightarrow> bool) \<Rightarrow> bio \<Rightarrow> utab \<Rightarrow> fcookie \<Rightarrow> fcookie \<Rightarrow> int \<Rightarrow> (merr + byte list) option" where
  "ufs_getname km br tab root dir sz =
    (case tab (fc_dev dir) of
       None \<Rightarrow> Some (Inl EMEDIUMTYPE)
     | Some s \<Rightarrow> getname_loop km br s (fc_index root) (sz - 1) 0 (fc_index dir) [])"

text \<open>An open directory: \<open>DIR\<close> with the driver's \<open>ufs_dirinfo\<close> in \<open>fsstuff\<close>.\<close>

record DIRH =
  dh_fc :: fcookie
  dh_tos :: bool
  dh_info :: ufs_dirinfo

definition ufs_opendir :: "bio \<Rightarrow> utab \<Rightarrow> DIRH \<Rightarrow> merr + DIRH" where
  "ufs_opendir br tab dh =
    (case tab (fc_dev (dh_fc dh)) of
       None \<Rightarrow> Inl EMEDIUMTYPE
     | Some s \<Rightarrow> (case ufs_iget br s (fc_index (dh_fc dh)) of
         Inl r \<Rightarrow> Inl r
       | Inr i \<Rightarrow>
         if smode i AND UFS_IFMT \<noteq> UFS_IFDIR then Inl ENOTDIR
         else Inr (dh\<lparr>dh_info := \<lparr>di_pos = 0, di_size = isize i\<rparr>\<rparr>)))"

text \<open>The bytes put into \<open>nm\<close> and the entry's cookie, or the error; and the directory after.\<close>

definition ufs_readdir ::
    "bio \<Rightarrow> utab \<Rightarrow> DIRH \<Rightarrow> int \<Rightarrow> ((merr + byte list \<times> fcookie) \<times> DIRH) option" where
  "ufs_readdir br tab dh nmlen =
    (case tab (fc_dev (dh_fc dh)) of
       None \<Rightarrow> Some (Inl EMEDIUMTYPE, dh)
     | Some s \<Rightarrow> (case ufs_iget br s (fc_index (dh_fc dh)) of
         Inl r \<Rightarrow> Some (Inl r, dh)
       | Inr i \<Rightarrow>
         (case readdir_loop (ufs_readfile br s i) (dh_tos dh) nmlen
                 (ufs_dirinfo.di_size (dh_info dh)) (di_pos (dh_info dh)) of
            None \<Rightarrow> None
          | Some (r, p) \<Rightarrow>
            Some ((case r of
                     Inl e \<Rightarrow> Inl e
                   | Inr (b, ino) \<Rightarrow>
                       Inr (b, \<lparr>fc_fs = Ftab, fc_dev = fc_dev (dh_fc dh), fc_aux = 0,
                                fc_index = ino\<rparr>)),
                  dh\<lparr>dh_info := (dh_info dh)\<lparr>di_pos := p\<rparr>\<rparr>))))"

definition ufs_rewinddir :: "DIRH \<Rightarrow> DIRH" where
  "ufs_rewinddir dh = dh\<lparr>dh_info := (dh_info dh)\<lparr>di_pos := 0\<rparr>\<rparr>"

definition ufs_closedir :: "DIRH \<Rightarrow> DIRH" where
  "ufs_closedir dh = dh"

section \<open>Information\<close>

datatype dp_which =
    DP_INQUIRE | DP_IOPEN | DP_MAXLINKS | DP_PATHMAX | DP_NAMEMAX | DP_ATOMIC | DP_TRUNC
  | DP_CASE | DP_MODEATTR | DP_XATTRFIELDS | DP_VOLNAMEMAX | DP_OTHER int

text \<open>What \<open>pathconf\<close> answers: a number, or one of FreeMiNT's constants.\<close>

datatype dp_answer =
    DPNum int | DPLastSelector | DPUnlimited | DPNoTrunc | DPCaseSens | DPModeAttr | DPXattrFields

definition ufs_pathconf :: "dp_which \<Rightarrow> merr + dp_answer" where
  "ufs_pathconf w =
    (case w of
       DP_INQUIRE \<Rightarrow> Inr DPLastSelector
     | DP_IOPEN \<Rightarrow> Inr DPUnlimited
     | DP_MAXLINKS \<Rightarrow> Inr (DPNum 32767)
     | DP_PATHMAX \<Rightarrow> Inr DPUnlimited
     | DP_NAMEMAX \<Rightarrow> Inr (DPNum MAXNAMLEN)
     | DP_ATOMIC \<Rightarrow> Inr (DPNum 8192)
     | DP_TRUNC \<Rightarrow> Inr DPNoTrunc
     | DP_CASE \<Rightarrow> Inr DPCaseSens
     | DP_MODEATTR \<Rightarrow> Inr DPModeAttr
     | DP_XATTRFIELDS \<Rightarrow> Inr DPXattrFields
     | DP_VOLNAMEMAX \<Rightarrow> Inr (DPNum 8)
     | DP_OTHER n \<Rightarrow> Inl ENOSYS)"

definition ufs_dfree :: "utab \<Rightarrow> fcookie \<Rightarrow> merr + int list" where
  "ufs_dfree tab dir =
    (case tab (fc_dev dir) of
       None \<Rightarrow> Inl EMEDIUMTYPE
     | Some s \<Rightarrow> Inr [s32 (s_nbfree s * s_frag s + s_nffree s), s_dsize s, 512,
                      cdiv (s_fsize s) 512])"

definition ufs_readlabel :: "utab \<Rightarrow> fcookie \<Rightarrow> int \<Rightarrow> merr + byte list" where
  "ufs_readlabel tab dir namelen =
    (case tab (fc_dev dir) of
       None \<Rightarrow> Inl EMEDIUMTYPE
     | Some s \<Rightarrow> if namelen \<le> int (length (s_volume s)) then Inl EBADARG else Inr (s_volume s))"

text \<open>
  \<open>letter\<close> is FreeMiNT's \<open>DriveToLetter\<close>. \<open>None\<close>: the short link's target is longer than
  what follows \<open>db\<close> in the inode, so the copy reads past it.
\<close>

definition ufs_readlink ::
    "(int \<Rightarrow> byte) \<Rightarrow> int \<Rightarrow> bio \<Rightarrow> utab \<Rightarrow> fcookie \<Rightarrow> int \<Rightarrow> (merr + byte list) option" where
  "ufs_readlink letter root_drv br tab file len =
    (case tab (fc_dev file) of
       None \<Rightarrow> Some (Inl EMEDIUMTYPE)
     | Some s \<Rightarrow> (case ufs_iget br s (fc_index file) of
         Inl r \<Rightarrow> Some (Inl r)
       | Inr i \<Rightarrow>
         if smode i AND UFS_IFMT \<noteq> UFS_IFLNK then Some (Inl EINVAL)
         else
           let n = isize i
           in if n \<le> 0 \<or> n \<ge> 1024 then Some (Inl EBADARG)
              else
                (case (if iblocks i = 0 then
                         (if n > int (length (ufs_dinode_db_bytes i)) then None
                          else Some (Inr (take (nat n) (ufs_dinode_db_bytes i))))
                       else (case ufs_readfile br s i 0 n of
                               None \<Rightarrow> None
                             | Some b \<Rightarrow> if int (length b) \<noteq> n then Some (Inl EREAD) else Some (Inr b))) of
                   None \<Rightarrow> None
                 | Some (Inl e) \<Rightarrow> Some (Inl e)
                 | Some (Inr target) \<Rightarrow>
                   if target ! 0 = 47 \<and> root_drv \<ge> 0 then
                     (if len < 3 then Some (Inl EBADARG)
                      else if n + 2 \<ge> len then Some (Inl EBADARG)
                      else Some (Inr ([letter root_drv, 58] @ cstr target)))
                   else if n \<ge> len then Some (Inl EBADARG)
                   else Some (Inr (cstr target)))))"

datatype fscmd = MX_KER_XFSNAME | FS_INFO | FS_USAGE | FS_OTHER int

text \<open>\<open>fs_info\<close> as name, version, type and its text; \<open>fs_usage\<close> as its five fields.\<close>

datatype fsinfo =
    XfsName "byte list" | Info "byte list" int int "byte list"
  | Usage int int int int int | NoInfo

definition ufs_fscntl :: "utab \<Rightarrow> fcookie \<Rightarrow> fscmd \<Rightarrow> bool \<Rightarrow> merr + fsinfo" where
  "ufs_fscntl tab dir cmd arg =
    (case cmd of
       MX_KER_XFSNAME \<Rightarrow> Inr (XfsName (bytes_of ''ufs''))
     | FS_INFO \<Rightarrow>
         Inr (if arg then Info (bytes_of ''ufs-xfs'') (push_bit 16 0 OR 1) 0 (bytes_of ''ufs'') else NoInfo)
     | FS_USAGE \<Rightarrow>
         Inr (case tab (fc_dev dir) of
                None \<Rightarrow> NoInfo
              | Some s \<Rightarrow>
                if arg then Usage (s_fsize s) (s_dsize s) (s32 (s_nbfree s * s_frag s + s_nffree s))
                              (s32 (s_ipg s * s_ncg s)) (s_nifree s)
                else NoInfo)
     | FS_OTHER n \<Rightarrow> Inl ENOSYS)"

section \<open>Open files\<close>

record FILEPTR =
  f_fc :: fcookie
  f_rdonly :: bool
  f_pos :: int
  f_devinfo :: int

text \<open>\<open>f_rdonly\<close>: the open mode's \<open>O_RWMODE\<close> bits are \<open>O_RDONLY\<close>.\<close>

definition ufs_open :: "bio \<Rightarrow> utab \<Rightarrow> FILEPTR \<Rightarrow> merr + FILEPTR" where
  "ufs_open br tab f =
    (case tab (fc_dev (f_fc f)) of
       None \<Rightarrow> Inl EMEDIUMTYPE
     | Some s \<Rightarrow>
       if \<not> f_rdonly f then Inl EROFS
       else (case ufs_iget br s (fc_index (f_fc f)) of
         Inl r \<Rightarrow> Inl r
       | Inr i \<Rightarrow>
         if smode i AND UFS_IFMT \<noteq> UFS_IFREG then Inl EACCES
         else Inr (f\<lparr>f_pos := 0, f_devinfo := isize i\<rparr>)))"

definition ufs_write :: "FILEPTR \<Rightarrow> byte list \<Rightarrow> int \<Rightarrow> merr + int" where
  "ufs_write f buf bytes = Inl EROFS"

text \<open>The bytes read, whose number the call returns, and the file after.\<close>

definition ufs_read ::
    "bio \<Rightarrow> utab \<Rightarrow> FILEPTR \<Rightarrow> int \<Rightarrow> ((merr + byte list) \<times> FILEPTR) option" where
  "ufs_read br tab f bytes =
    (case tab (fc_dev (f_fc f)) of
       None \<Rightarrow> Some (Inl EMEDIUMTYPE, f)
     | Some s \<Rightarrow>
       if bytes \<le> 0 then Some (Inr [], f)
       else (case ufs_iget br s (fc_index (f_fc f)) of
         Inl r \<Rightarrow> Some (Inl r, f)
       | Inr i \<Rightarrow>
         (case ufs_readfile br s i (f_pos f) bytes of
            None \<Rightarrow> None
          | Some b \<Rightarrow>
            Some (Inr b, if b = [] then f else f\<lparr>f_pos := s32 (f_pos f + int (length b))\<rparr>))))"

datatype whence = SEEK_SET | SEEK_CUR | SEEK_END | SEEK_OTHER int

definition ufs_lseek :: "FILEPTR \<Rightarrow> int \<Rightarrow> whence \<Rightarrow> (merr + int) \<times> FILEPTR" where
  "ufs_lseek f wh whn =
    (case (case whn of
             SEEK_SET \<Rightarrow> Some wh
           | SEEK_CUR \<Rightarrow> Some (s32 (wh + f_pos f))
           | SEEK_END \<Rightarrow> Some (s32 (wh + f_devinfo f))
           | SEEK_OTHER n \<Rightarrow> None) of
       None \<Rightarrow> (Inl EINVAL, f)
     | Some w \<Rightarrow> if w < 0 then (Inl EBADARG, f) else (Inr w, f\<lparr>f_pos := w\<rparr>))"

datatype fioctl = FIONREAD | FIONWRITE | FIOEXCEPT | FIO_OTHER int

definition ufs_ioctl :: "FILEPTR \<Rightarrow> fioctl \<Rightarrow> merr + int" where
  "ufs_ioctl f md =
    (case md of
       FIONREAD \<Rightarrow> Inr (s32 (f_devinfo f - f_pos f))
     | FIONWRITE \<Rightarrow> Inr 0
     | FIOEXCEPT \<Rightarrow> Inr 0
     | FIO_OTHER n \<Rightarrow> Inl ENOSYS)"

definition ufs_datime :: "bio \<Rightarrow> utab \<Rightarrow> FILEPTR \<Rightarrow> bool \<Rightarrow> merr + int \<times> int" where
  "ufs_datime br tab f flag =
    (if flag then Inl EROFS
     else (case tab (fc_dev (f_fc f)) of
       None \<Rightarrow> Inl EMEDIUMTYPE
     | Some s \<Rightarrow> (case ufs_iget br s (fc_index (f_fc f)) of
         Inl r \<Rightarrow> Inl r
       | Inr i \<Rightarrow> Inr (hi16 (mtime i), u16 (mtime i)))))"

definition ufs_close :: "FILEPTR \<Rightarrow> merr option" where
  "ufs_close f = None"

text \<open>\<open>rdonly\<close> and \<open>wronly\<close>: the mode is \<open>O_RDONLY\<close>, \<open>O_WRONLY\<close>.\<close>

definition ufs_select :: "bool \<Rightarrow> bool \<Rightarrow> int" where
  "ufs_select rdonly wronly = (if rdonly \<or> wronly then 1 else 0)"

section \<open>Well-formed directories\<close>

text \<open>A readable directory file that holds the entries \<open>es\<close>.\<close>

definition is_dir :: "bio \<Rightarrow> UFS \<Rightarrow> ufs_dinode \<Rightarrow> dent list \<Rightarrow> bool" where
  "is_dir br s ip es \<longleftrightarrow> file_ok br s ip \<and> smode ip AND UFS_IFMT = UFS_IFDIR \<and>
     (\<forall>e \<in> set es. wf_dent e) \<and>
     (\<exists>bls. es = concat bls \<and> ufs_content br s ip = enc_dents es \<and> blocks_ok (s_bsize s) bls)"

lemma is_dir_size: "is_dir br s ip es \<Longrightarrow> isize ip = int (length (ufs_content br s ip))"
  by (auto simp: is_dir_def file_ok_def ufs_content_def)

lemma is_dir_bsize: "is_dir br s ip es \<Longrightarrow> 0 < s_bsize s"
  by (auto simp: is_dir_def file_ok_def ufs_geom_def)

lemma ufs_dirlookup_dir:
  assumes "is_dir br s ip es"
  shows "ufs_dirlookup True br s ip name = Some (dir_find es name)"
proof -
  obtain bls where b: "es = concat bls" "ufs_content br s ip = enc_dents es"
    "blocks_ok (s_bsize s) bls" "file_ok br s ip" "\<forall>e \<in> set es. wf_dent e"
    using assms by (auto simp: is_dir_def)
  show ?thesis
    using uf.dirlookup_blocks [of "(br, s, ip)" "[]" bls "s_bsize s" 0 name] b
      is_dir_bsize [OF assms]
    by (simp add: ufs_dirlookup_def is_dir_size [OF assms])
qed

lemma ufs_dirname_dir:
  assumes "is_dir br s ip es"
  shows "ufs_dirname True br s ip ino 256 = Some (dir_nameof es ino)"
proof -
  obtain bls where b: "es = concat bls" "ufs_content br s ip = enc_dents es"
    "blocks_ok (s_bsize s) bls" "file_ok br s ip" "\<forall>e \<in> set es. wf_dent e"
    using assms by (auto simp: is_dir_def)
  show ?thesis
    using uf.dirname_blocks [of "(br, s, ip)" "[]" bls "s_bsize s" 0 ino] b
      is_dir_bsize [OF assms]
    by (simp add: ufs_dirname_def is_dir_size [OF assms])
qed

lemma readdir_loop_dir:
  assumes d: "is_dir br s ip (pre @ es)" and room: "260 \<le> nmlen"
  shows "readdir_loop (ufs_readfile br s ip) tos nmlen (isize ip) (int (length (enc_dents pre))) =
    Some (case dropWhile (\<lambda>e. e_ino e = 0) es of
            [] \<Rightarrow> (Inl ENMFILES, isize ip)
          | e # r \<Rightarrow> (Inr ((if tos then [] else p32 (e_ino e)) @ e_name e, e_ino e),
                      isize ip - int (length (enc_dents r))))"
  using uf.readdir_dents [of "(br, s, ip)" pre es nmlen tos] d room
  unfolding is_dir_size [OF d] by (auto simp: is_dir_def)

section \<open>Lookup\<close>

lemma ufs_lookup_dir:
  assumes t: "tab (fc_dev dir) = Some s" and g: "ufs_iget br s (fc_index dir) = Inr ip"
    and d: "is_dir br s ip es"
    and nm: "name \<noteq> []" "name \<noteq> [46]" "name = [46, 46] \<Longrightarrow> fc_index dir \<noteq> UFS_ROOTINO"
    "length name \<le> 255"
  shows "ufs_lookup True br tab dir name =
    Some (if dir_find es name = 0 then (Some ENOENT, None)
          else (None, Some \<lparr>fc_fs = Ftab, fc_dev = fc_dev dir, fc_aux = 0,
                            fc_index = dir_find es name\<rparr>))"
  using assms ufs_dirlookup_dir [OF d, of name]
  by (auto simp: ufs_lookup_def MAXNAMLEN_def is_dir_def)

section \<open>Reading a directory to its end\<close>

text \<open>What \<open>n\<close> calls of \<open>readdir\<close> in a row answer.\<close>

fun readdir_n ::
    "bio \<Rightarrow> utab \<Rightarrow> DIRH \<Rightarrow> int \<Rightarrow> nat \<Rightarrow> (merr + byte list \<times> fcookie) list option" where
  "readdir_n br tab dh nmlen 0 = Some []"
| "readdir_n br tab dh nmlen (Suc n) =
    (case ufs_readdir br tab dh nmlen of
       None \<Rightarrow> None
     | Some (r, dh') \<Rightarrow> map_option (\<lambda>rs. r # rs) (readdir_n br tab dh' nmlen n))"

definition readdir_answer :: "DIRH \<Rightarrow> dent \<Rightarrow> merr + byte list \<times> fcookie" where
  "readdir_answer dh e = Inr ((if dh_tos dh then [] else p32 (e_ino e)) @ e_name e,
     \<lparr>fc_fs = Ftab, fc_dev = fc_dev (dh_fc dh), fc_aux = 0, fc_index = e_ino e\<rparr>)"

lemma dropWhile_filter:
  "dropWhile (\<lambda>x. \<not> P x) xs = e # r \<Longrightarrow>
     P e \<and> filter P xs = e # filter P r \<and> (\<exists>p. xs = p @ e # r)"
  "dropWhile (\<lambda>x. \<not> P x) xs = [] \<Longrightarrow> filter P xs = []"
proof (induction xs)
  case (Cons x xs)
  { case 1 with Cons show ?case by (auto split: if_splits) }
  { case 2 with Cons show ?case by (auto split: if_splits) }
qed simp_all

lemma readdir_n_dir:
  assumes t: "tab (fc_dev (dh_fc dh)) = Some s" and g: "ufs_iget br s (fc_index (dh_fc dh)) = Inr ip"
    and d: "is_dir br s ip (pre @ es)" and room: "260 \<le> nmlen"
    and info: "dh_info dh = \<lparr>di_pos = int (length (enc_dents pre)), di_size = isize ip\<rparr>"
  shows "readdir_n br tab dh nmlen (Suc (length (filter (\<lambda>e. e_ino e \<noteq> 0) es))) =
    Some (map (readdir_answer dh) (filter (\<lambda>e. e_ino e \<noteq> 0) es) @ [Inl ENMFILES])"
  using assms
proof (induction "filter (\<lambda>e. e_ino e \<noteq> 0) es" arbitrary: pre es dh)
  case Nil
  then have "dropWhile (\<lambda>e. e_ino e = 0) es = []"
    using dropWhile_filter(1) [of "\<lambda>e. e_ino e \<noteq> 0" es]
    by (cases "dropWhile (\<lambda>e. e_ino e = 0) es") auto
  then show ?case
    using Nil readdir_loop_dir [OF Nil.prems(3) room, of "dh_tos dh"]
    by (simp add: ufs_readdir_def del: dropWhile_eq_Nil_conv)
next
  case (Cons x xs)
  have ne: "dropWhile (\<lambda>e. e_ino e = 0) es \<noteq> []"
  proof
    assume "dropWhile (\<lambda>e. e_ino e = 0) es = []"
    then show False using dropWhile_filter(2) [of "\<lambda>e. e_ino e \<noteq> 0" es] Cons.hyps(2) by simp
  qed
  then obtain e r where er: "dropWhile (\<lambda>e. e_ino e = 0) es = e # r"
    by (cases "dropWhile (\<lambda>e. e_ino e = 0) es") auto
  obtain p where p: "e_ino e \<noteq> 0" "filter (\<lambda>e. e_ino e \<noteq> 0) es = e # filter (\<lambda>e. e_ino e \<noteq> 0) r"
    "es = p @ e # r"
    using dropWhile_filter(1) [of "\<lambda>e. e_ino e \<noteq> 0" es e r] er by auto
  let ?pre = "pre @ p @ [e]"
  let ?pos = "int (length (enc_dents ?pre))"
  let ?dh = "dh\<lparr>dh_info := (dh_info dh)\<lparr>di_pos := ?pos\<rparr>\<rparr>"
  have d': "is_dir br s ip (?pre @ r)" using Cons.prems(3) p(3) by simp
  have pos: "isize ip - int (length (enc_dents r)) = ?pos"
    using is_dir_size [OF d'] d' by (auto simp: is_dir_def)
  have "ufs_readdir br tab dh nmlen = Some (readdir_answer dh e, ?dh)"
    using Cons.prems(1,2,5) readdir_loop_dir [OF Cons.prems(3) room, of "dh_tos dh"] er pos
    by (simp add: ufs_readdir_def readdir_answer_def)
  moreover have "readdir_n br tab ?dh nmlen (Suc (length (filter (\<lambda>e. e_ino e \<noteq> 0) r))) =
      Some (map (readdir_answer ?dh) (filter (\<lambda>e. e_ino e \<noteq> 0) r) @ [Inl ENMFILES])"
    using Cons.hyps(2) Cons.prems p d' room by (intro Cons.hyps(1) [where pre = ?pre]) auto
  moreover have "readdir_answer ?dh = readdir_answer dh"
    by (simp add: fun_eq_iff readdir_answer_def)
  ultimately show ?case using p(2) by simp
qed

section \<open>Paths\<close>

text \<open>Following names one by one from a cookie with \<open>lookup\<close>.\<close>

fun ufs_walk :: "bio \<Rightarrow> utab \<Rightarrow> fcookie \<Rightarrow> byte list list \<Rightarrow> fcookie option" where
  "ufs_walk br tab fc [] = Some fc"
| "ufs_walk br tab fc (nm # nms) =
    (case ufs_lookup True br tab fc nm of
       Some (None, Some fc') \<Rightarrow> ufs_walk br tab fc' nms
     | _ \<Rightarrow> None)"

lemma ufs_walk_append:
  "ufs_walk br tab fc (xs @ ys) =
     (case ufs_walk br tab fc xs of None \<Rightarrow> None | Some fc' \<Rightarrow> ufs_walk br tab fc' ys)"
  by (induction xs arbitrary: fc) (auto split: option.splits prod.splits)

definition path_str :: "byte list list \<Rightarrow> byte list" where
  "path_str nms = concat (map (\<lambda>n. 47 # n) nms)"

text \<open>
  The directory \<open>ino\<close> lies below \<open>root\<close> under the names \<open>nms\<close>: each step's parent holds one
  name for it, and the directory's own \<open>..\<close> is that parent.
\<close>

inductive dir_at :: "bio \<Rightarrow> UFS \<Rightarrow> int \<Rightarrow> int \<Rightarrow> byte list list \<Rightarrow> bool"
  for br s root where
  at_root: "dir_at br s root root []"
| below: "dir_at br s root parent nms \<Longrightarrow>
    ufs_iget br s parent = Inr pn \<Longrightarrow> is_dir br s pn pes \<Longrightarrow> parent \<noteq> 0 \<Longrightarrow>
    ufs_iget br s ino = Inr n \<Longrightarrow> is_dir br s n nes \<Longrightarrow> dir_find nes [46, 46] = parent \<Longrightarrow>
    ino \<noteq> root \<Longrightarrow> ino \<noteq> 0 \<Longrightarrow> dir_nameof pes ino = Inr nm \<Longrightarrow> nm \<notin> {[], [46], [46, 46]} \<Longrightarrow>
    distinct (map e_name (filter (\<lambda>e. e_ino e \<noteq> 0) pes)) \<Longrightarrow>
    dir_at br s root ino (nms @ [nm])"

inductive_cases dir_at_snocE: "dir_at br s root ino (nms @ [nm])"

lemma dir_nameof_find:
  assumes "dir_nameof es ino = Inr nm" "ino \<noteq> 0"
    and "distinct (map e_name (filter (\<lambda>e. e_ino e \<noteq> 0) es))"
  shows "dir_find es nm = ino"
  using assms
proof (induction es)
  case Nil
  then show ?case by (simp add: dir_nameof_def)
next
  case (Cons e es)
  show ?case
  proof (cases "e_ino e = ino")
    case True
    then show ?thesis using Cons.prems by (simp add: dir_nameof_def dir_find_def)
  next
    case False
    then have n: "dir_nameof es ino = Inr nm" using Cons.prems by (simp add: dir_nameof_def)
    then have "\<exists>x \<in> set es. e_ino x = ino \<and> e_name x = nm"
      by (induction es) (auto simp: dir_nameof_def split: if_splits)
    then have "e_ino e \<noteq> 0 \<longrightarrow> e_name e \<noteq> nm"
      using Cons.prems by (auto simp: image_iff)
    then show ?thesis
      using Cons.IH [OF n] Cons.prems by (auto simp: dir_find_def split: if_splits)
  qed
qed

lemma dir_nameof_wf:
  assumes "is_dir br s ip es" "dir_nameof es ino = Inr nm"
  shows "0 \<notin> set nm" "length nm \<le> 255"
proof -
  have "\<exists>e \<in> set es. e_name e = nm"
    using assms(2) by (auto simp: dir_nameof_def split: option.splits dest!: find_SomeD)
  then show "0 \<notin> set nm" "length nm \<le> 255"
    using assms(1) by (auto simp: is_dir_def wf_dent_def)
qed

lemma path_str_snoc: "path_str (nms @ [nm]) = path_str nms @ 47 # nm"
  by (simp add: path_str_def)

lemma getname_loop_path:
  assumes "dir_at br s root ino nms" and "int (length path) \<le> sz"
  shows "getname_loop (\<lambda>_. True) br s root sz k ino path =
    Some (if int (length path + length (path_str nms)) \<le> sz
          then Inr (path_str nms @ rev path) else Inl EBADARG)"
  using assms
proof (induction arbitrary: k path rule: dir_at.induct)
  case at_root
  then show ?case by (subst getname_loop.simps) (simp add: path_str_def)
next
  case (below parent nms pn pes ino n nes nm)
  have c: "cstr nm = nm" using dir_nameof_wf [OF below(3,10)] by (simp add: cstr_no_nul)
  let ?path = "path @ rev nm @ [47]"
  have step: "getname_loop (\<lambda>_. True) br s root sz k ino path =
      (if int (length path) + int (length nm) + 1 > sz then Some (Inl EBADARG)
       else getname_loop (\<lambda>_. True) br s root sz (k + 2) parent ?path)"
    using below(2,4,5,7,8,10) c ufs_dirlookup_dir [OF below(6)] ufs_dirname_dir [OF below(3)]
    by (subst getname_loop.simps) simp
  show ?case
    using below.IH [of ?path "k + 2"] by (auto simp: step path_str_snoc)
qed

lemma ufs_walk_dir_at:
  assumes "dir_at br s root ino nms" and "tab dev = Some s"
  shows "ufs_walk br tab \<lparr>fc_fs = Ftab, fc_dev = dev, fc_aux = 0, fc_index = root\<rparr> nms =
    Some \<lparr>fc_fs = Ftab, fc_dev = dev, fc_aux = 0, fc_index = ino\<rparr>"
  using assms
proof (induction rule: dir_at.induct)
  case at_root
  then show ?case by simp
next
  case (below parent nms pn pes ino n nes nm)
  have f: "dir_find pes nm = ino" using below(9,10,12) by (intro dir_nameof_find)
  have "ufs_lookup True br tab \<lparr>fc_fs = Ftab, fc_dev = dev, fc_aux = 0, fc_index = parent\<rparr> nm =
      Some (None, Some \<lparr>fc_fs = Ftab, fc_dev = dev, fc_aux = 0, fc_index = ino\<rparr>)"
    using ufs_lookup_dir [of tab "\<lparr>fc_fs = Ftab, fc_dev = dev, fc_aux = 0, fc_index = parent\<rparr>" s br pn pes nm]
      below f dir_nameof_wf [OF below(3,10)] by auto
  then show ?case using below by (simp add: ufs_walk_append)
qed

section \<open>Reading a file in pieces\<close>

text \<open>Successive reads: all the bytes delivered, and the file after.\<close>

fun ufs_reads :: "bio \<Rightarrow> utab \<Rightarrow> FILEPTR \<Rightarrow> int list \<Rightarrow> (byte list \<times> FILEPTR) option" where
  "ufs_reads br tab f [] = Some ([], f)"
| "ufs_reads br tab f (n # ns) =
    (case ufs_read br tab f n of
       Some (Inr b, f') \<Rightarrow> map_option (\<lambda>(bs, g). (b @ bs, g)) (ufs_reads br tab f' ns)
     | _ \<Rightarrow> None)"

lemma ufs_read_slice:
  assumes t: "tab (fc_dev (f_fc f)) = Some s" and g: "ufs_iget br s (fc_index (f_fc f)) = Inr ip"
    and ok: "file_ok br s ip" and pos: "0 \<le> f_pos f" "f_pos f \<le> isize ip" and n: "0 \<le> n"
  shows "ufs_read br tab f n =
    Some (Inr (take (nat n) (drop (nat (f_pos f)) (ufs_content br s ip))),
          f\<lparr>f_pos := min (f_pos f + n) (isize ip)\<rparr>)"
proof -
  have len: "int (length (ufs_content br s ip)) = isize ip" "isize ip < 2147483648"
    using ok by (auto simp: file_ok_def ufs_content_def)
  have l: "int (length (take (nat n) (drop (nat (f_pos f)) (ufs_content br s ip)))) =
      min n (isize ip - f_pos f)"
    using len pos n by simp
  have "s32 (f_pos f + min n (isize ip - f_pos f)) = min (f_pos f + n) (isize ip)"
    using len pos n by (subst s32_id) (auto simp: min_def)
  then show ?thesis
    using assms ufs_readfile_slice [OF ok pos(1) n] l
    by (auto simp: ufs_read_def)
qed

lemma ufs_reads_content:
  assumes t: "tab (fc_dev (f_fc f)) = Some s" and g: "ufs_iget br s (fc_index (f_fc f)) = Inr ip"
    and ok: "file_ok br s ip" and pos: "0 \<le> f_pos f" "f_pos f \<le> isize ip"
    and ns: "\<forall>n \<in> set ns. 0 \<le> n"
  shows "ufs_reads br tab f ns =
    Some (take (nat (sum_list ns)) (drop (nat (f_pos f)) (ufs_content br s ip)),
          f\<lparr>f_pos := min (f_pos f + sum_list ns) (isize ip)\<rparr>)"
  using assms
proof (induction ns arbitrary: f)
  case Nil
  then show ?case by simp
next
  case (Cons n ns)
  have n: "0 \<le> n" and ns: "0 \<le> sum_list ns" "\<forall>n \<in> set ns. 0 \<le> n"
    using Cons.prems(6) by (auto intro: sum_list_nonneg)
  let ?c = "ufs_content br s ip"
  let ?p = "min (f_pos f + n) (isize ip)"
  have len: "int (length ?c) = isize ip"
    using ok by (auto simp: file_ok_def ufs_content_def)
  have rd: "ufs_read br tab f n =
      Some (Inr (take (nat n) (drop (nat (f_pos f)) ?c)), f\<lparr>f_pos := ?p\<rparr>)"
    using Cons.prems n by (intro ufs_read_slice)
  have IH: "ufs_reads br tab (f\<lparr>f_pos := ?p\<rparr>) ns =
      Some (take (nat (sum_list ns)) (drop (nat ?p) ?c),
            f\<lparr>f_pos := min (?p + sum_list ns) (isize ip)\<rparr>)"
    using Cons.IH [of "f\<lparr>f_pos := ?p\<rparr>"] Cons.prems n ns by simp
  have "take (nat n) (drop (nat (f_pos f)) ?c) @ take (nat (sum_list ns)) (drop (nat ?p) ?c) =
      take (nat n + nat (sum_list ns)) (drop (nat (f_pos f)) ?c)"
    using Cons.prems(4,5) n len
    by (auto simp: take_add min_def nat_add_distrib add.commute)
  moreover have "min (?p + sum_list ns) (isize ip) = min (f_pos f + (n + sum_list ns)) (isize ip)"
    using ns by (auto simp: min_def)
  ultimately show ?case
    using n ns by (simp add: rd IH nat_add_distrib)
qed

section \<open>Seeking\<close>

lemma ufs_lseek_result:
  assumes "- 2147483648 \<le> wh" "wh < 2147483648"
    and "ufs_lseek f wh whn = (r, f')"
  shows "(case r of Inl e \<Rightarrow> f' = f | Inr p \<Rightarrow> 0 \<le> p \<and> p < 2147483648 \<and> f' = f\<lparr>f_pos := p\<rparr>)"
  using assms s32_bounds
  by (auto simp: ufs_lseek_def not_less split: whence.splits if_splits sum.splits)

section \<open>Helpers\<close>

lemma ufs_content_direct:
  assumes g: "ufs_geom s" and sz: "0 \<le> isize ip" "isize ip \<le> s_bsize s"
    and f: "u32 (db ip ! 0) \<noteq> 0"
    and rd: "ufs_bread br s (u32 (db ip ! 0)) (blk_bytes s (isize ip) 0) = Some d"
    and d: "isize ip \<le> int (length d)"
  shows "ufs_content br s ip = take (nat (isize ip)) d"
proof (rule nth_equalityI)
  show "length (ufs_content br s ip) = length (take (nat (isize ip)) d)"
    using d sz by (simp add: ufs_content_def)
next
  fix i assume "i < length (ufs_content br s ip)"
  then have i: "int i < isize ip" using sz by (simp add: ufs_content_def)
  then have "int i div s_bsize s = 0" "int i mod s_bsize s = int i" using sz by auto
  moreover have "bmap_spec br s ip 0 = u32 (db ip ! 0)" by (simp add: bmap_spec_def)
  ultimately have "ufs_byte br s ip (int i) = d ! i"
    using f rd by (simp add: ufs_byte_def cong: option.case_cong)
  then show "ufs_content br s ip ! i = take (nat (isize ip)) d ! i"
    using i sz by (simp add: ufs_content_def zless_nat_eq_int_zless)
qed

lemma file_ok_total:
  assumes "ufs_geom s" "0 \<le> isize ip" "isize ip < 2147483648"
    and "\<And>frag n. 0 \<le> n \<Longrightarrow> \<exists>d. ufs_bread br s frag n = Some d \<and> int (length d) = n"
  shows "file_ok br s ip"
proof -
  have f: "0 < s_fsize s" "0 < s_bsize s" using assms(1) by (auto simp: ufs_geom_def)
  have "0 \<le> blk_bytes s (isize ip) blk" if "blk * s_bsize s < isize ip" for blk
    using f that by (simp add: blk_bytes_def pos_imp_zdiv_nonneg_iff)
  then show ?thesis using assms by (auto simp: file_ok_def)
qed

lemma ufs_getname_path:
  assumes "dir_at br s (fc_index root) (fc_index dir) nms" and "tab (fc_dev dir) = Some s" and "1 \<le> sz"
  shows "ufs_getname (\<lambda>_. True) br tab root dir sz =
    Some (if int (length (path_str nms)) < sz then Inr (path_str nms) else Inl EBADARG)"
  using assms getname_loop_path [of br s "fc_index root" "fc_index dir" nms "[]" "sz - 1" 0]
  by (simp add: ufs_getname_def)

lemma ufs_mount_slice_success:
  "fst (ufs_mount_slice env major minor p slc volume st) = Inr () \<longleftrightarrow>
   (\<exists>d drv b. e_km env (m_allocs st) \<and> e_km env (Suc (m_allocs st)) \<and>
      e_xh env major minor (u32 (vp_start p + 16)) 16 = Inr d \<and> ufs_sb_ok (ufs_sb_of d) \<and>
      ufs_free_drive env st (m_next_drive st) = Some drv \<and> m_nufs st < 8 \<and> e_res_di env drv \<and>
      e_bio env (ufs_di_of env major minor p (ufs_sb_of d)) (u32 (sb_iblkno (ufs_sb_of d)))
        (sb_bsize (ufs_sb_of d)) = Some b \<and>
      smode (ufs_dinode_of (take 128 (drop 256 b))) AND UFS_IFMT = UFS_IFDIR)"
proof -
  have fd: "ufs_free_drive env (st\<lparr>m_allocs := a, m_blocks := b\<rparr>) k = ufs_free_drive env st k" for a b k
    by (simp add: ufs_free_drive_def)
  have c: "SBOFF div 512 = 16" "nat UFS_ROOTINO * 128 = 256" "UFS_MAX_DRIVES = 8"
    by (simp_all add: ufs_consts)
  show ?thesis
    unfolding ufs_mount_slice_def kmalloc_def kfree_def Let_def c
    by (cases "e_xh env major minor (u32 (vp_start p + 16)) 16";
        cases "e_km env (m_allocs st)"; cases "ufs_free_drive env st (m_next_drive st)")
      (auto simp: fd ufs_fill_def ufs_bread_def split: option.splits if_splits)
qed

lemma mounted_geom:
  assumes "mounted_ok d s"
  shows "ufs_geom s \<longleftrightarrow> 0 \<le> s_bshift s \<and> s_bsize s = 2 ^ nat (s_bshift s) \<and>
    0 \<le> s_fshift s \<and> s_fsize s = 2 ^ nat (s_fshift s)"
  using assms by (auto simp: mounted_ok_def ufs_geom_def)

lemma init_xfs_result:
  assumes "e_ndrives env \<le> 32" "0 \<le> bits" "bits < 4294967296"
    and i: "init_xfs letter env k (mst_init bits) = (ok, msg, st)"
  shows "mount_inv env bits 0 st" "ok \<longleftrightarrow> m_nufs st \<noteq> 0" "ok \<longleftrightarrow> (\<exists>ls. msg = Mounted ls)"
    "msg = Mounted ls \<Longrightarrow> length ls = m_nufs st \<and> (\<forall>l \<in> set ls. length l + 1 \<le> 16)"
proof -
  have sc: "mount_inv env bits 0 (scan_devices env (mst_init bits))"
    using scan_devices_inv [OF assms(1-3) mount_inv_start] .
  note i = i [unfolded init_xfs_def Let_def]
  show inv: "mount_inv env bits 0 st"
    using i sc mount_inv_start by (auto split: if_splits)
  show "ok \<longleftrightarrow> m_nufs st \<noteq> 0"
    using i by (auto simp: mst_init_def split: if_splits)
  show "ok \<longleftrightarrow> (\<exists>ls. msg = Mounted ls)"
    using i by (auto split: if_splits)
  assume m: "msg = Mounted ls"
  have ls: "ls = ufs_report letter env st" using i m by (auto split: if_splits)
  have len: "length (ufs_report letter env st) = card (dom (m_ufs st))"
  proof -
    have "length (concat (map (\<lambda>d. case f d of None \<Rightarrow> [] | Some s \<Rightarrow> [g s d]) xs)) =
        card (dom f \<inter> set xs)" if "distinct xs" for f :: "nat \<Rightarrow> UFS option" and g :: "UFS \<Rightarrow> nat \<Rightarrow> byte list" and xs
      using that
    proof (induction xs)
      case (Cons x xs)
      then have "dom f \<inter> set (x # xs) = (if x \<in> dom f then insert x (dom f \<inter> set xs) else dom f \<inter> set xs)"
        by auto
      with Cons show ?case by (auto split: option.splits)
    qed simp
    note this [where xs = "[0..<e_ndrives env]" and f = "m_ufs st" and g = "\<lambda>s d. mount_line letter s d"]
    moreover have "dom (m_ufs st) \<inter> {0..<e_ndrives env} = dom (m_ufs st)"
      using inv by (auto simp: mount_inv_def)
    ultimately show ?thesis by (simp add: ufs_report_def)
  qed
  have "length l + 1 \<le> 16" if "l \<in> set ls" for l
  proof -
    from that obtain d s where "m_ufs st d = Some s" "l = mount_line letter s d"
      by (auto simp: ls ufs_report_def split: option.splits dest!: sym [of "Some _"])
    moreover from this have "mounted_ok d s" using inv by (simp add: mount_inv_def)
    ultimately show ?thesis by (simp add: mounted_ok_def mount_line_def)
  qed
  then show "length ls = m_nufs st \<and> (\<forall>l \<in> set ls. length l + 1 \<le> 16)"
    using len inv by (auto simp: ls mount_inv_def)
qed

lemma ufs_readlink_long:
  assumes t: "tab (fc_dev file) = Some s" and g: "ufs_iget br s (fc_index file) = Inr ip"
    and l: "smode ip AND UFS_IFMT = UFS_IFLNK" and b: "iblocks ip \<noteq> 0" and ok: "file_ok br s ip"
    and n: "0 < isize ip" "isize ip < 1024" and target: "target = ufs_content br s ip" "0 \<notin> set target"
  shows "ufs_readlink letter root_drv br tab file len =
    Some (let r = (if target ! 0 = 47 \<and> 0 \<le> root_drv then [letter root_drv, 58] @ target else target)
          in if int (length r) < len then Inr r else Inl EBADARG)"
proof -
  have len: "int (length target) = isize ip"
    using ok by (auto simp: target file_ok_def ufs_content_def)
  have "ufs_readfile br s ip 0 (isize ip) = Some target"
    using ufs_readfile_slice [OF ok, of 0 "isize ip"] n len by (simp add: target)
  then show ?thesis
    using assms(1-7) len cstr_no_nul [OF target(2)]
    by (auto simp: ufs_readlink_def Let_def)
qed

lemma ufs_readlink_short:
  assumes t: "tab (fc_dev file) = Some s" and g: "ufs_iget br s (fc_index file) = Inr ip"
    and l: "smode ip AND UFS_IFMT = UFS_IFLNK" and b: "iblocks ip = 0"
    and ib: "length (db ip) = 12" "length (ib ip) = 3"
  shows "ufs_readlink letter root_drv br tab file len = None \<longleftrightarrow> 88 < isize ip \<and> isize ip < 1024"
proof -
  have "length (concat (map p32 xs)) = 4 * length xs" for xs
    by (induction xs) auto
  then have "length (ufs_dinode_db_bytes ip) = 88"
    using ib by (simp add: ufs_dinode_db_bytes_def)
  then show ?thesis
    using assms by (auto simp: ufs_readlink_def Let_def split: option.splits sum.splits)
qed

end
