(* ===== verification/UfsProps.thy ===== *)
theory UfsProps
  imports UfsCalls
begin

text \<open>
  The properties of the UFS driver, each with an instance on a small file system: one block
  group, a root directory with one live subdirectory, a file and a symbolic link.
\<close>

section \<open>A small file system\<close>

definition demo_inode :: "int \<Rightarrow> int \<Rightarrow> int \<Rightarrow> int \<Rightarrow> byte list" where
  "demo_inode md sz blk blks = p16 md @ replicate 6 0 @ p32 0 @ p32 sz @ replicate 24 0 @ p32 blk @
     replicate 44 0 @ replicate 12 0 @ p32 0 @ p32 blks @ replicate 20 0"

definition demo_root_dir :: "dent list" where
  "demo_root_dir = [\<lparr>e_ino = 2, e_name = [46], e_pad = [0, 0, 0]\<rparr>,
     \<lparr>e_ino = 2, e_name = [46, 46], e_pad = [0, 0]\<rparr>,
     \<lparr>e_ino = 0, e_name = [120], e_pad = [0, 0, 0]\<rparr>,
     \<lparr>e_ino = 3, e_name = [101, 116, 99], e_pad = [0]\<rparr>]"

definition demo_etc_dir :: "dent list" where
  "demo_etc_dir = [\<lparr>e_ino = 3, e_name = [46], e_pad = [0, 0, 0]\<rparr>,
     \<lparr>e_ino = 2, e_name = [46, 46], e_pad = [0, 0]\<rparr>,
     \<lparr>e_ino = 4, e_name = [109, 111, 116, 100], e_pad = [0, 0, 0, 0]\<rparr>]"

definition demo_page :: "int \<Rightarrow> byte list" where
  "demo_page frag =
    (if frag = 16 then replicate 384 0 @ demo_inode 0x4000 40 44 2 @ demo_inode 0x8000 5 48 2 @
       demo_inode 0xA000 4 52 2
     else if frag = 40 then enc_dents demo_root_dir
     else if frag = 44 then enc_dents demo_etc_dir
     else if frag = 48 then [104, 101, 108, 108, 111]
     else if frag = 52 then [47, 101, 116, 99] else [])"

definition demo_bio :: bio where
  "demo_bio di frag n = Some (take (nat n) (demo_page frag @ replicate (nat n) 0))"

definition demo_ufs :: UFS where
  "demo_ufs = \<lparr>s_drv = 21, s_major = 8, s_minor = 0, s_start = 100, s_size = 2000, s_tag = 2,
     s_slice = 0, s_di = \<lparr>di_major = 8, di_minor = 0, di_start = 100, di_size = 2000,
       di_pshift = 9, di_lshift = 1, di_wp = True\<rparr>,
     s_bsize = 4096, s_fsize = 1024, s_frag = 4, s_bshift = 12, s_fshift = 10, s_nindir = 1024,
     s_inopb = 32, s_ipg = 64, s_fpg = 1000, s_iblkno = 16, s_cgoffset = 0, s_cgmask = 0,
     s_dsize = 900, s_nbfree = 10, s_nffree = 3, s_nifree = 50, s_ncg = 1,
     s_root = ufs_dinode_of (demo_inode 0x4000 48 40 2), s_volume = [114]\<rparr>"

definition demo_tab :: utab where
  "demo_tab = (\<lambda>_. None)(21 := Some demo_ufs)"

lemma demo_inode_of:
  "smode (ufs_dinode_of (demo_inode md sz blk blks)) = u16 md"
  "isize (ufs_dinode_of (demo_inode md sz blk blks)) = s32 sz"
  "db (ufs_dinode_of (demo_inode md sz blk blks)) ! 0 = s32 blk"
  "iblocks (ufs_dinode_of (demo_inode md sz blk blks)) = s32 blks"
  by (simp_all add: ufs_dinode_of_def demo_inode_def be_simps gl32_def)

lemma length_demo_inode [simp]: "length (demo_inode md sz blk blks) = 128"
  by (simp add: demo_inode_def)

lemma demo_geom: "ufs_geom demo_ufs"
  by (simp add: ufs_geom_def demo_ufs_def)

lemma demo_bio_total: "0 \<le> n \<Longrightarrow> \<exists>d. ufs_bread demo_bio demo_ufs frag n = Some d \<and> int (length d) = n"
  by (simp add: ufs_bread_def demo_bio_def)

lemma demo_file_ok:
  "0 \<le> isize ip \<Longrightarrow> isize ip < 2147483648 \<Longrightarrow> file_ok demo_bio demo_ufs ip"
  by (rule file_ok_total [OF demo_geom _ _ demo_bio_total])

lemma demo_iget:
  "ufs_iget demo_bio demo_ufs 2 = Inr (ufs_dinode_of (demo_inode 0x4000 48 40 2))"
  "ufs_iget demo_bio demo_ufs 3 = Inr (ufs_dinode_of (demo_inode 0x4000 40 44 2))"
  "ufs_iget demo_bio demo_ufs 4 = Inr (ufs_dinode_of (demo_inode 0x8000 5 48 2))"
  "ufs_iget demo_bio demo_ufs 5 = Inr (ufs_dinode_of (demo_inode 0xA000 4 52 2))"
  by (simp_all add: ufs_iget_def ufs_consts demo_ufs_def u32_def ufs_inode_frag_def
      ufs_inode_cg_def ufs_inode_off_def ufs_bread_def demo_bio_def demo_page_def)

lemma demo_content:
  assumes "ip = ufs_dinode_of (demo_inode md sz blk blks)" "0 < blk" "blk < 1000"
    and "0 \<le> sz" "sz \<le> 4096" "sz = int (length (demo_page blk))"
  shows "ufs_content demo_bio demo_ufs ip = demo_page blk"
proof -
  have i: "isize ip = sz" "u32 (db ip ! 0) = blk" "s_bsize demo_ufs = 4096" "s_fsize demo_ufs = 1024"
    using assms by (simp_all add: demo_inode_of cint_simps demo_ufs_def)
  let ?n = "blk_bytes demo_ufs sz 0"
  have n: "sz \<le> ?n" using assms(4,5) i by (simp add: blk_bytes_def)
  have "ufs_content demo_bio demo_ufs ip =
      take (nat (isize ip)) (take (nat ?n) (demo_page blk @ replicate (nat ?n) 0))"
    using demo_geom assms i n by (intro ufs_content_direct) (auto simp: ufs_bread_def demo_bio_def)
  then show ?thesis using i n assms(6) by simp
qed


lemma demo_pages:
  "demo_page 40 = enc_dents demo_root_dir" "demo_page 44 = enc_dents demo_etc_dir"
  "demo_page 48 = [104, 101, 108, 108, 111]" "demo_page 52 = [47, 101, 116, 99]"
  by (simp_all add: demo_page_def)

lemma demo_lengths: "length (enc_dents demo_root_dir) = 48" "length (enc_dents demo_etc_dir) = 40"
  by (simp_all add: demo_root_dir_def demo_etc_dir_def dent_len_def)

lemma demo_contents:
  "ufs_content demo_bio demo_ufs (ufs_dinode_of (demo_inode 0x4000 48 40 2)) = demo_page 40"
  "ufs_content demo_bio demo_ufs (ufs_dinode_of (demo_inode 0x4000 40 44 2)) = demo_page 44"
  "ufs_content demo_bio demo_ufs (ufs_dinode_of (demo_inode 0x8000 5 48 2)) = demo_page 48"
  "ufs_content demo_bio demo_ufs (ufs_dinode_of (demo_inode 0xA000 4 52 2)) = demo_page 52"
  by (rule demo_content [OF refl]; simp add: demo_pages demo_lengths)+

lemmas demo_files = demo_contents [unfolded demo_pages]

lemma demo_is_dir:
  "is_dir demo_bio demo_ufs (ufs_dinode_of (demo_inode 0x4000 48 40 2)) demo_root_dir"
  "is_dir demo_bio demo_ufs (ufs_dinode_of (demo_inode 0x4000 40 44 2)) demo_etc_dir"
proof -
  have w: "\<forall>e \<in> set demo_root_dir. wf_dent e" "\<forall>e \<in> set demo_etc_dir. wf_dent e"
    by (simp_all add: demo_root_dir_def demo_etc_dir_def wf_dent_def dent_len_def)
  have b: "blocks_ok (s_bsize demo_ufs) [demo_root_dir]" "blocks_ok (s_bsize demo_ufs) [demo_etc_dir]"
    by (simp_all add: demo_ufs_def demo_root_dir_def demo_etc_dir_def dent_len_def)
  have f: "file_ok demo_bio demo_ufs (ufs_dinode_of (demo_inode 0x4000 48 40 2))"
    "file_ok demo_bio demo_ufs (ufs_dinode_of (demo_inode 0x4000 40 44 2))"
    by (simp_all add: demo_file_ok demo_inode_of cint_simps)
  have m: "u16 16384 AND UFS_IFMT = UFS_IFDIR" by (simp add: ufs_consts u16_def)
  show "is_dir demo_bio demo_ufs (ufs_dinode_of (demo_inode 0x4000 48 40 2)) demo_root_dir"
    unfolding is_dir_def
    by (intro conjI f(1) w(1) exI [of _ "[demo_root_dir]"] b(1)) (simp_all add: demo_inode_of m demo_files)
  show "is_dir demo_bio demo_ufs (ufs_dinode_of (demo_inode 0x4000 40 44 2)) demo_etc_dir"
    unfolding is_dir_def
    by (intro conjI f(2) w(2) exI [of _ "[demo_etc_dir]"] b(2)) (simp_all add: demo_inode_of m demo_files)
qed

lemma demo_dir_at: "dir_at demo_bio demo_ufs 2 3 [[101, 116, 99]]"
proof -
  have "dir_at demo_bio demo_ufs 2 3 ([] @ [[101, 116, 99]])"
    by (rule dir_at.below [OF at_root demo_iget(1) demo_is_dir(1) _ demo_iget(2) demo_is_dir(2)])
      (simp_all add: demo_root_dir_def demo_etc_dir_def dir_find_def dir_nameof_def)
  then show ?thesis by simp
qed

section \<open>Inodes, blocks and files\<close>

text \<open>
  Two inode numbers of a file system whose inode tables fit their cylinder groups are
  read from different places: \<open>ufs_iget\<close>'s fragment and offset determine the inode.
\<close>
theorem ufs_iget_location_injective:
  assumes "ufs_ilayout s"
    and "0 \<le> i" "i < s_ipg s * s_ncg s" "0 \<le> j" "j < s_ipg s * s_ncg s"
    and "ufs_inode_frag s i = ufs_inode_frag s j" "ufs_inode_off s i = ufs_inode_off s j"
  shows "i = j"
  using assms by (rule ufs_inode_location)

theorem ufs_iget_location_injective_witness: "(33 :: int) = 33"
proof -
  have "ufs_ilayout demo_ufs"
    using demo_geom by (simp add: ufs_ilayout_def cg_start_off_def demo_ufs_def)
  then show ?thesis
    by (rule ufs_iget_location_injective) (simp_all add: demo_ufs_def)
qed

text \<open>
  C2. For every block of a file below 2 GB, \<open>ufs_bmap\<close> finds the address the inode's pointer
  tree holds: direct, single, double or triple indirect.
\<close>
theorem ufs_bmap_is_tree_walk:
  assumes "ufs_geom s" "0 \<le> n" "n * s_bsize s < 2147483648"
  shows "ufs_bmap br s ip n = bmap_spec br s ip n"
  using assms by (rule ufs_bmap_spec_geom)

theorem ufs_bmap_is_tree_walk_witness:
  "ufs_bmap demo_bio demo_ufs (s_root demo_ufs) 2000 = bmap_spec demo_bio demo_ufs (s_root demo_ufs) 2000"
  by (rule ufs_bmap_is_tree_walk [OF demo_geom]) (simp_all add: demo_ufs_def)

text \<open>
  With 8 KB blocks the triple-indirect level is never reached: \<open>per * nindir\<close> is 2^33,
  which a 32-bit \<open>ulong\<close> holds as 0, so every block past the double-indirect range reads as
  a hole, whatever the inode's third indirect pointer is.
\<close>
theorem ufs_bmap_8k_triple_is_hole:
  assumes "s_nindir s = 2048" "12 + 2048 + 2048\<^sup>2 \<le> n" "n < 4294967296"
  shows "ufs_bmap br s ip n = 0"
  using assms by (rule ufs_bmap_triple_8k)

theorem ufs_bmap_8k_triple_is_hole_witness:
  "ufs_bmap demo_bio (demo_ufs\<lparr>s_nindir := 2048\<rparr>) (s_root demo_ufs) 5000000 = 0"
  by (rule ufs_bmap_8k_triple_is_hole) simp_all

text \<open>
  C1. \<open>ufs_readfile\<close> delivers exactly the bytes \<open>[pos, pos + len)\<close> of the file, cut at its
  end, holes read as zeros: its loop over blocks and fragments ends and never reads a unit
  past what bio delivered.
\<close>
theorem ufs_readfile_is_slice:
  assumes "file_ok br s ip" "0 \<le> pos" "0 \<le> len"
  shows "ufs_readfile br s ip pos len =
    Some (take (nat len) (drop (nat pos) (ufs_content br s ip)))"
  using assms by (rule ufs_readfile_slice)

theorem ufs_readfile_is_slice_witness:
  "ufs_readfile demo_bio demo_ufs (ufs_dinode_of (demo_inode 0x8000 5 48 2)) 1 3 = Some [101, 108, 108]"
proof -
  have "file_ok demo_bio demo_ufs (ufs_dinode_of (demo_inode 0x8000 5 48 2))"
    by (rule demo_file_ok) (simp_all add: demo_inode_of cint_simps)
  from ufs_readfile_is_slice [OF this, of 1 3] show ?thesis
    by (simp add: demo_files)
qed

text \<open>
  Reading an open file in pieces: whatever the sizes asked for, successive \<open>ufs_read\<close>
  calls from a position deliver consecutive parts that join to the file's bytes from there,
  and leave the position at their sum or the end of the file.
\<close>
theorem ufs_reads_deliver_content:
  assumes "tab (fc_dev (f_fc f)) = Some s" "ufs_iget br s (fc_index (f_fc f)) = Inr ip"
    and "file_ok br s ip" "0 \<le> f_pos f" "f_pos f \<le> isize ip" "\<forall>n \<in> set ns. 0 \<le> n"
  shows "ufs_reads br tab f ns =
    Some (take (nat (sum_list ns)) (drop (nat (f_pos f)) (ufs_content br s ip)),
          f\<lparr>f_pos := min (f_pos f + sum_list ns) (isize ip)\<rparr>)"
  using assms by (rule ufs_reads_content)

theorem ufs_reads_deliver_content_witness:
  "\<exists>g. ufs_reads demo_bio demo_tab
     \<lparr>f_fc = \<lparr>fc_fs = Ftab, fc_dev = 21, fc_aux = 0, fc_index = 4\<rparr>, f_rdonly = True, f_pos = 0,
      f_devinfo = 5\<rparr> [2, 0, 2, 9] = Some ([104, 101, 108, 108, 111], g) \<and> f_pos g = 5"
proof -
  let ?ip = "ufs_dinode_of (demo_inode 0x8000 5 48 2)"
  have c: "ufs_content demo_bio demo_ufs ?ip = [104, 101, 108, 108, 111]" "isize ?ip = 5"
    by (rule demo_files) (simp add: demo_inode_of s32_def)
  have "file_ok demo_bio demo_ufs ?ip" by (rule demo_file_ok) (simp_all add: c)
  note ufs_reads_deliver_content [OF _ _ this, where tab = demo_tab and ns = "[2, 0, 2, 9]"
      and f = "\<lparr>f_fc = \<lparr>fc_fs = Ftab, fc_dev = 21, fc_aux = 0, fc_index = 4\<rparr>, f_rdonly = True,
        f_pos = 0, f_devinfo = 5\<rparr>"]
  then show ?thesis by (simp add: demo_tab_def demo_iget c)
qed

section \<open>Directories and names\<close>

text \<open>
  C6. \<open>ufs_lookup\<close> in a well-formed directory finds the inode of the first live entry with
  the name, over all blocks, or answers \<open>ENOENT\<close>; deleted entries (inode 0) never match.
\<close>
theorem ufs_lookup_finds_entry:
  assumes "tab (fc_dev dir) = Some s" "ufs_iget br s (fc_index dir) = Inr ip"
    and "is_dir br s ip es"
    and "name \<noteq> []" "name \<noteq> [46]" "name = [46, 46] \<Longrightarrow> fc_index dir \<noteq> UFS_ROOTINO"
    "length name \<le> 255"
  shows "ufs_lookup True br tab dir name =
    Some (if dir_find es name = 0 then (Some ENOENT, None)
          else (None, Some \<lparr>fc_fs = Ftab, fc_dev = fc_dev dir, fc_aux = 0,
                            fc_index = dir_find es name\<rparr>))"
  using assms by (rule ufs_lookup_dir)

theorem ufs_lookup_finds_entry_witness:
  "ufs_lookup True demo_bio demo_tab \<lparr>fc_fs = Ftab, fc_dev = 21, fc_aux = 0, fc_index = 2\<rparr> [101, 116, 99] =
     Some (None, Some \<lparr>fc_fs = Ftab, fc_dev = 21, fc_aux = 0, fc_index = 3\<rparr>)"
proof -
  have "dir_find demo_root_dir [101, 116, 99] = 3"
    by (simp add: demo_root_dir_def dir_find_def)
  then show ?thesis
    using ufs_lookup_finds_entry [OF _ _ demo_is_dir(1), of demo_tab
        "\<lparr>fc_fs = Ftab, fc_dev = 21, fc_aux = 0, fc_index = 2\<rparr>" "[101, 116, 99]"]
    by (simp add: demo_tab_def demo_iget)
qed

text \<open>
  C5. From an opened or rewound directory, successive \<open>ufs_readdir\<close> calls answer every live
  entry once, in order, each with its name and cookie, and then \<open>ENMFILES\<close>.
\<close>
theorem ufs_readdir_enumerates:
  assumes "tab (fc_dev (dh_fc dh)) = Some s" "ufs_iget br s (fc_index (dh_fc dh)) = Inr ip"
    and "is_dir br s ip es" "260 \<le> nmlen" "ufs_opendir br tab dh0 = Inr dh"
    and "dh_fc dh = dh_fc dh0"
  shows "readdir_n br tab dh nmlen (Suc (length (filter (\<lambda>e. e_ino e \<noteq> 0) es))) =
    Some (map (readdir_answer dh) (filter (\<lambda>e. e_ino e \<noteq> 0) es) @ [Inl ENMFILES])"
proof -
  have "dh_info dh = \<lparr>di_pos = int (length (enc_dents [])), di_size = isize ip\<rparr>"
    using assms(1,2,5,6) by (auto simp: ufs_opendir_def split: option.splits sum.splits if_splits)
  then show ?thesis
    using assms(1-4) readdir_n_dir [of tab dh s br ip "[]" es nmlen] by simp
qed

theorem ufs_readdir_enumerates_witness:
  "map_option length (readdir_n demo_bio demo_tab
     \<lparr>dh_fc = \<lparr>fc_fs = Ftab, fc_dev = 21, fc_aux = 0, fc_index = 2\<rparr>, dh_tos = True,
      dh_info = \<lparr>di_pos = 0, di_size = 48\<rparr>\<rparr> 300 4) = Some 4"
proof -
  let ?dh = "\<lparr>dh_fc = \<lparr>fc_fs = Ftab, fc_dev = 21, fc_aux = 0, fc_index = 2\<rparr>, dh_tos = True,
      dh_info = \<lparr>di_pos = 0, di_size = 48\<rparr>\<rparr>"
  have "filter (\<lambda>e. e_ino e \<noteq> 0) demo_root_dir =
      [demo_root_dir ! 0, demo_root_dir ! 1, demo_root_dir ! 3]"
    by (simp add: demo_root_dir_def)
  moreover have "ufs_opendir demo_bio demo_tab ?dh = Inr ?dh"
    using demo_is_dir(1) by (simp add: ufs_opendir_def demo_tab_def demo_iget is_dir_def demo_inode_of s32_def)
  ultimately show ?thesis
    using ufs_readdir_enumerates [OF _ _ demo_is_dir(1), of demo_tab ?dh 300 ?dh]
    by (simp add: demo_tab_def demo_iget numeral_eq_Suc del: readdir_n.simps)
qed

text \<open>
  C4. \<open>ufs_getname\<close> and \<open>ufs_lookup\<close> are inverse: the path \<open>ufs_getname\<close> builds by walking up
  through \<open>..\<close> is the one whose names, looked up from the root, lead back to the directory;
  where the path does not fit the buffer the answer is \<open>EBADARG\<close>.
\<close>
theorem ufs_getname_lookup_roundtrip:
  assumes "dir_at br s (fc_index root) (fc_index dir) nms" "tab (fc_dev dir) = Some s" "1 \<le> sz"
    and "root = \<lparr>fc_fs = Ftab, fc_dev = fc_dev dir, fc_aux = 0, fc_index = fc_index root\<rparr>"
    and "dir = \<lparr>fc_fs = Ftab, fc_dev = fc_dev dir, fc_aux = 0, fc_index = fc_index dir\<rparr>"
  shows "ufs_getname (\<lambda>_. True) br tab root dir sz =
      Some (if int (length (path_str nms)) < sz then Inr (path_str nms) else Inl EBADARG) \<and>
    ufs_walk br tab root nms = Some dir"
  using ufs_getname_path [of br s root dir nms tab sz] assms(1-3)
    ufs_walk_dir_at [of br s "fc_index root" "fc_index dir" nms tab "fc_dev dir"]
  by (simp flip: assms(4,5))

theorem ufs_getname_lookup_roundtrip_witness:
  "ufs_getname (\<lambda>_. True) demo_bio demo_tab \<lparr>fc_fs = Ftab, fc_dev = 21, fc_aux = 0, fc_index = 2\<rparr>
     \<lparr>fc_fs = Ftab, fc_dev = 21, fc_aux = 0, fc_index = 3\<rparr> 5 = Some (Inr [47, 101, 116, 99])"
  using ufs_getname_lookup_roundtrip [of demo_bio demo_ufs
      "\<lparr>fc_fs = Ftab, fc_dev = 21, fc_aux = 0, fc_index = 2\<rparr>"
      "\<lparr>fc_fs = Ftab, fc_dev = 21, fc_aux = 0, fc_index = 3\<rparr>" "[[101, 116, 99]]" demo_tab 5]
    demo_dir_at
  by (simp add: demo_tab_def path_str_def)

text \<open>
  \<open>ufs_readlink\<close> of a link kept in a block: the target, an absolute one with the root
  slice's drive put in front, exactly when the result with its NUL fits the buffer.
\<close>
theorem ufs_readlink_target:
  assumes "tab (fc_dev file) = Some s" "ufs_iget br s (fc_index file) = Inr ip"
    and "smode ip AND UFS_IFMT = UFS_IFLNK" "iblocks ip \<noteq> 0" "file_ok br s ip"
    and "0 < isize ip" "isize ip < 1024" "target = ufs_content br s ip" "0 \<notin> set target"
  shows "ufs_readlink letter root_drv br tab file len =
    Some (let r = (if target ! 0 = 47 \<and> 0 \<le> root_drv then [letter root_drv, 58] @ target else target)
          in if int (length r) < len then Inr r else Inl EBADARG)"
  using assms by (rule ufs_readlink_long)

theorem ufs_readlink_target_witness:
  "ufs_readlink (\<lambda>d. 86) 21 demo_bio demo_tab
     \<lparr>fc_fs = Ftab, fc_dev = 21, fc_aux = 0, fc_index = 5\<rparr> 7 = Some (Inr [86, 58, 47, 101, 116, 99])"
proof -
  let ?ip = "ufs_dinode_of (demo_inode 0xA000 4 52 2)"
  have c: "ufs_content demo_bio demo_ufs ?ip = [47, 101, 116, 99]" "isize ?ip = 4"
    "iblocks ?ip = 2" "smode ?ip AND UFS_IFMT = UFS_IFLNK"
    by (rule demo_files) (simp_all add: demo_inode_of s32_def u16_def ufs_consts)
  have "file_ok demo_bio demo_ufs ?ip" by (rule demo_file_ok) (simp_all add: c)
  from ufs_readlink_target [OF _ _ c(4) _ this, of demo_tab
      "\<lparr>fc_fs = Ftab, fc_dev = 21, fc_aux = 0, fc_index = 5\<rparr>" "[47, 101, 116, 99]"]
  show ?thesis by (simp add: demo_tab_def demo_iget c)
qed

text \<open>
  A link kept in the inode is read past the inode's end exactly when its size is over
  the 88 bytes that follow the first pointer: nothing checks the size against them.
\<close>
theorem ufs_readlink_short_overread:
  assumes "tab (fc_dev file) = Some s" "ufs_iget br s (fc_index file) = Inr ip"
    and "smode ip AND UFS_IFMT = UFS_IFLNK" "iblocks ip = 0"
    and "length (db ip) = 12" "length (ib ip) = 3"
  shows "ufs_readlink letter root_drv br tab file len = None \<longleftrightarrow> 88 < isize ip \<and> isize ip < 1024"
  using assms by (rule ufs_readlink_short)

theorem ufs_readlink_short_overread_witness:
  "ufs_readlink (\<lambda>d. 86) 21 demo_bio
     ((\<lambda>_. None)(21 := Some (demo_ufs\<lparr>s_root := ufs_dinode_of (demo_inode 0xA000 100 52 0)\<rparr>)))
     \<lparr>fc_fs = Ftab, fc_dev = 21, fc_aux = 0, fc_index = 2\<rparr> 200 = None"
proof -
  let ?ip = "ufs_dinode_of (demo_inode 0xA000 100 52 0)"
  have i: "isize ?ip = 100" "iblocks ?ip = 0" "smode ?ip AND UFS_IFMT = UFS_IFLNK"
    "length (db ?ip) = 12" "length (ib ?ip) = 3"
    by (simp_all add: demo_inode_of s32_def u16_def ufs_consts) (simp_all add: ufs_dinode_of_def)
  show ?thesis
    by (subst ufs_readlink_short_overread [OF _ _ i(3,2,4,5), where s = "demo_ufs\<lparr>s_root := ?ip\<rparr>"])
      (simp_all add: ufs_iget_def ufs_consts i)
qed

section \<open>Mounting\<close>

text \<open>
  C3. The driver's start on any machine: after \<open>init_xfs\<close> at most eight slices are mounted,
  on drives from V: up that were free, none of them swap, backup or empty, each with the
  checked superblock and a root directory; the count, the drive bits, bio's descriptors and
  the memory held agree with the table; the driver stays resident exactly when it mounted
  something, and each line it reports fits its 16-byte buffer.
\<close>
theorem init_xfs_mounts:
  assumes "e_ndrives env \<le> 32" "0 \<le> bits" "bits < 4294967296"
    and "init_xfs letter env k (mst_init bits) = (ok, msg, st)"
  shows "mount_inv env bits 0 st \<and> (ok \<longleftrightarrow> m_nufs st \<noteq> 0) \<and>
    (if ok then \<exists>ls. msg = Mounted ls \<and> length ls = m_nufs st \<and> (\<forall>l \<in> set ls. length l + 1 \<le> 16)
     else \<forall>ls. msg \<noteq> Mounted ls)"
proof (cases ok)
  case True
  then obtain ls where "msg = Mounted ls" using init_xfs_result(3) [OF assms] by blast
  then show ?thesis using True init_xfs_result [OF assms] by simp
next
  case False
  then show ?thesis using init_xfs_result(1-3) [OF assms] by simp
qed

theorem init_xfs_mounts_witness:
  "mount_inv \<lparr>e_ndrives = 32, e_km = (\<lambda>_. True), e_res_di = (\<lambda>_. True), e_inq = (\<lambda>_ _. Inr 512),
      e_xh = (\<lambda>_ _ _ _. Inl 1), e_bio = demo_bio, e_pshift = (\<lambda>_. 9), e_lshift = (\<lambda>_. 1)\<rparr> 7 0
    (snd (snd (init_xfs (\<lambda>d. 86) \<lparr>e_ndrives = 32, e_km = (\<lambda>_. True), e_res_di = (\<lambda>_. True),
      e_inq = (\<lambda>_ _. Inr 512), e_xh = (\<lambda>_ _ _ _. Inl 1), e_bio = demo_bio, e_pshift = (\<lambda>_. 9),
      e_lshift = (\<lambda>_. 1)\<rparr>
      \<lparr>k_major = 1, k_minor = 18, k_kversion = 2, k_xtime = True, k_bio_version = 3,
       k_xhdi_cookie = Some 4096, k_xhdi_magic = 0x27011992, k_xhdi_version = 0x130\<rparr> (mst_init 7))))"
  by (rule conjunct1 [OF init_xfs_mounts]) (auto simp: prod_eq_iff)


text \<open>
  The geometry the file operations rely on is what mounting checks, but for the two
  shift counts: they are taken from the superblock as they stand.
\<close>
theorem mounted_geometry:
  assumes "mount_inv env bits0 h st" "m_ufs st d = Some s"
  shows "ufs_geom s \<longleftrightarrow> 0 \<le> s_bshift s \<and> s_bsize s = 2 ^ nat (s_bshift s) \<and>
    0 \<le> s_fshift s \<and> s_fsize s = 2 ^ nat (s_fshift s)"
  using assms by (intro mounted_geom [of d]) (simp add: mount_inv_def)

theorem mounted_geometry_witness:
  "ufs_geom (demo_ufs\<lparr>s_bshift := 13\<rparr>) \<longleftrightarrow> False"
proof -
  let ?s = "demo_ufs\<lparr>s_bshift := 13\<rparr>"
  let ?env = "\<lparr>e_ndrives = 32, e_km = (\<lambda>_. True), e_res_di = (\<lambda>_. True), e_inq = (\<lambda>_ _. Inr 512),
      e_xh = (\<lambda>_ _ _ _. Inl 1), e_bio = demo_bio, e_pshift = (\<lambda>_. 9), e_lshift = (\<lambda>_. 1)\<rparr>"
  let ?st = "\<lparr>m_ufs = (\<lambda>_. None)(21 := Some ?s), m_nufs = 1, m_root_drv = 21, m_next_drive = 22,
     m_bits = push_bit 21 1, m_allocs = 2, m_blocks = 1, m_dis = {21}\<rparr>"
  have "mounted_ok 21 ?s"
    by (simp add: mounted_ok_def demo_ufs_def ufs_consts demo_inode_of u16_def)
  moreover have "bit (push_bit 21 1 :: int) d \<longleftrightarrow> d = 21" for d
    unfolding bit_push_bit_iff bit_1_iff by auto
  ultimately have "mount_inv ?env 0 0 ?st"
    by (simp add: mount_inv_def ufs_consts demo_ufs_def del: push_bit_of_1)
  moreover have "m_ufs ?st 21 = Some ?s" by simp
  ultimately have "ufs_geom ?s \<longleftrightarrow> 0 \<le> s_bshift ?s \<and> s_bsize ?s = 2 ^ nat (s_bshift ?s) \<and>
      0 \<le> s_fshift ?s \<and> s_fsize ?s = 2 ^ nat (s_fshift ?s)"
    by (rule mounted_geometry)
  then show ?thesis by (simp add: demo_ufs_def)
qed

end
