(* ===== verification/Streams.thy ===== *)
theory Streams
  imports Prelude
begin

text \<open>
  What the two DLPI drivers (\<open>driver-dp/dp.c\<close>, \<open>driver-nu/nu.c\<close>) exchange with STREAMS: messages,
  the state of a minor and the errors of an open.
\<close>

section \<open>Messages\<close>

datatype mtype = M_DATA | M_PROTO | M_PCPROTO | M_IOCTL | M_IOCACK | M_IOCNAK | M_FLUSH | M_OTHER

datatype dlstate = DL_UNBOUND | DL_IDLE
datatype dlerr = DL_NOERR | DL_NOTINIT | DL_OUTSTATE | DL_SYSERR | DL_UNDELIVERABLE
datatype dlprim = P_BIND | P_UNBIND | P_INFO | P_UNITDATA | P_OTHER int

record iocblk =
  ioc_whole :: bool
  ioc_transparent :: bool
  ioc_cmd :: int
  ioc_count :: int
  ioc_error :: int

text \<open>
  What the first block of a message says: the DLPI primitive with the fields the driver reads
  or sets, an ioctl block, or the flush bits. \<open>DL_UNITDATA_REQ off\<close>: the destination is at
  offset \<open>off\<close> of the block's bytes.
\<close>

datatype dlmsg =
    DL_BIND_REQ int | DL_UNBIND_REQ | DL_INFO_REQ | DL_UNITDATA_REQ nat | DL_OTHER_REQ int
  | DL_BIND_ACK int "byte list" | DL_OK_ACK dlprim | DL_INFO_ACK int int dlstate "byte list"
  | DL_ERROR_ACK dlprim dlerr bool | DL_UNITDATA_IND "byte list" "byte list"
  | DL_UDERROR_IND dlerr | IOCBLK iocblk | FLUSH bool bool | NoPrim

text \<open>\<open>mb_bufsz\<close>: \<open>db_lim - db_base\<close>; \<open>mb_own\<close>: \<open>db_ref == 1\<close>.\<close>

record mblk =
  mb_type :: mtype
  mb_prim :: dlmsg
  mb_bufsz :: nat
  mb_own :: bool
  mb_data :: "byte list"
  mb_cont :: "byte list list"

definition data_mblk :: "byte list \<Rightarrow> byte list list \<Rightarrow> mblk" where
  "data_mblk b bs = \<lparr>mb_type = M_DATA, mb_prim = NoPrim, mb_bufsz = length b, mb_own = True,
     mb_data = b, mb_cont = bs\<rparr>"

text \<open>\<open>enminor_t\<close>: a queue is the number of its stream.\<close>

record enminor =
  min_rdq :: "nat option"
  min_state :: dlstate
  min_sap :: int

datatype enerr = EN_EINVAL | EN_ENOSPC | EN_EBUSY | EN_EFAULT
datatype sflag = MODOPEN | CLONEOPEN | DEVOPEN

definition K_EINVAL :: int where "K_EINVAL = 22"
definition K_ENOMEM :: int where "K_ENOMEM = 12"

text \<open>Storing \<open>b\<close> at offset \<open>i\<close> of a buffer.\<close>

definition put_at :: "byte list \<Rightarrow> nat \<Rightarrow> byte list \<Rightarrow> byte list" where
  "put_at buf i b = take i buf @ b @ drop (i + length b) buf"

end
