(* ===== verification/DpScsi.thy ===== *)
theory DpScsi
  imports Streams
begin

text \<open>
  The DaynaPORT driver \<open>driver-dp/dp.c\<close>: its state and its SCSI half (\<open>dpSTART\<close>,
  \<open>dpstrategy\<close>, \<open>dp_kick\<close>, \<open>dp_xmit\<close>, \<open>dp_async_done\<close>, \<open>dp_poll\<close>, \<open>dpfind\<close>,
  \<open>dp_linit\<close>) with the three routines of the DLPI half that completion runs
  (\<open>en_mkind\<close>/\<open>en_send_up\<close>, \<open>en_rproc\<close>, \<open>en_wproc\<close>). The SCSI core's queue is a list of the two
  buffers the driver can put on it; what the driver hands to the core and sends up a stream
  is appended to a log. STREAMS' allocator, \<open>canput\<close> and the outcome of a synchronous
  command are the environment \<open>denv\<close>. \<open>None\<close>: the code reads outside a buffer.
\<close>

section \<open>The driver's state\<close>

datatype startf = Sj_badstart | DpSTART | Start_other
datatype dpmem = DpData | DpTx | DpRx
datatype jbp = ABUF | SBUF

record scsijob =
  sj_dtype :: int
  sj_target :: int
  sj_lun :: int
  sj_inqdata :: "int list"
  sj_startf :: startf

record jbuf =
  jb_done :: bool
  jb_error :: bool
  jb_read :: bool
  jb_blkno :: int
  jb_addr :: dpmem
  jb_bcount :: int
  jb_resid :: int

text \<open>A command given to the core: what \<open>dpSTART\<close> puts into the job before \<open>sj_jobentry\<close>.\<close>

record scmd =
  c_cb :: "int list"
  c_count :: int
  c_mem :: dpmem
  c_buf :: jbp

record dpst =
  d_jobs :: "nat \<Rightarrow> scsijob option"
  d_job :: "nat option"
  d_jq :: "jbp list"
  d_active :: bool
  d_errcnt :: int
  d_cmds :: "scmd list"
  d_abuf :: jbuf
  d_sbuf :: jbuf
  d_data :: "byte list"
  d_tx :: "byte list"
  d_rx :: "byte list"
  d_busy :: bool
  d_up :: bool
  d_txlen :: int
  d_rxwant :: bool
  d_idle :: int
  d_reinit :: int
  d_errs :: int
  d_settle :: int
  d_lbolt :: int
  d_min :: "enminor list"
  d_running :: bool
  d_enaddr :: "byte list"
  d_ierrors :: int
  d_oerrors :: int
  d_ipackets :: int
  d_opackets :: int
  d_wqcnt :: nat
  d_nextmin :: nat
  d_pollq :: "nat option"
  d_qptr :: "nat \<Rightarrow> nat option"
  d_wq :: "nat \<Rightarrow> mblk list"
  d_sent :: "(nat \<times> mblk) list"
  d_allocs :: nat
  d_scmds :: nat
  d_timer :: "int option"
  d_enabled :: "nat list"
  d_ifstats :: "nat list"

text \<open>
  \<open>n_alloc k\<close>: the \<open>k\<close>-th \<open>allocb\<close> or \<open>copymsg\<close> succeeds. \<open>n_canput q k\<close>: stream \<open>q\<close> takes
  the \<open>k\<close>-th message. \<open>n_scmd k op ctl count\<close>: the \<open>k\<close>-th synchronous command's error
  and the bytes it read. \<open>n_errack\<close>: the size of \<open>dl_error_ack_t\<close>.
\<close>

record denv =
  n_alloc :: "nat \<Rightarrow> bool"
  n_canput :: "nat \<Rightarrow> nat \<Rightarrow> bool"
  n_scmd :: "nat \<Rightarrow> int \<Rightarrow> int \<Rightarrow> int \<Rightarrow> bool \<times> byte list"
  n_hz :: int
  n_errack :: nat

definition DP_MAXERRS :: int where "DP_MAXERRS = 3"
definition DP_RXASK :: nat where "DP_RXASK = 3072"
definition DP_RXMODE :: int where "DP_RXMODE = 0xC0"
definition DP_NMINOR :: nat where "DP_NMINOR = 8"
definition PROC :: int where "PROC = 3"

definition DPCMD :: "int \<Rightarrow> int \<Rightarrow> int" where
  "DPCMD opc ctl = push_bit 8 opc OR ctl"

definition DP_SETTLE :: "denv \<Rightarrow> int" where
  "DP_SETTLE env = cdiv (n_hz env) 2"

definition allocb :: "denv \<Rightarrow> dpst \<Rightarrow> bool \<times> dpst" where
  "allocb env st = (n_alloc env (d_allocs st), st\<lparr>d_allocs := Suc (d_allocs st)\<rparr>)"

definition putnext :: "nat \<Rightarrow> mblk \<Rightarrow> dpst \<Rightarrow> dpst" where
  "putnext q mp st = st\<lparr>d_sent := d_sent st @ [(q, mp)]\<rparr>"

section \<open>Starting commands\<close>

definition jbuf_of :: "dpst \<Rightarrow> jbp \<Rightarrow> jbuf" where
  "jbuf_of st bp = (case bp of ABUF \<Rightarrow> d_abuf st | SBUF \<Rightarrow> d_sbuf st)"

definition dp_cdb :: "dpst \<Rightarrow> jbp \<Rightarrow> scmd" where
  "dp_cdb st bp =
    (let b = jbuf_of st bp;
         lun = (case d_job st of None \<Rightarrow> 0 | Some j \<Rightarrow>
                  (case d_jobs st j of None \<Rightarrow> 0 | Some job \<Rightarrow> sj_lun job))
     in \<lparr>c_cb = [drop_bit 8 (jb_blkno b) mod 256, push_bit 5 (lun AND 7), 0,
                drop_bit 8 (jb_bcount b) mod 256, jb_bcount b mod 256, jb_blkno b mod 256],
         c_count = jb_bcount b, c_mem = jb_addr b, c_buf = bp\<rparr>)"

text \<open>\<open>dpSTART\<close> after its test for a finished asynchronous command.\<close>

definition dp_start_head :: "bool \<Rightarrow> dpst \<Rightarrow> dpst" where
  "dp_start_head flag st =
    (case d_jq st of
       [] \<Rightarrow> st\<lparr>d_active := False\<rparr>
     | bp # _ \<Rightarrow> st\<lparr>d_active := True, d_errcnt := (if flag then 0 else d_errcnt st),
                     d_cmds := d_cmds st @ [dp_cdb st bp]\<rparr>)"

text \<open>
  \<open>dp_kick\<close>. Where it starts the queue the code calls \<open>dpSTART\<close>, whose test for a finished
  command is false then: \<open>b_flags\<close> has just been set.
\<close>

definition dp_next :: "dpst \<Rightarrow> jbuf option" where
  "dp_next st =
    (if d_reinit st \<noteq> 0 then
       Some \<lparr>jb_done = False, jb_error = False, jb_read = True,
         jb_blkno = DPCMD 0x0E (if d_reinit st = 1 then 0x80 else 0), jb_addr = DpData,
         jb_bcount = 0, jb_resid = 0\<rparr>
     else if d_txlen st \<noteq> 0 then
       Some \<lparr>jb_done = False, jb_error = False, jb_read = False, jb_blkno = DPCMD 0x0A 0,
         jb_addr = DpTx, jb_bcount = d_txlen st, jb_resid = d_txlen st\<rparr>
     else if d_rxwant st then
       Some \<lparr>jb_done = False, jb_error = False, jb_read = True, jb_blkno = DPCMD 0x08 DP_RXMODE,
         jb_addr = DpRx, jb_bcount = int DP_RXASK, jb_resid = int DP_RXASK\<rparr>
     else None)"

definition dp_kick :: "bool \<Rightarrow> dpst \<Rightarrow> dpst" where
  "dp_kick start st =
    (if d_busy st \<or> \<not> d_up st then st
     else (case dp_next st of
             None \<Rightarrow> st
           | Some b \<Rightarrow>
             let st1 = st\<lparr>d_abuf := b, d_busy := True, d_jq := d_jq st @ [ABUF],
                   d_rx := (if jb_addr b = DpRx then (d_rx st)[0 := 0, 1 := 0] else d_rx st)\<rparr>
             in if start \<and> \<not> d_active st1 then dp_start_head True st1 else st1))"

section \<open>Transmitting\<close>

text \<open>The copy of a message's blocks into \<open>dptx\<close>: the length so far, or -1, and the buffer.\<close>

fun xmit_copy :: "byte list list \<Rightarrow> nat \<Rightarrow> byte list \<Rightarrow> int \<times> byte list" where
  "xmit_copy [] len tx = (int len, tx)"
| "xmit_copy (b # bs) len tx =
    (if b = [] then xmit_copy bs len tx
     else if len + length b > 1514 then (-1, tx)
     else xmit_copy bs (len + length b) (put_at tx len b))"

definition dp_xmit :: "mblk \<Rightarrow> dpst \<Rightarrow> bool \<times> dpst" where
  "dp_xmit mp st =
    (if d_txlen st \<noteq> 0 \<or> \<not> d_up st then (False, st)
     else (case xmit_copy (mb_data mp # mb_cont mp) 0 (d_tx st) of
       (len, tx) \<Rightarrow>
         if len < 14 then (True, st\<lparr>d_tx := tx, d_oerrors := d_oerrors st + 1\<rparr>)
         else if len < 60 then
           (True, dp_kick True (st\<lparr>d_tx := put_at tx (nat len) (replicate (nat (60 - len)) 0),
                                   d_txlen := 60\<rparr>))
         else (True, dp_kick True (st\<lparr>d_tx := tx, d_txlen := len\<rparr>))))"

section \<open>Sending up\<close>

definition en_send_up :: "denv \<Rightarrow> nat \<Rightarrow> mblk \<Rightarrow> dpst \<Rightarrow> dpst" where
  "en_send_up env q mp st =
    (if n_canput env q (length (d_sent st)) then putnext q mp st else st)"

definition en_mkind :: "denv \<Rightarrow> byte list list \<Rightarrow> byte list \<Rightarrow> byte list \<Rightarrow> dpst \<Rightarrow> mblk option \<times> dpst" where
  "en_mkind env cont dst src st =
    (case allocb env st of
       (False, st) \<Rightarrow> (None, st)
     | (True, st) \<Rightarrow>
       (Some \<lparr>mb_type = M_PROTO, mb_prim = DL_UNITDATA_IND dst src, mb_bufsz = 36, mb_own = True,
              mb_data = dst @ src, mb_cont = cont\<rparr>, st))"

definition find_minor :: "(enminor \<Rightarrow> bool) \<Rightarrow> enminor list \<Rightarrow> nat option" where
  "find_minor P ms = List.find (\<lambda>i. P (ms ! i)) [0..<DP_NMINOR]"

text \<open>A received frame of at least 14 bytes.\<close>

definition en_rproc :: "denv \<Rightarrow> byte list \<Rightarrow> dpst \<Rightarrow> dpst" where
  "en_rproc env f st =
    (let type = g16 f 12
     in (case find_minor (\<lambda>m. min_sap m = type \<and> min_state m = DL_IDLE) (d_min st) of
           None \<Rightarrow> st\<lparr>d_ierrors := d_ierrors st + 1\<rparr>
         | Some i \<Rightarrow>
           (case min_rdq (d_min st ! i) of
              None \<Rightarrow> st\<lparr>d_ierrors := d_ierrors st + 1\<rparr>
            | Some q \<Rightarrow>
              (case en_mkind env [drop 14 f] (take 6 f) (take 6 (drop 6 f)) st of
                 (None, st) \<Rightarrow> st
               | (Some ip, st) \<Rightarrow> en_send_up env q ip st))))"

text \<open>The round robin over the minors; the first argument counts the tries left.\<close>

fun en_wloop :: "nat \<Rightarrow> dpst \<Rightarrow> dpst" where
  "en_wloop 0 st = st"
| "en_wloop (Suc t) st =
    (if d_wqcnt st = 0 then st
     else
       let m = (if Suc (d_nextmin st) \<ge> DP_NMINOR then 0 else Suc (d_nextmin st));
           st1 = st\<lparr>d_nextmin := m\<rparr>
       in (case min_rdq (d_min st1 ! m) of
             None \<Rightarrow> en_wloop t st1
           | Some q \<Rightarrow>
             (case d_wq st1 q of
                [] \<Rightarrow> en_wloop t st1
              | mp # rest \<Rightarrow>
                (case dp_xmit mp (st1\<lparr>d_wq := (d_wq st1)(q := rest)\<rparr>) of
                   (True, st2) \<Rightarrow> en_wloop t (st2\<lparr>d_wqcnt := d_wqcnt st2 - 1\<rparr>)
                 | (False, st2) \<Rightarrow> st2\<lparr>d_wq := (d_wq st2)(q := mp # d_wq st2 q)\<rparr>))))"

definition en_wproc :: "dpst \<Rightarrow> dpst" where
  "en_wproc st = en_wloop (2 * DP_NMINOR) st"

section \<open>Completion\<close>

text \<open>
  The loop over the frames in \<open>dprx\<close>: the offset of the next header and how many frames were
  found. A frame that does not lie in \<open>dprx\<close> is a read past the buffer.
\<close>

function dp_rxloop :: "denv \<Rightarrow> nat \<Rightarrow> nat \<Rightarrow> dpst \<Rightarrow> (nat \<times> dpst) option" where
  "dp_rxloop env h got st =
    (let rx = d_rx st; n = g16 rx h
     in if h + 6 > length rx then None
        else if rx ! (h + 2) = 0xff \<and> rx ! (h + 3) = 0xff \<and> rx ! (h + 4) = 0xff \<and> rx ! (h + 5) = 0xff
        then Some (got, st\<lparr>d_rxwant := False, d_reinit := 2, d_ierrors := d_ierrors st + 1\<rparr>)
        else if n = 0 \<or> n > 1524 then Some (got, st)
        else
          let more = rx ! (h + 5) AND 0x10 \<noteq> 0; len = nat (n - 4); h' = h + 6 + nat n
          in (case (if n - 4 \<ge> 14 then allocb env st else (False, st)) of
                (True, st1) \<Rightarrow>
                  if h + 6 + len > length rx then None
                  else
                    let st2 = en_rproc env (take len (drop (h + 6) rx))
                                (st1\<lparr>d_ipackets := d_ipackets st1 + 1\<rparr>)
                    in if more \<and> h' + 6 \<le> DP_RXASK then dp_rxloop env h' (Suc got) st2
                       else Some (Suc got, st2)
              | (False, st1) \<Rightarrow>
                  let st2 = st1\<lparr>d_ierrors := d_ierrors st1 + 1\<rparr>
                  in if more \<and> h' + 6 \<le> DP_RXASK then dp_rxloop env h' (Suc got) st2
                     else Some (Suc got, st2)))"
  by pat_completeness auto
termination
  by (relation "measure (\<lambda>(env, h, got, st). DP_RXASK - h)") auto

declare dp_rxloop.simps [simp del]

text \<open>A step of the re-bring-up is done.\<close>

definition dp_reset_step :: "denv \<Rightarrow> dpst \<Rightarrow> dpst" where
  "dp_reset_step env st =
    (let st1 = st\<lparr>d_reinit := (if d_reinit st \<noteq> 0 then d_reinit st - 1 else 0)\<rparr>
     in if d_reinit st1 = 0
        then st1\<lparr>d_settle := s32 (d_lbolt st1 + DP_SETTLE env), d_errs := 0\<rparr> else st1)"

text \<open>Counting consecutive errors outside the settle window.\<close>

definition dp_count_err :: "bool \<Rightarrow> dpst \<Rightarrow> dpst" where
  "dp_count_err err st =
    (if err \<and> s32 (d_lbolt st - d_settle st) \<ge> 0 then
       (if d_errs st + 1 \<ge> DP_MAXERRS then st\<lparr>d_errs := d_errs st + 1, d_reinit := 2\<rparr>
        else st\<lparr>d_errs := d_errs st + 1\<rparr>)
     else if \<not> err then st\<lparr>d_errs := 0\<rparr> else st)"

definition dp_tx_done :: "bool \<Rightarrow> dpst \<Rightarrow> dpst" where
  "dp_tx_done err st =
    (let st1 = st\<lparr>d_txlen := 0\<rparr>;
         st2 = (if err then st1\<lparr>d_oerrors := d_oerrors st1 + 1\<rparr>
                else st1\<lparr>d_opackets := d_opackets st1 + 1\<rparr>);
         st3 = (if d_wqcnt st2 \<noteq> 0 then en_wproc st2 else st2)
     in st3\<lparr>d_rxwant := True\<rparr>)"

definition dp_rx_done :: "denv \<Rightarrow> dpst \<Rightarrow> dpst option" where
  "dp_rx_done env st =
    (case dp_rxloop env 0 0 st of
       None \<Rightarrow> None
     | Some (got, st1) \<Rightarrow>
         Some (if got \<noteq> 0 then st1\<lparr>d_idle := 0\<rparr>
               else if d_reinit st1 = 0 then st1\<lparr>d_rxwant := False, d_idle := d_idle st1 + 1\<rparr>
               else st1))"

definition dp_async_done :: "denv \<Rightarrow> bool \<Rightarrow> dpst \<Rightarrow> dpst option" where
  "dp_async_done env err st =
    (let opc = drop_bit 8 (jb_blkno (d_abuf st)); st = st\<lparr>d_busy := False\<rparr>
     in if opc = 0x0E then Some (dp_kick False (dp_reset_step env st))
        else
          let st1 = dp_count_err err st
          in if opc = 0x0A then Some (dp_kick False (dp_tx_done err st1))
             else if \<not> err then
               (case dp_rx_done env st1 of
                  None \<Rightarrow> None
                | Some st2 \<Rightarrow> Some (dp_kick False st2))
             else Some (dp_kick False (st1\<lparr>d_rxwant := False, d_ierrors := d_ierrors st1 + 1\<rparr>)))"

definition dpSTART :: "denv \<Rightarrow> bool \<Rightarrow> dpst \<Rightarrow> dpst option" where
  "dpSTART env flag st =
    (case (if d_busy st \<and> jb_done (d_abuf st) then dp_async_done env (jb_error (d_abuf st)) st
           else Some st) of
       None \<Rightarrow> None
     | Some st \<Rightarrow> Some (dp_start_head flag st))"

definition dpstrategy :: "denv \<Rightarrow> dpst \<Rightarrow> dpst option" where
  "dpstrategy env st =
    (let b = d_sbuf st;
         st1 = st\<lparr>d_sbuf := b\<lparr>jb_resid := jb_bcount b\<rparr>, d_jq := d_jq st @ [SBUF]\<rparr>
     in if \<not> d_active st1 then dpSTART env True st1 else Some st1)"

section \<open>Poll, search and bring-up\<close>

definition dp_poll :: "denv \<Rightarrow> dpst \<Rightarrow> dpst" where
  "dp_poll env st =
    (if \<not> d_up st then st
     else
       let st1 = (case d_pollq st of None \<Rightarrow> st
                  | Some q \<Rightarrow> st\<lparr>d_enabled := d_enabled st @ [q]\<rparr>);
           ticks = (if d_idle st1 > 100 then cdiv (n_hz env) 20 else 1)
       in st1\<lparr>d_timer := Some (if ticks < 1 then 1 else ticks)\<rparr>)"

text \<open>\<open>sj_selectjob(t, 0)\<close> answers the job of target \<open>t\<close>.\<close>

definition is_dayna :: "scsijob \<Rightarrow> bool" where
  "is_dayna job \<longleftrightarrow> sj_dtype job = PROC \<and>
     sj_inqdata job ! 8 = 68 \<and> sj_inqdata job ! 9 = 97 \<and> sj_inqdata job ! 10 = 121 \<and>
     (sj_startf job = Sj_badstart \<or> sj_startf job = DpSTART)"

definition dpfind :: "dpst \<Rightarrow> nat option \<times> dpst" where
  "dpfind st =
    (case List.find (\<lambda>t. case d_jobs st t of None \<Rightarrow> False | Some job \<Rightarrow> is_dayna job) [0..<8] of
       None \<Rightarrow> (None, st)
     | Some t \<Rightarrow>
       (Some t, st\<lparr>d_jobs := (d_jobs st)(t := map_option (sj_startf_update (\<lambda>_. DpSTART)) (d_jobs st t)),
                  d_job := Some t\<rparr>))"

text \<open>One synchronous command: its error, and what it read in \<open>dpdata\<close>.\<close>

definition dpcmd :: "denv \<Rightarrow> int \<Rightarrow> int \<Rightarrow> int \<Rightarrow> dpst \<Rightarrow> bool \<times> dpst" where
  "dpcmd env opc ctl count st =
    (case n_scmd env (d_scmds st) opc ctl count of
       (err, d) \<Rightarrow> (err, st\<lparr>d_scmds := Suc (d_scmds st),
                            d_data := put_at (d_data st) 0 (take (nat count) d)\<rparr>))"

text \<open>The wait for the Ethernet address; the first argument counts the further tries.\<close>

fun linit_mac :: "denv \<Rightarrow> nat \<Rightarrow> dpst \<Rightarrow> bool \<times> dpst" where
  "linit_mac env t st =
    (case dpcmd env 0x09 0 22 st of
       (False, st) \<Rightarrow> (True, st)
     | (True, st) \<Rightarrow>
       (case dpcmd env 0x09 0 18 st of
          (False, st) \<Rightarrow> (True, st)
        | (True, st) \<Rightarrow>
          (case t of 0 \<Rightarrow> (False, snd (dpcmd env 0x0E 0 0 st))
           | Suc t' \<Rightarrow> linit_mac env t' st)))"

declare linit_mac.simps [simp del]

definition dp_linit :: "denv \<Rightarrow> dpst \<Rightarrow> dpst" where
  "dp_linit env st =
    (if d_running st then st
     else (case (if d_job st = None then dpfind st else (d_job st, st)) of
       (None, st) \<Rightarrow> st
     | (Some t, st) \<Rightarrow>
       (case dpcmd env 0x0E 0x80 0 st of
          (True, st) \<Rightarrow> st
        | (False, st) \<Rightarrow>
          (case linit_mac env 100 st of
             (False, st) \<Rightarrow> st
           | (True, st) \<Rightarrow>
             st\<lparr>d_enaddr := map (\<lambda>i. d_data st ! i) [0..<6], d_running := True, d_idle := 0, d_reinit := 0,
                d_errs := 0, d_settle := d_lbolt st, d_up := True,
                d_timer := Some (cdiv (n_hz env) 10)\<rparr>))))"

end
