(* ===== verification/DpDlpi.thy ===== *)
theory DpDlpi
  imports DpScsi
begin

text \<open>
  The DLPI half of \<open>driver-dp/dp.c\<close>: replies, \<open>en_proto\<close>, \<open>en_ioctl\<close>, the STREAMS entry
  points \<open>enwput\<close>, \<open>enrsrv\<close>, \<open>enopen\<close>, \<open>enclose\<close>, and what a load, an unload and
  \<open>prtconf\<close> call; and the driver as a transition system over the events the kernel delivers.
  A stream is a number that stands for its queue pair.
\<close>

section \<open>Replies\<close>

text \<open>The block to answer with: \<open>mp\<close>'s own when it is unshared and large enough, or a new one.\<close>

definition en_reuse :: "denv \<Rightarrow> mblk \<Rightarrow> nat \<Rightarrow> dpst \<Rightarrow> mblk option \<times> dpst" where
  "en_reuse env mp sz st =
    (if mb_own mp \<and> mb_bufsz mp \<ge> sz then
       (Some (mp\<lparr>mb_data := [], mb_cont := [], mb_type := M_PCPROTO\<rparr>), st)
     else (case allocb env st of
       (False, st) \<Rightarrow> (None, st)
     | (True, st) \<Rightarrow>
       (Some \<lparr>mb_type = M_PCPROTO, mb_prim = NoPrim, mb_bufsz = sz, mb_own = True,
              mb_data = [], mb_cont = []\<rparr>, st)))"

text \<open>\<open>enomem\<close>: the unix error is \<open>ENOMEM\<close>, otherwise 0.\<close>

definition en_error_ack :: "denv \<Rightarrow> nat \<Rightarrow> mblk \<Rightarrow> dlprim \<Rightarrow> dlerr \<Rightarrow> bool \<Rightarrow> dpst \<Rightarrow> dpst" where
  "en_error_ack env q mp prim dlerr enomem st =
    (case en_reuse env mp (n_errack env) st of
       (None, st) \<Rightarrow> st
     | (Some np, st) \<Rightarrow> putnext q (np\<lparr>mb_prim := DL_ERROR_ACK prim dlerr enomem\<rparr>) st)"

definition en_uderror_ind :: "nat \<Rightarrow> mblk \<Rightarrow> dlerr \<Rightarrow> dpst \<Rightarrow> dpst" where
  "en_uderror_ind q mp err st =
    putnext q (mp\<lparr>mb_type := M_PCPROTO, mb_prim := DL_UDERROR_IND err\<rparr>) st"

section \<open>en_proto\<close>

definition prim_of :: "dlmsg \<Rightarrow> dlprim" where
  "prim_of m = (case m of DL_BIND_REQ s \<Rightarrow> P_BIND | DL_UNBIND_REQ \<Rightarrow> P_UNBIND | DL_INFO_REQ \<Rightarrow> P_INFO
     | DL_UNITDATA_REQ off \<Rightarrow> P_UNITDATA | DL_OTHER_REQ n \<Rightarrow> P_OTHER n | _ \<Rightarrow> P_OTHER 0)"

definition dp_bcast :: "byte list" where
  "dp_bcast = [0xff, 0xff, 0xff, 0xff, 0xff, 0xff]"

text \<open>\<open>q\<close> is the minor's read queue (\<open>min->min_rdq\<close>), \<open>m\<close> the minor's number.\<close>

definition en_bind :: "denv \<Rightarrow> nat \<Rightarrow> nat \<Rightarrow> mblk \<Rightarrow> int \<Rightarrow> dpst \<Rightarrow> dpst" where
  "en_bind env q m mp sap st =
    (if min_state (d_min st ! m) \<noteq> DL_UNBOUND then en_error_ack env q mp P_BIND DL_OUTSTATE False st
     else if find_minor (\<lambda>x. min_state x = DL_IDLE \<and> min_sap x = sap) (d_min st) \<noteq> None
     then en_error_ack env q mp P_BIND DL_NOERR False st
     else
       let st1 = st\<lparr>d_min := (d_min st)[m := (d_min st ! m)\<lparr>min_state := DL_IDLE, min_sap := sap\<rparr>]\<rparr>
       in (case en_reuse env mp 30 st1 of
             (None, st2) \<Rightarrow> en_error_ack env q mp P_BIND DL_SYSERR True st2
           | (Some np, st2) \<Rightarrow>
               putnext q (np\<lparr>mb_prim := DL_BIND_ACK sap (d_enaddr st2), mb_data := d_enaddr st2\<rparr>) st2))"

definition en_unbind :: "denv \<Rightarrow> nat \<Rightarrow> nat \<Rightarrow> mblk \<Rightarrow> dpst \<Rightarrow> dpst" where
  "en_unbind env q m mp st =
    (if min_state (d_min st ! m) \<noteq> DL_IDLE then en_error_ack env q mp P_UNBIND DL_OUTSTATE False st
     else
       let st1 = st\<lparr>d_min := (d_min st)[m := (d_min st ! m)\<lparr>min_state := DL_UNBOUND, min_sap := 0\<rparr>]\<rparr>
       in (case en_reuse env mp 8 st1 of
             (None, st2) \<Rightarrow> en_error_ack env q mp P_UNBIND DL_SYSERR True st2
           | (Some np, st2) \<Rightarrow> putnext q (np\<lparr>mb_prim := DL_OK_ACK P_UNBIND\<rparr>) st2))"

definition en_info :: "denv \<Rightarrow> nat \<Rightarrow> nat \<Rightarrow> mblk \<Rightarrow> dpst \<Rightarrow> dpst" where
  "en_info env q m mp st =
    (case en_reuse env mp 70 st of
       (None, st1) \<Rightarrow> en_error_ack env q mp P_INFO DL_SYSERR True st1
     | (Some np, st1) \<Rightarrow>
       let ms = min_state (d_min st1 ! m);
           addr = (if ms \<noteq> DL_UNBOUND then d_enaddr st1 else [])
       in putnext q (np\<lparr>mb_prim := DL_INFO_ACK 1500 1 ms addr, mb_data := addr\<rparr>) st1)"

text \<open>A broadcast is also heard by the minor that sends it.\<close>

definition en_echo :: "denv \<Rightarrow> nat \<Rightarrow> mblk \<Rightarrow> byte list \<Rightarrow> dpst \<Rightarrow> dpst" where
  "en_echo env q mp dst st =
    (if dst \<noteq> dp_bcast then st
     else (case allocb env st of
       (False, st) \<Rightarrow> st
     | (True, st) \<Rightarrow>
       if mb_cont mp = [] then st
       else (case en_mkind env (mb_cont mp) dst (d_enaddr st) st of
         (None, st) \<Rightarrow> st
       | (Some np, st) \<Rightarrow> en_send_up env q np st)))"

text \<open>\<open>wq\<close> is the stream the request came down; its write queue keeps what cannot be sent yet.\<close>

definition en_unitdata :: "denv \<Rightarrow> nat \<Rightarrow> nat \<Rightarrow> nat \<Rightarrow> mblk \<Rightarrow> nat \<Rightarrow> dpst \<Rightarrow> dpst option" where
  "en_unitdata env wq q m mp off st =
    (if min_state (d_min st ! m) \<noteq> DL_IDLE then Some (en_uderror_ind q mp DL_OUTSTATE st)
     else if off + 6 > length (mb_data mp) then None
     else
       let dst = take 6 (drop off (mb_data mp));
           st1 = en_echo env q mp dst st;
           sap = min_sap (d_min st1 ! m);
           hdr = dst @ d_enaddr st1 @ [word_of_int (drop_bit 8 sap), word_of_int sap]
       in (case allocb env st1 of
             (False, st2) \<Rightarrow> Some (en_uderror_ind q mp DL_UNDELIVERABLE st2)
           | (True, st2) \<Rightarrow>
             let hp = data_mblk hdr (mb_cont mp);
                 queued = (\<lambda>s. s\<lparr>d_wq := (d_wq s)(wq := d_wq s wq @ [hp]),
                                d_wqcnt := Suc (d_wqcnt s)\<rparr>)
             in if d_wqcnt st2 \<noteq> 0 then Some (queued st2)
                else (case dp_xmit hp st2 of
                        (True, st3) \<Rightarrow> Some st3
                      | (False, st3) \<Rightarrow> Some (queued st3))))"

definition en_proto :: "denv \<Rightarrow> nat \<Rightarrow> mblk \<Rightarrow> dpst \<Rightarrow> dpst option" where
  "en_proto env wq mp st =
    (case d_qptr st wq of
       None \<Rightarrow> None
     | Some m \<Rightarrow>
       (case min_rdq (d_min st ! m) of
          None \<Rightarrow> None
        | Some q \<Rightarrow>
          if \<not> d_running st then Some (en_error_ack env q mp (prim_of (mb_prim mp)) DL_NOTINIT False st)
          else (case mb_prim mp of
            DL_BIND_REQ sap \<Rightarrow> Some (en_bind env q m mp sap st)
          | DL_UNBIND_REQ \<Rightarrow> Some (en_unbind env q m mp st)
          | DL_INFO_REQ \<Rightarrow> Some (en_info env q m mp st)
          | DL_UNITDATA_REQ off \<Rightarrow> en_unitdata env wq q m mp off st
          | _ \<Rightarrow> Some st)))"

section \<open>ioctl and put\<close>

definition ENIOC_GETADDR :: int where "ENIOC_GETADDR = push_bit 8 69 OR 1"

definition en_ioctl :: "denv \<Rightarrow> nat \<Rightarrow> mblk \<Rightarrow> dpst \<Rightarrow> dpst" where
  "en_ioctl env q mp st =
    (let nak = putnext q (mp\<lparr>mb_type := M_IOCNAK\<rparr>) st
     in case mb_prim mp of
       IOCBLK ioc \<Rightarrow>
         if ioc_whole ioc \<and> \<not> ioc_transparent ioc \<and> ioc_cmd ioc = ENIOC_GETADDR then
           (let ack = mp\<lparr>mb_type := M_IOCACK, mb_prim := IOCBLK (ioc\<lparr>ioc_count := 6\<rparr>)\<rparr>
            in case mb_cont mp of
                 b # bs \<Rightarrow>
                   if length b = 6 then putnext q (ack\<lparr>mb_cont := d_enaddr st # bs\<rparr>) st
                   else (case allocb env st of
                     (True, st) \<Rightarrow> putnext q (ack\<lparr>mb_cont := [d_enaddr st]\<rparr>) st
                   | (False, st) \<Rightarrow>
                     putnext q (mp\<lparr>mb_type := M_IOCNAK, mb_cont := [],
                       mb_prim := IOCBLK (ioc\<lparr>ioc_error := K_ENOMEM\<rparr>)\<rparr>) st)
               | [] \<Rightarrow> (case allocb env st of
                     (True, st) \<Rightarrow> putnext q (ack\<lparr>mb_cont := [d_enaddr st]\<rparr>) st
                   | (False, st) \<Rightarrow>
                     putnext q (mp\<lparr>mb_type := M_IOCNAK, mb_cont := [],
                       mb_prim := IOCBLK (ioc\<lparr>ioc_error := K_ENOMEM\<rparr>)\<rparr>) st))
         else nak
     | _ \<Rightarrow> nak)"

definition enwput :: "denv \<Rightarrow> nat \<Rightarrow> mblk \<Rightarrow> dpst \<Rightarrow> dpst option" where
  "enwput env q mp st =
    (case mb_type mp of
       M_PROTO \<Rightarrow> en_proto env q mp st
     | M_PCPROTO \<Rightarrow> en_proto env q mp st
     | M_IOCTL \<Rightarrow> Some (en_ioctl env q mp st)
     | M_FLUSH \<Rightarrow>
       (case mb_prim mp of
          FLUSH r w \<Rightarrow>
            let st1 = (if w then st\<lparr>d_wq := (d_wq st)(q := [])\<rparr> else st)
            in Some (if r then putnext q (mp\<lparr>mb_prim := FLUSH r False\<rparr>) st1 else st1)
        | _ \<Rightarrow> Some st)
     | _ \<Rightarrow> Some st)"

definition enrsrv :: "dpst \<Rightarrow> dpst" where
  "enrsrv st = dp_kick True (st\<lparr>d_rxwant := True\<rparr>)"

section \<open>Open and close\<close>

definition enopen :: "denv \<Rightarrow> nat \<Rightarrow> int \<Rightarrow> sflag \<Rightarrow> dpst \<Rightarrow> enerr option \<times> dpst" where
  "enopen env q minor sflg st =
    (if sflg = MODOPEN then (Some EN_EINVAL, st)
     else if d_qptr st q \<noteq> None then (None, st)
     else (case (if sflg = CLONEOPEN then
                   (case find_minor (\<lambda>m. min_rdq m = None) (d_min st) of
                      None \<Rightarrow> Inl EN_ENOSPC | Some m \<Rightarrow> Inr m)
                 else if minor < 0 \<or> minor \<ge> int DP_NMINOR then Inl EN_EINVAL
                 else Inr (nat minor)) of
       Inl e \<Rightarrow> (Some e, st)
     | Inr m \<Rightarrow>
       let st1 = dp_linit env st
       in (None, st1\<lparr>d_qptr := (d_qptr st1)(q := Some m),
             d_min := (d_min st1)[m := \<lparr>min_rdq = Some q, min_state = DL_UNBOUND, min_sap = 0\<rparr>],
             d_pollq := (if d_pollq st1 = None then Some q else d_pollq st1)\<rparr>)))"

definition enclose :: "nat \<Rightarrow> dpst \<Rightarrow> dpst option" where
  "enclose q st =
    (case d_qptr st q of
       None \<Rightarrow> None
     | Some m \<Rightarrow>
       let st1 = st\<lparr>d_wqcnt := d_wqcnt st - length (d_wq st q), d_wq := (d_wq st)(q := []),
                    d_qptr := (d_qptr st)(q := None),
                    d_min := (d_min st)[m := \<lparr>min_rdq = None, min_state = DL_UNBOUND, min_sap = 0\<rparr>]\<rparr>
       in Some (if d_pollq st1 = Some q then
                  st1\<lparr>d_pollq := (case find_minor (\<lambda>x. min_rdq x \<noteq> None) (d_min st1) of
                                    None \<Rightarrow> None | Some i \<Rightarrow> min_rdq (d_min st1 ! i))\<rparr>
                else st1))"

section \<open>Load, unload and prtconf\<close>

text \<open>The list of interfaces; ours is number 0.\<close>

definition dpstart :: "dpst \<Rightarrow> dpst" where
  "dpstart st = st\<lparr>d_ifstats := 0 # d_ifstats st\<rparr>"

text \<open>The driver's memory as loaded: \<open>en_min\<close> and \<open>en_if\<close> zero, so no minor is open.\<close>

definition dp_static :: dpst where
  "dp_static = \<lparr>d_jobs = (\<lambda>_. None), d_job = None, d_jq = [], d_active = False, d_errcnt = 0,
     d_cmds = [], d_abuf = \<lparr>jb_done = False, jb_error = False, jb_read = False, jb_blkno = 0,
       jb_addr = DpData, jb_bcount = 0, jb_resid = 0\<rparr>,
     d_sbuf = \<lparr>jb_done = False, jb_error = False, jb_read = False, jb_blkno = 0,
       jb_addr = DpData, jb_bcount = 0, jb_resid = 0\<rparr>,
     d_data = replicate 64 0, d_tx = replicate 1600 0, d_rx = replicate 3100 0, d_busy = False,
     d_up = False, d_txlen = 0, d_rxwant = False, d_idle = 0, d_reinit = 0, d_errs = 0,
     d_settle = 0, d_lbolt = 0,
     d_min = replicate DP_NMINOR \<lparr>min_rdq = None, min_state = DL_UNBOUND, min_sap = 0\<rparr>,
     d_running = False, d_enaddr = replicate 6 0, d_ierrors = 0, d_oerrors = 0, d_ipackets = 0,
     d_opackets = 0, d_wqcnt = 0, d_nextmin = 0, d_pollq = None, d_qptr = (\<lambda>_. None),
     d_wq = (\<lambda>_. []), d_sent = [], d_allocs = 0, d_scmds = 0, d_timer = None, d_enabled = [],
     d_ifstats = []\<rparr>"

definition dp_unload :: "denv \<Rightarrow> dpst \<Rightarrow> enerr option \<times> dpst" where
  "dp_unload env st =
    (if find_minor (\<lambda>m. min_rdq m \<noteq> None) (d_min st) \<noteq> None then (Some EN_EBUSY, st)
     else if d_busy st then (Some EN_EBUSY, st)
     else
       let st1 = (if d_up st then st\<lparr>d_up := False, d_timer := None\<rparr> else st);
           st2 = (if d_running st1 then (snd (dpcmd env 0x0E 0 0 st1))\<lparr>d_running := False\<rparr> else st1);
           st3 = (case d_job st2 of None \<Rightarrow> st2
                  | Some t \<Rightarrow> st2\<lparr>d_jobs := (d_jobs st2)(t := map_option (sj_startf_update (\<lambda>_. Sj_badstart)) (d_jobs st2 t)),
                                 d_job := None\<rparr>)
       in (None, st3\<lparr>d_ifstats := remove1 0 (d_ifstats st3)\<rparr>))"

text \<open>The name prtconf shows: the INQUIRY's text with runs of blanks as one, then the target.\<close>

fun inq_text :: "int list \<Rightarrow> byte list \<Rightarrow> byte list" where
  "inq_text [] acc = acc"
| "inq_text (c # cs) acc =
    (if c < 32 \<or> c > 126 then acc
     else if c = 32 \<and> (acc = [] \<or> last acc = 32) then inq_text cs acc
     else inq_text cs (acc @ [word_of_int c]))"

definition dp_xname :: "scsijob \<Rightarrow> byte list" where
  "dp_xname job =
    (let t = inq_text (take 28 (drop 8 (sj_inqdata job))) [];
         t = rev (dropWhile (\<lambda>b. b = 32) (rev t));
         tail = bytes_of '' at SCSI id '' @ [word_of_int (48 + sj_target job)]
     in if length t + length tail + 1 \<le> 64 then t @ tail else t)"

text \<open>
  \<open>copyout k\<close>: the \<open>k\<close>-th copy to the user succeeds. The answer is an error or the number of
  adapters with the name, when it was asked for.
\<close>

definition dpdriverinfo ::
    "(nat \<Rightarrow> bool) \<Rightarrow> int \<Rightarrow> int \<Rightarrow> int \<Rightarrow> dpst \<Rightarrow> (enerr + int \<times> byte list option) \<times> dpst" where
  "dpdriverinfo copyout xsize cmd len st =
    (if cmd \<noteq> 76 then (Inl EN_EINVAL, st)
     else
       let st = (if d_job st = None then snd (dpfind st) else st);
           n = (if d_job st \<noteq> None then 1 else 0)
       in (if len = 4 then (if copyout 0 then Inr (n, None) else Inl EN_EFAULT)
           else if len \<noteq> 4 + n * xsize then Inl EN_EINVAL
           else if \<not> copyout 0 then Inl EN_EFAULT
           else (case d_job st of
             None \<Rightarrow> Inr (0, None)
           | Some t \<Rightarrow> (case d_jobs st t of
               None \<Rightarrow> Inr (1, None)
             | Some job \<Rightarrow> if copyout 1 then Inr (1, Some (dp_xname job)) else Inl EN_EFAULT)), st))"

section \<open>The driver under the kernel's events\<close>

text \<open>
  What \<open>sj_terminate\<close> does at the end of a command, as the comment at \<open>dpSTART\<close> records it:
  the finished buffer leaves the queue with its flags set, the data of a read are in memory,
  then the driver's start routine is called.
\<close>

definition sj_terminate :: "denv \<Rightarrow> bool \<Rightarrow> byte list \<Rightarrow> dpst \<Rightarrow> dpst option" where
  "sj_terminate env err d st =
    (case d_jq st of
       ABUF # rest \<Rightarrow>
         let b = d_abuf st
         in dpSTART env True (st\<lparr>d_jq := rest, d_abuf := b\<lparr>jb_done := True, jb_error := err\<rparr>,
              d_rx := (if jb_addr b = DpRx \<and> \<not> err then put_at (d_rx st) 0 (take DP_RXASK d) else d_rx st)\<rparr>)
     | SBUF # rest \<Rightarrow>
         let b = d_sbuf st
         in dpSTART env True (st\<lparr>d_jq := rest, d_sbuf := b\<lparr>jb_done := True, jb_error := err\<rparr>\<rparr>)
     | [] \<Rightarrow> Some st)"

datatype dpevent =
    EvPut nat mblk | EvService | EvDone bool "byte list" | EvRetry | EvPoll | EvTick
  | EvOpen nat int sflag | EvClose nat

text \<open>
  A stream has one queue pair for as long as it is open, and STREAMS opens a device node that
  is open on the stream it has: those are the guards of \<open>EvPut\<close>, \<open>EvOpen\<close> and \<open>EvClose\<close>.
\<close>

definition dp_step :: "denv \<Rightarrow> dpevent \<Rightarrow> dpst \<Rightarrow> dpst option" where
  "dp_step env ev st =
    (case ev of
       EvPut q mp \<Rightarrow> (if d_qptr st q = None then Some st else enwput env q mp st)
     | EvService \<Rightarrow> (if d_pollq st = None then Some st else Some (enrsrv st))
     | EvDone err d \<Rightarrow> (if d_active st then sj_terminate env err d st else Some st)
     | EvRetry \<Rightarrow> (if d_active st \<and> d_jq st \<noteq> [] then dpSTART env False st else Some st)
     | EvPoll \<Rightarrow> Some (dp_poll env st)
     | EvTick \<Rightarrow> Some (st\<lparr>d_lbolt := s32 (d_lbolt st + 1)\<rparr>)
     | EvOpen q minor sf \<Rightarrow>
         (if sf = DEVOPEN \<and> d_qptr st q = None \<and> 0 \<le> minor \<and> minor < int DP_NMINOR \<and>
             min_rdq (d_min st ! nat minor) \<noteq> None then Some st
          else Some (snd (enopen env q minor sf st)))
     | EvClose q \<Rightarrow> (if d_qptr st q = None then Some st else enclose q st))"

fun dp_run :: "denv \<Rightarrow> dpevent list \<Rightarrow> dpst \<Rightarrow> dpst option" where
  "dp_run env [] st = Some st"
| "dp_run env (ev # evs) st =
    (case dp_step env ev st of None \<Rightarrow> None | Some st' \<Rightarrow> dp_run env evs st')"

end
