(* ===== verification/DpInv.thy ===== *)
theory DpInv
  imports DpDlpi
begin

text \<open>
  The invariant of the DaynaPORT driver and that every event of \<open>dp_step\<close> keeps it: the one
  asynchronous buffer is on the core's queue at most once, a staged frame has a legal Ethernet
  length and is in flight or about to be, no two bound minors share a SAP, the count of queued
  frames is right, and frames are queued only while a staged one is there to fetch them.
\<close>

section \<open>Steps that only log\<close>

text \<open>What replies and deliveries change: the log, the allocation count and two counters.\<close>

definition log_only :: "dpst \<Rightarrow> dpst \<Rightarrow> bool" where
  "log_only st st' \<longleftrightarrow> (\<exists>a b c d. st' = st\<lparr>d_sent := a, d_allocs := b, d_ierrors := c, d_ipackets := d\<rparr>)"

lemma log_only_refl [simp]: "log_only st st"
  unfolding log_only_def
  by (intro exI [of _ "d_sent st"] exI [of _ "d_allocs st"] exI [of _ "d_ierrors st"]
      exI [of _ "d_ipackets st"]) simp

lemma log_only_trans: "log_only st st' \<Longrightarrow> log_only st' st'' \<Longrightarrow> log_only st st''"
  unfolding log_only_def by (elim exE, hypsubst, simp) blast

lemma log_onlyI: "log_only st (st\<lparr>d_sent := a, d_allocs := b, d_ierrors := c, d_ipackets := d\<rparr>)"
  by (auto simp: log_only_def)

lemma log_only_1:
  "log_only st (st\<lparr>d_sent := a\<rparr>)" "log_only st (st\<lparr>d_allocs := b\<rparr>)"
  "log_only st (st\<lparr>d_ierrors := c\<rparr>)" "log_only st (st\<lparr>d_ipackets := d\<rparr>)"
  using log_onlyI [where st = st and a = a and b = "d_allocs st" and c = "d_ierrors st" and d = "d_ipackets st"]
    log_onlyI [where st = st and a = "d_sent st" and b = b and c = "d_ierrors st" and d = "d_ipackets st"]
    log_onlyI [where st = st and a = "d_sent st" and b = "d_allocs st" and c = c and d = "d_ipackets st"]
    log_onlyI [where st = st and a = "d_sent st" and b = "d_allocs st" and c = "d_ierrors st" and d = d]
  by simp_all

lemma log_only_allocb: "log_only st (snd (allocb env st))"
  by (simp add: allocb_def log_only_1)

lemma log_only_putnext: "log_only st (putnext q mp st)"
  by (simp add: putnext_def log_only_1)

lemma log_only_send_up: "log_only st (en_send_up env q mp st)"
  by (simp add: en_send_up_def log_only_putnext)

lemma log_only_mkind: "en_mkind env c d s st = (r, st') \<Longrightarrow> log_only st st'"
  by (auto simp: en_mkind_def allocb_def log_only_1 split: if_splits bool.splits)

lemma log_only_reuse: "en_reuse env mp sz st = (r, st') \<Longrightarrow> log_only st st'"
  by (auto simp: en_reuse_def allocb_def log_only_1 split: if_splits bool.splits)

lemma log_only_error_ack: "log_only st (en_error_ack env q mp p e u st)"
  using log_only_reuse [of env mp "n_errack env" st]
  by (auto simp: en_error_ack_def split: prod.splits option.splits
      intro: log_only_trans log_only_putnext)

lemma log_only_rproc: "log_only st (en_rproc env f st)"
  by (auto simp: en_rproc_def Let_def log_only_1 split: option.splits prod.splits
      intro: log_only_trans [OF log_only_mkind log_only_send_up] log_only_mkind)

lemma log_only_info: "log_only st (en_info env q m mp st)"
  using log_only_reuse [of env mp 70 st]
  by (auto simp: en_info_def Let_def split: prod.splits option.splits
      intro: log_only_trans log_only_putnext log_only_error_ack)

lemma log_only_ioctl: "log_only st (en_ioctl env q mp st)"
  by (auto simp: en_ioctl_def Let_def allocb_def log_only_putnext split: dlmsg.splits list.splits bool.splits
      intro!: log_only_trans [OF log_only_1(2) log_only_putnext])

lemma log_only_echo: "log_only st (en_echo env q mp dst st)"
proof -
  have "log_only st (snd (en_mkind env c d s (snd (allocb env st))))" for c d s
    using log_only_trans [OF log_only_allocb log_only_mkind [of env c d s "snd (allocb env st)"]]
    by (metis prod.collapse)
  note a = this
  show ?thesis
  proof (cases "en_mkind env (mb_cont mp) dst (d_enaddr (snd (allocb env st))) (snd (allocb env st))")
    case (Pair r st')
    have "log_only st st'"
      using a [of "mb_cont mp" dst "d_enaddr (snd (allocb env st))"] Pair by simp
    then show ?thesis
      using Pair log_only_allocb [of st env]
      by (auto simp: en_echo_def split: prod.splits bool.splits option.splits
          intro: log_only_trans log_only_send_up)
  qed
qed

section \<open>Invariants\<close>

text \<open>The lengths of the open minors' write queues.\<close>

definition qlen :: "dpst \<Rightarrow> nat \<Rightarrow> nat" where
  "qlen st m = (case min_rdq (d_min st ! m) of None \<Rightarrow> 0 | Some q \<Rightarrow> length (d_wq st q))"

definition mlen :: "mblk \<Rightarrow> nat" where
  "mlen mp = length (mb_data mp) + sum_list (map length (mb_cont mp))"

text \<open>
  The command on the asynchronous buffer: the step of a reset that is due, or the staged
  frame, or a receive into \<open>dprx\<close>.
\<close>

definition abuf_ok :: "int \<Rightarrow> int \<Rightarrow> jbuf \<Rightarrow> bool" where
  "abuf_ok reinit txlen b \<longleftrightarrow> (case jb_addr b of
     DpTx \<Rightarrow> reinit = 0 \<and> jb_blkno b = DPCMD 0x0A 0 \<and> jb_bcount b = txlen \<and> txlen \<noteq> 0
   | DpRx \<Rightarrow> reinit = 0 \<and> jb_blkno b = DPCMD 0x08 DP_RXMODE \<and> jb_bcount b = int DP_RXASK
   | DpData \<Rightarrow> reinit \<noteq> 0 \<and> jb_blkno b = DPCMD 0x0E (if reinit = 1 then 0x80 else 0) \<and>
       jb_bcount b = 0)"

text \<open>The queue of the SCSI core, the buffers and the frame in \<open>dptx\<close>, at any moment.\<close>

definition scsi_core :: "dpst \<Rightarrow> bool" where
  "scsi_core st \<longleftrightarrow>
     d_jq st = (if d_busy st then [ABUF] else []) \<and>
     (d_busy st \<longrightarrow> d_up st \<and> \<not> jb_done (d_abuf st)) \<and>
     (d_txlen st = 0 \<or> 60 \<le> d_txlen st \<and> d_txlen st \<le> 1514 \<and> d_up st) \<and>
     0 \<le> d_reinit st \<and> d_reinit st \<le> 2 \<and> d_up st = d_running st \<and>
     length (d_tx st) = 1600 \<and> length (d_rx st) = 3100 \<and>
     (d_busy st \<longrightarrow> abuf_ok (d_reinit st) (d_txlen st) (d_abuf st))"

text \<open>At rest: the queue is active exactly when a command is on it, and one is on it
  whenever there is something to send or to reset.\<close>

definition scsi_rest :: "dpst \<Rightarrow> bool" where
  "scsi_rest st \<longleftrightarrow> scsi_core st \<and> d_active st = d_busy st \<and>
     (d_up st \<and> (d_txlen st \<noteq> 0 \<or> d_reinit st \<noteq> 0) \<longrightarrow> d_busy st)"

text \<open>Minors and streams: \<open>q_ptr\<close> and \<open>min_rdq\<close> are inverse.\<close>

definition qptr_ok :: "enminor list \<Rightarrow> (nat \<Rightarrow> nat option) \<Rightarrow> bool" where
  "qptr_ok ms qp \<longleftrightarrow>
     (\<forall>q m. qp q = Some m \<longleftrightarrow> m < DP_NMINOR \<and> min_rdq (ms ! m) = Some q)"

definition min_inv :: "dpst \<Rightarrow> bool" where
  "min_inv st \<longleftrightarrow> length (d_min st) = DP_NMINOR \<and> d_nextmin st < DP_NMINOR \<and>
     length (d_enaddr st) = 6 \<and>
     qptr_ok (d_min st) (d_qptr st) \<and>
     (\<forall>q. d_qptr st q = None \<longrightarrow> d_wq st q = []) \<and>
     (\<forall>i < DP_NMINOR. \<forall>j < DP_NMINOR. min_state (d_min st ! i) = DL_IDLE \<and>
        min_state (d_min st ! j) = DL_IDLE \<and> min_sap (d_min st ! i) = min_sap (d_min st ! j) \<longrightarrow> i = j) \<and>
     (d_pollq st = None \<longrightarrow> (\<forall>m < DP_NMINOR. min_rdq (d_min st ! m) = None)) \<and>
     (\<forall>q. d_pollq st = Some q \<longrightarrow> d_qptr st q \<noteq> None)"

text \<open>
  The queued frames: counted, of a size that can be sent, and only there while a frame is
  staged, whose completion takes the next.
\<close>

definition wq_inv :: "dpst \<Rightarrow> bool" where
  "wq_inv st \<longleftrightarrow> d_wqcnt st = (\<Sum>m < DP_NMINOR. qlen st m) \<and>
     (\<forall>q. \<forall>mp \<in> set (d_wq st q). 14 \<le> mlen mp \<and> mlen mp \<le> 1514)"

definition dp_inv :: "dpst \<Rightarrow> bool" where
  "dp_inv st \<longleftrightarrow> scsi_rest st \<and> min_inv st \<and> wq_inv st \<and> (d_wqcnt st \<noteq> 0 \<longrightarrow> d_txlen st \<noteq> 0)"

lemma log_only_fields:
  assumes "log_only st st'"
  shows "d_wqcnt st' = d_wqcnt st" "d_txlen st' = d_txlen st" "d_active st' = d_active st"
    "d_busy st' = d_busy st" "d_up st' = d_up st" "d_reinit st' = d_reinit st"
    "d_rx st' = d_rx st" "d_tx st' = d_tx st" "d_min st' = d_min st" "d_qptr st' = d_qptr st"
    "d_wq st' = d_wq st" "d_enaddr st' = d_enaddr st" "d_running st' = d_running st"
    "d_jq st' = d_jq st" "d_abuf st' = d_abuf st" "d_pollq st' = d_pollq st"
    "d_nextmin st' = d_nextmin st" "d_cmds st' = d_cmds st"
  using assms by (auto simp: log_only_def)

lemma min_wq_fields:
  assumes "d_min st' = d_min st" "d_qptr st' = d_qptr st" "d_wq st' = d_wq st"
    "d_wqcnt st' = d_wqcnt st" "d_pollq st' = d_pollq st" "d_nextmin st' = d_nextmin st"
    "d_enaddr st' = d_enaddr st"
  shows "min_inv st' = min_inv st" "wq_inv st' = wq_inv st"
  using assms by (simp_all add: min_inv_def wq_inv_def qlen_def cong: option.case_cong)

lemma scsi_core_fields:
  assumes "d_jq st' = d_jq st" "d_busy st' = d_busy st" "d_up st' = d_up st"
    "d_abuf st' = d_abuf st" "d_txlen st' = d_txlen st" "d_reinit st' = d_reinit st"
    "d_running st' = d_running st" "length (d_tx st') = length (d_tx st)"
    "length (d_rx st') = length (d_rx st)"
  shows "scsi_core st' = scsi_core st"
  using assms by (simp add: scsi_core_def)

lemma core_log_only:
  assumes "log_only st st'"
  shows "scsi_core st' = scsi_core st" "min_inv st' = min_inv st" "wq_inv st' = wq_inv st"
  by (rule scsi_core_fields min_wq_fields; simp add: log_only_fields [OF assms])+

lemma dp_inv_log_only:
  assumes "log_only st st'" shows "dp_inv st' = dp_inv st"
  by (simp add: dp_inv_def scsi_rest_def core_log_only [OF assms] log_only_fields [OF assms])

section \<open>Kicking\<close>

lemma dp_kick_fields [simp]:
  "d_min (dp_kick b st) = d_min st" "d_qptr (dp_kick b st) = d_qptr st"
  "d_wq (dp_kick b st) = d_wq st" "d_wqcnt (dp_kick b st) = d_wqcnt st"
  "d_pollq (dp_kick b st) = d_pollq st" "d_txlen (dp_kick b st) = d_txlen st"
  "d_tx (dp_kick b st) = d_tx st" "d_up (dp_kick b st) = d_up st"
  "d_running (dp_kick b st) = d_running st" "d_reinit (dp_kick b st) = d_reinit st"
  "d_nextmin (dp_kick b st) = d_nextmin st" "d_enaddr (dp_kick b st) = d_enaddr st"
  "d_sent (dp_kick b st) = d_sent st"
  by (simp_all add: dp_kick_def dp_start_head_def Let_def split: option.splits list.splits)

lemma dp_next_new: "dp_next st = Some b \<Longrightarrow> \<not> jb_done b \<and> abuf_ok (d_reinit st) (d_txlen st) b"
  by (auto simp: dp_next_def abuf_ok_def split: if_splits)

lemma dp_kick_core:
  assumes "scsi_core st" shows "scsi_core (dp_kick b st)"
proof (cases "d_busy st \<or> \<not> d_up st \<or> dp_next st = None")
  case True
  then show ?thesis using assms by (auto simp: dp_kick_def split: option.splits)
next
  case False
  then obtain x where x: "dp_next st = Some x" "\<not> d_busy st" "d_up st" by auto
  show ?thesis
    using assms x dp_next_new [OF x(1)]
    by (auto simp: dp_kick_def Let_def scsi_core_def dp_start_head_def)
qed

lemma dp_kick_busy:
  "d_up st \<Longrightarrow> d_txlen st \<noteq> 0 \<or> d_reinit st \<noteq> 0 \<Longrightarrow> d_busy (dp_kick b st)"
  by (auto simp: dp_kick_def Let_def dp_start_head_def dp_next_def split: list.splits)

lemma dp_kick_active:
  assumes "scsi_core st" "d_active st = d_busy st"
  shows "d_active (dp_kick True st) = d_busy (dp_kick True st)"
  using assms
  by (auto simp: dp_kick_def Let_def dp_start_head_def scsi_core_def split: option.splits)

lemma dp_kick_active_stays: "d_active st \<Longrightarrow> d_active (dp_kick b st)"
  by (auto simp: dp_kick_def Let_def dp_start_head_def split: option.splits list.splits)

lemma dp_kick_rest:
  assumes "scsi_core st" "d_active st = d_busy st"
  shows "scsi_rest (dp_kick True st)"
  using assms dp_kick_core dp_kick_active dp_kick_busy [of st True]
  by (auto simp: scsi_rest_def)

lemma dp_start_head_rest:
  assumes "scsi_core st" "d_up st \<and> (d_txlen st \<noteq> 0 \<or> d_reinit st \<noteq> 0) \<longrightarrow> d_busy st"
  shows "scsi_rest (dp_start_head f st)"
  using assms
  by (auto simp: scsi_rest_def scsi_core_def dp_start_head_def split: list.splits)

lemma dp_start_head_fields [simp]:
  "d_min (dp_start_head b st) = d_min st" "d_qptr (dp_start_head b st) = d_qptr st"
  "d_wq (dp_start_head b st) = d_wq st" "d_wqcnt (dp_start_head b st) = d_wqcnt st"
  "d_pollq (dp_start_head b st) = d_pollq st" "d_txlen (dp_start_head b st) = d_txlen st"
  "d_nextmin (dp_start_head b st) = d_nextmin st" "d_enaddr (dp_start_head b st) = d_enaddr st"
  "d_sent (dp_start_head b st) = d_sent st" "d_tx (dp_start_head b st) = d_tx st"
  by (simp_all add: dp_start_head_def split: list.splits)

section \<open>Transmitting\<close>

lemma length_put_at [simp]: "i + length b \<le> length buf \<Longrightarrow> length (put_at buf i b) = length buf"
  by (simp add: put_at_def)

lemma xmit_copy_fits:
  assumes "len + sum_list (map length bs) \<le> 1514" "length tx = 1600"
  shows "fst (xmit_copy bs len tx) = int (len + sum_list (map length bs)) \<and>
    length (snd (xmit_copy bs len tx)) = 1600 \<and>
    take (len + sum_list (map length bs)) (snd (xmit_copy bs len tx)) = take len tx @ concat bs"
  using assms
proof (induction bs arbitrary: len tx)
  case (Cons b bs)
  have "take (len + length b) (put_at tx len b) = take len tx @ b"
    using Cons.prems by (simp add: put_at_def)
  then show ?case
    using Cons.IH [of "len + length b" "put_at tx len b"] Cons.IH [of len tx] Cons.prems
    by (auto simp: add.assoc)
qed simp

lemma xmit_copy_length:
  assumes "len \<le> 1514" "length tx = 1600"
  shows "length (snd (xmit_copy bs len tx)) = 1600 \<and> fst (xmit_copy bs len tx) \<le> 1514"
  using assms
proof (induction bs arbitrary: len tx)
  case (Cons b bs)
  then show ?case using Cons.IH [of "len + length b" "put_at tx len b"] by auto
qed simp

lemma dp_xmit_core:
  assumes "scsi_core st" "dp_xmit mp st = (r, st')"
  shows "scsi_core st'"
proof -
  obtain len tx where x: "xmit_copy (mb_data mp # mb_cont mp) 0 (d_tx st) = (len, tx)" by fastforce
  have l: "length tx = 1600" "len \<le> 1514"
    using xmit_copy_length [of 0 "d_tx st" "mb_data mp # mb_cont mp"] assms(1) x
    by (auto simp: scsi_core_def)
  have core: "scsi_core (st\<lparr>d_tx := tx', d_txlen := n\<rparr>)"
    if "d_txlen st = 0" "d_up st" "60 \<le> n" "n \<le> 1514" "length tx' = 1600" "\<not> d_busy st \<or> jb_addr (d_abuf st) \<noteq> DpTx" for n tx'
    using assms(1) that by (auto simp: scsi_core_def abuf_ok_def split: dpmem.splits)
  have nt: "\<not> d_busy st \<or> jb_addr (d_abuf st) \<noteq> DpTx" if "d_txlen st = 0"
    using assms(1) that by (auto simp: scsi_core_def abuf_ok_def)
  have 1: "scsi_core (st\<lparr>d_tx := tx, d_oerrors := x\<rparr>)" for x
    using assms(1) l by (auto simp: scsi_core_def)
  have p: "length (put_at tx (nat len) (replicate (nat (60 - len)) 0)) = 1600" if "14 \<le> len" "len < 60"
    using l that by (subst length_put_at) auto
  show ?thesis
    using assms x l core nt p 1 dp_kick_core
    by (auto simp: dp_xmit_def split: if_splits)
qed

lemma dp_xmit_fields:
  assumes "dp_xmit mp st = (r, st')"
  shows "d_min st' = d_min st" "d_qptr st' = d_qptr st" "d_wq st' = d_wq st"
    "d_wqcnt st' = d_wqcnt st" "d_pollq st' = d_pollq st" "d_nextmin st' = d_nextmin st"
    "d_enaddr st' = d_enaddr st" "d_up st' = d_up st" "d_reinit st' = d_reinit st"
    "d_running st' = d_running st" "d_sent st' = d_sent st"
  using assms by (auto simp: dp_xmit_def split: if_splits prod.splits)

lemma dp_xmit_result:
  assumes "dp_xmit mp st = (r, st')"
  shows "\<not> r \<Longrightarrow> st' = st \<and> (d_txlen st \<noteq> 0 \<or> \<not> d_up st)"
    "d_active st \<Longrightarrow> d_active st'"
    "d_txlen st \<noteq> 0 \<or> \<not> d_up st \<Longrightarrow> \<not> r"
  using assms dp_kick_active_stays by (auto simp: dp_xmit_def split: if_splits prod.splits)

lemma dp_xmit_stages:
  assumes "scsi_core st" "d_txlen st = 0" "d_up st" "14 \<le> mlen mp" "mlen mp \<le> 1514"
    "dp_xmit mp st = (r, st')"
  shows "r" "d_txlen st' = int (max 60 (mlen mp))" "d_busy st'"
    "take (nat (d_txlen st')) (d_tx st') =
       mb_data mp @ concat (mb_cont mp) @ replicate (60 - mlen mp) 0"
proof -
  obtain len tx where x: "xmit_copy (mb_data mp # mb_cont mp) 0 (d_tx st) = (len, tx)" by fastforce
  have l: "len = int (mlen mp)" "length tx = 1600" "take (mlen mp) tx = mb_data mp @ concat (mb_cont mp)"
    using xmit_copy_fits [of 0 "mb_data mp # mb_cont mp" "d_tx st"] assms x
    by (auto simp: scsi_core_def mlen_def)
  show "r" "d_txlen st' = int (max 60 (mlen mp))" "d_busy st'"
    using assms x l dp_kick_busy by (auto simp: dp_xmit_def split: if_splits)
  have "length (mb_data mp @ concat (mb_cont mp)) = mlen mp"
    by (simp add: mlen_def length_concat)
  then have "take 60 (put_at tx (mlen mp) (replicate (60 - mlen mp) 0)) =
      mb_data mp @ concat (mb_cont mp) @ replicate (60 - mlen mp) 0" if "mlen mp < 60"
    unfolding put_at_def l(3) using that by simp
  then show "take (nat (d_txlen st')) (d_tx st') =
       mb_data mp @ concat (mb_cont mp) @ replicate (60 - mlen mp) 0"
    using assms x l by (auto simp: dp_xmit_def nat_diff_distrib split: if_splits)
qed

lemma dp_xmit_rest:
  assumes "scsi_rest st" "dp_xmit mp st = (r, st')"
  shows "scsi_rest st'"
proof -
  have core: "scsi_core st'" using dp_xmit_core assms by (auto simp: scsi_rest_def)
  obtain len tx where x: "xmit_copy (mb_data mp # mb_cont mp) 0 (d_tx st) = (len, tx)" by fastforce
  have a: "d_active st' = d_busy st'"
  proof -
    have k: "d_active (dp_kick True s) = d_busy (dp_kick True s)"
      if "s = st\<lparr>d_tx := t, d_txlen := n\<rparr>" for s t n
      using assms(1) that
      by (auto simp: scsi_rest_def scsi_core_def dp_kick_def Let_def dp_start_head_def split: option.splits)
    show ?thesis
      using assms x k by (auto simp: dp_xmit_def scsi_rest_def split: if_splits)
  qed
  have b: "d_up st' \<and> (d_txlen st' \<noteq> 0 \<or> d_reinit st' \<noteq> 0) \<longrightarrow> d_busy st'"
    using assms x dp_kick_busy by (auto simp: dp_xmit_def scsi_rest_def split: if_splits)
  show ?thesis using core a b by (simp add: scsi_rest_def)
qed

section \<open>The write queues\<close>

lemma min_inv_rdq:
  assumes "min_inv st" "m < DP_NMINOR" "min_rdq (d_min st ! m) = Some q"
  shows "d_qptr st q = Some m" "m' < DP_NMINOR \<Longrightarrow> min_rdq (d_min st ! m') = Some q \<Longrightarrow> m' = m"
proof -
  show a: "d_qptr st q = Some m" using assms by (auto simp: min_inv_def qptr_ok_def)
  assume "m' < DP_NMINOR" "min_rdq (d_min st ! m') = Some q"
  then have "d_qptr st q = Some m'" using assms(1) unfolding min_inv_def qptr_ok_def by blast
  with a show "m' = m" by simp
qed

lemma wq_sum:
  assumes "min_inv st" "m < DP_NMINOR" "min_rdq (d_min st ! m) = Some q"
  shows "(\<Sum>i < DP_NMINOR. qlen (st\<lparr>d_wq := (d_wq st)(q := xs)\<rparr>) i) + length (d_wq st q) =
    (\<Sum>i < DP_NMINOR. qlen st i) + length xs"
proof -
  let ?st = "st\<lparr>d_wq := (d_wq st)(q := xs)\<rparr>"
  have o: "qlen ?st i = qlen st i" if "i \<in> {..<DP_NMINOR} - {m}" for i
    using that min_inv_rdq(2) [OF assms, of i] by (auto simp: qlen_def split: option.splits)
  have m: "qlen ?st m = length xs" "qlen st m = length (d_wq st q)"
    using assms(3) by (simp_all add: qlen_def)
  have fin: "finite {..<DP_NMINOR}" "m \<in> {..<DP_NMINOR}" using assms(2) by auto
  have "sum (qlen ?st) ({..<DP_NMINOR} - {m}) = sum (qlen st) ({..<DP_NMINOR} - {m})"
    using o by (intro sum.cong) auto
  then show ?thesis
    using sum.remove [OF fin, of "qlen ?st"] sum.remove [OF fin, of "qlen st"] m by linarith
qed

lemma wq_sum_fields:
  assumes "d_min st' = d_min st" "d_wq st' = d_wq st"
  shows "qlen st' i = qlen st i"
  using assms by (simp add: qlen_def cong: option.case_cong)

lemma min_inv_wq:
  assumes "min_inv st" "m < DP_NMINOR" "min_rdq (d_min st ! m) = Some q"
  shows "min_inv (st\<lparr>d_wq := (d_wq st)(q := xs)\<rparr>)"
proof -
  have "\<forall>q'. d_qptr st q' = None \<longrightarrow> ((d_wq st)(q := xs)) q' = []"
    using assms(1) min_inv_rdq(1) [OF assms] by (auto simp: min_inv_def)
  then show ?thesis using assms(1) unfolding min_inv_def by simp
qed

lemma next_minor: "n < DP_NMINOR \<Longrightarrow>
  (if Suc n \<ge> DP_NMINOR then 0 else Suc n) = (n + 1) mod DP_NMINOR"
  by (cases "n = 7") (auto simp: DP_NMINOR_def)

lemma en_wloop_inv:
  assumes "scsi_core st" "d_active st" "min_inv st" "wq_inv st" "d_up st"
  shows "scsi_core (en_wloop t st) \<and> d_active (en_wloop t st) \<and> min_inv (en_wloop t st) \<and>
    wq_inv (en_wloop t st) \<and> d_up (en_wloop t st) \<and> d_reinit (en_wloop t st) = d_reinit st \<and>
    (d_txlen st \<noteq> 0 \<longrightarrow> d_txlen (en_wloop t st) = d_txlen st) \<and>
    ((\<exists>k. 1 \<le> k \<and> k \<le> t \<and> qlen st ((d_nextmin st + k) mod DP_NMINOR) \<noteq> 0) \<longrightarrow>
       d_txlen (en_wloop t st) \<noteq> 0)"
  using assms
proof (induction t arbitrary: st)
  case 0
  then show ?case by simp
next
  case (Suc t)
  define m where "m = (d_nextmin st + 1) mod DP_NMINOR"
  have nx: "(if Suc (d_nextmin st) \<ge> DP_NMINOR then 0 else Suc (d_nextmin st)) = m"
    unfolding m_def using Suc.prems(3) by (intro next_minor) (simp add: min_inv_def)
  have m8: "m < DP_NMINOR" by (simp add: m_def DP_NMINOR_def)
  define st1 where "st1 = st\<lparr>d_nextmin := m\<rparr>"
  have ql: "qlen st1 i = qlen st i" for i by (rule wq_sum_fields) (simp_all add: st1_def)
  have i1: "scsi_core st1" "d_active st1" "min_inv st1" "wq_inv st1" "d_up st1"
  proof -
    show "scsi_core st1" using Suc.prems(1) by (subst scsi_core_fields [of _ st]) (simp_all add: st1_def)
    show "min_inv st1" using Suc.prems(3) m8 by (simp add: st1_def min_inv_def)
    show "wq_inv st1" using Suc.prems(4) by (simp add: wq_inv_def ql) (simp add: st1_def)
    show "d_active st1" "d_up st1" using Suc.prems by (simp_all add: st1_def)
  qed
  show ?case
  proof (cases "d_wqcnt st = 0")
    case True
    have "qlen st i = 0" if "i < DP_NMINOR" for i
      using Suc.prems(4) True that by (simp add: wq_inv_def)
    then have "qlen st ((d_nextmin st + k) mod DP_NMINOR) = 0" for k
      by (simp add: DP_NMINOR_def)
    then show ?thesis using True Suc.prems by simp
  next
    case cnt: False
    show ?thesis
    proof (cases "qlen st m = 0")
      case True
      have loop: "en_wloop (Suc t) st = en_wloop t st1"
        using cnt True nx
        by (auto simp: Let_def st1_def qlen_def split: option.splits list.splits)
      have ex: "\<exists>k. 1 \<le> k \<and> k \<le> t \<and> qlen st1 ((d_nextmin st1 + k) mod DP_NMINOR) \<noteq> 0"
        if k: "1 \<le> k" "k \<le> Suc t" "qlen st ((d_nextmin st + k) mod DP_NMINOR) \<noteq> 0" for k
      proof -
        have "k \<noteq> 1" using True k(3) by (auto simp: m_def)
        moreover have "(m + (k - 1)) mod DP_NMINOR = (d_nextmin st + k) mod DP_NMINOR"
          using k(1) mod_add_left_eq [of "d_nextmin st + 1" DP_NMINOR "k - 1"]
          unfolding m_def by simp
        ultimately show ?thesis
          using k by (intro exI [of _ "k - 1"]) (auto simp: ql, auto simp: st1_def)
      qed
      show ?thesis
        using Suc.IH [OF i1] ex unfolding loop by (auto simp: st1_def)
    next
      case False
      then obtain q mp rest where q: "min_rdq (d_min st ! m) = Some q" "d_wq st q = mp # rest"
        by (auto simp: qlen_def neq_Nil_conv split: option.splits)
      define st2 where "st2 = st1\<lparr>d_wq := (d_wq st1)(q := rest)\<rparr>"
      obtain r st3 where x: "dp_xmit mp st2 = (r, st3)" by fastforce
      note xf = dp_xmit_fields [OF x]
      have q1: "min_rdq (d_min st1 ! m) = Some q" using q by (simp add: st1_def)
      have i2: "scsi_core st2" "min_inv st2" "d_active st2" "d_up st2"
        using i1 min_inv_wq [OF i1(3) m8 q1] by (auto simp: st2_def scsi_core_def)
      have mp: "14 \<le> mlen mp" "mlen mp \<le> 1514" using Suc.prems(4) q(2) by (auto simp: wq_inv_def dest: spec [of _ q])
      show ?thesis
      proof (cases "d_txlen st = 0")
        case True
        have tx: "d_txlen st2 = 0" using True by (simp add: st2_def st1_def)
        have r: r and st: "d_txlen st3 \<noteq> 0"
          using dp_xmit_stages [OF i2(1) tx i2(4) mp x] by auto
        let ?st4 = "st3\<lparr>d_wqcnt := d_wqcnt st3 - 1\<rparr>"
        have "en_wloop (Suc t) st = en_wloop t (st3\<lparr>d_wqcnt := d_wqcnt st3 - 1\<rparr>)"
          using cnt nx q x r by (simp add: Let_def st1_def st2_def)
        moreover have "scsi_core ?st4"
          using dp_xmit_core [OF i2(1) x] by (subst scsi_core_fields [of _ st3]) simp_all
        moreover have "min_inv ?st4"
          using i2(2) xf by (subst min_wq_fields(1) [of _ "st2\<lparr>d_wqcnt := d_wqcnt st3 - 1\<rparr>"]) (simp_all add: min_inv_def)
        moreover have "wq_inv ?st4"
        proof -
          have "(\<Sum>i < DP_NMINOR. qlen st2 i) + length (d_wq st1 q) = (\<Sum>i < DP_NMINOR. qlen st1 i) + length rest"
            unfolding st2_def by (rule wq_sum [OF i1(3) m8 q1])
          moreover have "qlen ?st4 i = qlen st2 i" for i
            by (rule wq_sum_fields) (simp_all add: xf)
          moreover have "14 \<le> mlen mp' \<and> mlen mp' \<le> 1514" if "mp' \<in> set (d_wq st2 q')" for q' mp'
            using Suc.prems(4) q(2) that
            by (cases "q' = q") (auto simp: wq_inv_def st2_def st1_def dest: spec [of _ q] spec [of _ q'])
          ultimately show ?thesis
            using i1(4) xf q(2) by (auto simp: wq_inv_def) (simp_all add: st2_def st1_def)
        qed
        moreover have "d_active ?st4" "d_up ?st4" using dp_xmit_result(2) [OF x] i2 xf by simp_all
        ultimately show ?thesis
          using Suc.IH [of ?st4] st xf True by (simp add: st2_def st1_def)
      next
        case False
        then have r: "\<not> r" using dp_xmit_result(3) [OF x] by (auto simp: st2_def st1_def)
        then have "st3 = st2" using dp_xmit_result(1) [OF x] by simp
        then have "en_wloop (Suc t) st = st2\<lparr>d_wq := (d_wq st2)(q := mp # d_wq st2 q)\<rparr>"
          using cnt nx q x r by (simp add: Let_def st1_def st2_def)
        also have "\<dots> = st1" using q by (simp add: st2_def st1_def fun_upd_idem)
        finally show ?thesis using i1 False by (simp add: st1_def)
      qed
    qed
  qed
qed

lemma en_wproc_inv:
  assumes "scsi_core st" "d_active st" "min_inv st" "wq_inv st" "d_up st"
  shows "scsi_core (en_wproc st)" "d_active (en_wproc st)" "min_inv (en_wproc st)"
    "wq_inv (en_wproc st)" "d_up (en_wproc st)" "d_reinit (en_wproc st) = d_reinit st"
    "d_wqcnt st \<noteq> 0 \<Longrightarrow> d_txlen (en_wproc st) \<noteq> 0"
proof -
  note w = en_wloop_inv [OF assms, of "2 * DP_NMINOR"]
  show "scsi_core (en_wproc st)" "d_active (en_wproc st)" "min_inv (en_wproc st)"
    "wq_inv (en_wproc st)" "d_up (en_wproc st)" "d_reinit (en_wproc st) = d_reinit st"
    using w by (simp_all add: en_wproc_def)
  assume "d_wqcnt st \<noteq> 0"
  then have "(\<Sum>i < DP_NMINOR. qlen st i) \<noteq> 0"
    using assms(4) unfolding wq_inv_def by metis
  then have "\<not> (\<forall>i \<in> {..<DP_NMINOR}. qlen st i = 0)"
    by (rule contrapos_nn) (rule sum.neutral)
  then obtain i where i: "i < DP_NMINOR" "qlen st i \<noteq> 0" by auto
  have n: "d_nextmin st < DP_NMINOR" using assms(3) by (simp add: min_inv_def)
  have "\<exists>k. 1 \<le> k \<and> k \<le> 2 * DP_NMINOR \<and> (d_nextmin st + k) mod DP_NMINOR = i"
  proof (cases "d_nextmin st < i")
    case True
    then show ?thesis using i n by (intro exI [of _ "i - d_nextmin st"]) auto
  next
    case False
    then have "(d_nextmin st + (i + DP_NMINOR - d_nextmin st)) mod DP_NMINOR = i"
      using i n by simp
    then show ?thesis using i n False
      by (intro exI [of _ "i + DP_NMINOR - d_nextmin st"]) auto
  qed
  then show "d_txlen (en_wproc st) \<noteq> 0"
    using w i(2) unfolding en_wproc_def by blast
qed

section \<open>Receiving\<close>

text \<open>What the receive loop may change: the log, and the request to reset the adapter.\<close>

definition rx_change :: "dpst \<Rightarrow> dpst \<Rightarrow> bool" where
  "rx_change st st' \<longleftrightarrow> (\<exists>st1. log_only st st1 \<and>
     (st' = st1 \<or> st' = st1\<lparr>d_rxwant := False, d_reinit := 2\<rparr>))"

lemma rx_change_trans: "log_only st st1 \<Longrightarrow> rx_change st1 st2 \<Longrightarrow> rx_change st st2"
  unfolding rx_change_def by (blast intro: log_only_trans)

lemma rx_change_log: "log_only st st1 \<Longrightarrow> rx_change st st1"
  unfolding rx_change_def by blast

lemma dp_rxloop_change:
  "dp_rxloop env h got st = Some (g, st') \<Longrightarrow> rx_change st st'"
proof (induction "DP_RXASK - h" arbitrary: h got st rule: less_induct)
  case less
  let ?rx = "d_rx st"
  let ?n = "g16 ?rx h"
  let ?h' = "h + 6 + nat ?n"
  have IH: "rx_change st st'" if "?n \<noteq> 0" "?h' + 6 \<le> DP_RXASK"
    "dp_rxloop env ?h' (Suc got) s = Some (g, st')" "log_only st s" for s
    using less.hyps [of ?h' "Suc got" s] that g16_bounds [of ?rx h]
    by (intro rx_change_trans [OF that(4)]) auto
  have reset: "rx_change st (st\<lparr>d_rxwant := False, d_reinit := 2, d_ierrors := e\<rparr>)" for e
    unfolding rx_change_def by (intro exI [of _ "st\<lparr>d_ierrors := e\<rparr>"]) (simp add: log_only_1)
  have del: "log_only st (en_rproc env f ((snd (allocb env st))\<lparr>d_ipackets := e\<rparr>))" for f e
    by (rule log_only_trans [OF log_only_trans [OF log_only_allocb log_only_1(4)] log_only_rproc])
  have drop1: "log_only st ((snd (allocb env st))\<lparr>d_ierrors := e\<rparr>)" for e
    by (rule log_only_trans [OF log_only_allocb log_only_1(3)])
  obtain r st1 where a: "(if ?n - 4 \<ge> 14 then allocb env st else (False, st)) = (r, st1)" by fastforce
  then have st1: "r \<Longrightarrow> st1 = snd (allocb env st)" "st1 = snd (allocb env st) \<or> st1 = st"
    by (auto split: if_splits)
  have d1: "log_only st (st1\<lparr>d_ierrors := e\<rparr>)" for e
    using st1(2) drop1 log_only_1(3) by auto
  have d2: "r \<Longrightarrow> log_only st (en_rproc env f (st1\<lparr>d_ipackets := e\<rparr>))" for f e
    using st1(1) del by simp
  show ?case
    using less.prems
    unfolding dp_rxloop.simps [of env h got st] Let_def a prod.case
    by (cases r) (auto intro: IH reset rx_change_log d1 d2 split: if_splits)
qed

lemma rx_change_fields:
  assumes "rx_change st st'"
  shows "d_wqcnt st' = d_wqcnt st" "d_txlen st' = d_txlen st" "d_active st' = d_active st"
    "d_busy st' = d_busy st" "d_up st' = d_up st" "d_reinit st' = d_reinit st \<or> d_reinit st' = 2"
    "d_rx st' = d_rx st" "d_tx st' = d_tx st" "d_min st' = d_min st" "d_qptr st' = d_qptr st"
    "d_wq st' = d_wq st" "d_enaddr st' = d_enaddr st" "d_running st' = d_running st"
    "d_jq st' = d_jq st" "d_abuf st' = d_abuf st" "d_pollq st' = d_pollq st"
    "d_nextmin st' = d_nextmin st"
  using assms by (auto simp: rx_change_def log_only_def)

lemma rx_change_core:
  assumes "rx_change st st'" "scsi_core st" "\<not> d_busy st"
  shows "scsi_core st'"
proof -
  have "scsi_core st' = scsi_core (st\<lparr>d_reinit := d_reinit st'\<rparr>)"
    by (rule scsi_core_fields) (simp_all add: rx_change_fields [OF assms(1)])
  moreover have "scsi_core (st\<lparr>d_reinit := d_reinit st'\<rparr>)"
    using assms(2,3) rx_change_fields(6) [OF assms(1)] by (auto simp: scsi_core_def)
  ultimately show ?thesis by simp
qed

text \<open>
  The adapter's promise, at most two frames a command: the header behind the first frame does
  not announce a third.
\<close>

definition two_frames :: "byte list \<Rightarrow> bool" where
  "two_frames rx \<longleftrightarrow> (let n = g16 rx 0 in
     n \<noteq> 0 \<and> n \<le> 1524 \<and> rx ! 5 AND 0x10 \<noteq> 0 \<longrightarrow> rx ! (nat n + 11) AND 0x10 = 0)"

lemma dp_rxloop_last:
  assumes "length (d_rx st) = 3100" "h \<le> 1530" "d_rx st ! (h + 5) AND 0x10 = 0"
  shows "dp_rxloop env h got st \<noteq> None"
  using assms
  unfolding dp_rxloop.simps [of env h got st] Let_def
  by (auto split: prod.splits bool.splits)

lemma dp_rxloop_defined:
  assumes len: "length (d_rx st) = 3100" and two: "two_frames (d_rx st)"
  shows "dp_rxloop env 0 0 st \<noteq> None"
proof -
  have step: "dp_rxloop env (6 + nat (g16 (d_rx st) 0)) 1 s \<noteq> None"
    if "d_rx s = d_rx st" "g16 (d_rx st) 0 \<noteq> 0" "g16 (d_rx st) 0 \<le> 1524" "d_rx st ! 5 AND 0x10 \<noteq> 0" for s
    using that len two by (intro dp_rxloop_last) (simp_all add: two_frames_def Let_def add.commute)
  have rx: "d_rx (snd (allocb env st)) = d_rx st" by (simp add: allocb_def)
  have rx2: "d_rx (en_rproc env f s) = d_rx s" for f s
    by (rule log_only_fields [OF log_only_rproc])
  show ?thesis
    using len step
    unfolding dp_rxloop.simps [of env 0 0 st] Let_def
    by (auto simp: allocb_def rx2 split: prod.splits bool.splits if_splits)
qed

section \<open>Completion\<close>

text \<open>
  In the middle of a completion: the finished command is off the queue, the buffer not yet
  free for the next.
\<close>

lemma scsi_core_unbusy:
  "scsi_core st \<Longrightarrow> scsi_core (st\<lparr>d_busy := False, d_jq := []\<rparr>)"
  by (auto simp: scsi_core_def)

lemma dp_kick_finish:
  assumes "scsi_core st" "min_inv st" "wq_inv st" "d_wqcnt st \<noteq> 0 \<longrightarrow> d_txlen st \<noteq> 0"
  shows "dp_inv (dp_start_head f (dp_kick False st))"
proof -
  have "d_up (dp_kick False st) \<and> (d_txlen (dp_kick False st) \<noteq> 0 \<or> d_reinit (dp_kick False st) \<noteq> 0) \<longrightarrow>
      d_busy (dp_kick False st)"
    using dp_kick_busy [of st False] by simp
  then have "scsi_rest (dp_start_head f (dp_kick False st))"
    using dp_start_head_rest dp_kick_core [OF assms(1)] by blast
  moreover have "min_inv (dp_start_head f (dp_kick False st))" "wq_inv (dp_start_head f (dp_kick False st))"
    using assms(2,3) min_wq_fields [of "dp_start_head f (dp_kick False st)" st] by simp_all
  ultimately show ?thesis using assms(4) by (simp add: dp_inv_def)
qed

definition mid_inv :: "dpst \<Rightarrow> bool" where
  "mid_inv st \<longleftrightarrow> scsi_core st \<and> \<not> d_busy st \<and> d_active st \<and> d_up st \<and> min_inv st \<and> wq_inv st \<and>
     (d_wqcnt st \<noteq> 0 \<longrightarrow> d_txlen st \<noteq> 0)"

lemma dp_reset_step_mid: "mid_inv st \<Longrightarrow> mid_inv (dp_reset_step env st)"
  using min_wq_fields [of "dp_reset_step env st" st]
  by (auto simp: mid_inv_def dp_reset_step_def Let_def scsi_core_def)

lemma dp_count_err_mid: "mid_inv st \<Longrightarrow> mid_inv (dp_count_err err st)"
  using min_wq_fields [of "dp_count_err err st" st]
  by (auto simp: mid_inv_def dp_count_err_def scsi_core_def)

lemma dp_tx_done_core:
  assumes m: "mid_inv st"
  shows "scsi_core (dp_tx_done err st) \<and> min_inv (dp_tx_done err st) \<and> wq_inv (dp_tx_done err st) \<and>
    (d_wqcnt (dp_tx_done err st) \<noteq> 0 \<longrightarrow> d_txlen (dp_tx_done err st) \<noteq> 0)"
proof -
  define s2 where "s2 = (if err then (st\<lparr>d_txlen := 0\<rparr>)\<lparr>d_oerrors := d_oerrors st + 1\<rparr>
                      else (st\<lparr>d_txlen := 0\<rparr>)\<lparr>d_opackets := d_opackets st + 1\<rparr>)"
  define s3 where "s3 = (if d_wqcnt s2 \<noteq> 0 then en_wproc s2 else s2)"
  have e: "dp_tx_done err st = s3\<lparr>d_rxwant := True\<rparr>"
    by (simp add: dp_tx_done_def Let_def s3_def s2_def)
  have c2: "scsi_core s2" using m by (auto simp: mid_inv_def s2_def scsi_core_def)
  have m2: "min_inv s2" "wq_inv s2" "d_active s2" "d_up s2"
    using m min_wq_fields [of s2 st] by (simp_all add: mid_inv_def s2_def)
  note w = en_wproc_inv [OF c2 m2(3,1,2,4)]
  have c3: "scsi_core s3" "min_inv s3" "wq_inv s3" "d_wqcnt s3 \<noteq> 0 \<longrightarrow> d_txlen s3 \<noteq> 0"
    using w c2 m2 by (simp_all add: s3_def)
  have "scsi_core (s3\<lparr>d_rxwant := True\<rparr>)"
    by (rule iffD1 [OF scsi_core_fields, rotated -1, OF c3(1)]) simp_all
  then show ?thesis
    using c3 min_wq_fields [of "s3\<lparr>d_rxwant := True\<rparr>" s3] unfolding e by simp
qed

lemma dp_rx_done_core:
  assumes m: "mid_inv st" and d: "dp_rx_done env st = Some st'"
  shows "scsi_core st' \<and> min_inv st' \<and> wq_inv st' \<and> (d_wqcnt st' \<noteq> 0 \<longrightarrow> d_txlen st' \<noteq> 0)"
proof -
  obtain got s where l: "dp_rxloop env 0 0 st = Some (got, s)"
    using d by (auto simp: dp_rx_done_def split: option.splits)
  have st': "st' = s\<lparr>d_rxwant := d_rxwant st', d_idle := d_idle st'\<rparr>"
    using d l by (auto simp: dp_rx_done_def)
  note rx = dp_rxloop_change [OF l]
  note rf = rx_change_fields [OF rx]
  define s' where "s' = s\<lparr>d_rxwant := d_rxwant st', d_idle := d_idle st'\<rparr>"
  have "scsi_core s" using rx_change_core [OF rx] m by (simp add: mid_inv_def)
  then have "scsi_core s'"
    by (rule iffD1 [OF scsi_core_fields, rotated -1]) (simp_all add: s'_def)
  moreover have "min_inv s'" "wq_inv s'" "d_wqcnt s' \<noteq> 0 \<longrightarrow> d_txlen s' \<noteq> 0"
    using m rf min_wq_fields [of s' st] by (simp_all add: mid_inv_def s'_def)
  moreover have "st' = s'" using st' by (simp add: s'_def)
  ultimately show ?thesis by simp
qed

lemma dp_async_done_inv:
  assumes m: "mid_inv (st\<lparr>d_busy := False\<rparr>)" and d: "dp_async_done env err st = Some st'"
  shows "dp_inv (dp_start_head f st')"
proof -
  let ?s = "st\<lparr>d_busy := False\<rparr>"
  note f = dp_kick_finish
  have 1: "dp_inv (dp_start_head f (dp_kick False (dp_reset_step env ?s)))"
    using dp_reset_step_mid [OF m] by (intro f) (simp_all add: mid_inv_def)
  note c = dp_count_err_mid [OF m, of err]
  have 2: "dp_inv (dp_start_head f (dp_kick False (dp_tx_done err (dp_count_err err ?s))))"
    using dp_tx_done_core [OF c] by (intro f) simp_all
  have 3: "dp_inv (dp_start_head f (dp_kick False s))"
    if "dp_rx_done env (dp_count_err err ?s) = Some s" for s
    using dp_rx_done_core [OF c that] by (intro f) simp_all
  have 4: "dp_inv (dp_start_head f (dp_kick False ((dp_count_err err ?s)\<lparr>d_rxwant := False, d_ierrors := e\<rparr>)))" for e
    using c scsi_core_fields [of "(dp_count_err err ?s)\<lparr>d_rxwant := False, d_ierrors := e\<rparr>" "dp_count_err err ?s"]
      min_wq_fields [of "(dp_count_err err ?s)\<lparr>d_rxwant := False, d_ierrors := e\<rparr>" "dp_count_err err ?s"]
    by (intro f) (simp_all add: mid_inv_def)
  show ?thesis
    using d 1 2 3 4 by (auto simp: dp_async_done_def Let_def split: if_splits option.splits)
qed

lemma dp_async_done_defined:
  assumes "length (d_rx st) = 3100" "two_frames (d_rx st)"
  shows "dp_async_done env err st \<noteq> None"
proof -
  have "d_rx (dp_count_err err (st\<lparr>d_busy := False\<rparr>)) = d_rx st"
    by (simp add: dp_count_err_def)
  then have "dp_rxloop env 0 0 (dp_count_err err (st\<lparr>d_busy := False\<rparr>)) \<noteq> None"
    using assms by (intro dp_rxloop_defined) simp_all
  then show ?thesis
    by (auto simp: dp_async_done_def dp_rx_done_def Let_def split: option.splits)
qed

section \<open>The kernel's events\<close>

lemma dp_inv_D:
  assumes "dp_inv st"
  shows "scsi_rest st" "scsi_core st" "min_inv st" "wq_inv st" "d_wqcnt st \<noteq> 0 \<longrightarrow> d_txlen st \<noteq> 0"
    "d_active st = d_busy st" "d_jq st = (if d_busy st then [ABUF] else [])"
    "d_up st \<and> (d_txlen st \<noteq> 0 \<or> d_reinit st \<noteq> 0) \<longrightarrow> d_busy st" "d_up st = d_running st"
    "length (d_rx st) = 3100" "d_busy st \<Longrightarrow> \<not> jb_done (d_abuf st)" "d_busy st \<Longrightarrow> d_up st"
proof -
  show a: "scsi_rest st" "scsi_core st" "min_inv st" "wq_inv st" "d_wqcnt st \<noteq> 0 \<longrightarrow> d_txlen st \<noteq> 0"
    "d_active st = d_busy st" "d_up st \<and> (d_txlen st \<noteq> 0 \<or> d_reinit st \<noteq> 0) \<longrightarrow> d_busy st"
    using assms by (simp_all add: dp_inv_def scsi_rest_def)
  show "d_jq st = (if d_busy st then [ABUF] else [])" "d_up st = d_running st"
    "length (d_rx st) = 3100" "d_busy st \<Longrightarrow> \<not> jb_done (d_abuf st)" "d_busy st \<Longrightarrow> d_up st"
    using a(2) unfolding scsi_core_def by blast+
qed

text \<open>What \<open>dprx\<close> holds when the command in flight ends.\<close>

definition rx_after :: "bool \<Rightarrow> byte list \<Rightarrow> dpst \<Rightarrow> byte list" where
  "rx_after err d st =
    (if jb_addr (d_abuf st) = DpRx \<and> \<not> err then put_at (d_rx st) 0 (take DP_RXASK d) else d_rx st)"

lemma length_rx_after: "length (d_rx st) = 3100 \<Longrightarrow> length (rx_after err d st) = 3100"
  by (auto simp: rx_after_def put_at_def DP_RXASK_def)

definition terminated :: "bool \<Rightarrow> byte list \<Rightarrow> dpst \<Rightarrow> dpst" where
  "terminated err d st = st\<lparr>d_jq := [], d_abuf := (d_abuf st)\<lparr>jb_done := True, jb_error := err\<rparr>,
     d_rx := rx_after err d st\<rparr>"

lemma terminated_mid:
  assumes i: "dp_inv st" and b: "d_busy st"
  shows "mid_inv ((terminated err d st)\<lparr>d_busy := False\<rparr>)"
proof -
  let ?s = "(terminated err d st)\<lparr>d_busy := False\<rparr>"
  note D = dp_inv_D [OF i]
  have "scsi_core ?s"
    using D(2) length_rx_after by (auto simp: scsi_core_def terminated_def)
  moreover have "min_inv ?s" "wq_inv ?s"
    using D(3,4) min_wq_fields [of ?s st] by (simp_all add: terminated_def)
  ultimately show ?thesis
    using D(5,6) D(12) [OF b] b by (simp add: mid_inv_def terminated_def)
qed

lemma sj_terminate_busy:
  assumes i: "dp_inv st" and b: "d_busy st"
  shows "sj_terminate env err d st =
    map_option (dp_start_head True) (dp_async_done env err (terminated err d st))"
  using dp_inv_D(7) [OF i] b
  by (simp add: sj_terminate_def dpSTART_def Let_def terminated_def rx_after_def split: option.splits)

lemma sj_terminate_inv:
  assumes i: "dp_inv st" and b: "d_busy st" and t: "sj_terminate env err d st = Some st'"
  shows "dp_inv st'"
  using t dp_async_done_inv [OF terminated_mid [OF i b]]
  unfolding sj_terminate_busy [OF i b] by (auto split: option.splits)

lemma dp_retry_inv:
  assumes i: "dp_inv st" and a: "d_active st" "d_jq st \<noteq> []"
  shows "dpSTART env False st = Some (dp_start_head False st) \<and> dp_inv (dp_start_head False st)"
proof -
  note D = dp_inv_D [OF i]
  have "dpSTART env False st = Some (dp_start_head False st)"
    using D(11) by (auto simp: dpSTART_def)
  moreover have "scsi_rest (dp_start_head False st)"
    using D(2,8) by (rule dp_start_head_rest)
  moreover have "min_inv (dp_start_head False st)" "wq_inv (dp_start_head False st)"
    using D(3,4) min_wq_fields [of "dp_start_head False st" st] by simp_all
  ultimately show ?thesis using D(5) by (simp add: dp_inv_def)
qed

lemma enrsrv_inv:
  assumes i: "dp_inv st" shows "dp_inv (enrsrv st)"
proof -
  note D = dp_inv_D [OF i]
  let ?s = "st\<lparr>d_rxwant := True\<rparr>"
  have "scsi_core ?s" using D(2) by (rule iffD1 [OF scsi_core_fields, rotated -1]) simp_all
  then have "scsi_rest (dp_kick True ?s)" using D(6) by (intro dp_kick_rest) simp_all
  moreover have "min_inv (dp_kick True ?s)" "wq_inv (dp_kick True ?s)"
    using D(3,4) min_wq_fields [of "dp_kick True ?s" st] by simp_all
  ultimately show ?thesis using D(5) by (simp add: enrsrv_def dp_inv_def)
qed

text \<open>Changing a minor, its streams left as they are.\<close>

lemma min_update_inv:
  assumes i: "dp_inv st" and m: "m < DP_NMINOR"
    and sap: "s = DL_IDLE \<Longrightarrow> \<forall>j < DP_NMINOR. j \<noteq> m \<longrightarrow>
      \<not> (min_state (d_min st ! j) = DL_IDLE \<and> min_sap (d_min st ! j) = x)"
  shows "dp_inv (st\<lparr>d_min := (d_min st)[m := (d_min st ! m)\<lparr>min_state := s, min_sap := x\<rparr>]\<rparr>)"
proof -
  let ?s = "st\<lparr>d_min := (d_min st)[m := (d_min st ! m)\<lparr>min_state := s, min_sap := x\<rparr>]\<rparr>"
  note D = dp_inv_D [OF i]
  have len: "length (d_min st) = DP_NMINOR" using D(3) by (simp add: min_inv_def)
  have rdq: "min_rdq (d_min ?s ! j) = min_rdq (d_min st ! j)" if "j < DP_NMINOR" for j
    using that len by (cases "j = m") simp_all
  have "qptr_ok (d_min ?s) (d_qptr ?s)"
    using D(3) rdq by (auto simp: min_inv_def qptr_ok_def)
  moreover have "i = j" if "i < DP_NMINOR" "j < DP_NMINOR" "min_state (d_min ?s ! i) = DL_IDLE"
      "min_state (d_min ?s ! j) = DL_IDLE" "min_sap (d_min ?s ! i) = min_sap (d_min ?s ! j)" for i j
    using that len D(3) sap
    by (cases "i = m"; cases "j = m") (auto simp: min_inv_def)
  ultimately have "min_inv ?s"
    using D(3) rdq unfolding min_inv_def by auto
  moreover have "qlen ?s j = qlen st j" if "j < DP_NMINOR" for j
    using rdq [OF that] by (simp add: qlen_def cong: option.case_cong)
  then have "wq_inv ?s" using D(4) by (simp add: wq_inv_def)
  moreover have "scsi_rest ?s"
    using D(1,2) scsi_core_fields [of ?s st] by (simp add: scsi_rest_def)
  ultimately show ?thesis using D(5) by (simp add: dp_inv_def)
qed

lemma find_minor_Some:
  "find_minor P ms = Some i \<Longrightarrow> i < DP_NMINOR \<and> P (ms ! i)"
  by (auto simp: find_minor_def dest: find_SomeD)

lemma find_minor_None:
  "find_minor P ms = None \<longleftrightarrow> (\<forall>i < DP_NMINOR. \<not> P (ms ! i))"
  by (auto simp: find_minor_def find_None_iff)

lemma en_bind_inv:
  assumes i: "dp_inv st" and m: "m < DP_NMINOR"
  shows "dp_inv (en_bind env q m mp sap st)"
proof -
  let ?s = "st\<lparr>d_min := (d_min st)[m := (d_min st ! m)\<lparr>min_state := DL_IDLE, min_sap := sap\<rparr>]\<rparr>"
  have b: "dp_inv ?s" if "find_minor (\<lambda>x. min_state x = DL_IDLE \<and> min_sap x = sap) (d_min st) = None"
    using that i m by (intro min_update_inv) (auto simp: find_minor_None)
  have e: "dp_inv (en_error_ack env q mp p e u st)" for p e u
    using i dp_inv_log_only [OF log_only_error_ack] by simp
  obtain r st2 where r: "en_reuse env mp 30 ?s = (r, st2)" by fastforce
  have "dp_inv (en_error_ack env q mp p e u st2)" "dp_inv (putnext q x st2)" if "dp_inv ?s" for p e u x
    using that dp_inv_log_only [OF log_only_trans [OF log_only_reuse [OF r] log_only_error_ack]]
      dp_inv_log_only [OF log_only_trans [OF log_only_reuse [OF r] log_only_putnext]] by simp_all
  then show ?thesis
    using b e r by (auto simp: en_bind_def Let_def split: option.splits)
qed

lemma en_unbind_inv:
  assumes i: "dp_inv st" and m: "m < DP_NMINOR"
  shows "dp_inv (en_unbind env q m mp st)"
proof -
  let ?s = "st\<lparr>d_min := (d_min st)[m := (d_min st ! m)\<lparr>min_state := DL_UNBOUND, min_sap := 0\<rparr>]\<rparr>"
  have b: "dp_inv ?s" using i m by (intro min_update_inv) auto
  have e: "dp_inv (en_error_ack env q mp p e u st)" for p e u
    using i dp_inv_log_only [OF log_only_error_ack] by simp
  obtain r st2 where r: "en_reuse env mp 8 ?s = (r, st2)" by fastforce
  have "dp_inv (en_error_ack env q mp p e u st2)" "dp_inv (putnext q x st2)" for p e u x
    using b dp_inv_log_only [OF log_only_trans [OF log_only_reuse [OF r] log_only_error_ack]]
      dp_inv_log_only [OF log_only_trans [OF log_only_reuse [OF r] log_only_putnext]] by simp_all
  then show ?thesis
    using e r by (auto simp: en_unbind_def Let_def split: option.splits)
qed

lemma put_frame_inv:
  assumes i: "dp_inv st" and up: "d_up st"
    and m: "m < DP_NMINOR" "min_rdq (d_min st ! m) = Some q"
    and l: "14 \<le> mlen hp" "mlen hp \<le> 1514"
  shows "d_wqcnt st \<noteq> 0 \<Longrightarrow>
      dp_inv (st\<lparr>d_wq := (d_wq st)(q := d_wq st q @ [hp]), d_wqcnt := Suc (d_wqcnt st)\<rparr>)"
    "d_wqcnt st = 0 \<Longrightarrow> dp_xmit hp st = (True, s) \<Longrightarrow> dp_inv s"
    "dp_xmit hp st = (False, s) \<Longrightarrow>
      dp_inv (s\<lparr>d_wq := (d_wq s)(q := d_wq s q @ [hp]), d_wqcnt := Suc (d_wqcnt s)\<rparr>)"
proof -
  note D = dp_inv_D [OF i]
  have q: "dp_inv (st\<lparr>d_wq := (d_wq st)(q := d_wq st q @ [hp]), d_wqcnt := Suc (d_wqcnt st)\<rparr>)"
    if tx: "d_txlen st \<noteq> 0"
  proof -
    let ?s = "st\<lparr>d_wq := (d_wq st)(q := d_wq st q @ [hp]), d_wqcnt := Suc (d_wqcnt st)\<rparr>"
    let ?s1 = "st\<lparr>d_wq := (d_wq st)(q := d_wq st q @ [hp])\<rparr>"
    have "min_inv ?s1" by (rule min_inv_wq [OF D(3) m])
    then have "min_inv ?s" by (simp add: min_inv_def)
    moreover have "wq_inv ?s"
    proof -
      have "(\<Sum>i < DP_NMINOR. qlen ?s1 i) + length (d_wq st q) =
          (\<Sum>i < DP_NMINOR. qlen st i) + length (d_wq st q @ [hp])"
        by (rule wq_sum [OF D(3) m])
      moreover have "qlen ?s i = qlen ?s1 i" for i by (rule wq_sum_fields) simp_all
      ultimately show ?thesis using D(4) l by (auto simp: wq_inv_def)
    qed
    moreover have "scsi_rest ?s"
      using D(1,2) scsi_core_fields [of ?s st] by (simp add: scsi_rest_def)
    ultimately show ?thesis using tx by (simp add: dp_inv_def)
  qed
  show "d_wqcnt st \<noteq> 0 \<Longrightarrow>
      dp_inv (st\<lparr>d_wq := (d_wq st)(q := d_wq st q @ [hp]), d_wqcnt := Suc (d_wqcnt st)\<rparr>)"
    using q D(5) by simp
  show "dp_inv (s\<lparr>d_wq := (d_wq s)(q := d_wq s q @ [hp]), d_wqcnt := Suc (d_wqcnt s)\<rparr>)"
    if x: "dp_xmit hp st = (False, s)"
    using dp_xmit_result(1) [OF x] up q by simp
  show "dp_inv s" if w: "d_wqcnt st = 0" and x: "dp_xmit hp st = (True, s)"
  proof -
    note xf = dp_xmit_fields [OF x]
    have "min_inv s" "wq_inv s" using D(3,4) xf min_wq_fields [of s st] by simp_all
    then show ?thesis using dp_xmit_rest [OF D(1) x] xf w by (simp add: dp_inv_def)
  qed
qed

lemma en_unitdata_inv:
  assumes i: "dp_inv st" and up: "d_up st"
    and m: "m < DP_NMINOR" "min_rdq (d_min st ! m) = Some q"
    and l: "sum_list (map length (mb_cont mp)) \<le> 1500"
    and u: "en_unitdata env q q m mp off st = Some st'"
  shows "dp_inv st'"
proof -
  let ?dst = "take 6 (drop off (mb_data mp))"
  let ?s1 = "en_echo env q mp ?dst st"
  let ?s2 = "snd (allocb env ?s1)"
  have lo: "log_only st ?s2"
    by (rule log_only_trans [OF log_only_echo log_only_allocb])
  have i2: "dp_inv ?s2" using dp_inv_log_only [OF lo] i by simp
  note lf = log_only_fields [OF lo]
  have up2: "d_up ?s2" and m2: "min_rdq (d_min ?s2 ! m) = Some q" using up m(2) lf by simp_all
  have e1: "dp_inv (en_uderror_ind q mp e st)" "dp_inv (en_uderror_ind q mp e ?s2)" for e
    using i i2 dp_inv_log_only [OF log_only_putnext] by (simp_all add: en_uderror_ind_def)
  have en: "length (d_enaddr ?s1) = 6"
    using i log_only_fields(12) [OF log_only_echo] by (simp add: dp_inv_def min_inv_def)
  define hp where "hp = data_mblk (?dst @ d_enaddr ?s1 @
      [word_of_int (drop_bit 8 (min_sap (d_min ?s1 ! m))), word_of_int (min_sap (d_min ?s1 ! m))]) (mb_cont mp)"
  have hl: "14 \<le> mlen hp" "mlen hp \<le> 1514" if "off + 6 \<le> length (mb_data mp)"
    using that l en by (simp_all add: hp_def mlen_def data_mblk_def)
  note p = put_frame_inv [OF i2 up2 m(1) m2 hl]
  show ?thesis
    using u e1 p
    by (cases "n_alloc env (d_allocs ?s1)"; cases "dp_xmit hp ?s2")
      (auto simp: en_unitdata_def Let_def allocb_def hp_def [symmetric] split: if_splits bool.splits)
qed

lemma en_proto_inv:
  assumes i: "dp_inv st"
    and l: "\<And>off. mb_prim mp = DL_UNITDATA_REQ off \<Longrightarrow> sum_list (map length (mb_cont mp)) \<le> 1500"
    and p: "en_proto env q mp st = Some st'"
  shows "dp_inv st'"
proof -
  note D = dp_inv_D [OF i]
  obtain m r where m: "d_qptr st q = Some m" "min_rdq (d_min st ! m) = Some r"
    using p by (auto simp: en_proto_def split: option.splits)
  then have m8: "m < DP_NMINOR" "r = q"
    using D(3) by (auto simp: min_inv_def qptr_ok_def)
  have e: "dp_inv (en_error_ack env q mp x y z st)" "dp_inv (en_info env q m mp st)" for x y z
    using i dp_inv_log_only [OF log_only_error_ack] dp_inv_log_only [OF log_only_info] by simp_all
  have u: "dp_inv st'" if "d_running st" "mb_prim mp = DL_UNITDATA_REQ off" "en_unitdata env q q m mp off st = Some st'" for off
    using en_unitdata_inv [OF i _ m8(1) _ l [OF that(2)] that(3)] that(1) D(9) m m8(2) by simp
  show ?thesis
    using p m m8 e u en_bind_inv [OF i m8(1)] en_unbind_inv [OF i m8(1)] i
    by (auto simp: en_proto_def split: if_splits dlmsg.splits)
qed

lemma dp_linit_cases:
  "\<exists>a b c d. dp_linit env st = st\<lparr>d_jobs := a, d_job := b, d_scmds := c, d_data := d\<rparr> \<or>
    (\<not> d_running st \<and> (\<exists>e f g. length e = 6 \<and> dp_linit env st = st\<lparr>d_jobs := a, d_job := b, d_scmds := c, d_data := d,
      d_enaddr := e, d_running := True, d_idle := 0, d_reinit := 0, d_errs := 0, d_settle := f,
      d_up := True, d_timer := g\<rparr>))"
proof -
  have ch: "\<exists>a b c d. st\<lparr>d_jobs := a, d_job := b, d_scmds := c, d_data := d\<rparr> = s"
    if "s = st" for s st :: dpst
    using that by (intro exI [of _ "d_jobs st"] exI [of _ "d_job st"] exI [of _ "d_scmds st"] exI [of _ "d_data st"]) simp
  define same where "same = (\<lambda>s s' :: dpst. \<exists>a b c d. s' = s\<lparr>d_jobs := a, d_job := b, d_scmds := c, d_data := d\<rparr>)"
  have refl: "same s s" for s using ch [of s s] unfolding same_def by metis
  have tr: "same x y \<Longrightarrow> same y z \<Longrightarrow> same x z" for x y z
    unfolding same_def by (elim exE, hypsubst, simp) blast
  have cmd: "same s (snd (dpcmd env x y z s))" for s x y z
  proof -
    have "snd (dpcmd env x y z s) = s\<lparr>d_jobs := d_jobs s, d_job := d_job s,
        d_scmds := d_scmds (snd (dpcmd env x y z s)), d_data := d_data (snd (dpcmd env x y z s))\<rparr>"
      by (simp add: dpcmd_def split: prod.splits)
    then show ?thesis unfolding same_def by blast
  qed
  have cmd2: "dpcmd env x y z s = (r, s') \<Longrightarrow> same s s'" for s s' r x y z
    using cmd [of s x y z] by simp
  have mac: "linit_mac env t s = (r, s') \<Longrightarrow> same s s'" for t s s' r
  proof (induction t arbitrary: s)
    case 0
    obtain r1 s1 where 1: "dpcmd env 0x09 0 22 s = (r1, s1)" by fastforce
    obtain r2 s2 where 2: "dpcmd env 0x09 0 18 s1 = (r2, s2)" by fastforce
    obtain r3 s3 where 3: "dpcmd env 0x0E 0 0 s2 = (r3, s3)" by fastforce
    have "same s s1" "same s s2" "same s s3" using cmd2 [OF 1] cmd2 [OF 2] cmd2 [OF 3] tr by blast+
    then show ?case using 0 1 2 3 by (cases r1; cases r2) (auto simp: linit_mac.simps [of env 0 s])
  next
    case (Suc t)
    obtain r1 s1 where 1: "dpcmd env 0x09 0 22 s = (r1, s1)" by fastforce
    obtain r2 s2 where 2: "dpcmd env 0x09 0 18 s1 = (r2, s2)" by fastforce
    have "same s s1" "same s s2" using cmd2 [OF 1] cmd2 [OF 2] tr by blast+
    then show ?case
      using Suc.prems Suc.IH [of s2] tr 1 2
      by (cases r1; cases r2) (auto simp: linit_mac.simps [of env "Suc t" s])
  qed
  have find: "same s (snd (dpfind s))" for s
  proof -
    have "snd (dpfind s) = s\<lparr>d_jobs := d_jobs (snd (dpfind s)), d_job := d_job (snd (dpfind s)),
        d_scmds := d_scmds s, d_data := d_data s\<rparr>"
      by (simp add: dpfind_def split: option.splits)
    then show ?thesis unfolding same_def by blast
  qed
  show ?thesis
  proof (cases "d_running st")
    case True
    then show ?thesis using refl [of st] by (auto simp: dp_linit_def same_def)
  next
    case False
    obtain t s1 where 1: "(if d_job st = None then dpfind st else (d_job st, st)) = (t, s1)" by fastforce
    have s1: "same st s1" using 1 find [of st] refl by (auto split: if_splits simp: prod_eq_iff)
    obtain r s2 where 2: "dpcmd env 0x0E 0x80 0 s1 = (r, s2)" by fastforce
    obtain r3 s3 where 3: "linit_mac env 100 s2 = (r3, s3)" by fastforce
    have s3: "same st s2" "same st s3" using s1 cmd2 [OF 2] mac [OF 3] tr by blast+
    define upd where "upd = (\<lambda>s :: dpst. s\<lparr>d_enaddr := map (\<lambda>i. d_data s ! i) [0..<6],
        d_running := True, d_idle := 0, d_reinit := 0, d_errs := 0, d_settle := d_lbolt s, d_up := True,
        d_timer := Some (cdiv (n_hz env) 10)\<rparr>)"
    have "dp_linit env st = (case t of None \<Rightarrow> s1 | Some _ \<Rightarrow> if r then s2 else if \<not> r3 then s3 else upd s3)"
      using False 2 3 unfolding dp_linit_def 1 upd_def by (cases t; cases r; cases r3) simp_all
    then have "same st (dp_linit env st) \<or> dp_linit env st = upd s3"
      using s1 s3 by (cases t; cases r; cases r3) simp_all
    then show ?thesis
    proof
      assume "same st (dp_linit env st)"
      then show ?thesis unfolding same_def by blast
    next
      assume a: "dp_linit env st = upd s3"
      obtain a b c d where s3': "s3 = st\<lparr>d_jobs := a, d_job := b, d_scmds := c, d_data := d\<rparr>"
        using s3(2) unfolding same_def by blast
      have "length (map (\<lambda>i. d_data s3 ! i) [0..<6]) = 6" by simp
      moreover have "upd s3 = st\<lparr>d_jobs := a, d_job := b, d_scmds := c, d_data := d,
        d_enaddr := map (\<lambda>i. d_data s3 ! i) [0..<6], d_running := True, d_idle := 0, d_reinit := 0,
        d_errs := 0, d_settle := d_lbolt s3, d_up := True, d_timer := Some (cdiv (n_hz env) 10)\<rparr>"
        by (simp add: upd_def s3')
      ultimately show ?thesis using a False by metis
    qed
  qed
qed

lemma dp_linit_fields:
  "d_min (dp_linit env st) = d_min st" "d_qptr (dp_linit env st) = d_qptr st"
  "d_wq (dp_linit env st) = d_wq st" "d_wqcnt (dp_linit env st) = d_wqcnt st"
  "d_pollq (dp_linit env st) = d_pollq st" "d_nextmin (dp_linit env st) = d_nextmin st"
  "d_txlen (dp_linit env st) = d_txlen st"
  using dp_linit_cases [of env st] by auto

lemma dp_linit_inv:
  assumes i: "dp_inv st" shows "dp_inv (dp_linit env st)"
proof -
  note D = dp_inv_D [OF i]
  have "length (d_enaddr (dp_linit env st)) = 6"
    using D(3) dp_linit_cases [of env st] by (auto simp: min_inv_def)
  then have "min_inv (dp_linit env st)"
    using D(3) by (simp add: min_inv_def dp_linit_fields)
  moreover have "wq_inv (dp_linit env st)"
    using D(4) wq_sum_fields [of "dp_linit env st" st] by (simp add: wq_inv_def dp_linit_fields)
  moreover have "scsi_rest (dp_linit env st)"
  proof -
    obtain a b c d where "dp_linit env st = st\<lparr>d_jobs := a, d_job := b, d_scmds := c, d_data := d\<rparr> \<or>
      (\<not> d_running st \<and> (\<exists>e f g. dp_linit env st = st\<lparr>d_jobs := a, d_job := b, d_scmds := c, d_data := d,
        d_enaddr := e, d_running := True, d_idle := 0, d_reinit := 0, d_errs := 0, d_settle := f,
        d_up := True, d_timer := g\<rparr>))"
      using dp_linit_cases [of env st] by blast
    then show ?thesis
    proof (elim disjE conjE exE)
      assume a: "dp_linit env st = st\<lparr>d_jobs := a, d_job := b, d_scmds := c, d_data := d\<rparr>"
      show ?thesis
        using D(1) scsi_core_fields [of "dp_linit env st" st] by (simp add: a scsi_rest_def)
    next
      fix e f g
      assume r: "\<not> d_running st" and a: "dp_linit env st = st\<lparr>d_jobs := a, d_job := b, d_scmds := c, d_data := d,
        d_enaddr := e, d_running := True, d_idle := 0, d_reinit := 0, d_errs := 0, d_settle := f,
        d_up := True, d_timer := g\<rparr>"
      have "d_txlen st = 0" "\<not> d_busy st" using D(2,9) D(12) r by (auto simp: scsi_core_def)
      then show ?thesis
        using D(1,2,6) by (auto simp: a scsi_rest_def scsi_core_def)
    qed
  qed
  ultimately show ?thesis using D(5) by (simp add: dp_inv_def dp_linit_fields)
qed

text \<open>A minor taken by a new stream, and one given up.\<close>

lemma min_open_inv:
  assumes i: "dp_inv st" and m: "m < DP_NMINOR" "min_rdq (d_min st ! m) = None"
    and q: "d_qptr st q = None"
  shows "dp_inv (st\<lparr>d_qptr := (d_qptr st)(q := Some m),
     d_min := (d_min st)[m := \<lparr>min_rdq = Some q, min_state = DL_UNBOUND, min_sap = 0\<rparr>],
     d_pollq := (if d_pollq st = None then Some q else d_pollq st)\<rparr>)"
proof -
  let ?s = "st\<lparr>d_qptr := (d_qptr st)(q := Some m),
     d_min := (d_min st)[m := \<lparr>min_rdq = Some q, min_state = DL_UNBOUND, min_sap = 0\<rparr>],
     d_pollq := (if d_pollq st = None then Some q else d_pollq st)\<rparr>"
  note D = dp_inv_D [OF i]
  have len: "length (d_min st) = DP_NMINOR" and qk: "qptr_ok (d_min st) (d_qptr st)"
    and wq0: "d_wq st q = []" using D(3) q by (simp_all add: min_inv_def)
  have no: "min_rdq (d_min st ! j) \<noteq> Some q" if "j < DP_NMINOR" for j
    using qk q that unfolding qptr_ok_def by (metis option.distinct(1))
  have "qptr_ok (d_min ?s) (d_qptr ?s)"
    unfolding qptr_ok_def
  proof (intro allI)
    fix q' m'
    show "d_qptr ?s q' = Some m' \<longleftrightarrow> m' < DP_NMINOR \<and> min_rdq (d_min ?s ! m') = Some q'"
      using qk [unfolded qptr_ok_def, rule_format, of q' m']
        qk [unfolded qptr_ok_def, rule_format, of q' m] m len no [of m']
      by (cases "m' = m"; cases "q' = q") simp_all
  qed
  moreover have "qlen ?s j = qlen st j" if "j < DP_NMINOR" for j
    using that len m wq0 by (cases "j = m") (simp_all add: qlen_def cong: option.case_cong)
  then have "wq_inv ?s" using D(4) by (simp add: wq_inv_def)
  moreover have "j = k" if "j < DP_NMINOR" "k < DP_NMINOR" "min_state (d_min ?s ! j) = DL_IDLE"
      "min_state (d_min ?s ! k) = DL_IDLE" "min_sap (d_min ?s ! j) = min_sap (d_min ?s ! k)" for j k
    using that len D(3) by (cases "j = m"; cases "k = m") (auto simp: min_inv_def)
  ultimately have "min_inv ?s" "wq_inv ?s"
    using D(3) unfolding min_inv_def by auto
  moreover have "scsi_rest ?s"
    using D(1,2) scsi_core_fields [of ?s st] by (simp add: scsi_rest_def)
  ultimately show ?thesis using D(5) by (simp add: dp_inv_def)
qed

lemma enopen_inv:
  assumes i: "dp_inv st"
    and g: "sf = DEVOPEN \<Longrightarrow> d_qptr st q = None \<Longrightarrow> 0 \<le> minor \<Longrightarrow> minor < int DP_NMINOR \<Longrightarrow>
      min_rdq (d_min st ! nat minor) = None"
  shows "dp_inv (snd (enopen env q minor sf st))"
proof -
  have o: "dp_inv (snd (enopen env q minor sf st))"
    if "m < DP_NMINOR" "min_rdq (d_min st ! m) = None" "d_qptr st q = None" "sf \<noteq> MODOPEN"
      "(if sf = CLONEOPEN then
                   (case find_minor (\<lambda>m. min_rdq m = None) (d_min st) of
                      None \<Rightarrow> Inl EN_ENOSPC | Some m \<Rightarrow> Inr m)
                 else if minor < 0 \<or> minor \<ge> int DP_NMINOR then Inl EN_EINVAL
                 else Inr (nat minor)) = Inr m" for m
    using min_open_inv [OF dp_linit_inv [OF i, of env], of m q] that
    unfolding enopen_def that(5) by (simp add: dp_linit_fields Let_def split del: if_split)
  show ?thesis
  proof (cases "sf = MODOPEN \<or> d_qptr st q \<noteq> None")
    case True
    then show ?thesis using i by (auto simp: enopen_def)
  next
    case F: False
    show ?thesis
    proof (cases "sf = CLONEOPEN")
      case True
      then show ?thesis
        using F i o find_minor_Some [of "\<lambda>m. min_rdq m = None" "d_min st"]
        by (cases "find_minor (\<lambda>m. min_rdq m = None) (d_min st)") (simp_all add: enopen_def)
    next
      case f: False
      show ?thesis
      proof (cases "minor < 0 \<or> minor \<ge> int DP_NMINOR")
        case True
        then show ?thesis using F f i by (simp add: enopen_def)
      next
        case False
        then show ?thesis
          using F f g o [of "nat minor"] by (cases sf) auto
      qed
    qed
  qed
qed

lemma enclose_inv:
  assumes i: "dp_inv st" and q: "d_qptr st q = Some m"
  shows "\<exists>st'. enclose q st = Some st' \<and> dp_inv st'"
proof -
  let ?w = "st\<lparr>d_wq := (d_wq st)(q := [])\<rparr>"
  let ?s = "st\<lparr>d_wqcnt := d_wqcnt st - length (d_wq st q), d_wq := (d_wq st)(q := []),
      d_qptr := (d_qptr st)(q := None),
      d_min := (d_min st)[m := \<lparr>min_rdq = None, min_state = DL_UNBOUND, min_sap = 0\<rparr>]\<rparr>"
  let ?p = "case find_minor (\<lambda>x. min_rdq x \<noteq> None) (d_min ?s) of
       None \<Rightarrow> None | Some i \<Rightarrow> min_rdq (d_min ?s ! i)"
  note D = dp_inv_D [OF i]
  have len: "length (d_min st) = DP_NMINOR" and qk: "qptr_ok (d_min st) (d_qptr st)"
    using D(3) by (simp_all add: min_inv_def)
  have m: "m < DP_NMINOR" "min_rdq (d_min st ! m) = Some q" using qk q by (auto simp: qptr_ok_def)
  note un = min_inv_rdq(2) [OF D(3) m]
  have qk': "qptr_ok (d_min ?s) (d_qptr ?s)"
    unfolding qptr_ok_def
  proof (intro allI)
    fix q' m'
    show "d_qptr ?s q' = Some m' \<longleftrightarrow> m' < DP_NMINOR \<and> min_rdq (d_min ?s ! m') = Some q'"
    proof (cases "m' = m")
      case True
      then show ?thesis
        using qk [unfolded qptr_ok_def, rule_format, of q' m] m len by (cases "q' = q") simp_all
    next
      case False
      then have e: "d_min ?s ! m' = d_min st ! m'" by simp
      show ?thesis
      proof (cases "q' = q")
        case True
        then have "d_qptr ?s q' = None" by simp
        moreover have "\<not> (m' < DP_NMINOR \<and> min_rdq (d_min ?s ! m') = Some q')"
          using un False True unfolding e by blast
        ultimately show ?thesis by simp
      next
        case False
        then show ?thesis
          using qk [unfolded qptr_ok_def, rule_format, of q' m'] unfolding e by simp
      qed
    qed
  qed
  have ql: "qlen ?s j = qlen ?w j" if "j < DP_NMINOR" for j
  proof (cases "j = m")
    case True
    then show ?thesis using len m by (simp add: qlen_def)
  next
    case False
    then have "min_rdq (d_min st ! j) \<noteq> Some q" using un that by blast
    then show ?thesis using False by (auto simp: qlen_def split: option.splits)
  qed
  have sum: "(\<Sum>j < DP_NMINOR. qlen ?w j) + length (d_wq st q) = (\<Sum>j < DP_NMINOR. qlen st j)"
    using wq_sum [OF D(3) m, of "[]"] by simp
  have wq: "wq_inv ?s"
    using D(4) sum ql by (auto simp: wq_inv_def)
  have sap: "j = k" if "j < DP_NMINOR" "k < DP_NMINOR" "min_state (d_min ?s ! j) = DL_IDLE"
      "min_state (d_min ?s ! k) = DL_IDLE" "min_sap (d_min ?s ! j) = min_sap (d_min ?s ! k)" for j k
    using that len D(3) by (cases "j = m"; cases "k = m") (auto simp: min_inv_def)
  have wq0: "d_qptr ?s q' = None \<Longrightarrow> d_wq ?s q' = []" for q'
    using D(3) by (auto simp: min_inv_def)
  have mi: "min_inv (?s\<lparr>d_pollq := pq\<rparr>)"
    if "pq = None \<longrightarrow> (\<forall>j < DP_NMINOR. min_rdq (d_min ?s ! j) = None)"
      "\<And>x. pq = Some x \<Longrightarrow> d_qptr ?s x \<noteq> None" for pq
    using that qk' sap wq0 len D(3) unfolding min_inv_def by auto
  have inv: "dp_inv (?s\<lparr>d_pollq := pq\<rparr>)"
    if "pq = None \<longrightarrow> (\<forall>j < DP_NMINOR. min_rdq (d_min ?s ! j) = None)"
      "\<And>x. pq = Some x \<Longrightarrow> d_qptr ?s x \<noteq> None" for pq
  proof -
    have "scsi_rest (?s\<lparr>d_pollq := pq\<rparr>)"
      using D(1,2) scsi_core_fields [of "?s\<lparr>d_pollq := pq\<rparr>" st] by (simp add: scsi_rest_def)
    moreover have "wq_inv (?s\<lparr>d_pollq := pq\<rparr>)"
      using wq wq_sum_fields [of "?s\<lparr>d_pollq := pq\<rparr>" ?s] by (simp add: wq_inv_def)
    ultimately show ?thesis using mi [OF that] D(5) by (simp add: dp_inv_def)
  qed
  show ?thesis
  proof (cases "d_pollq st = Some q")
    case True
    have "dp_inv (?s\<lparr>d_pollq := ?p\<rparr>)"
    proof (rule inv)
      show "?p = None \<longrightarrow> (\<forall>j < DP_NMINOR. min_rdq (d_min ?s ! j) = None)"
        using find_minor_Some [of "\<lambda>x. min_rdq x \<noteq> None" "d_min ?s"]
          find_minor_None [of "\<lambda>x. min_rdq x \<noteq> None" "d_min ?s"]
        by (auto split: option.splits)
    next
      fix x assume "?p = Some x"
      then obtain j where "j < DP_NMINOR" "min_rdq (d_min ?s ! j) = Some x"
        using find_minor_Some [of "\<lambda>x. min_rdq x \<noteq> None" "d_min ?s"] by (auto split: option.splits)
      then show "d_qptr ?s x \<noteq> None" using qk' unfolding qptr_ok_def by auto
    qed
    then show ?thesis using True q by (simp add: enclose_def Let_def)
  next
    case False
    have "?s = ?s\<lparr>d_pollq := d_pollq st\<rparr>" by simp
    moreover have "dp_inv (?s\<lparr>d_pollq := d_pollq st\<rparr>)"
    proof (rule inv)
      show "d_pollq st = None \<longrightarrow> (\<forall>j < DP_NMINOR. min_rdq (d_min ?s ! j) = None)"
        using D(3) m by (auto simp: min_inv_def)
      show "\<And>x. d_pollq st = Some x \<Longrightarrow> d_qptr ?s x \<noteq> None"
        using D(3) False by (auto simp: min_inv_def)
    qed
    ultimately show ?thesis using False q by (simp add: enclose_def Let_def)
  qed
qed

section \<open>Every event keeps the invariant\<close>

text \<open>
  The conditions on an event under which the invariant is kept: a request's destination lies
  in its first block and its data are within the announced \<open>dl_max_sdu\<close>; no write-side flush;
  the adapter answers a receive with at most two frames.
\<close>

definition dp_event_ok :: "dpst \<Rightarrow> dpevent \<Rightarrow> bool" where
  "dp_event_ok st ev =
    (case ev of
       EvPut q mp \<Rightarrow>
         (mb_type mp = M_FLUSH \<longrightarrow> (case mb_prim mp of FLUSH r w \<Rightarrow> \<not> w | _ \<Rightarrow> True)) \<and>
         (case mb_prim mp of
            DL_UNITDATA_REQ off \<Rightarrow>
              off + 6 \<le> length (mb_data mp) \<and> sum_list (map length (mb_cont mp)) \<le> 1500
          | _ \<Rightarrow> True)
     | EvDone err d \<Rightarrow> two_frames (rx_after err d st)
     | _ \<Rightarrow> True)"

lemma enwput_inv:
  assumes i: "dp_inv st" and ok: "dp_event_ok st (EvPut q mp)" and p: "enwput env q mp st = Some st'"
  shows "dp_inv st'"
proof -
  have pr: "dp_inv st'" if "en_proto env q mp st = Some st'"
    using ok that by (intro en_proto_inv [OF i]) (auto simp: dp_event_ok_def)
  have "dp_inv (en_ioctl env q mp st)" "dp_inv (putnext q x st)" for x
    using i dp_inv_log_only [OF log_only_ioctl] dp_inv_log_only [OF log_only_putnext] by simp_all
  then show ?thesis
    using p pr i ok
    by (cases "mb_type mp")
      (auto simp: enwput_def dp_event_ok_def split: dlmsg.splits if_splits)
qed

lemma en_proto_defined:
  assumes i: "dp_inv st" and ok: "dp_event_ok st (EvPut q mp)" and q: "d_qptr st q \<noteq> None"
  shows "en_proto env q mp st \<noteq> None"
proof -
  obtain m where m: "d_qptr st q = Some m" using q by blast
  then have r: "min_rdq (d_min st ! m) = Some q"
    using i by (auto simp: dp_inv_def min_inv_def qptr_ok_def)
  have "en_unitdata env q q m mp off st \<noteq> None" if "mb_prim mp = DL_UNITDATA_REQ off" for off
    using ok that by (auto simp: dp_event_ok_def en_unitdata_def Let_def split: prod.splits bool.splits)
  then show ?thesis using m r by (auto simp: en_proto_def split: dlmsg.splits)
qed

lemma dp_step_inv:
  assumes i: "dp_inv st" and ok: "dp_event_ok st ev"
  shows "\<exists>st'. dp_step env ev st = Some st' \<and> dp_inv st'"
proof (cases ev)
  case (EvPut q mp)
  show ?thesis
  proof (cases "d_qptr st q = None")
    case True
    then show ?thesis using i EvPut by (simp add: dp_step_def)
  next
    case False
    have "enwput env q mp st \<noteq> None"
      using en_proto_defined [OF i _ False] ok EvPut
      by (auto simp: enwput_def Let_def split: mtype.splits dlmsg.splits)
    then obtain st' where "enwput env q mp st = Some st'" by blast
    then show ?thesis
      using False EvPut enwput_inv [OF i] ok by (auto simp: dp_step_def)
  qed
next
  case EvService
  then show ?thesis using i enrsrv_inv [OF i] by (simp add: dp_step_def)
next
  case (EvDone err d)
  show ?thesis
  proof (cases "d_active st")
    case False
    then show ?thesis using i EvDone by (simp add: dp_step_def)
  next
    case True
    then have b: "d_busy st" using dp_inv_D(6) [OF i] by simp
    have "dp_async_done env err (terminated err d st) \<noteq> None"
      using dp_inv_D(10) [OF i] ok EvDone length_rx_after
      by (intro dp_async_done_defined) (simp_all add: terminated_def dp_event_ok_def)
    then obtain st' where "sj_terminate env err d st = Some st'"
      unfolding sj_terminate_busy [OF i b] by auto
    then show ?thesis
      using EvDone True sj_terminate_inv [OF i b] by (auto simp: dp_step_def)
  qed
next
  case EvRetry
  then show ?thesis using i dp_retry_inv [OF i, of env] by (auto simp: dp_step_def)
next
  case EvPoll
  have "dp_inv (dp_poll env st)"
  proof -
    define s where "s = dp_poll env st"
    have f: "s = st\<lparr>d_enabled := d_enabled s, d_timer := d_timer s\<rparr>"
      by (simp add: s_def dp_poll_def Let_def split: option.splits)
    have "dp_inv (st\<lparr>d_enabled := a, d_timer := b\<rparr>)" for a b
      using i scsi_core_fields [of "st\<lparr>d_enabled := a, d_timer := b\<rparr>" st]
        min_wq_fields [of "st\<lparr>d_enabled := a, d_timer := b\<rparr>" st]
      by (simp add: dp_inv_def scsi_rest_def)
    then have "dp_inv s" using f by metis
    then show ?thesis by (simp add: s_def)
  qed
  then show ?thesis using EvPoll by (simp add: dp_step_def)
next
  case EvTick
  have "dp_inv (st\<lparr>d_lbolt := x\<rparr>)" for x
    using i scsi_core_fields [of "st\<lparr>d_lbolt := x\<rparr>" st] min_wq_fields [of "st\<lparr>d_lbolt := x\<rparr>" st]
    by (simp add: dp_inv_def scsi_rest_def)
  then show ?thesis using EvTick by (simp add: dp_step_def)
next
  case (EvOpen q minor sf)
  then show ?thesis
    using i enopen_inv [OF i, of sf q minor env] by (auto simp: dp_step_def)
next
  case (EvClose q)
  then show ?thesis using i enclose_inv [OF i, of q] by (auto simp: dp_step_def)
qed

section \<open>Reachable states\<close>

text \<open>From the driver as loaded, on any bus and at any time, by events that are in order.\<close>

inductive dp_reach :: "denv \<Rightarrow> dpst \<Rightarrow> bool" for env where
  boot: "dp_reach env (dpstart (dp_static\<lparr>d_jobs := jobs, d_lbolt := t\<rparr>))"
| step: "dp_reach env st \<Longrightarrow> dp_event_ok st ev \<Longrightarrow> dp_step env ev st = Some st' \<Longrightarrow> dp_reach env st'"

inductive_cases dp_reachE: "dp_reach env st"

lemma dp_inv_boot: "dp_inv (dpstart (dp_static\<lparr>d_jobs := jobs, d_lbolt := t\<rparr>))"
  by (simp add: dpstart_def dp_static_def dp_inv_def scsi_rest_def scsi_core_def min_inv_def
      wq_inv_def qlen_def qptr_ok_def DP_NMINOR_def)

lemma dp_reach_inv: "dp_reach env st \<Longrightarrow> dp_inv st"
proof (induction rule: dp_reach.induct)
  case (boot jobs t)
  show ?case by (rule dp_inv_boot)
next
  case (step st ev st')
  then show ?case using dp_step_inv [of st ev env] by auto
qed

section \<open>Draining the write queues\<close>

lemma en_wloop_count:
  assumes "scsi_core st" "d_active st" "min_inv st" "wq_inv st" "d_up st"
  shows "(d_txlen st \<noteq> 0 \<longrightarrow> d_wqcnt (en_wloop t st) = d_wqcnt st) \<and>
    (d_txlen st = 0 \<and> d_txlen (en_wloop t st) \<noteq> 0 \<longrightarrow> Suc (d_wqcnt (en_wloop t st)) = d_wqcnt st)"
  using assms
proof (induction t arbitrary: st)
  case 0
  then show ?case by simp
next
  case (Suc t)
  define m where "m = (d_nextmin st + 1) mod DP_NMINOR"
  have nx: "(if Suc (d_nextmin st) \<ge> DP_NMINOR then 0 else Suc (d_nextmin st)) = m"
    unfolding m_def using Suc.prems(3) by (intro next_minor) (simp add: min_inv_def)
  have m8: "m < DP_NMINOR" by (simp add: m_def DP_NMINOR_def)
  define st1 where "st1 = st\<lparr>d_nextmin := m\<rparr>"
  have ql: "qlen st1 i = qlen st i" for i by (rule wq_sum_fields) (simp_all add: st1_def)
  have i1: "scsi_core st1" "d_active st1" "min_inv st1" "wq_inv st1" "d_up st1"
  proof -
    show "scsi_core st1" using Suc.prems(1) by (subst scsi_core_fields [of _ st]) (simp_all add: st1_def)
    show "min_inv st1" using Suc.prems(3) m8 by (simp add: st1_def min_inv_def)
    show "wq_inv st1" using Suc.prems(4) by (simp add: wq_inv_def ql) (simp add: st1_def)
    show "d_active st1" "d_up st1" using Suc.prems by (simp_all add: st1_def)
  qed
  show ?case
  proof (cases "d_wqcnt st = 0 \<or> qlen st m = 0")
    case True
    then have loop: "en_wloop (Suc t) st = (if d_wqcnt st = 0 then st else en_wloop t st1)"
      using nx by (auto simp: Let_def st1_def qlen_def split: option.splits list.splits)
    show ?thesis using Suc.IH [OF i1] unfolding loop by (auto simp: st1_def)
  next
    case False
    then obtain q mp rest where q: "min_rdq (d_min st ! m) = Some q" "d_wq st q = mp # rest"
      and cnt: "d_wqcnt st \<noteq> 0"
      by (auto simp: qlen_def neq_Nil_conv split: option.splits)
    define st2 where "st2 = st1\<lparr>d_wq := (d_wq st1)(q := rest)\<rparr>"
    obtain r st3 where x: "dp_xmit mp st2 = (r, st3)" by fastforce
    note xf = dp_xmit_fields [OF x]
    have q1: "min_rdq (d_min st1 ! m) = Some q" using q by (simp add: st1_def)
    have i2: "scsi_core st2" "min_inv st2" "d_active st2" "d_up st2"
      using i1 min_inv_wq [OF i1(3) m8 q1] by (auto simp: st2_def scsi_core_def)
    have mp: "14 \<le> mlen mp" "mlen mp \<le> 1514" using Suc.prems(4) q(2) by (auto simp: wq_inv_def dest: spec [of _ q])
    show ?thesis
    proof (cases "d_txlen st = 0")
      case True
      have tx: "d_txlen st2 = 0" using True by (simp add: st2_def st1_def)
      have r: r and st: "d_txlen st3 \<noteq> 0"
        using dp_xmit_stages [OF i2(1) tx i2(4) mp x] by auto
      let ?st4 = "st3\<lparr>d_wqcnt := d_wqcnt st3 - 1\<rparr>"
      have "en_wloop (Suc t) st = en_wloop t ?st4"
        using cnt nx q x r by (simp add: Let_def st1_def st2_def)
      moreover have "scsi_core ?st4"
        using dp_xmit_core [OF i2(1) x] by (subst scsi_core_fields [of _ st3]) simp_all
      moreover have "min_inv ?st4"
        using i2(2) xf by (subst min_wq_fields(1) [of _ "st2\<lparr>d_wqcnt := d_wqcnt st3 - 1\<rparr>"]) (simp_all add: min_inv_def)
      moreover have "wq_inv ?st4"
      proof -
        have "(\<Sum>i < DP_NMINOR. qlen st2 i) + length (d_wq st1 q) = (\<Sum>i < DP_NMINOR. qlen st1 i) + length rest"
          unfolding st2_def by (rule wq_sum [OF i1(3) m8 q1])
        moreover have "qlen ?st4 i = qlen st2 i" for i
          by (rule wq_sum_fields) (simp_all add: xf)
        moreover have "14 \<le> mlen mp' \<and> mlen mp' \<le> 1514" if "mp' \<in> set (d_wq st2 q')" for q' mp'
          using Suc.prems(4) q(2) that
          by (cases "q' = q") (auto simp: wq_inv_def st2_def st1_def dest: spec [of _ q] spec [of _ q'])
        ultimately show ?thesis
          using i1(4) xf q(2) by (auto simp: wq_inv_def) (simp_all add: st2_def st1_def)
      qed
      moreover have "d_active ?st4" "d_up ?st4" using dp_xmit_result(2) [OF x] i2 xf by simp_all
      ultimately show ?thesis
        using Suc.IH [of ?st4] st xf True cnt by (simp add: st2_def st1_def)
    next
      case False
      then have r: "\<not> r" using dp_xmit_result(3) [OF x] by (auto simp: st2_def st1_def)
      then have "st3 = st2" using dp_xmit_result(1) [OF x] by simp
      then show ?thesis
        using cnt nx q x r False by (simp add: Let_def st1_def st2_def)
    qed
  qed
qed

text \<open>Frames on their way: queued, or staged.\<close>

definition frames_left :: "dpst \<Rightarrow> nat" where
  "frames_left st = d_wqcnt st + (if d_txlen st = 0 then 0 else 1)"

lemma dp_tx_done_drains:
  assumes m: "mid_inv st" and t: "d_txlen st \<noteq> 0"
  shows "Suc (frames_left (dp_tx_done err st)) = frames_left st"
proof -
  define s2 where "s2 = (if err then (st\<lparr>d_txlen := 0\<rparr>)\<lparr>d_oerrors := d_oerrors st + 1\<rparr>
                      else (st\<lparr>d_txlen := 0\<rparr>)\<lparr>d_opackets := d_opackets st + 1\<rparr>)"
  define s3 where "s3 = (if d_wqcnt s2 \<noteq> 0 then en_wproc s2 else s2)"
  have e: "dp_tx_done err st = s3\<lparr>d_rxwant := True\<rparr>"
    by (simp add: dp_tx_done_def Let_def s3_def s2_def)
  have c2: "scsi_core s2" using m by (auto simp: mid_inv_def s2_def scsi_core_def)
  have m2: "min_inv s2" "wq_inv s2" "d_active s2" "d_up s2"
    using m min_wq_fields [of s2 st] by (simp_all add: mid_inv_def s2_def)
  have s2: "d_txlen s2 = 0" "d_wqcnt s2 = d_wqcnt st" by (simp_all add: s2_def)
  note w = en_wproc_inv [OF c2 m2(3,1,2,4)]
  show ?thesis
    using w(7) en_wloop_count [OF c2 m2(3,1,2,4), of "2 * DP_NMINOR"] s2 t
    by (auto simp: e s3_def frames_left_def en_wproc_def)
qed

lemma frames_left_kick [simp]:
  "frames_left (dp_start_head f st) = frames_left st" "frames_left (dp_kick b st) = frames_left st"
  by (simp_all add: frames_left_def)

lemma drop_bit_DPCMD:
  "drop_bit 8 (DPCMD 0x0A 0) = 0x0A" "drop_bit 8 (DPCMD 0x08 DP_RXMODE) = 0x08"
  "drop_bit 8 (DPCMD 0x0E 0x80) = 0x0E" "drop_bit 8 (DPCMD 0x0E 0) = 0x0E"
  by (simp_all add: DPCMD_def DP_RXMODE_def)

lemma busy_abuf: "dp_inv st \<Longrightarrow> d_busy st \<Longrightarrow> abuf_ok (d_reinit st) (d_txlen st) (d_abuf st)"
  by (simp add: dp_inv_def scsi_rest_def scsi_core_def)

lemma tx_done_drains:
  assumes i: "dp_inv st" and b: "d_busy st" "jb_addr (d_abuf st) = DpTx"
    and s: "dp_step env (EvDone err d) st = Some st'"
  shows "Suc (frames_left st') = frames_left st"
proof -
  note a = busy_abuf [OF i b(1)]
  have opc: "drop_bit 8 (jb_blkno (d_abuf (terminated err d st))) = 0x0A" and t: "d_txlen st \<noteq> 0"
    using a b(2) by (simp_all add: abuf_ok_def terminated_def drop_bit_DPCMD)
  let ?m = "dp_count_err err ((terminated err d st)\<lparr>d_busy := False\<rparr>)"
  have m: "mid_inv ?m" by (rule dp_count_err_mid [OF terminated_mid [OF i b(1)]])
  have f: "frames_left ?m = frames_left st" "d_txlen ?m = d_txlen st"
    by (simp_all add: frames_left_def dp_count_err_def terminated_def)
  have "st' = dp_start_head True (dp_kick False (dp_tx_done err ?m))"
    using s b(1) dp_inv_D(6) [OF i] sj_terminate_busy [OF i b(1)] opc
    by (simp add: dp_step_def dp_async_done_def Let_def)
  then show ?thesis using dp_tx_done_drains [OF m] f t by simp
qed

section \<open>Resetting the adapter\<close>

lemma reset_step:
  assumes i: "dp_inv st" and r: "d_reinit st \<noteq> 0" "d_up st"
  shows "\<exists>st'. dp_step env (EvDone err d) st = Some st' \<and> d_reinit st' = d_reinit st - 1 \<and>
    d_busy st \<and> jb_blkno (d_abuf st) = DPCMD 0x0E (if d_reinit st = 1 then 0x80 else 0) \<and>
    d_txlen st' = d_txlen st \<and> d_wq st' = d_wq st"
proof -
  have b: "d_busy st" using dp_inv_D(8) [OF i] r by simp
  have "jb_addr (d_abuf st) = DpData" using busy_abuf [OF i b] r by (auto simp: abuf_ok_def split: dpmem.splits)
  then have a: "jb_blkno (d_abuf st) = DPCMD 0x0E (if d_reinit st = 1 then 0x80 else 0)"
    using busy_abuf [OF i b] by (simp add: abuf_ok_def)
  then have opc: "drop_bit 8 (jb_blkno (d_abuf (terminated err d st))) = 0x0E"
    by (simp add: terminated_def drop_bit_DPCMD)
  let ?s = "(terminated err d st)\<lparr>d_busy := False\<rparr>"
  have "dp_step env (EvDone err d) st = Some (dp_start_head True (dp_kick False (dp_reset_step env ?s)))"
    using b dp_inv_D(6) [OF i] sj_terminate_busy [OF i b] opc
    by (simp add: dp_step_def dp_async_done_def Let_def)
  moreover have "d_reinit (dp_start_head f x) = d_reinit x" for f x
    by (simp add: dp_start_head_def split: list.splits)
  ultimately show ?thesis
    using a b r by (simp add: dp_reset_step_def Let_def terminated_def)
qed

section \<open>Receiving what the adapter sends\<close>

text \<open>
  The multi-packet format: length with the CRC, three zero bytes, the flag that another frame
  follows, the frame, the CRC.
\<close>

fun rx_enc :: "(byte list \<times> byte list) list \<Rightarrow> byte list" where
  "rx_enc [] = [0, 0, 0, 0, 0, 0]"
| "rx_enc [(f, c)] = p16 (int (length f) + 4) @ [0, 0, 0, 0] @ f @ c"
| "rx_enc ((f, c) # g # fs) = p16 (int (length f) + 4) @ [0, 0, 0, 0x10] @ f @ c @ rx_enc (g # fs)"

text \<open>One frame taken from \<open>dprx\<close>.\<close>

definition rx_take :: "denv \<Rightarrow> byte list \<Rightarrow> dpst \<Rightarrow> dpst" where
  "rx_take env f st = en_rproc env f ((snd (allocb env st))\<lparr>d_ipackets := d_ipackets st + 1\<rparr>)"

lemma rx_take_rx [simp]: "d_rx (rx_take env f st) = d_rx st"
  using log_only_fields(7) [OF log_only_rproc] by (simp add: rx_take_def allocb_def)

lemma rx_header:
  assumes "d_rx st = pre @ p16 (int (length f) + 4) @ [0, 0, 0, x] @ f @ c @ rest"
    and "length f \<le> 1520" "length c = 4"
  shows "g16 (d_rx st) (length pre) = int (length f) + 4"
    "d_rx st ! (length pre + 2) = 0" "d_rx st ! (length pre + 5) = x"
    "length pre + 10 + length f \<le> length (d_rx st)"
    "take (length f) (drop (length pre + 6) (d_rx st)) = f"
  using assms by (simp_all add: be_simps cint_simps nth_append)

lemma dp_rxloop_step:
  assumes r: "d_rx st = pre @ p16 (int (length f) + 4) @ [0, 0, 0, x] @ f @ c @ rest"
    and f: "14 \<le> length f" "length f \<le> 1520" "length c = 4" and al: "\<And>k. n_alloc env k"
  shows "dp_rxloop env (length pre) got st =
    (if x AND 0x10 \<noteq> 0 \<and> length pre + 16 + length f \<le> DP_RXASK
     then dp_rxloop env (length pre + 10 + length f) (Suc got) (rx_take env f st)
     else Some (Suc got, rx_take env f st))"
proof -
  note h = rx_header [OF r f(2,3)]
  have n: "nat (int (length f) + 4) = length f + 4" "nat (int (length f) + 4 - 4) = length f"
    by simp_all
  have sums: "length pre + 6 + (length f + 4) = length pre + 10 + length f"
    "length pre + 10 + length f + 6 = length pre + 16 + length f" by simp_all
  have a: "allocb env st = (True, st\<lparr>d_allocs := Suc (d_allocs st)\<rparr>)"
    using al by (simp add: allocb_def)
  show ?thesis
    using f h
    unfolding dp_rxloop.simps [of env "length pre" got st] Let_def h(1) n
    by (simp add: a rx_take_def sums)
qed

lemma dp_rxloop_frames:
  assumes al: "\<And>k. n_alloc env k"
    and fs: "\<forall>(f, c) \<in> set fs. 14 \<le> length f \<and> length f \<le> 1520 \<and> length c = 4" "fs \<noteq> []"
    and r: "d_rx st = pre @ rx_enc fs @ rest" and len: "length pre + length (rx_enc fs) \<le> DP_RXASK"
  shows "dp_rxloop env (length pre) got st = Some (got + length fs, fold (\<lambda>(f, c). rx_take env f) fs st)"
  using fs r len
proof (induction fs arbitrary: pre got st rule: rx_enc.induct)
  case 1
  then show ?case by simp
next
  case (2 f c)
  then show ?case
    by (subst dp_rxloop_step [where f = f and c = c and x = 0 and rest = rest]) (simp_all add: al)
next
  case (3 f c g fs)
  let ?pre = "pre @ p16 (int (length f) + 4) @ [0, 0, 0, 0x10] @ f @ c"
  have l: "length (rx_enc (g # fs)) \<ge> 6"
    by (cases g; cases fs) auto
  have ge: "length pre + 16 + length f \<le> DP_RXASK" and lc: "length c = 4"
    using "3.prems" l by auto
  have 1: "dp_rxloop env (length ?pre) (Suc got) (rx_take env f st) =
      Some (Suc got + length (g # fs), fold (\<lambda>(f, c). rx_take env f) (g # fs) (rx_take env f st))"
    using "3.prems" by (intro "3.IH") auto
  have pl: "length ?pre = length pre + 10 + length f" using lc by simp
  have "dp_rxloop env (length pre) got st =
      (if (0x10 :: byte) AND 0x10 \<noteq> 0 \<and> length pre + 16 + length f \<le> DP_RXASK
       then dp_rxloop env (length pre + 10 + length f) (Suc got) (rx_take env f st)
       else Some (Suc got, rx_take env f st))"
    using "3.prems" by (intro dp_rxloop_step [where c = c and rest = "rx_enc (g # fs) @ rest"] al) auto
  then have "dp_rxloop env (length pre) got st =
      dp_rxloop env (length pre + 10 + length f) (Suc got) (rx_take env f st)"
    using ge by simp
  then show ?case using 1 unfolding pl by simp
qed

end
