(* ===== verification/DpProps.thy ===== *)
theory DpProps
  imports DpInv
begin

text \<open>
  The properties of the DaynaPORT driver, with instances on a bus that has one adapter and on
  runs of the driver from its load.
\<close>

section \<open>Helpers\<close>

lemma xmit_copy_over:
  assumes "len \<le> 1514" "len + sum_list (map length bs) > 1514"
  shows "fst (xmit_copy bs len tx) = -1"
  using assms by (induction bs arbitrary: len tx) auto

lemma dp_xmit_cases:
  assumes c: "scsi_core st"
  shows "dp_xmit mp st = (r, st') \<Longrightarrow>
    (if d_txlen st \<noteq> 0 \<or> \<not> d_up st then \<not> r \<and> st' = st
     else if 14 \<le> mlen mp \<and> mlen mp \<le> 1514 then
       r \<and> d_busy st' \<and> d_txlen st' = int (max 60 (mlen mp)) \<and> d_oerrors st' = d_oerrors st \<and>
       take (nat (d_txlen st')) (d_tx st') = mb_data mp @ concat (mb_cont mp) @ replicate (60 - mlen mp) 0
     else r \<and> d_txlen st' = 0 \<and> d_oerrors st' = d_oerrors st + 1)"
proof -
  assume x: "dp_xmit mp st = (r, st')"
  obtain len tx where l: "xmit_copy (mb_data mp # mb_cont mp) 0 (d_tx st) = (len, tx)" by fastforce
  have over: "len = -1" if "1514 < mlen mp"
    using xmit_copy_over [of 0 "mb_data mp # mb_cont mp" "d_tx st"] that l by (simp add: mlen_def)
  have fit: "len = int (mlen mp)" if "mlen mp \<le> 1514"
    using xmit_copy_fits [of 0 "mb_data mp # mb_cont mp" "d_tx st"] that l c
    by (simp add: mlen_def scsi_core_def)
  show ?thesis
  proof (cases "d_txlen st \<noteq> 0 \<or> \<not> d_up st")
    case True
    then show ?thesis using x by (simp add: dp_xmit_def)
  next
    case False
    have oe: "d_oerrors (dp_kick True s) = d_oerrors s" for s
      by (simp add: dp_kick_def dp_start_head_def Let_def split: option.splits list.splits)
    show ?thesis
    proof (cases "14 \<le> mlen mp \<and> mlen mp \<le> 1514")
      case True
      then show ?thesis
        using dp_xmit_stages [OF c _ _ _ _ x] False x l fit
        by (auto simp: dp_xmit_def oe split: if_splits)
    next
      case f: False
      then have "len < 14" using over fit by (cases "1514 < mlen mp") auto
      then show ?thesis using x l False f by (auto simp: dp_xmit_def)
    qed
  qed
qed

text \<open>A stream bound to a SAP gets the frames of that type.\<close>

lemma find_minor_unique:
  assumes "i < DP_NMINOR" "P (ms ! i)" "\<And>j. j < DP_NMINOR \<Longrightarrow> P (ms ! j) \<Longrightarrow> j = i"
  shows "find_minor P ms = Some i"
proof (cases "find_minor P ms")
  case None
  then have "\<not> P (ms ! i)" using assms(1) unfolding find_minor_None by blast
  then show ?thesis using assms(2) by contradiction
next
  case (Some j)
  then have "j = i" using find_minor_Some assms(3) by blast
  then show ?thesis using Some by simp
qed

lemma en_rproc_bound:
  assumes i: "min_inv st" and m: "m < DP_NMINOR" "min_rdq (d_min st ! m) = Some q"
    "min_state (d_min st ! m) = DL_IDLE" "min_sap (d_min st ! m) = g16 f 12"
    and ok: "n_alloc env (d_allocs st)" "n_canput env q (length (d_sent st))"
  shows "d_sent (en_rproc env f st) = d_sent st @ [(q, \<lparr>mb_type = M_PROTO,
     mb_prim = DL_UNITDATA_IND (take 6 f) (take 6 (drop 6 f)), mb_bufsz = 36, mb_own = True,
     mb_data = take 6 f @ take 6 (drop 6 f), mb_cont = [drop 14 f]\<rparr>)]"
proof -
  have "find_minor (\<lambda>x. min_sap x = g16 f 12 \<and> min_state x = DL_IDLE) (d_min st) = Some m"
    using i m by (intro find_minor_unique) (auto simp: min_inv_def)
  then show ?thesis
    using m ok by (simp add: en_rproc_def Let_def en_mkind_def allocb_def en_send_up_def putnext_def)
qed

lemma en_proto_bind_ack:
  assumes i: "dp_inv st" and q: "d_qptr st q = Some m" and run: "d_running st"
    and p: "mb_prim mp = DL_BIND_REQ sap"
    and ok: "min_state (d_min st ! m) = DL_UNBOUND"
      "\<forall>j < DP_NMINOR. \<not> (min_state (d_min st ! j) = DL_IDLE \<and> min_sap (d_min st ! j) = sap)"
      "mb_own mp \<and> 30 \<le> mb_bufsz mp \<or> n_alloc env (d_allocs st)"
  shows "\<exists>st' r. en_proto env q mp st = Some st' \<and> dp_inv st' \<and>
    d_sent st' = d_sent st @ [(q, r)] \<and> mb_prim r = DL_BIND_ACK sap (d_enaddr st) \<and>
    min_rdq (d_min st' ! m) = Some q \<and> min_state (d_min st' ! m) = DL_IDLE \<and>
    min_sap (d_min st' ! m) = sap"
proof -
  have m: "m < DP_NMINOR" "min_rdq (d_min st ! m) = Some q" and len: "length (d_min st) = DP_NMINOR"
    using i q by (auto simp: dp_inv_def min_inv_def qptr_ok_def)
  have e: "en_proto env q mp st = Some (en_bind env q m mp sap st)"
    using q m run p by (simp add: en_proto_def)
  have f: "find_minor (\<lambda>x. min_state x = DL_IDLE \<and> min_sap x = sap) (d_min st) = None"
    using ok(2) by (simp add: find_minor_None)
  define r where "r = (if mb_own mp \<and> mb_bufsz mp \<ge> 30 then mp\<lparr>mb_data := [], mb_cont := [], mb_type := M_PCPROTO\<rparr>
    else \<lparr>mb_type = M_PCPROTO, mb_prim = NoPrim, mb_bufsz = 30, mb_own = True, mb_data = [], mb_cont = []\<rparr>)
    \<lparr>mb_prim := DL_BIND_ACK sap (d_enaddr st), mb_data := d_enaddr st\<rparr>"
  have "d_sent (en_bind env q m mp sap st) = d_sent st @ [(q, r)]"
    "d_min (en_bind env q m mp sap st) = (d_min st)[m := (d_min st ! m)\<lparr>min_state := DL_IDLE, min_sap := sap\<rparr>]"
    using ok f by (auto simp: en_bind_def Let_def en_reuse_def allocb_def putnext_def r_def split: bool.splits)
  moreover have "mb_prim r = DL_BIND_ACK sap (d_enaddr st)" by (simp add: r_def)
  ultimately show ?thesis
    using e en_bind_inv [OF i m(1)] m len by auto
qed

text \<open>The count of queued frames is above the queues' lengths, and nothing is staged.\<close>

definition tx_stalled :: "dpst \<Rightarrow> bool" where
  "tx_stalled st \<longleftrightarrow> scsi_rest st \<and> d_txlen st = 0 \<and> d_wqcnt st \<noteq> 0"

definition traffic :: "dpevent \<Rightarrow> bool" where
  "traffic ev = (case ev of
     EvPut q mp \<Rightarrow> mb_type mp \<in> {M_PROTO, M_PCPROTO} \<and> (\<exists>off. mb_prim mp = DL_UNITDATA_REQ off)
   | EvService \<Rightarrow> True | EvDone err d \<Rightarrow> True | EvRetry \<Rightarrow> True | EvPoll \<Rightarrow> True | EvTick \<Rightarrow> True
   | _ \<Rightarrow> False)"

definition frames_sent :: "dpst \<Rightarrow> scmd list" where
  "frames_sent st = filter (\<lambda>c. c_mem c = DpTx) (d_cmds st)"

lemma frames_sent_log: "log_only st st' \<Longrightarrow> frames_sent st' = frames_sent st"
  by (simp add: frames_sent_def log_only_fields)

lemma stalled_log:
  "log_only st st' \<Longrightarrow> tx_stalled st \<Longrightarrow> tx_stalled st'"
  by (simp add: tx_stalled_def scsi_rest_def core_log_only log_only_fields)

lemma frames_sent_start:
  "scsi_core st \<Longrightarrow> d_txlen st = 0 \<Longrightarrow> frames_sent (dp_start_head f st) = frames_sent st"
  by (auto simp: frames_sent_def dp_start_head_def scsi_core_def abuf_ok_def dp_cdb_def jbuf_of_def Let_def
      split: dpmem.splits)

lemma frames_sent_kick_False [simp]: "frames_sent (dp_kick False st) = frames_sent st"
  by (simp add: frames_sent_def dp_kick_def Let_def split: option.splits)

lemma frames_sent_kick:
  assumes "scsi_core st" "d_txlen st = 0"
  shows "frames_sent (dp_kick True st) = frames_sent st"
proof -
  have "dp_next st = Some b \<Longrightarrow> jb_addr b \<noteq> DpTx" for b
    using assms(2) by (auto simp: dp_next_def split: if_splits)
  then show ?thesis
    using assms(1)
    by (auto simp: frames_sent_def dp_kick_def Let_def dp_start_head_def scsi_core_def dp_cdb_def jbuf_of_def
        split: option.splits)
qed

lemma stalled_kick:
  assumes "tx_stalled st"
  shows "tx_stalled (dp_kick True st) \<and> frames_sent (dp_kick True st) = frames_sent st"
  using assms dp_kick_rest [of st] frames_sent_kick [of st] by (simp add: tx_stalled_def scsi_rest_def)

lemma stalled_done:
  assumes s: "tx_stalled st" and b: "d_busy st" and t: "sj_terminate env err d st = Some st'"
  shows "tx_stalled st' \<and> frames_sent st' = frames_sent st"
proof -
  have core: "scsi_core st" and w: "d_wqcnt st \<noteq> 0" and tx: "d_txlen st = 0" and act: "d_active st"
    using s b by (simp_all add: tx_stalled_def scsi_rest_def)
  have jq: "d_jq st = [ABUF]" and ok: "abuf_ok (d_reinit st) 0 (d_abuf st)" and up: "d_up st"
    using core b tx by (simp_all add: scsi_core_def)
  then have opc: "drop_bit 8 (jb_blkno (d_abuf st)) \<noteq> 0x0A"
    by (auto simp: abuf_ok_def drop_bit_DPCMD split: dpmem.splits if_splits)
  define s0 where "s0 = (terminated err d st)\<lparr>d_busy := False\<rparr>"
  have c0: "scsi_core s0" using core length_rx_after [of st err d] by (auto simp: s0_def terminated_def scsi_core_def)
  have f0: "d_txlen s0 = 0" "d_wqcnt s0 \<noteq> 0" "frames_sent s0 = frames_sent st" "\<not> d_busy s0"
    using tx w by (simp_all add: s0_def terminated_def frames_sent_def)
  have fin: "tx_stalled (dp_start_head True (dp_kick False x)) \<and>
      frames_sent (dp_start_head True (dp_kick False x)) = frames_sent st"
    if "scsi_core x" "d_txlen x = 0" "d_wqcnt x \<noteq> 0" "frames_sent x = frames_sent st" for x
  proof -
    have "scsi_rest (dp_start_head True (dp_kick False x))"
      using dp_start_head_rest [OF dp_kick_core [OF that(1)]] dp_kick_busy [of x False] that(2) by simp
    moreover have "frames_sent (dp_start_head True (dp_kick False x)) = frames_sent st"
      using that frames_sent_start [OF dp_kick_core [OF that(1)], of False] by simp
    ultimately show ?thesis using that by (simp add: tx_stalled_def)
  qed
  have "st' = dp_start_head True (the (dp_async_done env err (terminated err d st)))"
    "dp_async_done env err (terminated err d st) \<noteq> None"
    using t jq b by (auto simp: sj_terminate_def dpSTART_def Let_def terminated_def rx_after_def split: option.splits)
  then obtain y where y: "dp_async_done env err (terminated err d st) = Some y" "st' = dp_start_head True y"
    by auto
  define s1 where "s1 = dp_count_err err s0"
  have c1: "scsi_core s1" using c0 f0(4) by (auto simp: s1_def dp_count_err_def scsi_core_def)
  have f1: "d_txlen s1 = 0" "d_wqcnt s1 \<noteq> 0" "frames_sent s1 = frames_sent st" "\<not> d_busy s1"
    using f0 by (simp_all add: s1_def dp_count_err_def frames_sent_def)
  have A: "tx_stalled st' \<and> frames_sent st' = frames_sent st" if "y = dp_kick False (dp_reset_step env s0)"
  proof -
    have "scsi_core (dp_reset_step env s0)"
      using c0 f0(4) by (auto simp: dp_reset_step_def Let_def scsi_core_def)
    then show ?thesis
      unfolding y(2) that using f0
      by (intro fin) (simp_all add: dp_reset_step_def Let_def frames_sent_def)
  qed
  have B: "tx_stalled st' \<and> frames_sent st' = frames_sent st" if h: "dp_rx_done env s1 = Some x" "y = dp_kick False x" for x
  proof -
    obtain got s2 where l: "dp_rxloop env 0 0 s1 = Some (got, s2)"
      using h(1) by (auto simp: dp_rx_done_def split: option.splits)
    note rx = dp_rxloop_change [OF l]
    have "d_cmds s2 = d_cmds s1" using rx by (auto simp: rx_change_def log_only_def)
    moreover have "x = s2\<lparr>d_rxwant := d_rxwant x, d_idle := d_idle x\<rparr>"
      using h(1) l by (auto simp: dp_rx_done_def)
    then obtain a b where x: "x = s2\<lparr>d_rxwant := a, d_idle := b\<rparr>" by blast
    have "scsi_core x"
      by (rule iffD1 [OF scsi_core_fields, rotated -1, OF rx_change_core [OF rx c1 f1(4)]]) (simp_all add: x)
    ultimately show ?thesis
      unfolding y(2) h(2) using f1 rx_change_fields [OF rx]
      by (intro fin) (simp_all add: x frames_sent_def)
  qed
  have C: "tx_stalled st' \<and> frames_sent st' = frames_sent st"
    if "y = dp_kick False (s1\<lparr>d_rxwant := False, d_ierrors := e\<rparr>)" for e
    unfolding y(2) that using c1 f1 scsi_core_fields [of "s1\<lparr>d_rxwant := False, d_ierrors := e\<rparr>" s1]
    by (intro fin) (simp_all add: frames_sent_def)
  have o: "jb_blkno (d_abuf (terminated err d st)) = jb_blkno (d_abuf st)" by (simp add: terminated_def)
  show ?thesis
    using y(1) A B C opc unfolding dp_async_done_def Let_def o s0_def [symmetric] s1_def [symmetric]
    by (auto split: if_splits option.splits)
qed

lemma stalled_unitdata:
  assumes s: "tx_stalled st" and u: "en_unitdata env wq q m mp off st = Some st'"
  shows "tx_stalled st' \<and> frames_sent st' = frames_sent st"
proof -
  let ?dst = "take 6 (drop off (mb_data mp))"
  let ?s1 = "en_echo env q mp ?dst st"
  let ?s2 = "snd (allocb env ?s1)"
  have lo: "log_only st ?s2"
    by (rule log_only_trans [OF log_only_echo log_only_allocb])
  have s2: "tx_stalled ?s2" "frames_sent ?s2 = frames_sent st"
    using stalled_log [OF lo s] frames_sent_log [OF lo] by simp_all
  have e: "tx_stalled (en_uderror_ind q mp e x) \<and> frames_sent (en_uderror_ind q mp e x) = frames_sent x"
    if "tx_stalled x" for e x
    using stalled_log [OF log_only_putnext that] frames_sent_log [OF log_only_putnext]
    by (simp add: en_uderror_ind_def)
  have qd: "tx_stalled (?s2\<lparr>d_wq := w, d_wqcnt := Suc n\<rparr>) \<and>
      frames_sent (?s2\<lparr>d_wq := w, d_wqcnt := Suc n\<rparr>) = frames_sent st" for w n
    using s2 scsi_core_fields [of "?s2\<lparr>d_wq := w, d_wqcnt := Suc n\<rparr>" ?s2]
    by (simp add: tx_stalled_def scsi_rest_def frames_sent_def)
  have w: "d_wqcnt ?s2 \<noteq> 0" using s2(1) by (simp add: tx_stalled_def)
  show ?thesis
    using u e [OF s] e [OF s2(1)] qd w s2(2)
    by (cases "n_alloc env (d_allocs ?s1)")
      (auto simp: en_unitdata_def Let_def allocb_def split: if_splits bool.splits)
qed

lemma stalled_step:
  assumes s: "tx_stalled st" and e: "traffic ev" and t: "dp_step env ev st = Some st'"
  shows "tx_stalled st' \<and> frames_sent st' = frames_sent st"
proof (cases ev)
  case (EvPut q mp)
  then obtain off where p: "mb_prim mp = DL_UNITDATA_REQ off" "mb_type mp \<in> {M_PROTO, M_PCPROTO}"
    using e by (auto simp: traffic_def)
  have ack: "tx_stalled (en_error_ack env r mp x y z st) \<and>
      frames_sent (en_error_ack env r mp x y z st) = frames_sent st" for r x y z
    using stalled_log [OF log_only_error_ack s] frames_sent_log [OF log_only_error_ack] by simp
  show ?thesis
    using t EvPut p s ack stalled_unitdata [OF s]
    by (auto simp: dp_step_def enwput_def en_proto_def split: if_splits option.splits)
next
  case EvService
  have "tx_stalled (st\<lparr>d_rxwant := True\<rparr>)" "frames_sent (st\<lparr>d_rxwant := True\<rparr>) = frames_sent st"
    using s scsi_core_fields [of "st\<lparr>d_rxwant := True\<rparr>" st]
    by (simp_all add: tx_stalled_def scsi_rest_def frames_sent_def)
  then show ?thesis
    using t EvService s stalled_kick [of "st\<lparr>d_rxwant := True\<rparr>"]
    by (auto simp: dp_step_def enrsrv_def split: if_splits)
next
  case (EvDone err d)
  show ?thesis
  proof (cases "d_active st")
    case True
    then have "d_busy st" using s by (simp add: tx_stalled_def scsi_rest_def)
    then show ?thesis using t EvDone True stalled_done [OF s] by (simp add: dp_step_def)
  next
    case False
    then show ?thesis using t EvDone s by (simp add: dp_step_def)
  qed
next
  case EvRetry
  have c: "scsi_core st" "d_txlen st = 0" using s by (simp_all add: tx_stalled_def scsi_rest_def)
  have "d_busy st \<longrightarrow> \<not> jb_done (d_abuf st)" using c(1) by (simp add: scsi_core_def)
  then have st: "dpSTART env False st = Some (dp_start_head False st)" by (auto simp: dpSTART_def)
  have "scsi_rest (dp_start_head False st)"
    using s by (intro dp_start_head_rest) (simp_all add: tx_stalled_def scsi_rest_def)
  then have "tx_stalled (dp_start_head False st)" using s by (simp add: tx_stalled_def)
  then show ?thesis
    using t EvRetry s frames_sent_start [OF c] by (auto simp: dp_step_def st split: if_splits)
next
  case EvPoll
  have "tx_stalled (st\<lparr>d_enabled := a, d_timer := b\<rparr>) \<and>
      frames_sent (st\<lparr>d_enabled := a, d_timer := b\<rparr>) = frames_sent st" for a b
    using s scsi_core_fields [of "st\<lparr>d_enabled := a, d_timer := b\<rparr>" st]
    by (simp add: tx_stalled_def scsi_rest_def frames_sent_def)
  note p = this
  have "\<exists>a b. st' = st\<lparr>d_enabled := a, d_timer := b\<rparr>"
  proof -
    have "st' = st\<lparr>d_enabled := d_enabled st', d_timer := d_timer st'\<rparr>"
      using t EvPoll by (auto simp: dp_step_def dp_poll_def Let_def split: option.splits)
    then show ?thesis by blast
  qed
  then show ?thesis using p by blast
next
  case EvTick
  have "tx_stalled (st\<lparr>d_lbolt := x\<rparr>) \<and> frames_sent (st\<lparr>d_lbolt := x\<rparr>) = frames_sent st" for x
    using s scsi_core_fields [of "st\<lparr>d_lbolt := x\<rparr>" st]
    by (simp add: tx_stalled_def scsi_rest_def frames_sent_def)
  then show ?thesis using t EvTick by (auto simp: dp_step_def)
next
  case (EvOpen q minor sf)
  then show ?thesis using e by (simp add: traffic_def)
next
  case (EvClose q)
  then show ?thesis using e by (simp add: traffic_def)
qed

lemma stalled_run:
  assumes "tx_stalled st" "list_all traffic evs" "dp_run env evs st = Some st'"
  shows "tx_stalled st' \<and> frames_sent st' = frames_sent st"
  using assms
proof (induction evs arbitrary: st)
  case Nil
  then show ?case by simp
next
  case (Cons ev evs)
  then obtain s where s: "dp_step env ev st = Some s" "dp_run env evs s = Some st'"
    by (auto split: option.splits)
  then show ?case
    using Cons.IH [of s] stalled_step [OF Cons.prems(1) _ s(1)] Cons.prems(2) by simp
qed

text \<open>A flush while one stream's frames wait behind the frame in flight.\<close>

lemma en_wloop_empty:
  assumes "\<forall>q. d_wq st q = []"
  shows "\<exists>n. en_wloop t st = st\<lparr>d_nextmin := n\<rparr>"
  using assms
proof (induction t arbitrary: st)
  case 0
  have "st = st\<lparr>d_nextmin := d_nextmin st\<rparr>" by simp
  then show ?case by (metis en_wloop.simps(1))
next
  case (Suc t)
  define m where "m = (if Suc (d_nextmin st) \<ge> DP_NMINOR then 0 else Suc (d_nextmin st))"
  obtain n where n: "en_wloop t (st\<lparr>d_nextmin := m\<rparr>) = st\<lparr>d_nextmin := n\<rparr>"
    using Suc.IH [of "st\<lparr>d_nextmin := m\<rparr>"] Suc.prems by auto
  have "en_wloop (Suc t) st = (if d_wqcnt st = 0 then st else en_wloop t (st\<lparr>d_nextmin := m\<rparr>))"
    using Suc.prems by (simp add: Let_def m_def split: option.splits)
  moreover have "st = st\<lparr>d_nextmin := d_nextmin st\<rparr>" by simp
  ultimately show ?case using n by (metis (full_types))
qed

lemma other_queues_empty:
  assumes i: "dp_inv st" and q: "d_qptr st q = Some m" and n: "d_wqcnt st = length (d_wq st q)"
    and o: "q' \<noteq> q"
  shows "d_wq st q' = []"
proof (cases "d_qptr st q'")
  case None
  then show ?thesis using i by (simp add: dp_inv_def min_inv_def)
next
  case (Some m')
  have m: "m < DP_NMINOR" "min_rdq (d_min st ! m) = Some q"
    and m': "m' < DP_NMINOR" "min_rdq (d_min st ! m') = Some q'"
    using i q Some by (auto simp: dp_inv_def min_inv_def qptr_ok_def)
  have ne: "m' \<noteq> m" using m(2) m'(2) o by auto
  have "(\<Sum>j < DP_NMINOR. qlen st j) = length (d_wq st q)"
    using i n by (simp add: dp_inv_def wq_inv_def)
  moreover have "(\<Sum>j < DP_NMINOR. qlen st j) =
      qlen st m + (\<Sum>j \<in> {..<DP_NMINOR} - {m}. qlen st j)"
    using m(1) by (intro sum.remove) auto
  moreover have "qlen st m = length (d_wq st q)" using m(2) by (simp add: qlen_def)
  ultimately have "(\<Sum>j \<in> {..<DP_NMINOR} - {m}. qlen st j) = 0" by simp
  then have "qlen st m' = 0"
    using m'(1) ne by simp
  then show ?thesis using m'(2) by (simp add: qlen_def)
qed

lemma flush_stalls:
  assumes i: "dp_inv st" and q: "d_qptr st q = Some m" "d_wq st q \<noteq> []"
    "d_wqcnt st = length (d_wq st q)"
    and b: "d_busy st" "jb_addr (d_abuf st) = DpTx"
    and mp: "mb_type mp = M_FLUSH" "mb_prim mp = FLUSH r True"
    and run: "dp_run env [EvPut q mp, EvDone err d] st = Some st2"
  shows "tx_stalled st2 \<and> frames_sent st2 = frames_sent st"
proof -
  define s1 where "s1 = (let x = st\<lparr>d_wq := (d_wq st)(q := [])\<rparr> in
    if r then putnext q (mp\<lparr>mb_prim := FLUSH r False\<rparr>) x else x)"
  have st1: "dp_step env (EvPut q mp) st = Some s1"
    using q mp by (simp add: dp_step_def enwput_def s1_def Let_def)
  have e: "d_wq s1 x = []" for x
    using other_queues_empty [OF i q(1,3), of x] by (cases "x = q") (auto simp: s1_def Let_def putnext_def)
  have f: "d_wqcnt s1 \<noteq> 0" "d_busy s1" "d_abuf s1 = d_abuf st" "d_active s1" "d_jq s1 = [ABUF]"
    "frames_sent s1 = frames_sent st" "d_up s1"
    using q(2,3) b dp_inv_D(6,7,12) [OF i]
    by (simp_all add: s1_def Let_def putnext_def frames_sent_def)
  have c1: "scsi_core s1"
    using dp_inv_D(2) [OF i] scsi_core_fields [of s1 st] by (simp add: s1_def Let_def putnext_def)
  have opc: "drop_bit 8 (jb_blkno (d_abuf s1)) = 0x0A"
    using busy_abuf [OF i b(1)] b(2) f(3) by (simp add: abuf_ok_def drop_bit_DPCMD)
  define s2 where "s2 = dp_count_err err ((terminated err d s1)\<lparr>d_busy := False\<rparr>)"
  define s3 where "s3 = (if err then (s2\<lparr>d_txlen := 0\<rparr>)\<lparr>d_oerrors := d_oerrors s2 + 1\<rparr>
                      else (s2\<lparr>d_txlen := 0\<rparr>)\<lparr>d_opackets := d_opackets s2 + 1\<rparr>)"
  have w3: "\<forall>x. d_wq s3 x = []" using e by (simp add: s3_def s2_def dp_count_err_def terminated_def)
  obtain n where n: "en_wproc s3 = s3\<lparr>d_nextmin := n\<rparr>"
    using en_wloop_empty [OF w3] unfolding en_wproc_def by blast
  have c3: "scsi_core s3"
    using c1 f(2) length_rx_after [of s1 err d]
    by (auto simp: s3_def s2_def dp_count_err_def terminated_def scsi_core_def)
  have f3: "d_txlen s3 = 0" "d_wqcnt s3 \<noteq> 0" "frames_sent s3 = frames_sent st" "\<not> d_busy s3"
    using f by (simp_all add: s3_def s2_def dp_count_err_def terminated_def frames_sent_def)
  define s4 where "s4 = s3\<lparr>d_nextmin := n, d_rxwant := True\<rparr>"
  have c4: "scsi_core s4" using c3 scsi_core_fields [of s4 s3] by (simp add: s4_def)
  have "dp_tx_done err s2 = (if d_wqcnt s3 \<noteq> 0 then en_wproc s3 else s3)\<lparr>d_rxwant := True\<rparr>"
    by (simp add: dp_tx_done_def Let_def s3_def)
  then have tx: "dp_tx_done err s2 = s4"
    using n f3(2) by (simp add: s4_def)
  have st2: "st2 = dp_start_head True (dp_kick False s4)"
    using run st1 f opc tx
    by (simp add: dp_step_def sj_terminate_def dpSTART_def dp_async_done_def Let_def terminated_def
        rx_after_def s2_def)
  have "scsi_rest st2"
    unfolding st2 using dp_start_head_rest [OF dp_kick_core [OF c4]] dp_kick_busy [of s4 False] f3
    by (simp add: s4_def)
  moreover have "frames_sent st2 = frames_sent st"
  proof -
    have "frames_sent s4 = frames_sent st" "d_txlen s4 = 0"
      using f3 by (simp_all add: s4_def frames_sent_def)
    then show ?thesis
      unfolding st2 using frames_sent_start [OF dp_kick_core [OF c4], of False] by simp
  qed
  ultimately show ?thesis using f3 by (simp add: tx_stalled_def st2 s4_def)
qed

lemma reset_up:
  assumes i: "dp_inv st" and r: "d_reinit st \<noteq> 0" "d_up st" and s: "dp_step env (EvDone err d) st = Some st'"
  shows "d_up st'"
proof -
  have b: "d_busy st" using dp_inv_D(8) [OF i] r by simp
  have "jb_addr (d_abuf st) = DpData" using busy_abuf [OF i b] r by (auto simp: abuf_ok_def split: dpmem.splits)
  then have "drop_bit 8 (jb_blkno (d_abuf (terminated err d st))) = 0x0E"
    using busy_abuf [OF i b] by (auto simp: abuf_ok_def terminated_def drop_bit_DPCMD)
  moreover have "d_up (dp_start_head f x) = d_up x" for f x
    by (simp add: dp_start_head_def split: list.splits)
  ultimately show ?thesis
    using s r b dp_inv_D(6) [OF i] sj_terminate_busy [OF i b, of env err d]
    by (auto simp: dp_step_def dp_async_done_def dp_reset_step_def Let_def terminated_def)
qed

lemma dp_run_append:
  "dp_run env (xs @ ys) st = (case dp_run env xs st of None \<Rightarrow> None | Some s \<Rightarrow> dp_run env ys s)"
  by (induction xs arbitrary: st) (auto split: option.splits)

text \<open>What one received frame sends up when nothing refuses it.\<close>

definition ind_of :: "enminor list \<Rightarrow> byte list \<Rightarrow> (nat \<times> mblk) list" where
  "ind_of ms f =
    (case find_minor (\<lambda>m. min_sap m = g16 f 12 \<and> min_state m = DL_IDLE) ms of
       None \<Rightarrow> []
     | Some i \<Rightarrow> (case min_rdq (ms ! i) of
         None \<Rightarrow> []
       | Some q \<Rightarrow> [(q, \<lparr>mb_type = M_PROTO, mb_prim = DL_UNITDATA_IND (take 6 f) (take 6 (drop 6 f)),
           mb_bufsz = 36, mb_own = True, mb_data = take 6 f @ take 6 (drop 6 f), mb_cont = [drop 14 f]\<rparr>)]))"

lemma rx_take_sent:
  assumes "\<And>k. n_alloc env k" "\<And>q k. n_canput env q k"
  shows "d_sent (rx_take env f st) = d_sent st @ ind_of (d_min st) f" "d_min (rx_take env f st) = d_min st"
  using assms
  by (simp_all add: rx_take_def ind_of_def en_rproc_def Let_def en_mkind_def allocb_def en_send_up_def
      putnext_def split: option.splits)

lemma rx_fold_sent:
  assumes "\<And>k. n_alloc env k" "\<And>q k. n_canput env q k"
  shows "d_sent (fold (\<lambda>(f, c). rx_take env f) fs st) =
    d_sent st @ concat (map (\<lambda>(f, c). ind_of (d_min st) f) fs)"
  using rx_take_sent [OF assms]
  by (induction fs arbitrary: st) (auto split: prod.splits)

lemma rx_done_sent:
  assumes i: "dp_inv st" and b: "d_busy st" "jb_addr (d_abuf st) = DpRx"
    and fs: "\<forall>(f, c) \<in> set fs. 14 \<le> length f \<and> length f \<le> 1520 \<and> length c = 4" "fs \<noteq> []"
    and len: "length (rx_enc fs) \<le> DP_RXASK"
    and ok: "\<And>k. n_alloc env k" "\<And>q k. n_canput env q k"
  shows "\<exists>st'. dp_step env (EvDone False (rx_enc fs)) st = Some st' \<and>
    d_sent st' = d_sent st @ concat (map (\<lambda>(f, c). ind_of (d_min st) f) fs)"
proof -
  have "jb_blkno (d_abuf st) = DPCMD 0x08 DP_RXMODE"
    using busy_abuf [OF i b(1)] b(2) by (simp add: abuf_ok_def)
  then have opc: "drop_bit 8 (jb_blkno (d_abuf (terminated False (rx_enc fs) st))) = 0x08"
    by (simp add: terminated_def drop_bit_DPCMD)
  let ?s = "dp_count_err False ((terminated False (rx_enc fs) st)\<lparr>d_busy := False\<rparr>)"
  have rx: "d_rx ?s = [] @ rx_enc fs @ drop (length (rx_enc fs)) (d_rx st)"
    using b(2) len by (simp add: dp_count_err_def terminated_def rx_after_def put_at_def)
  have l: "dp_rxloop env 0 0 ?s = Some (length fs, fold (\<lambda>(f, c). rx_take env f) fs ?s)"
    using dp_rxloop_frames [OF ok(1) fs rx, of 0] len by simp
  have f: "d_sent ?s = d_sent st" "d_min ?s = d_min st"
    by (simp_all add: dp_count_err_def terminated_def)
  have sh: "d_sent (dp_start_head True x) = d_sent x" for x by simp
  have "dp_step env (EvDone False (rx_enc fs)) st =
      Some (dp_start_head True (dp_kick False ((fold (\<lambda>(f, c). rx_take env f) fs ?s)\<lparr>d_idle := 0\<rparr>)))"
    using b(1) dp_inv_D(6) [OF i] sj_terminate_busy [OF i b(1)] opc l fs(2)
    by (simp add: dp_step_def dp_async_done_def dp_rx_done_def Let_def)
  then show ?thesis
    using rx_fold_sent [OF ok, of fs ?s] by (simp add: f)
qed

section \<open>A bus with one adapter\<close>

definition demo_denv :: denv where
  "demo_denv = \<lparr>n_alloc = (\<lambda>_. True), n_canput = (\<lambda>_ _. True),
     n_scmd = (\<lambda>_ _ _ _. (False, [0, 128, 25, 1, 2, 3])), n_hz = 100, n_errack = 16\<rparr>"

definition demo_dayna :: scsijob where
  "demo_dayna = \<lparr>sj_dtype = 3, sj_target = 4, sj_lun = 0,
     sj_inqdata = [3, 0, 1, 1, 31, 0, 0, 0, 68, 97, 121, 110, 97], sj_startf = Sj_badstart\<rparr>"

definition demo_boot :: dpst where
  "demo_boot = dpstart (dp_static\<lparr>d_jobs := (\<lambda>_. None)(4 := Some demo_dayna), d_lbolt := 0\<rparr>)"

definition demo_msg :: "dlmsg \<Rightarrow> byte list \<Rightarrow> byte list list \<Rightarrow> mblk" where
  "demo_msg p b bs = \<lparr>mb_type = M_PROTO, mb_prim = p, mb_bufsz = 64, mb_own = True, mb_data = b,
     mb_cont = bs\<rparr>"

definition demo_send :: dpevent where
  "demo_send = EvPut 1 (demo_msg (DL_UNITDATA_REQ 0) [0, 1, 2, 3, 4, 5] [[7, 7, 7]])"

definition demo_events :: "dpevent list" where
  "demo_events = [EvOpen 1 0 CLONEOPEN, EvPut 1 (demo_msg (DL_BIND_REQ 0x800) [] []), demo_send, demo_send]"

lemma demo_run_facts:
  "case dp_run demo_denv demo_events demo_boot of None \<Rightarrow> False
   | Some st \<Rightarrow> d_qptr st 1 = Some 0 \<and> length (d_wq st 1) = 1 \<and> d_wqcnt st = 1 \<and> d_busy st \<and>
       jb_addr (d_abuf st) = DpTx \<and> d_running st \<and> d_up st"
  by code_simp

definition demo_st :: dpst where
  "demo_st = the (dp_run demo_denv demo_events demo_boot)"

lemma demo_st_facts:
  "dp_run demo_denv demo_events demo_boot = Some demo_st" "d_qptr demo_st 1 = Some 0"
  "d_wq demo_st 1 \<noteq> []" "d_wqcnt demo_st = length (d_wq demo_st 1)" "d_busy demo_st"
  "jb_addr (d_abuf demo_st) = DpTx" "d_up demo_st"
  using demo_run_facts by (auto simp: demo_st_def split: option.splits)

lemma demo_reach_run:
  assumes "dp_reach demo_denv st" "list_all (\<lambda>ev. \<forall>s. dp_event_ok s ev) evs"
    "dp_run demo_denv evs st = Some st'"
  shows "dp_reach demo_denv st'"
  using assms
proof (induction evs arbitrary: st)
  case Nil
  then show ?case by simp
next
  case (Cons ev evs)
  then obtain s where "dp_step demo_denv ev st = Some s" "dp_run demo_denv evs s = Some st'"
    by (auto split: option.splits)
  then show ?case using Cons dp_reach.step [of demo_denv st ev s] by simp
qed

lemma demo_reach_boot: "dp_reach demo_denv demo_boot"
  unfolding demo_boot_def by (rule dp_reach.boot)

lemma demo_reach: "dp_reach demo_denv demo_st"
  by (rule demo_reach_run [OF demo_reach_boot _ demo_st_facts(1)])
    (simp add: demo_events_def demo_send_def demo_msg_def dp_event_ok_def)

definition demo_bound :: "dpevent list" where
  "demo_bound = [EvOpen 1 0 CLONEOPEN, EvPut 1 (demo_msg (DL_BIND_REQ 0x800) [] [])]"

definition demo_listen :: "dpevent list" where
  "demo_listen = demo_bound @ [EvService]"

definition demo_corrupt :: "dpevent list" where
  "demo_corrupt = demo_listen @ [EvDone False [0, 0, 255, 255, 255, 255]]"

definition demo_flush :: mblk where
  "demo_flush = (demo_msg (FLUSH False True) [] [])\<lparr>mb_type := M_FLUSH\<rparr>"

definition demo_stall :: "dpevent list" where
  "demo_stall = [demo_send, EvService, EvDone False [0, 0, 0, 0, 0, 0]]"

lemma demo_open_facts:
  "case dp_run demo_denv [EvOpen 1 0 CLONEOPEN] demo_boot of None \<Rightarrow> False
   | Some st \<Rightarrow> d_qptr st 1 = Some 0 \<and> d_running st \<and>
       list_all (\<lambda>m. min_state m = DL_UNBOUND) (d_min st) \<and> length (d_min st) = DP_NMINOR"
  by code_simp

lemma demo_rx_facts:
  "case dp_run demo_denv demo_listen demo_boot of None \<Rightarrow> False
   | Some st \<Rightarrow> d_busy st \<and> jb_addr (d_abuf st) = DpRx"
  by code_simp

lemma demo_corrupt_facts:
  "case dp_run demo_denv demo_corrupt demo_boot of None \<Rightarrow> False
   | Some st \<Rightarrow> d_up st \<and> d_reinit st = 2"
  by code_simp

lemma demo_stall_facts:
  "dp_run demo_denv (demo_events @ [EvPut 1 demo_flush, EvDone False []] @ demo_stall) demo_boot \<noteq> None"
  by code_simp

definition demo_run :: "dpevent list \<Rightarrow> dpst" where
  "demo_run evs = the (dp_run demo_denv evs demo_boot)"

lemma demo_run_Some: "dp_run demo_denv evs demo_boot \<noteq> None \<Longrightarrow> dp_run demo_denv evs demo_boot = Some (demo_run evs)"
  by (auto simp: demo_run_def)

lemma demo_run_reach:
  "list_all (\<lambda>ev. \<forall>s. dp_event_ok s ev) evs \<Longrightarrow> dp_run demo_denv evs demo_boot \<noteq> None \<Longrightarrow>
    dp_reach demo_denv (demo_run evs)"
  by (rule demo_reach_run [OF demo_reach_boot _ demo_run_Some])

lemma demo_open_st:
  "dp_reach demo_denv (demo_run [EvOpen 1 0 CLONEOPEN])"
  "d_qptr (demo_run [EvOpen 1 0 CLONEOPEN]) 1 = Some 0" "d_running (demo_run [EvOpen 1 0 CLONEOPEN])"
  "j < DP_NMINOR \<Longrightarrow> min_state (d_min (demo_run [EvOpen 1 0 CLONEOPEN]) ! j) = DL_UNBOUND"
proof -
  show "dp_reach demo_denv (demo_run [EvOpen 1 0 CLONEOPEN])"
    using demo_open_facts
    by (intro demo_run_reach) (auto simp: dp_event_ok_def simp del: dp_run.simps split: option.splits)
qed (use demo_open_facts in \<open>auto simp: demo_run_def list_all_length simp del: dp_run.simps split: option.splits\<close>)

lemma demo_listen_st:
  "dp_reach demo_denv (demo_run demo_listen)"
  "d_busy (demo_run demo_listen)" "jb_addr (d_abuf (demo_run demo_listen)) = DpRx"
proof -
  show "dp_reach demo_denv (demo_run demo_listen)"
    using demo_rx_facts
    by (intro demo_run_reach)
      (auto simp: demo_listen_def demo_bound_def demo_msg_def dp_event_ok_def
        simp del: dp_run.simps split: option.splits)
qed (use demo_rx_facts in \<open>auto simp: demo_run_def simp del: dp_run.simps split: option.splits\<close>)

lemma demo_corrupt_st:
  "dp_reach demo_denv (demo_run demo_corrupt)" "d_up (demo_run demo_corrupt)"
  "d_reinit (demo_run demo_corrupt) = 2"
proof -
  let ?s = "demo_run demo_listen" and ?e = "EvDone False [0, 0, 255, 255, 255, 255]"
  have l: "dp_run demo_denv demo_listen demo_boot = Some ?s"
    using demo_rx_facts by (intro demo_run_Some) (auto simp del: dp_run.simps split: option.splits)
  have "dp_run demo_denv demo_corrupt demo_boot = Some (demo_run demo_corrupt)"
    using demo_corrupt_facts by (intro demo_run_Some) (auto simp del: dp_run.simps split: option.splits)
  then have s: "dp_step demo_denv ?e ?s = Some (demo_run demo_corrupt)"
    unfolding demo_corrupt_def dp_run_append l by (auto split: option.splits)
  have "dp_event_ok ?s ?e"
    using demo_listen_st(3)
    by (simp add: dp_event_ok_def two_frames_def rx_after_def put_at_def g16_def g8_def DP_RXASK_def)
  then show "dp_reach demo_denv (demo_run demo_corrupt)"
    by (rule dp_reach.step [OF demo_listen_st(1) _ s])
qed (use demo_corrupt_facts in \<open>auto simp: demo_run_def simp del: dp_run.simps split: option.splits\<close>)

section \<open>The properties\<close>





text \<open>
  \<open>dp_xmit\<close>, every branch: it refuses while a frame is staged or the link is down;
  otherwise a message of 14 to 1514 bytes is staged as its blocks joined, padded with zeros
  to 60, with a command in flight; any other is dropped and counted as an error.
\<close>
theorem dp_xmit_stages_frame:
  assumes "dp_reach env st" "dp_xmit mp st = (r, st')"
  shows "if d_txlen st \<noteq> 0 \<or> \<not> d_up st then \<not> r \<and> st' = st
     else if 14 \<le> mlen mp \<and> mlen mp \<le> 1514 then
       r \<and> d_busy st' \<and> d_txlen st' = int (max 60 (mlen mp)) \<and> d_oerrors st' = d_oerrors st \<and>
       take (nat (d_txlen st')) (d_tx st') = mb_data mp @ concat (mb_cont mp) @ replicate (60 - mlen mp) 0
     else r \<and> d_txlen st' = 0 \<and> d_oerrors st' = d_oerrors st + 1"
  using dp_xmit_cases [OF dp_inv_D(2) [OF dp_reach_inv [OF assms(1)]] assms(2)] .

theorem dp_xmit_stages_frame_witness:
  "\<not> fst (dp_xmit (data_mblk [1, 2, 3] []) demo_boot)"
proof -
  have "\<not> d_up demo_boot" by (simp add: demo_boot_def dpstart_def dp_static_def)
  then show ?thesis
    using dp_xmit_stages_frame [OF demo_reach_boot, of "data_mblk [1, 2, 3] []"
        "fst (dp_xmit (data_mblk [1, 2, 3] []) demo_boot)" "snd (dp_xmit (data_mblk [1, 2, 3] []) demo_boot)"]
    by simp
qed



text \<open>
  A reset, once due, is the next two commands: disable, then enable, whether they fail or
  not, before any frame goes out or in; the staged frame and the queues outlast it.
\<close>
theorem dp_reset_is_disable_enable:
  assumes "dp_reach env st" "d_up st" "d_reinit st = 2"
  shows "\<exists>st1 st2. d_busy st \<and> jb_blkno (d_abuf st) = DPCMD 0x0E 0 \<and>
    dp_step env (EvDone e1 d1) st = Some st1 \<and> d_busy st1 \<and> jb_blkno (d_abuf st1) = DPCMD 0x0E 0x80 \<and>
    dp_step env (EvDone e2 d2) st1 = Some st2 \<and> d_reinit st2 = 0 \<and>
    d_txlen st2 = d_txlen st \<and> d_wq st2 = d_wq st"
proof -
  note i = dp_reach_inv [OF assms(1)]
  obtain st1 where 1: "dp_step env (EvDone e1 d1) st = Some st1" "d_reinit st1 = 1" "d_busy st"
    "jb_blkno (d_abuf st) = DPCMD 0x0E 0" "d_txlen st1 = d_txlen st" "d_wq st1 = d_wq st"
    using reset_step [OF i _ assms(2), of env e1 d1] assms(3) by auto
  have i1: "dp_inv st1"
    using sj_terminate_inv [OF i 1(3)] 1(1) dp_inv_D(6) [OF i] 1(3) by (simp add: dp_step_def)
  have "d_up st1"
    using reset_up [OF i _ assms(2) 1(1)] assms(3) by simp
  then show ?thesis
    using reset_step [OF i1, of env e2 d2] 1 by auto
qed

theorem dp_reset_is_disable_enable_witness:
  "\<exists>st1 st2. dp_step demo_denv (EvDone True []) (demo_run demo_corrupt) = Some st1 \<and>
    dp_step demo_denv (EvDone True []) st1 = Some st2 \<and> d_reinit st2 = 0"
  using dp_reset_is_disable_enable [OF demo_corrupt_st] by blast

text \<open>
  C11. Frames the adapter returns in one receive command, in its multi-packet format, go up
  each once and in order, as a \<open>DL_UNITDATA_IND\<close> to the minor bound to its type with its two
  addresses and its data; a frame no minor is bound to goes nowhere.
\<close>
theorem dp_receive_delivers:
  assumes "dp_reach env st" "d_busy st" "jb_addr (d_abuf st) = DpRx"
    and "\<forall>(f, c) \<in> set fs. 14 \<le> length f \<and> length f \<le> 1520 \<and> length c = 4" "fs \<noteq> []"
    and "length (rx_enc fs) \<le> DP_RXASK" "\<And>k. n_alloc env k" "\<And>q k. n_canput env q k"
  shows "\<exists>st'. dp_step env (EvDone False (rx_enc fs)) st = Some st' \<and>
    d_sent st' = d_sent st @ concat (map (\<lambda>(f, c). ind_of (d_min st) f) fs)"
  by (rule rx_done_sent [OF dp_reach_inv [OF assms(1)] assms(2-8)])

theorem dp_receive_delivers_witness:
  "\<exists>st'. dp_step demo_denv (EvDone False (rx_enc [(replicate 60 8, [1, 2, 3, 4])])) (demo_run demo_listen) = Some st'"
  using dp_receive_delivers [OF demo_listen_st, of "[(replicate 60 8, [1, 2, 3, 4])]"]
  by (fastforce simp: demo_denv_def DP_RXASK_def)

text \<open>
  A \<open>DL_BIND_REQ\<close> for a SAP no bound minor has is acknowledged with the SAP and the
  Ethernet address, and from then on a received frame of that type goes to the stream.
\<close>
theorem dp_bind_routes_frames:
  assumes "dp_reach env st" "d_qptr st q = Some m" "d_running st" "mb_prim mp = DL_BIND_REQ sap"
    and "min_state (d_min st ! m) = DL_UNBOUND"
    and "\<forall>j < DP_NMINOR. \<not> (min_state (d_min st ! j) = DL_IDLE \<and> min_sap (d_min st ! j) = sap)"
    and "\<And>k. n_alloc env k" "\<And>q k. n_canput env q k"
  shows "\<exists>st' r. en_proto env q mp st = Some st' \<and> d_sent st' = d_sent st @ [(q, r)] \<and>
    mb_prim r = DL_BIND_ACK sap (d_enaddr st) \<and>
    (\<forall>f. g16 f 12 = sap \<longrightarrow> (\<exists>x. d_sent (en_rproc env f st') = d_sent st' @ [(q, x)] \<and>
       mb_prim x = DL_UNITDATA_IND (take 6 f) (take 6 (drop 6 f)) \<and> mb_cont x = [drop 14 f]))"
proof -
  have m: "m < DP_NMINOR"
    using dp_reach_inv [OF assms(1)] assms(2) by (auto simp: dp_inv_def min_inv_def qptr_ok_def)
  obtain st' r where b: "en_proto env q mp st = Some st'" "dp_inv st'"
    "d_sent st' = d_sent st @ [(q, r)]" "mb_prim r = DL_BIND_ACK sap (d_enaddr st)"
    "min_rdq (d_min st' ! m) = Some q" "min_state (d_min st' ! m) = DL_IDLE" "min_sap (d_min st' ! m) = sap"
    using en_proto_bind_ack [OF dp_reach_inv [OF assms(1)] assms(2-6)] assms(7) by blast
  have "min_inv st'" using b(2) by (simp add: dp_inv_def)
  note f = en_rproc_bound [OF this m b(5,6) _ assms(7,8)]
  show ?thesis
    using b f by (intro exI [of _ st'] exI [of _ r]) auto
qed

theorem dp_bind_routes_frames_witness:
  "\<exists>st'. en_proto demo_denv 1 (demo_msg (DL_BIND_REQ 0x800) [] []) (demo_run [EvOpen 1 0 CLONEOPEN]) = Some st'"
proof -
  have "min_state (d_min (demo_run [EvOpen 1 0 CLONEOPEN]) ! 0) = DL_UNBOUND"
    by (rule demo_open_st(4)) (simp add: DP_NMINOR_def)
  then show ?thesis
    using dp_bind_routes_frames [OF demo_open_st(1-3), of "demo_msg (DL_BIND_REQ 0x800) [] []" "0x800"]
    by (fastforce simp: demo_msg_def demo_denv_def dest: demo_open_st(4))
qed

text \<open>
  A write-side \<open>M_FLUSH\<close> stops transmission for good: it drops the queued frames without
  taking them off \<open>if_wqcnt\<close>, so once the frame in flight is done every further request is
  queued behind a count that nothing brings to zero, and no event of traffic ever sends one.
\<close>
theorem dp_flush_stalls_transmit:
  assumes "dp_reach env st" "d_qptr st q = Some m" "d_wq st q \<noteq> []" "d_wqcnt st = length (d_wq st q)"
    and "d_busy st" "jb_addr (d_abuf st) = DpTx"
    and "mb_type mp = M_FLUSH" "mb_prim mp = FLUSH r True"
    and "list_all traffic evs" "dp_run env ([EvPut q mp, EvDone err d] @ evs) st = Some st'"
  shows "frames_sent st' = frames_sent st \<and> d_wqcnt st' \<noteq> 0"
proof -
  obtain s where s: "dp_run env [EvPut q mp, EvDone err d] st = Some s" "dp_run env evs s = Some st'"
    using assms(10) unfolding dp_run_append by (auto split: option.splits)
  note a = flush_stalls [OF dp_reach_inv [OF assms(1)] assms(2-8) s(1)]
  show ?thesis
    using a stalled_run [OF _ assms(9) s(2)] by (simp add: tx_stalled_def)
qed

theorem dp_flush_stalls_transmit_witness:
  "\<exists>st'. dp_run demo_denv ([EvPut 1 demo_flush, EvDone False []] @ demo_stall) demo_st = Some st' \<and>
    frames_sent st' = frames_sent demo_st"
proof -
  obtain st' where "dp_run demo_denv ([EvPut 1 demo_flush, EvDone False []] @ demo_stall) demo_st = Some st'"
    using demo_stall_facts 
    by (simp only: dp_run_append [of _ demo_events] demo_st_facts(1) option.case not_None_eq) blast
  moreover have "list_all traffic demo_stall"
    by (simp add: demo_stall_def demo_send_def demo_msg_def traffic_def)
  moreover have "mb_type demo_flush = M_FLUSH" "mb_prim demo_flush = FLUSH False True"
    by (simp_all add: demo_flush_def demo_msg_def)
  ultimately show ?thesis
    using dp_flush_stalls_transmit [OF demo_reach demo_st_facts(2-6)] by blast
qed

end
