(* ===== verification/AmxConv.thy ===== *)
theory AmxConv
  imports Prelude
begin

text \<open>
  The AMIX personality \<open>driver-amix/amx.c\<close>: the conversions between the structures of AMIX
  programs and those of the kernel. A C array of \<open>long\<close> is a list of integers in the unsigned
  range, a structure in user memory a list of bytes; \<open>longs\<close> and \<open>bytes\<close> are the two views.
\<close>

section \<open>Arrays of longs\<close>

fun longs :: "byte list \<Rightarrow> int list" where
  "longs (a # b # c # d # bs) = g32 [a, b, c, d] 0 # longs bs"
| "longs bs = []"

definition bytes :: "int list \<Rightarrow> byte list" where
  "bytes ws = concat (map p32 ws)"

lemma bytes_simps [simp]: "bytes [] = []" "bytes (w # ws) = p32 w @ bytes ws"
  by (simp_all add: bytes_def)

lemma bytes_append [simp]: "bytes (vs @ ws) = bytes vs @ bytes ws"
  by (simp add: bytes_def)

lemma length_bytes [simp]: "length (bytes ws) = 4 * length ws"
  by (induction ws) simp_all

lemma longs_p32 [simp]: "longs (p32 w @ bs) = u32 w # longs bs"
proof -
  obtain a b c d where p: "p32 w = [a, b, c, d]" by (simp add: p32_def p16_def)
  show ?thesis using g32_p32 [of w] unfolding p by simp
qed

lemma longs_bytes: "longs (bytes ws) = map u32 ws"
  by (induction ws) simp_all

lemma length_longs [simp]: "length (longs bs) = length bs div 4"
  by (induction bs rule: longs.induct) simp_all

lemma longs_range: "w \<in> set (longs bs) \<Longrightarrow> 0 \<le> w \<and> w < 4294967296"
  by (induction bs rule: longs.induct) auto

lemma longs_nth_range: "i < length bs div 4 \<Longrightarrow> 0 \<le> longs bs ! i \<and> longs bs ! i < 4294967296"
  using longs_range [of "longs bs ! i" bs] by simp

lemma byte_of_int_iff: "(word_of_int v :: byte) = word_of_int w \<longleftrightarrow> v mod 256 = w mod 256"
  by (simp add: word_of_int_eq_iff take_bit_eq_mod)

lemma byte_of_int_eq: "v mod 256 = uint b \<Longrightarrow> word_of_int v = (b :: byte)"
  using byte_of_int_iff [of v "uint b"] uint_lt2p [of b] by simp

lemma p16_mod: "p16 (v mod 65536) = p16 v"
proof -
  have "v mod 65536 div 256 = v div 256 mod 256" using mod_mult2_eq' [of v 256 256] by simp
  moreover have "v mod 65536 mod 256 = v mod 256" by (simp add: mod_mod_cancel)
  ultimately show ?thesis by (simp add: p16_def byte_of_int_iff)
qed

lemma p16_g16: "p16 (uint a * 256 + uint b) = [a, b]" for a b :: byte
proof -
  have "(uint a * 256 + uint b) div 256 = uint a"
    using uint_lt2p [of b] by (intro int_div_eqI [of _ _ _ "uint b"]) simp_all
  moreover have "word_of_int (uint a * 256 + uint b) = b"
    using uint_lt2p [of b] by (intro byte_of_int_eq) simp
  ultimately show ?thesis by (simp add: p16_def)
qed

lemma p32_g32: "p32 (g32 [a, b, c, d] 0) = [a, b, c, d]"
proof -
  let ?x = "uint a * 256 + uint b" and ?y = "uint c * 256 + uint d"
  have y: "0 \<le> ?y" "?y < 65536" using uint_lt2p [of c] uint_lt2p [of d] by simp_all
  have "(?x * 65536 + ?y) div 65536 = ?x"
    using y by (intro int_div_eqI [of _ _ _ ?y]) simp_all
  moreover have "(?x * 65536 + ?y) mod 65536 = ?y" using y by (metis mod_mult_self3 mod_pos_pos_trivial)
  then have "p16 (?x * 65536 + ?y) = p16 ?y" using p16_mod by metis
  ultimately show ?thesis
    using p16_g16 [of a b] p16_g16 [of c d] by (simp add: g32_def g16_def g8_def p32_def)
qed

lemma bytes_longs: "4 dvd length bs \<Longrightarrow> bytes (longs bs) = bs"
proof (induction bs rule: longs.induct)
  case (1 a b c d bs)
  have "4 dvd length bs" using 1(2) by (simp add: dvd_def) presburger
  then show ?case using 1(1) by (simp add: p32_g32)
qed (simp_all, presburger+)

section \<open>Signals\<close>

definition AMX_NSIG :: int where "AMX_NSIG = 32"
definition ASV_NSIG :: nat where "ASV_NSIG = 65"

definition sig_a2k :: "int list" where
  "sig_a2k = [0, 1, 2, 3, 4, 5, 6, 7, 8, 9, 10, 11, 12, 13, 14, 15, 16, 17, 18, 19,
     20, 33, 22, 23, 24, 25, 26, 27, 37, 38, 35, 36]"

definition sig_in :: "int \<Rightarrow> int" where
  "sig_in s = (if s > 0 \<and> s < AMX_NSIG then sig_a2k ! nat s else s)"

definition sig_out :: "int \<Rightarrow> int" where
  "sig_out s =
    (if s < 21 \<or> s \<ge> 22 \<and> s \<le> 27 then s
     else if s = 34 then 22
     else (case List.find (\<lambda>i. sig_a2k ! i = s) [21..<nat AMX_NSIG] of
             Some i \<Rightarrow> int i
           | None \<Rightarrow> s))"

section \<open>Signal masks\<close>

definition KBIT :: "int \<Rightarrow> int" where
  "KBIT n = drop_bit (nat ((n - 1) AND 31)) 0x80000000"

definition KWORD :: "int \<Rightarrow> nat" where
  "KWORD n = nat (drop_bit 5 (n - 1))"

definition mask_in :: "int list \<Rightarrow> int list" where
  "mask_in a = fold (\<lambda>n k.
     if a ! 0 AND push_bit (nat (n - 1)) 1 \<noteq> 0
     then k[KWORD (sig_in n) := k ! KWORD (sig_in n) OR KBIT (sig_in n)] else k)
     [1..AMX_NSIG - 1] [0, 0]"

definition mask_out :: "int list \<Rightarrow> int list" where
  "mask_out k = fold (\<lambda>s a.
     if k ! KWORD s AND KBIT s \<noteq> 0
     then (let n = sig_out s in if n > 0 \<and> n \<le> 32 then a[0 := a ! 0 OR push_bit (nat (n - 1)) 1] else a)
     else a)
     [1..int ASV_NSIG - 1] [0, 0, 0, 0]"

lemma sigs_numerals:
  "[1..AMX_NSIG - 1] = [1,2,3,4,5,6,7,8,9,10,11,12,13,14,15,16,17,18,19,20,21,22,23,24,25,26,27,28,29,30,31]"
  by (simp add: AMX_NSIG_def upto_rec1)

lemma sig_in_facts:
  assumes "0 < n" "n < AMX_NSIG"
  shows "sig_out (sig_in n) = n \<and> sig_in n > 0 \<and> sig_in n < 65"
proof -
  have "list_all (\<lambda>n. sig_out (sig_in n) = n \<and> sig_in n > 0 \<and> sig_in n < 65) [1..AMX_NSIG - 1]"
    by code_simp
  then show ?thesis using assms by (simp add: list_all_iff AMX_NSIG_def)
qed

text \<open>The bits a fold of \<open>OR\<close> sets.\<close>

lemma bit_push_1: "bit (push_bit e 1 :: int) j \<longleftrightarrow> e = j"
  by (auto simp: bit_exp_iff)

lemma and_push_1: "(x AND push_bit m 1 \<noteq> 0) = bit (x :: int) m"
  by (simp only: bit_iff_and_push_bit_not_eq_0)

lemma bit_fold_mask:
  "w < length k \<Longrightarrow>
    bit (fold (\<lambda>n k. if P n then k[f n := k ! f n OR push_bit (e n) 1] else k) ns k ! w :: int) j \<longleftrightarrow>
      bit (k ! w) j \<or> (\<exists>n\<in>set ns. P n \<and> f n = w \<and> e n = j)"
proof (induction ns arbitrary: k)
  case Nil
  then show ?case by simp
next
  case (Cons n ns)
  have "k[f n := x] ! w = (if f n = w then x else k ! w)" for x using Cons.prems by simp
  then show ?case using Cons by (auto simp: bit_or_iff bit_push_1 simp del: push_bit_of_1)
qed

lemma length_fold_mask [simp]:
  "length (fold (\<lambda>n k. if P n then k[f n := g n k] else k) ns k) = length k"
  by (induction ns arbitrary: k) auto

definition kpos :: "int \<Rightarrow> nat" where
  "kpos s = nat (31 - (s - 1) mod 32)"

lemma KBIT_exp: "KBIT s = push_bit (kpos s) 1"
proof -
  have a: "(s - 1) AND 31 = (s - 1) mod 32" using and_pow2_minus_1 [of "s - 1" 5] by simp
  have r: "0 \<le> (s - 1) mod 32" "(s - 1) mod 32 < 32" by simp_all
  have e: "(0x80000000 :: int) = push_bit 31 1" by (simp add: push_bit_eq_mult)
  show ?thesis
    unfolding KBIT_def a e kpos_def
    by (rule bit_eqI) (use r in \<open>auto simp: bit_drop_bit_eq bit_push_1 simp del: push_bit_of_1\<close>)
qed

lemma and_KBIT: "(x AND KBIT s \<noteq> 0) = bit x (kpos s)"
  unfolding KBIT_exp by (rule and_push_1)

lemma KWORD_div: "KWORD s = nat ((s - 1) div 32)"
  by (simp add: KWORD_def drop_bit_eq_div)

lemma sig_pos_inj:
  assumes "0 < s" "0 < t" "KWORD s = KWORD t" "kpos s = kpos t"
  shows "s = t"
proof -
  have r: "0 \<le> (x - 1) mod 32" "(x - 1) mod 32 < 32" for x :: int by simp_all
  have "(s - 1) div 32 = (t - 1) div 32"
    using assms(1-3) by (simp add: KWORD_div pos_imp_zdiv_nonneg_iff)
  moreover have "(s - 1) mod 32 = (t - 1) mod 32"
    using assms(4) r [of s] r [of t] by (simp add: kpos_def)
  ultimately have "s - 1 = t - 1" by (metis div_mult_mod_eq)
  then show ?thesis by simp
qed

lemma KWORD_less: "0 < s \<Longrightarrow> s < 65 \<Longrightarrow> KWORD s < 2"
  using int_div_less [of 32 "s - 1" 2] by (simp add: KWORD_div nat_less_iff)

text \<open>The signals in a mask of either kind.\<close>

definition amx_sigs :: "int list \<Rightarrow> int set" where
  "amx_sigs a = {n. 0 < n \<and> n < AMX_NSIG \<and> bit (a ! 0) (nat (n - 1))}"

definition asv_sigs :: "int list \<Rightarrow> int set" where
  "asv_sigs k = {s. 0 < s \<and> s < int ASV_NSIG \<and> bit (k ! KWORD s) (kpos s)}"

lemma length_mask_in [simp]: "length (mask_in a) = 2"
  by (simp add: mask_in_def)

lemma mask_in_sigs: "asv_sigs (mask_in a) = sig_in ` amx_sigs a"
proof -
  have m: "bit (mask_in a ! KWORD s) (kpos s) \<longleftrightarrow>
      (\<exists>n. 0 < n \<and> n < AMX_NSIG \<and> bit (a ! 0) (nat (n - 1)) \<and> sig_in n = s)"
    if s: "0 < s" "s < 65" for s
  proof -
    have z: "[0, 0] ! KWORD s = (0 :: int)" using KWORD_less [OF s] by (auto simp: less_2_cases_iff)
    have f: "bit (fold (\<lambda>n k. if bit (a ! 0) (nat (n - 1))
        then k[KWORD (sig_in n) := k ! KWORD (sig_in n) OR push_bit (kpos (sig_in n)) 1] else k) ns [0, 0 :: int] ! KWORD s)
        (kpos s) \<longleftrightarrow> (\<exists>n\<in>set ns. bit (a ! 0) (nat (n - 1)) \<and> KWORD (sig_in n) = KWORD s \<and> kpos (sig_in n) = kpos s)" for ns
      using KWORD_less [OF s] z bit_fold_mask [of "KWORD s" "[0, 0]" "\<lambda>n. bit (a ! 0) (nat (n - 1))"
          "\<lambda>n. KWORD (sig_in n)" "\<lambda>n. kpos (sig_in n)" ns "kpos s"] by simp
    have u: "n \<in> set [1..AMX_NSIG - 1] \<longleftrightarrow> 0 < n \<and> n < AMX_NSIG" for n by (auto simp: AMX_NSIG_def)
    have "bit (mask_in a ! KWORD s) (kpos s) \<longleftrightarrow> (\<exists>n\<in>set [1..AMX_NSIG - 1].
        bit (a ! 0) (nat (n - 1)) \<and> KWORD (sig_in n) = KWORD s \<and> kpos (sig_in n) = kpos s)"
      unfolding mask_in_def and_push_1 KBIT_exp by (rule f)
    then have "bit (mask_in a ! KWORD s) (kpos s) \<longleftrightarrow>
        (\<exists>n. 0 < n \<and> n < AMX_NSIG \<and> bit (a ! 0) (nat (n - 1)) \<and> KWORD (sig_in n) = KWORD s \<and>
           kpos (sig_in n) = kpos s)"
      unfolding Bex_def u by blast
    then show ?thesis using sig_pos_inj sig_in_facts s by blast
  qed
  have e: "s \<in> sig_in ` amx_sigs a \<longleftrightarrow>
      (\<exists>n. 0 < n \<and> n < AMX_NSIG \<and> bit (a ! 0) (nat (n - 1)) \<and> sig_in n = s)" for s
    by (auto simp: amx_sigs_def)
  have "s \<in> sig_in ` amx_sigs a \<Longrightarrow> 0 < s \<and> s < 65" for s
    unfolding amx_sigs_def using sig_in_facts by auto
  then have "s \<in> asv_sigs (mask_in a) \<longleftrightarrow> s \<in> sig_in ` amx_sigs a" for s
    using m [of s] e [of s] by (auto simp: asv_sigs_def ASV_NSIG_def)
  then show ?thesis by (rule set_eqI)
qed

lemma mask_out_fold:
  "mask_out k = fold (\<lambda>s a. if bit (k ! KWORD s) (kpos s) \<and> 0 < sig_out s \<and> sig_out s \<le> 32
     then a[0 := a ! 0 OR push_bit (nat (sig_out s - 1)) 1] else a) [1..int ASV_NSIG - 1] [0, 0, 0, 0]"
  unfolding mask_out_def and_KBIT
  by (rule arg_cong2 [of _ _ _ _ "\<lambda>f l. fold f l [0, 0, 0, 0]"]) (auto simp: Let_def fun_eq_iff)

lemma bit_mask_out:
  "bit (mask_out k ! 0) j \<longleftrightarrow> (\<exists>s\<in>asv_sigs k. 0 < sig_out s \<and> sig_out s \<le> 32 \<and> nat (sig_out s - 1) = j)"
proof -
  have f: "bit (fold (\<lambda>s a. if bit (k ! KWORD s) (kpos s) \<and> 0 < sig_out s \<and> sig_out s \<le> 32
      then a[0 := a ! 0 OR push_bit (nat (sig_out s - 1)) 1] else a) ns [0, 0, 0, 0 :: int] ! 0) j \<longleftrightarrow>
      (\<exists>s\<in>set ns. (bit (k ! KWORD s) (kpos s) \<and> 0 < sig_out s \<and> sig_out s \<le> 32) \<and> nat (sig_out s - 1) = j)" for ns
    using bit_fold_mask [of 0 "[0, 0, 0, 0]" "\<lambda>s. bit (k ! KWORD s) (kpos s) \<and> 0 < sig_out s \<and> sig_out s \<le> 32"
        "\<lambda>_. 0" "\<lambda>s. nat (sig_out s - 1)" ns j] by simp
  have s: "s \<in> set [1..int ASV_NSIG - 1] \<longleftrightarrow> 0 < s \<and> s < 65" for s by (auto simp: ASV_NSIG_def)
  have "bit (mask_out k ! 0) j \<longleftrightarrow> (\<exists>s\<in>set [1..int ASV_NSIG - 1].
      (bit (k ! KWORD s) (kpos s) \<and> 0 < sig_out s \<and> sig_out s \<le> 32) \<and> nat (sig_out s - 1) = j)"
    unfolding mask_out_fold by (rule f)
  moreover have "s \<in> asv_sigs k \<longleftrightarrow> s \<in> set [1..int ASV_NSIG - 1] \<and> bit (k ! KWORD s) (kpos s)" for s
    unfolding s asv_sigs_def ASV_NSIG_def of_nat_numeral by auto
  ultimately show ?thesis by (simp only: Bex_def conj_assoc)
qed

lemma fold_first:
  "fold (\<lambda>s a. if P s then a[0 := a ! 0 OR g s] else a) ns [x, 0, 0, 0] =
    [fold (\<lambda>s a. if P s then a[0 := a ! 0 OR g s] else a) ns [x, 0, 0, 0] ! 0, 0, 0, 0 :: int]"
  by (induction ns arbitrary: x) auto

lemma mask_out_rest: "mask_out k = [mask_out k ! 0, 0, 0, 0]"
  unfolding mask_out_fold by (rule fold_first)

lemma mask_out_sigs:
  "amx_sigs (mask_out k) = {n. 0 < n \<and> n < AMX_NSIG \<and> n \<in> sig_out ` asv_sigs k}"
proof -
  have "bit (mask_out k ! 0) (nat (n - 1)) \<longleftrightarrow> n \<in> sig_out ` asv_sigs k" if "0 < n" "n < 32" for n
  proof -
    have "sig_out s \<le> 32 \<and> nat (sig_out s - 1) = nat (n - 1) \<longleftrightarrow> sig_out s = n" if "0 < sig_out s" for s
      using that \<open>0 < n\<close> \<open>n < 32\<close> by auto
    then show ?thesis unfolding bit_mask_out using that by blast
  qed
  then show ?thesis by (auto simp: amx_sigs_def AMX_NSIG_def)
qed

lemma mask_roundtrip:
  "mask_out (mask_in a) = [a ! 0 AND 0x7fffffff, 0, 0, 0]"
proof -
  have b: "bit (mask_out (mask_in a) ! 0) j \<longleftrightarrow> bit (a ! 0) j \<and> j < 31" for j
  proof -
    have "bit (mask_out (mask_in a) ! 0) j \<longleftrightarrow>
        (\<exists>n. 0 < n \<and> n < AMX_NSIG \<and> bit (a ! 0) (nat (n - 1)) \<and> nat (n - 1) = j)"
      unfolding bit_mask_out mask_in_sigs amx_sigs_def
      using sig_in_facts by (force simp: AMX_NSIG_def)
    also have "\<dots> \<longleftrightarrow> bit (a ! 0) j \<and> j < 31"
      by (auto simp: AMX_NSIG_def intro!: exI [of _ "int j + 1"])
    finally show ?thesis .
  qed
  have "mask_out (mask_in a) ! 0 = take_bit 31 (a ! 0)"
    by (rule bit_eqI) (auto simp: b bit_take_bit_iff)
  then show ?thesis
    using mask_out_rest [of "mask_in a"] and_pow2_minus_1 [of "a ! 0" 31] by (simp add: take_bit_eq_mod)
qed

section \<open>sigaction, siginfo, the wait status and errno\<close>

definition saf :: "int list list" where
  "saf = [[0x00000001, 0x00010000], [0x00000002, 0x00020000], [0x00000004, 0x00040000],
     [0x00000008, 0x00080000], [0x00000010, 0x00100000], [0x00010000, 0x00000002],
     [0x00020000, 0x00000001]]"

definition saflags :: "int \<Rightarrow> nat \<Rightarrow> nat \<Rightarrow> int" where
  "saflags f from to = fold (\<lambda>e r. if f AND e ! from \<noteq> 0 then r OR e ! to else r) saf 0"

definition sa_in :: "int list \<Rightarrow> int list" where
  "sa_in a = a ! 1 # mask_in (drop 2 a) @ [saflags (a ! 0) 0 1]"

definition sa_out :: "int list \<Rightarrow> int list" where
  "sa_out k = [saflags (k ! 3) 1 0, k ! 0] @ mask_out (drop 1 k) @ [0, 0]"

definition SIGCLD :: int where "SIGCLD = 18"

definition si_out :: "int list \<Rightarrow> int list" where
  "si_out k =
    (let a = [u32 (sig_out (s32 (k ! 0))), k ! 2, k ! 1] @ drop 3 (take 32 k)
     in if s32 (k ! 0) = SIGCLD \<and> s32 (k ! 2) \<ge> 2 \<and> s32 (k ! 2) \<le> 6
        then a[5 := u32 (sig_out (s32 (k ! 5)))] else a)"

definition wstat_out :: "int \<Rightarrow> int" where
  "wstat_out st =
    (if st AND 255 = 127 then (st AND NOT 0xff00) OR push_bit 8 (sig_out (drop_bit 8 st AND 0xff))
     else if st AND 127 \<noteq> 0 then (st AND NOT 127) OR sig_out (st AND 127)
     else st)"

definition errmap :: "(int \<times> int) list" where
  "errmap = [(128, 150), (129, 149), (130, 95), (131, 96), (132, 97),
     (133, 98), (134, 99), (135, 120), (136, 121), (137, 122),
     (138, 123), (139, 124), (140, 125), (141, 126), (142, 127),
     (143, 128), (144, 129), (145, 130), (146, 131), (147, 132),
     (148, 133), (149, 134), (150, 143), (151, 144), (152, 145),
     (153, 146), (156, 147), (157, 148), (158, 93), (160, 94),
     (162, 151), (235, 135), (237, 137), (238, 138), (239, 139),
     (240, 140), (241, 141), (242, 142)]"

definition err_out :: "int \<Rightarrow> int" where
  "err_out e = (if e < 128 then e else case map_of errmap e of Some a \<Rightarrow> a | None \<Rightarrow> e)"

section \<open>stat, termios, utsname, pathconf and the ucontext\<close>

definition st_out :: "int list \<Rightarrow> int list" where
  "st_out k = [k ! 0, 0, 0, 0, k ! 1, k ! 2, k ! 3, k ! 4, k ! 5, k ! 6, 0, 0, k ! 7, 0] @
     take 12 (drop 14 k) @ replicate 8 0"

definition tios_in :: "byte list \<Rightarrow> byte list" where
  "tios_in a = take 16 a @ [0] @ take 19 (drop 16 a)"

definition tios_out :: "byte list \<Rightarrow> byte list" where
  "tios_out k = take 16 k @ take 19 (drop 17 k)"

definition uts_out :: "byte list \<Rightarrow> byte list" where
  "uts_out k = concat (map (\<lambda>i. take 256 (drop (i * 256) k) @ [0]) [0..<5])"

definition UC_FAULT :: int where "UC_FAULT = 8"

definition uc_in :: "byte list \<Rightarrow> byte list" where
  "uc_in a = p32 (g32 a 0 AND NOT UC_FAULT) @ take 4 (drop 4 a) @
     bytes (mask_in (longs (take 16 (drop 8 a)))) @ take 12 (drop 24 a) @ take 988 (drop 36 a) @
     replicate 8 0"

definition uc_out :: "byte list \<Rightarrow> byte list" where
  "uc_out k = p32 (g32 k 0 AND NOT UC_FAULT) @ take 4 (drop 4 k) @
     bytes (mask_out (longs (take 8 (drop 8 k)))) @ take 12 (drop 16 k) @ take 988 (drop 28 k)"

definition pc_in :: "int \<Rightarrow> int" where
  "pc_in n = (if n = 7 then 8 else if n = 8 then 9 else if n = 9 then 7 else n)"

section \<open>What the conversions keep\<close>

definition saf_bits :: "(nat \<times> nat) list" where
  "saf_bits = [(0, 16), (1, 17), (2, 18), (3, 19), (4, 20), (16, 1), (17, 0)]"

lemma saf_eq: "saf = map (\<lambda>(x, y). [push_bit x 1, push_bit y 1]) saf_bits"
  by code_simp

lemma bit_fold_if:
  "bit (fold (\<lambda>e r. if P e then r OR g e else r) es (r0 :: int)) j \<longleftrightarrow>
    bit r0 j \<or> (\<exists>e\<in>set es. P e \<and> bit (g e) j)"
  by (induction es arbitrary: r0) (auto simp: bit_or_iff)

lemma bit_saflags_in: "bit (saflags f 0 1) j \<longleftrightarrow> (\<exists>(x, y)\<in>set saf_bits. bit f x \<and> y = j)"
  unfolding saflags_def bit_fold_if
  by (auto simp: saf_eq and_push_1 bit_push_1 split_beta simp del: push_bit_of_1)

lemma bit_saflags_out: "bit (saflags f 1 0) j \<longleftrightarrow> (\<exists>(x, y)\<in>set saf_bits. bit f y \<and> x = j)"
  unfolding saflags_def bit_fold_if
  by (auto simp: saf_eq and_push_1 bit_push_1 split_beta simp del: push_bit_of_1)

lemma bit_saf_mask: "bit (0x3001F :: int) j \<longleftrightarrow> j \<in> fst ` set saf_bits"
proof (cases "j < 18")
  case True
  have "list_all (\<lambda>j. bit (0x3001F :: int) j \<longleftrightarrow> j \<in> fst ` set saf_bits) [0..<18]"
    by code_simp
  then show ?thesis using True by (simp add: list_all_iff)
next
  case False
  then have "(2 :: int) ^ 18 \<le> 2 ^ j" by (intro power_increasing) simp_all
  then have "(0x3001F :: int) div 2 ^ j = 0" by (intro div_pos_pos_trivial) simp_all
  then have "\<not> bit (0x3001F :: int) j" by (simp only: bit_iff_odd) simp
  then show ?thesis using False by (auto simp: saf_bits_def)
qed

lemma saflags_roundtrip: "saflags (saflags f 0 1) 1 0 = f AND 0x3001F"
proof (rule bit_eqI)
  fix j
  have d: "(x, y) \<in> set saf_bits \<Longrightarrow> (x', y) \<in> set saf_bits \<Longrightarrow> x' = x" for x x' y
    by (auto simp: saf_bits_def)
  have "bit (saflags (saflags f 0 1) 1 0) j \<longleftrightarrow> (\<exists>y. (j, y) \<in> set saf_bits \<and> bit f j)"
    unfolding bit_saflags_out bit_saflags_in using d by blast
  then show "bit (saflags (saflags f 0 1) 1 0) j \<longleftrightarrow> bit (f AND 0x3001F) j"
    by (force simp: bit_and_iff bit_saf_mask image_iff)
qed

lemma mask_out_append: "length k = 2 \<Longrightarrow> mask_out (k @ x) = mask_out k"
proof -
  assume k: "length k = 2"
  have "(k @ x) ! KWORD s = k ! KWORD s" if "s \<in> set [1..int ASV_NSIG - 1]" for s
    using KWORD_less [of s] that k by (simp add: nth_append ASV_NSIG_def)
  then show ?thesis unfolding mask_out_def by (intro fold_cong) (auto simp: fun_eq_iff)
qed

lemma sigaction_roundtrip:
  assumes "length a = 8"
  shows "sa_out (sa_in a) = [a ! 0 AND 0x3001F, a ! 1, a ! 2 AND 0x7fffffff, 0, 0, 0, 0, 0]"
proof -
  have "sa_in a ! 3 = saflags (a ! 0) 0 1" "sa_in a ! 0 = a ! 1"
    by (simp_all add: sa_in_def nth_append)
  moreover have "mask_out (drop 1 (sa_in a)) = [a ! 2 AND 0x7fffffff, 0, 0, 0]"
    using mask_roundtrip [of "drop 2 a"] mask_out_append [of "mask_in (drop 2 a)"] assms by (simp add: sa_in_def)
  ultimately show ?thesis
    using saflags_roundtrip [of "a ! 0"] by (simp add: sa_out_def)
qed

lemma length_mask_out [simp]: "length (mask_out k) = 4"
  using arg_cong [OF mask_out_rest [of k], of length] by simp

lemma mask_in_bit:
  assumes "w < 2" "bit (mask_in a ! w) j"
  shows "j < 32"
proof -
  have k: "kpos s < 32" for s by (simp add: kpos_def)
  have z: "[0, 0] ! w = (0 :: int)" using assms(1) by (auto simp: less_2_cases_iff)
  have f: "bit (fold (\<lambda>n k. if bit (a ! 0) (nat (n - 1))
      then k[KWORD (sig_in n) := k ! KWORD (sig_in n) OR push_bit (kpos (sig_in n)) 1] else k) ns [0, 0 :: int] ! w)
      j \<longleftrightarrow> (\<exists>n\<in>set ns. bit (a ! 0) (nat (n - 1)) \<and> KWORD (sig_in n) = w \<and> kpos (sig_in n) = j)" for ns
    using assms(1) z bit_fold_mask [of w "[0, 0]" "\<lambda>n. bit (a ! 0) (nat (n - 1))"
        "\<lambda>n. KWORD (sig_in n)" "\<lambda>n. kpos (sig_in n)" ns j] by simp
  show ?thesis
    using assms(2) k unfolding mask_in_def and_push_1 KBIT_exp f by blast
qed

lemma u32_bits: "(\<And>j. bit x j \<Longrightarrow> j < 32) \<Longrightarrow> u32 x = x"
proof -
  assume "\<And>j. bit x j \<Longrightarrow> j < 32"
  then have "take_bit 32 x = x" by (intro bit_eqI) (auto simp: bit_take_bit_iff)
  then show ?thesis by (simp add: u32_def take_bit_eq_mod)
qed

lemma mask_in_u32: "map u32 (mask_in a) = mask_in a"
  by (rule nth_equalityI) (auto intro: u32_bits mask_in_bit)

lemma longs_0: "4 \<le> length b \<Longrightarrow> longs b ! 0 = g32 b 0"
  by (cases b rule: longs.cases) (auto simp: g32_def g16_def g8_def)

lemma mask_bytes_roundtrip:
  assumes "length b = 16"
  shows "bytes (mask_out (longs (bytes (mask_in (longs b))))) =
    p32 (g32 b 0 AND 0x7fffffff) @ replicate 12 0"
proof -
  have z: "bytes [0, 0, 0] = replicate 12 0" by (simp add: p32_def p16_def numeral_eq_Suc)
  show ?thesis
    using mask_roundtrip [of "longs b"] longs_0 [of b] assms z
    by (simp add: longs_bytes mask_in_u32)
qed

lemma uc_roundtrip:
  assumes "length a = 1024"
  shows "uc_out (uc_in a) = p32 (g32 a 0 AND NOT UC_FAULT) @ take 4 (drop 4 a) @
    p32 (g32 a 8 AND 0x7fffffff) @ replicate 12 0 @ drop 24 a"
proof -
  have m: "bytes (mask_out (longs (bytes (mask_in (longs (take 16 (drop 8 a))))))) =
      p32 (g32 a 8 AND 0x7fffffff) @ replicate 12 0"
    using mask_bytes_roundtrip [of "take 16 (drop 8 a)"] assms
    by (simp add: g32_def g16_def g8_def)
  have s: "take 12 (drop 24 a) @ drop 36 a = drop 24 a"
    using append_take_drop_id [of 12 "drop 24 a"] by simp
  have f: "u32 (g32 a 0 AND NOT UC_FAULT) AND NOT UC_FAULT = g32 a 0 AND NOT UC_FAULT"
  proof -
    have "0 \<le> g32 a 0 AND NOT UC_FAULT" "g32 a 0 AND NOT UC_FAULT \<le> g32 a 0" by (simp_all add: AND_upper1)
    then show ?thesis using g32_bounds [of a 0] by (simp add: u32_id and.assoc)
  qed
  have g: "g32 (p32 v @ x) 0 = u32 v" for v x by (simp add: g32_append_left g32_p32)
  show ?thesis
    using assms unfolding uc_out_def uc_in_def by (simp add: g f m s)
qed

lemma uc_context_lost:
  assumes "length k = 1024"
  shows "drop 16 (uc_in (uc_out k)) = take 1000 (drop 16 k) @ replicate 8 0"
proof -
  have "take 12 (drop 16 k) @ take 988 (drop 28 k) = take 1000 (drop 16 k)"
    using take_add [of 12 988 "drop 16 k"] by simp
  then show ?thesis
    using assms append_take_drop_id [of 12 "take 1000 (drop 16 k)"] by (simp add: uc_in_def uc_out_def)
qed

lemma tios_roundtrip: "length a = 35 \<Longrightarrow> tios_out (tios_in a) = a"
  by (simp add: tios_in_def tios_out_def append_take_drop_id)

lemma cstr_append_nul: "cstr (x @ [0]) = cstr x"
  by (induction x) (auto simp: cstr_def)

lemma uts_field:
  assumes "length k = 1280" "i < 5"
  shows "cstr (take 257 (drop (257 * i) (uts_out k))) = cstr (take 256 (drop (256 * i) k))"
proof -
  have "i \<in> {0, 1, 2, 3, 4}" using assms(2) by auto
  then have "take 257 (drop (257 * i) (uts_out k)) = take 256 (drop (256 * i) k) @ [0]"
    using assms(1) by (auto simp: uts_out_def upt_rec)
  then show ?thesis by (simp add: cstr_append_nul)
qed

lemma err_out_inj:
  assumes "e \<in> fst ` set errmap" "e' \<in> fst ` set errmap" "err_out e = err_out e'"
  shows "e = e'"
proof -
  have "list_all (\<lambda>e. list_all (\<lambda>e'. err_out e = err_out e' \<longrightarrow> e = e') (map fst errmap)) (map fst errmap)"
    by code_simp
  then show ?thesis using assms by (auto simp: list_all_iff)
qed

lemma sig_out_less:
  assumes "0 \<le> s" "s < 2 ^ k" "5 \<le> k"
  shows "0 \<le> sig_out s \<and> sig_out s < 2 ^ k"
proof -
  have "(2 :: int) ^ 5 \<le> 2 ^ k" using assms(3) by (intro power_increasing) simp_all
  then show ?thesis
    using assms(1,2) by (auto simp: sig_out_def AMX_NSIG_def split: option.splits dest!: find_SomeD)
qed

lemma or_low_high: "0 \<le> a \<Longrightarrow> a < 2 ^ k \<Longrightarrow> a OR push_bit k b = a + 2 ^ k * (b :: int)"
proof -
  assume "0 \<le> a" "a < 2 ^ k"
  then have "take_bit k a = a" by (simp add: take_bit_int_eq_self_iff)
  then have "\<not> (bit a j \<and> bit (push_bit k b) j)" for j
    by (metis bit_push_bit_iff bit_take_bit_iff leD)
  then have "a + push_bit k b = a OR push_bit k b" by (intro disjunctive_add) auto
  then show ?thesis by (simp add: push_bit_eq_mult mult.commute)
qed

lemma wstat_parts:
  assumes "0 \<le> st" "st < 65536"
  shows "wstat_out st =
    (if st mod 256 = 127 then sig_out (st div 256) * 256 + 127
     else if st mod 128 \<noteq> 0 then st - st mod 128 + sig_out (st mod 128)
     else st)"
proof -
  have m: "st AND 255 = st mod 256" "st AND 127 = st mod 128" "st AND NOT 127 = st - st mod 128"
    using and_pow2_minus_1 [of st 8] and_pow2_minus_1 [of st 7] and_not_pow2_minus_1 [of st 7] by simp_all
  have d: "drop_bit 8 st AND 0xff = st div 256"
    using and_pow2_minus_1 [of "st div 256" 8] assms int_div_less [of 256 st 256]
    by (simp add: drop_bit_eq_div pos_imp_zdiv_nonneg_iff)
  have h: "st AND NOT 0xff00 = st mod 256"
  proof (rule bit_eqI)
    fix j
    have "take_bit 16 st = st" using assms by (simp add: take_bit_int_eq_self_iff)
    then have "bit st j \<Longrightarrow> j < 16" by (metis bit_take_bit_iff)
    moreover have e: "(0xff00 :: int) = push_bit 8 (mask 8)" "st mod 256 = take_bit 8 st"
      by (simp_all add: push_bit_eq_mult mask_eq_exp_minus_1 take_bit_eq_mod)
    ultimately show "bit (st AND NOT 0xff00) j \<longleftrightarrow> bit (st mod 256) j"
      unfolding e by (auto simp: bit_simps)
  qed
  have l: "(st - st mod 128) OR sig_out (st mod 128) = st - st mod 128 + sig_out (st mod 128)"
  proof -
    have "st - st mod 128 = push_bit 7 (st div 128)" by (simp add: push_bit_eq_mult minus_mod_eq_mult_div mult.commute)
    then show ?thesis
      using or_low_high [of "sig_out (st mod 128)" 7 "st div 128"] sig_out_less [of "st mod 128" 7]
      by (simp add: or.commute push_bit_eq_mult mult.commute)
  qed
  show ?thesis
    using or_low_high [of 127 8 "sig_out (st div 256)"]
    unfolding wstat_out_def m d h l by auto
qed

end
