(* ===== verification/AmxGate.thy ===== *)
theory AmxGate
  imports AmxConv
begin

text \<open>
  The gate of \<open>driver-amix/amx.c\<close>: user memory, the table of contexts that signals delivered,
  the \<open>trap #0\<close> entry and signal delivery. The kernel's \<open>svr4_trap10\<close>, \<open>sendsig\<close>, \<open>grow\<close>
  and its table of argument counts are the parameters in \<open>kenv\<close>.
\<close>

section \<open>User memory\<close>

text \<open>An address that is not mapped faults; \<open>copyout\<close> has then written what lies before it.\<close>

type_synonym umem = "int \<rightharpoonup> byte"

fun copyin :: "umem \<Rightarrow> int \<Rightarrow> nat \<Rightarrow> byte list option" where
  "copyin m a 0 = Some []"
| "copyin m a (Suc n) =
    (case m (u32 a) of
       None \<Rightarrow> None
     | Some b \<Rightarrow> (case copyin m (a + 1) n of None \<Rightarrow> None | Some bs \<Rightarrow> Some (b # bs)))"

fun copyout :: "umem \<Rightarrow> int \<Rightarrow> byte list \<Rightarrow> bool \<times> umem" where
  "copyout m a [] = (True, m)"
| "copyout m a (b # bs) =
    (case m (u32 a) of
       None \<Rightarrow> (False, m)
     | Some _ \<Rightarrow> copyout (m(u32 a \<mapsto> b)) (a + 1) bs)"

definition conv_copy ::
    "umem \<Rightarrow> int \<Rightarrow> nat \<Rightarrow> (byte list \<Rightarrow> byte list) \<Rightarrow> int \<Rightarrow> bool \<times> umem" where
  "conv_copy m src n f dst =
    (case copyin m src n of None \<Rightarrow> (False, m) | Some b \<Rightarrow> copyout m dst (f b))"

definition via :: "(int list \<Rightarrow> int list) \<Rightarrow> byte list \<Rightarrow> byte list" where
  "via f b = bytes (f (longs b))"

section \<open>The state\<close>

datatype opstab = SVR4_OPS | AMX_OPS | OTHER_OPS

text \<open>The frame of a trap: d0-d7 and a0-a7, the low byte of SR, the PC.\<close>

record uframe =
  f_r :: "int list"
  f_sr :: int
  f_pc :: int

text \<open>\<open>x_kmem\<close>: how many work buffers of the gate are allocated.\<close>

record amx =
  x_fr :: uframe
  x_mem :: umem
  x_ops :: opstab
  x_proc :: nat
  x_uctab :: "(nat \<times> int) list"
  x_ucnext :: nat
  x_calls :: int
  x_kmem :: nat

record kenv =
  k_narg :: "int \<Rightarrow> nat"
  k_sysentsize :: int
  k_trap10 :: "amx \<Rightarrow> int \<times> amx"
  k_grow :: "int \<Rightarrow> umem \<Rightarrow> umem"
  k_sendsig :: "int \<Rightarrow> int \<Rightarrow> int \<Rightarrow> amx \<Rightarrow> int \<times> amx"
  k_junk :: "int list"

definition D0 :: nat where "D0 = 0"
definition D1 :: nat where "D1 = 1"
definition USP :: nat where "USP = 15"

definition paramstoregs :: "nat list" where
  "paramstoregs = [8, 1, 9, 2, 10, 3, 11, 4, 12, 5]"

definition NREGARGS :: nat where "NREGARGS = length paramstoregs"

definition reg :: "amx \<Rightarrow> nat \<Rightarrow> int" where
  "reg st i = f_r (x_fr st) ! i"

definition set_reg :: "nat \<Rightarrow> int \<Rightarrow> amx \<Rightarrow> amx" where
  "set_reg i v st = st\<lparr>x_fr := (x_fr st)\<lparr>f_r := (f_r (x_fr st))[i := v]\<rparr>\<rparr>"

definition EFAULT :: int where "EFAULT = 14"

definition SYS_wait :: int where "SYS_wait = 7"
definition SYS_kill :: int where "SYS_kill = 37"
definition SYS_signal :: int where "SYS_signal = 48"
definition SYS_ioctl :: int where "SYS_ioctl = 54"
definition SYS_sigprocmask :: int where "SYS_sigprocmask = 95"
definition SYS_sigsuspend :: int where "SYS_sigsuspend = 96"
definition SYS_sigaction :: int where "SYS_sigaction = 98"
definition SYS_sigpending :: int where "SYS_sigpending = 99"
definition SYS_context :: int where "SYS_context = 100"
definition SYS_waitsys :: int where "SYS_waitsys = 107"
definition SYS_sigsendsys :: int where "SYS_sigsendsys = 108"
definition SYS_pathconf :: int where "SYS_pathconf = 113"
definition SYS_fpathconf :: int where "SYS_fpathconf = 118"
definition SYS_xstat :: int where "SYS_xstat = 123"
definition SYS_lxstat :: int where "SYS_lxstat = 124"
definition SYS_fxstat :: int where "SYS_fxstat = 125"
definition SYS_nuname :: int where "SYS_nuname = 135"

lemmas sys_defs = SYS_wait_def SYS_kill_def SYS_signal_def SYS_ioctl_def SYS_sigprocmask_def
  SYS_sigsuspend_def SYS_sigaction_def SYS_sigpending_def SYS_context_def SYS_waitsys_def
  SYS_sigsendsys_def SYS_pathconf_def SYS_fpathconf_def SYS_xstat_def SYS_lxstat_def
  SYS_fxstat_def SYS_nuname_def

definition TCGETS :: int where "TCGETS = push_bit 8 84 OR 13"
definition TCSETSF :: int where "TCSETSF = push_bit 8 84 OR 16"
definition STAT_VER :: int where "STAT_VER = 2"
definition SCRATCH :: int where "SCRATCH = 2048"

section \<open>The contexts signals delivered\<close>

definition AMX_NUC :: nat where "AMX_NUC = 64"

definition amx_uctake :: "nat \<Rightarrow> int \<Rightarrow> (nat \<times> int) list \<times> nat \<Rightarrow> (nat \<times> int) list \<times> nat" where
  "amx_uctake p uc t =
    (case t of (tab, next) \<Rightarrow>
      (case List.find (\<lambda>i. fst (tab ! i) = 0) [0..<AMX_NUC] of
         Some i \<Rightarrow> (tab[i := (p, uc)], next)
       | None \<Rightarrow> (tab[next := (p, uc)], (next + 1) mod AMX_NUC)))"

definition amx_ucgive :: "nat \<Rightarrow> int \<Rightarrow> (nat \<times> int) list \<Rightarrow> bool \<times> (nat \<times> int) list" where
  "amx_ucgive p uc tab =
    (case List.find (\<lambda>i. tab ! i = (p, uc)) [0..<AMX_NUC] of
       Some i \<Rightarrow> (True, tab[i := (0, 0)])
     | None \<Rightarrow> (False, tab))"

section \<open>Before the call\<close>

datatype post = POST_NONE | POST_STAT | POST_SIGMASK | POST_SIGACTION | POST_SIGINFO | POST_TCGETS
  | POST_UNAME | POST_CONTEXT | POST_WAIT

record gcall =
  g_args :: "int list"
  g_post :: post
  g_ubuf :: int
  g_ksrc :: int

definition gate_nargs :: "kenv \<Rightarrow> int \<Rightarrow> nat" where
  "gate_nargs env num =
    (let n = (if num < k_sysentsize env then k_narg env num else 0)
     in if n > NREGARGS then NREGARGS else n)"

text \<open>The arguments above the return address; the rest of the array is what the stack held.\<close>

definition gate_args :: "kenv \<Rightarrow> nat \<Rightarrow> amx \<Rightarrow> int list" where
  "gate_args env n st =
    (if n > 0 then
       (case copyin (x_mem st) (reg st USP + 4) (n * 4) of
          Some b \<Rightarrow> longs b @ drop n (k_junk env)
        | None \<Rightarrow> replicate n 0 @ drop n (k_junk env))
     else k_junk env)"

definition gate_tmp :: "amx \<Rightarrow> int" where
  "gate_tmp st = u32 ((reg st USP - 64 AND NOT 3) - SCRATCH)"

text \<open>
  \<open>amx_in\<close>: argument \<open>i\<close> points to a structure of \<open>n\<close> bytes, whose conversion the kernel gets
  in scratch space. \<open>amx_outp\<close>: the kernel's answer for argument \<open>i\<close> goes to scratch space and
  is converted after the call.
\<close>

definition amx_in ::
    "nat \<Rightarrow> nat \<Rightarrow> (byte list \<Rightarrow> byte list) \<Rightarrow> int \<Rightarrow> gcall \<Rightarrow> amx \<Rightarrow> gcall option \<times> amx" where
  "amx_in i n f tmp c st =
    (case conv_copy (x_mem st) (g_args c ! i) n f tmp of
       (ok, m) \<Rightarrow> (if ok then Some (c\<lparr>g_args := (g_args c)[i := tmp]\<rparr>) else None, st\<lparr>x_mem := m\<rparr>))"

definition amx_outp :: "nat \<Rightarrow> int \<Rightarrow> post \<Rightarrow> gcall \<Rightarrow> gcall" where
  "amx_outp i dst p c =
    c\<lparr>g_ubuf := g_args c ! i, g_ksrc := dst, g_args := (g_args c)[i := dst], g_post := p\<rparr>"

definition amx_arg :: "nat \<Rightarrow> (int \<Rightarrow> int) \<Rightarrow> gcall \<Rightarrow> gcall" where
  "amx_arg i f c = c\<lparr>g_args := (g_args c)[i := f (g_args c ! i)]\<rparr>"

definition pre_inout ::
    "nat \<Rightarrow> (byte list \<Rightarrow> byte list) \<Rightarrow> int \<Rightarrow> int \<Rightarrow> post \<Rightarrow> gcall \<Rightarrow> amx \<Rightarrow> gcall option \<times> amx" where
  "pre_inout n f tmp dst p c st =
    (case (if g_args c ! 1 \<noteq> 0 then amx_in 1 n f tmp c st else (Some c, st)) of
       (None, st1) \<Rightarrow> (None, st1)
     | (Some c1, st1) \<Rightarrow> (Some (if g_args c1 ! 2 \<noteq> 0 then amx_outp 2 dst p c1 else c1), st1))"

definition pre_context :: "int \<Rightarrow> gcall \<Rightarrow> amx \<Rightarrow> gcall option \<times> amx" where
  "pre_context tmp c st =
    (if g_args c ! 0 = 0 then (Some (amx_outp 1 tmp POST_CONTEXT c), st)
     else if g_args c ! 0 = 1 then
       (case amx_ucgive (x_proc st) (g_args c ! 1) (x_uctab st) of
          (True, tab) \<Rightarrow> (Some c, st\<lparr>x_uctab := tab\<rparr>)
        | (False, _) \<Rightarrow> amx_in 1 1024 uc_in tmp c st)
     else (Some c, st))"

definition pre_ioctl :: "int \<Rightarrow> gcall \<Rightarrow> amx \<Rightarrow> gcall option \<times> amx" where
  "pre_ioctl tmp c st =
    (if s32 (g_args c ! 1) = TCGETS then (Some (amx_outp 2 tmp POST_TCGETS c), st)
     else if s32 (g_args c ! 1) > TCGETS \<and> s32 (g_args c ! 1) \<le> TCSETSF then amx_in 2 35 tios_in tmp c st
     else (Some c, st))"

definition amx_pre :: "int \<Rightarrow> int list \<Rightarrow> int \<Rightarrow> amx \<Rightarrow> gcall option \<times> amx" where
  "amx_pre num args tmp st =
    (let c = \<lparr>g_args = args, g_post = POST_NONE, g_ubuf = 0, g_ksrc = tmp\<rparr>
     in if num = SYS_kill \<or> num = SYS_sigsendsys then
          (Some (amx_arg 1 (\<lambda>v. u32 (sig_in (s32 v))) c), st)
        else if num = SYS_signal then
          (Some (amx_arg 0 (\<lambda>v. (v AND NOT 0xff) OR sig_in (v AND 0xff)) c), st)
        else if num = SYS_sigprocmask then
          pre_inout 16 (via mask_in) tmp (u32 (tmp + 8)) POST_SIGMASK
            (if s32 (args ! 0) \<ge> 1 \<and> s32 (args ! 0) \<le> 3 then amx_arg 0 (\<lambda>v. v - 1) c else c) st
        else if num = SYS_sigsuspend then amx_in 0 16 (via mask_in) tmp c st
        else if num = SYS_sigpending then
          (Some (if args ! 1 \<noteq> 0 then amx_outp 1 tmp POST_SIGMASK c else c), st)
        else if num = SYS_sigaction then
          pre_inout 32 (via sa_in) tmp (u32 (tmp + 16)) POST_SIGACTION
            (amx_arg 0 (\<lambda>v. u32 (sig_in (s32 v))) c) st
        else if num = SYS_waitsys then
          (Some (if args ! 2 \<noteq> 0 then amx_outp 2 tmp POST_SIGINFO c else c), st)
        else if num = SYS_wait then (Some (c\<lparr>g_post := POST_WAIT\<rparr>), st)
        else if num = SYS_context then pre_context tmp c st
        else if num = SYS_xstat \<or> num = SYS_lxstat \<or> num = SYS_fxstat then
          (Some (if args ! 0 = STAT_VER then amx_outp 2 tmp POST_STAT c else c), st)
        else if num = SYS_ioctl then pre_ioctl tmp c st
        else if num = SYS_nuname then (Some (amx_outp 0 tmp POST_UNAME c), st)
        else if num = SYS_pathconf \<or> num = SYS_fpathconf then
          (Some (amx_arg 1 (\<lambda>v. u32 (pc_in (s32 v))) c), st)
        else (Some c, st))"

section \<open>After the call\<close>

text \<open>What is copied back: its size in the kernel's layout and the conversion.\<close>

definition post_conv :: "post \<Rightarrow> (nat \<times> (byte list \<Rightarrow> byte list)) option" where
  "post_conv p =
    (case p of
       POST_NONE \<Rightarrow> None
     | POST_WAIT \<Rightarrow> None
     | POST_STAT \<Rightarrow> Some (104, via st_out)
     | POST_SIGMASK \<Rightarrow> Some (8, via mask_out)
     | POST_SIGACTION \<Rightarrow> Some (16, via sa_out)
     | POST_SIGINFO \<Rightarrow> Some (128, via si_out)
     | POST_TCGETS \<Rightarrow> Some (36, tios_out)
     | POST_UNAME \<Rightarrow> Some (1280, uts_out)
     | POST_CONTEXT \<Rightarrow> Some (1024, uc_out))"

definition amx_fail :: "int \<Rightarrow> amx \<Rightarrow> amx" where
  "amx_fail e st =
    (let st1 = set_reg D0 (u32 (err_out e)) st
     in st1\<lparr>x_fr := (x_fr st1)\<lparr>f_sr := f_sr (x_fr st1) OR 1\<rparr>\<rparr>)"

definition amx_post :: "gcall \<Rightarrow> amx \<Rightarrow> amx" where
  "amx_post c st =
    (if g_post c = POST_WAIT then set_reg D1 (wstat_out (reg st D1)) st
     else (case post_conv (g_post c) of
             None \<Rightarrow> st
           | Some (n, f) \<Rightarrow>
             (case conv_copy (x_mem st) (g_ksrc c) n f (g_ubuf c) of
                (True, m) \<Rightarrow> st\<lparr>x_mem := m\<rparr>
              | (False, m) \<Rightarrow> amx_fail EFAULT (st\<lparr>x_mem := m\<rparr>))))"

section \<open>The gate\<close>

definition needs_buf :: "int \<Rightarrow> bool" where
  "needs_buf num \<longleftrightarrow> num \<in> {SYS_sigprocmask, SYS_sigsuspend, SYS_sigpending, SYS_sigaction,
     SYS_waitsys, SYS_context, SYS_xstat, SYS_lxstat, SYS_fxstat, SYS_ioctl, SYS_nuname}"

definition amx_free :: "bool \<Rightarrow> amx \<Rightarrow> amx" where
  "amx_free kb st = (if kb then st\<lparr>x_kmem := x_kmem st - 1\<rparr> else st)"

definition set_params :: "nat \<Rightarrow> int list \<Rightarrow> amx \<Rightarrow> amx" where
  "set_params n args st = fold (\<lambda>i. set_reg (paramstoregs ! i) (args ! i)) [0..<n] st"

definition restore_params :: "nat \<Rightarrow> int list \<Rightarrow> amx \<Rightarrow> amx" where
  "restore_params n save st = fold (\<lambda>i. set_reg (paramstoregs ! i) (save ! i)) [3..<n] st"

definition amx_enter :: "amx \<Rightarrow> amx" where
  "amx_enter st =
    st\<lparr>x_calls := s32 (x_calls st + 1), x_ops := (if x_ops st = SVR4_OPS then AMX_OPS else x_ops st)\<rparr>"

definition amx_call :: "kenv \<Rightarrow> nat \<Rightarrow> gcall \<Rightarrow> amx \<Rightarrow> int \<times> amx" where
  "amx_call env n c st =
    (let save = map (\<lambda>i. reg st (paramstoregs ! i)) [0..<n];
         st1 = set_params n (g_args c) st;
         pc = f_pc (x_fr st1)
     in (case k_trap10 env st1 of (rv, st2) \<Rightarrow>
          if f_pc (x_fr st2) \<noteq> pc then (rv, st2)
          else
            let st3 = restore_params n save st2
            in if f_sr (x_fr st3) AND 1 \<noteq> 0
               then (rv, set_reg D0 (u32 (err_out (s32 (reg st3 D0)))) st3)
               else (rv, amx_post c st3)))"

definition amx_trap0 :: "kenv \<Rightarrow> amx \<Rightarrow> int \<times> amx" where
  "amx_trap0 env st =
    (let st0 = amx_enter st;
         num = reg st0 D0;
         n = gate_nargs env num;
         args = gate_args env n st0;
         tmp = gate_tmp st0;
         kb = needs_buf num;
         st1 = (if kb then st0\<lparr>x_kmem := x_kmem st0 + 1\<rparr> else st0)
     in (case amx_pre num args tmp st1 of
           (None, st2) \<Rightarrow> (0, amx_fail EFAULT (amx_free kb st2))
         | (Some c, st2) \<Rightarrow>
             (case amx_call env n c (st2\<lparr>x_mem := k_grow env tmp (x_mem st2)\<rparr>) of
                (rv, st3) \<Rightarrow> (rv, amx_free kb st3))))"

section \<open>Signal delivery and initialisation\<close>

definition fuword :: "umem \<Rightarrow> int \<Rightarrow> int" where
  "fuword m a = (case copyin m a 4 of None \<Rightarrow> -1 | Some b \<Rightarrow> gl32 b 0)"

definition amx_sendsig :: "kenv \<Rightarrow> int \<Rightarrow> int \<Rightarrow> int \<Rightarrow> amx \<Rightarrow> int \<times> amx" where
  "amx_sendsig env sig sip hdlr st =
    (case k_sendsig env sig sip hdlr st of (rv, st1) \<Rightarrow>
      if rv = 0 then (rv, st1)
      else
        let usp = reg st1 USP;
            m1 = snd (copyout (x_mem st1) (usp + 4) (p32 (sig_out sig)));
            (tab, next) = amx_uctake (x_proc st1) (u32 (fuword m1 (usp + 12))) (x_uctab st1, x_ucnext st1);
            info = fuword m1 (usp + 8);
            m2 = (if info \<noteq> 0 \<and> info \<noteq> -1 then
                    (case copyin m1 info 128 of
                       None \<Rightarrow> m1
                     | Some b \<Rightarrow> snd (copyout m1 info (via si_out b)))
                  else m1)
        in (rv, st1\<lparr>x_mem := m2, x_uctab := tab, x_ucnext := next\<rparr>))"

datatype trapfunc = AMX_TRAP0 | NATIVE_TRAP nat
datatype sigfunc = AMX_SENDSIG | NATIVE_SENDSIG

record syscallops =
  s_trapfunc :: "nat \<Rightarrow> trapfunc"
  s_sendsig :: sigfunc

text \<open>The two tables: \<open>svr4_syscallops\<close> and \<open>amx_ops\<close>.\<close>

definition amxinit :: "syscallops \<Rightarrow> syscallops \<times> syscallops" where
  "amxinit svr4 =
    (let ops = svr4\<lparr>s_trapfunc := (s_trapfunc svr4)(0 := AMX_TRAP0), s_sendsig := AMX_SENDSIG\<rparr>
     in (svr4\<lparr>s_trapfunc := (s_trapfunc svr4)(0 := AMX_TRAP0)\<rparr>, ops))"

end
