(* ===== verification/AmxInv.thy ===== *)
theory AmxInv
  imports AmxGate "HOL-Library.Multiset"
begin

text \<open>
  Lemmas of the AMIX gate: the contract of user memory and of the table of contexts as
  locales with their interpretations, and what the gate does to the registers.
\<close>

section \<open>User memory\<close>

text \<open>
  \<open>rd m a n\<close> reads, \<open>wr m a b\<close> writes. What was written reads back, a read elsewhere is not
  affected, and writing works where reading does.
\<close>

locale user_memory =
  fixes rd :: "'m \<Rightarrow> int \<Rightarrow> nat \<Rightarrow> byte list option"
    and wr :: "'m \<Rightarrow> int \<Rightarrow> byte list \<Rightarrow> bool \<times> 'm"
  assumes rd_length: "rd m a n = Some b \<Longrightarrow> length b = n"
    and wr_rd: "0 \<le> a \<Longrightarrow> a + int (length b) \<le> 4294967296 \<Longrightarrow> wr m a b = (True, m') \<Longrightarrow>
      rd m' a (length b) = Some b"
    and wr_other: "0 \<le> a \<Longrightarrow> a + int (length b) \<le> 4294967296 \<Longrightarrow> 0 \<le> c \<Longrightarrow> c + int n \<le> 4294967296 \<Longrightarrow>
      a + int (length b) \<le> c \<or> c + int n \<le> a \<Longrightarrow> rd (snd (wr m a b)) c n = rd m c n"
    and wr_ok: "fst (wr m a b) \<longleftrightarrow> rd m a (length b) \<noteq> None"
begin

lemma conv_ok:
  assumes "0 \<le> dst" "dst + int k \<le> 4294967296" "\<And>b. length b = n \<Longrightarrow> length (f b) = k"
    and "(case rd m src n of None \<Rightarrow> (False, m) | Some b \<Rightarrow> wr m dst (f b)) = (True, m')"
  shows "\<exists>b. rd m src n = Some b \<and> rd m' dst k = Some (f b)"
  using assms wr_rd [of dst "f b" m m' for b] rd_length [of m src n]
  by (auto split: option.splits)

lemma conv_other:
  assumes "0 \<le> dst" "dst + int k \<le> 4294967296" "\<And>b. length b = n \<Longrightarrow> length (f b) = k"
    and "0 \<le> c" "c + int j \<le> 4294967296" "dst + int k \<le> c \<or> c + int j \<le> dst"
  shows "rd (snd (case rd m src n of None \<Rightarrow> (False, m) | Some b \<Rightarrow> wr m dst (f b))) c j = rd m c j"
  using assms wr_other [of dst "f b" c j m for b] rd_length [of m src n]
  by (auto split: option.splits)

lemma conv_works:
  assumes "rd m src n \<noteq> None" "rd m dst k \<noteq> None" "\<And>b. length b = n \<Longrightarrow> length (f b) = k"
  shows "fst (case rd m src n of None \<Rightarrow> (False, m) | Some b \<Rightarrow> wr m dst (f b))"
  using assms wr_ok rd_length [of m src n] by auto

end

lemma copyin_length: "copyin m a n = Some b \<Longrightarrow> length b = n"
  by (induction n arbitrary: a b) (auto split: option.splits)

lemma copyin_cong:
  assumes "\<And>x. a \<le> x \<Longrightarrow> x < a + int n \<Longrightarrow> m (u32 x) = m' (u32 x)"
  shows "copyin m a n = copyin m' a n"
  using assms
proof (induction n arbitrary: a)
  case (Suc n)
  have "copyin m (a + 1) n = copyin m' (a + 1) n" using Suc.prems by (intro Suc.IH) auto
  then show ?case using Suc.prems [of a] by (simp cong: option.case_cong)
qed simp

lemma copyout_other:
  assumes "\<And>y. a \<le> y \<Longrightarrow> y < a + int (length b) \<Longrightarrow> u32 y \<noteq> x"
  shows "snd (copyout m a b) x = m x"
  using assms
proof (induction b arbitrary: a m)
  case (Cons c b)
  have "u32 a \<noteq> x" using Cons.prems [of a] by simp
  moreover have "snd (copyout m' (a + 1) b) x = m' x" for m'
    using Cons.prems by (intro Cons.IH) auto
  ultimately show ?case by (auto split: option.splits)
qed simp

lemma copyout_copyin:
  assumes "0 \<le> a" "a + int (length b) \<le> 4294967296" "copyout m a b = (True, m')"
  shows "copyin m' a (length b) = Some b"
  using assms
proof (induction b arbitrary: a m)
  case (Cons c b)
  then have t: "copyout (m(u32 a \<mapsto> c)) (a + 1) b = (True, m')"
    by (auto split: option.splits)
  have "copyin m' (a + 1) (length b) = Some b"
    using Cons.prems(1,2) by (intro Cons.IH [OF _ _ t]) auto
  moreover have "snd (copyout (m(u32 a \<mapsto> c)) (a + 1) b) (u32 a) = (m(u32 a \<mapsto> c)) (u32 a)"
    using Cons.prems(1,2) by (intro copyout_other) (auto simp: u32_def)
  ultimately show ?case using t by simp
qed simp

lemma copyout_dom: "dom (snd (copyout m a b)) = dom m"
  by (induction b arbitrary: m a) (auto split: option.splits)

lemma all_less_Suc_shift:
  "(\<forall>i < Suc n. P (a + int i)) \<longleftrightarrow> P a \<and> (\<forall>i < n. P (a + 1 + int i))"
  by (auto simp: less_Suc_eq_0_disj ac_simps)

lemma copyin_dom: "copyin m a n \<noteq> None \<longleftrightarrow> (\<forall>i < n. u32 (a + int i) \<in> dom m)"
proof (induction n arbitrary: a)
  case (Suc n)
  have "copyin m a (Suc n) \<noteq> None \<longleftrightarrow> u32 a \<in> dom m \<and> copyin m (a + 1) n \<noteq> None"
    by (auto split: option.splits)
  then show ?case unfolding Suc.IH all_less_Suc_shift [of n "\<lambda>x. u32 x \<in> dom m"] .
qed simp

lemma copyout_ok: "fst (copyout m a b) \<longleftrightarrow> copyin m a (length b) \<noteq> None"
  unfolding copyin_dom
proof (induction b arbitrary: a m)
  case (Cons c b)
  show ?case
  proof (cases "m (u32 a)")
    case None
    then show ?thesis using all_less_Suc_shift [of "length b" "\<lambda>x. u32 x \<in> dom m" a] by auto
  next
    case (Some y)
    then have d: "dom (m(u32 a \<mapsto> c)) = dom m" by auto
    have s: "fst (copyout m a (c # b)) = fst (copyout (m(u32 a \<mapsto> c)) (a + 1) b)"
      using Some by simp
    have "fst (copyout m a (c # b)) \<longleftrightarrow> (\<forall>i < length b. u32 (a + 1 + int i) \<in> dom m)"
      unfolding s Cons.IH d ..
    then show ?thesis
      using Some all_less_Suc_shift [of "length b" "\<lambda>x. u32 x \<in> dom m" a] by (simp add: domI)
  qed
qed simp

interpretation um: user_memory copyin copyout
proof
  fix m a c n and b :: "byte list"
  assume h: "0 \<le> a" "a + int (length b) \<le> 4294967296" "0 \<le> c" "c + int n \<le> 4294967296"
    "a + int (length b) \<le> c \<or> c + int n \<le> a"
  show "copyin (snd (copyout m a b)) c n = copyin m c n"
  proof (rule copyin_cong)
    fix x assume "c \<le> x" "x < c + int n"
    then show "snd (copyout m a b) (u32 x) = m (u32 x)"
      using h by (intro copyout_other) (auto simp: u32_def)
  qed
qed (auto simp: copyin_length copyout_copyin copyout_ok)

section \<open>The table of contexts is a bounded bag\<close>

locale bounded_bag =
  fixes put :: "'e \<Rightarrow> 't \<Rightarrow> 't" and get :: "'e \<Rightarrow> 't \<Rightarrow> bool \<times> 't"
    and abs :: "'t \<Rightarrow> 'e multiset" and ok :: "'t \<Rightarrow> bool" and valid :: "'e \<Rightarrow> bool" and cap :: nat
  assumes put_ok: "ok t \<Longrightarrow> valid e \<Longrightarrow> ok (put e t)"
    and put_abs: "ok t \<Longrightarrow> valid e \<Longrightarrow> size (abs t) < cap \<Longrightarrow> abs (put e t) = add_mset e (abs t)"
    and put_in: "ok t \<Longrightarrow> valid e \<Longrightarrow> e \<in># abs (put e t)"
    and get_fst: "ok t \<Longrightarrow> valid e \<Longrightarrow> fst (get e t) \<longleftrightarrow> e \<in># abs t"
    and get_abs: "ok t \<Longrightarrow> valid e \<Longrightarrow> abs (snd (get e t)) = abs t - {#e#}"
    and get_ok: "ok t \<Longrightarrow> valid e \<Longrightarrow> ok (snd (get e t))"
begin

lemma put_get: "ok t \<Longrightarrow> valid e \<Longrightarrow> fst (get e (put e t))"
  by (simp add: get_fst put_ok put_in)

lemma put_many:
  "ok t \<Longrightarrow> list_all valid es \<Longrightarrow> size (abs t) + length es \<le> cap \<Longrightarrow>
    ok (fold put es t) \<and> abs (fold put es t) = mset es + abs t"
  by (induction es arbitrary: t) (auto simp: put_ok put_abs)

lemma get_many:
  "ok t \<Longrightarrow> list_all valid es \<Longrightarrow> mset es \<subseteq># abs t \<Longrightarrow> valid e \<Longrightarrow>
    fst (get e (fold (\<lambda>x s. snd (get x s)) es t)) \<longleftrightarrow> e \<in># abs t - mset es"
proof (induction es arbitrary: t)
  case Nil
  then show ?case by (simp add: get_fst)
next
  case (Cons x es)
  have "mset es \<subseteq># abs (snd (get x t))"
    using Cons.prems by (simp add: get_abs insert_subset_eq_iff)
  then show ?case
    using Cons.IH [of "snd (get x t)"] Cons.prems by (simp add: get_ok get_abs)
qed

end

definition uc_abs :: "(nat \<times> int) list \<times> nat \<Rightarrow> (nat \<times> int) multiset" where
  "uc_abs t = filter_mset (\<lambda>e. fst e \<noteq> 0) (mset (fst t))"

definition uc_ok :: "(nat \<times> int) list \<times> nat \<Rightarrow> bool" where
  "uc_ok t \<longleftrightarrow> length (fst t) = AMX_NUC \<and> snd t < AMX_NUC"

definition uc_put :: "nat \<times> int \<Rightarrow> (nat \<times> int) list \<times> nat \<Rightarrow> (nat \<times> int) list \<times> nat" where
  "uc_put e t = amx_uctake (fst e) (snd e) t"

definition uc_get :: "nat \<times> int \<Rightarrow> (nat \<times> int) list \<times> nat \<Rightarrow> bool \<times> (nat \<times> int) list \<times> nat" where
  "uc_get e t = (case amx_ucgive (fst e) (snd e) (fst t) of (b, tab) \<Rightarrow> (b, tab, snd t))"

lemma find_slot:
  "List.find P [0..<n] = Some i \<Longrightarrow> i < n \<and> P i"
  "List.find P [0..<n] = None \<longleftrightarrow> (\<forall>i < n. \<not> P i)"
  by (auto dest!: find_SomeD simp: find_None_iff)

lemma uc_abs_update:
  assumes "i < length tab"
  shows "uc_abs (tab[i := e], k) =
    (if fst e \<noteq> 0 then {#e#} else {#}) + (uc_abs (tab, k) - (if fst (tab ! i) \<noteq> 0 then {#tab ! i#} else {#}))"
  using assms nth_mem_mset [of i tab]
  by (auto simp: uc_abs_def mset_update filter_diff_mset)

interpretation uc: bounded_bag uc_put uc_get uc_abs uc_ok "\<lambda>e. fst e \<noteq> 0" AMX_NUC
proof
  fix t and e :: "nat \<times> int"
  assume ok: "uc_ok t" and e: "fst e \<noteq> 0"
  obtain tab k where t: "t = (tab, k)" by fastforce
  have len: "length tab = AMX_NUC" "k < AMX_NUC" using ok t by (simp_all add: uc_ok_def)
  have ne: "(fst e, snd e) = e" by simp
  show "uc_ok (uc_put e t)" "e \<in># uc_abs (uc_put e t)"
    using len e by (auto simp: t uc_ok_def uc_put_def amx_uctake_def AMX_NUC_def uc_abs_update
        dest: find_slot(1) split: option.splits)
  show "uc_abs (uc_put e t) = add_mset e (uc_abs t)" if s: "size (uc_abs t) < AMX_NUC"
  proof (cases "List.find (\<lambda>i. fst (tab ! i) = 0) [0..<AMX_NUC]")
    case None
    then have "filter (\<lambda>e. fst e \<noteq> 0) tab = tab"
      unfolding find_slot(2) len(1) [symmetric] by (intro filter_True) (simp add: all_set_conv_all_nth)
    then have "size (uc_abs t) = AMX_NUC"
      by (metis t uc_abs_def fst_conv len(1) mset_filter size_mset)
    then show ?thesis using s by simp
  next
    case (Some i)
    then have "i < length tab" "fst (tab ! i) = 0" using find_slot(1) [OF Some] len by simp_all
    then show ?thesis using Some e by (simp add: t uc_put_def amx_uctake_def uc_abs_update)
  qed
  have m: "e \<in># uc_abs t \<longleftrightarrow> (\<exists>i < AMX_NUC. tab ! i = e)"
    using e len by (auto simp: t uc_abs_def in_set_conv_nth)
  have g: "List.find (\<lambda>i. tab ! i = (fst e, snd e)) [0..<AMX_NUC] = None \<longleftrightarrow> e \<notin># uc_abs t"
    unfolding find_slot(2) ne m by blast
  show "fst (uc_get e t) \<longleftrightarrow> e \<in># uc_abs t"
    using g by (auto simp: t uc_get_def amx_ucgive_def split: option.splits)
  show "uc_ok (snd (uc_get e t))"
    using len by (auto simp: t uc_get_def amx_ucgive_def uc_ok_def split: option.splits)
  show "uc_abs (snd (uc_get e t)) = uc_abs t - {#e#}"
  proof (cases "List.find (\<lambda>i. tab ! i = (fst e, snd e)) [0..<AMX_NUC]")
    case None
    then show ?thesis using g by (simp add: t uc_get_def amx_ucgive_def)
  next
    case (Some i)
    then have "i < length tab" "tab ! i = e" using find_slot(1) [OF Some] len by simp_all
    then show ?thesis using Some e by (simp add: t uc_get_def amx_ucgive_def uc_abs_update)
  qed
qed

section \<open>The registers\<close>

lemma reg_set_reg: "reg (set_reg i v st) r = (if r = i \<and> i < length (f_r (x_fr st)) then v else reg st r)"
  by (cases "i < length (f_r (x_fr st))") (auto simp: reg_def set_reg_def nth_list_update list_update_beyond)

lemma length_set_reg [simp]: "length (f_r (x_fr (set_reg i v st))) = length (f_r (x_fr st))"
  by (simp add: set_reg_def)

lemma set_reg_fields [simp]:
  "f_pc (x_fr (set_reg i v st)) = f_pc (x_fr st)" "f_sr (x_fr (set_reg i v st)) = f_sr (x_fr st)"
  "x_mem (set_reg i v st) = x_mem st" "x_ops (set_reg i v st) = x_ops st" "x_proc (set_reg i v st) = x_proc st"
  "x_uctab (set_reg i v st) = x_uctab st" "x_ucnext (set_reg i v st) = x_ucnext st"
  "x_calls (set_reg i v st) = x_calls st" "x_kmem (set_reg i v st) = x_kmem st"
  by (simp_all add: set_reg_def)

text \<open>Writing a list of values into distinct registers.\<close>

definition set_regs :: "(nat \<times> int) list \<Rightarrow> amx \<Rightarrow> amx" where
  "set_regs ps st = fold (\<lambda>(i, v). set_reg i v) ps st"

lemma set_regs_fields [simp]:
  "length (f_r (x_fr (set_regs ps st))) = length (f_r (x_fr st))"
  "f_pc (x_fr (set_regs ps st)) = f_pc (x_fr st)" "f_sr (x_fr (set_regs ps st)) = f_sr (x_fr st)"
  "x_mem (set_regs ps st) = x_mem st" "x_ops (set_regs ps st) = x_ops st" "x_proc (set_regs ps st) = x_proc st"
  "x_uctab (set_regs ps st) = x_uctab st" "x_ucnext (set_regs ps st) = x_ucnext st"
  "x_calls (set_regs ps st) = x_calls st" "x_kmem (set_regs ps st) = x_kmem st"
  unfolding set_regs_def by (induction ps arbitrary: st) auto

lemma reg_set_regs_other: "r \<notin> fst ` set ps \<Longrightarrow> reg (set_regs ps st) r = reg st r"
  unfolding set_regs_def by (induction ps arbitrary: st) (auto simp: reg_set_reg)

lemma reg_set_regs:
  "distinct (map fst ps) \<Longrightarrow> (r, v) \<in> set ps \<Longrightarrow> r < length (f_r (x_fr st)) \<Longrightarrow> reg (set_regs ps st) r = v"
proof (induction ps arbitrary: st)
  case (Cons p ps)
  have "set_regs (p # ps) st = set_regs ps (set_reg (fst p) (snd p) st)"
    by (simp add: set_regs_def split_beta)
  then show ?case
    using Cons reg_set_regs_other [of r ps "set_reg (fst p) (snd p) st"]
    by (auto simp: reg_set_reg image_iff)
qed simp

lemma set_params_regs: "set_params n args st = set_regs (map (\<lambda>i. (paramstoregs ! i, args ! i)) [0..<n]) st"
  by (simp add: set_params_def set_regs_def fold_map o_def)

lemma restore_params_regs:
  "restore_params n save st = set_regs (map (\<lambda>i. (paramstoregs ! i, save ! i)) [3..<n]) st"
  by (simp add: restore_params_def set_regs_def fold_map o_def)

lemma paramstoregs_distinct: "i < 10 \<Longrightarrow> j < 10 \<Longrightarrow> paramstoregs ! i = paramstoregs ! j \<longleftrightarrow> i = j"
  by (rule nth_eq_iff_index_eq) (simp_all add: paramstoregs_def)

lemma paramstoregs_less: "i < 10 \<Longrightarrow> paramstoregs ! i < 16"
proof -
  assume "i < 10"
  moreover have "list_all (\<lambda>i. paramstoregs ! i < 16) [0..<10]" by code_simp
  ultimately show ?thesis by (simp add: list_all_iff)
qed

lemma set_params_reg:
  assumes "n \<le> 10" "length (f_r (x_fr st)) = 16" "i < n"
  shows "reg (set_params n args st) (paramstoregs ! i) = args ! i"
proof -
  have "distinct (map fst (map (\<lambda>i. (paramstoregs ! i, args ! i)) [0..<n]))"
    using assms(1) by (auto simp: distinct_map inj_on_def paramstoregs_distinct)
  then show ?thesis
    unfolding set_params_regs using assms paramstoregs_less [of i] by (intro reg_set_regs) auto
qed

lemma set_params_other:
  "\<forall>i < n. r \<noteq> paramstoregs ! i \<Longrightarrow> reg (set_params n args st) r = reg st r"
  unfolding set_params_regs by (intro reg_set_regs_other) auto

lemma restore_params_reg:
  assumes "n \<le> 10" "length (f_r (x_fr st)) = 16" "3 \<le> i" "i < n"
  shows "reg (restore_params n save st) (paramstoregs ! i) = save ! i"
proof -
  have "distinct (map fst (map (\<lambda>i. (paramstoregs ! i, save ! i)) [3..<n]))"
    using assms(1) by (auto simp: distinct_map inj_on_def paramstoregs_distinct)
  then show ?thesis
    unfolding restore_params_regs using assms paramstoregs_less [of i] by (intro reg_set_regs) auto
qed

lemma restore_params_other:
  "\<forall>i. 3 \<le> i \<and> i < n \<longrightarrow> r \<noteq> paramstoregs ! i \<Longrightarrow> reg (restore_params n save st) r = reg st r"
  unfolding restore_params_regs by (intro reg_set_regs_other) auto

text \<open>What a program may rely on: all registers but d0, d1, a0 and a1.\<close>

lemma saved_register:
  assumes "n \<le> 10" "r \<notin> {0, 1, 8, 9}"
    and "length (f_r (x_fr st)) = 16" "length (f_r (x_fr s)) = 16"
    and kept: "reg s r = reg (set_params n args st) r"
  shows "reg (restore_params n (map (\<lambda>i. reg st (paramstoregs ! i)) [0..<n]) s) r = reg st r"
proof (cases "\<exists>i < n. r = paramstoregs ! i")
  case True
  then obtain i where i: "i < n" "r = paramstoregs ! i" by blast
  have "paramstoregs ! 0 = 8" "paramstoregs ! 1 = 1" "paramstoregs ! 2 = 9" by (simp_all add: paramstoregs_def)
  then have "3 \<le> i" using i(2) assms(2) by (cases "i = 0"; cases "i = 1"; cases "i = 2") auto
  then show ?thesis using restore_params_reg assms i by simp
next
  case False
  then show ?thesis
    using kept restore_params_other [of n r] set_params_other [of n r] by auto
qed

lemma gate_nargs_le: "gate_nargs env num \<le> 10"
  by (simp add: gate_nargs_def NREGARGS_def paramstoregs_def Let_def)

section \<open>The call\<close>

lemma amx_free_fields [simp]:
  "x_fr (amx_free kb st) = x_fr st" "x_mem (amx_free kb st) = x_mem st" "x_ops (amx_free kb st) = x_ops st"
  "x_uctab (amx_free kb st) = x_uctab st" "reg (amx_free kb st) r = reg st r"
  by (simp_all add: amx_free_def reg_def)

lemma amx_fail_fields [simp]:
  "x_mem (amx_fail e st) = x_mem st" "x_kmem (amx_fail e st) = x_kmem st" "x_uctab (amx_fail e st) = x_uctab st"
  "f_pc (x_fr (amx_fail e st)) = f_pc (x_fr st)" "length (f_r (x_fr (amx_fail e st))) = length (f_r (x_fr st))"
  by (simp_all add: amx_fail_def Let_def)

lemma reg_amx_fail: "r \<noteq> D0 \<Longrightarrow> reg (amx_fail e st) r = reg st r"
  by (simp add: amx_fail_def Let_def reg_def set_reg_def)

lemma amx_post_kept:
  "r \<notin> {D0, D1} \<Longrightarrow> reg (amx_post c st) r = reg st r" "x_kmem (amx_post c st) = x_kmem st"
  by (auto simp: amx_post_def reg_set_reg reg_amx_fail split: option.splits bool.splits prod.splits)
    (simp_all add: reg_def)

lemma amx_in_kept [simp]:
  "x_fr (snd (amx_in i n f tmp c st)) = x_fr st" "x_kmem (snd (amx_in i n f tmp c st)) = x_kmem st"
  "x_proc (snd (amx_in i n f tmp c st)) = x_proc st"
  by (simp_all add: amx_in_def split: prod.splits)

lemma amx_pre_kept:
  "amx_pre num args tmp st = (r, st') \<Longrightarrow> x_fr st' = x_fr st \<and> x_kmem st' = x_kmem st"
proof -
  have i: "amx_in i n f t c s = (x, s') \<Longrightarrow> x_fr s' = x_fr s \<and> x_kmem s' = x_kmem s" for i n f t c s x s'
    using amx_in_kept [of i n f t c s] by simp
  have io: "pre_inout n f t d p c s = (x, s') \<Longrightarrow> x_fr s' = x_fr s \<and> x_kmem s' = x_kmem s" for n f t d p c s x s'
    using i by (auto simp: pre_inout_def split: if_splits prod.splits option.splits)
  have cx: "pre_context t c s = (x, s') \<Longrightarrow> x_fr s' = x_fr s \<and> x_kmem s' = x_kmem s" for t c s x s'
    using i by (auto simp: pre_context_def split: if_splits prod.splits bool.splits)
  have ic: "pre_ioctl t c s = (x, s') \<Longrightarrow> x_fr s' = x_fr s \<and> x_kmem s' = x_kmem s" for t c s x s'
    using i by (auto simp: pre_ioctl_def split: if_splits)
  assume "amx_pre num args tmp st = (r, st')"
  then show ?thesis
    unfolding amx_pre_def Let_def
    by (auto dest: io cx ic i split: if_splits)
qed

end
