(* ===== verification/AmxProps.thy ===== *)
theory AmxProps
  imports AmxInv
begin

text \<open>
  The properties of the AMIX personality, with instances on a process that calls
  \<open>sigpending\<close> and \<open>sigaction\<close>.
\<close>

section \<open>The gate in two steps\<close>

text \<open>What the gate makes of the arguments, and the state in which it enters \<open>svr4_trap10\<close>.\<close>

definition gate_pre :: "kenv \<Rightarrow> amx \<Rightarrow> gcall option \<times> amx" where
  "gate_pre env st =
    (let st0 = amx_enter st; num = reg st0 D0
     in amx_pre num (gate_args env (gate_nargs env num) st0) (gate_tmp st0)
          (if needs_buf num then st0\<lparr>x_kmem := x_kmem st0 + 1\<rparr> else st0))"

definition gate_entry :: "kenv \<Rightarrow> amx \<Rightarrow> gcall \<Rightarrow> amx \<Rightarrow> amx" where
  "gate_entry env st c st2 =
    set_params (gate_nargs env (reg st D0)) (g_args c) (st2\<lparr>x_mem := k_grow env (gate_tmp st) (x_mem st2)\<rparr>)"

lemma amx_enter_same [simp]:
  "x_fr (amx_enter st) = x_fr st" "reg (amx_enter st) r = reg st r" "gate_tmp (amx_enter st) = gate_tmp st"
  "x_kmem (amx_enter st) = x_kmem st" "x_mem (amx_enter st) = x_mem st"
  by (simp_all add: amx_enter_def reg_def gate_tmp_def)

lemma gate_pre_kept:
  assumes "gate_pre env st = (r, st2)"
  shows "x_fr st2 = x_fr st"
    "x_kmem st2 = x_kmem st + (if needs_buf (reg st D0) then 1 else 0)"
  using amx_pre_kept [OF assms [unfolded gate_pre_def Let_def]] by (auto split: if_splits)

lemma amx_trap0_efault:
  "gate_pre env st = (None, st2) \<Longrightarrow>
    amx_trap0 env st = (0, amx_fail EFAULT (amx_free (needs_buf (reg st D0)) st2))"
  by (simp add: amx_trap0_def gate_pre_def Let_def)

lemma amx_trap0_call:
  "gate_pre env st = (Some c, st2) \<Longrightarrow> amx_trap0 env st =
    (case amx_call env (gate_nargs env (reg st D0)) c (st2\<lparr>x_mem := k_grow env (gate_tmp st) (x_mem st2)\<rparr>) of
       (rv, st3) \<Rightarrow> (rv, amx_free (needs_buf (reg st D0)) st3))"
  by (simp add: amx_trap0_def gate_pre_def Let_def)

lemma set_params_fields:
  "length (f_r (x_fr (set_params n args st))) = length (f_r (x_fr st))"
  "f_pc (x_fr (set_params n args st)) = f_pc (x_fr st)" "x_mem (set_params n args st) = x_mem st"
  "x_kmem (set_params n args st) = x_kmem st"
  unfolding set_params_regs by simp_all

lemma gate_entry_fields:
  assumes "gate_pre env st = (r, st2)"
  shows "length (f_r (x_fr (gate_entry env st c st2))) = length (f_r (x_fr st))"
    "f_pc (x_fr (gate_entry env st c st2)) = f_pc (x_fr st)"
    "x_mem (gate_entry env st c st2) = k_grow env (gate_tmp st) (x_mem st2)"
    "x_kmem (gate_entry env st c st2) = x_kmem st + (if needs_buf (reg st D0) then 1 else 0)"
  using gate_pre_kept [OF assms] by (simp_all add: gate_entry_def set_params_fields)

lemma gate_entry_params:
  assumes "gate_pre env st = (r, st2)" "length (f_r (x_fr st)) = 16" "i < gate_nargs env (reg st D0)"
  shows "reg (gate_entry env st c st2) (paramstoregs ! i) = g_args c ! i"
  unfolding gate_entry_def
  using gate_pre_kept(1) [OF assms(1)] assms(2,3) by (intro set_params_reg gate_nargs_le) simp_all

lemma restore_fields [simp]:
  "f_pc (x_fr (restore_params n s st)) = f_pc (x_fr st)" "f_sr (x_fr (restore_params n s st)) = f_sr (x_fr st)"
  "x_mem (restore_params n s st) = x_mem st" "x_kmem (restore_params n s st) = x_kmem st"
  unfolding restore_params_regs by simp_all

lemma restore_D0 [simp]: "reg (restore_params n s st) D0 = reg st D0" if "n \<le> 10"
proof (rule restore_params_other, intro allI impI)
  fix i assume "3 \<le> i \<and> i < n"
  moreover have "list_all (\<lambda>i. D0 \<noteq> paramstoregs ! i) [0..<10]" by code_simp
  ultimately show "D0 \<noteq> paramstoregs ! i" using that by (simp add: list_all_iff)
qed

text \<open>The outcomes of a call.\<close>

lemma amx_trap0_outcome:
  assumes p: "gate_pre env st = (Some c, st2)" and t: "k_trap10 env (gate_entry env st c st2) = (rv, s)"
  defines "n \<equiv> gate_nargs env (reg st D0)"
  defines "back \<equiv> restore_params n (map (\<lambda>i. reg st (paramstoregs ! i)) [0..<n]) s"
  shows "amx_trap0 env st = (rv, amx_free (needs_buf (reg st D0))
    (if f_pc (x_fr s) \<noteq> f_pc (x_fr st) then s
     else if f_sr (x_fr s) AND 1 \<noteq> 0 then set_reg D0 (u32 (err_out (s32 (reg s D0)))) back
     else amx_post c back))"
proof -
  have "reg (st2\<lparr>x_mem := m\<rparr>) r = reg st r" for m r
    using gate_pre_kept(1) [OF p] by (simp add: reg_def)
  then show ?thesis
    using t gate_entry_fields(2) [OF p, of c] gate_nargs_le [of env "reg st D0"]
    unfolding amx_trap0_call [OF p] amx_call_def back_def n_def gate_entry_def [symmetric]
    by (simp add: Let_def split: prod.splits)
qed

text \<open>The size of what is copied back to an AMIX program.\<close>

definition post_size :: "post \<Rightarrow> nat" where
  "post_size p = (case p of POST_STAT \<Rightarrow> 136 | POST_SIGMASK \<Rightarrow> 16 | POST_SIGACTION \<Rightarrow> 32
     | POST_SIGINFO \<Rightarrow> 128 | POST_TCGETS \<Rightarrow> 35 | POST_UNAME \<Rightarrow> 1285 | POST_CONTEXT \<Rightarrow> 1024 | _ \<Rightarrow> 0)"

lemma post_conv_length:
  "post_conv p = Some (n, f) \<Longrightarrow> length b = n \<Longrightarrow> length (f b) = post_size p"
  by (cases p)
    (auto simp: post_conv_def post_size_def via_def st_out_def sa_out_def si_out_def tios_out_def uts_out_def
      uc_out_def Let_def upt_rec)

lemma set_regs_frame: "f_r (x_fr st) = f_r (x_fr st') \<Longrightarrow> f_r (x_fr (set_regs ps st)) = f_r (x_fr (set_regs ps st'))"
proof (induction ps arbitrary: st st')
  case Nil
  then show ?case by (simp add: set_regs_def)
next
  case (Cons p ps)
  have "f_r (x_fr (set_reg (fst p) (snd p) st)) = f_r (x_fr (set_reg (fst p) (snd p) st'))"
    using Cons.prems by (simp add: set_reg_def)
  moreover have "set_regs (p # ps) s = set_regs ps (set_reg (fst p) (snd p) s)" for s
    by (simp add: set_regs_def split_beta)
  ultimately show ?case using Cons.IH by metis
qed

section \<open>Restarted calls and evicted contexts\<close>

text \<open>
  A call that \<open>svr4_trap10\<close> leaves with a new PC, a restarted one too, keeps the registers it
  was entered with: the program's d2-d5 and a2-a4 hold its arguments from then on.
\<close>

lemma amx_restart_keeps_args:
  assumes p: "gate_pre env st = (Some c, st2)" and len: "length (f_r (x_fr st)) = 16"
    and t: "k_trap10 env (gate_entry env st c st2) = (rv, s)" and pc: "f_pc (x_fr s) \<noteq> f_pc (x_fr st)"
    and kept: "\<And>r. r \<notin> {0, 1} \<Longrightarrow> reg s r = reg (gate_entry env st c st2) r"
    and n: "3 < gate_nargs env (reg st D0)"
  shows "reg (snd (amx_trap0 env st)) 2 = g_args c ! 3"
  using gate_entry_params [OF p len n, of c] kept [of 2] pc
  by (simp add: amx_trap0_outcome [OF p t] paramstoregs_def)

text \<open>
  The slot taken when the table is full is not the oldest context's: here the 66th context
  takes a slot given back and the 67th evicts it.
\<close>

lemma amx_evicts_newest:
  "let t = fold (\<lambda>i. amx_uctake 1 i) [1..65] (replicate 64 (0, 0), 0);
       t = (snd (amx_ucgive 1 2 (fst t)), snd t);
       t = amx_uctake 1 67 (amx_uctake 1 66 t)
   in \<not> fst (amx_ucgive 1 66 (fst t)) \<and> fst (amx_ucgive 1 3 (fst t))"
  by code_simp

section \<open>A process\<close>

definition demo_mem :: umem where
  "demo_mem = (\<lambda>a. if 4096 \<le> a \<and> a < 65536
     then Some (if a = 40007 then 1 else if a = 40010 then 78 else if a = 40011 then 32 else 0) else None)"

text \<open>A call with the arguments 1 and the address 20000 on its stack; page 0 is not mapped.\<close>

definition demo_proc :: "int \<Rightarrow> amx" where
  "demo_proc num = \<lparr>x_fr = \<lparr>f_r = [num, 1, 2, 3, 4, 5, 6, 7, 8, 9, 10, 11, 12, 13, 14, 40000], f_sr = 0, f_pc = 4096\<rparr>,
     x_mem = demo_mem, x_ops = SVR4_OPS, x_proc = 5,
     x_uctab = replicate 64 (0, 0), x_ucnext = 0, x_calls = 0, x_kmem = 0\<rparr>"

definition demo_kenv :: kenv where
  "demo_kenv = \<lparr>k_narg = (\<lambda>_. 2), k_sysentsize = 200, k_trap10 = (\<lambda>s. (0, set_reg 0 0 s)),
     k_grow = (\<lambda>_ m. m), k_sendsig = (\<lambda>_ _ _ s. (1, s)), k_junk = replicate 10 0\<rparr>"

lemma demo_pending:
  "case gate_pre demo_kenv (demo_proc 99) of
     (Some c, s) \<Rightarrow> g_post c = POST_SIGMASK \<and> g_ubuf c = 20000 \<and> g_ksrc c = 37888 \<and>
       (let e = gate_entry demo_kenv (demo_proc 99) c s in f_pc (x_fr e) = 4096 \<and> f_sr (x_fr e) = 0 \<and>
         copyin (x_mem e) 37888 8 = Some (replicate 8 0) \<and> copyin (x_mem e) 20000 16 = Some (replicate 16 0))
   | _ \<Rightarrow> False"
  by code_simp

lemma demo_suspend: "case gate_pre demo_kenv (demo_proc 96) of (None, s) \<Rightarrow> True | _ \<Rightarrow> False"
  by code_simp

lemma demo_pending_call:
  "\<exists>c st2. gate_pre demo_kenv (demo_proc 99) = (Some c, st2) \<and> g_post c = POST_SIGMASK \<and>
    g_ubuf c = 20000 \<and> g_ksrc c = 37888 \<and>
    (let e = gate_entry demo_kenv (demo_proc 99) c st2 in f_pc (x_fr e) = 4096 \<and> f_sr (x_fr e) = 0 \<and>
       copyin (x_mem e) 37888 8 = Some (replicate 8 0) \<and> copyin (x_mem e) 20000 16 = Some (replicate 16 0))"
  using demo_pending by (auto simp: Let_def split: prod.splits option.splits)

lemma demo_suspend_call: "\<exists>st2. gate_pre demo_kenv (demo_proc 96) = (None, st2)"
  using demo_suspend by (auto split: prod.splits option.splits)

lemma uc_abs_empty: "uc_abs (replicate 64 (0, 0), n) = {#}"
  by (simp add: uc_abs_def flip: mset_filter)

section \<open>The properties\<close>

text \<open>
  The signal masks: the kernel's mask holds exactly the kernel's names of the AMIX signals,
  the AMIX mask exactly the AMIX names of the kernel's, and going there and back loses only
  the bits that name no signal.
\<close>
theorem amx_masks:
  "asv_sigs (mask_in a) = sig_in ` amx_sigs a \<and>
   amx_sigs (mask_out k) = {n. 0 < n \<and> n < AMX_NSIG \<and> n \<in> sig_out ` asv_sigs k} \<and>
   mask_out (mask_in a) = [a ! 0 AND 0x7fffffff, 0, 0, 0]"
  by (intro conjI mask_in_sigs mask_out_sigs mask_roundtrip)

text \<open>
  A \<open>sigaction\<close> that a program sets and reads back is the one it set: the handler, the
  mask, and of the flags the seven that have a meaning in both systems.
\<close>
theorem amx_sigaction_roundtrip:
  assumes "length a = 8"
  shows "sa_out (sa_in a) = [a ! 0 AND 0x3001F, a ! 1, a ! 2 AND 0x7fffffff, 0, 0, 0, 0, 0]"
  using assms by (rule sigaction_roundtrip)

theorem amx_sigaction_roundtrip_witness:
  "sa_out (sa_in [0x30013, 4096, 0xFFFFFFFF, 0, 0, 0, 0, 0]) =
    [0x30013 AND 0x3001F, 4096, 0xFFFFFFFF AND 0x7fffffff, 0, 0, 0, 0, 0]"
  using amx_sigaction_roundtrip [of "[0x30013, 4096, 0xFFFFFFFF, 0, 0, 0, 0, 0]"] by simp

text \<open>
  C16. An AMIX context survives the way through the kernel's layout: flags but the fault bit,
  link, mask, stack and all registers. A context in the kernel's layout does not: its last
  eight bytes come back as zeros, which is why a delivered one must not be converted.
\<close>
theorem amx_context_roundtrip:
  assumes "length a = 1024" "length k = 1024"
  shows "uc_out (uc_in a) = p32 (g32 a 0 AND NOT UC_FAULT) @ take 4 (drop 4 a) @
      p32 (g32 a 8 AND 0x7fffffff) @ replicate 12 0 @ drop 24 a \<and>
    drop 16 (uc_in (uc_out k)) = take 1000 (drop 16 k) @ replicate 8 0"
  using uc_roundtrip [OF assms(1)] uc_context_lost [OF assms(2)] by simp_all

theorem amx_context_roundtrip_witness:
  "drop 16 (uc_in (uc_out (replicate 1024 7))) = replicate 1000 7 @ replicate 8 0"
  using amx_context_roundtrip [of "replicate 1024 0" "replicate 1024 7"] by simp

text \<open>
  C12. Every call enters \<open>svr4_trap10\<close> with the arguments the gate made in the registers it
  takes them from, and if it neither restarts nor jumps, the program gets back every register
  but the four scratch ones as it left them.
\<close>
theorem amx_gate_registers:
  assumes "gate_pre env st = (Some c, st2)" "length (f_r (x_fr st)) = 16"
    and "k_trap10 env (gate_entry env st c st2) = (rv, s)" "length (f_r (x_fr s)) = 16"
    and "f_pc (x_fr s) = f_pc (x_fr st)" "\<And>r. r \<notin> {0, 1} \<Longrightarrow> reg s r = reg (gate_entry env st c st2) r"
  shows "(\<forall>i < gate_nargs env (reg st D0). reg (gate_entry env st c st2) (paramstoregs ! i) = g_args c ! i) \<and>
    (\<forall>r. r \<notin> {0, 1, 8, 9} \<longrightarrow> reg (snd (amx_trap0 env st)) r = reg st r)"
proof (intro conjI allI impI)
  fix i assume "i < gate_nargs env (reg st D0)"
  then show "reg (gate_entry env st c st2) (paramstoregs ! i) = g_args c ! i"
    by (rule gate_entry_params [OF assms(1,2)])
next
  fix r :: nat assume r: "r \<notin> {0, 1, 8, 9}"
  have k: "reg s r = reg (set_params (gate_nargs env (reg st D0)) (g_args c) st) r"
  proof -
    have "reg (gate_entry env st c st2) r = reg (set_params (gate_nargs env (reg st D0)) (g_args c) st) r"
      unfolding gate_entry_def set_params_regs reg_def
      using gate_pre_kept(1) [OF assms(1)] by (intro arg_cong2 [of _ _ r r "(!)"] set_regs_frame) simp_all
    moreover have "reg s r = reg (gate_entry env st c st2) r" using r by (intro assms(6)) simp
    ultimately show ?thesis by simp
  qed
  show "reg (snd (amx_trap0 env st)) r = reg st r"
    using saved_register [OF gate_nargs_le r assms(2,4) k] r assms(5)
    by (simp add: amx_trap0_outcome [OF assms(1,3)] amx_post_kept reg_set_reg D0_def D1_def)
qed

theorem amx_gate_registers_witness:
  "\<exists>c st2. gate_pre demo_kenv (demo_proc 99) = (Some c, st2) \<and>
    (\<forall>r. r \<notin> {0, 1, 8, 9} \<longrightarrow> reg (snd (amx_trap0 demo_kenv (demo_proc 99))) r = reg (demo_proc 99) r)"
proof -
  obtain c st2 where p: "gate_pre demo_kenv (demo_proc 99) = (Some c, st2)" using demo_pending_call by blast
  let ?s = "set_reg 0 0 (gate_entry demo_kenv (demo_proc 99) c st2)"
  have len: "length (f_r (x_fr (demo_proc 99))) = 16" by (simp add: demo_proc_def)
  have "k_trap10 demo_kenv (gate_entry demo_kenv (demo_proc 99) c st2) = (0, ?s)" by (simp add: demo_kenv_def)
  then show ?thesis
    using amx_gate_registers [OF p len, of 0 ?s] p len gate_entry_fields [OF p, of c] by (simp add: reg_set_reg)
qed

text \<open>
  A call whose pointer is bad never enters the kernel: whatever \<open>svr4_trap10\<close> is, the
  program gets \<open>EFAULT\<close> with the carry set and every other register and the PC as they were.
\<close>
theorem amx_gate_efault:
  assumes "gate_pre env st = (None, st2)" "length (f_r (x_fr st)) = 16"
  shows "amx_trap0 (env\<lparr>k_trap10 := t\<rparr>) st = amx_trap0 env st \<and> fst (amx_trap0 env st) = 0 \<and>
    reg (snd (amx_trap0 env st)) 0 = 14 \<and> bit (f_sr (x_fr (snd (amx_trap0 env st)))) 0 \<and>
    (\<forall>r. r \<noteq> 0 \<longrightarrow> reg (snd (amx_trap0 env st)) r = reg st r) \<and>
    f_pc (x_fr (snd (amx_trap0 env st))) = f_pc (x_fr st)"
proof -
  have "gate_pre (env\<lparr>k_trap10 := t\<rparr>) st = gate_pre env st"
  proof -
    have "gate_args (env\<lparr>k_trap10 := t\<rparr>) = gate_args env" "gate_nargs (env\<lparr>k_trap10 := t\<rparr>) = gate_nargs env"
      by (intro ext, simp add: gate_args_def gate_nargs_def split: option.splits)+
    then show ?thesis by (simp add: gate_pre_def)
  qed
  then have "gate_pre (env\<lparr>k_trap10 := t\<rparr>) st = (None, st2)" using assms(1) by simp
  note e = amx_trap0_efault [OF assms(1)] amx_trap0_efault [OF this]
  have f: "x_fr st2 = x_fr st" by (rule gate_pre_kept(1) [OF assms(1)])
  have b: "reg (amx_fail EFAULT (amx_free k st2)) 0 = 14"
    "bit (f_sr (x_fr (amx_fail EFAULT (amx_free k st2)))) 0" for k
    using assms(2) f
    by (simp_all add: amx_fail_def Let_def reg_set_reg D0_def EFAULT_def err_out_def u32_def bit_or_iff)
      (simp_all add: reg_def set_reg_def bit_or_iff)
  show ?thesis using b f by (simp add: e reg_amx_fail D0_def) (simp add: reg_def)
qed

theorem amx_gate_efault_witness:
  "reg (snd (amx_trap0 demo_kenv (demo_proc 96))) 0 = 14"
proof -
  obtain st2 where "gate_pre demo_kenv (demo_proc 96) = (None, st2)" using demo_suspend_call by blast
  then show ?thesis
    using amx_gate_efault [of demo_kenv "demo_proc 96"] by (simp add: demo_proc_def)
qed

text \<open>
  C13. What a call answers reaches the program in its own layout: after a call that succeeds
  the caller's buffer holds the conversion of what the kernel left in the scratch space, and
  no other user memory changes. In particular \<open>stat\<close> writes 136 bytes there, not 512.
\<close>
theorem amx_gate_answer:
  assumes "gate_pre env st = (Some c, st2)" "k_trap10 env (gate_entry env st c st2) = (rv, s)"
    and "f_pc (x_fr s) = f_pc (x_fr st)" "f_sr (x_fr s) AND 1 = 0"
    and "post_conv (g_post c) = Some (n, f)" "copyin (x_mem s) (g_ksrc c) n = Some b"
    and "copyin (x_mem s) (g_ubuf c) (post_size (g_post c)) \<noteq> None"
    and "0 \<le> g_ubuf c" "g_ubuf c + int (post_size (g_post c)) \<le> 4294967296"
  shows "copyin (x_mem (snd (amx_trap0 env st))) (g_ubuf c) (post_size (g_post c)) = Some (f b) \<and>
    (\<forall>a k. 0 \<le> a \<and> a + int k \<le> 4294967296 \<and>
       (g_ubuf c + int (post_size (g_post c)) \<le> a \<or> a + int k \<le> g_ubuf c) \<longrightarrow>
       copyin (x_mem (snd (amx_trap0 env st))) a k = copyin (x_mem s) a k)"
proof -
  note len = post_conv_length [OF assms(5)]
  have w: "g_post c \<noteq> POST_WAIT" using assms(5) by (auto simp: post_conv_def)
  obtain m where m: "conv_copy (x_mem s) (g_ksrc c) n f (g_ubuf c) = (True, m)"
    using um.conv_works [where m = "x_mem s" and src = "g_ksrc c" and n = n and dst = "g_ubuf c" and
        k = "post_size (g_post c)" and f = f] assms(6,7) len
    by (cases "conv_copy (x_mem s) (g_ksrc c) n f (g_ubuf c)") (auto simp: conv_copy_def)
  have r: "x_mem (snd (amx_trap0 env st)) = m"
    using m w assms(3-5) by (simp add: amx_trap0_outcome [OF assms(1,2)] amx_post_def)
  have k: "copyin m (g_ubuf c) (post_size (g_post c)) = Some (f b)"
    using um.conv_ok [where m = "x_mem s" and src = "g_ksrc c" and m' = m and n = n and f = f, OF assms(8,9) len] m assms(6) by (auto simp: conv_copy_def)
  have o: "copyin m a k = copyin (x_mem s) a k"
    if "0 \<le> a" "a + int k \<le> 4294967296" "g_ubuf c + int (post_size (g_post c)) \<le> a \<or> a + int k \<le> g_ubuf c" for a k
    using um.conv_other [where m = "x_mem s" and src = "g_ksrc c" and n = n and f = f, OF assms(8,9) len that] m by (simp add: conv_copy_def)
  show ?thesis using k o unfolding r by blast
qed

theorem amx_gate_answer_witness:
  "copyin (x_mem (snd (amx_trap0 demo_kenv (demo_proc 99)))) 20000 16 = Some (replicate 16 0)"
proof -
  obtain c st2 where p: "gate_pre demo_kenv (demo_proc 99) = (Some c, st2)" "g_post c = POST_SIGMASK"
    "g_ubuf c = 20000" "g_ksrc c = 37888"
    and e: "f_pc (x_fr (gate_entry demo_kenv (demo_proc 99) c st2)) = 4096"
      "f_sr (x_fr (gate_entry demo_kenv (demo_proc 99) c st2)) = 0"
      "copyin (x_mem (gate_entry demo_kenv (demo_proc 99) c st2)) 37888 8 = Some (replicate 8 0)"
      "copyin (x_mem (gate_entry demo_kenv (demo_proc 99) c st2)) 20000 16 = Some (replicate 16 0)"
    using demo_pending_call by (auto simp: Let_def)
  have t: "k_trap10 demo_kenv (gate_entry demo_kenv (demo_proc 99) c st2) =
      (0, set_reg 0 0 (gate_entry demo_kenv (demo_proc 99) c st2))" by (simp add: demo_kenv_def)
  have v: "via mask_out (replicate 8 0) = replicate 16 0" by code_simp
  show ?thesis
    using amx_gate_answer [OF p(1) t, of 8 "via mask_out" "replicate 8 0"] p(2-4) e v
    by (simp add: post_conv_def post_size_def demo_proc_def)
qed

text \<open>
  The gate gives back the work buffer it allocates on every path, errors and restarts
  included.
\<close>
theorem amx_gate_frees:
  assumes "\<And>s. x_kmem (snd (k_trap10 env s)) = x_kmem s"
  shows "x_kmem (snd (amx_trap0 env st)) = x_kmem st"
proof (cases "gate_pre env st")
  case (Pair r st2)
  have free: "x_kmem (amx_free b s) = x_kmem s - (if b then 1 else 0)" for b s by (simp add: amx_free_def)
  show ?thesis
  proof (cases r)
    case None
    then show ?thesis
      using gate_pre_kept(2) [OF Pair] Pair by (simp add: amx_trap0_efault free)
  next
    case (Some c)
    obtain rv s where t: "k_trap10 env (gate_entry env st c st2) = (rv, s)" by fastforce
    have "x_kmem s = x_kmem st + (if needs_buf (reg st D0) then 1 else 0)"
      using assms [of "gate_entry env st c st2"] gate_entry_fields(4) [OF Pair, of c] t by simp
    then show ?thesis
      using Pair Some by (simp add: amx_trap0_outcome [OF _ t] free amx_post_kept)
  qed
qed

theorem amx_gate_frees_witness: "x_kmem (snd (amx_trap0 demo_kenv (demo_proc 99))) = 0"
  using amx_gate_frees [of demo_kenv "demo_proc 99"] by (simp add: demo_kenv_def demo_proc_def)

text \<open>
  C14. The table of delivered contexts is a bag of at most 64: from any state with room for
  them, contexts that are taken can each be given back as often as they were taken, and no
  more.
\<close>
theorem amx_contexts_bag:
  assumes "uc_ok t" "list_all (\<lambda>e. fst e \<noteq> 0) (e # es @ gs)" "size (uc_abs t) + length es \<le> AMX_NUC"
    and "mset gs \<subseteq># mset es + uc_abs t"
  shows "fst (uc_get e (fold (\<lambda>x s. snd (uc_get x s)) gs (fold uc_put es t))) \<longleftrightarrow>
    e \<in># mset es + uc_abs t - mset gs"
proof -
  have "uc_ok (fold uc_put es t) \<and> uc_abs (fold uc_put es t) = mset es + uc_abs t"
    using assms by (intro uc.put_many) simp_all
  then show ?thesis using assms uc.get_many [of "fold uc_put es t" gs e] by simp
qed

theorem amx_contexts_bag_witness:
  "fst (uc_get (5, 4096) (fold (\<lambda>x s. snd (uc_get x s)) [(5, 8192)]
    (fold uc_put [(5, 4096), (5, 8192)] (replicate 64 (0, 0), 0))))"
  using amx_contexts_bag [of "(replicate 64 (0, 0), 0)" "(5, 4096)" "[(5, 4096), (5, 8192)]" "[(5, 8192)]"]
  by (simp add: uc_ok_def AMX_NUC_def uc_abs_empty)

text \<open>
  C15. The context a signal delivered goes back to the kernel as it is: the \<open>setcontext\<close> that
  returns from the handler passes its address on unconverted, and the address is then a
  program's own again, whose context is converted.
\<close>
theorem amx_handler_returns:
  assumes "k_sendsig env sig sip hdlr st = (rv, st1)" "rv \<noteq> 0" "uc_ok (x_uctab st1, x_ucnext st1)" "x_proc st1 \<noteq> 0"
    and "amx_sendsig env sig sip hdlr st = (rv, st2)"
    and "uc = u32 (fuword (snd (copyout (x_mem st1) (reg st1 USP + 4) (p32 (sig_out sig)))) (reg st1 USP + 12))"
    and "(x_proc st1, uc) \<notin># uc_abs (x_uctab st1, x_ucnext st1)" "size (uc_abs (x_uctab st1, x_ucnext st1)) < AMX_NUC"
    and "g_args c ! 0 = 1" "g_args c ! 1 = uc"
  shows "\<exists>st3. pre_context tmp c st2 = (Some c, st3) \<and> x_mem st3 = x_mem st2 \<and>
    pre_context tmp c st3 = amx_in 1 1024 uc_in tmp c st3"
proof -
  let ?e = "(x_proc st1, uc)" and ?t = "(x_uctab st1, x_ucnext st1)"
  have s2: "(x_uctab st2, x_ucnext st2) = uc_put ?e ?t" "x_proc st2 = x_proc st1"
    using assms(1,2,5,6) by (auto simp: amx_sendsig_def uc_put_def Let_def split: prod.splits)
  obtain tab k where p: "uc_put ?e ?t = (tab, k)" by fastforce
  have g: "fst (uc_get ?e (tab, k))" using uc.put_get [OF assms(3), of ?e] assms(4) by (simp add: p)
  then obtain tab' where g': "amx_ucgive (x_proc st1) uc tab = (True, tab')"
    by (auto simp: uc_get_def split: prod.splits)
  have ok: "uc_ok (tab, k)" using uc.put_ok [OF assms(3), of ?e] assms(4) by (simp add: p)
  have a: "uc_abs (snd (uc_get ?e (tab, k))) = uc_abs ?t"
    using uc.get_abs [OF ok, of ?e] uc.put_abs [OF assms(3), of ?e] assms(4,8) by (simp add: p)
  have "\<not> fst (uc_get ?e (snd (uc_get ?e (tab, k))))"
    using uc.get_fst [OF uc.get_ok [OF ok], of ?e ?e] assms(4,7) a by simp
  then have n: "\<not> fst (amx_ucgive (x_proc st1) uc tab')"
    by (simp add: uc_get_def g' split_beta)
  have "pre_context tmp c st2 = (Some c, st2\<lparr>x_uctab := tab'\<rparr>)"
    using s2 p g' assms(9,10) by (simp add: pre_context_def)
  moreover have "pre_context tmp c (st2\<lparr>x_uctab := tab'\<rparr>) = amx_in 1 1024 uc_in tmp c (st2\<lparr>x_uctab := tab'\<rparr>)"
    using s2 n assms(9,10) by (cases "amx_ucgive (x_proc st1) uc tab'") (simp add: pre_context_def)
  ultimately show ?thesis by (intro exI [of _ "st2\<lparr>x_uctab := tab'\<rparr>"]) simp
qed

theorem amx_handler_returns_witness:
  "\<exists>c st2 st3. amx_sendsig demo_kenv 14 0 0 (demo_proc 99) = (1, st2) \<and>
    pre_context 37888 c st2 = (Some c, st3) \<and> pre_context 37888 c st3 = amx_in 1 1024 uc_in 37888 c st3"
proof -
  let ?st = "demo_proc 99"
  define uc where "uc = u32 (fuword (snd (copyout (x_mem ?st) (reg ?st USP + 4) (p32 (sig_out 14)))) (reg ?st USP + 12))"
  define c where "c = \<lparr>g_args = [1, uc], g_post = POST_NONE, g_ubuf = 0, g_ksrc = 37888\<rparr>"
  have k: "k_sendsig demo_kenv 14 0 0 ?st = (1, ?st)" by (simp add: demo_kenv_def)
  obtain st2 where s: "amx_sendsig demo_kenv 14 0 0 ?st = (1, st2)"
    by (simp add: amx_sendsig_def k Let_def split_beta)
  have t: "x_uctab ?st = replicate 64 (0, 0)" "x_ucnext ?st = 0" "x_proc ?st = 5" by (simp_all add: demo_proc_def)
  show ?thesis
    using amx_handler_returns [OF k _ _ _ s uc_def, of c 37888] s
    by (simp add: t c_def uc_ok_def uc_abs_empty AMX_NUC_def) blast
qed

end
