(* ===== verification/Dhcp.thy ===== *)
theory Dhcp
  imports Prelude
begin

text \<open>
  The DHCP client \<open>dhcpc/dhcpc.c\<close>. The clock, what \<open>putmsg\<close> answers and the datagrams that
  \<open>dlrecv\<close> returns are the environment \<open>dio\<close>, indexed by how often each was asked; the client
  keeps the datagrams it sent. Files are their bytes. \<open>None\<close>: the code writes past a buffer, or
  waits for ever on a clock that does not move.
\<close>

section \<open>The lease\<close>

definition DHCP_DISCOVER :: int where "DHCP_DISCOVER = 1"
definition DHCP_OFFER :: int where "DHCP_OFFER = 2"
definition DHCP_REQUEST :: int where "DHCP_REQUEST = 3"
definition DHCP_ACK :: int where "DHCP_ACK = 5"
definition DHCP_NAK :: int where "DHCP_NAK = 6"
definition BOOTPS :: int where "BOOTPS = 67"
definition BOOTPC :: int where "BOOTPC = 68"

lemmas dhcp_types = DHCP_DISCOVER_def DHCP_OFFER_def DHCP_REQUEST_def DHCP_ACK_def DHCP_NAK_def

text \<open>\<open>l_dns\<close>: the first \<open>ndns\<close> entries of the array. \<open>l_domain\<close>: the bytes before the NUL put there.\<close>

record lease =
  l_addr :: "byte list"
  l_mask :: "byte list"
  l_router :: "byte list"
  l_server :: "byte list"
  l_dns :: "byte list list"
  l_domain :: "byte list"
  l_secs :: int

definition lease0 :: lease where
  "lease0 = \<lparr>l_addr = [0, 0, 0, 0], l_mask = [0, 0, 0, 0], l_router = [0, 0, 0, 0],
     l_server = [0, 0, 0, 0], l_dns = [], l_domain = [], l_secs = 0\<rparr>"

text \<open>Decimal numbers, as \<open>printf\<close> writes them.\<close>

fun dec :: "nat \<Rightarrow> byte list" where
  "dec n = (if n < 10 then [word_of_nat (48 + n)] else dec (n div 10) @ [word_of_nat (48 + n mod 10)])"

declare dec.simps [simp del]

definition ip :: "byte list \<Rightarrow> byte list" where
  "ip a = dec (unat (a ! 0)) @ [46] @ dec (unat (a ! 1)) @ [46] @ dec (unat (a ! 2)) @ [46] @
     dec (unat (a ! 3))"

section \<open>Building a message\<close>

fun cksum_add :: "byte list \<Rightarrow> int" where
  "cksum_add (a # b # p) = (uint a * 256 + uint b) + cksum_add p"
| "cksum_add [a] = uint a * 256"
| "cksum_add [] = 0"

function cksum_fold :: "int \<Rightarrow> int" where
  "cksum_fold s = (if s < 65536 then s else cksum_fold (s mod 65536 + s div 65536))"
  by pat_completeness auto
termination
proof (relation "measure nat")
  fix s :: int assume "\<not> s < 65536"
  moreover have "s = s div 65536 * 65536 + s mod 65536" by simp
  moreover have "0 < s div 65536" using calculation(1) by (simp add: pos_imp_zdiv_pos_iff)
  ultimately have "s mod 65536 + s div 65536 < s" by linarith
  then show "(s mod 65536 + s div 65536, s) \<in> measure nat" using \<open>\<not> s < 65536\<close> by simp
qed simp

declare cksum_fold.simps [simp del]

definition cksum :: "byte list \<Rightarrow> int" where
  "cksum p = 65535 - cksum_fold (cksum_add p)"

text \<open>The options and the fixed part of the BOOTP message \<open>u\<close>.\<close>

definition build_opts :: "int \<Rightarrow> lease \<Rightarrow> byte list \<Rightarrow> byte list" where
  "build_opts t l node =
     [53, 1, word_of_int t] @
     (if t = DHCP_REQUEST then [50, 4] @ l_addr l @ [54, 4] @ l_server l else []) @
     [55, 5, 1, 3, 6, 15, 51] @
     (if length node > 0 \<and> length node < 64 then [12, word_of_nat (length node)] @ node else []) @
     [255]"

definition build_bootp :: "byte list \<Rightarrow> byte list \<Rightarrow> byte list" where
  "build_bootp xid mac = [1, 1, 6, 0] @ xid @ [0, 0, 0x80] @ replicate 17 0 @ mac @ replicate 202 0 @
     [99, 130, 83, 99]"

definition build_ip :: "nat \<Rightarrow> int \<Rightarrow> byte list" where
  "build_ip ulen c = [0x45, 0] @ p16 (20 + int ulen) @ [0, 0, 0, 0, 64, 17] @ p16 c @
     [0, 0, 0, 0, 255, 255, 255, 255]"

definition PKTSIZE :: nat where "PKTSIZE = 20 + 8 + 320"

definition build :: "byte list \<Rightarrow> byte list \<Rightarrow> byte list \<Rightarrow> int \<Rightarrow> lease \<Rightarrow> byte list option" where
  "build xid mac node t l =
    (let opts = build_opts t l node;
         u = build_bootp xid mac @ opts;
         u' = u @ replicate (300 - length u) 0;
         ulen = 8 + length u';
         udp = [0, word_of_int BOOTPC, 0, word_of_int BOOTPS] @ p16 (int ulen) @ [0, 0]
     in if 20 + 8 + length u > PKTSIZE then None
        else Some (build_ip ulen (cksum (build_ip ulen 0)) @ udp @ u'))"

section \<open>Parsing a reply\<close>

definition apply_opt :: "byte \<Rightarrow> byte list \<Rightarrow> int \<times> lease \<Rightarrow> int \<times> lease" where
  "apply_opt code d acc =
    (case acc of (t, l) \<Rightarrow>
      let n = length d
      in if code = 1 then (t, if n \<ge> 4 then l\<lparr>l_mask := take 4 d\<rparr> else l)
         else if code = 3 then (t, if n \<ge> 4 then l\<lparr>l_router := take 4 d\<rparr> else l)
         else if code = 6 then
           (t, l\<lparr>l_dns := map (\<lambda>i. take 4 (drop (4 * i) d)) [0..<min 3 (n div 4)]\<rparr>)
         else if code = 15 then (t, if n > 0 \<and> n < 128 then l\<lparr>l_domain := d\<rparr> else l)
         else if code = 51 then (t, if n \<ge> 4 then l\<lparr>l_secs := g32 d 0\<rparr> else l)
         else if code = 53 then (if n \<ge> 1 then uint (d ! 0) else t, l)
         else if code = 54 then (t, if n \<ge> 4 then l\<lparr>l_server := take 4 d\<rparr> else l)
         else (t, l))"

function parse_opts :: "byte list \<Rightarrow> int \<times> lease \<Rightarrow> int \<times> lease" where
  "parse_opts os acc =
    (if length os \<ge> 2 \<and> os ! 0 \<noteq> 255 then
       if os ! 0 = 0 then parse_opts (drop 1 os) acc
       else let n = unat (os ! 1)
            in if 2 + n > length os then acc
               else parse_opts (drop (2 + n) os) (apply_opt (os ! 0) (take n (drop 2 os)) acc)
     else acc)"
  by pat_completeness auto
termination by (relation "measure (\<lambda>(os, acc). length os)") auto

declare parse_opts.simps [simp del]

text \<open>The type, -1 for no reply of ours, with the lease.\<close>

definition parse :: "byte list \<Rightarrow> byte list \<Rightarrow> byte list \<Rightarrow> int \<times> lease" where
  "parse xid mac pkt =
    (if length pkt < 20 \<or> drop_bit 4 (uint (pkt ! 0)) \<noteq> 4 \<or> pkt ! 9 \<noteq> 17 then (-1, lease0)
     else
       let hl = unat (pkt ! 0 AND 15) * 4
       in if length pkt < hl + 8 + 240 then (-1, lease0)
          else
            let u = drop (hl + 8) pkt
            in if g16 pkt (hl + 2) \<noteq> BOOTPC then (-1, lease0)
               else if u ! 0 \<noteq> 2 \<or> take 4 (drop 4 u) \<noteq> xid \<or> take 6 (drop 28 u) \<noteq> mac then (-1, lease0)
               else if take 4 (drop 236 u) \<noteq> [99, 130, 83, 99] then (-1, lease0)
               else parse_opts (drop 240 u) (-1, lease0\<lparr>l_addr := take 4 (drop 16 u)\<rparr>))"

section \<open>The exchange\<close>

record dio =
  io_time :: "nat \<Rightarrow> int"
  io_send :: "nat \<Rightarrow> bool"
  io_recv :: "nat \<Rightarrow> byte list option"

record dhst =
  h_times :: nat
  h_sent :: "byte list list"
  h_recvs :: nat
  h_xid :: "byte list"

definition dh_time :: "dio \<Rightarrow> dhst \<Rightarrow> int \<times> dhst" where
  "dh_time io st = (io_time io (h_times st), st\<lparr>h_times := Suc (h_times st)\<rparr>)"

definition dlrecv :: "dio \<Rightarrow> dhst \<Rightarrow> byte list option \<times> dhst" where
  "dlrecv io st = (io_recv io (h_recvs st), st\<lparr>h_recvs := Suc (h_recvs st)\<rparr>)"

definition dlsend :: "dio \<Rightarrow> byte list \<Rightarrow> dhst \<Rightarrow> bool \<times> dhst" where
  "dlsend io pkt st = (io_send io (length (h_sent st)), st\<lparr>h_sent := h_sent st @ [pkt]\<rparr>)"

partial_function (option) exch_loop ::
    "dio \<Rightarrow> byte list \<Rightarrow> int \<Rightarrow> int \<Rightarrow> lease \<Rightarrow> dhst \<Rightarrow> (int \<times> lease \<times> dhst) option" where
  "exch_loop io mac want end l st =
    (case dh_time io st of (now, st1) \<Rightarrow>
      if \<not> now < end then Some (-1, l, st1)
      else (case dlrecv io st1 of (r, st2) \<Rightarrow>
        if r = None \<or> r = Some [] then exch_loop io mac want end l st2
        else (case parse (h_xid st2) mac (the r) of (t, got) \<Rightarrow>
          if t = want \<or> t = DHCP_NAK then Some (t, got, st2)
          else exch_loop io mac want end l st2)))"

definition exchange ::
    "dio \<Rightarrow> byte list \<Rightarrow> byte list \<Rightarrow> int \<Rightarrow> int \<Rightarrow> lease \<Rightarrow> int \<Rightarrow> dhst \<Rightarrow> (int \<times> lease \<times> dhst) option" where
  "exchange io mac node msg want l ms st =
    (case build (h_xid st) mac node msg l of
       None \<Rightarrow> None
     | Some pkt \<Rightarrow>
       (case dlsend io pkt st of
          (False, st1) \<Rightarrow> Some (-1, l, st1)
        | (True, st1) \<Rightarrow>
          (case dh_time io st1 of (now, st2) \<Rightarrow>
             exch_loop io mac want (now + cdiv (ms + 999) 1000) l st2)))"

text \<open>The \<open>for\<close> loop of \<open>main\<close>: \<open>t\<close> is the last answer.\<close>

partial_function (option) dhcp_loop ::
    "dio \<Rightarrow> byte list \<Rightarrow> byte list \<Rightarrow> int \<Rightarrow> int \<Rightarrow> int \<Rightarrow> lease \<Rightarrow> dhst \<Rightarrow> (int \<times> lease \<times> dhst) option" where
  "dhcp_loop io mac node end wait t l st =
    (case dh_time io st of (now, st1) \<Rightarrow>
      if \<not> now < end then Some (t, l, st1)
      else
        let wait' = (if wait < 8 then wait * 2 else 8)
        in (case exchange io mac node DHCP_DISCOVER DHCP_OFFER lease0 (wait * 1000) st1 of
              None \<Rightarrow> None
            | Some (t1, l1, st2) \<Rightarrow>
              if t1 \<noteq> DHCP_OFFER then dhcp_loop io mac node end wait' t1 l1 st2
              else (case exchange io mac node DHCP_REQUEST DHCP_ACK l1 (wait * 1000) st2 of
                 None \<Rightarrow> None
               | Some (t2, l2, st3) \<Rightarrow>
                 if t2 = DHCP_ACK then Some (t2, l2, st3)
                 else dhcp_loop io mac node end wait' t2 l2
                        (st3\<lparr>h_xid := (h_xid st3)[3 := h_xid st3 ! 3 + 1]\<rparr>))))"

declare exch_loop.simps [code] dhcp_loop.simps [code]

section \<open>What is written\<close>

text \<open>The netmask when the server gives none, and the broadcast address.\<close>

definition classful :: "lease \<Rightarrow> lease" where
  "classful l =
    (if l_mask l ! 0 = 0 then
       l\<lparr>l_mask := [255, if 128 \<le> unat (l_addr l ! 0) then 255 else 0,
                   if 192 \<le> unat (l_addr l ! 0) then 255 else 0, l_mask l ! 3]\<rparr>
     else l)"

definition broadcast :: "lease \<Rightarrow> byte list" where
  "broadcast l = map (\<lambda>i. l_addr l ! i OR NOT (l_mask l ! i)) [0..<4]"

definition has_router :: "lease \<Rightarrow> bool" where
  "has_router l \<longleftrightarrow> l_router l ! 0 OR l_router l ! 1 OR l_router l ! 2 OR l_router l ! 3 \<noteq> 0"

definition show_lease :: "lease \<Rightarrow> byte list" where
  "show_lease l =
     bytes_of ''address '' @ ip (l_addr l) @ bytes_of '' netmask '' @ ip (l_mask l) @
     (if has_router l then bytes_of '' router '' @ ip (l_router l) else []) @
     concat (map (\<lambda>d. bytes_of '' dns '' @ ip d) (l_dns l)) @
     (if cstr (l_domain l) \<noteq> [] then bytes_of '' domain '' @ cstr (l_domain l) else []) @
     bytes_of '' server '' @ ip (l_server l) @ bytes_of '' lease '' @ dec (nat (l_secs l)) @
     bytes_of ''s'' @ [10]"

text \<open>\<open>sscanf(line, "%127s %127s", word, word) == 2\<close>: the second word.\<close>

definition scan_word :: "byte list \<Rightarrow> byte list \<times> byte list" where
  "scan_word s =
    (let s1 = dropWhile is_space s; w = take 127 (takeWhile (\<lambda>c. \<not> is_space c) s1)
     in (w, drop (length w) s1))"

definition second_word :: "byte list \<Rightarrow> byte list option" where
  "second_word s =
    (case scan_word s of (w1, r) \<Rightarrow>
      if w1 = [] then None
      else (case scan_word r of (w2, _) \<Rightarrow> if w2 = [] then None else Some w2))"

definition blank :: "byte \<Rightarrow> bool" where
  "blank c \<longleftrightarrow> c = 32 \<or> c = 9"

definition line_rest :: "byte list \<Rightarrow> byte list" where
  "line_rest s = dropWhile (\<lambda>c. \<not> blank c) (dropWhile blank s)"

fun write_lines :: "byte list \<Rightarrow> byte list \<Rightarrow> bool \<Rightarrow> byte list list \<Rightarrow> byte list" where
  "write_lines addr node done [] = (if done then [] else ip addr @ [9] @ node @ [10])"
| "write_lines addr node done (l # ls) =
    (let s = cstr l
     in if \<not> (s \<noteq> [] \<and> s ! 0 = 35) \<and> second_word s = Some node \<and> \<not> done
        then ip addr @ line_rest s @ write_lines addr node True ls
        else s @ write_lines addr node done ls)"

definition writehosts :: "lease \<Rightarrow> byte list \<Rightarrow> byte list \<Rightarrow> byte list" where
  "writehosts l node hosts = write_lines (l_addr l) node False (fgets_all 511 hosts)"

definition ifname :: "byte list \<Rightarrow> byte list" where
  "ifname dev = rev (takeWhile (\<lambda>c. c \<noteq> 47) (rev dev))"

definition dhcp_sh :: "lease \<Rightarrow> byte list \<Rightarrow> byte list" where
  "dhcp_sh l dev =
     bytes_of ''# written by dhcpc '' @ ip (l_addr l) @ bytes_of '': run after rc.inet'' @ [10] @
     bytes_of ''/usr/sbin/ifconfig '' @ ifname dev @ bytes_of '' netmask '' @ ip (l_mask l) @
     bytes_of '' broadcast '' @ ip (broadcast l) @ [10] @
     (if has_router l then bytes_of ''/usr/sbin/route add default '' @ ip (l_router l) @ bytes_of '' 1'' @ [10]
      else [])"

definition resolv_conf :: "lease \<Rightarrow> byte list option" where
  "resolv_conf l =
    (if l_dns l = [] then None
     else Some ((if cstr (l_domain l) \<noteq> [] then bytes_of ''domain '' @ cstr (l_domain l) @ [10] else []) @
            concat (map (\<lambda>d. bytes_of ''nameserver '' @ ip d @ [10]) (l_dns l))))"

section \<open>The program\<close>

record dhfiles =
  fl_hosts :: "byte list option"
  fl_sh :: "byte list option"
  fl_resolv :: "byte list option"

text \<open>
  \<open>io_ok k\<close>: the \<open>k\<close>-th of the steps that can fail when the files are written: opening
  \<open>hosts.net\<close>, its new copy, closing and renaming it, opening \<open>dhcp.sh\<close>, opening
  \<open>resolv.conf\<close>. The result: the exit code and the files.
\<close>

definition write_files :: "(nat \<Rightarrow> bool) \<Rightarrow> lease \<Rightarrow> byte list \<Rightarrow> byte list \<Rightarrow> dhfiles \<Rightarrow> int \<times> dhfiles" where
  "write_files io_ok l node dev fs =
    (case fl_hosts fs of
       None \<Rightarrow> (1, fs)
     | Some hosts \<Rightarrow>
       if \<not> io_ok 0 \<or> \<not> io_ok 1 \<or> \<not> io_ok 2 then (1, fs)
       else
         let fs1 = fs\<lparr>fl_hosts := Some (writehosts l node hosts)\<rparr>
         in if \<not> io_ok 3 then (1, fs1)
            else
              let fs2 = fs1\<lparr>fl_sh := Some (dhcp_sh l dev)\<rparr>
              in (case resolv_conf l of
                    None \<Rightarrow> (0, fs2)
                  | Some r \<Rightarrow> if io_ok 4 then (0, fs2\<lparr>fl_resolv := Some r\<rparr>) else (1, fs2)))"

text \<open>
  \<open>main\<close> from the bound device on: \<open>h_xid\<close> is made of the time and the process id. The exit
  code, the line on standard output if any, and the files.
\<close>

definition dhcp_main ::
    "dio \<Rightarrow> (nat \<Rightarrow> bool) \<Rightarrow> int \<Rightarrow> byte list \<Rightarrow> byte list \<Rightarrow> bool \<Rightarrow> int \<Rightarrow> byte list \<Rightarrow> dhfiles \<Rightarrow>
     (int \<times> byte list option \<times> dhfiles) option" where
  "dhcp_main io io_ok pid mac node write secs dev fs =
    (let t0 = io_time io 0;
         xid = p32 (s32 t0 XOR s32 (push_bit 8 pid));
         st = \<lparr>h_times = 1, h_sent = [], h_recvs = 0, h_xid = xid\<rparr>
     in (case dhcp_loop io mac node (t0 + secs) 2 (-1) lease0 st of
           None \<Rightarrow> None
         | Some (t, l, st1) \<Rightarrow>
           if t \<noteq> DHCP_ACK then Some (1, None, fs)
           else
             let l1 = classful l
             in Some (if write then (case write_files io_ok l1 node dev fs of
                        (rc, fs1) \<Rightarrow> (rc, Some (show_lease l1), fs1))
                      else (0, Some (show_lease l1), fs))))"

end
