(* ===== verification/DhcpProps.thy ===== *)
theory DhcpProps
  imports Dhcp
begin

text \<open>The properties of the DHCP client, with instances on a network with one server.\<close>

section \<open>The Internet checksum\<close>

lemma cksum_add_nonneg: "0 \<le> cksum_add p"
  by (induction p rule: cksum_add.induct) simp_all

lemma cksum_fold_mod:
  "0 \<le> s \<Longrightarrow> cksum_fold s mod 65535 = s mod 65535 \<and> 0 \<le> cksum_fold s \<and> cksum_fold s < 65536 \<and>
    (0 < s \<longrightarrow> 0 < cksum_fold s)"
proof (induction s rule: cksum_fold.induct)
  case (1 s)
  show ?case
  proof (cases "s < 65536")
    case True
    then show ?thesis using 1(2) by (simp add: cksum_fold.simps)
  next
    case False
    let ?r = "s mod 65536 + s div 65536"
    have q: "0 < s div 65536" using False by (simp add: pos_imp_zdiv_pos_iff)
    have "s = s div 65536 * 65535 + ?r" by (simp add: algebra_simps)
    then have "s mod 65535 = ?r mod 65535" by (metis mod_mult_self3)
    moreover have "0 < ?r" using q by (simp add: add_nonneg_pos)
    moreover have "cksum_fold s = cksum_fold ?r" using False by (simp add: cksum_fold.simps [of s])
    ultimately show ?thesis using 1(1) [OF False] by simp
  qed
qed

lemma cksum_bounds: "0 \<le> cksum p \<and> cksum p < 65536"
  using cksum_fold_mod [OF cksum_add_nonneg [of p]] by (simp add: cksum_def)

lemma cksum_verifies: "cksum_fold (cksum_add p + cksum p) = 65535"
proof -
  let ?s = "cksum_add p" and ?f = "cksum_fold (cksum_add p)"
  note f = cksum_fold_mod [OF cksum_add_nonneg [of p]]
  let ?t = "?s + (65535 - ?f)"
  have "65535 dvd ?s - ?f" using f mod_eq_dvd_iff [of ?s 65535 ?f] by simp
  then have "65535 dvd (?s - ?f) + 65535" by simp
  then have "?t mod 65535 = 0" by (simp add: algebra_simps mod_0_imp_dvd dvd_imp_mod_0)
  moreover have "0 < ?t" using f cksum_add_nonneg [of p] by (cases "?s = 0") (auto simp: cksum_fold.simps [of 0])
  ultimately have "cksum_fold ?t mod 65535 = 0" "0 < cksum_fold ?t" "cksum_fold ?t < 65536"
    using cksum_fold_mod [of ?t] by auto
  then have "cksum_fold ?t = 65535"
    using mod_pos_pos_trivial [of "cksum_fold ?t" 65535] by (cases "cksum_fold ?t < 65535") simp_all
  then show ?thesis by (simp add: cksum_def)
qed

section \<open>Options\<close>

text \<open>The options of an area, as the loop of \<open>parse\<close> walks it, and an area that holds given ones.\<close>

function options :: "byte list \<Rightarrow> (byte \<times> byte list) list" where
  "options os =
    (if length os \<ge> 2 \<and> os ! 0 \<noteq> 255 then
       if os ! 0 = 0 then options (drop 1 os)
       else let n = unat (os ! 1)
            in if 2 + n > length os then [] else (os ! 0, take n (drop 2 os)) # options (drop (2 + n) os)
     else [])"
  by pat_completeness auto
termination by (relation "measure length") auto

declare options.simps [simp del]

definition enc_opts :: "(byte \<times> byte list) list \<Rightarrow> byte list" where
  "enc_opts opts = concat (map (\<lambda>(c, d). c # word_of_nat (length d) # d) opts)"

definition opt_ok :: "byte \<times> byte list \<Rightarrow> bool" where
  "opt_ok o' \<longleftrightarrow> fst o' \<noteq> 0 \<and> fst o' \<noteq> 255 \<and> length (snd o') < 256"

lemma parse_opts_fold: "parse_opts os acc = fold (\<lambda>(c, d). apply_opt c d) (options os) acc"
proof (induction os acc rule: parse_opts.induct)
  case (1 os acc)
  show ?case
    using 1 unfolding parse_opts.simps [of os acc] options.simps [of os] by (auto simp: Let_def)
qed

lemma options_enc: "list_all opt_ok opts \<Longrightarrow> options (enc_opts opts @ 255 # pad) = opts"
proof (induction opts)
  case Nil
  show ?case by (simp add: enc_opts_def options.simps)
next
  case (Cons o' opts)
  obtain c d where o': "o' = (c, d)" by fastforce
  have d: "unat (word_of_nat (length d) :: byte) = length d" "c \<noteq> 0" "c \<noteq> 255"
    using Cons.prems o' by (simp_all add: opt_ok_def unat_of_nat)
  have "enc_opts (o' # opts) @ 255 # pad = c # word_of_nat (length d) # d @ (enc_opts opts @ 255 # pad)"
    by (simp add: enc_opts_def o')
  then show ?case using Cons d by (subst options.simps) (simp add: o' Let_def)
qed

section \<open>Messages\<close>

definition lease_ok :: "lease \<Rightarrow> bool" where
  "lease_ok l \<longleftrightarrow> length (l_addr l) = 4 \<and> length (l_mask l) = 4 \<and> length (l_router l) = 4 \<and>
     length (l_server l) = 4"

definition build_options :: "int \<Rightarrow> lease \<Rightarrow> byte list \<Rightarrow> (byte \<times> byte list) list" where
  "build_options t l node = [(53, [word_of_int t])] @
     (if t = DHCP_REQUEST then [(50, l_addr l), (54, l_server l)] else []) @
     [(55, [1, 3, 6, 15, 51])] @ (if 0 < length node \<and> length node < 64 then [(12, node)] else [])"

lemma build_opts_enc:
  assumes "lease_ok l"
  shows "build_opts t l node = enc_opts (build_options t l node) @ [255]"
  using assms by (auto simp: build_opts_def build_options_def enc_opts_def lease_ok_def)

lemma build_options_ok: "lease_ok l \<Longrightarrow> list_all opt_ok (build_options t l node)"
  by (auto simp: build_options_def opt_ok_def lease_ok_def)

lemma length_build_bootp: "length xid = 4 \<Longrightarrow> length mac = 6 \<Longrightarrow> length (build_bootp xid mac) = 240"
  by (simp add: build_bootp_def)

lemma length_build_opts:
  "lease_ok l \<Longrightarrow> length (build_opts t l node) =
    11 + (if t = DHCP_REQUEST then 12 else 0) + (if 0 < length node \<and> length node < 64 then 2 + length node else 0)"
  by (simp add: build_opts_def lease_ok_def)

lemma build_None:
  assumes "length xid = 4" "length mac = 6" "lease_ok l"
  shows "build xid mac node t l = None \<longleftrightarrow> t = DHCP_REQUEST \<and> 56 \<le> length node \<and> length node < 64"
  using assms length_build_bootp [OF assms(1,2)] length_build_opts [OF assms(3), of t node]
  by (auto simp: build_def Let_def PKTSIZE_def split: if_splits)

lemma cksum_add_append: "even (length p) \<Longrightarrow> cksum_add (p @ q) = cksum_add p + cksum_add q"
  by (induction p rule: cksum_add.induct) simp_all

lemma cksum_add_p16: "0 \<le> c \<Longrightarrow> c < 65536 \<Longrightarrow> cksum_add (p16 c) = c"
  using g16_p16 [of c] by (simp add: p16_def g16_def g8_def u16_def)

lemma build_ip_checksum: "cksum_fold (cksum_add (build_ip n (cksum (build_ip n 0)))) = 65535"
proof -
  let ?c = "cksum (build_ip n 0)"
  have c: "0 \<le> ?c" "?c < 65536" using cksum_bounds [of "build_ip n 0"] by simp_all
  have e: "cksum_add (build_ip n v) = cksum_add [0x45, 0] + (cksum_add (p16 (20 + int n)) +
      (cksum_add [0, 0, 0, 0, 64, 17] + (cksum_add (p16 v) + cksum_add [0, 0, 0, 0, 255, 255, 255, 255])))" for v
    unfolding build_ip_def by (subst cksum_add_append, simp)+ (rule refl)
  have "cksum_add (p16 0) = 0" by (rule cksum_add_p16) simp_all
  then have "cksum_add (build_ip n ?c) = cksum_add (build_ip n 0) + ?c"
    unfolding e [of ?c] e [of 0] cksum_add_p16 [OF c] by linarith
  then show ?thesis using cksum_verifies [of "build_ip n 0"] c by simp
qed

lemma g16_build_ip: "g16 (build_ip n c) 2 = u16 (20 + int n)"
  using g16_p16 [of "20 + int n"] by (simp add: build_ip_def g16_def g8_def p16_def)

lemma build_layout:
  assumes "length xid = 4" "length mac = 6" "lease_ok l" "build xid mac node t l = Some pkt"
  shows "cksum_fold (cksum_add (take 20 pkt)) = 65535" "g16 pkt 2 = int (length pkt)"
    "g16 pkt 24 = int (length pkt) - 20" "328 \<le> length pkt" "length pkt \<le> PKTSIZE"
    "options (drop 268 pkt) = build_options t l node" "take 4 (drop 32 pkt) = xid" "take 6 (drop 56 pkt) = mac"
proof -
  note b = length_build_bootp [OF assms(1,2)]
  let ?u = "build_bootp xid mac @ build_opts t l node"
  let ?u' = "?u @ replicate (300 - length ?u) 0"
  let ?n = "8 + length ?u'"
  have s: "length ?u \<le> 320" and
    p: "pkt = build_ip ?n (cksum (build_ip ?n 0)) @ ([0, 68, 0, 67] @ p16 (int ?n) @ [0, 0]) @ ?u'"
    using assms(4) by (auto simp: build_def Let_def PKTSIZE_def BOOTPC_def BOOTPS_def split: if_splits)
  have l: "length (build_ip x y) = 20" for x y by (simp add: build_ip_def)
  have len: "length pkt = 20 + ?n" by (simp add: p l)
  show "328 \<le> length pkt" "length pkt \<le> PKTSIZE" using s by (auto simp: len PKTSIZE_def)
  show "cksum_fold (cksum_add (take 20 pkt)) = 65535"
    using build_ip_checksum [of ?n] by (simp add: p l)
  have n: "20 + int ?n < 65536" using s by simp
  have "g16 pkt 2 = g16 (build_ip ?n (cksum (build_ip ?n 0))) 2"
    unfolding p by (rule g16_append_left) (simp add: l)
  also have "\<dots> = u16 (20 + int ?n)" by (rule g16_build_ip)
  finally show "g16 pkt 2 = int (length pkt)" using n by (simp add: u16_id len)
  show "g16 pkt 24 = int (length pkt) - 20"
  proof -
    have "g16 pkt 24 = g16 (([0, 68, 0, 67] @ p16 (int ?n) @ [0, 0]) @ ?u') 4"
      unfolding p using g16_append_right [of "build_ip ?n (cksum (build_ip ?n 0))" 24] by (simp add: l)
    also have "\<dots> = g16 (p16 (int ?n)) 0" by (simp add: g16_def g8_def p16_def)
    finally show ?thesis using n by (simp add: g16_p16 u16_id len)
  qed
  have d: "drop 268 pkt = build_opts t l node @ replicate (300 - length ?u) 0" by (simp add: p l b)
  show "options (drop 268 pkt) = build_options t l node"
    unfolding d build_opts_enc [OF assms(3)] using options_enc [OF build_options_ok [OF assms(3)]] by simp
  show "take 4 (drop 32 pkt) = xid" "take 6 (drop 56 pkt) = mac"
    using assms(1,2) by (simp_all add: p l build_bootp_def)
qed

section \<open>Replies\<close>

lemma version_ihl:
  assumes "5 \<le> k" "k \<le> 15"
  shows "drop_bit 4 (uint (word_of_nat (64 + k) :: byte)) = 4 \<and> unat ((word_of_nat (64 + k) :: byte) AND 15) = k"
proof -
  have "list_all (\<lambda>k. drop_bit 4 (uint (word_of_nat (64 + k) :: byte)) = 4 \<and>
      unat ((word_of_nat (64 + k) :: byte) AND 15) = k) [5..<16]" by code_simp
  then have "\<forall>k\<in>set [5..<16]. drop_bit 4 (uint (word_of_nat (64 + k) :: byte)) = 4 \<and>
      unat ((word_of_nat (64 + k) :: byte) AND 15) = k" by (simp only: list_all_iff)
  moreover have "k \<in> set [5..<16]" unfolding set_upt using assms by simp
  ultimately show ?thesis by (rule bspec)
qed

lemma parse_reply:
  assumes k: "5 \<le> k" "k \<le> 15" and iph: "length iph = 4 * k" "iph ! 0 = word_of_nat (64 + k)" "iph ! 9 = 17"
    and udp: "length udp = 8" "g16 udp 2 = BOOTPC"
    and b: "length b = 240" "b ! 0 = 2" "take 4 (drop 4 b) = xid" "take 6 (drop 28 b) = mac"
      "take 4 (drop 236 b) = [99, 130, 83, 99]"
    and o': "list_all opt_ok opts"
  shows "parse xid mac (iph @ udp @ b @ enc_opts opts @ 255 # pad) =
    fold (\<lambda>(c, d). apply_opt c d) opts (-1, lease0\<lparr>l_addr := take 4 (drop 16 b)\<rparr>)"
proof -
  let ?rest = "enc_opts opts @ 255 # pad"
  let ?pkt = "iph @ udp @ b @ ?rest"
  have p: "?pkt ! 0 = word_of_nat (64 + k)" "?pkt ! 9 = 17"
    using k iph by (simp_all add: nth_append)
  have g: "g16 ?pkt (k * 4 + 2) = BOOTPC"
    using udp iph(1) by (simp add: g16_append_right g16_append_left)
  note g = g [unfolded add_2_eq_Suc']
  have u: "drop (k * 4 + 8) ?pkt = b @ ?rest" using iph(1) udp(1) by simp
  have t: "(b @ ?rest) ! 0 = 2" "take 4 (drop 4 (b @ ?rest)) = xid" "take 6 (drop 28 (b @ ?rest)) = mac"
    "take 4 (drop 236 (b @ ?rest)) = [99, 130, 83, 99]" "drop 240 (b @ ?rest) = ?rest"
    "take 4 (drop 16 (b @ ?rest)) = take 4 (drop 16 b)"
    using b by (simp_all add: nth_append)
  show ?thesis
    using version_ihl [OF k] k iph(1) udp(1) b(1)
    unfolding parse_def p Let_def
    by (simp add: g u t parse_opts_fold options_enc [OF o'] del: drop_append append_assoc)
qed

text \<open>Whatever is received, the lease has four-byte addresses.\<close>

lemma apply_opt_ok: "lease_ok (snd acc) \<Longrightarrow> lease_ok (snd (apply_opt c d acc))"
  by (auto simp: apply_opt_def lease_ok_def Let_def split: prod.splits)

lemma lease0_ok: "lease_ok lease0"
  by (simp add: lease_ok_def lease0_def)

lemma parse_ok: "lease_ok (snd (parse xid mac pkt))"
proof -
  have f: "lease_ok (snd (fold (\<lambda>(c, d). apply_opt c d) os acc))" if "lease_ok (snd acc)" for os acc
    using that by (induction os arbitrary: acc) (simp_all add: apply_opt_ok split_beta)
  have a: "lease_ok (lease0\<lparr>l_addr := take 4 (drop n pkt)\<rparr>)" if "n + 4 \<le> length pkt" for n
    using that by (simp add: lease_ok_def lease0_def)
  show ?thesis
    unfolding parse_def Let_def parse_opts_fold
    by (auto simp: lease0_ok intro!: f a)
qed

section \<open>The exchange\<close>

text \<open>A BOOTP reply by UDP to the client's port, for the transaction and the Ethernet address.\<close>

definition for_us :: "byte list \<Rightarrow> byte list \<Rightarrow> byte list \<Rightarrow> bool" where
  "for_us xid mac pkt \<longleftrightarrow>
    (let u = drop (unat (pkt ! 0 AND 15) * 4 + 8) pkt
     in pkt ! 9 = 17 \<and> g16 pkt (unat (pkt ! 0 AND 15) * 4 + 2) = BOOTPC \<and> 240 \<le> length u \<and>
        u ! 0 = 2 \<and> take 4 (drop 4 u) = xid \<and> take 6 (drop 28 u) = mac)"

lemma parse_for_us: "parse xid mac pkt = (t, l) \<Longrightarrow> t \<noteq> -1 \<Longrightarrow> for_us xid mac pkt"
  by (auto simp: parse_def for_us_def Let_def split: if_splits)

definition heard :: "dio \<Rightarrow> byte list \<Rightarrow> byte list \<Rightarrow> nat \<Rightarrow> int \<Rightarrow> lease \<Rightarrow> bool" where
  "heard io xid mac k t l \<longleftrightarrow> (\<exists>pkt. io_recv io k = Some pkt \<and> for_us xid mac pkt \<and> parse xid mac pkt = (t, l))"

definition exch_post :: "dio \<Rightarrow> byte list \<Rightarrow> int \<Rightarrow> lease \<Rightarrow> dhst \<Rightarrow> int \<times> lease \<times> dhst \<Rightarrow> bool" where
  "exch_post io mac want l st r \<longleftrightarrow> (case r of (t, l', st') \<Rightarrow>
    h_xid st' = h_xid st \<and> h_sent st' = h_sent st \<and> h_recvs st \<le> h_recvs st' \<and> h_times st < h_times st' \<and>
    (if t = -1 then l' = l else (t = want \<or> t = DHCP_NAK) \<and>
      (\<exists>k. h_recvs st \<le> k \<and> k < h_recvs st' \<and> heard io (h_xid st) mac k t l')))"

lemma exch_post_later:
  "exch_post io mac want l (st\<lparr>h_times := Suc (h_times st), h_recvs := Suc (h_recvs st)\<rparr>) r \<Longrightarrow>
    exch_post io mac want l st r"
  by (cases r) (fastforce simp: exch_post_def dest: Suc_leD split: if_splits)

lemma exch_step:
  assumes ih: "\<And>io mac want end l st r. f io mac want end l st = Some r \<Longrightarrow> want \<noteq> -1 \<longrightarrow> exch_post io mac want l st r"
    and e: "(case dh_time io st of (now, st1) \<Rightarrow>
      if \<not> now < end then Some (-1, l, st1)
      else (case dlrecv io st1 of (r, st2) \<Rightarrow>
        if r = None \<or> r = Some [] then f io mac want end l st2
        else (case parse (h_xid st2) mac (the r) of (t, got) \<Rightarrow>
          if t = want \<or> t = DHCP_NAK then Some (t, got, st2) else f io mac want end l st2))) = Some r"
  shows "want \<noteq> -1 \<longrightarrow> exch_post io mac want l st r"
proof
  assume w: "want \<noteq> -1"
  let ?st2 = "st\<lparr>h_times := Suc (h_times st), h_recvs := Suc (h_recvs st)\<rparr>"
  have rec: ?thesis if "f io mac want end l ?st2 = Some r"
    using ih [OF that] w exch_post_later by blast
  show "exch_post io mac want l st r"
  proof (cases "io_time io (h_times st) < end")
    case False
    then show ?thesis using e by (auto simp: dh_time_def exch_post_def)
  next
    case True
    show ?thesis
    proof (cases "io_recv io (h_recvs st) = None \<or> io_recv io (h_recvs st) = Some []")
      case n: True
      then have "f io mac want end l ?st2 = Some r" using e True by (simp add: dh_time_def dlrecv_def)
      then show ?thesis using rec w by blast
    next
      case False
      then obtain pkt where p: "io_recv io (h_recvs st) = Some pkt" "pkt \<noteq> []" by auto
      obtain t got where q: "parse (h_xid st) mac pkt = (t, got)" by fastforce
      have "if t = want \<or> t = DHCP_NAK then r = (t, got, ?st2) else f io mac want end l ?st2 = Some r"
        using e True p q by (auto simp: dh_time_def dlrecv_def)
      then show ?thesis
        using rec w p q
        by (cases "t = want \<or> t = DHCP_NAK") (auto simp: exch_post_def heard_def DHCP_NAK_def dest: parse_for_us)
    qed
  qed
qed

lemma exch_loop_result:
  assumes "exch_loop io mac want end l st = Some r" "want \<noteq> -1"
  shows "exch_post io mac want l st r"
  using exch_loop.raw_induct [of "\<lambda>io m w e l st r. w \<noteq> -1 \<longrightarrow> exch_post io m w l st r" io mac want "end" l st r]
    exch_step assms by blast

lemma exchange_result:
  assumes "exchange io mac node msg want l ms st = Some (t, l', st')" "want \<noteq> -1"
  shows "h_xid st' = h_xid st" "h_recvs st \<le> h_recvs st'" "h_times st \<le> h_times st'"
    "\<exists>pkt. build (h_xid st) mac node msg l = Some pkt \<and> h_sent st' = h_sent st @ [pkt]"
    "if t = -1 then l' = l else (t = want \<or> t = DHCP_NAK) \<and>
      (\<exists>k. h_recvs st \<le> k \<and> k < h_recvs st' \<and> heard io (h_xid st) mac k t l')"
proof -
  obtain pkt where p: "build (h_xid st) mac node msg l = Some pkt"
    using assms by (auto simp: exchange_def split: option.splits)
  consider "t = -1" "l' = l" "st' = st\<lparr>h_sent := h_sent st @ [pkt]\<rparr>"
    | e where "exch_loop io mac want e l (st\<lparr>h_sent := h_sent st @ [pkt], h_times := Suc (h_times st)\<rparr>) = Some (t, l', st')"
  proof (cases "io_send io (length (h_sent st))")
    case True
    then have "exch_loop io mac want (io_time io (h_times st) + cdiv (ms + 999) 1000) l
        (st\<lparr>h_sent := h_sent st @ [pkt], h_times := Suc (h_times st)\<rparr>) = Some (t, l', st')"
      using assms(1) p by (simp add: exchange_def dlsend_def dh_time_def)
    then show ?thesis by (rule that(2))
  next
    case False
    then show ?thesis using assms(1) p that(1) by (simp add: exchange_def dlsend_def)
  qed
  then have "h_xid st' = h_xid st \<and> h_recvs st \<le> h_recvs st' \<and> h_times st \<le> h_times st' \<and>
      h_sent st' = h_sent st @ [pkt] \<and> (if t = -1 then l' = l else (t = want \<or> t = DHCP_NAK) \<and>
      (\<exists>k. h_recvs st \<le> k \<and> k < h_recvs st' \<and> heard io (h_xid st) mac k t l'))"
  proof cases
    case 1
    then show ?thesis by simp
  next
    case 2
    note exch_loop_result [OF 2 assms(2)]
    then show ?thesis unfolding exch_post_def by (simp cong: if_cong)
  qed
  then show "h_xid st' = h_xid st" "h_recvs st \<le> h_recvs st'" "h_times st \<le> h_times st'"
    "\<exists>pkt. build (h_xid st) mac node msg l = Some pkt \<and> h_sent st' = h_sent st @ [pkt]"
    "if t = -1 then l' = l else (t = want \<or> t = DHCP_NAK) \<and>
      (\<exists>k. h_recvs st \<le> k \<and> k < h_recvs st' \<and> heard io (h_xid st) mac k t l')"
    using p by (blast, blast, blast, blast, meson)
qed

text \<open>An offer and an acknowledgment of the same exchange, the request between them sent last.\<close>

definition acked :: "dio \<Rightarrow> byte list \<Rightarrow> byte list \<Rightarrow> lease \<Rightarrow> dhst \<Rightarrow> bool" where
  "acked io mac node l st \<longleftrightarrow> (\<exists>j k lo pkt. j < k \<and> k < h_recvs st \<and>
     heard io (h_xid st) mac j DHCP_OFFER lo \<and> heard io (h_xid st) mac k DHCP_ACK l \<and>
     build (h_xid st) mac node DHCP_REQUEST lo = Some pkt \<and> last (h_sent st) = pkt)"

definition acked_result :: "dio \<Rightarrow> byte list \<Rightarrow> byte list \<Rightarrow> int \<Rightarrow> int \<times> lease \<times> dhst \<Rightarrow> bool" where
  "acked_result io mac node t r \<longleftrightarrow>
    (t \<noteq> DHCP_ACK \<longrightarrow> (case r of (t', l', st') \<Rightarrow> t' = DHCP_ACK \<longrightarrow> acked io mac node l' st'))"

lemma dhcp_step_acked:
  assumes ih: "\<And>io mac node end wait t l st r. f io mac node end wait t l st = Some r \<Longrightarrow> acked_result io mac node t r"
    and e: "(case dh_time io st of (now, st1) \<Rightarrow>
      if \<not> now < end then Some (t, l, st1)
      else
        let wait' = (if wait < 8 then wait * 2 else 8)
        in (case exchange io mac node DHCP_DISCOVER DHCP_OFFER lease0 (wait * 1000) st1 of
              None \<Rightarrow> None
            | Some (t1, l1, st2) \<Rightarrow>
              if t1 \<noteq> DHCP_OFFER then f io mac node end wait' t1 l1 st2
              else (case exchange io mac node DHCP_REQUEST DHCP_ACK l1 (wait * 1000) st2 of
                 None \<Rightarrow> None
               | Some (t2, l2, st3) \<Rightarrow>
                 if t2 = DHCP_ACK then Some (t2, l2, st3)
                 else f io mac node end wait' t2 l2
                        (st3\<lparr>h_xid := (h_xid st3)[3 := h_xid st3 ! 3 + 1]\<rparr>)))) = Some r"
  shows "acked_result io mac node t r"
proof -
  let ?st1 = "st\<lparr>h_times := Suc (h_times st)\<rparr>"
  have any: "acked_result io mac node t r" if "acked_result io mac node t' r" "t' \<noteq> DHCP_ACK" for t'
    using that by (simp add: acked_result_def)
  have n1: "DHCP_OFFER \<noteq> -1" "DHCP_ACK \<noteq> -1" by (simp_all add: dhcp_types)
  show ?thesis
  proof (cases "io_time io (h_times st) < end")
    case False
    then show ?thesis using e by (auto simp: dh_time_def acked_result_def)
  next
    case now: True
    then obtain t1 l1 st2 where e1:
      "exchange io mac node DHCP_DISCOVER DHCP_OFFER lease0 (wait * 1000) ?st1 = Some (t1, l1, st2)"
      using e by (auto simp: dh_time_def Let_def split: option.splits)
    note r1 = exchange_result [OF e1 n1(1)]
    show ?thesis
    proof (cases "t1 = DHCP_OFFER")
      case False
      then have "acked_result io mac node t1 r"
        using e now e1 by (intro ih [of io mac node "end" "if wait < 8 then wait * 2 else 8" t1 l1 st2])
          (simp add: dh_time_def Let_def)
      moreover have "t1 \<noteq> DHCP_ACK" using r1(5) False by (auto simp: dhcp_types split: if_splits)
      ultimately show ?thesis using any by blast
    next
      case offer: True
      then obtain t2 l2 st3 where e2:
        "exchange io mac node DHCP_REQUEST DHCP_ACK l1 (wait * 1000) st2 = Some (t2, l2, st3)"
        using e now e1 by (auto simp: dh_time_def Let_def split: option.splits)
      note r2 = exchange_result [OF e2 n1(2)]
      show ?thesis
      proof (cases "t2 = DHCP_ACK")
        case True
        then have r: "r = (t2, l2, st3)" using e now e1 e2 offer by (simp add: dh_time_def Let_def)
        obtain j where j: "j < h_recvs st2" "heard io (h_xid st) mac j DHCP_OFFER l1"
          using r1(5) offer n1 by auto
        obtain k where k: "h_recvs st2 \<le> k" "k < h_recvs st3" "heard io (h_xid st2) mac k DHCP_ACK l2"
          using r2(5) True n1 by auto
        obtain pkt where "build (h_xid st2) mac node DHCP_REQUEST l1 = Some pkt" "h_sent st3 = h_sent st2 @ [pkt]"
          using r2(4) by blast
        then have "acked io mac node l2 st3"
          using j k r1(1) r2(1) unfolding acked_def
          by (intro exI [of _ j] exI [of _ k] exI [of _ l1] exI [of _ pkt]) simp
        then show ?thesis by (simp add: r acked_result_def)
      next
        case False
        then have "acked_result io mac node t2 r"
          using e now e1 e2 offer
          by (intro ih [of io mac node "end" "if wait < 8 then wait * 2 else 8" t2 l2
                "st3\<lparr>h_xid := (h_xid st3)[3 := h_xid st3 ! 3 + 1]\<rparr>"]) (simp add: dh_time_def Let_def)
        then show ?thesis using any False by blast
      qed
    qed
  qed
qed

lemma dhcp_loop_acked:
  assumes "dhcp_loop io mac node end wait t l st = Some r"
  shows "acked_result io mac node t r"
  using dhcp_loop.raw_induct [of "\<lambda>io mac node e w t l st r. acked_result io mac node t r"
      io mac node "end" wait t l st r] dhcp_step_acked assms by blast

section \<open>It ends\<close>

text \<open>A clock that passes every time for good.\<close>

definition clock_runs :: "dio \<Rightarrow> bool" where
  "clock_runs io \<longleftrightarrow> (\<forall>T. \<exists>K. \<forall>k \<ge> K. T \<le> io_time io k)"

lemma exch_loop_returns:
  assumes "\<forall>k \<ge> K. end \<le> io_time io k"
  shows "K \<le> h_times st + d \<Longrightarrow> exch_loop io mac want end l st \<noteq> None"
proof (induction d arbitrary: st)
  case 0
  then have "end \<le> io_time io (h_times st)" using assms by simp
  then show ?case by (subst exch_loop.simps) (simp add: dh_time_def)
next
  case (Suc d)
  have "exch_loop io mac want end l (st\<lparr>h_times := Suc (h_times st), h_recvs := Suc (h_recvs st)\<rparr>) \<noteq> None"
    using Suc.prems by (intro Suc.IH) simp
  then show ?case
    by (subst exch_loop.simps) (simp add: dh_time_def dlrecv_def split: prod.split)
qed

lemma exchange_returns:
  assumes c: "clock_runs io" and ok: "length (h_xid st) = 4" "length mac = 6" "lease_ok l" "length node < 56"
  shows "exchange io mac node msg want l ms st \<noteq> None"
proof -
  obtain pkt where p: "build (h_xid st) mac node msg l = Some pkt"
    using build_None [OF ok(1-3), of node msg] ok(4) by fastforce
  have e: "exch_loop io mac want e l s \<noteq> None" for e s
  proof -
    obtain K where "\<forall>k \<ge> K. e \<le> io_time io k" using c by (auto simp: clock_runs_def)
    then show ?thesis by (rule exch_loop_returns [of K _ _ _ K]) simp
  qed
  then show ?thesis
    by (simp add: exchange_def p dlsend_def dh_time_def split: bool.split)
qed

lemma exchange_lease_ok:
  assumes "exchange io mac node msg want l ms st = Some (t, l', st')" "want \<noteq> -1" "lease_ok l"
  shows "lease_ok l'"
proof (cases "t = -1")
  case True
  then show ?thesis using exchange_result(5) [OF assms(1,2)] assms(3) by simp
next
  case False
  then obtain k where "heard io (h_xid st) mac k t l'" using exchange_result(5) [OF assms(1,2)] by auto
  then obtain pkt where "parse (h_xid st) mac pkt = (t, l')" by (auto simp: heard_def)
  then show ?thesis using parse_ok [of "h_xid st" mac pkt] by simp
qed

lemma dhcp_loop_returns:
  assumes c: "clock_runs io" and K: "\<forall>k \<ge> K. end \<le> io_time io k" and ok: "length mac = 6" "length node < 56"
  shows "K \<le> h_times st + d \<Longrightarrow> length (h_xid st) = 4 \<Longrightarrow> dhcp_loop io mac node end wait t l st \<noteq> None"
proof (induction d arbitrary: wait t l st)
  case 0
  then have "end \<le> io_time io (h_times st)" using K by simp
  then show ?case by (subst dhcp_loop.simps) (simp add: dh_time_def)
next
  case (Suc d)
  have n1: "DHCP_OFFER \<noteq> -1" "DHCP_ACK \<noteq> -1" by (simp_all add: dhcp_types)
  let ?st1 = "st\<lparr>h_times := Suc (h_times st)\<rparr>" and ?w = "if wait < 8 then wait * 2 else 8"
  show ?case
  proof (cases "io_time io (h_times st) < end")
    case False
    then show ?thesis by (subst dhcp_loop.simps) (simp add: dh_time_def)
  next
    case now: True
    have "exchange io mac node DHCP_DISCOVER DHCP_OFFER lease0 (wait * 1000) ?st1 \<noteq> None"
      using Suc.prems ok by (intro exchange_returns [OF c]) (simp_all add: lease0_ok)
    then obtain t1 l1 st2 where e1:
      "exchange io mac node DHCP_DISCOVER DHCP_OFFER lease0 (wait * 1000) ?st1 = Some (t1, l1, st2)" by auto
    note r1 = exchange_result [OF e1 n1(1)] and l1 = exchange_lease_ok [OF e1 n1(1) lease0_ok]
    have s2: "K \<le> h_times st2 + d" "length (h_xid st2) = 4" using r1 Suc.prems by simp_all
    show ?thesis
    proof (cases "t1 = DHCP_OFFER")
      case False
      then show ?thesis
        using Suc.IH [OF s2] now e1 by (subst dhcp_loop.simps) (simp add: dh_time_def Let_def)
    next
      case offer: True
      have "exchange io mac node DHCP_REQUEST DHCP_ACK l1 (wait * 1000) st2 \<noteq> None"
        using s2 ok l1 by (intro exchange_returns [OF c]) simp_all
      then obtain t2 l2 st3 where e2:
        "exchange io mac node DHCP_REQUEST DHCP_ACK l1 (wait * 1000) st2 = Some (t2, l2, st3)" by auto
      note r2 = exchange_result [OF e2 n1(2)]
      have "dhcp_loop io mac node end ?w t2 l2 (st3\<lparr>h_xid := (h_xid st3)[3 := h_xid st3 ! 3 + 1]\<rparr>) \<noteq> None"
        using r2 s2 by (intro Suc.IH) simp_all
      then show ?thesis
        using now e1 e2 offer by (subst dhcp_loop.simps) (simp add: dh_time_def Let_def)
    qed
  qed
qed

section \<open>The hosts file\<close>

text \<open>A line as they are: up to 510 bytes of text, words apart by blanks, the first of at most 127.\<close>

definition hosts_line :: "byte list \<Rightarrow> bool" where
  "hosts_line l \<longleftrightarrow> length l \<le> 510 \<and> (\<forall>c\<in>set l. c \<noteq> 0 \<and> (is_space c \<longrightarrow> blank c)) \<and>
     length (takeWhile (\<lambda>c. \<not> is_space c) (dropWhile is_space l)) \<le> 127"

definition names :: "byte list \<Rightarrow> byte list \<Rightarrow> bool" where
  "names node l \<longleftrightarrow> \<not> (l \<noteq> [] \<and> l ! 0 = 35) \<and> second_word l = Some node"

definition address_of :: "byte list \<Rightarrow> byte list list \<Rightarrow> byte list option" where
  "address_of node ls = map_option (\<lambda>l. fst (scan_word l)) (List.find (names node) ls)"

lemma scan_word_parts:
  assumes "\<forall>c\<in>set b. is_space c" "w \<noteq> []" "\<forall>c\<in>set w. \<not> is_space c" "length w \<le> 127" "r = [] \<or> is_space (hd r)"
  shows "scan_word (b @ w @ r) = (w, r)"
proof -
  have "dropWhile is_space (b @ w @ r) = w @ r"
    using assms by (cases w) (auto simp: dropWhile_append2)
  moreover have "takeWhile (\<lambda>c. \<not> is_space c) (w @ r) = w"
    using assms by (cases r) (auto simp: takeWhile_append)
  ultimately show ?thesis using assms(4) by (simp add: scan_word_def Let_def)
qed

lemma dec_digits: "c \<in> set (dec n) \<Longrightarrow> 48 \<le> c \<and> c \<le> 57"
proof (induction n rule: dec.induct)
  case (1 n)
  have d: "48 \<le> (word_of_nat (48 + k) :: byte) \<and> (word_of_nat (48 + k) :: byte) \<le> 57" if "k < 10" for k
  proof -
    have "list_all (\<lambda>k. 48 \<le> (word_of_nat (48 + k) :: byte) \<and> (word_of_nat (48 + k) :: byte) \<le> 57) [0..<10]"
      by code_simp
    then show ?thesis using that unfolding list_all_iff by simp
  qed
  show ?case
    using 1(2) d [of n] d [of "n mod 10"] 1(1)
    by (subst (asm) dec.simps) (auto split: if_splits)
qed

lemma space_not_digit: "48 \<le> c \<Longrightarrow> c \<le> 57 \<Longrightarrow> \<not> is_space c \<and> c \<noteq> 35"
  by (auto simp: is_space_def)

lemma length_dec: "n < 256 \<Longrightarrow> length (dec n) \<le> 3 \<and> dec n \<noteq> []"
proof -
  assume n: "n < 256"
  have a: "length (dec k) = 1" if "k < 10" for k using that by (subst dec.simps) simp
  have b: "length (dec k) \<le> 2" if "k < 100" for k
    using that a [of "k div 10"] a [of k] by (subst dec.simps) simp
  show ?thesis using n b [of "n div 10"] a [of n] by (subst (1 2) dec.simps) auto
qed

lemma ip_facts: "c \<in> set (ip a) \<Longrightarrow> \<not> is_space c \<and> c \<noteq> 35" "length (ip a) \<le> 15" "ip a \<noteq> []"
proof -
  have d: "c \<in> set (dec n) \<Longrightarrow> \<not> is_space c \<and> c \<noteq> 35" for c n using dec_digits space_not_digit by blast
  have p: "\<not> is_space 46 \<and> (46 :: byte) \<noteq> 35" by (simp add: is_space_def)
  have l: "length (dec (unat b)) \<le> 3" for b :: byte
  proof -
    have "unat b < 256" by (rule order_less_le_trans [OF unsigned_less]) simp
    then show ?thesis using length_dec by blast
  qed
  have e: "c \<in> set (ip a) \<Longrightarrow> c = 46 \<or> (\<exists>n. c \<in> set (dec n))" by (simp add: ip_def) blast
  show "c \<in> set (ip a) \<Longrightarrow> \<not> is_space c \<and> c \<noteq> 35" by (drule e) (metis d p)
  show "length (ip a) \<le> 15"
    using l [of "a ! 0"] l [of "a ! 1"] l [of "a ! 2"] l [of "a ! 3"] by (simp add: ip_def)
  show "ip a \<noteq> []" by (simp add: ip_def)
qed

definition word_of :: "byte list \<Rightarrow> byte list" where
  "word_of s = take 127 (takeWhile (\<lambda>c. \<not> is_space c) (dropWhile is_space s))"

lemma fst_scan_word: "fst (scan_word s) = word_of s"
  by (simp add: scan_word_def word_of_def Let_def)

lemma second_word_alt:
  "scan_word s = (w, r) \<Longrightarrow> second_word s = (if w = [] \<or> word_of r = [] then None else Some (word_of r))"
  using fst_scan_word [of r] by (cases "scan_word r") (auto simp: second_word_def)

lemma word_of_newline: "word_of (x @ [10]) = word_of x"
proof -
  have n: "is_space 10" by (simp add: is_space_def)
  have "takeWhile (\<lambda>c. \<not> is_space c) (y @ [10]) = takeWhile (\<lambda>c. \<not> is_space c) y" for y
    using n by (induction y) auto
  then have "takeWhile (\<lambda>c. \<not> is_space c) (dropWhile is_space (x @ [10])) =
      takeWhile (\<lambda>c. \<not> is_space c) (dropWhile is_space x)"
    using n by (induction x) auto
  then show ?thesis by (simp add: word_of_def)
qed

lemma blank_space: "blank c \<Longrightarrow> is_space c"
  by (auto simp: blank_def is_space_def)

lemma hosts_line_parts:
  assumes "hosts_line l"
  obtains b w r where "l = b @ w @ r" "\<forall>c\<in>set b. is_space c \<and> blank c" "\<forall>c\<in>set w. \<not> is_space c \<and> \<not> blank c"
    "length w \<le> 127" "r = [] \<or> is_space (hd r) \<and> blank (hd r)" "w = [] \<longrightarrow> r = []"
proof
  let ?b = "takeWhile is_space l" and ?d = "dropWhile is_space l"
  let ?w = "takeWhile (\<lambda>c. \<not> is_space c) ?d" and ?r = "dropWhile (\<lambda>c. \<not> is_space c) ?d"
  have s: "is_space c \<longrightarrow> blank c" if "c \<in> set l" for c using assms that by (auto simp: hosts_line_def)
  have sub: "set ?d \<subseteq> set l" by (auto dest: set_dropWhileD)
  show "l = ?b @ ?w @ ?r" by simp
  show "\<forall>c\<in>set ?b. is_space c \<and> blank c" using s by (auto dest: set_takeWhileD)
  show "\<forall>c\<in>set ?w. \<not> is_space c \<and> \<not> blank c" using blank_space by (auto dest: set_takeWhileD)
  show "length ?w \<le> 127" using assms by (simp add: hosts_line_def)
  have "?r \<noteq> [] \<Longrightarrow> is_space (hd ?r) \<and> hd ?r \<in> set l"
    using hd_dropWhile [of "\<lambda>c. \<not> is_space c" ?d] sub hd_in_set [of ?r] set_dropWhileD [of "hd ?r" _ ?d] by blast
  then show "?r = [] \<or> is_space (hd ?r) \<and> blank (hd ?r)" using s by blast
  show "?w = [] \<longrightarrow> ?r = []"
  proof (cases ?d)
    case (Cons c cs)
    then have "\<not> is_space c" using hd_dropWhile [of is_space l] by simp
    then show ?thesis by (simp add: Cons)
  next
    case Nil
    show ?thesis unfolding Nil by simp
  qed
qed

lemma scan_line:
  assumes "hosts_line l"
  shows "fst (scan_word (l @ [10])) = fst (scan_word l)" "second_word (l @ [10]) = second_word l"
    "second_word l = Some v \<Longrightarrow> line_rest (l @ [10]) = line_rest l @ [10] \<and> word_of (line_rest l) = v \<and>
       line_rest l \<noteq> [] \<and> is_space (hd (line_rest l)) \<and> blank (hd (line_rest l))"
proof -
  obtain b w r where p: "l = b @ w @ r" "\<forall>c\<in>set b. is_space c \<and> blank c" "\<forall>c\<in>set w. \<not> is_space c \<and> \<not> blank c"
    "length w \<le> 127" "r = [] \<or> is_space (hd r) \<and> blank (hd r)" "w = [] \<longrightarrow> r = []"
    by (rule hosts_line_parts [OF assms])
  have n: "is_space 10" by (simp add: is_space_def)
  show f: "fst (scan_word (l @ [10])) = fst (scan_word l)" by (simp add: fst_scan_word word_of_newline)
  show s: "second_word (l @ [10]) = second_word l"
  proof (cases "w = []")
    case True
    then have "dropWhile is_space l = []" using p by simp
    then have "scan_word l = ([], [])" by (simp add: scan_word_def Let_def del: dropWhile_eq_Nil_conv)
    moreover obtain w' r' where "scan_word (l @ [10]) = (w', r')" by fastforce
    ultimately show ?thesis using f by (simp add: second_word_alt)
  next
    case False
    have "scan_word l = (w, r)" unfolding p(1) using p False by (intro scan_word_parts) auto
    moreover have "scan_word (b @ w @ (r @ [10])) = (w, r @ [10])"
      using p False n by (intro scan_word_parts) (auto simp: hd_append)
    then have "scan_word (l @ [10]) = (w, r @ [10])" by (simp add: p(1))
    ultimately show ?thesis by (simp add: second_word_alt word_of_newline)
  qed
  assume v: "second_word l = Some v"
  have w: "w \<noteq> []"
  proof
    assume "w = []"
    then have "dropWhile is_space l = []" using p by simp
    then show False using v by (simp add: scan_word_def second_word_def Let_def del: dropWhile_eq_Nil_conv)
  qed
  have "scan_word l = (w, r)" unfolding p(1) using p w by (intro scan_word_parts) auto
  then have r: "word_of r = v" "r \<noteq> []" using v by (auto simp: second_word_alt word_of_def split: if_splits)
  have "dropWhile blank (b @ w @ y) = w @ y" for y using p(2,3) w by (cases w) (auto simp: dropWhile_append2)
  moreover have "dropWhile (\<lambda>c. \<not> blank c) (w @ r @ z) = r @ z" for z
    using p(3,5) r(2) by (cases r) (auto simp: dropWhile_append2)
  ultimately have "line_rest (b @ w @ r @ z) = r @ z" for z by (simp add: line_rest_def)
  from this [of "[]"] this [of "[10]"] have "line_rest l = r" "line_rest (l @ [10]) = r @ [10]"
    by (simp_all add: p(1))
  then show "line_rest (l @ [10]) = line_rest l @ [10] \<and> word_of (line_rest l) = v \<and>
      line_rest l \<noteq> [] \<and> is_space (hd (line_rest l)) \<and> blank (hd (line_rest l))"
    using r p(5) by simp
qed

text \<open>The lines with the address of \<open>node\<close> set.\<close>

fun hosts_set :: "byte list \<Rightarrow> byte list \<Rightarrow> byte list list \<Rightarrow> byte list list" where
  "hosts_set addr node [] = [ip addr @ [9] @ node]"
| "hosts_set addr node (l # ls) =
    (if names node l then (ip addr @ line_rest l) # ls else l # hosts_set addr node ls)"

lemma cstr_line: "hosts_line l \<Longrightarrow> cstr (l @ [10]) = l @ [10]"
  by (intro cstr_no_nul) (auto simp: hosts_line_def)

lemma names_newline: "hosts_line l \<Longrightarrow>
    (\<not> (l @ [10] \<noteq> [] \<and> (l @ [10]) ! 0 = 35) \<and> second_word (l @ [10]) = Some node) = names node l"
proof -
  assume l: "hosts_line l"
  have "(l @ [10] \<noteq> [] \<and> (l @ [10]) ! 0 = (35 :: byte)) = (l \<noteq> [] \<and> l ! 0 = 35)" by (cases l) simp_all
  then show ?thesis unfolding names_def scan_line(2) [OF l] by simp
qed

lemma write_lines_done:
  "\<forall>l\<in>set ls. hosts_line l \<Longrightarrow> write_lines addr node True (map (\<lambda>l. l @ [10]) ls) = unlines ls"
  by (induction ls) (simp_all add: unlines_def cstr_line Let_def)

lemma write_lines_set:
  "\<forall>l\<in>set ls. hosts_line l \<Longrightarrow>
    write_lines addr node False (map (\<lambda>l. l @ [10]) ls) = unlines (hosts_set addr node ls)"
proof (induction ls)
  case Nil
  then show ?case by (simp add: unlines_def)
next
  case (Cons l ls)
  then have l: "hosts_line l" by simp
  have r: "line_rest (l @ [10]) = line_rest l @ [10]" if "names node l"
    using scan_line(3) [OF l] that by (simp add: names_def)
  show ?case
    using Cons write_lines_done [of ls addr node] r names_newline [OF l, of node]
    by (simp add: cstr_line Let_def) (auto simp: unlines_def)
qed

lemma scan_ip: "x \<noteq> [] \<Longrightarrow> is_space (hd x) \<Longrightarrow> scan_word (ip a @ x) = (ip a, x)"
  using scan_word_parts [of "[]" "ip a" x] ip_facts(1) [of _ a] ip_facts(2,3) [of a] by auto

lemma names_ip:
  assumes "x \<noteq> []" "is_space (hd x)" "word_of x = node" "node \<noteq> []"
  shows "names node (ip a @ x)" "fst (scan_word (ip a @ x)) = ip a"
proof -
  have "ip a ! 0 \<in> set (ip a)" using ip_facts(3) by simp
  then have "ip a ! 0 \<noteq> 35" using ip_facts(1) by blast
  then have "(ip a @ x) ! 0 \<noteq> 35" using ip_facts(3) [of a] by (simp add: nth_append)
  then show "names node (ip a @ x)"
    using assms scan_ip [OF assms(1,2), of a] ip_facts(3) [of a] by (simp add: names_def second_word_alt)
  show "fst (scan_word (ip a @ x)) = ip a" using scan_ip [OF assms(1,2), of a] by simp
qed

lemma line_rest_ip: "x \<noteq> [] \<Longrightarrow> blank (hd x) \<Longrightarrow> line_rest (ip a @ x) = x"
proof -
  assume x: "x \<noteq> []" "blank (hd x)"
  have b: "\<forall>c\<in>set (ip a). \<not> blank c" using ip_facts(1) blank_space by blast
  then have "dropWhile blank (ip a @ x) = ip a @ x" using ip_facts(3) [of a] by (cases "ip a") auto
  moreover have "dropWhile (\<lambda>c. \<not> blank c) (ip a @ x) = x" using b x by (cases x) (auto simp: dropWhile_append2)
  ultimately show ?thesis by (simp add: line_rest_def)
qed

lemma word_of_tab: "node \<noteq> [] \<Longrightarrow> \<forall>c\<in>set node. \<not> is_space c \<Longrightarrow> length node \<le> 127 \<Longrightarrow> word_of (9 # node) = node"
proof -
  assume n: "node \<noteq> []" "\<forall>c\<in>set node. \<not> is_space c" "length node \<le> 127"
  have s: "is_space 9" by (simp add: is_space_def)
  have d: "dropWhile is_space node = node" using n by (cases node) auto
  have t: "takeWhile (\<lambda>c. \<not> is_space c) node = node" using n(2) by (simp add: takeWhile_eq_all_conv)
  show ?thesis using n(3) by (simp add: word_of_def s d t del: takeWhile_eq_all_conv)
qed

lemma hosts_set_facts:
  assumes node: "node \<noteq> []" "\<forall>c\<in>set node. \<not> is_space c" "length node \<le> 127"
  shows "\<forall>l\<in>set ls. hosts_line l \<Longrightarrow>
    address_of node (hosts_set addr node ls) = Some (ip addr) \<and>
    filter (\<lambda>l. \<not> names node l) (hosts_set addr node ls) = filter (\<lambda>l. \<not> names node l) ls \<and>
    map line_rest (filter (names node) (hosts_set addr node ls)) =
      (if filter (names node) ls = [] then [9 # node] else map line_rest (filter (names node) ls))"
proof (induction ls)
  case Nil
  have t: "is_space 9" "blank 9" by (simp_all add: is_space_def blank_def)
  note n = names_ip [of "9 # node" node addr, OF _ _ word_of_tab [OF node] node(1)]
  show ?case using n t line_rest_ip [of "9 # node" addr] by (simp add: address_of_def)
next
  case (Cons l ls)
  show ?case
  proof (cases "names node l")
    case True
    then have r: "word_of (line_rest l) = node" "line_rest l \<noteq> []" "is_space (hd (line_rest l))" "blank (hd (line_rest l))"
      using scan_line(3) [of l node] Cons.prems by (simp_all add: names_def)
    show ?thesis
      using True names_ip [OF r(2,3,1) node(1), of addr] line_rest_ip [OF r(2,4), of addr]
      by (simp add: address_of_def)
  next
    case False
    then show ?thesis using Cons by (simp add: address_of_def)
  qed
qed

section \<open>A network with one server\<close>

definition demo_mac :: "byte list" where "demo_mac = [0, 128, 25, 1, 2, 3]"

definition demo_iph :: "byte list" where
  "demo_iph = [0x45, 0, 0, 0, 0, 0, 0, 0, 64, 17, 0, 0, 10, 0, 0, 1, 255, 255, 255, 255]"

definition demo_udp :: "byte list" where
  "demo_udp = [0, 67, 0, 68, 0, 0, 0, 0]"

definition demo_reply :: "byte list \<Rightarrow> byte list" where
  "demo_reply xid = [2, 1, 6, 0] @ xid @ replicate 8 0 @ [10, 0, 0, 7] @ replicate 8 0 @ demo_mac @
     replicate 202 0 @ [99, 130, 83, 99]"

definition demo_opts :: "byte \<Rightarrow> (byte \<times> byte list) list" where
  "demo_opts t = [(53, [t]), (54, [10, 0, 0, 1]), (1, [255, 255, 255, 0]), (51, [0, 0, 14, 16])]"

definition demo_pkt :: "byte \<Rightarrow> byte list" where
  "demo_pkt t = demo_iph @ demo_udp @ demo_reply [0, 0, 0, 9] @ enc_opts (demo_opts t) @ [255]"

definition demo_dio :: dio where
  "demo_dio = \<lparr>io_time = int, io_send = (\<lambda>_. True),
     io_recv = (\<lambda>k. if k = 0 then Some (demo_pkt 2) else if k = 1 then Some (demo_pkt 5) else None)\<rparr>"

definition demo_dhst :: dhst where
  "demo_dhst = \<lparr>h_times = 1, h_sent = [], h_recvs = 0, h_xid = [0, 0, 0, 9]\<rparr>"

definition demo_node :: "byte list" where "demo_node = bytes_of ''tt''"

lemma demo_run:
  "case dhcp_loop demo_dio demo_mac demo_node 30 2 (-1) lease0 demo_dhst of
     None \<Rightarrow> False | Some (t, l, st) \<Rightarrow> t = DHCP_ACK \<and> l_addr l = [10, 0, 0, 7]"
  by code_simp

section \<open>The properties\<close>

text \<open>
  C17. When the client ends with an acknowledged lease, the lease is what an acknowledgment says
  that it heard, a reply for its transaction and its Ethernet address, after an offer for the
  same, and the last message sent is the request made from that offer.
\<close>
theorem dhcp_lease_is_acked:
  assumes "dhcp_loop io mac node end wait t l st = Some (DHCP_ACK, l', st')" "t \<noteq> DHCP_ACK"
  shows "\<exists>j k lo pkt. j < k \<and> k < h_recvs st' \<and> heard io (h_xid st') mac j DHCP_OFFER lo \<and>
    heard io (h_xid st') mac k DHCP_ACK l' \<and>
    build (h_xid st') mac node DHCP_REQUEST lo = Some pkt \<and> last (h_sent st') = pkt"
  using dhcp_loop_acked [OF assms(1)] assms(2) by (simp add: acked_result_def acked_def)

theorem dhcp_lease_is_acked_witness:
  "\<exists>l st k. dhcp_loop demo_dio demo_mac demo_node 30 2 (-1) lease0 demo_dhst = Some (DHCP_ACK, l, st) \<and>
    heard demo_dio (h_xid st) demo_mac k DHCP_ACK l"
proof -
  obtain l st where r: "dhcp_loop demo_dio demo_mac demo_node 30 2 (-1) lease0 demo_dhst = Some (DHCP_ACK, l, st)"
    using demo_run by (auto split: option.splits)
  show ?thesis using dhcp_lease_is_acked [OF r] r by (auto simp: dhcp_types)
qed

text \<open>
  C18. The client ends: on a clock that passes every time, whatever the network does, the loop
  of discovers and requests returns, for node names of up to 55 bytes.
\<close>
theorem dhcp_ends:
  assumes "clock_runs io" "length (h_xid st) = 4" "length mac = 6" "length node < 56"
  shows "dhcp_loop io mac node end wait t l st \<noteq> None"
proof -
  obtain K where "\<forall>k \<ge> K. end \<le> io_time io k" using assms(1) by (auto simp: clock_runs_def)
  then show ?thesis using dhcp_loop_returns [OF assms(1) _ assms(3,4), of K "end" st K] assms(2) by simp
qed

theorem dhcp_ends_witness: "dhcp_loop demo_dio demo_mac demo_node 30 2 (-1) lease0 demo_dhst \<noteq> None"
proof (rule dhcp_ends)
  show "clock_runs demo_dio"
    unfolding clock_runs_def
  proof
    fix T show "\<exists>K. \<forall>k \<ge> K. T \<le> io_time demo_dio k" by (rule exI [of _ "nat T"]) (auto simp: demo_dio_def)
  qed
qed (simp_all add: demo_dhst_def demo_mac_def demo_node_def bytes_of_def)

text \<open>
  C19. \<open>build\<close>: a message that fits is a whole IP datagram, whose header checksum verifies and
  whose lengths are right, that carries the transaction, the Ethernet address and exactly the
  options of its type.
\<close>
theorem dhcp_build_message:
  assumes "length xid = 4" "length mac = 6" "lease_ok l" "build xid mac node t l = Some pkt"
  shows "cksum_fold (cksum_add (take 20 pkt)) = 65535 \<and> g16 pkt 2 = int (length pkt) \<and>
    g16 pkt 24 = int (length pkt) - 20 \<and> 328 \<le> length pkt \<and> length pkt \<le> PKTSIZE \<and>
    options (drop 268 pkt) = build_options t l node \<and> take 4 (drop 32 pkt) = xid \<and> take 6 (drop 56 pkt) = mac"
  using build_layout [OF assms] by blast

theorem dhcp_build_message_witness:
  "\<exists>pkt. build [0, 0, 0, 9] demo_mac demo_node DHCP_REQUEST lease0 = Some pkt \<and>
    cksum_fold (cksum_add (take 20 pkt)) = 65535"
proof -
  have "build [0, 0, 0, 9] demo_mac demo_node DHCP_REQUEST lease0 \<noteq> None"
    using build_None [of "[0, 0, 0, 9]" demo_mac lease0 demo_node DHCP_REQUEST] lease0_ok
    by (simp add: demo_mac_def demo_node_def bytes_of_def)
  then show ?thesis
    using dhcp_build_message [of "[0, 0, 0, 9]" demo_mac lease0 demo_node DHCP_REQUEST] lease0_ok
    by (auto simp: demo_mac_def)
qed

text \<open>
  C20. \<open>build\<close> writes past its buffer of 348 bytes exactly when it makes a request on a node
  whose name has 56 to 63 bytes.
\<close>
theorem dhcp_build_overflows_iff:
  assumes "length xid = 4" "length mac = 6" "lease_ok l"
  shows "build xid mac node t l = None \<longleftrightarrow> t = DHCP_REQUEST \<and> 56 \<le> length node \<and> length node < 64"
  using assms by (rule build_None)

theorem dhcp_build_overflows_iff_witness:
  "build [0, 0, 0, 9] demo_mac (replicate 60 97) DHCP_REQUEST lease0 = None"
  using dhcp_build_overflows_iff [of "[0, 0, 0, 9]" demo_mac lease0 "replicate 60 97" DHCP_REQUEST] lease0_ok
  by (simp add: demo_mac_def)

text \<open>
  C21. \<open>parse\<close> reads what a server writes: from a reply with any IP header length, to this
  transaction and address, the lease is the offered address with the options applied in
  order, each wherever it stands, and the type is that of the message type option.
\<close>
theorem dhcp_parse_reply:
  assumes "5 \<le> k" "k \<le> 15" "length iph = 4 * k" "iph ! 0 = word_of_nat (64 + k)" "iph ! 9 = 17"
    and "length udp = 8" "g16 udp 2 = BOOTPC" "length b = 240" "b ! 0 = 2" "take 4 (drop 4 b) = xid"
    and "take 6 (drop 28 b) = mac" "take 4 (drop 236 b) = [99, 130, 83, 99]" "list_all opt_ok opts"
  shows "parse xid mac (iph @ udp @ b @ enc_opts opts @ 255 # pad) =
    fold (\<lambda>(c, d). apply_opt c d) opts (-1, lease0\<lparr>l_addr := take 4 (drop 16 b)\<rparr>)"
  using assms by (rule parse_reply)

theorem dhcp_parse_reply_witness:
  "parse [0, 0, 0, 9] demo_mac (demo_pkt 5) = (5, lease0\<lparr>l_addr := [10, 0, 0, 7], l_server := [10, 0, 0, 1],
    l_mask := [255, 255, 255, 0], l_secs := 3600\<rparr>)"
proof -
  have "parse [0, 0, 0, 9] demo_mac (demo_iph @ demo_udp @ demo_reply [0, 0, 0, 9] @ enc_opts (demo_opts 5) @ 255 # []) =
      fold (\<lambda>(c, d). apply_opt c d) (demo_opts 5) (-1, lease0\<lparr>l_addr := take 4 (drop 16 (demo_reply [0, 0, 0, 9]))\<rparr>)"
    by (rule dhcp_parse_reply [where k = 5])
      (simp_all add: demo_iph_def demo_udp_def demo_reply_def demo_mac_def demo_opts_def opt_ok_def BOOTPC_def
        g16_def g8_def)
  then show ?thesis
    by (simp add: demo_pkt_def demo_reply_def demo_opts_def apply_opt_def lease0_def g32_def g16_def g8_def)
qed

text \<open>
  \<open>writehosts\<close>: in the new hosts file the node has the lease's address, its aliases are
  kept, and every other line is as it was, in its place.
\<close>
theorem dhcp_hosts_updated:
  assumes "\<forall>x\<in>set ls. hosts_line x" "node \<noteq> []" "\<forall>c\<in>set node. \<not> is_space c" "length node \<le> 127"
  shows "\<exists>ls'. writehosts l node (unlines ls) = unlines ls' \<and> address_of node ls' = Some (ip (l_addr l)) \<and>
    filter (\<lambda>x. \<not> names node x) ls' = filter (\<lambda>x. \<not> names node x) ls \<and>
    map line_rest (filter (names node) ls') =
      (if filter (names node) ls = [] then [9 # node] else map line_rest (filter (names node) ls))"
proof -
  have "fgets_all 511 (unlines ls) = map (\<lambda>l. l @ [10]) ls"
    using assms(1) by (intro fgets_unlines) (auto simp: hosts_line_def is_space_def blank_def)
  then have "writehosts l node (unlines ls) = unlines (hosts_set (l_addr l) node ls)"
    using write_lines_set [OF assms(1)] by (simp add: writehosts_def)
  then show ?thesis using hosts_set_facts [OF assms(2-4,1), of "l_addr l"] by blast
qed

theorem dhcp_hosts_updated_witness:
  "\<exists>ls'. writehosts lease0 demo_node (unlines [bytes_of ''10.0.0.3 tt loghost'']) = unlines ls' \<and>
    address_of demo_node ls' = Some (ip [0, 0, 0, 0])"
proof -
  have "hosts_line (bytes_of ''10.0.0.3 tt loghost'')" by code_simp
  moreover have "demo_node \<noteq> []" "\<forall>c\<in>set demo_node. \<not> is_space c" "length demo_node \<le> 127" by code_simp+
  ultimately show ?thesis
    using dhcp_hosts_updated [of "[bytes_of ''10.0.0.3 tt loghost'']" demo_node lease0]
    by (auto simp: lease0_def)
qed

end
