(* ===== verification/Ttntp.thy ===== *)
theory Ttntp
  imports Prelude Complex_Main
begin

text \<open>
  \<open>tools/ttntp/ttntp.c\<close>: the SNTP client. The kernel's clocks, the sockets, \<open>localtime\<close> and
  \<open>inet_addr\<close> are the environment \<open>ttio\<close>, answers indexed by how often they were asked for;
  \<open>i_rnd\<close> is the rounding of the floating point unit, applied after each operation on a
  \<open>double\<close>. The four login records files are lists of records.
\<close>

section \<open>The environment and the state\<close>

record ttio =
  i_now :: "nat \<Rightarrow> rat"
  i_time :: "nat \<Rightarrow> int"
  i_stime :: "nat \<Rightarrow> bool"
  i_adjtime :: bool
  i_rtc :: bool
  i_inet :: "byte list \<Rightarrow> int"
  i_resolv :: "byte list option"
  i_sock :: "nat \<Rightarrow> bool"
  i_xchg :: "nat \<Rightarrow> int \<Rightarrow> byte list \<Rightarrow> byte list option"
  i_pid :: int
  i_timezone :: int
  i_altzone :: int
  i_isdst :: "int \<Rightarrow> bool"
  i_write :: "nat \<Rightarrow> nat \<Rightarrow> bool"
  i_rnd :: "rat \<Rightarrow> rat"

text \<open>A login record: what \<open>utmp\<close> and \<open>utmpx\<close> have in common, and the rest of its bytes.\<close>

record utrec =
  ut_type :: int
  ut_time :: int
  ut_rest :: "byte list"

datatype ttev =
    Stepped int
  | Slewed int
  | ChipOffset int
  | Moved nat int int
  | Says string

record ttst =
  t_nows :: nat
  t_times :: nat
  t_stimes :: nat
  t_socks :: nat
  t_ev :: "ttev list"
  t_adm :: "nat \<Rightarrow> utrec list option"

definition tt_now :: "ttio \<Rightarrow> ttst \<Rightarrow> rat \<times> ttst" where
  "tt_now io st = (i_now io (t_nows st), st\<lparr>t_nows := Suc (t_nows st)\<rparr>)"

definition tt_time :: "ttio \<Rightarrow> ttst \<Rightarrow> int \<times> ttst" where
  "tt_time io st = (i_time io (t_times st), st\<lparr>t_times := Suc (t_times st)\<rparr>)"

definition tt_socket :: "ttio \<Rightarrow> ttst \<Rightarrow> bool \<times> ttst" where
  "tt_socket io st = (i_sock io (t_socks st), st\<lparr>t_socks := Suc (t_socks st)\<rparr>)"

definition tt_ev :: "ttev \<Rightarrow> ttst \<Rightarrow> ttst" where
  "tt_ev e st = st\<lparr>t_ev := t_ev st @ [e]\<rparr>"

definition tt_stime :: "ttio \<Rightarrow> int \<Rightarrow> ttst \<Rightarrow> bool \<times> ttst" where
  "tt_stime io s st =
    (if i_stime io (t_stimes st) then (True, tt_ev (Stepped s) (st\<lparr>t_stimes := Suc (t_stimes st)\<rparr>))
     else (False, st\<lparr>t_stimes := Suc (t_stimes st)\<rparr>))"

text \<open>\<open>(long)x\<close> of a \<open>double\<close>: towards zero.\<close>

definition ctrunc :: "rat \<Rightarrow> int" where
  "ctrunc x = s32 (if 0 \<le> x then \<lfloor>x\<rfloor> else \<lceil>x\<rceil>)"

section \<open>Looking up a name\<close>

definition inaddr_none :: int where "inaddr_none = 4294967295"

definition nameserver_line :: "byte list \<Rightarrow> byte list option" where
  "nameserver_line s =
    (if take 10 s = bytes_of ''nameserver''
     then let w = take 63 (takeWhile (\<lambda>c. \<not> is_space c) (dropWhile is_space (drop 10 s)))
          in if w = [] then None else Some w
     else None)"

fun nameserver_loop :: "(byte list \<Rightarrow> int) \<Rightarrow> byte list list \<Rightarrow> int" where
  "nameserver_loop inet [] = 0"
| "nameserver_loop inet (l # ls) =
    (case nameserver_line (cstr l) of
       None \<Rightarrow> nameserver_loop inet ls
     | Some w \<Rightarrow> if inet w \<noteq> inaddr_none then inet w else nameserver_loop inet ls)"

definition nameserver :: "ttio \<Rightarrow> int" where
  "nameserver io =
    (case i_resolv io of None \<Rightarrow> 0 | Some f \<Rightarrow> nameserver_loop (i_inet io) (fgets_all 255 f))"

function skipname :: "byte list \<Rightarrow> nat \<Rightarrow> nat option" where
  "skipname m k =
    (if k < length m then
       if m ! k = 0 then Some (k + 1)
       else if m ! k AND 0xC0 = 0xC0 then Some (k + 2)
       else skipname m (k + unat (m ! k) + 1)
     else None)"
  by pat_completeness auto
termination by (relation "measure (\<lambda>(m, k). length m - k)") auto

declare skipname.simps [simp del]

text \<open>The labels of the question: \<open>n\<close> bytes of the query are there, \<open>p\<close> is the rest of the name.\<close>

function dns_labels :: "nat \<Rightarrow> byte list \<Rightarrow> byte list option" where
  "dns_labels n p =
    (if p = [] then Some []
     else
       let l = length (takeWhile (\<lambda>c. c \<noteq> 46) p);
           dot = (if l < length p then 1 else 0)
       in if l = 0 \<or> l > 63 \<or> n + l + 6 > 512 then None
          else (case dns_labels (n + l + 1) (drop (l + dot) p) of
                  None \<Rightarrow> None
                | Some q \<Rightarrow> Some (word_of_nat l # take l p @ q)))"
  by pat_completeness auto
termination by (relation "measure (\<lambda>(n, p). length p)") auto

declare dns_labels.simps [simp del]

definition dns_query :: "int \<Rightarrow> byte list \<Rightarrow> byte list option" where
  "dns_query i name =
    (case dns_labels 12 name of
       None \<Rightarrow> None
     | Some q \<Rightarrow> Some (p16 i @ [1, 0, 0, 1, 0, 0, 0, 0, 0, 0] @ q @ [0, 0, 1, 0, 1]))"

text \<open>The answers: \<open>an\<close> still to be read, room for \<open>room\<close> more addresses.\<close>

fun dns_answers :: "byte list \<Rightarrow> nat \<Rightarrow> nat \<Rightarrow> nat \<Rightarrow> int list" where
  "dns_answers r 0 room k = []"
| "dns_answers r (Suc an) room k =
    (if room = 0 then []
     else (case skipname r k of
       None \<Rightarrow> []
     | Some j \<Rightarrow>
       if j + 10 > length r then []
       else
         let type = g16 r j;
             rdlen = nat (g16 r (j + 8))
         in if j + 10 + rdlen > length r then []
            else if type = 1 \<and> rdlen = 4
            then g32 r (j + 10) # dns_answers r an (room - 1) (j + 10 + rdlen)
            else dns_answers r an room (j + 10 + rdlen)))"

definition dns_reply :: "byte list \<Rightarrow> nat \<Rightarrow> int list" where
  "dns_reply r room =
    (case skipname r 12 of
       None \<Rightarrow> []
     | Some k \<Rightarrow> dns_answers r (nat (g16 r 6)) room (k + 4))"

definition tt_resolve :: "ttio \<Rightarrow> byte list \<Rightarrow> nat \<Rightarrow> ttst \<Rightarrow> int list \<times> ttst" where
  "tt_resolve io name room st =
    (case tt_now io st of (t, st1) \<Rightarrow>
      let i = u16 (i_pid io XOR ctrunc t); ns = nameserver io
      in if i_inet io name \<noteq> inaddr_none then ([i_inet io name], st1)
         else if ns = 0 then ([], tt_ev (Says ''no nameserver'') st1)
         else (case dns_query i name of
           None \<Rightarrow> ([], st1)
         | Some q \<Rightarrow>
           (case tt_socket io st1 of
              (False, st2) \<Rightarrow> ([], st2)
            | (True, st2) \<Rightarrow>
              (case i_xchg io (t_socks st2) ns q of
                 None \<Rightarrow> ([], tt_ev (Says ''cannot look up'') st2)
               | Some m \<Rightarrow>
                 let r = take 512 m
                 in if length r < 12 \<or> r ! 0 \<noteq> q ! 0 \<or> r ! 1 \<noteq> q ! 1 \<or> r ! 3 AND 0x0F \<noteq> 0
                    then ([], tt_ev (Says ''cannot look up'') st2)
                    else (dns_reply r room, st2)))))"

section \<open>Asking a time server\<close>

definition JAN_1970 :: int where "JAN_1970 = 2208988800"

definition ntptime :: "ttio \<Rightarrow> byte list \<Rightarrow> nat \<Rightarrow> rat" where
  "ntptime io p k =
    i_rnd io (of_int (u32 (g32 p k - JAN_1970)) + of_int (g32 p (k + 4)) / 4294967296)"

definition ntp_ok :: "byte list \<Rightarrow> bool" where
  "ntp_ok pk \<longleftrightarrow> \<not> (pk ! 0 AND 0xC0 = 0xC0 \<or> pk ! 0 AND 7 \<noteq> 4 \<or> pk ! 1 = 0)"

definition ntp_request :: "byte list" where
  "ntp_request = 0x23 # replicate 47 0"

text \<open>The offset of the server's clock from ours, and the round trip.\<close>

definition tt_query :: "ttio \<Rightarrow> int \<Rightarrow> ttst \<Rightarrow> (rat \<times> rat) option \<times> ttst" where
  "tt_query io addr st =
    (case tt_socket io st of
       (False, st1) \<Rightarrow> (None, st1)
     | (True, st1) \<Rightarrow>
       (case tt_now io st1 of (t1, st2) \<Rightarrow>
         (case i_xchg io (t_socks st2) addr ntp_request of
            None \<Rightarrow> (None, st2)
          | Some m \<Rightarrow>
            if length m < 48 then (None, st2)
            else (case tt_now io st2 of (t4, st3) \<Rightarrow>
              if \<not> ntp_ok m then (None, st3)
              else
                let t2 = ntptime io m 32; t3 = ntptime io m 40; rnd = i_rnd io
                in (Some (rnd (rnd (rnd (t2 - t1) + rnd (t3 - t4)) / 2),
                          rnd (rnd (t4 - t1) - rnd (t3 - t2))), st3)))))"

section \<open>The login records\<close>

definition UT_EMPTY :: int where "UT_EMPTY = 0"
definition BOOT_TIME :: int where "BOOT_TIME = 2"
definition EARLY_WINDOW :: int where "EARLY_WINDOW = 900"

fun last_boot :: "nat \<Rightarrow> utrec list \<Rightarrow> (nat \<times> int) option \<Rightarrow> (nat \<times> int) option" where
  "last_boot i [] b = b"
| "last_boot i (r # rs) b =
    last_boot (Suc i) rs (if ut_type r = BOOT_TIME then Some (i, ut_time r) else b)"

fun early_scan :: "int \<Rightarrow> int \<Rightarrow> utrec list \<Rightarrow> int \<times> bool \<Rightarrow> int \<times> bool" where
  "early_scan tb hi [] acc = acc"
| "early_scan tb hi (r # rs) (tnext, before) =
    (if ut_type r = UT_EMPTY then early_scan tb hi rs (tnext, before)
     else if ut_time r < tb then early_scan tb hi rs (tnext, True)
     else if ut_time r > hi \<and> ut_time r < tnext then early_scan tb hi rs (ut_time r, before)
     else early_scan tb hi rs (tnext, before))"

text \<open>The moving loop from the \<open>n\<close>-th record moved on; a write that fails ends it.\<close>

fun shift_recs :: "(nat \<Rightarrow> bool) \<Rightarrow> int \<Rightarrow> int \<Rightarrow> int \<Rightarrow> bool \<Rightarrow> nat \<Rightarrow> utrec list \<Rightarrow> nat \<times> utrec list" where
  "shift_recs wr tb hi delta dry n [] = (n, [])"
| "shift_recs wr tb hi delta dry n (r # rs) =
    (if ut_type r = UT_EMPTY \<or> ut_time r < tb \<or> ut_time r > hi then
       (case shift_recs wr tb hi delta dry n rs of (m, rs') \<Rightarrow> (m, r # rs'))
     else if dry then
       (case shift_recs wr tb hi delta dry (Suc n) rs of (m, rs') \<Rightarrow> (m, r # rs'))
     else if \<not> wr n then (Suc n, r # rs)
     else (case shift_recs wr tb hi delta dry (Suc n) rs of
             (m, rs') \<Rightarrow> (m, r\<lparr>ut_time := s32 (ut_time r + delta)\<rparr> # rs')))"

text \<open>
  \<open>shift_file\<close> on the records of one file: how many are moved, the records and \<open>early\<close> after it.
  \<open>now\<close> is what \<open>time\<close> answers.
\<close>

definition shift_file ::
    "(nat \<Rightarrow> bool) \<Rightarrow> bool \<Rightarrow> int \<Rightarrow> int \<Rightarrow> bool \<Rightarrow> int \<Rightarrow> bool \<Rightarrow> utrec list \<Rightarrow> nat \<times> utrec list \<times> bool" where
  "shift_file wr islog delta t0 dry now early rs =
    (case last_boot 0 rs None of
       None \<Rightarrow> (0, rs, early)
     | Some (boot, tb) \<Rightarrow>
       let pos = (if islog then boot else 0);
           mag = (if delta < 0 then s32 (- delta) else delta);
           hi = (if t0 \<noteq> 0 then s32 (t0 + 1) else s32 (tb + EARLY_WINDOW));
           scan = early_scan tb hi (drop pos rs) (now, False);
           early' = (if t0 \<noteq> 0 \<or> \<not> islog then early
                     else if delta > 0 then fst scan \<ge> s32 (tb + mag - EARLY_WINDOW) else snd scan)
       in if t0 = 0 \<and> \<not> early' then (0, rs, early')
          else (case shift_recs wr tb hi delta dry 0 (drop pos rs) of
                  (n, rs') \<Rightarrow> (n, take pos rs @ rs', early')))"

text \<open>\<open>wtmp\<close>, \<open>utmp\<close>, \<open>wtmpx\<close>, \<open>utmpx\<close>: the logs are the even ones.\<close>

fun shift_files :: "ttio \<Rightarrow> int \<Rightarrow> int \<Rightarrow> bool \<Rightarrow> nat list \<Rightarrow> bool \<Rightarrow> ttst \<Rightarrow> ttst" where
  "shift_files io delta t0 dry [] early st = st"
| "shift_files io delta t0 dry (i # is) early st =
    (case t_adm st i of
       None \<Rightarrow> shift_files io delta t0 dry is early st
     | Some rs \<Rightarrow>
       let islog = even i;
           st1 = (if islog \<and> t0 = 0 \<and> last_boot 0 rs None \<noteq> None then snd (tt_time io st) else st)
       in (case shift_file (i_write io i) islog delta t0 dry (fst (tt_time io st)) early rs of
             (n, rs', early') \<Rightarrow>
               let st2 = st1\<lparr>t_adm := (t_adm st1)(i := Some rs')\<rparr>
               in shift_files io delta t0 dry is early'
                    (if n > 0 then tt_ev (Moved i (int n) delta) st2 else st2)))"

definition shift_records :: "ttio \<Rightarrow> int \<Rightarrow> int \<Rightarrow> bool \<Rightarrow> ttst \<Rightarrow> ttst" where
  "shift_records io delta t0 dry st =
    (if delta = 0 then st else shift_files io delta t0 dry [0, 1, 2, 3] False st)"

section \<open>Setting the clock\<close>

text \<open>Reading the clock until it is clear of a second boundary.\<close>

partial_function (option) clear_of_second :: "ttio \<Rightarrow> ttst \<Rightarrow> (rat \<times> ttst) option" where
  "clear_of_second io st =
    (case tt_now io st of (t, st1) \<Rightarrow>
      if i_rnd io (t - of_int (ctrunc t)) > i_rnd io (9 / 10) then clear_of_second io st1
      else Some (t, st1))"

declare clear_of_second.simps [code]

definition clock_slew :: "ttio \<Rightarrow> rat \<Rightarrow> int \<Rightarrow> ttst \<Rightarrow> int \<times> ttst" where
  "clock_slew io r stepped st =
    (let us = ctrunc (i_rnd io (r * 1000000))
     in if us = 0 then (stepped, st)
        else if i_adjtime io then (stepped, tt_ev (Slewed us) st)
        else (-1, st))"

definition setclock :: "ttio \<Rightarrow> rat \<Rightarrow> ttst \<Rightarrow> (int \<times> ttst) option" where
  "setclock io off st =
    (let k = ctrunc (if 0 \<le> off then i_rnd io (off + 1 / 2) else i_rnd io (off - 1 / 2));
         r = i_rnd io (off - of_int k)
     in if k = 0 then Some (clock_slew io r 0 st)
        else (case clear_of_second io st of
                None \<Rightarrow> None
              | Some (t, st1) \<Rightarrow>
                (case tt_stime io (s32 (ctrunc t + k)) st1 of
                   (False, st2) \<Rightarrow> Some (-1, st2)
                 | (True, st2) \<Rightarrow>
                   Some (clock_slew io r 1
                     (if k \<ge> 300 \<or> k \<le> -300 then shift_records io k (ctrunc t) False st2 else st2)))))"

definition zone_offset :: "ttio \<Rightarrow> int \<Rightarrow> int" where
  "zone_offset io t = (if i_isdst io t then i_altzone io else i_timezone io)"

definition chip_local :: "ttio \<Rightarrow> ttst \<Rightarrow> (int \<times> ttst) option" where
  "chip_local io st =
    (case tt_time io st of (t, st1) \<Rightarrow>
      if \<not> i_rtc io then Some (-1, tt_ev (Says ''/dev/rtc'') st1)
      else (case clear_of_second io (tt_ev (ChipOffset (zone_offset io t)) st1) of
              None \<Rightarrow> None
            | Some (n, st2) \<Rightarrow>
              (case tt_stime io (ctrunc n) st2 of
                 (False, st3) \<Rightarrow> Some (-1, tt_ev (Says ''stime'') st3)
               | (True, st3) \<Rightarrow> Some (0, st3))))"

definition fix_records :: "ttio \<Rightarrow> bool \<Rightarrow> ttst \<Rightarrow> int \<times> ttst" where
  "fix_records io dry st =
    (case tt_time io st of (t, st1) \<Rightarrow> (0, shift_records io (zone_offset io t) 0 dry st1))"

definition boot_local :: "ttio \<Rightarrow> ttst \<Rightarrow> int \<times> ttst" where
  "boot_local io st =
    (case tt_time io st of (t, st1) \<Rightarrow>
      let s = s32 (t + zone_offset io (s32 (t + i_timezone io)))
      in (case tt_stime io s st1 of
            (False, st2) \<Rightarrow> (1, tt_ev (Says ''stime'') st2)
          | (True, st2) \<Rightarrow> (0, shift_records io (s32 (s - t)) t False st2)))"

section \<open>The program\<close>

record ttopts =
  o_dry :: bool
  o_quiet :: bool
  o_zone :: bool
  o_boot :: int

fun tt_options :: "byte list list \<Rightarrow> ttopts \<Rightarrow> (ttopts \<times> byte list list) option" where
  "tt_options [] op = Some (op, [])"
| "tt_options (a # as) op =
    (if a \<noteq> [] \<and> a ! 0 = 45 then
       if a = bytes_of ''-n'' then tt_options as (op\<lparr>o_dry := True\<rparr>)
       else if a = bytes_of ''-q'' then tt_options as (op\<lparr>o_quiet := True\<rparr>)
       else if a = bytes_of ''-z'' then tt_options as (op\<lparr>o_zone := True\<rparr>)
       else if a = bytes_of ''-b'' then tt_options as (op\<lparr>o_boot := 1\<rparr>)
       else if a = bytes_of ''-u'' then tt_options as (op\<lparr>o_boot := 2\<rparr>)
       else None
     else Some (op, a # as))"

text \<open>What \<open>main\<close> does with the first offset it gets: the exit code.\<close>

definition tt_correct :: "ttio \<Rightarrow> ttopts \<Rightarrow> rat \<Rightarrow> ttst \<Rightarrow> (int \<times> ttst) option" where
  "tt_correct io op off st =
    (if o_dry op then Some (0, st)
     else (case setclock io off st of
       None \<Rightarrow> None
     | Some (rc, st1) \<Rightarrow>
       if rc = -1 then Some (1, tt_ev (Says ''setting the clock'') st1)
       else if o_zone op then
         (case chip_local io st1 of
            None \<Rightarrow> None
          | Some (rz, st2) \<Rightarrow> Some (if rz < 0 then 1 else 0, st2))
       else Some (0, st1)))"

text \<open>The inner loop: the first address that answers, with its offset.\<close>

fun tt_first :: "ttio \<Rightarrow> int list \<Rightarrow> ttst \<Rightarrow> rat option \<times> ttst" where
  "tt_first io [] st = (None, st)"
| "tt_first io (a # as) st =
    (case tt_query io a st of
       (None, st1) \<Rightarrow> tt_first io as st1
     | (Some (off, del), st1) \<Rightarrow> (Some off, st1))"

fun tt_servers :: "ttio \<Rightarrow> ttopts \<Rightarrow> byte list list \<Rightarrow> ttst \<Rightarrow> (int \<times> ttst) option" where
  "tt_servers io op [] st = Some (1, tt_ev (Says ''no time server answered'') st)"
| "tt_servers io op (s # ss) st =
    (case tt_resolve io s 8 st of (as, st1) \<Rightarrow>
      (case tt_first io as st1 of
         (None, st2) \<Rightarrow> tt_servers io op ss st2
       | (Some off, st2) \<Rightarrow> tt_correct io op off st2))"

definition tt_main :: "ttio \<Rightarrow> byte list list \<Rightarrow> ttst \<Rightarrow> (int \<times> ttst) option" where
  "tt_main io args st =
    (case tt_options args \<lparr>o_dry = False, o_quiet = False, o_zone = False, o_boot = 0\<rparr> of
       None \<Rightarrow> Some (2, tt_ev (Says ''usage'') st)
     | Some (op, ss) \<Rightarrow>
       if o_boot op = 2 then Some (fix_records io (o_dry op) st)
       else if o_boot op \<noteq> 0 then Some (boot_local io st)
       else tt_servers io op (if ss \<noteq> [] then ss else [bytes_of ''pool.ntp.org'']) st)"

end
