(* ===== verification/TtntpProps.thy ===== *)
theory TtntpProps
  imports Ttntp
begin

text \<open>What \<open>ttntp\<close> promises: the names it resolves, the records it moves, the clock it sets.\<close>

section \<open>The records that are moved\<close>

definition early_rec :: "int \<Rightarrow> int \<Rightarrow> utrec \<Rightarrow> bool" where
  "early_rec tb hi r \<longleftrightarrow> ut_type r \<noteq> UT_EMPTY \<and> tb \<le> ut_time r \<and> ut_time r \<le> hi"

definition moved_rec :: "int \<Rightarrow> int \<Rightarrow> int \<Rightarrow> utrec \<Rightarrow> utrec" where
  "moved_rec tb hi delta r =
    (if early_rec tb hi r then r\<lparr>ut_time := s32 (ut_time r + delta)\<rparr> else r)"

text \<open>The last boot record of a file is at index \<open>b\<close>.\<close>

definition boot_at :: "utrec list \<Rightarrow> nat \<Rightarrow> bool" where
  "boot_at rs b \<longleftrightarrow> b < length rs \<and> ut_type (rs ! b) = BOOT_TIME \<and>
     (\<forall>k. b < k \<and> k < length rs \<longrightarrow> ut_type (rs ! k) \<noteq> BOOT_TIME)"

lemma shift_recs_moves:
  "(\<And>n. wr n) \<Longrightarrow> shift_recs wr tb hi delta False n rs =
     (n + length (filter (early_rec tb hi) rs), map (moved_rec tb hi delta) rs)"
  by (induction rs arbitrary: n) (auto simp: early_rec_def moved_rec_def)

lemma shift_recs_dry:
  "shift_recs wr tb hi delta True n rs = (n + length (filter (early_rec tb hi) rs), rs)"
  by (induction rs arbitrary: n) (auto simp: early_rec_def)

lemma last_boot_append: "last_boot i (xs @ ys) b = last_boot (i + length xs) ys (last_boot i xs b)"
  by (induction xs arbitrary: i b) auto

lemma last_boot_keep: "\<forall>r\<in>set rs. ut_type r \<noteq> BOOT_TIME \<Longrightarrow> last_boot i rs b = b"
  by (induction rs arbitrary: i b) auto

lemma boot_at_last:
  assumes "boot_at rs b"
  shows "last_boot 0 rs None = Some (b, ut_time (rs ! b))"
proof -
  have b: "b < length rs" "ut_type (rs ! b) = BOOT_TIME" using assms by (auto simp: boot_at_def)
  have rs: "rs = take b rs @ rs ! b # drop (Suc b) rs" using b(1) by (rule id_take_nth_drop)
  have "\<forall>r\<in>set (drop (Suc b) rs). ut_type r \<noteq> BOOT_TIME"
    using assms by (auto simp: boot_at_def in_set_conv_nth)
  then show ?thesis
    using b by (subst rs) (simp add: last_boot_append last_boot_keep)
qed

lemma boot_at_ex: "\<exists>r\<in>set rs. ut_type r = BOOT_TIME \<Longrightarrow> \<exists>b. boot_at rs b"
proof (induction rs rule: rev_induct)
  case (snoc r rs)
  show ?case
  proof (cases "ut_type r = BOOT_TIME")
    case True
    then have "boot_at (rs @ [r]) (length rs)" by (auto simp: boot_at_def)
    then show ?thesis by blast
  next
    case False
    then obtain b where "boot_at rs b" using snoc by auto
    then have "boot_at (rs @ [r]) b" using False by (auto simp: boot_at_def nth_append less_Suc_eq)
    then show ?thesis by blast
  qed
qed simp

lemma boot_at_unique: "boot_at rs b \<Longrightarrow> boot_at rs c \<Longrightarrow> b = c"
  by (auto simp: boot_at_def) (metis linorder_neqE_nat)

lemma moved_fields [simp]:
  "ut_type (moved_rec tb hi d r) = ut_type r" "ut_rest (moved_rec tb hi d r) = ut_rest r"
  by (simp_all add: moved_rec_def)

text \<open>What one file holds after its early records were moved: \<open>p\<close> is where they start.\<close>

definition moved_file :: "nat \<Rightarrow> int \<Rightarrow> int \<Rightarrow> int \<Rightarrow> utrec list \<Rightarrow> utrec list" where
  "moved_file p tb hi delta rs = take p rs @ map (moved_rec tb hi delta) (drop p rs)"

lemma moved_file_nth:
  "p \<le> length rs \<Longrightarrow> k < length rs \<Longrightarrow>
     moved_file p tb hi delta rs ! k = (if p \<le> k then moved_rec tb hi delta (rs ! k) else rs ! k)"
  by (simp add: moved_file_def nth_append)

lemma length_moved_file [simp]: "length (moved_file p tb hi delta rs) = length rs"
  by (simp add: moved_file_def)

lemma shift_file_none:
  "\<forall>r\<in>set rs. ut_type r \<noteq> BOOT_TIME \<Longrightarrow> shift_file wr islog delta t0 dry now early rs = (0, rs, early)"
  by (simp add: shift_file_def last_boot_keep)

lemma shift_file_t0:
  fixes islog :: bool
  assumes "boot_at rs b" "\<And>n. wr n" "t0 \<noteq> 0"
  defines "p \<equiv> if islog then b else 0"
  shows "shift_file wr islog delta t0 False now early rs =
    (length (filter (early_rec (ut_time (rs ! b)) (s32 (t0 + 1))) (drop p rs)),
     moved_file p (ut_time (rs ! b)) (s32 (t0 + 1)) delta rs, early)"
  using assms by (simp add: shift_file_def boot_at_last Let_def shift_recs_moves moved_file_def)

section \<open>All four files\<close>

text \<open>The other fields, and the files that were done or are still to do, stay.\<close>

lemma shift_files_other: "i \<notin> set is \<Longrightarrow> t_adm (shift_files io delta t0 dry is early st) i = t_adm st i"
proof (induction "is" arbitrary: early st)
  case (Cons a "is")
  then show ?case by (auto simp: Let_def tt_time_def tt_ev_def split: option.splits prod.splits)
qed simp

lemma shift_files_t0:
  assumes "t0 \<noteq> 0"
  shows "distinct is \<Longrightarrow> i \<in> set is \<Longrightarrow> t_adm (shift_files io delta t0 dry is early st) i =
    map_option (\<lambda>rs. fst (snd (shift_file (i_write io i) (even i) delta t0 dry 0 False rs))) (t_adm st i)"
proof (induction "is" arbitrary: early st)
  case (Cons a "is")
  have e: "fst (snd (shift_file wr l delta t0 dry now early rs)) = fst (snd (shift_file wr l delta t0 dry now' early' rs))"
    for wr l now early now' early' rs
    using assms by (auto simp: shift_file_def Let_def split: option.splits prod.splits)
  show ?case
  proof (cases "t_adm st a")
    case None
    then show ?thesis using Cons by (auto simp: shift_files_other)
  next
    case (Some rs)
    obtain n rs' ea where s: "shift_file (i_write io a) (even a) delta t0 dry (fst (tt_time io st)) early rs = (n, rs', ea)"
      by (metis prod_cases3)
    have r: "rs' = fst (snd (shift_file (i_write io a) (even a) delta t0 dry 0 False rs))"
      using e [of "i_write io a" "even a" _ _ rs 0 False] s by (metis fst_conv snd_conv)
    show ?thesis
    proof (cases "i = a")
      case True
      then show ?thesis using Cons.prems Some s assms r by (simp add: Let_def shift_files_other tt_ev_def)
    next
      case False
      then have "i \<in> set is" "distinct is" using Cons.prems by auto
      then show ?thesis using Some s assms False Cons.IH by (simp add: Let_def tt_ev_def)
    qed
  qed
qed simp

lemma shift_records_t0:
  "delta \<noteq> 0 \<Longrightarrow> t0 \<noteq> 0 \<Longrightarrow> t_adm (shift_records io delta t0 dry st) i =
     (if i < 4 then map_option (\<lambda>rs. fst (snd (shift_file (i_write io i) (even i) delta t0 dry 0 False rs))) (t_adm st i)
      else t_adm st i)"
proof -
  have "i < 4 \<longleftrightarrow> i \<in> set [0, 1, 2, 3]" by auto
  then show "delta \<noteq> 0 \<Longrightarrow> t0 \<noteq> 0 \<Longrightarrow> ?thesis"
    using shift_files_t0 [of t0 "[0, 1, 2, 3]" i] shift_files_other [of i "[0, 1, 2, 3]"]
    by (auto simp: shift_records_def simp del: shift_files.simps)
qed


lemma boot_moved_nth:
  "boot_at rs b \<Longrightarrow> k < length rs \<Longrightarrow> moved_file (if even i then b else 0) tb hi d rs ! k =
     (if (odd i \<or> b \<le> k) \<and> early_rec tb hi (rs ! k)
      then (rs ! k)\<lparr>ut_time := s32 (ut_time (rs ! k) + d)\<rparr> else rs ! k)"
  by (auto simp: moved_file_nth moved_rec_def boot_at_def)

section \<open>The correction at boot\<close>

definition clock_events :: "ttst \<Rightarrow> ttev list" where
  "clock_events st = filter (\<lambda>e. case e of Stepped s \<Rightarrow> True | Slewed s \<Rightarrow> True | ChipOffset s \<Rightarrow> True | _ \<Rightarrow> False) (t_ev st)"

lemma clock_events_simps [simp]:
  "clock_events (tt_ev (Stepped s) st) = clock_events st @ [Stepped s]"
  "clock_events (tt_ev (Slewed s) st) = clock_events st @ [Slewed s]"
  "clock_events (tt_ev (ChipOffset s) st) = clock_events st @ [ChipOffset s]"
  "clock_events (tt_ev (Moved i n d) st) = clock_events st"
  "clock_events (tt_ev (Says t) st) = clock_events st"
  by (simp_all add: clock_events_def tt_ev_def)

lemma t_adm_ev [simp]: "t_adm (tt_ev e st) = t_adm st"
  by (simp add: tt_ev_def)

lemma clock_events_fields [simp]:
  "clock_events (st\<lparr>t_times := a\<rparr>) = clock_events st"
  "clock_events (st\<lparr>t_nows := a\<rparr>) = clock_events st"
  "clock_events (st\<lparr>t_stimes := a\<rparr>) = clock_events st"
  "clock_events (st\<lparr>t_socks := a\<rparr>) = clock_events st"
  "clock_events (st\<lparr>t_adm := f\<rparr>) = clock_events st"
  by (simp_all add: clock_events_def)

lemma clock_events_shift_files [simp]:
  "clock_events (shift_files io delta t0 dry is early st) = clock_events st"
proof (induction "is" arbitrary: early st)
  case (Cons a "is")
  then show ?case by (auto simp: Let_def tt_time_def split: option.splits prod.splits)
qed simp

lemma clock_events_shift_records [simp]:
  "clock_events (shift_records io delta t0 dry st) = clock_events st"
  by (simp add: shift_records_def del: shift_files.simps)

text \<open>
  C22. \<open>ttntp -b\<close> steps the clock once, by the zone's offset, and stamps with the same offset
  those of this boot's records whose time is between the boot record's and the clock's reading:
  in a log the ones from the last boot record on, in the table all. Every other record, the
  order and the rest of each record stay.
\<close>

theorem ttntp_boot_records:
  fixes io :: ttio and st :: ttst
  defines "t \<equiv> i_time io (t_times st)"
  defines "off \<equiv> zone_offset io (s32 (t + i_timezone io))"
  assumes "i_stime io (t_stimes st)" "\<And>i n. i_write io i n" "0 < t" "t < 2000000000" "off \<noteq> 0" "\<bar>off\<bar> \<le> 86400"
  shows "fst (boot_local io st) = 0 \<and>
    clock_events (snd (boot_local io st)) = clock_events st @ [Stepped (t + off)] \<and>
    (\<forall>i b rs. i < 4 \<and> t_adm st i = Some rs \<and> boot_at rs b \<longrightarrow>
      (\<exists>rs'. t_adm (snd (boot_local io st)) i = Some rs' \<and> length rs' = length rs \<and>
        (\<forall>k<length rs. rs' ! k =
          (if (odd i \<or> b \<le> k) \<and> early_rec (ut_time (rs ! b)) (t + 1) (rs ! k)
           then (rs ! k)\<lparr>ut_time := s32 (ut_time (rs ! k) + off)\<rparr> else rs ! k))))"
proof -
  have s: "s32 (t + off) = t + off" "s32 (t + 1) = t + 1"
    using assms(5-8) by (auto intro!: s32_id)
  have d: "s32 (t + off - t) = off" using assms(8) by (auto intro!: s32_id)
  define st1 where "st1 = tt_ev (Stepped (t + off)) (st\<lparr>t_times := Suc (t_times st), t_stimes := Suc (t_stimes st)\<rparr>)"
  have bl: "boot_local io st = (0, shift_records io off t False st1)"
    using assms(3) s d by (simp add: boot_local_def tt_time_def tt_stime_def st1_def Let_def t_def [symmetric] off_def [symmetric])
  have adm: "t_adm st1 = t_adm st" by (simp add: st1_def tt_ev_def)
  have m: "t_adm (shift_records io off t False st1) i =
      Some (moved_file (if even i then b else 0) (ut_time (rs ! b)) (t + 1) off rs)"
    if "i < 4" "t_adm st i = Some rs" "boot_at rs b" for i b rs
    using that assms(4,5,7) s by (simp add: shift_records_t0 adm shift_file_t0)
  show ?thesis
    unfolding bl fst_conv snd_conv
  proof (intro conjI allI impI; (elim conjE)?)
    show "clock_events (shift_records io off t False st1) = clock_events st @ [Stepped (t + off)]"
      by (simp add: st1_def)
    fix i b rs assume a: "i < 4" "t_adm st i = Some rs" "boot_at rs b"
    show "\<exists>rs'. t_adm (shift_records io off t False st1) i = Some rs' \<and> length rs' = length rs \<and>
        (\<forall>k<length rs. rs' ! k =
          (if (odd i \<or> b \<le> k) \<and> early_rec (ut_time (rs ! b)) (t + 1) (rs ! k)
           then (rs ! k)\<lparr>ut_time := s32 (ut_time (rs ! k) + off)\<rparr> else rs ! k))"
      using m [OF a] boot_moved_nth [OF a(3), of _ i "ut_time (rs ! b)" "t + 1" off] length_moved_file by blast
  qed simp
qed

text \<open>A system six hours west of GMT whose boot wrote two records before the clock was set.\<close>

definition demo_tio :: ttio where
  "demo_tio = \<lparr>i_now = (\<lambda>n. 0), i_time = (\<lambda>n. 1000000060), i_stime = (\<lambda>n. True), i_adjtime = True, i_rtc = True,
     i_inet = (\<lambda>w. if w = bytes_of ''10.0.0.1'' then 167772161 else inaddr_none),
     i_resolv = Some (bytes_of ''nameserver 10.0.0.1'' @ [10]), i_sock = (\<lambda>n. True),
     i_xchg = (\<lambda>n a q. if length q = 48 then None else
       Some ([0, 7, 0x81, 0x80, 0, 1, 0, 2, 0, 0, 0, 0, 1, 97, 1, 98, 0, 0, 1, 0, 1,
         0xC0, 12, 0, 5, 0, 1, 0, 0, 0, 9, 0, 2, 0xC0, 12, 0xC0, 12, 0, 1, 0, 1, 0, 0, 0, 9, 0, 4, 1, 2, 3, 4])),
     i_pid = 7, i_timezone = 21600, i_altzone = 18000, i_isdst = (\<lambda>t. False),
     i_write = (\<lambda>i n. True), i_rnd = (\<lambda>x. x)\<rparr>"

definition demo_recs :: "utrec list" where
  "demo_recs = [\<lparr>ut_type = 7, ut_time = 999999000, ut_rest = []\<rparr>, \<lparr>ut_type = 2, ut_time = 1000000000, ut_rest = []\<rparr>,
     \<lparr>ut_type = 1, ut_time = 1000000002, ut_rest = []\<rparr>]"

definition demo_tst :: ttst where
  "demo_tst = \<lparr>t_nows = 0, t_times = 0, t_stimes = 0, t_socks = 0, t_ev = [], t_adm = [0 \<mapsto> demo_recs]\<rparr>"

lemma demo_boot: "boot_at demo_recs 1"
  by (auto simp: boot_at_def demo_recs_def BOOT_TIME_def less_Suc_eq numeral_3_eq_3)

lemma demo_boot_only: "boot_at demo_recs b \<Longrightarrow> b = 1"
  using demo_boot boot_at_unique by blast

theorem ttntp_boot_records_witness:
  "clock_events (snd (boot_local demo_tio demo_tst)) = [Stepped 1000021660] \<and>
   (\<exists>rs'. t_adm (snd (boot_local demo_tio demo_tst)) 0 = Some rs' \<and> length rs' = 3 \<and>
     ut_time (rs' ! 0) = 999999000 \<and> ut_time (rs' ! 1) = 1000021600 \<and> ut_time (rs' ! 2) = 1000021602)"
proof -
  have off: "zone_offset demo_tio t = 21600" for t by (simp add: zone_offset_def demo_tio_def)
  have io: "i_time demo_tio n = 1000000060" "i_stime demo_tio n" "i_write demo_tio i n" for i n
    by (simp_all add: demo_tio_def)
  have st: "t_adm demo_tst 0 = Some demo_recs" "clock_events demo_tst = []" by (simp_all add: demo_tst_def clock_events_def)
  have n: "0 < (1000000060 :: int)" "(1000000060 :: int) < 2000000000" "(21600 :: int) \<noteq> 0" "\<bar>21600 :: int\<bar> \<le> 86400"
    by simp_all
  note t = ttntp_boot_records [of demo_tio demo_tst, OF io(2,3), unfolded off io(1), OF n]
  have T: "clock_events (snd (boot_local demo_tio demo_tst)) = [Stepped 1000021660] \<and>
    (\<exists>rs'. t_adm (snd (boot_local demo_tio demo_tst)) 0 = Some rs' \<and> length rs' = length demo_recs \<and>
        (\<forall>k<length demo_recs. rs' ! k =
          (if (odd (0 :: nat) \<or> 1 \<le> k) \<and> early_rec (ut_time (demo_recs ! 1)) (1000000060 + 1) (demo_recs ! k)
           then (demo_recs ! k)\<lparr>ut_time := s32 (ut_time (demo_recs ! k) + 21600)\<rparr> else demo_recs ! k)))"
    using t [THEN conjunct2, THEN conjunct1]
      t [THEN conjunct2, THEN conjunct2, THEN spec [of _ 0], THEN spec [of _ 1], THEN spec [of _ demo_recs]] st demo_boot
    by simp
  have "early_rec 1000000000 1000000061 (demo_recs ! 1)" "early_rec 1000000000 1000000061 (demo_recs ! 2)"
    by (simp_all add: early_rec_def demo_recs_def UT_EMPTY_def)
  then show ?thesis using T by (fastforce simp: demo_recs_def s32_def)
qed

section \<open>Moving them again\<close>

text \<open>What the scan finds: the least later time, and whether a record is before the boot record.\<close>

lemma early_scan_before:
  "snd (early_scan tb hi rs acc) \<longleftrightarrow> snd acc \<or> (\<exists>r\<in>set rs. ut_type r \<noteq> UT_EMPTY \<and> ut_time r < tb)"
  by (induction tb hi rs acc rule: early_scan.induct) auto

lemma early_scan_next:
  "x \<le> fst (early_scan tb hi rs acc) \<longleftrightarrow>
     x \<le> fst acc \<and> (\<forall>r\<in>set rs. ut_type r \<noteq> UT_EMPTY \<and> tb \<le> ut_time r \<and> hi < ut_time r \<longrightarrow> x \<le> ut_time r)"
  by (induction tb hi rs acc rule: early_scan.induct) auto

definition before_boot :: "utrec list \<Rightarrow> nat \<Rightarrow> bool" where
  "before_boot rs b \<longleftrightarrow> (\<exists>r\<in>set (drop b rs). ut_type r \<noteq> UT_EMPTY \<and> ut_time r < ut_time (rs ! b))"

text \<open>
  The records from the last boot record on of a clock that was wrong by \<open>d\<close> for no longer than
  the window: ahead, none is stamped between the window and the corrected time; back, none is
  before the corrected boot record.
\<close>

definition wrong_by :: "int \<Rightarrow> utrec list \<Rightarrow> nat \<Rightarrow> bool" where
  "wrong_by d rs b \<longleftrightarrow> (\<forall>r\<in>set (drop b rs). ut_type r \<noteq> UT_EMPTY \<longrightarrow>
     0 \<le> ut_time r \<and> ut_time r < 2000000000 \<and>
     (0 < d \<longrightarrow> \<not> (ut_time (rs ! b) + 900 < ut_time r \<and> ut_time r < ut_time (rs ! b) + d - 900)) \<and>
     (d < 0 \<longrightarrow> ut_time (rs ! b) + d \<le> ut_time r))"

definition early_moved :: "int \<Rightarrow> utrec list \<Rightarrow> nat \<Rightarrow> utrec list" where
  "early_moved d rs b =
    (if 0 < d \<or> before_boot rs b then moved_file b (ut_time (rs ! b)) (ut_time (rs ! b) + 900) d rs else rs)"

lemma boot_rec_in: "boot_at rs b \<Longrightarrow> rs ! b \<in> set (drop b rs) \<and> ut_type (rs ! b) \<noteq> UT_EMPTY"
  by (auto simp: boot_at_def BOOT_TIME_def UT_EMPTY_def in_set_conv_nth intro!: exI [of _ 0])

lemma shift_log:
  assumes "boot_at rs b" "\<And>n. wr n" "d \<noteq> 0" "\<bar>d\<bar> \<le> 86400" "wrong_by d rs b"
    "0 < d \<longrightarrow> ut_time (rs ! b) + d - 900 \<le> now"
  shows "\<exists>n e. shift_file wr True d 0 False now early rs = (n, early_moved d rs b, e)"
proof -
  let ?tb = "ut_time (rs ! b)" and ?R = "drop b rs"
  have tb: "0 \<le> ?tb" "?tb < 2000000000" using assms(5) boot_rec_in [OF assms(1)] by (auto simp: wrong_by_def)
  have s: "s32 (?tb + EARLY_WINDOW) = ?tb + 900" "0 < d \<Longrightarrow> s32 (?tb + d - EARLY_WINDOW) = ?tb + d - 900"
    using tb assms(4) by (auto simp: EARLY_WINDOW_def intro!: s32_id)
  let ?e = "if d > 0 then fst (early_scan ?tb (?tb + 900) ?R (now, False)) \<ge> ?tb + d - 900
      else snd (early_scan ?tb (?tb + 900) ?R (now, False))"
  have "0 < d \<Longrightarrow> ?e"
    using assms(5,6) by (fastforce simp: early_scan_next wrong_by_def)
  moreover have "\<not> 0 < d \<Longrightarrow> ?e = before_boot rs b" by (simp add: early_scan_before before_boot_def)
  ultimately have e: "?e \<longleftrightarrow> 0 < d \<or> before_boot rs b" by blast
  then have "shift_file wr True d 0 False now early rs =
     (if ?e then (length (filter (early_rec ?tb (?tb + 900)) ?R), moved_file b ?tb (?tb + 900) d rs, True)
      else (0, rs, False))"
    using assms(1-3) s by (auto simp: shift_file_def boot_at_last Let_def shift_recs_moves moved_file_def)
  then show ?thesis unfolding e early_moved_def by auto
qed

text \<open>A second pass over a log finds no record early.\<close>

lemma before_boot_back:
  assumes "boot_at rs b" "\<bar>d\<bar> \<le> 86400" "wrong_by d rs b"
  shows "boot_at (early_moved d rs b) b"
  using assms(1) by (auto simp: early_moved_def boot_at_def moved_file_nth)

lemma early_moved_in:
  assumes "boot_at rs b" "r' \<in> set (drop b (early_moved d rs b))"
  shows "\<exists>r\<in>set (drop b rs). ut_type r' = ut_type r \<and>
    r' = (if 0 < d \<or> before_boot rs b then moved_rec (ut_time (rs ! b)) (ut_time (rs ! b) + 900) d r else r)"
  using assms by (auto simp: early_moved_def moved_file_def boot_at_def split: if_splits)

lemma moved_time:
  "early_rec tb hi r \<Longrightarrow> \<bar>d\<bar> \<le> 86400 \<Longrightarrow> 0 \<le> tb \<Longrightarrow> hi < 2100000000 \<Longrightarrow>
     ut_time (moved_rec tb hi d r) = ut_time r + d"
  by (auto simp: moved_rec_def early_rec_def intro!: s32_id)

lemma not_moved: "\<not> early_rec tb hi r \<Longrightarrow> moved_rec tb hi d r = r"
  by (simp add: moved_rec_def)

lemma shift_log_again:
  assumes "boot_at rs b" "d \<noteq> 0" "\<bar>d\<bar> \<le> 86400" "wrong_by d rs b"
    "0 < d \<longrightarrow> now < ut_time (rs ! b) + 2 * d - 900"
  shows "shift_file wr True d 0 dry now early (early_moved d rs b) = (0, early_moved d rs b, False)"
proof -
  let ?tb = "ut_time (rs ! b)" and ?rs = "early_moved d rs b"
  let ?m = "0 < d \<or> before_boot rs b"
  have R: "rs ! b \<in> set (drop b rs)" "ut_type (rs ! b) \<noteq> UT_EMPTY" using boot_rec_in [OF assms(1)] by auto
  have tb: "0 \<le> ?tb" "?tb < 2000000000" using assms(4) R by (auto simp: wrong_by_def)
  have b: "boot_at ?rs b" using assms by (intro before_boot_back)
  have bl: "b < length rs" using assms(1) by (simp add: boot_at_def)
  have "early_rec ?tb (?tb + 900) (rs ! b)" using R by (simp add: early_rec_def)
  then have tb': "ut_time (?rs ! b) = (if ?m then ?tb + d else ?tb)"
    using bl tb assms(3) by (simp add: early_moved_def moved_file_nth moved_time)
  have s: "s32 (?tb + d + EARLY_WINDOW) = ?tb + d + 900" "s32 (?tb + EARLY_WINDOW) = ?tb + 900"
    "0 < d \<Longrightarrow> s32 (?tb + d + d - EARLY_WINDOW) = ?tb + d + d - 900"
    using tb assms(3) by (auto simp: EARLY_WINDOW_def intro!: s32_id)
  have no: "\<not> ut_time r' < ut_time (?rs ! b)" if r': "d < 0" "r' \<in> set (drop b ?rs)" "ut_type r' \<noteq> UT_EMPTY" for r'
  proof -
    obtain r where r: "r \<in> set (drop b rs)" "ut_type r' = ut_type r"
      "r' = (if ?m then moved_rec ?tb (?tb + 900) d r else r)"
      using early_moved_in [OF assms(1) r'(2)] by blast
    have w: "?tb + d \<le> ut_time r" using assms(4) r' r by (auto simp: wrong_by_def)
    show ?thesis
    proof (cases "before_boot rs b")
      case True
      then show ?thesis
        using w r tb' tb assms(3)
        by (cases "early_rec ?tb (?tb + 900) r") (auto simp: moved_time not_moved early_rec_def)
    next
      case False
      then show ?thesis using r r' tb' by (auto simp: before_boot_def)
    qed
  qed
  have "\<not> (if d > 0 then fst (early_scan (ut_time (?rs ! b)) hi (drop b ?rs) (now, False)) \<ge> 2 * d + ?tb - 900
      else snd (early_scan (ut_time (?rs ! b)) hi (drop b ?rs) (now, False)))" for hi
    using no assms(2,5) by (auto simp: early_scan_next early_scan_before)
  then show ?thesis
    using s tb' by (auto simp: shift_file_def boot_at_last [OF b] Let_def)
qed

text \<open>The four files in turn: the logs find nothing, so nothing is moved.\<close>

lemma shift_files_quiet:
  assumes "\<And>i rs n wr. i \<in> set is \<Longrightarrow> even i \<Longrightarrow> t_adm st i = Some rs \<Longrightarrow>
    shift_file wr True d 0 dry (i_time io n) False rs = (0, rs, False)"
  shows "t_adm (shift_files io d 0 dry is False st) = t_adm st \<and> t_ev (shift_files io d 0 dry is False st) = t_ev st"
  using assms
proof (induction "is" arbitrary: st)
  case (Cons a "is")
  show ?case
  proof (cases "t_adm st a")
    case None
    moreover have "t_adm (shift_files io d 0 dry is False st) = t_adm st \<and> t_ev (shift_files io d 0 dry is False st) = t_ev st"
      using Cons.IH [of st] Cons.prems by (metis list.set_intros(2))
    ultimately show ?thesis by simp
  next
    case (Some rs)
    let ?st1 = "if even a \<and> last_boot 0 rs None \<noteq> None then snd (tt_time io st) else st"
    have table: "shift_file wr False d 0 dry now False rs = (0, rs, False)" for wr now
      by (simp add: shift_file_def split: option.splits)
    have log: "even a \<Longrightarrow> shift_file wr True d 0 dry (fst (tt_time io st)) False rs = (0, rs, False)" for wr
      using Cons.prems [of a rs _ "t_times st"] Some by (simp add: tt_time_def)
    have "shift_file (i_write io a) (even a) d 0 dry (fst (tt_time io st)) False rs = (0, rs, False)"
      using table log by (cases "even a") simp_all
    then have s: "shift_files io d 0 dry (a # is) False st =
        shift_files io d 0 dry is False (?st1\<lparr>t_adm := (t_adm ?st1)(a := Some rs)\<rparr>)"
      using Some by (simp add: Let_def)
    have a: "t_adm (?st1\<lparr>t_adm := (t_adm ?st1)(a := Some rs)\<rparr>) = t_adm st" "t_ev (?st1\<lparr>t_adm := (t_adm ?st1)(a := Some rs)\<rparr>) = t_ev st"
      using Some by (auto simp: tt_time_def)
    show ?thesis
      unfolding s using Cons.IH [of "?st1\<lparr>t_adm := (t_adm ?st1)(a := Some rs)\<rparr>"] Cons.prems a
      by (metis list.set_intros(2))
  qed
qed simp

lemma shift_files_missing:
  "t_adm st i = None \<Longrightarrow> t_adm (shift_files io d t0 dry is early st) i = None"
proof (induction "is" arbitrary: early st)
  case (Cons a "is")
  show ?case
  proof (cases "a = i")
    case False
    then show ?thesis
      using Cons by (auto simp: Let_def tt_time_def tt_ev_def split: option.split prod.split)
  qed (use Cons in simp)
qed simp

lemma shift_files_log:
  assumes "distinct is" "i \<in> set is" "even i" "t_adm st i = Some rs"
  shows "\<exists>n early. t_adm (shift_files io d t0 dry is early0 st) i =
    Some (fst (snd (shift_file (i_write io i) True d t0 dry (i_time io n) early rs)))"
  using assms
proof (induction "is" arbitrary: early0 st)
  case (Cons a "is")
  show ?case
  proof (cases "t_adm st a")
    case None
    then show ?thesis using Cons by auto
  next
    case (Some ra)
    obtain m ra' ea where s: "shift_file (i_write io a) (even a) d t0 dry (i_time io (t_times st)) early0 ra = (m, ra', ea)"
      by (metis prod_cases3)
    show ?thesis
    proof (cases "i = a")
      case True
      then have "t_adm (shift_files io d t0 dry (a # is) early0 st) i = Some ra'"
        using Cons.prems Some s by (simp add: Let_def shift_files_other tt_ev_def tt_time_def)
      moreover have "ra = rs" using True Some Cons.prems by simp
      ultimately show ?thesis using s True Cons.prems(3) by (metis fst_conv snd_conv)
    next
      case False
      then have "i \<in> set is" "distinct is" using Cons.prems by auto
      then show ?thesis
        using Some s False Cons.IH Cons.prems(3,4) by (simp add: Let_def tt_ev_def tt_time_def)
    qed
  qed
qed simp

text \<open>
  When \<open>-u\<close> is meant to be run: the zone's offset is \<open>d\<close> and stays, the clock of each log's last boot
  was wrong by it, and the clock reads less than twice the offset (less the window) after the
  uncorrected boot record.
\<close>

definition u_ready :: "int \<Rightarrow> ttio \<Rightarrow> ttst \<Rightarrow> bool" where
  "u_ready d io st \<longleftrightarrow>
    (\<forall>t. zone_offset io t = d) \<and> d \<noteq> 0 \<and> \<bar>d\<bar> \<le> 86400 \<and> (\<forall>i n. i_write io i n) \<and>
    (\<forall>i\<in>{0, 2}. \<forall>rs b. t_adm st i = Some rs \<and> boot_at rs b \<longrightarrow> wrong_by d rs b \<and>
       (\<forall>n. 0 < d \<longrightarrow> ut_time (rs ! b) + d - 900 \<le> i_time io n \<and> i_time io n < ut_time (rs ! b) + 2 * d - 900))"

lemma fix_records_files:
  "u_ready d io s0 \<Longrightarrow>
     snd (fix_records io y s) = shift_files io d 0 y [0, 1, 2, 3] False (snd (tt_time io s))"
  by (simp add: u_ready_def fix_records_def tt_time_def shift_records_def)

lemma fix_records_log:
  assumes "u_ready d io st" "i \<in> {0, 2}" "t_adm st i = Some rs"
  shows "boot_at rs b \<Longrightarrow> t_adm (snd (fix_records io False st)) i = Some (early_moved d rs b)"
    and "\<forall>b. \<not> boot_at rs b \<Longrightarrow> t_adm (snd (fix_records io False st)) i = Some rs"
proof -
  obtain n e where s: "t_adm (snd (fix_records io False st)) i =
      Some (fst (snd (shift_file (i_write io i) True d 0 False (i_time io n) e rs)))"
    using shift_files_log [of "[0, 1, 2, 3]" i "snd (tt_time io st)" rs io d 0 False False] assms
    by (auto simp: fix_records_files [OF assms(1)] tt_time_def simp del: shift_files.simps)
  show "t_adm (snd (fix_records io False st)) i = Some rs" if "\<forall>b. \<not> boot_at rs b"
    using s that boot_at_ex [of rs] by (metis fst_conv snd_conv shift_file_none)
  assume b: "boot_at rs b"
  have "\<exists>m e'. shift_file (i_write io i) True d 0 False (i_time io n) e rs = (m, early_moved d rs b, e')"
    using assms b unfolding u_ready_def by (intro shift_log) auto
  then show "t_adm (snd (fix_records io False st)) i = Some (early_moved d rs b)" using s by auto
qed

lemma fix_records_log_again:
  assumes "u_ready d io st" "i \<in> {0, 2}" "t_adm (snd (fix_records io False st)) i = Some rs'"
  shows "shift_file wr True d 0 dry (i_time io n) False rs' = (0, rs', False)"
proof -
  obtain rs where rs: "t_adm st i = Some rs"
    using assms(3) shift_files_missing [of "snd (tt_time io st)" i io d 0 False "[0, 1, 2, 3]" False]
    by (cases "t_adm st i")
      (auto simp: fix_records_files [OF assms(1)] tt_time_def simp del: shift_files.simps)
  show ?thesis
  proof (cases "\<exists>b. boot_at rs b")
    case True
    then obtain b where b: "boot_at rs b" by blast
    then have "rs' = early_moved d rs b" using fix_records_log(1) [OF assms(1,2) rs b] assms(3) by simp
    then show ?thesis using assms(1,2) rs b unfolding u_ready_def by (auto intro!: shift_log_again)
  next
    case False
    then have "rs' = rs" using fix_records_log(2) [OF assms(1,2) rs] assms(3) by simp
    then show ?thesis using False boot_at_ex [of rs] by (auto intro!: shift_file_none)
  qed
qed

text \<open>
  \<open>ttntp -u\<close> moves the early records of each log, and a second \<open>-u\<close> then finds nothing, for
  clocks that were wrong by the zone's offset and a \<open>-u\<close> that is run in time.
\<close>

theorem ttntp_second_u_nothing:
  assumes "u_ready d io st"
  shows "(\<forall>i\<in>{0, 2}. \<forall>rs b. t_adm st i = Some rs \<and> boot_at rs b \<longrightarrow>
      t_adm (snd (fix_records io False st)) i = Some (early_moved d rs b)) \<and>
    t_adm (snd (fix_records io dry (snd (fix_records io False st)))) = t_adm (snd (fix_records io False st)) \<and>
    t_ev (snd (fix_records io dry (snd (fix_records io False st)))) = t_ev (snd (fix_records io False st))"
proof -
  let ?st = "snd (fix_records io False st)"
  have "shift_file wr True d 0 dry (i_time io n) False rs' = (0, rs', False)"
    if "i \<in> set [0, 1, 2, 3]" "even i" "t_adm (snd (tt_time io ?st)) i = Some rs'" for i rs' n wr
    using that by (intro fix_records_log_again [OF assms]) (auto simp: tt_time_def)
  then have "t_adm (snd (fix_records io dry ?st)) = t_adm ?st \<and> t_ev (snd (fix_records io dry ?st)) = t_ev ?st"
    using shift_files_quiet [of "[0, 1, 2, 3]" "snd (tt_time io ?st)" d dry io]
    unfolding fix_records_files [OF assms, of dry] by (simp add: tt_time_def del: shift_files.simps)
  then show ?thesis using fix_records_log(1) [OF assms] by blast
qed

theorem ttntp_second_u_nothing_witness:
  "let io = demo_tio\<lparr>i_time := \<lambda>n. 1000021660\<rparr> in
     t_adm (snd (fix_records io False (snd (fix_records io False demo_tst)))) 0 = Some (early_moved 21600 demo_recs 1)"
proof -
  let ?io = "demo_tio\<lparr>i_time := \<lambda>n. 1000021660\<rparr>"
  have off: "zone_offset ?io t = 21600" for t by (simp add: zone_offset_def demo_tio_def)
  have w: "i_write ?io i n" for i n by (simp add: demo_tio_def)
  have w1: "wrong_by 21600 demo_recs 1" by (simp add: wrong_by_def demo_recs_def)
  have f: "\<forall>i\<in>{0, 2}. \<forall>rs b. t_adm demo_tst i = Some rs \<and> boot_at rs b \<longrightarrow> wrong_by 21600 rs b \<and>
      (\<forall>n. 0 < (21600 :: int) \<longrightarrow> ut_time (rs ! b) + 21600 - 900 \<le> i_time ?io n \<and> i_time ?io n < ut_time (rs ! b) + 2 * 21600 - 900)"
  proof (intro ballI allI impI; elim conjE)
    fix i :: nat and rs b assume a: "i \<in> {0, 2}" "t_adm demo_tst i = Some rs" "boot_at rs b"
    then have "rs = demo_recs" by (auto simp: demo_tst_def split: if_splits)
    moreover from this have "b = 1" using a(3) demo_boot_only by blast
    ultimately show "wrong_by 21600 rs b \<and>
      (\<forall>n. 0 < (21600 :: int) \<longrightarrow> ut_time (rs ! b) + 21600 - 900 \<le> i_time ?io n \<and> i_time ?io n < ut_time (rs ! b) + 2 * 21600 - 900)"
      using w1 by (simp add: demo_recs_def)
  qed
  have "(21600 :: int) \<noteq> 0" "\<bar>21600 :: int\<bar> \<le> 86400" by simp_all
  with off w f have ready: "u_ready 21600 ?io demo_tst" unfolding u_ready_def by blast
  have "t_adm demo_tst 0 = Some demo_recs" by (simp add: demo_tst_def)
  then show ?thesis
    unfolding Let_def
    using ttntp_second_u_nothing [OF ready, of False] demo_boot by simp
qed

section \<open>Names and replies\<close>

text \<open>A name as it is written, and as a message has it: labels, then the end or a pointer.\<close>

fun dotted :: "byte list list \<Rightarrow> byte list" where
  "dotted [] = []"
| "dotted [l] = l"
| "dotted (l # ls) = l @ 46 # dotted ls"

definition enc_labels :: "byte list list \<Rightarrow> byte list" where
  "enc_labels ls = concat (map (\<lambda>l. word_of_nat (length l) # l) ls)"

fun enc_end :: "(byte \<times> byte) option \<Rightarrow> byte list" where
  "enc_end None = [0]"
| "enc_end (Some (h, l)) = [h, l]"

definition label_ok :: "byte list \<Rightarrow> bool" where
  "label_ok l \<longleftrightarrow> l \<noteq> [] \<and> length l \<le> 63 \<and> 46 \<notin> set l"

record dnsrr =
  rr_name :: "byte list list"
  rr_ptr :: "(byte \<times> byte) option"
  rr_type :: int
  rr_class_ttl :: "byte list"
  rr_data :: "byte list"

definition rr_ok :: "dnsrr \<Rightarrow> bool" where
  "rr_ok rr \<longleftrightarrow> (\<forall>l\<in>set (rr_name rr). label_ok l) \<and>
     (case rr_ptr rr of None \<Rightarrow> True | Some (h, l) \<Rightarrow> h AND 0xC0 = 0xC0) \<and>
     0 \<le> rr_type rr \<and> rr_type rr < 65536 \<and> length (rr_class_ttl rr) = 6"

definition enc_rr :: "dnsrr \<Rightarrow> byte list" where
  "enc_rr rr = enc_labels (rr_name rr) @ enc_end (rr_ptr rr) @ p16 (rr_type rr) @ rr_class_ttl rr @
     p16 (int (length (rr_data rr))) @ rr_data rr"

definition is_a :: "dnsrr \<Rightarrow> bool" where
  "is_a rr \<longleftrightarrow> rr_type rr = 1 \<and> length (rr_data rr) = 4"

lemma label_byte: "label_ok l \<Longrightarrow> unat (word_of_nat (length l) :: byte) = length l"
  by (simp add: label_ok_def unat_of_nat take_bit_nat_eq_self)

lemma label_not_pointer:
  assumes "label_ok l"
  shows "word_of_nat (length l) \<noteq> (0 :: byte) \<and> (word_of_nat (length l) :: byte) AND 0xC0 \<noteq> 0xC0"
proof -
  have u: "unat (word_of_nat (length l) :: byte) = length l" using assms by (rule label_byte)
  have "(word_of_nat (length l) :: byte) AND 0xC0 \<le> word_of_nat (length l)" by (rule word_and_le2)
  then have "(word_of_nat (length l) :: byte) AND 0xC0 \<noteq> 0xC0"
    using u assms by (auto simp: label_ok_def word_le_nat_alt)
  then show ?thesis using u assms by (auto simp: label_ok_def)
qed

lemma skipname_label:
  assumes "label_ok l"
  shows "skipname (xs @ word_of_nat (length l) # l @ ys) (length xs) = skipname (xs @ word_of_nat (length l) # l @ ys) (length xs + 1 + length l)"
  using label_not_pointer [OF assms] label_byte [OF assms]
  by (subst skipname.simps) (simp add: nth_append)

lemma skipname_labels:
  "\<forall>l\<in>set ls. label_ok l \<Longrightarrow>
     skipname (xs @ enc_labels ls @ ys) (length xs) =
     skipname (xs @ enc_labels ls @ ys) (length xs + length (enc_labels ls))"
proof (induction ls arbitrary: xs)
  case (Cons l ls)
  have "skipname (xs @ enc_labels (l # ls) @ ys) (length xs) =
      skipname (xs @ enc_labels (l # ls) @ ys) (length xs + 1 + length l)"
    using skipname_label [of l xs "enc_labels ls @ ys"] Cons.prems by (simp add: enc_labels_def)
  also have "\<dots> = skipname (xs @ enc_labels (l # ls) @ ys) (length xs + length (enc_labels (l # ls)))"
    using Cons.IH [of "xs @ word_of_nat (length l) # l"] Cons.prems by (simp add: enc_labels_def ac_simps)
  finally show ?case .
qed (simp add: enc_labels_def)

lemma skipname_name:
  assumes "\<forall>l\<in>set ls. label_ok l" "case p of None \<Rightarrow> True | Some (h, l) \<Rightarrow> h AND 0xC0 = 0xC0"
  shows "skipname (xs @ enc_labels ls @ enc_end p @ ys) (length xs) = Some (length xs + length (enc_labels ls) + length (enc_end p))"
proof -
  have z: "(0 :: byte) AND 0xC0 \<noteq> 0xC0" by simp
  have "skipname (xs @ enc_labels ls @ enc_end p @ ys) (length xs) =
    skipname (xs @ enc_labels ls @ enc_end p @ ys) (length xs + length (enc_labels ls))"
    using skipname_labels [OF assms(1), of xs "enc_end p @ ys"] by simp
  also have "\<dots> = Some (length xs + length (enc_labels ls) + length (enc_end p))"
    using assms(2) z by (subst skipname.simps) (auto simp: nth_append split: option.splits prod.splits)
  finally show ?thesis .
qed

lemma g16_middle: "length xs = k \<Longrightarrow> g16 (xs @ p16 v @ ys) k = u16 v"
  using g16_p16 [of v] by (simp add: be_simps)

lemma dns_answers_step:
  assumes "skipname r k = Some j" "j + 10 + n \<le> length r" "g16 r j = ty" "g16 r (j + 8) = int n"
  shows "dns_answers r (Suc an) (Suc room) k =
    (if ty = 1 \<and> n = 4 then g32 r (j + 10) # dns_answers r an room (j + 10 + n)
     else dns_answers r an (Suc room) (j + 10 + n))"
  using assms by (simp add: Let_def)

lemma dns_answers_rrs:
  assumes "\<forall>rr\<in>set rrs. rr_ok rr \<and> length (rr_data rr) < 65536"
  shows "dns_answers (xs @ concat (map enc_rr rrs)) (length rrs) room (length xs) =
    map (\<lambda>rr. g32 (rr_data rr) 0) (take room (filter is_a rrs))"
  using assms
proof (induction rrs arbitrary: xs room)
  case (Cons rr rrs)
  let ?h = "enc_labels (rr_name rr) @ enc_end (rr_ptr rr)"
  let ?d = "p16 (rr_type rr) @ rr_class_ttl rr @ p16 (int (length (rr_data rr))) @ rr_data rr"
  let ?r = "xs @ ?h @ ?d @ concat (map enc_rr rrs)"
  have r: "xs @ concat (map enc_rr (rr # rrs)) = ?r" by (simp add: enc_rr_def)
  have ok: "rr_ok rr" "length (rr_data rr) < 65536" using Cons.prems by auto
  have s: "skipname ?r (length xs) = Some (length xs + length ?h)"
    using skipname_name [of "rr_name rr" "rr_ptr rr" xs] ok(1) by (simp add: rr_ok_def)
  have ty: "g16 ?r (length xs + length ?h) = rr_type rr"
    using ok g16_middle [of "xs @ ?h" _ "rr_type rr"] by (simp add: rr_ok_def u16_id)
  have len: "g16 ?r (length xs + length ?h + 8) = int (length (rr_data rr))"
    using ok g16_middle [of "xs @ ?h @ p16 (rr_type rr) @ rr_class_ttl rr" _ "int (length (rr_data rr))"]
    by (simp add: rr_ok_def u16_id add.assoc)
  have dat: "length (rr_data rr) = 4 \<Longrightarrow> g32 ?r (length xs + length ?h + 10) = g32 (rr_data rr) 0"
    using ok by (simp add: be_simps rr_ok_def)
  have isa: "is_a rr \<Longrightarrow> length (rr_data rr) = 4" by (simp add: is_a_def)
  have l: "length ?d = 10 + length (rr_data rr)" using ok by (simp add: rr_ok_def)
  have rest: "dns_answers ?r (length rrs) m (length xs + length ?h + 10 + length (rr_data rr)) =
      map (\<lambda>rr. g32 (rr_data rr) 0) (take m (filter is_a rrs))" for m
    using Cons.IH [of "xs @ ?h @ ?d" m] Cons.prems l by (simp add: ac_simps)
  have fit: "length xs + length ?h + 10 + length (rr_data rr) \<le> length ?r" using l by simp
  show ?case
  proof (cases room)
    case (Suc n)
    show ?thesis
      unfolding r Suc list.size(4) add_Suc_right add_0_right
      unfolding dns_answers_step [OF s fit ty len] rest is_a_def [of rr, symmetric]
      using dat by (cases "is_a rr") (simp_all add: isa)
  qed simp
qed simp

lemma length_enc_rrs: "rr \<in> set rrs \<Longrightarrow> length (enc_rr rr) \<le> length (concat (map enc_rr rrs))"
  by (induction rrs) auto

text \<open>The question.\<close>

lemma dotted_Cons: "dotted (l # ls) = (if ls = [] then l else l @ 46 # dotted ls)"
  by (cases ls) simp_all

lemma dns_labels_dotted:
  "\<forall>l\<in>set ls. label_ok l \<Longrightarrow> n + length (enc_labels ls) + 5 \<le> 512 \<Longrightarrow>
     dns_labels n (dotted ls) = Some (enc_labels ls)"
proof (induction ls arbitrary: n)
  case Nil
  then show ?case by (subst dns_labels.simps) (simp add: enc_labels_def)
next
  case (Cons l ls)
  have l: "l \<noteq> []" "length l \<le> 63" "46 \<notin> set l" using Cons.prems by (auto simp: label_ok_def)
  have e: "enc_labels (l # ls) = word_of_nat (length l) # l @ enc_labels ls" by (simp add: enc_labels_def)
  have IH: "dns_labels (n + length l + 1) (dotted ls) = Some (enc_labels ls)"
    using Cons.IH [of "n + length l + 1"] Cons.prems by (simp add: e)
  have tw: "takeWhile (\<lambda>c. c \<noteq> 46) (dotted (l # ls)) = l"
    using l(3) by (auto simp: dotted_Cons takeWhile_eq_all_conv takeWhile_append)
  have fit: "n + length l + 6 \<le> 512" using Cons.prems by (simp add: e)
  have rest: "drop (length l + (if length l < length (dotted (l # ls)) then 1 else 0)) (dotted (l # ls)) = dotted ls"
    by (simp add: dotted_Cons)
  have ne: "dotted (l # ls) \<noteq> []" using l by (simp add: dotted_Cons)
  show ?case
    unfolding dns_labels.simps [of n "dotted (l # ls)"] Let_def tw rest IH
    using l fit ne by (simp add: e dotted_Cons)
qed

text \<open>
  C23. A name of labels of 1 to 63 bytes that fits a query is asked for at the configured server in
  a well-formed question, and from a well-formed reply, compressed names and records of other
  types included, come the first eight addresses in their order.
\<close>

theorem ttntp_resolve_reply:
  fixes io :: ttio and st :: ttst and ls :: "byte list list" and rrs :: "dnsrr list"
    and flags cnts :: "byte list"
  defines "i \<equiv> u16 (i_pid io XOR ctrunc (i_now io (t_nows st)))"
  defines "q \<equiv> p16 i @ [1, 0, 0, 1, 0, 0, 0, 0, 0, 0] @ enc_labels ls @ [0, 0, 1, 0, 1]"
  defines "m \<equiv> p16 i @ flags @ [0, 1] @ p16 (int (length rrs)) @ cnts @ enc_labels ls @ [0, 0, 1, 0, 1] @
    concat (map enc_rr rrs)"
  assumes name: "\<forall>l\<in>set ls. label_ok l" "length q \<le> 512"
    and host: "i_inet io (dotted ls) = inaddr_none" "nameserver io \<noteq> 0" "i_sock io (t_socks st)"
    and reply: "i_xchg io (Suc (t_socks st)) (nameserver io) q = Some m" "length m \<le> 512"
      "length flags = 2" "flags ! 1 AND 0x0F = 0" "length cnts = 4" "\<forall>rr\<in>set rrs. rr_ok rr"
  shows "fst (tt_resolve io (dotted ls) 8 st) = map (\<lambda>rr. g32 (rr_data rr) 0) (take 8 (filter is_a rrs))"
proof -
  have ql: "dns_query i (dotted ls) = Some q"
    using dns_labels_dotted [OF name(1), of 12] name(2) by (simp add: dns_query_def q_def)
  obtain a b where p: "p16 i = [a, b]" by (simp add: p16_def)
  obtain f0 f1 where fl: "flags = [f0, f1]"
    using reply(3) by (auto simp: numeral_2_eq_2 length_Suc_conv)
  have data: "length (rr_data rr) < 65536" if "rr \<in> set rrs" for rr
  proof -
    have "length (rr_data rr) \<le> length (enc_rr rr)" by (simp add: enc_rr_def)
    also have "\<dots> \<le> length (concat (map enc_rr rrs))"
      using that by (rule length_enc_rrs)
    finally show ?thesis using reply(2) by (simp add: m_def)
  qed
  have "length rrs \<le> length (concat (map enc_rr rrs))"
    by (induction rrs) (simp_all add: enc_rr_def)
  then have an: "g16 m 6 = int (length rrs)"
    using reply(2,3) g16_middle [of "p16 i @ flags @ [0, 1]" 6 "int (length rrs)"] by (simp add: m_def u16_id)
  let ?x = "p16 i @ flags @ [0, 1] @ p16 (int (length rrs)) @ cnts"
  have x: "length ?x = 12" using reply(5) by (simp add: fl)
  have e: "length (?x @ enc_labels ls @ [0, 0, 1, 0, 1]) = 12 + length (enc_labels ls) + 1 + 4"
    using x by simp
  have "skipname m (length ?x) = Some (12 + length (enc_labels ls) + 1)"
    using skipname_name [of ls None ?x "[0, 1, 0, 1] @ concat (map enc_rr rrs)"] name(1) x
    by (simp add: m_def)
  moreover have "dns_answers m (length rrs) 8 (12 + length (enc_labels ls) + 1 + 4) =
      map (\<lambda>rr. g32 (rr_data rr) 0) (take 8 (filter is_a rrs))"
    using dns_answers_rrs [of rrs "?x @ enc_labels ls @ [0, 0, 1, 0, 1]" 8, unfolded e] reply(6) data
    by (simp add: m_def)
  ultimately have d: "dns_reply m 8 = map (\<lambda>rr. g32 (rr_data rr) 0) (take 8 (filter is_a rrs))"
    using an x by (simp add: dns_reply_def)
  have h: "12 \<le> length m" "m ! 0 = q ! 0" "m ! 1 = q ! 1" "m ! 3 AND 0x0F = 0"
    using reply(4) by (simp_all add: m_def q_def p fl reply(5))
  show ?thesis
    using h d reply(1,2) host ql
    by (simp add: tt_resolve_def tt_now_def tt_socket_def Let_def i_def [symmetric])
qed

theorem ttntp_resolve_reply_witness:
  "fst (tt_resolve demo_tio (dotted [[97], [98]]) 8 demo_tst) = [0x01020304]"
proof -
  let ?rrs = "[\<lparr>rr_name = [], rr_ptr = Some (0xC0, 12), rr_type = 5, rr_class_ttl = [0, 1, 0, 0, 0, 9], rr_data = [0xC0, 12]\<rparr>,
    \<lparr>rr_name = [], rr_ptr = Some (0xC0, 12), rr_type = 1, rr_class_ttl = [0, 1, 0, 0, 0, 9], rr_data = [1, 2, 3, 4]\<rparr>]"
  have i: "u16 (i_pid demo_tio XOR ctrunc (i_now demo_tio (t_nows demo_tst))) = 7"
    by (simp add: demo_tio_def ctrunc_def u16_def s32_def)
  have e: "enc_labels [[97], [98]] = [1, 97, 1, 98]" by (simp add: enc_labels_def)
  have p: "p16 7 = [0, 7]" "p16 (int (length ?rrs)) = [0, 2]" by (simp_all add: p16_def)
  have rr: "concat (map enc_rr ?rrs) = [0xC0, 12, 0, 5, 0, 1, 0, 0, 0, 9, 0, 2, 0xC0, 12, 0xC0, 12, 0, 1, 0, 1, 0, 0, 0, 9, 0, 4, 1, 2, 3, 4]"
    by (simp add: enc_rr_def enc_labels_def p16_def)
  have ns: "nameserver demo_tio = 167772161" by code_simp
  have inet: "i_inet demo_tio (dotted [[97], [98]]) = inaddr_none" by code_simp
  have ok: "\<forall>rr\<in>set ?rrs. rr_ok rr" by (simp add: rr_ok_def)
  have "fst (tt_resolve demo_tio (dotted [[97], [98]]) 8 demo_tst) = map (\<lambda>rr. g32 (rr_data rr) 0) (take 8 (filter is_a ?rrs))"
    by (rule ttntp_resolve_reply [where flags = "[0x81, 0x80]" and cnts = "[0, 0, 0, 0]"])
      (unfold i e p rr ns, use ok inet in \<open>simp_all add: label_ok_def demo_tio_def\<close>)
  then show ?thesis by (simp add: is_a_def g32_def g16_def g8_def)
qed

section \<open>The clock that is set\<close>

text \<open>What IEEE arithmetic in double precision or better promises of one operation.\<close>

definition rnd_ok :: "(rat \<Rightarrow> rat) \<Rightarrow> bool" where
  "rnd_ok rnd \<longleftrightarrow> (\<forall>x. \<bar>rnd x - x\<bar> \<le> \<bar>x\<bar> / 2 ^ 53 + 1 / 2 ^ 100)"

lemma rnd_okD: "rnd_ok rnd \<Longrightarrow> \<bar>x\<bar> \<le> c \<Longrightarrow> \<bar>rnd x - x\<bar> \<le> c / 9007199254740992 + 1 / 1267650600228229401496703205376"
proof -
  assume a: "rnd_ok rnd" "\<bar>x\<bar> \<le> c"
  then have "\<bar>rnd x - x\<bar> \<le> \<bar>x\<bar> / 2 ^ 53 + 1 / 2 ^ 100" by (simp add: rnd_ok_def)
  moreover have "\<bar>x\<bar> / 2 ^ 53 \<le> c / 2 ^ 53" using a(2) by (simp add: divide_right_mono)
  ultimately show ?thesis by simp
qed

lemma ctrunc_near:
  assumes "\<bar>x\<bar> < 2147483647"
  shows "\<bar>of_int (ctrunc x) - x\<bar> < 1" "0 \<le> x \<Longrightarrow> of_int (ctrunc x) \<le> x" "x < 0 \<Longrightarrow> x \<le> of_int (ctrunc x)"
proof -
  have "0 \<le> x \<Longrightarrow> ctrunc x = \<lfloor>x\<rfloor>"
    unfolding ctrunc_def using assms by (simp, intro s32_id) linarith+
  moreover have "x < 0 \<Longrightarrow> ctrunc x = \<lceil>x\<rceil>"
    unfolding ctrunc_def using assms by (simp, intro s32_id) linarith+
  ultimately show "\<bar>of_int (ctrunc x) - x\<bar> < 1" "0 \<le> x \<Longrightarrow> of_int (ctrunc x) \<le> x"
    "x < 0 \<Longrightarrow> x \<le> of_int (ctrunc x)"
    by (cases "0 \<le> x"; linarith)+
qed

text \<open>The whole seconds of an offset.\<close>

definition whole :: "ttio \<Rightarrow> rat \<Rightarrow> int" where
  "whole io off = ctrunc (if 0 \<le> off then i_rnd io (off + 1 / 2) else i_rnd io (off - 1 / 2))"

definition micros :: "ttio \<Rightarrow> rat \<Rightarrow> int" where
  "micros io off = ctrunc (i_rnd io (i_rnd io (off - of_int (whole io off)) * 1000000))"

lemma round_half:
  assumes "rnd_ok rnd" "0 \<le> off" "off \<le> 1073741824"
  shows "\<bar>of_int (ctrunc (rnd (off + 1 / 2))) - off\<bar> \<le> 1 / 2 + 1 / 2000000"
proof -
  define y where "y = rnd (off + 1 / 2)"
  have e: "\<bar>y - (off + 1 / 2)\<bar> \<le> 1073741825 / 9007199254740992 + 1 / 1267650600228229401496703205376"
    unfolding y_def using assms by (intro rnd_okD) linarith+
  then have y: "0 \<le> y" "\<bar>y\<bar> < 2147483647" using assms by linarith+
  have "\<bar>of_int (ctrunc y) - y\<bar> < 1" "of_int (ctrunc y) \<le> y" using ctrunc_near [OF y(2)] y(1) by auto
  then show ?thesis using e unfolding y_def [symmetric] by linarith
qed

lemma round_half_neg:
  assumes "rnd_ok rnd" "off < 0" "- 1073741824 \<le> off"
  shows "\<bar>of_int (ctrunc (rnd (off - 1 / 2))) - off\<bar> \<le> 1 / 2 + 1 / 2000000"
proof -
  define y where "y = rnd (off - 1 / 2)"
  have e: "\<bar>y - (off - 1 / 2)\<bar> \<le> 1073741825 / 9007199254740992 + 1 / 1267650600228229401496703205376"
    unfolding y_def using assms by (intro rnd_okD) linarith+
  then have y: "y < 0" "\<bar>y\<bar> < 2147483647" using assms by linarith+
  have "\<bar>of_int (ctrunc y) - y\<bar> < 1" "y \<le> of_int (ctrunc y)" using ctrunc_near [OF y(2)] y(1) by auto
  then show ?thesis using e unfolding y_def [symmetric] by linarith
qed

lemma whole_near:
  "rnd_ok (i_rnd io) \<Longrightarrow> \<bar>off\<bar> \<le> 1073741824 \<Longrightarrow> \<bar>of_int (whole io off) - off\<bar> \<le> 1 / 2 + 1 / 2000000"
  unfolding whole_def using round_half [of "i_rnd io" off] round_half_neg [of "i_rnd io" off]
  by (cases "0 \<le> off") simp_all

lemma micros_near:
  assumes "rnd_ok (i_rnd io)" "\<bar>off\<bar> \<le> 1073741824"
  shows "\<bar>of_int (whole io off) + of_int (micros io off) / 1000000 - off\<bar> \<le> 1 / 1000000 + 1 / 1000000000000"
    "\<bar>micros io off\<bar> \<le> 500001"
proof -
  define r where "r = off - of_int (whole io off)"
  define r' where "r' = i_rnd io r"
  define y where "y = i_rnd io (r' * 1000000)"
  have r: "\<bar>r\<bar> \<le> 1 / 2 + 1 / 2000000" unfolding r_def using whole_near [OF assms] by linarith
  have r': "\<bar>r' - r\<bar> \<le> 1 / 9007199254740992 + 1 / 1267650600228229401496703205376"
    unfolding r'_def using r by (intro rnd_okD [OF assms(1)]) linarith
  have y: "\<bar>y - r' * 1000000\<bar> \<le> 1000000 / 9007199254740992 + 1 / 1267650600228229401496703205376"
    unfolding y_def using r r' by (intro rnd_okD [OF assms(1)]) linarith
  have "\<bar>y\<bar> < 2147483647" using y r r' by linarith
  then have c: "\<bar>of_int (ctrunc y) - y\<bar> < 1" by (rule ctrunc_near)
  have m: "micros io off = ctrunc y" by (simp add: micros_def y_def r'_def r_def)
  have w: "of_int (whole io off) = off - r" by (simp add: r_def)
  show "\<bar>of_int (whole io off) + of_int (micros io off) / 1000000 - off\<bar> \<le> 1 / 1000000 + 1 / 1000000000000"
    unfolding m w using r' y c by linarith
  have "\<bar>of_int (ctrunc y) :: rat\<bar> < 500002" using r r' y c by linarith
  then show "\<bar>micros io off\<bar> \<le> 500001" unfolding m by linarith
qed

lemma clear_of_second_first:
  assumes "\<not> i_rnd io (i_now io n - of_int (ctrunc (i_now io n))) > i_rnd io (9 / 10)" "t_nows st \<le> n"
  shows "\<exists>k. t_nows st \<le> k \<and> clear_of_second io st = Some (i_now io k, st\<lparr>t_nows := Suc k\<rparr>) \<and>
    \<not> i_rnd io (i_now io k - of_int (ctrunc (i_now io k))) > i_rnd io (9 / 10)"
  using assms(2)
proof (induction "n - t_nows st" arbitrary: st)
  case 0
  then have "n = t_nows st" by simp
  then show ?case
    using assms(1) by (intro exI [of _ n], subst clear_of_second.simps) (simp add: tt_now_def)
next
  case (Suc d)
  show ?case
  proof (cases "i_rnd io (i_now io (t_nows st) - of_int (ctrunc (i_now io (t_nows st)))) > i_rnd io (9 / 10)")
    case True
    let ?st = "st\<lparr>t_nows := Suc (t_nows st)\<rparr>"
    have d: "d = n - Suc (t_nows st)" "Suc (t_nows st) \<le> n" using Suc.hyps(2) by linarith+
    obtain k where "Suc (t_nows st) \<le> k" "clear_of_second io ?st = Some (i_now io k, ?st\<lparr>t_nows := Suc k\<rparr>)"
      "\<not> i_rnd io (i_now io k - of_int (ctrunc (i_now io k))) > i_rnd io (9 / 10)"
      using Suc.hyps(1) [of ?st] d by auto
    then show ?thesis
      using True by (intro exI [of _ k], subst clear_of_second.simps) (simp add: tt_now_def)
  next
    case False
    then show ?thesis
      by (intro exI [of _ "t_nows st"], subst clear_of_second.simps) (simp add: tt_now_def)
  qed
qed

text \<open>
  Correcting the clock by an offset: with arithmetic of double precision and a clock that is
  read clear of a second boundary some time, \<open>setclock\<close> steps by whole seconds at most once and
  slews at most about half a second, and the two together make the offset to a microsecond.
\<close>

theorem ttntp_clock_corrected:
  assumes "rnd_ok (i_rnd io)" "\<bar>off\<bar> \<le> 1073741824" "i_adjtime io" "\<And>n. i_stime io n"
    "t_nows st \<le> n" "i_rnd io (i_now io n - of_int (ctrunc (i_now io n))) \<le> i_rnd io (9 / 10)"
  shows "\<exists>k us m st'. setclock io off st = Some (if k = 0 then 0 else 1, st') \<and>
    clock_events st' = clock_events st @
      (if k = 0 then [] else [Stepped (s32 (ctrunc (i_now io m) + k))]) @ (if us = 0 then [] else [Slewed us]) \<and>
    i_rnd io (i_now io m - of_int (ctrunc (i_now io m))) \<le> i_rnd io (9 / 10) \<and>
    \<bar>of_int k + of_int us / 1000000 - off\<bar> \<le> 1 / 1000000 + 1 / 1000000000000 \<and> \<bar>us\<bar> \<le> 500001"
proof -
  obtain m where m: "clear_of_second io st = Some (i_now io m, st\<lparr>t_nows := Suc m\<rparr>)"
    "i_rnd io (i_now io m - of_int (ctrunc (i_now io m))) \<le> i_rnd io (9 / 10)"
    using clear_of_second_first [of io n st] assms(5,6) by (auto simp: not_less)
  have z: "whole io off = 0 \<Longrightarrow> ctrunc (i_rnd io (i_rnd io off * 1000000)) = micros io off"
    by (simp add: micros_def)
  have "\<exists>st'. setclock io off st = Some (if whole io off = 0 then 0 else 1, st') \<and>
    clock_events st' = clock_events st @
      (if whole io off = 0 then [] else [Stepped (s32 (ctrunc (i_now io m) + whole io off))]) @
      (if micros io off = 0 then [] else [Slewed (micros io off)])"
    using m(1) assms(3,4) z
    by (cases "whole io off = 0")
      (simp_all add: setclock_def whole_def [symmetric] micros_def [symmetric] clock_slew_def tt_stime_def Let_def)
  then show ?thesis using m(2) micros_near [OF assms(1,2)] by blast
qed

theorem ttntp_clock_corrected_witness:
  "\<exists>k us m st'. setclock demo_tio (5 / 4) demo_tst = Some (if k = 0 then 0 else 1, st') \<and>
    clock_events st' = (if k = 0 then [] else [Stepped (s32 (ctrunc (i_now demo_tio m) + k))]) @ (if us = 0 then [] else [Slewed us]) \<and>
    \<bar>of_int k + of_int us / 1000000 - (5 / 4 :: rat)\<bar> \<le> 1 / 1000000 + 1 / 1000000000000"
proof -
  have r: "rnd_ok (i_rnd demo_tio)" by (simp add: rnd_ok_def demo_tio_def)
  have f: "i_rnd demo_tio (i_now demo_tio 0 - of_int (ctrunc (i_now demo_tio 0))) \<le> i_rnd demo_tio (9 / 10)"
    by (simp add: demo_tio_def ctrunc_def s32_def)
  have e: "clock_events demo_tst = []" "t_nows demo_tst \<le> 0" by (simp_all add: demo_tst_def clock_events_def)
  have s: "i_adjtime demo_tio" "i_stime demo_tio n" for n by (simp_all add: demo_tio_def)
  have b: "\<bar>5 / 4 :: rat\<bar> \<le> 1073741824" by simp
  show ?thesis using ttntp_clock_corrected [OF r b s(1) s(2) e(2) f] unfolding e(1) append_Nil by blast
qed

section \<open>Nothing without an answer\<close>

definition answered :: "ttio \<Rightarrow> bool" where
  "answered io \<longleftrightarrow> (\<exists>n a m. i_xchg io n a ntp_request = Some m \<and> 48 \<le> length m \<and> ntp_ok m)"

text \<open>The clocks and the records files are as before.\<close>

definition untouched :: "ttst \<Rightarrow> ttst \<Rightarrow> bool" where
  "untouched st st' \<longleftrightarrow> clock_events st' = clock_events st \<and> t_adm st' = t_adm st"

lemma untouched_refl [simp]: "untouched st st"
  by (simp add: untouched_def)

lemma untouched_trans: "untouched a b \<Longrightarrow> untouched b c \<Longrightarrow> untouched a c"
  by (simp add: untouched_def)

lemma untouched_says: "untouched a b \<Longrightarrow> untouched a (tt_ev (Says t) b)"
  by (simp add: untouched_def)

lemma untouched_resolve: "untouched st (snd (tt_resolve io name room st))"
  by (cases "i_sock io (t_socks st)")
    (simp_all add: tt_resolve_def tt_now_def tt_socket_def Let_def untouched_def split: option.split)

lemma tt_query_facts:
  "untouched st (snd (tt_query io a st)) \<and> (fst (tt_query io a st) \<noteq> None \<longrightarrow> answered io)"
  by (cases "i_sock io (t_socks st)")
    (auto simp: tt_query_def tt_now_def tt_socket_def Let_def untouched_def answered_def not_less
      split: option.split)

lemma tt_first_facts:
  "untouched st (snd (tt_first io as st)) \<and> (fst (tt_first io as st) \<noteq> None \<longrightarrow> answered io)"
proof (induction "as" arbitrary: st)
  case (Cons a "as")
  obtain r st1 where q: "tt_query io a st = (r, st1)" by fastforce
  show ?case
    using tt_query_facts [of st io a] Cons.IH [of st1] untouched_trans
    by (cases r) (auto simp: q split: prod.split)
qed simp

lemma shift_files_dry: "t_adm (shift_files io d t0 True is early st) = t_adm st"
proof (induction "is" arbitrary: early st)
  case (Cons a "is")
  have s: "fst (snd (shift_file wr l d t0 True now early rs)) = rs" for wr l now early rs
    by (auto simp: shift_file_def Let_def shift_recs_dry split: option.split prod.split)
  show ?case
  proof (cases "t_adm st a")
    case (Some rs)
    obtain n rs' e where f: "shift_file (i_write io a) (even a) d t0 True (fst (tt_time io st)) early rs = (n, rs', e)"
      by (metis prod_cases3)
    then have "rs' = rs" using s by (metis fst_conv snd_conv)
    then show ?thesis using Cons.IH Some f by (auto simp: Let_def tt_time_def tt_ev_def)
  qed (use Cons in simp)
qed simp

lemma tt_servers_facts:
  assumes "o_dry op \<or> \<not> answered io"
  shows "\<exists>rc st'. tt_servers io op ss st = Some (rc, st') \<and> untouched st st' \<and> (answered io \<or> rc = 1)"
proof (induction ss arbitrary: st)
  case Nil
  then show ?case by (simp add: untouched_says)
next
  case (Cons s ss)
  obtain as st1 where r: "tt_resolve io s 8 st = (as, st1)" by fastforce
  obtain f st2 where f: "tt_first io as st1 = (f, st2)" by fastforce
  have u: "untouched st st2" "f \<noteq> None \<longrightarrow> answered io"
    using untouched_trans [of st st1 st2] untouched_resolve [of st io s 8] tt_first_facts [of st1 io "as"] r f
    by simp_all
  show ?case
  proof (cases f)
    case None
    then have e: "tt_servers io op (s # ss) st = tt_servers io op ss st2" using r f by simp
    show ?thesis unfolding e using Cons.IH [of st2] u(1) untouched_trans by blast
  next
    case (Some off)
    then have "o_dry op" using assms u(2) by blast
    then have "tt_servers io op (s # ss) st = Some (0, st2)" using r f Some by (simp add: tt_correct_def)
    then show ?thesis using u Some by simp
  qed
qed

lemma tt_options_boot: "tt_options as op = Some (op', ss) \<Longrightarrow> o_boot op \<in> {0, 1, 2} \<Longrightarrow> o_boot op' \<in> {0, 1, 2}"
  by (induction "as" op rule: tt_options.induct) (auto split: if_splits)

text \<open>
  C24. Without \<open>-b\<close>, nothing is set unless it should: with \<open>-n\<close>, or without \<open>-u\<close> while no time server
  gives a synchronised answer, the program ends, neither clock is set and no record is changed;
  and with no answer the exit code is 1.
\<close>

theorem ttntp_nothing_without_answer:
  assumes "tt_options args \<lparr>o_dry = False, o_quiet = False, o_zone = False, o_boot = 0\<rparr> = Some (op, ss)"
    "o_boot op \<noteq> 1" "o_dry op \<or> o_boot op \<noteq> 2 \<and> \<not> answered io"
  shows "\<exists>rc st'. tt_main io args st = Some (rc, st') \<and> clock_events st' = clock_events st \<and> t_adm st' = t_adm st \<and>
    (o_boot op = 2 \<or> answered io \<or> rc = 1)"
proof (cases "o_boot op = 2")
  case True
  then have "o_dry op" using assms(3) by blast
  then show ?thesis
    using True assms(1)
    by (simp add: tt_main_def fix_records_def tt_time_def shift_records_def shift_files_dry del: shift_files.simps)
next
  case False
  then have z: "o_boot op = 0" using assms(2) tt_options_boot [OF assms(1)] by auto
  show ?thesis
    using tt_servers_facts [of op io "if ss \<noteq> [] then ss else [bytes_of ''pool.ntp.org'']" st] assms(1,3) z False
    unfolding tt_main_def untouched_def by auto
qed

theorem ttntp_nothing_without_answer_witness:
  "\<exists>rc st'. tt_main demo_tio [bytes_of ''-z'', bytes_of ''a.b''] demo_tst = Some (rc, st') \<and> clock_events st' = [] \<and> rc = 1"
proof -
  have o: "tt_options [bytes_of ''-z'', bytes_of ''a.b''] \<lparr>o_dry = False, o_quiet = False, o_zone = False, o_boot = 0\<rparr> =
      Some (\<lparr>o_dry = False, o_quiet = False, o_zone = True, o_boot = 0\<rparr>, [bytes_of ''a.b''])"
    by code_simp
  have a: "\<not> answered demo_tio" by (auto simp: answered_def demo_tio_def ntp_request_def split: if_splits)
  have e: "clock_events demo_tst = []" by (simp add: demo_tst_def clock_events_def)
  show ?thesis using ttntp_nothing_without_answer [OF o, of demo_tio demo_tst] a e by auto
qed

end
