(* ===== verification/NuChip.thy ===== *)
theory NuChip
  imports Prelude
begin

unbundle bit_operations_syntax

text \<open>
  The chip core \<open>driver-nu/nuchip.c\<close> of the NetUSBee's Ethernet driver, as the System V kernel
  builds it (\<open>NU_ASV\<close>: one transmit buffer, block transfers through the data port, no clock to
  yield to). The card is an arbitrary function \<open>chip\<close> from the accesses made so far, and the
  register read, to the byte it answers; the accesses are logged. Pages of 256 bytes, lengths and
  registers are integers. A result \<open>None\<close> means that a frame buffer is left.
\<close>

section \<open>The card\<close>

datatype acc = Rd nat | Wr nat int | Delay int

type_synonym chip = "acc list \<Rightarrow> nat \<Rightarrow> byte"

text \<open>Registers and bits (\<open>nureg.h\<close>).\<close>

abbreviation (input) NU_CR :: nat where "NU_CR \<equiv> 0x00"
abbreviation (input) NU_PSTART :: nat where "NU_PSTART \<equiv> 0x01"
abbreviation (input) NU_PSTOP :: nat where "NU_PSTOP \<equiv> 0x02"
abbreviation (input) NU_BNRY :: nat where "NU_BNRY \<equiv> 0x03"
abbreviation (input) NU_TPSR :: nat where "NU_TPSR \<equiv> 0x04"
abbreviation (input) NU_TSR :: nat where "NU_TSR \<equiv> 0x04"
abbreviation (input) NU_TBCR0 :: nat where "NU_TBCR0 \<equiv> 0x05"
abbreviation (input) NU_TBCR1 :: nat where "NU_TBCR1 \<equiv> 0x06"
abbreviation (input) NU_ISR :: nat where "NU_ISR \<equiv> 0x07"
abbreviation (input) NU_RSAR0 :: nat where "NU_RSAR0 \<equiv> 0x08"
abbreviation (input) NU_RSAR1 :: nat where "NU_RSAR1 \<equiv> 0x09"
abbreviation (input) NU_RBCR0 :: nat where "NU_RBCR0 \<equiv> 0x0a"
abbreviation (input) NU_RBCR1 :: nat where "NU_RBCR1 \<equiv> 0x0b"
abbreviation (input) NU_RCR :: nat where "NU_RCR \<equiv> 0x0c"
abbreviation (input) NU_TCR :: nat where "NU_TCR \<equiv> 0x0d"
abbreviation (input) NU_DCR :: nat where "NU_DCR \<equiv> 0x0e"
abbreviation (input) NU_IMR :: nat where "NU_IMR \<equiv> 0x0f"
abbreviation (input) NU_PAR0 :: nat where "NU_PAR0 \<equiv> 0x01"
abbreviation (input) NU_CURR :: nat where "NU_CURR \<equiv> 0x07"
abbreviation (input) NU_MAR0 :: nat where "NU_MAR0 \<equiv> 0x08"
abbreviation (input) NU_9346CR :: nat where "NU_9346CR \<equiv> 0x01"
abbreviation (input) NU_CONFIG1 :: nat where "NU_CONFIG1 \<equiv> 0x04"
abbreviation (input) NU_DATA :: nat where "NU_DATA \<equiv> 0x10"
abbreviation (input) NU_RESET :: nat where "NU_RESET \<equiv> 0x1f"

abbreviation (input) CR_STP :: int where "CR_STP \<equiv> 0x01"
abbreviation (input) CR_STA :: int where "CR_STA \<equiv> 0x02"
abbreviation (input) CR_TXP :: int where "CR_TXP \<equiv> 0x04"
abbreviation (input) CR_RREAD :: int where "CR_RREAD \<equiv> 0x08"
abbreviation (input) CR_RWRITE :: int where "CR_RWRITE \<equiv> 0x10"
abbreviation (input) CR_NODMA :: int where "CR_NODMA \<equiv> 0x20"
abbreviation (input) CR_PAGE1 :: int where "CR_PAGE1 \<equiv> 0x40"
abbreviation (input) CR_PAGE2 :: int where "CR_PAGE2 \<equiv> 0x80"
abbreviation (input) CR_PAGE3 :: int where "CR_PAGE3 \<equiv> 0xc0"
abbreviation (input) ISR_PRX :: int where "ISR_PRX \<equiv> 0x01"
abbreviation (input) ISR_PTX :: int where "ISR_PTX \<equiv> 0x02"
abbreviation (input) ISR_RXE :: int where "ISR_RXE \<equiv> 0x04"
abbreviation (input) ISR_TXE :: int where "ISR_TXE \<equiv> 0x08"
abbreviation (input) ISR_OVW :: int where "ISR_OVW \<equiv> 0x10"
abbreviation (input) ISR_CNT :: int where "ISR_CNT \<equiv> 0x20"
abbreviation (input) ISR_RDC :: int where "ISR_RDC \<equiv> 0x40"
abbreviation (input) ISR_RST :: int where "ISR_RST \<equiv> 0x80"
abbreviation (input) NU_DCRMODE :: int where "NU_DCRMODE \<equiv> 0x48"
abbreviation (input) RCR_AM :: int where "RCR_AM \<equiv> 0x08"
abbreviation (input) RCR_MON :: int where "RCR_MON \<equiv> 0x20"
abbreviation (input) TCR_LOOP :: int where "TCR_LOOP \<equiv> 0x02"

definition NU_NTX :: nat where "NU_NTX = 1"
definition NU_TXPAGES :: int where "NU_TXPAGES = 6"
definition NU_MINFRAME :: int where "NU_MINFRAME = 60"
definition NU_MAXFRAME :: int where "NU_MAXFRAME = 1514"
definition NU_RXBURST :: nat where "NU_RXBURST = 8"
definition NU_NMC :: nat where "NU_NMC = 16"

lemmas nu_consts = NU_NTX_def NU_TXPAGES_def NU_MINFRAME_def NU_MAXFRAME_def NU_RXBURST_def NU_NMC_def

record nustats =
  ipackets :: int
  ierrors :: int
  opackets :: int
  oerrors :: int
  collisions :: int
  st_crc :: int
  st_fae :: int
  st_missed :: int
  st_ovw :: int
  st_rxbad :: int
  st_txfu :: int
  st_txabt :: int
  st_txcarrier :: int
  st_txowc :: int
  st_txtimeout :: int
  st_reinit :: int
  st_nomem :: int
  st_polls :: int
  st_initbad :: int
  st_crmiss :: int
  st_recover :: int
  st_cfgfix :: int
  st_txdead :: int

text \<open>
  \<open>struct nu_softc\<close>, with the log of accesses, \<open>nu_crmiss\<close>, the frames given to \<open>nu_input\<close> and how
  often \<open>nu_txdone\<close> was called. \<open>n_mc\<close> and \<open>n_mcref\<close>: the first \<open>nmc\<close> entries.
\<close>

record nust =
  n_log :: "acc list"
  n_crmiss :: int
  n_memlo :: int
  n_memhi :: int
  n_rxstart :: int
  n_rxstop :: int
  n_rxnext :: int
  n_txlen :: "int list"
  n_txcur :: int
  n_txfill :: nat
  n_txage :: int
  n_rtl :: bool
  n_ea :: "byte list"
  n_prom :: "byte list"
  n_rcr :: int
  n_imr :: int
  n_crcprobe :: bool
  n_nocrc :: bool
  n_mar :: "byte list"
  n_mc :: "byte list list"
  n_mcref :: "int list"
  n_running :: bool
  n_failrun :: int
  n_cfg :: "byte list"
  n_cfgok :: bool
  n_bad :: "int \<times> int \<times> int"
  n_txbuf :: "byte list"
  n_st :: nustats
  n_input :: "byte list list"
  n_done :: nat

definition nu_stat :: "(nustats \<Rightarrow> nustats) \<Rightarrow> nust \<Rightarrow> nust" where
  "nu_stat f st = st\<lparr>n_st := f (n_st st)\<rparr>"

definition nu_rd :: "chip \<Rightarrow> nat \<Rightarrow> nust \<Rightarrow> int \<times> nust" where
  "nu_rd c r st = (uint (c (n_log st) r), st\<lparr>n_log := n_log st @ [Rd r]\<rparr>)"

definition nu_wr :: "nat \<Rightarrow> int \<Rightarrow> nust \<Rightarrow> nust" where
  "nu_wr r v st = st\<lparr>n_log := n_log st @ [Wr r (v mod 256)]\<rparr>"

definition nu_delay :: "int \<Rightarrow> nust \<Rightarrow> nust" where
  "nu_delay us st = st\<lparr>n_log := n_log st @ [Delay us]\<rparr>"

fun nu_wrs :: "(nat \<times> int) list \<Rightarrow> nust \<Rightarrow> nust" where
  "nu_wrs [] st = st"
| "nu_wrs ((r, v) # ws) st = nu_wrs ws (nu_wr r v st)"

section \<open>Page selects and remote DMA\<close>

fun setcr_loop :: "chip \<Rightarrow> nat \<Rightarrow> int \<Rightarrow> nust \<Rightarrow> nust" where
  "setcr_loop c 0 v st = st"
| "setcr_loop c (Suc k) v st =
    (case nu_rd c NU_CR (nu_wr NU_CR v st) of (x, st1) \<Rightarrow>
      if (x XOR v) AND (CR_PAGE1 OR CR_PAGE2) = 0 then st1
      else setcr_loop c k v (st1\<lparr>n_crmiss := u32 (n_crmiss st1 + 1)\<rparr>))"

definition nu_setcr :: "chip \<Rightarrow> int \<Rightarrow> nust \<Rightarrow> nust" where
  "nu_setcr c v st = setcr_loop c 4 v st"

definition nu_page0 :: "chip \<Rightarrow> nust \<Rightarrow> nust" where
  "nu_page0 c st = nu_setcr c (CR_NODMA OR CR_STA) st"

definition nu_dma :: "chip \<Rightarrow> int \<Rightarrow> int \<Rightarrow> int \<Rightarrow> nust \<Rightarrow> nust" where
  "nu_dma c a n cmd st =
    nu_wrs [(NU_ISR, ISR_RDC), (NU_RBCR0, n), (NU_RBCR1, n div 256), (NU_RSAR0, a), (NU_RSAR1, a div 256),
      (NU_CR, cmd OR CR_STA)] (nu_setcr c (CR_NODMA OR CR_STA) st)"

fun dmadone_loop :: "chip \<Rightarrow> nat \<Rightarrow> nust \<Rightarrow> nust" where
  "dmadone_loop c 0 st = st"
| "dmadone_loop c (Suc k) st =
    (case nu_rd c NU_ISR st of (x, st1) \<Rightarrow> if x AND ISR_RDC \<noteq> 0 then st1 else dmadone_loop c k st1)"

definition nu_dmadone :: "chip \<Rightarrow> nust \<Rightarrow> nust" where
  "nu_dmadone c st = nu_wr NU_ISR ISR_RDC (dmadone_loop c 1000 st)"

fun nu_rddata :: "chip \<Rightarrow> nat \<Rightarrow> nust \<Rightarrow> byte list \<times> nust" where
  "nu_rddata c 0 st = ([], st)"
| "nu_rddata c (Suc n) st =
    (case nu_rd c NU_DATA st of (x, st1) \<Rightarrow>
      (case nu_rddata c n st1 of (bs, st2) \<Rightarrow> (word_of_int x # bs, st2)))"

definition nu_wrdata :: "byte list \<Rightarrow> nust \<Rightarrow> nust" where
  "nu_wrdata bs st = nu_wrs (map (\<lambda>b. (NU_DATA, uint b)) bs) st"

definition nu_rdmem :: "chip \<Rightarrow> int \<Rightarrow> int \<Rightarrow> nust \<Rightarrow> byte list \<times> nust" where
  "nu_rdmem c a n st =
    (if n \<le> 0 then ([], st)
     else (case nu_rddata c (nat n) (nu_dma c a n CR_RREAD st) of (bs, st1) \<Rightarrow> (bs, nu_dmadone c st1)))"

definition nu_wrmem :: "chip \<Rightarrow> int \<Rightarrow> byte list \<Rightarrow> nust \<Rightarrow> nust" where
  "nu_wrmem c a bs st =
    (if bs = [] then st
     else nu_dmadone c (nu_wrdata bs (nu_dma c a (int (length bs)) CR_RWRITE st)))"

text \<open>A ring read of \<open>n\<close> bytes at page \<open>p\<close>, offset \<open>off\<close>.\<close>

definition nu_rdring :: "chip \<Rightarrow> int \<Rightarrow> int \<Rightarrow> int \<Rightarrow> nust \<Rightarrow> byte list \<times> nust" where
  "nu_rdring c p off n st =
    (let top = n_rxstop st * 256;
         a0 = p * 256 + off;
         a = (if a0 \<ge> top then a0 - (top - n_rxstart st * 256) else a0);
         k = (if top - a > n then n else top - a)
     in (case nu_rdmem c a k st of (xs, st1) \<Rightarrow>
          (case nu_rdmem c (n_rxstart st * 256) (n - k) st1 of (ys, st2) \<Rightarrow> (xs @ ys, st2))))"

section \<open>Finding the chip and setting it up\<close>

fun reset_loop :: "chip \<Rightarrow> nat \<Rightarrow> nust \<Rightarrow> bool \<times> nust" where
  "reset_loop c 0 st = (False, st)"
| "reset_loop c (Suc k) st =
    (case nu_rd c NU_ISR st of (x, st1) \<Rightarrow>
      if x AND ISR_RST \<noteq> 0 then (True, st1) else reset_loop c k (nu_delay 1000 st1))"

definition nu_reset :: "chip \<Rightarrow> nust \<Rightarrow> bool \<times> nust" where
  "nu_reset c st =
    (case nu_rd c NU_RESET st of (x, st1) \<Rightarrow>
      (case reset_loop c 20 (nu_delay 20000 (nu_wr NU_RESET x st1)) of (ok, st2) \<Rightarrow>
        (ok, nu_wr NU_ISR 0xff st2)))"

definition test_pattern :: "int \<Rightarrow> byte list" where
  "test_pattern p = map (\<lambda>i. word_of_int ((p + int i * 37) XOR 0xa5)) [0..<8]"

definition nu_memok :: "chip \<Rightarrow> int \<Rightarrow> nust \<Rightarrow> bool \<times> nust" where
  "nu_memok c p st =
    (case nu_rdmem c (p * 256) 8 (nu_wrmem c (p * 256) (test_pattern p) st) of (r, st1) \<Rightarrow>
      (r = test_pattern p, st1))"

definition nu_memalias :: "chip \<Rightarrow> int \<Rightarrow> int \<Rightarrow> nust \<Rightarrow> bool \<times> nust" where
  "nu_memalias c a b st =
    (let w = map (\<lambda>x. x XOR 0xff) (test_pattern a)
     in (case nu_rdmem c (a * 256) 8 (nu_wrmem c (b * 256) w (nu_wrmem c (a * 256) (test_pattern a) st)) of
           (r, st1) \<Rightarrow> (r = w, st1)))"

fun rd_regs :: "chip \<Rightarrow> nat list \<Rightarrow> nust \<Rightarrow> int list \<times> nust" where
  "rd_regs c [] st = ([], st)"
| "rd_regs c (r # rs) st =
    (case nu_rd c r st of (x, st1) \<Rightarrow> (case rd_regs c rs st1 of (xs, st2) \<Rightarrow> (x # xs, st2)))"

text \<open>The scratch and counter test of \<open>nu_probe\<close>, after the reset.\<close>

definition probe_8390 :: "chip \<Rightarrow> nust \<Rightarrow> bool \<times> nust" where
  "probe_8390 c st =
    (case nu_rd c NU_CR st of (cr, st1) \<Rightarrow>
      if cr AND 0x3f \<noteq> CR_NODMA OR CR_STP then (False, st1)
      else (case nu_rd c (NU_MAR0 + 5) (nu_setcr c (CR_NODMA OR CR_STP OR CR_PAGE1) st1) of (m, st2) \<Rightarrow>
        (case rd_regs c [0x0d, 0x0d] (nu_setcr c (CR_NODMA OR CR_STP) (nu_wr (NU_MAR0 + 5) 0xff st2)) of (cs, st3) \<Rightarrow>
          if cs ! 1 \<noteq> 0 then
            (False, nu_setcr c (CR_NODMA OR CR_STP)
              (nu_wr (NU_MAR0 + 5) m (nu_setcr c (CR_NODMA OR CR_STP OR CR_PAGE1) st3)))
          else (True, st3))))"

text \<open>An RTL8019AS: its ID, read lazily as \<open>&&\<close> and \<open>||\<close> do, and its configuration, kept once.\<close>

definition probe_rtl :: "chip \<Rightarrow> nust \<Rightarrow> nust" where
  "probe_rtl c st =
    (case nu_rd c 0x0a st of (i0, st1) \<Rightarrow>
      let (rtl, st2) =
        (if i0 \<noteq> 0x50 then (False, st1)
         else (case nu_rd c 0x0b st1 of (a, s2) \<Rightarrow>
           if a = 0x70 then (True, s2)
           else (case nu_rd c 0x0b s2 of (b, s3) \<Rightarrow> (b = 0x43, s3))));
          st3 = st2\<lparr>n_rtl := rtl\<rparr>
      in if rtl \<and> \<not> n_cfgok st3 then
           (case rd_regs c [NU_CONFIG1, NU_CONFIG1 + 1, NU_CONFIG1 + 2]
               (nu_setcr c (CR_NODMA OR CR_STP OR CR_PAGE3) st3) of (xs, st4) \<Rightarrow>
             (nu_setcr c (CR_NODMA OR CR_STP) (st4\<lparr>n_cfg := map word_of_int xs\<rparr>))\<lparr>n_cfgok := True\<rparr>)
         else st3)"

text \<open>The memory there is: the pages, if any, and whether the chip has them twice.\<close>

definition probe_mem :: "chip \<Rightarrow> nust \<Rightarrow> bool \<times> nust" where
  "probe_mem c st =
    (case nu_memok c 0x40 st of (m40, st1) \<Rightarrow>
      let (hi, st2) = (if m40 then nu_memok c 0x7f st1 else (False, st1))
      in if hi then
           (case nu_rd c NU_RBCR0 (st2\<lparr>n_memlo := 0x40, n_memhi := 0x80\<rparr>) of (b0, st3) \<Rightarrow>
             let (sig, st4) = (if b0 = 0x50 then (case nu_rd c NU_RBCR1 st3 of (b1, s) \<Rightarrow> (b1 = 0x70, s))
                               else (False, st3));
                 (alias, st5) = (if sig then (True, st4) else nu_memalias c 0x40 0x60 st4)
             in (True, if alias then st5\<lparr>n_memhi := 0x60\<rparr> else st5))
         else
           (case nu_memok c 0x20 st2 of (m20, st3) \<Rightarrow>
             let (lo, st4) = (if m20 then nu_memok c 0x3f st3 else (False, st3))
             in if lo then (True, st4\<lparr>n_memlo := 0x20, n_memhi := 0x40\<rparr>) else (False, st4)))"

definition prom_addr :: "byte list \<Rightarrow> byte list" where
  "prom_addr pr =
    (let dbl = list_all (\<lambda>i. pr ! (2 * i) = pr ! (2 * i + 1)) [0..<16]
     in map (\<lambda>i. pr ! (if dbl then 2 * i else i)) [0..<6])"

definition nu_probe :: "chip \<Rightarrow> nust \<Rightarrow> bool \<times> nust" where
  "nu_probe c st =
    (case nu_rd c NU_CR st of (cr, st1) \<Rightarrow>
      if cr = 0xff then (False, st1)
      else (case nu_reset c st1 of (ok, st2) \<Rightarrow>
        if \<not> ok then (False, st2)
        else (case probe_8390 c st2 of (is8390, st3) \<Rightarrow>
          if \<not> is8390 then (False, st3)
          else (case probe_mem c (nu_wrs [(NU_DCR, NU_DCRMODE), (NU_RCR, RCR_MON), (NU_TCR, TCR_LOOP), (NU_IMR, 0),
                   (NU_ISR, 0xff)] (probe_rtl c st3)) of (mem, st4) \<Rightarrow>
            if \<not> mem then (False, st4)
            else (case nu_rdmem c 0 32 st4 of (pr, st5) \<Rightarrow>
              (True, st5\<lparr>n_prom := prom_addr pr, n_crcprobe := True, n_nocrc := False\<rparr>))))))"

definition nu_filter :: "chip \<Rightarrow> nust \<Rightarrow> nust" where
  "nu_filter c st =
    (let run = (if n_running st then CR_STA else CR_STP);
         st1 = nu_setcr c (CR_NODMA OR run OR CR_PAGE1) st;
         st2 = nu_wrs (map (\<lambda>i. (NU_PAR0 + i, uint (n_ea st ! i))) [0..<6]) st1;
         st3 = nu_wrs (map (\<lambda>i. (NU_MAR0 + i, uint (n_mar st ! i))) [0..<8]) st2
     in nu_wr NU_RCR (n_rcr st) (nu_setcr c (CR_NODMA OR run) st3))"

text \<open>\<open>nu_verify\<close>: registers compared under masks; the last that differs is kept.\<close>

fun verify_regs :: "chip \<Rightarrow> int \<Rightarrow> (nat \<times> int \<times> int) list \<Rightarrow> int \<times> nust \<Rightarrow> int \<times> nust" where
  "verify_regs c page [] acc = acc"
| "verify_regs c page ((r, mk, want) # rs) (bad, st) =
    (case nu_rd c r st of (x, st1) \<Rightarrow>
      verify_regs c page rs
        (if x AND mk \<noteq> want AND mk
         then (bad + 1, st1\<lparr>n_bad := (page * 256 + int r, want AND mk, x AND mk)\<rparr>) else (bad, st1)))"

definition nu_verify :: "chip \<Rightarrow> nust \<Rightarrow> int \<times> nust" where
  "nu_verify c st =
    (let st1 = nu_setcr c (CR_NODMA OR CR_STP OR CR_PAGE2) st;
         (b2, st2) = verify_regs c 2 [(0x01, 0xff, n_rxstart st), (0x02, 0xff, n_rxstop st), (0x0c, 0x3f, n_rcr st),
           (0x0d, 0x1f, TCR_LOOP), (0x0e, 0x7f, NU_DCRMODE), (0x0f, 0x7f, 0)] (0, st1);
         st3 = nu_setcr c (CR_NODMA OR CR_STP OR CR_PAGE1) st2;
         (b1, st4) = verify_regs c 1 (map (\<lambda>i. (NU_PAR0 + i, 0xff, uint (n_ea st ! i))) [0..<6] @
           [(NU_CURR, 0xff, n_rxstart st)]) (b2, st3);
         st5 = nu_setcr c (CR_NODMA OR CR_STP) st4
     in verify_regs c 0 [(NU_BNRY, 0xff, n_rxstop st - 1)] (b1, st5))"

definition init_sc :: "nust \<Rightarrow> nust" where
  "init_sc st = st\<lparr>n_rxnext := n_rxstart st, n_txlen := replicate NU_NTX 0, n_txcur := -1, n_txfill := 0, n_txage := 0\<rparr>"

definition nu_init :: "chip \<Rightarrow> nust \<Rightarrow> bool \<times> nust" where
  "nu_init c st =
    (case nu_reset c (st\<lparr>n_running := False\<rparr>) of (ok, st1) \<Rightarrow>
      if \<not> ok then (False, st1)
      else
        let st2 = nu_wrs [(NU_DCR, NU_DCRMODE), (NU_RBCR0, 0), (NU_RBCR1, 0), (NU_RCR, RCR_MON), (NU_TCR, TCR_LOOP)]
              (nu_setcr c (CR_NODMA OR CR_STP) st1);
            st3 = st2\<lparr>n_rxstart := n_memlo st2 + int NU_NTX * NU_TXPAGES, n_rxstop := n_memhi st2\<rparr>;
            st4 = nu_wrs [(NU_PSTART, n_rxstart st3), (NU_PSTOP, n_rxstop st3), (NU_BNRY, n_rxstop st3 - 1),
              (NU_ISR, 0xff), (NU_IMR, 0)] st3;
            st5 = nu_wr NU_CURR (n_rxstart st4) (nu_setcr c (CR_NODMA OR CR_STP OR CR_PAGE1) st4)
        in (case nu_verify c (nu_filter c (init_sc st5)) of (bad, st6) \<Rightarrow>
             if bad \<noteq> 0 then
               (False, nu_setcr c (CR_NODMA OR CR_STP) (nu_stat (\<lambda>s. s\<lparr>st_initbad := u32 (st_initbad s + 1)\<rparr>) st6))
             else
               let st7 = nu_setcr c (CR_NODMA OR CR_STA) st6
               in (True, (nu_wrs [(NU_TCR, 0), (NU_IMR, n_imr st7)] st7)\<lparr>n_running := True\<rparr>)))"

definition nu_recover :: "chip \<Rightarrow> nust \<Rightarrow> bool \<times> nust" where
  "nu_recover c st =
    (case nu_probe c ((nu_stat (\<lambda>s. s\<lparr>st_recover := u32 (st_recover s + 1)\<rparr>) st)\<lparr>n_running := False\<rparr>) of (found, st1) \<Rightarrow>
      if \<not> found then (False, st1)
      else if n_rtl st1 \<and> n_cfgok st1 then
        (case rd_regs c [NU_CONFIG1, NU_CONFIG1 + 1, NU_CONFIG1 + 2]
            (nu_setcr c (CR_NODMA OR CR_STP OR CR_PAGE3) st1) of (xs, st2) \<Rightarrow>
          let fixed = length (filter (\<lambda>i. xs ! i \<noteq> uint (n_cfg st2 ! i)) [0..<3]);
              st3 = (if fixed \<noteq> 0 then
                       nu_stat (\<lambda>s. s\<lparr>st_cfgfix := u32 (st_cfgfix s + int fixed)\<rparr>)
                         (nu_wrs ((NU_9346CR, 0xc0) # map (\<lambda>i. (NU_CONFIG1 + i, uint (n_cfg st2 ! i))) [0..<3] @
                           [(NU_9346CR, 0)]) st2)
                     else st2)
          in nu_init c (nu_setcr c (CR_NODMA OR CR_STP) st3))
      else nu_init c st1)"

definition nu_stop :: "chip \<Rightarrow> nust \<Rightarrow> nust" where
  "nu_stop c st = nu_wrs [(NU_IMR, 0), (NU_ISR, 0xff)] (nu_setcr c (CR_NODMA OR CR_STP) (st\<lparr>n_running := False\<rparr>))"

section \<open>Transmit\<close>

definition nu_kick :: "chip \<Rightarrow> nat \<Rightarrow> nust \<Rightarrow> nust" where
  "nu_kick c b st =
    (let n = n_txlen st ! b;
         st1 = nu_page0 c (st\<lparr>n_txcur := int b, n_txage := 0\<rparr>)
     in nu_wrs [(NU_TPSR, n_memlo st1 + int b * NU_TXPAGES), (NU_TBCR0, n), (NU_TBCR1, n div 256),
          (NU_CR, CR_NODMA OR CR_STA OR CR_TXP)] st1)"

text \<open>The counters a finished transmit's status \<open>t\<close> adds to.\<close>

definition tx_count :: "int \<Rightarrow> nustats \<Rightarrow> nustats" where
  "tx_count t s =
    (let s1 = (if t AND 0x01 \<noteq> 0 then s\<lparr>opackets := u32 (opackets s + 1)\<rparr> else s\<lparr>oerrors := u32 (oerrors s + 1)\<rparr>);
         s2 = (if t AND 0x04 \<noteq> 0 then s1\<lparr>collisions := u32 (collisions s1 + 1)\<rparr> else s1);
         s3 = (if t AND 0x08 \<noteq> 0 then s2\<lparr>st_txabt := u32 (st_txabt s2 + 1)\<rparr> else s2);
         s4 = (if t AND 0x10 \<noteq> 0 then s3\<lparr>st_txcarrier := u32 (st_txcarrier s3 + 1)\<rparr> else s3);
         s5 = (if t AND 0x20 \<noteq> 0 then s4\<lparr>st_txfu := u32 (st_txfu s4 + 1)\<rparr> else s4)
     in if t AND 0x80 \<noteq> 0 then s5\<lparr>st_txowc := u32 (st_txowc s5 + 1)\<rparr> else s5)"

definition nu_txreclaim :: "chip \<Rightarrow> int \<Rightarrow> nust \<Rightarrow> bool \<times> nust" where
  "nu_txreclaim c isr st =
    (if n_txcur st < 0 \<or> isr AND (ISR_PTX OR ISR_TXE) = 0 then (False, st)
     else (case nu_rd c NU_TSR (nu_wr NU_ISR (isr AND (ISR_PTX OR ISR_TXE)) st) of (t, st1) \<Rightarrow>
       let b = nat (n_txcur st1);
           st2 = (nu_stat (tx_count t) st1)\<lparr>n_txlen := (n_txlen st1)[b := 0], n_txcur := -1\<rparr>;
           b' = (b + 1) mod NU_NTX
       in (True, if n_txlen st2 ! b' \<noteq> 0 then nu_kick c b' st2 else st2)))"

definition nu_txroom :: "chip \<Rightarrow> nust \<Rightarrow> bool \<times> nust" where
  "nu_txroom c st =
    (let st1 = (if n_txlen st ! n_txfill st \<noteq> 0
                then (case nu_rd c NU_ISR st of (isr, s) \<Rightarrow> snd (nu_txreclaim c isr s)) else st)
     in (n_txlen st1 ! n_txfill st1 = 0, st1))"

text \<open>\<open>None\<close>: more than the buffer holds.\<close>

definition nu_txstart :: "chip \<Rightarrow> nat \<Rightarrow> nust \<Rightarrow> nust option" where
  "nu_txstart c len st =
    (let b = n_txfill st;
         pad = nat NU_MINFRAME - len;
         buf = take len (n_txbuf st) @ replicate pad 0 @ drop (len + pad) (n_txbuf st);
         n = len + pad;
         st1 = nu_wrmem c ((n_memlo st + int b * NU_TXPAGES) * 256) (take n buf) (st\<lparr>n_txbuf := buf\<rparr>);
         st2 = st1\<lparr>n_txlen := (n_txlen st1)[b := int n], n_txfill := (b + 1) mod NU_NTX\<rparr>
     in if len > nat NU_MAXFRAME then None
        else Some (if n_txcur st2 < 0 then nu_kick c b st2 else st2))"

section \<open>Receive\<close>

definition nu_curr :: "chip \<Rightarrow> nust \<Rightarrow> int \<times> nust" where
  "nu_curr c st =
    (case nu_rd c NU_CURR (nu_setcr c (CR_NODMA OR CR_STA OR CR_PAGE1) st) of (x, st1) \<Rightarrow> (x, nu_page0 c st1))"

definition nu_setbnry :: "nust \<Rightarrow> nust" where
  "nu_setbnry st =
    nu_wr NU_BNRY ((if n_rxnext st = n_rxstart st then n_rxstop st else n_rxnext st) - 1) st"

text \<open>
  The header \<open>h\<close> of the frame at \<open>rxnext\<close>: the next page and the count, or \<open>None\<close> where the ring is
  lost. (A negative dividend only occurs where the next page is out of the ring anyway.)
\<close>

definition rx_header_ok :: "byte list \<Rightarrow> nust \<Rightarrow> (int \<times> int) option" where
  "rx_header_ok h st =
    (let ring = n_rxstop st - n_rxstart st;
         nxt = uint (h ! 1);
         cnt = uint (h ! 2) + 256 * uint (h ! 3);
         pages = (cnt + 255) div 256;
         dist = (nxt - n_rxnext st + ring) mod ring
     in if nxt < n_rxstart st \<or> nxt \<ge> n_rxstop st \<or> pages = 0 \<or> (dist \<noteq> pages \<and> dist \<noteq> pages + 1)
        then None else Some (nxt, cnt))"

text \<open>A frame of \<open>cnt\<close> bytes with its header: counted, or read and given to \<open>nu_input\<close>.\<close>

definition rx_frame :: "chip \<Rightarrow> byte list \<Rightarrow> int \<Rightarrow> nust \<Rightarrow> nust option" where
  "rx_frame c h cnt st =
    (let st1 = (if n_crcprobe st \<and> cnt \<ge> 4 + NU_MINFRAME \<and> cnt < 4 + NU_MINFRAME + 4
                then st\<lparr>n_nocrc := True\<rparr> else st);
         crc = (if n_nocrc st1 then 0 else 4)
     in if cnt < 4 + NU_MINFRAME + crc \<or> cnt > 4 + NU_MAXFRAME + crc
        then Some (nu_stat (\<lambda>s. s\<lparr>ierrors := u32 (ierrors s + 1)\<rparr>) st1)
        else if h ! 0 AND 0x01 \<noteq> 0 then
          if cnt - 4 > NU_MAXFRAME + 4 then None
          else (case nu_rdring c (n_rxnext st1) 4 (cnt - 4) st1 of (buf, st2) \<Rightarrow>
            Some ((nu_stat (\<lambda>s. s\<lparr>ipackets := u32 (ipackets s + 1)\<rparr>) st2)
              \<lparr>n_input := n_input st2 @ [take (nat (cnt - 4 - crc)) buf]\<rparr>))
        else Some (nu_stat (\<lambda>s. s\<lparr>ierrors := u32 (ierrors s + 1)\<rparr>) st1))"

fun rxdrain_loop :: "chip \<Rightarrow> nat \<Rightarrow> int \<Rightarrow> nust \<Rightarrow> (int \<times> nust) option" where
  "rxdrain_loop c 0 n st = Some (n, st)"
| "rxdrain_loop c (Suc k) n st =
    (case nu_curr c st of (cur, st1) \<Rightarrow>
      if cur < n_rxstart st1 \<or> cur \<ge> n_rxstop st1 then Some (-1, st1)
      else if cur = n_rxnext st1 then Some (n, st1)
      else (case nu_rdring c (n_rxnext st1) 0 4 st1 of (h, st2) \<Rightarrow>
        (case rx_header_ok h st2 of
           None \<Rightarrow>
             Some (n, nu_setbnry ((nu_stat (\<lambda>s. s\<lparr>st_rxbad := u32 (st_rxbad s + 1)\<rparr>) st2)\<lparr>n_rxnext := cur\<rparr>))
         | Some (nxt, cnt) \<Rightarrow>
             (case rx_frame c h cnt st2 of
                None \<Rightarrow> None
              | Some st3 \<Rightarrow> rxdrain_loop c k (n + 1) (nu_setbnry (st3\<lparr>n_rxnext := nxt\<rparr>))))))"

definition nu_rxdrain :: "chip \<Rightarrow> nust \<Rightarrow> (int \<times> nust) option" where
  "nu_rxdrain c st = rxdrain_loop c NU_RXBURST 0 st"

definition nu_overflow :: "chip \<Rightarrow> nust \<Rightarrow> (int \<times> nust) option" where
  "nu_overflow c st =
    (case nu_rd c NU_CR (nu_stat (\<lambda>s. s\<lparr>st_ovw := u32 (st_ovw s + 1)\<rparr>) st) of (cr, st1) \<Rightarrow>
      let txp = cr AND CR_TXP \<noteq> 0;
          st2 = nu_wrs [(NU_RBCR0, 0), (NU_RBCR1, 0)] (nu_delay 2000 (nu_setcr c (CR_NODMA OR CR_STP) st1));
          (isr, st3) = (if txp then nu_rd c NU_ISR st2 else (0, st2));
          resend = (txp \<and> isr AND (ISR_PTX OR ISR_TXE) = 0);
          st4 = nu_setcr c (CR_NODMA OR CR_STA) (nu_wr NU_TCR TCR_LOOP st3)
      in (case nu_rxdrain c st4 of
            None \<Rightarrow> None
          | Some (r, st5) \<Rightarrow>
            if r < 0 then Some (-1, nu_stat (\<lambda>s. s\<lparr>st_rxbad := u32 (st_rxbad s + 1)\<rparr>) st5)
            else
              let st6 = nu_wrs [(NU_ISR, ISR_OVW), (NU_TCR, 0)] st5
              in Some (r, if resend then nu_wr NU_CR (CR_NODMA OR CR_STA OR CR_TXP) st6 else st6)))"

text \<open>The end of a poll that gives up: the caller inits the chip again.\<close>

definition poll_reinit :: "nust \<Rightarrow> nust" where
  "poll_reinit st =
    (nu_stat (\<lambda>s. s\<lparr>st_reinit := u32 (st_reinit s + 1)\<rparr>) st)\<lparr>n_running := False, n_done := Suc (n_done st)\<rparr>"

text \<open>The receive half of a poll: \<open>None\<close> inside for a ring that is lost.\<close>

definition poll_rx :: "chip \<Rightarrow> int \<Rightarrow> nust \<Rightarrow> (bool option \<times> nust) option" where
  "poll_rx c isr st =
    (if isr AND ISR_OVW \<noteq> 0 then
       map_option (\<lambda>(r, st1). (if r < 0 then None else Some True, st1)) (nu_overflow c st)
     else
       map_option (\<lambda>(r, st1). (if r < 0 then None else Some (r > 0), st1))
         (nu_rxdrain c (if isr AND (ISR_PRX OR ISR_RXE) \<noteq> 0
            then nu_wr NU_ISR (isr AND (ISR_PRX OR ISR_RXE)) st else st)))"

definition poll_counters :: "chip \<Rightarrow> int \<Rightarrow> nust \<Rightarrow> nust" where
  "poll_counters c isr st =
    (if isr AND ISR_CNT \<noteq> 0 then
       (case rd_regs c [0x0d, 0x0e, 0x0f] st of (xs, st1) \<Rightarrow>
         nu_wr NU_ISR ISR_CNT (nu_stat (\<lambda>s. s\<lparr>st_fae := u32 (st_fae s + xs ! 0), st_crc := u32 (st_crc s + xs ! 1),
           st_missed := u32 (st_missed s + xs ! 2)\<rparr>) st1))
     else st)"

definition poll_tx :: "chip \<Rightarrow> bool \<Rightarrow> nust \<Rightarrow> bool \<times> nust" where
  "poll_tx c work st =
    (case nu_rd c NU_ISR st of (isr, st1) \<Rightarrow>
      (case nu_txreclaim c isr st1 of
         (True, st2) \<Rightarrow> (True, st2\<lparr>n_done := Suc (n_done st2)\<rparr>)
       | (False, st2) \<Rightarrow>
         if n_txcur st2 \<ge> 0 then
           let st3 = st2\<lparr>n_txage := n_txage st2 + 1\<rparr>
           in if n_txage st3 > 120 then
                (False, poll_reinit (nu_stat (\<lambda>s. s\<lparr>st_txtimeout := u32 (st_txtimeout s + 1)\<rparr>) st3))
              else (work, st3)
         else (work, st2)))"

definition nu_poll :: "chip \<Rightarrow> nust \<Rightarrow> (bool \<times> nust) option" where
  "nu_poll c st =
    (if \<not> n_running st then Some (False, st)
     else (case nu_rd c NU_CR (nu_stat (\<lambda>s. s\<lparr>st_polls := u32 (st_polls s + 1), st_crmiss := n_crmiss st\<rparr>) st) of (cr, st1) \<Rightarrow>
       if cr AND (CR_PAGE1 OR CR_PAGE2 OR CR_STP OR CR_STA) \<noteq> CR_STA then Some (False, poll_reinit st1)
       else (case nu_rd c NU_ISR st1 of (isr, st2) \<Rightarrow>
         (case poll_rx c isr st2 of
            None \<Rightarrow> None
          | Some (None, st3) \<Rightarrow> Some (False, poll_reinit st3)
          | Some (Some work, st3) \<Rightarrow> Some (poll_tx c work (poll_counters c isr st3))))))"

section \<open>Multicast\<close>

text \<open>One bit of the Ethernet CRC, most significant first, and a byte, from its lowest bit.\<close>

definition crc_step :: "32 word \<Rightarrow> bool \<Rightarrow> 32 word" where
  "crc_step crc b = (if bit crc 31 \<noteq> b then push_bit 1 crc XOR 0x04c11db7 else push_bit 1 crc)"

definition crc_byte :: "byte \<Rightarrow> 32 word \<Rightarrow> 32 word" where
  "crc_byte x crc = fold (\<lambda>j s. crc_step s (bit x j)) [0..<8] crc"

definition nu_hash :: "byte list \<Rightarrow> nat" where
  "nu_hash a = unat (drop_bit 26 (fold crc_byte (take 6 a) 0xffffffff) AND (0x3f :: 32 word))"

definition mar_bits :: "byte list list \<Rightarrow> byte list" where
  "mar_bits mc =
    fold (\<lambda>a mar. mar[nu_hash a div 8 := mar ! (nu_hash a div 8) OR push_bit (nu_hash a mod 8) 1]) mc (replicate 8 0)"

definition nu_mcload :: "chip \<Rightarrow> nust \<Rightarrow> nust" where
  "nu_mcload c st =
    nu_filter c (st\<lparr>n_mar := mar_bits (n_mc st),
      n_rcr := (if n_mc st \<noteq> [] then n_rcr st OR RCR_AM else n_rcr st AND NOT RCR_AM)\<rparr>)"

fun mcfind :: "byte list list \<Rightarrow> byte list \<Rightarrow> nat option" where
  "mcfind [] a = None"
| "mcfind (x # xs) a = (if take 6 x = take 6 a then Some 0 else map_option Suc (mcfind xs a))"

definition nu_addmc :: "chip \<Rightarrow> byte list \<Rightarrow> nust \<Rightarrow> bool \<times> nust" where
  "nu_addmc c a st =
    (case mcfind (n_mc st) a of
       Some i \<Rightarrow> (True, st\<lparr>n_mcref := (n_mcref st)[i := s32 (n_mcref st ! i + 1)]\<rparr>)
     | None \<Rightarrow>
       if length (n_mc st) = NU_NMC then (False, st)
       else (True, nu_mcload c (st\<lparr>n_mc := n_mc st @ [take 6 a], n_mcref := n_mcref st @ [1]\<rparr>)))"

definition nu_delmc :: "chip \<Rightarrow> byte list \<Rightarrow> nust \<Rightarrow> bool \<times> nust" where
  "nu_delmc c a st =
    (case mcfind (n_mc st) a of
       None \<Rightarrow> (False, st)
     | Some i \<Rightarrow>
       let st1 = st\<lparr>n_mcref := (n_mcref st)[i := s32 (n_mcref st ! i - 1)]\<rparr>
       in if n_mcref st1 ! i > 0 then (True, st1)
          else (True, nu_mcload c (st1\<lparr>n_mc := take i (n_mc st1) @ drop (Suc i) (n_mc st1),
                 n_mcref := take i (n_mcref st1) @ drop (Suc i) (n_mcref st1)\<rparr>)))"

end
