(* ===== verification/NuDlpi.thy ===== *)
theory NuDlpi
  imports Streams NuChip
begin

unbundle bit_operations_syntax

text \<open>
  The System V driver \<open>driver-nu/nu.c\<close> above the chip core: setting the card going, queueing and
  sending, receiving, the outage handling, DLPI, the ioctls and the STREAMS entry points, and the
  driver as a transition system. The state is the driver's globals with the queues of its
  streams; what goes up a stream or to the console is a log. Frames the chip core receives in a
  poll are handed up after it, in their order: nothing of the poll depends on it. \<open>None\<close>: a
  buffer is left or a null pointer followed.
\<close>

section \<open>State and environment\<close>

definition NU_NMINOR :: nat where "NU_NMINOR = 8"
definition NU_RECOVER_EVERY :: int where "NU_RECOVER_EVERY = 3"

datatype numsg =
    MsgNoCard | MsgBadSetup int int int int | MsgStuck | MsgBack int int int | MsgFound bool int "byte list" int

record numode =
  m_rbase :: int
  m_wbase :: int
  m_dly :: int
  m_nocache :: bool
  m_pad :: int

record nud =
  v_sc :: nust
  v_up :: bool
  v_tid :: bool
  v_pollq :: "nat option"
  v_retry :: int
  v_txdrop :: int
  v_min :: "enminor list"
  v_running :: bool
  v_enaddr :: "byte list"
  v_ifstat :: "int list"
  v_wqcnt :: nat
  v_nextmin :: nat
  v_perms :: int
  v_mode :: numode
  v_pad :: bool
  v_said :: int
  v_qptr :: "nat \<Rightarrow> nat option"
  v_wq :: "nat \<Rightarrow> mblk list"
  v_sent :: "(nat \<times> mblk) list"
  v_allocs :: nat
  v_enabled :: "nat list"
  v_lbolt :: int
  v_calibs :: nat
  v_cons :: "numsg list"
  v_ifs :: "nat list"

text \<open>
  \<open>e_alloc k\<close>: the \<open>k\<close>-th \<open>allocb\<close> or \<open>copymsg\<close> succeeds. \<open>e_canput q k\<close>: stream \<open>q\<close> takes the
  \<open>k\<close>-th message. \<open>e_lb n k\<close>: the \<open>k\<close>-th reading of \<open>lbolt\<close> in calibration \<open>n\<close>. \<open>e_lim b\<close>: the
  size of the buffer an ioctl's data block \<open>b\<close> is in. \<open>e_errack\<close> and \<open>e_uderr\<close>: the sizes of
  \<open>dl_error_ack_t\<close> and \<open>dl_uderror_ind_t\<close>.
\<close>

record nenv =
  e_card :: chip
  e_alloc :: "nat \<Rightarrow> bool"
  e_canput :: "nat \<Rightarrow> nat \<Rightarrow> bool"
  e_lb :: "nat \<Rightarrow> nat \<Rightarrow> int"
  e_lim :: "byte list \<Rightarrow> nat"
  e_hz :: int
  e_errack :: nat
  e_uderr :: nat

definition allocb_nu :: "nenv \<Rightarrow> nud \<Rightarrow> bool \<times> nud" where
  "allocb_nu env st = (e_alloc env (v_allocs st), st\<lparr>v_allocs := Suc (v_allocs st)\<rparr>)"

definition putnext_nu :: "nat \<Rightarrow> mblk \<Rightarrow> nud \<Rightarrow> nud" where
  "putnext_nu q mp st = st\<lparr>v_sent := v_sent st @ [(q, mp)]\<rparr>"

definition cmn_err_nu :: "numsg \<Rightarrow> nud \<Rightarrow> nud" where
  "cmn_err_nu m st = st\<lparr>v_cons := v_cons st @ [m]\<rparr>"

definition find_min_nu :: "(enminor \<Rightarrow> bool) \<Rightarrow> enminor list \<Rightarrow> nat option" where
  "find_min_nu P ms = List.find (\<lambda>i. P (ms ! i)) [0..<NU_NMINOR]"

text \<open>\<open>if (nu_pollq) qenable(nu_pollq)\<close>\<close>

definition qenable_poll :: "nud \<Rightarrow> nud" where
  "qenable_poll st = (case v_pollq st of None \<Rightarrow> st | Some q \<Rightarrow> st\<lparr>v_enabled := v_enabled st @ [q]\<rparr>)"

section \<open>Sending up\<close>

definition en_send_up_nu :: "nenv \<Rightarrow> nat \<Rightarrow> mblk \<Rightarrow> nud \<Rightarrow> nud" where
  "en_send_up_nu env q mp st = (if e_canput env q (length (v_sent st)) then putnext_nu q mp st else st)"

definition en_mkind_nu :: "nenv \<Rightarrow> byte list list \<Rightarrow> byte list \<Rightarrow> byte list \<Rightarrow> nud \<Rightarrow> mblk option \<times> nud" where
  "en_mkind_nu env cont dst src st =
    (case allocb_nu env st of
       (False, st) \<Rightarrow> (None, st)
     | (True, st) \<Rightarrow>
       (Some \<lparr>mb_type = M_PROTO, mb_prim = DL_UNITDATA_IND dst src, mb_bufsz = 36, mb_own = True,
              mb_data = dst @ src, mb_cont = cont\<rparr>, st))"

text \<open>Frames nobody is bound to are dropped quietly.\<close>

definition en_rproc_nu :: "nenv \<Rightarrow> byte list \<Rightarrow> nud \<Rightarrow> nud" where
  "en_rproc_nu env f st =
    (case find_min_nu (\<lambda>m. min_sap m = g16 f 12 \<and> min_state m = DL_IDLE) (v_min st) of
       None \<Rightarrow> st
     | Some i \<Rightarrow>
       (case min_rdq (v_min st ! i) of
          None \<Rightarrow> st
        | Some q \<Rightarrow>
          (case en_mkind_nu env [drop 14 f] (take 6 f) (take 6 (drop 6 f)) st of
             (None, st) \<Rightarrow> st
           | (Some ip, st) \<Rightarrow> en_send_up_nu env q ip st)))"

definition nu_input :: "nenv \<Rightarrow> byte list \<Rightarrow> nud \<Rightarrow> nud" where
  "nu_input env f st =
    (if length f < 14 then st
     else (case allocb_nu env st of
       (False, st) \<Rightarrow> st\<lparr>v_sc := nu_stat (\<lambda>s. s\<lparr>st_nomem := u32 (st_nomem s + 1)\<rparr>) (v_sc st)\<rparr>
     | (True, st) \<Rightarrow> en_rproc_nu env f st))"

text \<open>A poll of the chip, and its frames given to \<open>nu_input\<close>.\<close>

definition poll_nu :: "nenv \<Rightarrow> nud \<Rightarrow> (bool \<times> nud) option" where
  "poll_nu env st =
    (case nu_poll (e_card env) ((v_sc st)\<lparr>n_input := []\<rparr>) of
       None \<Rightarrow> None
     | Some (work, sc) \<Rightarrow> Some (work, fold (nu_input env) (n_input sc) (st\<lparr>v_sc := sc\<rparr>)))"

section \<open>Sending\<close>

text \<open>The blocks of a message into \<open>txbuf\<close>: the length, -1 when they are too long, and the buffer.\<close>

fun nu_copy :: "byte list list \<Rightarrow> nat \<Rightarrow> byte list \<Rightarrow> int \<times> byte list" where
  "nu_copy [] len tx = (int len, tx)"
| "nu_copy (b # bs) len tx =
    (if b = [] then nu_copy bs len tx
     else if int (len + length b) > NU_MAXFRAME then (-1, tx)
     else nu_copy bs (len + length b) (put_at tx len b))"

definition nu_xmit :: "nenv \<Rightarrow> mblk \<Rightarrow> nud \<Rightarrow> nud option" where
  "nu_xmit env mp st =
    (case nu_copy (mb_data mp # mb_cont mp) 0 (n_txbuf (v_sc st)) of
       (len, tx) \<Rightarrow>
         let sc = (v_sc st)\<lparr>n_txbuf := tx\<rparr>
         in if len < 14 then Some (st\<lparr>v_sc := sc, v_txdrop := u32 (v_txdrop st + 1)\<rparr>)
            else map_option (\<lambda>s. st\<lparr>v_sc := s\<rparr>) (nu_txstart (e_card env) (nat len) sc))"

fun send_loop :: "nenv \<Rightarrow> nat \<Rightarrow> bool \<Rightarrow> nud \<Rightarrow> (bool \<times> nud) option" where
  "send_loop env 0 sent st = Some (sent, st)"
| "send_loop env (Suc t) sent st =
    (if v_wqcnt st = 0 then Some (sent, st)
     else
       let m = (if Suc (v_nextmin st) \<ge> NU_NMINOR then 0 else Suc (v_nextmin st));
           st1 = st\<lparr>v_nextmin := m\<rparr>
       in (case min_rdq (v_min st1 ! m) of
             None \<Rightarrow> send_loop env t sent st1
           | Some q \<Rightarrow>
             (case v_wq st1 q of
                [] \<Rightarrow> send_loop env t sent st1
              | mp # rest \<Rightarrow>
                (case nu_txroom (e_card env) (v_sc st1) of
                   (False, sc) \<Rightarrow> Some (sent, st1\<lparr>v_sc := sc\<rparr>)
                 | (True, sc) \<Rightarrow>
                   (case nu_xmit env mp (st1\<lparr>v_sc := sc, v_wq := (v_wq st1)(q := rest), v_wqcnt := v_wqcnt st1 - 1\<rparr>) of
                      None \<Rightarrow> None
                    | Some st2 \<Rightarrow> send_loop env t True st2)))))"

definition nu_send :: "nenv \<Rightarrow> nud \<Rightarrow> (bool \<times> nud) option" where
  "nu_send env st = (if \<not> n_running (v_sc st) then Some (False, st) else send_loop env (2 * NU_NMINOR) False st)"

definition nu_ifstats :: "nud \<Rightarrow> nud" where
  "nu_ifstats st =
    (let s = n_st (v_sc st)
     in st\<lparr>v_ifstat := [ipackets s, u32 (ierrors s + st_rxbad s + st_ovw s + st_nomem s), opackets s,
          u32 (oerrors s + st_txtimeout s + st_txdead s + v_txdrop st), collisions s]\<rparr>)"

definition nu_tick :: "nud \<Rightarrow> nud" where
  "nu_tick st = (if \<not> v_up st then st\<lparr>v_tid := False\<rparr> else (qenable_poll st)\<lparr>v_tid := True\<rparr>)"

section \<open>Outages and setting the card going\<close>

definition nu_initfail :: "nud \<Rightarrow> nud" where
  "nu_initfail st =
    (let st1 = st\<lparr>v_sc := (v_sc st)\<lparr>n_failrun := s32 (n_failrun (v_sc st) + 1)\<rparr>, v_said := s32 (v_said st + 1)\<rparr>
     in if v_said st \<noteq> 0 then st1
        else cmn_err_nu (if st_initbad (n_st (v_sc st)) \<noteq> 0
          then (case n_bad (v_sc st) of (r, want, got) \<Rightarrow> MsgBadSetup (drop_bit 8 r) (r AND 0xff) got want)
          else MsgStuck) st1)"

definition nu_initok :: "nud \<Rightarrow> nud" where
  "nu_initok st =
    (let s = n_st (v_sc st);
         st1 = (if n_failrun (v_sc st) \<noteq> 0
                then cmn_err_nu (MsgBack (n_failrun (v_sc st)) (st_recover s) (st_cfgfix s)) st else st)
     in st1\<lparr>v_sc := (v_sc st1)\<lparr>n_failrun := 0\<rparr>, v_said := 0\<rparr>)"

text \<open>
  \<open>nu_calib\<close>: the waits of the two loops, \<open>lb k\<close> the \<open>k\<close>-th reading of the clock, \<open>bound\<close> the
  turns left. A result \<open>None\<close>: the bound ended it.
\<close>

fun calib_edge :: "nat \<Rightarrow> (nat \<Rightarrow> int) \<Rightarrow> nat \<Rightarrow> int \<Rightarrow> (nat \<times> nat) option" where
  "calib_edge 0 lb k t = None"
| "calib_edge (Suc b) lb k t =
    (if lb k = t then (if b = 0 then None else calib_edge b lb (Suc k) t) else Some (Suc k, Suc b))"

fun calib_count :: "nat \<Rightarrow> (nat \<Rightarrow> int) \<Rightarrow> nat \<Rightarrow> int \<Rightarrow> int \<Rightarrow> int option" where
  "calib_count b lb k t n =
    (if s32 (lb k - t) < 2 then
       (case b of 0 \<Rightarrow> None | Suc b' \<Rightarrow> if b' = 0 then None else calib_count b' lb (Suc k) t (n + 1))
     else Some n)"

declare calib_count.simps [simp del]

definition CALIB_BOUND :: nat where "CALIB_BOUND = 4000000"

definition nu_calib :: "int \<Rightarrow> (nat \<Rightarrow> int) \<Rightarrow> int \<Rightarrow> int" where
  "nu_calib hz lb perms =
    (case calib_edge CALIB_BOUND lb 1 (lb 0) of
       None \<Rightarrow> perms
     | Some (k, b) \<Rightarrow>
       (case calib_count b lb (Suc k) (lb k) 0 of
          None \<Rightarrow> perms
        | Some n \<Rightarrow> s32 (cdiv (s32 (n * hz)) 2000 + cdiv (s32 (n * hz)) 8000)))"

definition hex_digit :: "int \<Rightarrow> byte" where
  "hex_digit n = bytes_of ''0123456789abcdef'' ! nat n"

definition mac_text :: "byte list \<Rightarrow> byte list" where
  "mac_text ea = concat (map (\<lambda>i. [hex_digit (uint (ea ! i) div 16), hex_digit (uint (ea ! i) mod 16)] @
     (if i < 5 then bytes_of '':'' else [])) [0..<6])"

definition nu_linit :: "nenv \<Rightarrow> nud \<Rightarrow> nud" where
  "nu_linit env st =
    (if v_up st then st
     else
       let st1 = st\<lparr>v_perms := nu_calib (e_hz env) (e_lb env (v_calibs st)) (v_perms st), v_calibs := Suc (v_calibs st)\<rparr>
       in (case nu_probe (e_card env) (v_sc st1) of
             (False, sc) \<Rightarrow> cmn_err_nu MsgNoCard (st1\<lparr>v_sc := sc\<rparr>)
           | (True, sc) \<Rightarrow>
             (case nu_init (e_card env) (sc\<lparr>n_ea := n_prom sc, n_rcr := 0x04, n_imr := 0\<rparr>) of
                (ok, sc1) \<Rightarrow>
                  let st2 = st1\<lparr>v_sc := sc1, v_enaddr := n_prom sc\<rparr>;
                      st3 = (if ok then nu_initok st2 else nu_initfail st2);
                      st4 = cmn_err_nu (MsgFound (n_rtl (v_sc st3)) (cdiv (n_memhi (v_sc st3) - n_memlo (v_sc st3)) 4)
                        (mac_text (v_enaddr st3)) (v_perms st3)) st3
                  in st4\<lparr>v_running := True, v_up := True, v_retry := v_lbolt st4, v_tid := True\<rparr>)))"

section \<open>Replies\<close>

definition en_reuse_nu :: "nenv \<Rightarrow> mblk \<Rightarrow> nat \<Rightarrow> nud \<Rightarrow> mblk option \<times> nud" where
  "en_reuse_nu env mp sz st =
    (if mb_own mp \<and> mb_bufsz mp \<ge> sz then
       (Some (mp\<lparr>mb_data := [], mb_cont := [], mb_type := M_PCPROTO\<rparr>), st)
     else (case allocb_nu env st of
       (False, st) \<Rightarrow> (None, st)
     | (True, st) \<Rightarrow>
       (Some \<lparr>mb_type = M_PCPROTO, mb_prim = NoPrim, mb_bufsz = sz, mb_own = True,
              mb_data = [], mb_cont = []\<rparr>, st)))"

text \<open>\<open>enomem\<close>: the unix error is \<open>ENOMEM\<close>, otherwise 0.\<close>

definition en_error_ack_nu :: "nenv \<Rightarrow> nat \<Rightarrow> mblk \<Rightarrow> dlprim \<Rightarrow> dlerr \<Rightarrow> bool \<Rightarrow> nud \<Rightarrow> nud" where
  "en_error_ack_nu env q mp prim dlerr enomem st =
    (case en_reuse_nu env mp (e_errack env) st of
       (None, st) \<Rightarrow> st
     | (Some np, st) \<Rightarrow> putnext_nu q (np\<lparr>mb_prim := DL_ERROR_ACK prim dlerr enomem\<rparr>) st)"

text \<open>The error is written over the request, whatever the size of its block.\<close>

definition en_uderror_ind_nu :: "nenv \<Rightarrow> nat \<Rightarrow> mblk \<Rightarrow> dlerr \<Rightarrow> nud \<Rightarrow> nud option" where
  "en_uderror_ind_nu env q mp err st =
    (if mb_bufsz mp < e_uderr env then None
     else Some (putnext_nu q (mp\<lparr>mb_type := M_PCPROTO, mb_prim := DL_UDERROR_IND err\<rparr>) st))"

section \<open>en_proto\<close>

definition prim_nu :: "dlmsg \<Rightarrow> dlprim" where
  "prim_nu m = (case m of DL_BIND_REQ s \<Rightarrow> P_BIND | DL_UNBIND_REQ \<Rightarrow> P_UNBIND | DL_INFO_REQ \<Rightarrow> P_INFO
     | DL_UNITDATA_REQ off \<Rightarrow> P_UNITDATA | DL_OTHER_REQ n \<Rightarrow> P_OTHER n | _ \<Rightarrow> P_OTHER 0)"

definition nu_bcast :: "byte list" where
  "nu_bcast = [0xff, 0xff, 0xff, 0xff, 0xff, 0xff]"

text \<open>\<open>q\<close> is the minor's read queue (\<open>min->min_rdq\<close>), \<open>m\<close> the minor's number.\<close>

definition en_bind_nu :: "nenv \<Rightarrow> nat \<Rightarrow> nat \<Rightarrow> mblk \<Rightarrow> int \<Rightarrow> nud \<Rightarrow> nud" where
  "en_bind_nu env q m mp sap st =
    (if min_state (v_min st ! m) \<noteq> DL_UNBOUND then en_error_ack_nu env q mp P_BIND DL_OUTSTATE False st
     else if find_min_nu (\<lambda>x. min_state x = DL_IDLE \<and> min_sap x = sap) (v_min st) \<noteq> None
     then en_error_ack_nu env q mp P_BIND DL_NOERR False st
     else
       let st1 = st\<lparr>v_min := (v_min st)[m := (v_min st ! m)\<lparr>min_state := DL_IDLE, min_sap := sap\<rparr>]\<rparr>
       in (case en_reuse_nu env mp 30 st1 of
             (None, st2) \<Rightarrow> en_error_ack_nu env q mp P_BIND DL_SYSERR True st2
           | (Some np, st2) \<Rightarrow>
               putnext_nu q (np\<lparr>mb_prim := DL_BIND_ACK sap (v_enaddr st2), mb_data := v_enaddr st2\<rparr>) st2))"

definition en_unbind_nu :: "nenv \<Rightarrow> nat \<Rightarrow> nat \<Rightarrow> mblk \<Rightarrow> nud \<Rightarrow> nud" where
  "en_unbind_nu env q m mp st =
    (if min_state (v_min st ! m) \<noteq> DL_IDLE then en_error_ack_nu env q mp P_UNBIND DL_OUTSTATE False st
     else
       let st1 = st\<lparr>v_min := (v_min st)[m := (v_min st ! m)\<lparr>min_state := DL_UNBOUND, min_sap := 0\<rparr>]\<rparr>
       in (case en_reuse_nu env mp 8 st1 of
             (None, st2) \<Rightarrow> en_error_ack_nu env q mp P_UNBIND DL_SYSERR True st2
           | (Some np, st2) \<Rightarrow> putnext_nu q (np\<lparr>mb_prim := DL_OK_ACK P_UNBIND\<rparr>) st2))"

definition en_info_nu :: "nenv \<Rightarrow> nat \<Rightarrow> nat \<Rightarrow> mblk \<Rightarrow> nud \<Rightarrow> nud" where
  "en_info_nu env q m mp st =
    (case en_reuse_nu env mp 70 st of
       (None, st1) \<Rightarrow> en_error_ack_nu env q mp P_INFO DL_SYSERR True st1
     | (Some np, st1) \<Rightarrow>
       let ms = min_state (v_min st1 ! m);
           addr = (if ms \<noteq> DL_UNBOUND then v_enaddr st1 else [])
       in putnext_nu q (np\<lparr>mb_prim := DL_INFO_ACK 1500 1 ms addr, mb_data := addr\<rparr>) st1)"

text \<open>A broadcast is also heard by the minor that sends it.\<close>

definition en_echo_nu :: "nenv \<Rightarrow> nat \<Rightarrow> mblk \<Rightarrow> byte list \<Rightarrow> nud \<Rightarrow> nud" where
  "en_echo_nu env q mp dst st =
    (if dst \<noteq> nu_bcast then st
     else (case allocb_nu env st of
       (False, st) \<Rightarrow> st
     | (True, st) \<Rightarrow>
       if mb_cont mp = [] then st
       else (case en_mkind_nu env (mb_cont mp) dst (v_enaddr st) st of
         (None, st) \<Rightarrow> st
       | (Some np, st) \<Rightarrow> en_send_up_nu env q np st)))"

text \<open>A frame is only queued, for \<open>nursrv\<close> to send; while the chip is down, not even that.\<close>

definition en_unitdata_nu :: "nenv \<Rightarrow> nat \<Rightarrow> nat \<Rightarrow> nat \<Rightarrow> mblk \<Rightarrow> nat \<Rightarrow> nud \<Rightarrow> nud option" where
  "en_unitdata_nu env wq q m mp off st =
    (if min_state (v_min st ! m) \<noteq> DL_IDLE then en_uderror_ind_nu env q mp DL_OUTSTATE st
     else if off + 6 > length (mb_data mp) then None
     else
       let dst = take 6 (drop off (mb_data mp));
           st1 = en_echo_nu env q mp dst st;
           sap = min_sap (v_min st1 ! m);
           hdr = dst @ v_enaddr st1 @ [word_of_int (drop_bit 8 sap), word_of_int sap]
       in (case allocb_nu env st1 of
             (False, st2) \<Rightarrow> en_uderror_ind_nu env q mp DL_UNDELIVERABLE st2
           | (True, st2) \<Rightarrow>
             if \<not> n_running (v_sc st2) \<and> n_failrun (v_sc st2) \<ge> 2 then
               Some (st2\<lparr>v_sc := nu_stat (\<lambda>s. s\<lparr>st_txdead := u32 (st_txdead s + 1)\<rparr>) (v_sc st2)\<rparr>)
             else
               Some (qenable_poll (st2\<lparr>v_wq := (v_wq st2)(wq := v_wq st2 wq @ [data_mblk hdr (mb_cont mp)]),
                 v_wqcnt := Suc (v_wqcnt st2)\<rparr>))))"

definition en_proto_nu :: "nenv \<Rightarrow> nat \<Rightarrow> mblk \<Rightarrow> nud \<Rightarrow> nud option" where
  "en_proto_nu env wq mp st =
    (case v_qptr st wq of
       None \<Rightarrow> None
     | Some m \<Rightarrow>
       (case min_rdq (v_min st ! m) of
          None \<Rightarrow> None
        | Some q \<Rightarrow>
          if \<not> v_running st then Some (en_error_ack_nu env q mp (prim_nu (mb_prim mp)) DL_NOTINIT False st)
          else (case mb_prim mp of
            DL_BIND_REQ sap \<Rightarrow> Some (en_bind_nu env q m mp sap st)
          | DL_UNBIND_REQ \<Rightarrow> Some (en_unbind_nu env q m mp st)
          | DL_INFO_REQ \<Rightarrow> Some (en_info_nu env q m mp st)
          | DL_UNITDATA_REQ off \<Rightarrow> en_unitdata_nu env wq q m mp off st
          | _ \<Rightarrow> Some st)))"

section \<open>ioctls\<close>

definition NUIOC :: "int \<Rightarrow> int" where
  "NUIOC n = push_bit 8 78 OR n"

definition ENIOC_GETADDR_NU :: int where "ENIOC_GETADDR_NU = push_bit 8 69 OR 1"

text \<open>A page of \<open>nu_snap\<close>: selected without reading it back, then its sixteen registers.\<close>

fun snap_pages :: "chip \<Rightarrow> int \<Rightarrow> nat list \<Rightarrow> nust \<Rightarrow> int list \<times> nust" where
  "snap_pages c base [] st = ([], st)"
| "snap_pages c base (p # ps) st =
    (case rd_regs c [0..<16] (nu_wr NU_CR (base OR push_bit 6 (int p)) st) of (xs, st1) \<Rightarrow>
      (case snap_pages c base ps st1 of (ys, st2) \<Rightarrow> (xs @ ys, st2)))"

text \<open>\<open>struct nu_regs\<close>, as its 72 bytes.\<close>

definition nu_snap :: "nenv \<Rightarrow> nud \<Rightarrow> byte list \<times> nud" where
  "nu_snap env st =
    (let sc = v_sc st; c = e_card env
     in (case nu_rd c NU_CR sc of (cr, sc1) \<Rightarrow>
       let base = (cr AND (CR_STA OR CR_STP)) OR CR_NODMA
       in (case snap_pages c base [0, 1, 2] sc1 of (xs, sc2) \<Rightarrow>
         (case n_bad sc of (r, want, got) \<Rightarrow>
           (map word_of_int xs @ concat (map p32 [cr, of_bool (n_running sc), r, want, got, v_perms st]),
            st\<lparr>v_sc := nu_wr NU_CR base sc2\<rparr>)))))"

text \<open>\<open>struct nu_mode\<close> in \<open>b\<close>: the answer or the error.\<close>

definition mode_ok :: "int \<Rightarrow> int \<Rightarrow> int \<Rightarrow> bool \<Rightarrow> int \<Rightarrow> bool" where
  "mode_ok rbase wbase dly nocache pad \<longleftrightarrow>
    (rbase = 0xfffa0000 \<and> wbase = 0xfffb0000 \<or> rbase = 0x00fa0000 \<and> wbase = 0x00fb0000 \<and> nocache) \<and>
    0 \<le> dly \<and> dly \<le> 1000 \<and> 0 \<le> pad \<and> pad \<le> 15"

definition nu_setmode :: "byte list \<Rightarrow> nud \<Rightarrow> byte list option \<times> nud" where
  "nu_setmode b st =
    (let rbase = g32 b 0; wbase = g32 b 4; dly = s32 (g32 b 8); nocache = (g32 b 12 \<noteq> 0); pad = s32 (g32 b 16)
     in if g32 b 20 \<noteq> 0 \<and> \<not> mode_ok rbase wbase dly nocache pad then (None, st)
        else
          let st1 = (if g32 b 20 \<noteq> 0 then st\<lparr>v_mode := \<lparr>m_rbase = rbase, m_wbase = wbase, m_dly = dly,
                       m_nocache = nocache, m_pad = pad\<rparr>\<rparr> else st);
              m = v_mode st1
          in (Some (concat (map p32 [m_rbase m, m_wbase m, m_dly m, of_bool (m_nocache m), m_pad m, 0])), st1))"

text \<open>\<open>struct nu_test\<close>, as its 100 bytes.\<close>

definition nu_test :: "nenv \<Rightarrow> nud \<Rightarrow> byte list \<times> nud" where
  "nu_test env st =
    (case nu_probe (e_card env) ((v_sc st)\<lparr>n_running := False\<rparr>) of (found, sc) \<Rightarrow>
      let sc1 = (if found \<and> \<not> v_up st then sc\<lparr>n_ea := n_prom sc, n_rcr := 0x04, n_imr := 0\<rparr> else sc);
          (ok, sc2) = (if found then nu_init (e_card env) sc1 else (False, sc1));
          st1 = st\<lparr>v_sc := sc2, v_retry := s32 (v_lbolt st + e_hz env)\<rparr>
      in (case nu_snap env st1 of (regs, st2) \<Rightarrow>
           (case n_bad sc2 of (r, want, got) \<Rightarrow>
             (concat (map p32 [if found then 0 else -1, if ok then 0 else -1, r, want, got,
                st_initbad (n_st sc2), n_crmiss sc2]) @ regs, st2))))"

text \<open>The accesses of \<open>nu_raw\<close>, four bytes each: operation, register, value, padding.\<close>

fun raw_ops :: "chip \<Rightarrow> nat \<Rightarrow> byte list \<Rightarrow> nust \<Rightarrow> byte list \<times> nust" where
  "raw_ops c 0 b st = (b, st)"
| "raw_ops c (Suc n) b st =
    (let op = uint (b ! 0); reg = nat (uint (b ! 1)); val = uint (b ! 2);
         (v, st1) = (if op = 0 then nu_rd c reg st
                     else if op = 1 then (val, nu_wr reg val st) else (val, nu_delay (val * 10) st));
         (rest, st2) = raw_ops c n (drop 4 b) st1
     in (take 4 (b[2 := word_of_int v]) @ rest, st2))"

definition NU_RAWMAX :: int where "NU_RAWMAX = 512"

text \<open>\<open>None\<close>: an access beyond the 512 of the structure; otherwise the answer or the error.\<close>

definition nu_raw :: "nenv \<Rightarrow> byte list \<Rightarrow> nud \<Rightarrow> (byte list option \<times> nud) option" where
  "nu_raw env b st =
    (let n = s32 (g32 b 0)
     in if n < 0 \<or> n > NU_RAWMAX then Some (None, st)
        else if 4 + 4 * nat n > length b then None
        else if \<not> list_all (\<lambda>i. uint (b ! (4 + 4 * i)) \<le> 2 \<and> uint (b ! (5 + 4 * i)) \<le> 0x1f) [0..<nat n] then Some (None, st)
        else (case raw_ops (e_card env) (nat n) (drop 4 b) (v_sc st) of (b', sc) \<Rightarrow>
          Some (Some (take 4 b @ b'), st\<lparr>v_sc := sc\<rparr>)))"

text \<open>\<open>struct nu_stats\<close>, as its 92 bytes.\<close>

definition stats_bytes :: "nustats \<Rightarrow> byte list" where
  "stats_bytes s = concat (map p32 [ipackets s, ierrors s, opackets s, oerrors s, collisions s, st_crc s, st_fae s,
     st_missed s, st_ovw s, st_rxbad s, st_txfu s, st_txabt s, st_txcarrier s, st_txowc s, st_txtimeout s, st_reinit s,
     st_nomem s, st_polls s, st_initbad s, st_crmiss s, st_recover s, st_cfgfix s, st_txdead s])"

text \<open>\<open>bcopy\<close> of \<open>n\<close> bytes out of a message's block.\<close>

definition copy_from :: "nat \<Rightarrow> byte list \<Rightarrow> byte list option" where
  "copy_from n b = (if n \<le> length b then Some (take n b) else None)"

text \<open>
  The data block the answer of \<open>n\<close> bytes goes to, as its size and the blocks after it: the request's own when its buffer
  takes them, or a new one; \<open>None\<close>: no memory.
\<close>

definition ioc_block :: "nenv \<Rightarrow> nat \<Rightarrow> byte list list \<Rightarrow> nud \<Rightarrow> (nat \<times> byte list list) option \<times> nud" where
  "ioc_block env n cont st =
    (case cont of
       b # bs \<Rightarrow>
         if e_lim env b \<ge> n then (Some (e_lim env b, bs), st)
         else (case allocb_nu env st of (True, st) \<Rightarrow> (Some (n, []), st) | (False, st) \<Rightarrow> (None, st))
     | [] \<Rightarrow> (case allocb_nu env st of (True, st) \<Rightarrow> (Some (n, []), st) | (False, st) \<Rightarrow> (None, st)))"

text \<open>The size of the answer to a command, or \<open>None\<close> for one that is not known.\<close>

definition ioc_size :: "int \<Rightarrow> nat option" where
  "ioc_size cmd =
    (if cmd = ENIOC_GETADDR_NU then Some 6 else if cmd = NUIOC 1 then Some 92 else if cmd = NUIOC 2 then Some 72
     else if cmd = NUIOC 3 then Some 24 else if cmd = NUIOC 5 then Some 2052 else if cmd = NUIOC 4 then Some 100
     else None)"

text \<open>What the driver answers into a block of its own: the address, counters, registers, or a test.\<close>

definition ioc_answer :: "nenv \<Rightarrow> int \<Rightarrow> nud \<Rightarrow> byte list \<times> nud" where
  "ioc_answer env cmd st =
    (if cmd = ENIOC_GETADDR_NU then (v_enaddr st, st)
     else if cmd = NUIOC 2 then nu_snap env st
     else if cmd = NUIOC 4 then nu_test env st
     else (stats_bytes (n_st (v_sc st)), st))"

definition en_ioctl_nu :: "nenv \<Rightarrow> nat \<Rightarrow> mblk \<Rightarrow> nud \<Rightarrow> nud option" where
  "en_ioctl_nu env q mp st =
    (let nak = (\<lambda>mp s. Some (putnext_nu q (mp\<lparr>mb_type := M_IOCNAK\<rparr>) s));
         ack = (\<lambda>ioc n bs s. Some (putnext_nu q (mp\<lparr>mb_type := M_IOCACK, mb_cont := bs,
           mb_prim := IOCBLK (ioc\<lparr>ioc_count := int n, ioc_error := 0\<rparr>)\<rparr>) s))
     in case mb_prim mp of
       IOCBLK ioc \<Rightarrow>
         if \<not> ioc_whole ioc \<or> ioc_transparent ioc then nak mp st
         else (case ioc_size (ioc_cmd ioc) of
           None \<Rightarrow> nak mp st
         | Some n \<Rightarrow>
           if ioc_cmd ioc = NUIOC 3 \<or> ioc_cmd ioc = NUIOC 5 then
             (case mb_cont mp of
                [] \<Rightarrow> nak (mp\<lparr>mb_prim := IOCBLK (ioc\<lparr>ioc_error := K_EINVAL\<rparr>)\<rparr>) st
              | b # bs \<Rightarrow>
                if ioc_count ioc < int n \<or> length b < n then nak (mp\<lparr>mb_prim := IOCBLK (ioc\<lparr>ioc_error := K_EINVAL\<rparr>)\<rparr>) st
                else (case copy_from n b of None \<Rightarrow> None | Some x \<Rightarrow>
                 (case (if ioc_cmd ioc = NUIOC 5 then nu_raw env x st else Some (nu_setmode x st)) of
                  None \<Rightarrow> None
                | Some (None, st1) \<Rightarrow> nak (mp\<lparr>mb_prim := IOCBLK (ioc\<lparr>ioc_error := K_EINVAL\<rparr>)\<rparr>) st1
                | Some (Some b', st1) \<Rightarrow> ack ioc n (b' # bs) st1)))
           else (case ioc_block env n (mb_cont mp) st of
             (None, st1) \<Rightarrow> nak (mp\<lparr>mb_cont := [], mb_prim := IOCBLK (ioc\<lparr>ioc_error := K_ENOMEM\<rparr>)\<rparr>) st1
           | (Some (cap, bs), st1) \<Rightarrow>
             if cap < n then None
             else (case ioc_answer env (ioc_cmd ioc) st1 of (b', st2) \<Rightarrow> ack ioc n (b' # bs) st2)))
     | _ \<Rightarrow> nak mp st)"

section \<open>The STREAMS entry points\<close>

text \<open>The frames of \<open>q\<close>'s write queue dropped, as a flush and a close do.\<close>

definition drop_frames :: "nat \<Rightarrow> nud \<Rightarrow> nud" where
  "drop_frames q st = st\<lparr>v_wqcnt := v_wqcnt st - length (v_wq st q), v_wq := (v_wq st)(q := [])\<rparr>"

definition nuwput :: "nenv \<Rightarrow> nat \<Rightarrow> mblk \<Rightarrow> nud \<Rightarrow> nud option" where
  "nuwput env q mp st =
    (case mb_type mp of
       M_PROTO \<Rightarrow> en_proto_nu env q mp st
     | M_PCPROTO \<Rightarrow> en_proto_nu env q mp st
     | M_IOCTL \<Rightarrow> en_ioctl_nu env q mp st
     | M_FLUSH \<Rightarrow>
       (case mb_prim mp of
          FLUSH r w \<Rightarrow>
            let st1 = (if w then drop_frames q st else st)
            in Some (if r then putnext_nu q (mp\<lparr>mb_prim := FLUSH r False\<rparr>) st1 else st1)
        | _ \<Rightarrow> Some st)
     | _ \<Rightarrow> Some st)"

text \<open>Four rounds of a poll and sends, while there is work.\<close>

fun srv_loop :: "nenv \<Rightarrow> nat \<Rightarrow> bool \<Rightarrow> nud \<Rightarrow> (bool \<times> nud) option" where
  "srv_loop env 0 work st = Some (work, st)"
| "srv_loop env (Suc k) work st =
    (case poll_nu env st of
       None \<Rightarrow> None
     | Some (w1, st1) \<Rightarrow>
       (case nu_send env st1 of
          None \<Rightarrow> None
        | Some (w2, st2) \<Rightarrow> if w1 \<or> w2 then srv_loop env k True st2 else Some (False, st2)))"

text \<open>The retry of a chip that is down.\<close>

definition srv_retry :: "nenv \<Rightarrow> nud \<Rightarrow> nud" where
  "srv_retry env st =
    (if n_running (v_sc st) \<or> s32 (v_lbolt st - v_retry st) < 0 then st
     else
       let st1 = st\<lparr>v_retry := s32 (v_lbolt st + e_hz env)\<rparr>;
           f = n_failrun (v_sc st1)
       in (case (if f \<noteq> 0 \<and> f mod NU_RECOVER_EVERY = 0 then nu_recover (e_card env) (v_sc st1)
                 else nu_init (e_card env) (v_sc st1)) of
             (ok, sc) \<Rightarrow> if ok then nu_initok (st1\<lparr>v_sc := sc\<rparr>) else nu_initfail (st1\<lparr>v_sc := sc\<rparr>)))"

definition nursrv :: "nenv \<Rightarrow> nat \<Rightarrow> nud \<Rightarrow> nud option" where
  "nursrv env q st =
    (if \<not> v_up st then Some st
     else (case srv_loop env 4 False (srv_retry env st) of
       None \<Rightarrow> None
     | Some (work, st1) \<Rightarrow>
       let st2 = nu_ifstats st1
       in Some (if work then st2\<lparr>v_enabled := v_enabled st2 @ [q]\<rparr> else st2)))"

text \<open>
  \<open>nudriverinfo\<close>: \<open>copyout k\<close>: the \<open>k\<close>-th copy to the user succeeds. The answer is an error, or the
  count with the entry (\<open>struct xedt\<close>) when it was asked for.
\<close>

definition nu_text :: "byte list \<Rightarrow> byte list" where
  "nu_text ea = bytes_of ''NetUSBee (RTL8019AS) '' @ mac_text ea"

definition nu_xedt :: "nud \<Rightarrow> byte list" where
  "nu_xedt st = take 64 (nu_text (n_ea (v_sc st)) @ replicate 64 0) @ p32 0 @
     p32 (cdiv (n_memhi (v_sc st) - n_memlo (v_sc st)) 4)"

definition nudriverinfo ::
    "nenv \<Rightarrow> (nat \<Rightarrow> bool) \<Rightarrow> int \<Rightarrow> int \<Rightarrow> nud \<Rightarrow> (enerr + int \<times> byte list option) \<times> nud" where
  "nudriverinfo env copyout cmd len st =
    (if cmd \<noteq> 76 then (Inl EN_EINVAL, st)
     else
       let st1 = (if \<not> v_up st then nu_linit env (st\<lparr>v_pad := True\<rparr>) else st);
           n = (if v_up st1 then 1 else 0)
       in (if len = 4 then (if copyout 0 then Inr (n, None) else Inl EN_EFAULT)
           else if len \<noteq> 4 + n * 72 then Inl EN_EINVAL
           else if \<not> copyout 0 then Inl EN_EFAULT
           else if n = 0 then Inr (0, None)
           else if copyout 1 then Inr (1, Some (nu_xedt st1)) else Inl EN_EFAULT, st1))"

definition nuopen :: "nenv \<Rightarrow> nat \<Rightarrow> int \<Rightarrow> sflag \<Rightarrow> nud \<Rightarrow> enerr option \<times> nud" where
  "nuopen env q minor sflg st =
    (if sflg = MODOPEN then (Some EN_EINVAL, st)
     else if v_qptr st q \<noteq> None then (None, st)
     else (case (if sflg = CLONEOPEN then
                   (case find_min_nu (\<lambda>m. min_rdq m = None) (v_min st) of
                      None \<Rightarrow> Inl EN_ENOSPC | Some m \<Rightarrow> Inr m)
                 else if minor < 0 \<or> minor \<ge> int NU_NMINOR then Inl EN_EINVAL
                 else Inr (nat minor)) of
       Inl e \<Rightarrow> (Some e, st)
     | Inr m \<Rightarrow>
       let st1 = nu_linit env (st\<lparr>v_pad := True\<rparr>)
       in (None, st1\<lparr>v_qptr := (v_qptr st1)(q := Some m),
             v_min := (v_min st1)[m := \<lparr>min_rdq = Some q, min_state = DL_UNBOUND, min_sap = 0\<rparr>],
             v_pollq := (if v_pollq st1 = None then Some q else v_pollq st1)\<rparr>)))"

definition nuclose :: "nat \<Rightarrow> nud \<Rightarrow> nud option" where
  "nuclose q st =
    (case v_qptr st q of
       None \<Rightarrow> None
     | Some m \<Rightarrow>
       let st1 = (drop_frames q st)\<lparr>v_qptr := (v_qptr st)(q := None),
             v_min := (v_min st)[m := \<lparr>min_rdq = None, min_state = DL_UNBOUND, min_sap = 0\<rparr>]\<rparr>
       in Some (if v_pollq st1 = Some q then
                  st1\<lparr>v_pollq := (case find_min_nu (\<lambda>x. min_rdq x \<noteq> None) (v_min st1) of
                                    None \<Rightarrow> None | Some i \<Rightarrow> min_rdq (v_min st1 ! i))\<rparr>
                else st1))"

definition nustart :: "nud \<Rightarrow> nud" where
  "nustart st = st\<lparr>v_ifs := 0 # v_ifs st\<rparr>"

section \<open>The driver under the kernel's events\<close>

text \<open>The driver's memory at boot.\<close>

definition sc_zero :: nust where
  "sc_zero = \<lparr>n_log = [], n_crmiss = 0, n_memlo = 0, n_memhi = 0, n_rxstart = 0, n_rxstop = 0,
     n_rxnext = 0, n_txlen = [0], n_txcur = 0, n_txfill = 0, n_txage = 0, n_rtl = False,
     n_ea = replicate 6 0, n_prom = replicate 6 0, n_rcr = 0, n_imr = 0, n_crcprobe = False, n_nocrc = False,
     n_mar = replicate 8 0, n_mc = [], n_mcref = [], n_running = False, n_failrun = 0, n_cfg = [0, 0, 0], n_cfgok = False,
     n_bad = (0, 0, 0), n_txbuf = replicate 1514 0,
     n_st = \<lparr>ipackets = 0, ierrors = 0, opackets = 0, oerrors = 0, collisions = 0, st_crc = 0, st_fae = 0,
       st_missed = 0, st_ovw = 0, st_rxbad = 0, st_txfu = 0, st_txabt = 0, st_txcarrier = 0, st_txowc = 0,
       st_txtimeout = 0, st_reinit = 0, st_nomem = 0, st_polls = 0, st_initbad = 0, st_crmiss = 0, st_recover = 0,
       st_cfgfix = 0, st_txdead = 0\<rparr>,
     n_input = [], n_done = 0\<rparr>"

definition nu_static :: nud where
  "nu_static = \<lparr>v_sc = sc_zero, v_up = False, v_tid = False, v_pollq = None, v_retry = 0, v_txdrop = 0,
     v_min = replicate NU_NMINOR \<lparr>min_rdq = None, min_state = DL_UNBOUND, min_sap = 0\<rparr>,
     v_running = False, v_enaddr = replicate 6 0, v_ifstat = replicate 5 0, v_wqcnt = 0, v_nextmin = 0, v_perms = 0,
     v_mode = \<lparr>m_rbase = 0xfffa0000, m_wbase = 0xfffb0000, m_dly = 0, m_nocache = False, m_pad = 15\<rparr>,
     v_pad = False, v_said = 0, v_qptr = (\<lambda>_. None), v_wq = (\<lambda>_. []), v_sent = [], v_allocs = 0, v_enabled = [],
     v_lbolt = 0, v_calibs = 0, v_cons = [], v_ifs = []\<rparr>"

datatype nuevent = NuPut nat mblk | NuService | NuTimer | NuClock | NuOpen nat int sflag | NuClose nat | NuInfo int int

text \<open>
  A stream has one queue pair for as long as it is open, and STREAMS opens a device node that
  is open on the stream it has: those are the guards.
\<close>

definition nu_step :: "nenv \<Rightarrow> nuevent \<Rightarrow> nud \<Rightarrow> nud option" where
  "nu_step env ev st =
    (case ev of
       NuPut q mp \<Rightarrow> (if v_qptr st q = None then Some st else nuwput env q mp st)
     | NuService \<Rightarrow> (case v_pollq st of None \<Rightarrow> Some st | Some q \<Rightarrow> nursrv env q st)
     | NuTimer \<Rightarrow> Some (if v_tid st then nu_tick st else st)
     | NuClock \<Rightarrow> Some (st\<lparr>v_lbolt := s32 (v_lbolt st + 1)\<rparr>)
     | NuOpen q minor sf \<Rightarrow>
         (if sf = DEVOPEN \<and> v_qptr st q = None \<and> 0 \<le> minor \<and> minor < int NU_NMINOR \<and>
             min_rdq (v_min st ! nat minor) \<noteq> None then Some st
          else Some (snd (nuopen env q minor sf st)))
     | NuClose q \<Rightarrow> (if v_qptr st q = None then Some st else nuclose q st)
     | NuInfo cmd len \<Rightarrow> Some (snd (nudriverinfo env (\<lambda>_. True) cmd len st)))"

end
