(* ===== verification/NuProps.thy ===== *)
theory NuProps
  imports NuChip "HOL-Library.Multiset"
begin

text \<open>What the chip core promises, whatever card answers it and with one that keeps its data sheet.\<close>

section \<open>What only reaches the card\<close>

text \<open>The state but for the log and the count of redone page selects.\<close>

definition bus_only :: "nust \<Rightarrow> nust \<Rightarrow> bool" where
  "bus_only st st' \<longleftrightarrow> (\<exists>l n. st' = st\<lparr>n_log := n_log st @ l, n_crmiss := n\<rparr>)"

named_theorems bus_rules \<open>operations that only reach the card\<close>

lemma bus_only_refl [bus_rules]: "bus_only st st"
  unfolding bus_only_def by (intro exI [of _ "[]"] exI [of _ "n_crmiss st"]) simp

lemma bus_only_trans [trans]: "bus_only a b \<Longrightarrow> bus_only b c \<Longrightarrow> bus_only a c"
  unfolding bus_only_def
proof (elim exE)
  fix l n l' n' assume "b = a\<lparr>n_log := n_log a @ l, n_crmiss := n\<rparr>" "c = b\<lparr>n_log := n_log b @ l', n_crmiss := n'\<rparr>"
  then show "\<exists>l n. c = a\<lparr>n_log := n_log a @ l, n_crmiss := n\<rparr>"
    by (intro exI [of _ "l @ l'"] exI [of _ n']) simp
qed

lemma bus_only_log: "bus_only st (st\<lparr>n_log := n_log st @ l\<rparr>)"
  unfolding bus_only_def by (intro exI [of _ l] exI [of _ "n_crmiss st"]) simp

lemma bus_only_miss [bus_rules]: "bus_only st (st\<lparr>n_crmiss := n\<rparr>)"
  unfolding bus_only_def by (intro exI [of _ "[]"] exI [of _ n]) simp

lemma bus_only_rd [bus_rules]: "bus_only st (snd (nu_rd c r st))"
  by (simp add: nu_rd_def bus_only_log)

lemma bus_only_wr [bus_rules]: "bus_only st (nu_wr r v st)"
  by (simp add: nu_wr_def bus_only_log)

lemma bus_only_delay [bus_rules]: "bus_only st (nu_delay us st)"
  by (simp add: nu_delay_def bus_only_log)

lemma bus_only_wrs [bus_rules]: "bus_only st (nu_wrs ws st)"
proof (induction ws st rule: nu_wrs.induct)
  case (2 r v ws st)
  then show ?case using bus_only_trans [OF bus_only_wr] by simp
qed (simp add: bus_only_refl)

lemma bus_only_setcr_loop [bus_rules]: "bus_only st (setcr_loop c k v st)"
proof (induction c k v st rule: setcr_loop.induct)
  case (2 c k v st)
  obtain x st1 where r: "nu_rd c NU_CR (nu_wr NU_CR v st) = (x, st1)" by fastforce
  have s: "bus_only st st1" using bus_only_trans [OF bus_only_wr bus_only_rd [of "nu_wr NU_CR v st" c NU_CR]] r by simp
  show ?case
  proof (cases "(x XOR v) AND (CR_PAGE1 OR CR_PAGE2) = 0")
    case False
    have "bus_only st1 (setcr_loop c k v (st1\<lparr>n_crmiss := u32 (n_crmiss st1 + 1)\<rparr>))"
      using 2 [OF r [symmetric] False] by (rule bus_only_trans [OF bus_only_miss])
    then show ?thesis using False r bus_only_trans [OF s] by simp
  qed (use s r in simp)
qed (simp add: bus_only_refl)

lemma bus_only_setcr [bus_rules]: "bus_only st (nu_setcr c v st)" "bus_only st (nu_page0 c st)"
  by (simp_all add: nu_page0_def nu_setcr_def bus_only_setcr_loop)

lemma bus_only_dma [bus_rules]: "bus_only st (nu_dma c a n cmd st)"
  unfolding nu_dma_def by (rule bus_only_trans [OF bus_only_setcr(1) bus_only_wrs])

lemma bus_only_dmadone_loop: "bus_only st (dmadone_loop c k st)"
proof (induction c k st rule: dmadone_loop.induct)
  case (2 c k st)
  then show ?case
    using bus_only_rd [of st c NU_ISR] bus_only_trans by (auto split: prod.split)
qed (simp add: bus_only_refl)

lemma bus_only_dmadone [bus_rules]: "bus_only st (nu_dmadone c st)"
  unfolding nu_dmadone_def by (rule bus_only_trans [OF bus_only_dmadone_loop bus_only_wr])

lemma bus_only_rddata [bus_rules]: "bus_only st (snd (nu_rddata c n st)) \<and> length (fst (nu_rddata c n st)) = n"
proof (induction c n st rule: nu_rddata.induct)
  case (2 c n st)
  then show ?case
    using bus_only_rd [of st c NU_DATA] bus_only_trans by (auto split: prod.split)
qed (simp add: bus_only_refl)

lemma bus_only_rdmem: "bus_only st (snd (nu_rdmem c a n st)) \<and> length (fst (nu_rdmem c a n st)) = nat n"
proof (cases "n \<le> 0")
  case False
  obtain bs st1 where r: "nu_rddata c (nat n) (nu_dma c a n CR_RREAD st) = (bs, st1)" by fastforce
  have "bus_only st st1" "length bs = nat n"
    using bus_only_trans [OF bus_only_dma] bus_only_rddata [of "nu_dma c a n CR_RREAD st" c "nat n"] r by auto
  then show ?thesis using False r bus_only_trans bus_only_dmadone by (auto simp: nu_rdmem_def)
qed (simp add: nu_rdmem_def bus_only_refl)

lemma bus_only_wrmem: "bus_only st (nu_wrmem c a bs st)"
  unfolding nu_wrmem_def nu_wrdata_def
  by (auto intro!: bus_only_refl bus_only_trans [OF bus_only_trans [OF bus_only_dma bus_only_wrs] bus_only_dmadone])

lemma bus_only_rdring:
  assumes "p < n_rxstop st" "0 \<le> n" "0 \<le> off" "off < 256"
  shows "bus_only st (snd (nu_rdring c p off n st)) \<and> length (fst (nu_rdring c p off n st)) = nat n"
proof -
  define top where "top = n_rxstop st * 256"
  define a where "a = p * 256 + off"
  define k where "k = (if top - a > n then n else top - a)"
  have a: "a < top" using assms unfolding a_def top_def by linarith
  obtain xs st1 where 1: "nu_rdmem c a k st = (xs, st1)" by fastforce
  obtain ys st2 where 2: "nu_rdmem c (n_rxstart st * 256) (n - k) st1 = (ys, st2)" by fastforce
  have "nu_rdring c p off n st = (xs @ ys, st2)"
    unfolding nu_rdring_def Let_def top_def [symmetric] a_def [symmetric] using 1 2 a
    by (cases "top - a > n") (simp_all add: k_def)
  moreover have "bus_only st st2" "length xs = nat k" "length ys = nat (n - k)"
    using bus_only_rdmem [of st c a k] bus_only_rdmem [of st1 c "n_rxstart st * 256" "n - k"] 1 2 bus_only_trans by auto
  moreover have "nat k + nat (n - k) = nat n" using a assms(2) by (auto simp: k_def)
  ultimately show ?thesis by simp
qed

lemma bus_only_curr: "bus_only st (snd (nu_curr c st))"
proof -
  obtain x st1 where r: "nu_rd c NU_CURR (nu_setcr c (CR_NODMA OR CR_STA OR CR_PAGE1) st) = (x, st1)" by fastforce
  have "bus_only st st1" using bus_only_trans [OF bus_only_setcr(1) bus_only_rd [of _ c NU_CURR]] r by (metis snd_conv)
  then show ?thesis using r bus_only_trans bus_only_setcr(2) by (auto simp: nu_curr_def)
qed

lemma bus_only_fields:
  assumes "bus_only st st'"
  shows "n_memlo st' = n_memlo st" "n_memhi st' = n_memhi st" "n_rxstart st' = n_rxstart st" "n_rxstop st' = n_rxstop st"
    "n_rxnext st' = n_rxnext st" "n_txlen st' = n_txlen st" "n_txcur st' = n_txcur st" "n_txfill st' = n_txfill st"
    "n_txage st' = n_txage st" "n_ea st' = n_ea st" "n_rcr st' = n_rcr st" "n_crcprobe st' = n_crcprobe st"
    "n_nocrc st' = n_nocrc st" "n_mar st' = n_mar st" "n_mc st' = n_mc st" "n_mcref st' = n_mcref st"
    "n_running st' = n_running st" "n_txbuf st' = n_txbuf st" "n_input st' = n_input st" "n_st st' = n_st st"
    "n_rtl st' = n_rtl st" "n_cfgok st' = n_cfgok st" "n_done st' = n_done st" "n_imr st' = n_imr st"
    "n_failrun st' = n_failrun st" "n_prom st' = n_prom st"
  using assms by (auto simp: bus_only_def)

section \<open>The invariant\<close>

definition ring_ok :: "nust \<Rightarrow> bool" where
  "ring_ok st \<longleftrightarrow> 0 < n_rxstart st \<and> n_rxstart st < n_rxstop st \<and> n_rxstop st \<le> 256 \<and>
     n_rxstart st \<le> n_rxnext st \<and> n_rxnext st < n_rxstop st"

text \<open>The one transmit buffer is on the wire exactly when it holds a frame.\<close>

definition tx_ok :: "nust \<Rightarrow> bool" where
  "tx_ok st \<longleftrightarrow> n_txfill st = 0 \<and> length (n_txbuf st) = 1514 \<and>
     (\<exists>n. n_txlen st = [n] \<and> (n = 0 \<or> 60 \<le> n \<and> n \<le> 1514) \<and> n_txcur st = (if n = 0 then -1 else 0))"

definition frame_ok :: "byte list \<Rightarrow> bool" where
  "frame_ok f \<longleftrightarrow> 60 \<le> length f \<and> length f \<le> 1514"

text \<open>What receiving may change.\<close>

definition rx_rel :: "nust \<Rightarrow> nust \<Rightarrow> bool" where
  "rx_rel st st' \<longleftrightarrow>
     (\<exists>l m x b s fs. st' = st\<lparr>n_log := n_log st @ l, n_crmiss := m, n_rxnext := x, n_nocrc := b, n_st := s,
        n_input := n_input st @ fs\<rparr> \<and> list_all frame_ok fs) \<and>
     (ring_ok st \<longrightarrow> ring_ok st')"

lemma rx_relI:
  "st' = st\<lparr>n_log := n_log st @ l, n_crmiss := m, n_rxnext := x, n_nocrc := b, n_st := s, n_input := n_input st @ fs\<rparr> \<Longrightarrow>
     list_all frame_ok fs \<Longrightarrow> (ring_ok st \<Longrightarrow> ring_ok st') \<Longrightarrow> rx_rel st st'"
  unfolding rx_rel_def by blast

lemma rx_rel_trans: "rx_rel a b \<Longrightarrow> rx_rel b c \<Longrightarrow> rx_rel a c"
  unfolding rx_rel_def
proof (elim conjE exE)
  fix l m x e s fs l' m' x' e' s' fs'
  assume 1: "b = a\<lparr>n_log := n_log a @ l, n_crmiss := m, n_rxnext := x, n_nocrc := e, n_st := s, n_input := n_input a @ fs\<rparr>"
    "list_all frame_ok fs" "ring_ok a \<longrightarrow> ring_ok b"
    and 2: "c = b\<lparr>n_log := n_log b @ l', n_crmiss := m', n_rxnext := x', n_nocrc := e', n_st := s', n_input := n_input b @ fs'\<rparr>"
    "list_all frame_ok fs'" "ring_ok b \<longrightarrow> ring_ok c"
  have "rx_rel a c"
    by (rule rx_relI [where l = "l @ l'" and m = m' and x = x' and b = e' and s = s' and fs = "fs @ fs'"]) (use 1 2 in \<open>simp_all\<close>)
  then show "(\<exists>l m x b s fs. c = a\<lparr>n_log := n_log a @ l, n_crmiss := m, n_rxnext := x, n_nocrc := b, n_st := s,
      n_input := n_input a @ fs\<rparr> \<and> list_all frame_ok fs) \<and> (ring_ok a \<longrightarrow> ring_ok c)"
    unfolding rx_rel_def .
qed

lemma rx_rel_bus: "bus_only st st' \<Longrightarrow> rx_rel st st'"
proof -
  assume "bus_only st st'"
  then obtain l n where "st' = st\<lparr>n_log := n_log st @ l, n_crmiss := n\<rparr>" by (auto simp: bus_only_def)
  then show "rx_rel st st'"
    by (intro rx_relI [where l = l and m = n and x = "n_rxnext st" and b = "n_nocrc st" and s = "n_st st" and fs = "[]"]) (simp_all add: ring_ok_def)
qed

lemma rx_rel_stat: "rx_rel st (nu_stat f st)"
  by (rule rx_relI [where l = "[]" and m = "n_crmiss st" and x = "n_rxnext st" and b = "n_nocrc st" and s = "f (n_st st)" and fs = "[]"])
    (simp_all add: nu_stat_def ring_ok_def)

lemma rx_rel_setbnry:
  assumes "n_rxstart st \<le> x" "x < n_rxstop st"
  shows "rx_rel st (nu_setbnry (st\<lparr>n_rxnext := x\<rparr>))"
proof -
  have "rx_rel st (st\<lparr>n_rxnext := x\<rparr>)"
    by (rule rx_relI [where l = "[]" and m = "n_crmiss st" and x = x and b = "n_nocrc st" and s = "n_st st" and fs = "[]"]) (use assms in \<open>simp_all add: ring_ok_def\<close>)
  then show ?thesis
    unfolding nu_setbnry_def by (rule rx_rel_trans) (rule rx_rel_bus [OF bus_only_wr])
qed

lemma rx_rel_fields:
  assumes "rx_rel st st'"
  shows "n_memlo st' = n_memlo st" "n_memhi st' = n_memhi st" "n_rxstart st' = n_rxstart st" "n_rxstop st' = n_rxstop st"
    "n_txlen st' = n_txlen st" "n_txcur st' = n_txcur st" "n_txfill st' = n_txfill st" "n_running st' = n_running st"
    "n_txbuf st' = n_txbuf st" "n_txage st' = n_txage st" "ring_ok st \<Longrightarrow> ring_ok st'" "n_imr st' = n_imr st"
    "\<exists>fs. n_input st' = n_input st @ fs \<and> list_all frame_ok fs" "n_crcprobe st' = n_crcprobe st"
  using assms by (auto simp: rx_rel_def)

lemma rx_frame_rel:
  assumes "ring_ok st"
  shows "\<exists>st'. rx_frame c h cnt st = Some st' \<and> rx_rel st st' \<and> n_rxnext st' = n_rxnext st"
proof -
  define st1 where "st1 = (if n_crcprobe st \<and> cnt \<ge> 4 + NU_MINFRAME \<and> cnt < 4 + NU_MINFRAME + 4
    then st\<lparr>n_nocrc := True\<rparr> else st)"
  define crc where "crc = (if n_nocrc st1 then 0 else 4 :: int)"
  have r1: "rx_rel st st1"
    by (rule rx_relI [where l = "[]" and m = "n_crmiss st" and x = "n_rxnext st" and b = "n_nocrc st1"
          and s = "n_st st" and fs = "[]"]) (auto simp: st1_def ring_ok_def)
  have x: "n_rxnext st1 = n_rxnext st" by (simp add: st1_def)
  have ring: "ring_ok st1" using r1 assms by (rule rx_rel_fields(11))
  have e: "rx_rel st (nu_stat f st1)" "n_rxnext (nu_stat f st1) = n_rxnext st" for f
    using rx_rel_trans [OF r1 rx_rel_stat] x by (simp_all add: nu_stat_def)
  show ?thesis
  proof (cases "cnt < 4 + NU_MINFRAME + crc \<or> cnt > 4 + NU_MAXFRAME + crc \<or> h ! 0 AND 0x01 = 0")
    case True
    then show ?thesis
      using e unfolding rx_frame_def Let_def st1_def [symmetric] crc_def [symmetric] by auto
  next
    case False
    obtain buf st2 where b: "nu_rdring c (n_rxnext st1) 4 (cnt - 4) st1 = (buf, st2)" by fastforce
    have n: "crc \<in> {0, 4}" by (auto simp: crc_def)
    moreover from this have "0 \<le> cnt - 4" using False by (auto simp: nu_consts)
    ultimately have n: "0 \<le> cnt - 4" "crc \<in> {0, 4}" by auto
    have b2: "bus_only st1 st2" "length buf = nat (cnt - 4)"
      using bus_only_rdring [of "n_rxnext st1" st1 "cnt - 4" 4 c] b ring n by (auto simp: ring_ok_def)
    let ?f = "take (nat (cnt - 4 - crc)) buf"
    let ?st = "(nu_stat (\<lambda>s. s\<lparr>ipackets := u32 (ipackets s + 1)\<rparr>) st2)\<lparr>n_input := n_input st2 @ [?f]\<rparr>"
    have "frame_ok ?f" using False n(2) b2(2) by (auto simp: frame_ok_def nu_consts)
    then have "rx_rel st2 ?st"
      by (intro rx_relI [where l = "[]" and m = "n_crmiss st2" and x = "n_rxnext st2" and b = "n_nocrc st2" and fs = "[?f]"])
        (simp_all add: nu_stat_def ring_ok_def)
    then have "rx_rel st ?st" using r1 rx_rel_bus [OF b2(1)] rx_rel_trans by blast
    moreover have "n_rxnext ?st = n_rxnext st" using bus_only_fields(5) [OF b2(1)] x by (simp add: nu_stat_def)
    moreover have "rx_frame c h cnt st = Some ?st"
      unfolding rx_frame_def Let_def st1_def [symmetric] crc_def [symmetric] using False n b by (auto simp: nu_consts)
    ultimately show ?thesis by blast
  qed
qed

lemma rx_header_ok_page: "rx_header_ok h st = Some (nxt, cnt) \<Longrightarrow> n_rxstart st \<le> nxt \<and> nxt < n_rxstop st"
  by (auto simp: rx_header_ok_def Let_def split: if_splits)

lemma rxdrain_loop_rel:
  "ring_ok st \<Longrightarrow> \<exists>r st'. rxdrain_loop c k n st = Some (r, st') \<and> rx_rel st st'"
proof (induction k arbitrary: n st)
  case 0
  then show ?case using rx_rel_bus [OF bus_only_refl] by simp
next
  case (Suc k)
  obtain cur st1 where 1: "nu_curr c st = (cur, st1)" by fastforce
  obtain h st2 where 2: "nu_rdring c (n_rxnext st1) 0 4 st1 = (h, st2)" by fastforce
  have b1: "bus_only st st1" using bus_only_curr [of st c] 1 by simp
  have r1: "rx_rel st st1" by (rule rx_rel_bus [OF b1])
  have o1: "ring_ok st1" using r1 Suc.prems by (rule rx_rel_fields(11))
  have b2: "bus_only st1 st2" using bus_only_rdring [of "n_rxnext st1" st1 4 0 c] 2 o1 by (auto simp: ring_ok_def)
  have r2: "rx_rel st st2" using rx_rel_trans [OF r1 rx_rel_bus [OF b2]] .
  have o2: "ring_ok st2" using r2 Suc.prems by (rule rx_rel_fields(11))
  have f2: "n_rxstart st2 = n_rxstart st1" "n_rxstop st2 = n_rxstop st1" using bus_only_fields [OF b2] by auto
  consider "cur < n_rxstart st1 \<or> cur \<ge> n_rxstop st1 \<or> cur = n_rxnext st1"
    | (go) "n_rxstart st1 \<le> cur" "cur < n_rxstop st1" "cur \<noteq> n_rxnext st1" by linarith
  then show ?case
  proof cases
    case 1
    then show ?thesis using \<open>nu_curr c st = (cur, st1)\<close> r1 by auto
  next
    case go
    show ?thesis
    proof (cases "rx_header_ok h st2")
      case None
      have "rx_rel st (nu_setbnry ((nu_stat f st2)\<lparr>n_rxnext := cur\<rparr>))" for f
        using go f2 rx_rel_trans [OF rx_rel_trans [OF r2 rx_rel_stat] rx_rel_setbnry] by (simp add: nu_stat_def)
      then show ?thesis using go None 1 2 by simp
    next
      case (Some p)
      obtain nxt cnt where p: "p = (nxt, cnt)" by fastforce
      obtain st3 where 3: "rx_frame c h cnt st2 = Some st3" "rx_rel st2 st3" using rx_frame_rel [OF o2] by blast
      have "n_rxstart st3 \<le> nxt" "nxt < n_rxstop st3"
        using rx_header_ok_page [of h st2 nxt cnt] Some p rx_rel_fields(3,4) [OF 3(2)] by auto
      then have r4: "rx_rel st (nu_setbnry (st3\<lparr>n_rxnext := nxt\<rparr>))"
        using rx_rel_trans [OF rx_rel_trans [OF r2 3(2)] rx_rel_setbnry] by blast
      have "ring_ok (nu_setbnry (st3\<lparr>n_rxnext := nxt\<rparr>))" using r4 Suc.prems by (rule rx_rel_fields(11))
      then obtain r st' where "rxdrain_loop c k (n + 1) (nu_setbnry (st3\<lparr>n_rxnext := nxt\<rparr>)) = Some (r, st')"
        "rx_rel (nu_setbnry (st3\<lparr>n_rxnext := nxt\<rparr>)) st'" using Suc.IH by blast
      then show ?thesis using go Some p 1 2 3 rx_rel_trans [OF r4] by simp
    qed
  qed
qed

section \<open>A poll\<close>

definition nu_inv :: "nust \<Rightarrow> bool" where
  "nu_inv st \<longleftrightarrow> ring_ok st \<and> tx_ok st"

lemma nu_inv_rx: "rx_rel st st' \<Longrightarrow> nu_inv st \<Longrightarrow> nu_inv st'"
  using rx_rel_fields [of st st'] by (simp add: nu_inv_def tx_ok_def)

lemma nu_inv_bus: "bus_only st st' \<Longrightarrow> nu_inv st \<Longrightarrow> nu_inv st'"
  by (rule nu_inv_rx [OF rx_rel_bus])

lemma nu_inv_stat: "nu_inv (nu_stat f st) \<longleftrightarrow> nu_inv st"
  by (simp add: nu_inv_def nu_stat_def ring_ok_def tx_ok_def)

lemma nu_inv_fields [simp]:
  "nu_inv (st\<lparr>n_running := b\<rparr>) \<longleftrightarrow> nu_inv st" "nu_inv (st\<lparr>n_done := d\<rparr>) \<longleftrightarrow> nu_inv st"
  "nu_inv (st\<lparr>n_txage := a\<rparr>) \<longleftrightarrow> nu_inv st"
  by (simp_all add: nu_inv_def ring_ok_def tx_ok_def)

lemma nu_inv_reclaim: "nu_inv st \<Longrightarrow> nu_inv (snd (nu_txreclaim c isr st)) \<and> n_input (snd (nu_txreclaim c isr st)) = n_input st"
proof (cases "n_txcur st < 0 \<or> isr AND (ISR_PTX OR ISR_TXE) = 0")
  case False
  assume i: "nu_inv st"
  obtain t st1 where t: "nu_rd c NU_TSR (nu_wr NU_ISR (isr AND (ISR_PTX OR ISR_TXE)) st) = (t, st1)" by fastforce
  have b: "bus_only st st1"
    using bus_only_trans [OF bus_only_wr bus_only_rd [of "nu_wr NU_ISR (isr AND (ISR_PTX OR ISR_TXE)) st" c NU_TSR]] t by simp
  have n: "n_txcur st1 = 0" "length (n_txlen st1) = 1" "nu_inv st1"
    using i False bus_only_fields [OF b] nu_inv_bus [OF b] by (auto simp: nu_inv_def tx_ok_def split: if_splits)
  let ?st2 = "(nu_stat (tx_count t) st1)\<lparr>n_txlen := (n_txlen st1)[0 := 0], n_txcur := -1\<rparr>"
  have "n_txlen ?st2 = [0]" using n(2) by (cases "n_txlen st1") auto
  moreover from this have "nu_inv ?st2" using n(3) by (auto simp: nu_inv_def ring_ok_def tx_ok_def nu_stat_def)
  moreover have "n_input ?st2 = n_input st" using bus_only_fields(19) [OF b] by (simp add: nu_stat_def)
  ultimately show ?thesis using False t n by (simp add: nu_txreclaim_def Let_def nu_consts)
qed (simp add: nu_txreclaim_def)

lemma rd_regs_bus: "bus_only st (snd (rd_regs c rs st)) \<and> length (fst (rd_regs c rs st)) = length rs"
proof (induction c rs st rule: rd_regs.induct)
  case (2 c r rs st)
  then show ?case
    using bus_only_rd [of st c r] bus_only_trans by (auto split: prod.split)
qed (simp add: bus_only_refl)

lemma rx_rel_input: "rx_rel st st' \<Longrightarrow> \<exists>fs. n_input st' = n_input st @ fs \<and> list_all frame_ok fs"
  by (rule rx_rel_fields(13))

lemma poll_rx_inv:
  assumes "nu_inv st"
  shows "\<exists>w st'. poll_rx c isr st = Some (w, st') \<and> rx_rel st st'"
proof (cases "isr AND ISR_OVW \<noteq> 0")
  case False
  let ?st = "if isr AND (ISR_PRX OR ISR_RXE) \<noteq> 0 then nu_wr NU_ISR (isr AND (ISR_PRX OR ISR_RXE)) st else st"
  have b: "bus_only st ?st" by (auto intro: bus_only_wr bus_only_refl)
  have "ring_ok ?st" using nu_inv_bus [OF b assms] unfolding nu_inv_def by blast
  then obtain r st' where "nu_rxdrain c ?st = Some (r, st')" "rx_rel ?st st'"
    using rxdrain_loop_rel unfolding nu_rxdrain_def by blast
  then show ?thesis using False rx_rel_trans [OF rx_rel_bus [OF b]] by (auto simp: poll_rx_def)
next
  case True
  let ?st0 = "nu_stat (\<lambda>s. s\<lparr>st_ovw := u32 (st_ovw s + 1)\<rparr>) st"
  obtain cr st1 where 1: "nu_rd c NU_CR ?st0 = (cr, st1)" by fastforce
  define st2 where "st2 = nu_wrs [(NU_RBCR0, 0), (NU_RBCR1, 0)] (nu_delay 2000 (nu_setcr c (CR_NODMA OR CR_STP) st1))"
  obtain isr' st3 where 3: "(if cr AND CR_TXP \<noteq> 0 then nu_rd c NU_ISR st2 else (0, st2)) = (isr', st3)" by fastforce
  define st4 where "st4 = nu_setcr c (CR_NODMA OR CR_STA) (nu_wr NU_TCR TCR_LOOP st3)"
  have b1: "bus_only ?st0 st1" using bus_only_rd [of ?st0 c NU_CR] 1 by simp
  have b2: "bus_only st1 st2"
    unfolding st2_def by (rule bus_only_trans [OF bus_only_setcr(1) bus_only_trans [OF bus_only_delay bus_only_wrs]])
  have b3: "bus_only st2 st3" using bus_only_rd [of st2 c NU_ISR] 3 bus_only_refl by (auto split: if_splits)
  have b4: "bus_only st3 st4"
    unfolding st4_def by (rule bus_only_trans [OF bus_only_wr bus_only_setcr(1)])
  have "bus_only ?st0 st4" using bus_only_trans [OF b1 bus_only_trans [OF b2 bus_only_trans [OF b3 b4]]] .
  then have r4: "rx_rel st st4"
    using rx_rel_trans [OF rx_rel_stat rx_rel_bus] by blast
  then have "ring_ok st4" using assms rx_rel_fields(11) unfolding nu_inv_def by blast
  then obtain r st5 where 5: "nu_rxdrain c st4 = Some (r, st5)" "rx_rel st4 st5"
    using rxdrain_loop_rel unfolding nu_rxdrain_def by blast
  have r5: "rx_rel st st5" using r4 5(2) by (rule rx_rel_trans)
  have w: "rx_rel st (nu_wr r v (nu_wr r' v' st5))" "rx_rel st (nu_wr r0 v0 (nu_wr r v (nu_wr r' v' st5)))"
    for r0 v0 r v r' v'
    using rx_rel_trans [OF r5 rx_rel_bus] bus_only_trans [OF bus_only_wr bus_only_wr]
      bus_only_trans [OF bus_only_trans [OF bus_only_wr bus_only_wr] bus_only_wr] by blast+
  obtain r' st' where "nu_overflow c st = Some (r', st')" "rx_rel st st'"
    unfolding nu_overflow_def 1 prod.case Let_def st2_def [symmetric] 3 st4_def [symmetric] 5(1) option.case
    using rx_rel_trans [OF r5 rx_rel_stat] w by (cases "r < 0") auto
  then show ?thesis using True by (simp add: poll_rx_def)
qed

lemma poll_counters_rel: "rx_rel st (poll_counters c isr st)"
proof (cases "isr AND ISR_CNT \<noteq> 0")
  case True
  obtain xs st1 where r: "rd_regs c [0x0d, 0x0e, 0x0f] st = (xs, st1)" by fastforce
  then have "bus_only st st1" using rd_regs_bus [of st c "[0x0d, 0x0e, 0x0f]"] by simp
  then show ?thesis
    using True r rx_rel_trans [OF rx_rel_trans [OF rx_rel_bus rx_rel_stat] rx_rel_bus [OF bus_only_wr]]
    by (simp add: poll_counters_def)
qed (simp add: poll_counters_def rx_rel_bus bus_only_refl)

lemma poll_reinit_inv: "nu_inv st \<Longrightarrow> nu_inv (poll_reinit st) \<and> n_input (poll_reinit st) = n_input st"
  by (simp add: poll_reinit_def nu_inv_stat) (simp add: nu_stat_def)

lemma poll_tx_inv:
  assumes "nu_inv st"
  shows "nu_inv (snd (poll_tx c w st)) \<and> n_input (snd (poll_tx c w st)) = n_input st"
proof -
  obtain isr st1 where 1: "nu_rd c NU_ISR st = (isr, st1)" by fastforce
  have b: "bus_only st st1" using bus_only_rd [of st c NU_ISR] 1 by simp
  obtain d st2 where 2: "nu_txreclaim c isr st1 = (d, st2)" by fastforce
  have i: "nu_inv st2" "n_input st2 = n_input st"
    using nu_inv_reclaim [OF nu_inv_bus [OF b assms], of c isr] 2 bus_only_fields(19) [OF b] by auto
  show ?thesis
    using i poll_reinit_inv
    by (cases d) (auto simp: poll_tx_def 1 2 Let_def nu_inv_stat poll_reinit_def nu_stat_def [abs_def] nu_inv_def ring_ok_def tx_ok_def)
qed

text \<open>How a poll of a running chip ends.\<close>

lemma nu_poll_ends:
  assumes "nu_inv st" "n_running st"
  shows "\<exists>w st' s. nu_poll c st = Some (w, st') \<and> rx_rel st s \<and>
    (\<not> w \<and> st' = poll_reinit s \<or> (\<exists>a. poll_tx c a s = (w, st')))"
proof -
  let ?st0 = "nu_stat (\<lambda>s. s\<lparr>st_polls := u32 (st_polls s + 1), st_crmiss := n_crmiss st\<rparr>) st"
  obtain cr st1 where 1: "nu_rd c NU_CR ?st0 = (cr, st1)" by fastforce
  have r1: "rx_rel st st1" using rx_rel_trans [OF rx_rel_stat rx_rel_bus [OF bus_only_rd [of ?st0 c NU_CR]]] 1 by simp
  obtain isr st2 where 2: "nu_rd c NU_ISR st1 = (isr, st2)" by fastforce
  have r2: "rx_rel st st2" using rx_rel_trans [OF r1 rx_rel_bus [OF bus_only_rd [of st1 c NU_ISR]]] 2 by simp
  obtain w st3 where 3: "poll_rx c isr st2 = Some (w, st3)" "rx_rel st2 st3"
    using poll_rx_inv [OF nu_inv_rx [OF r2 assms(1)]] by blast
  have r3: "rx_rel st st3" using r2 3(2) by (rule rx_rel_trans)
  have r4: "rx_rel st (poll_counters c isr st3)" using r3 poll_counters_rel by (rule rx_rel_trans)
  show ?thesis
  proof (cases "cr AND (CR_PAGE1 OR CR_PAGE2 OR CR_STP OR CR_STA) \<noteq> CR_STA \<or> w = None")
    case True
    then show ?thesis using r1 r3 assms(2) 1 2 3(1) by (auto simp: nu_poll_def)
  next
    case False
    then obtain a where w: "w = Some a" by auto
    obtain x s where t: "poll_tx c a (poll_counters c isr st3) = (x, s)" by fastforce
    then show ?thesis
      using r4 False w assms(2) 1 2 3(1)
      by (intro exI [of _ x] exI [of _ s] exI [of _ "poll_counters c isr st3"]) (auto simp: nu_poll_def)
  qed
qed

text \<open>
  Whatever the card answers, a poll of a chip that was set up has a defined result: no frame
  buffer is left, every frame given to the driver is of legal length, the ring pointers stay in
  the ring and the transmit buffer is on the wire exactly when it holds a frame.
\<close>

theorem nu_poll_safe:
  assumes "nu_inv st"
  shows "\<exists>w st'. nu_poll c st = Some (w, st') \<and> nu_inv st' \<and>
    (\<exists>fs. n_input st' = n_input st @ fs \<and> (\<forall>f\<in>set fs. 60 \<le> length f \<and> length f \<le> 1514))"
proof (cases "n_running st")
  case False
  then show ?thesis using assms by (intro exI [of _ False] exI [of _ st]) (auto simp: nu_poll_def)
next
  case True
  obtain w st' s where p: "nu_poll c st = Some (w, st')" "rx_rel st s"
    "\<not> w \<and> st' = poll_reinit s \<or> (\<exists>a. poll_tx c a s = (w, st'))" using nu_poll_ends [OF assms True] by blast
  have "nu_inv st' \<and> n_input st' = n_input s"
    using p(3) poll_reinit_inv poll_tx_inv nu_inv_rx [OF p(2) assms] by (metis snd_conv)
  then show ?thesis using p(1) rx_rel_input [OF p(2)] by (auto simp: list_all_iff frame_ok_def)
qed

text \<open>A card that is set up: transmit buffer at page 0x40, ring from 0x46 to 0x60.\<close>

definition nu0 :: nust where
  "nu0 = \<lparr>n_log = [], n_crmiss = 0, n_memlo = 0x40, n_memhi = 0x60, n_rxstart = 0x46, n_rxstop = 0x60,
     n_rxnext = 0x46, n_txlen = [0], n_txcur = -1, n_txfill = 0, n_txage = 0, n_rtl = True,
     n_ea = [0, 0, 0x1b, 1, 2, 3], n_prom = [], n_rcr = 4, n_imr = 0, n_crcprobe = True, n_nocrc = False,
     n_mar = replicate 8 0, n_mc = [], n_mcref = [], n_running = True, n_failrun = 0, n_cfg = [0, 0, 0], n_cfgok = False,
     n_bad = (0, 0, 0), n_txbuf = replicate 1514 0,
     n_st = \<lparr>ipackets = 0, ierrors = 0, opackets = 0, oerrors = 0, collisions = 0, st_crc = 0, st_fae = 0,
       st_missed = 0, st_ovw = 0, st_rxbad = 0, st_txfu = 0, st_txabt = 0, st_txcarrier = 0, st_txowc = 0,
       st_txtimeout = 0, st_reinit = 0, st_nomem = 0, st_polls = 0, st_initbad = 0, st_crmiss = 0, st_recover = 0, st_cfgfix = 0, st_txdead = 0\<rparr>,
     n_input = [], n_done = 0\<rparr>"

theorem nu_poll_safe_witness:
  "\<exists>w st'. nu_poll (\<lambda>l r. of_nat (length l)) nu0 = Some (w, st') \<and> nu_inv st'"
proof -
  have "nu_inv nu0" by (simp add: nu_inv_def ring_ok_def tx_ok_def nu0_def)
  then show ?thesis using nu_poll_safe [of nu0 "\<lambda>l r. of_nat (length l)"] by blast
qed

end
