(* ===== verification/NuCard.thy ===== *)
theory NuCard
  imports NuProps
begin

unbundle bit_operations_syntax

text \<open>
  The card as its data sheet and the driver's own comments (\<open>driver-nu/nuchip.c\<close>) have it, as far as the driver
  relies on it: the reset port, page selects, the ring's registers with the page the next frame goes to, the remote DMA through
  the data port with its count, the transmit registers, a memory whose addresses may name a cell twice, and frames that
  arrive between any two accesses. A card keeps the data sheet (\<open>card_ok\<close>) when its
  answers are those of the state the accesses and the arrivals lead to.
\<close>

section \<open>The data sheet\<close>

record cardst =
  c_cr :: int
  c_rsar :: int
  c_rbcr :: int
  c_tpsr :: int
  c_tbcr :: int
  c_tcr :: int
  c_bnry :: int
  c_curr :: int
  c_pstart :: int
  c_pstop :: int
  c_mem :: "int \<Rightarrow> byte"
  c_sent :: "byte list list"

text \<open>
  \<open>sh_dec\<close>: the memory cell an address names (on an RTL8019AS with 8 KB, 0x6000 is 0x4000); \<open>sh_net\<close>: what arrived since
  the last access, as the new page and the ring's new content, given the accesses so far.
\<close>

record sheet =
  sh_dec :: "int \<Rightarrow> int"
  sh_net :: "acc list \<Rightarrow> (int \<times> (int \<Rightarrow> byte)) option"

definition view :: "sheet \<Rightarrow> cardst \<Rightarrow> int \<Rightarrow> byte" where
  "view sh s a = c_mem s (sh_dec sh a)"

definition mem_bytes :: "(int \<Rightarrow> byte) \<Rightarrow> int \<Rightarrow> nat \<Rightarrow> byte list" where
  "mem_bytes m a n = map (\<lambda>k. m (a + int k)) [0..<n]"

definition lo_byte :: "int \<Rightarrow> int \<Rightarrow> int" where
  "lo_byte v x = x div 256 * 256 + v"

definition hi_byte :: "int \<Rightarrow> int \<Rightarrow> int" where
  "hi_byte v x = v * 256 + x mod 256"

text \<open>
  The command register, and a transmit that is started with it: the frame goes out on the wire unless the chip is stopped or
  in loopback.
\<close>

definition sends :: "int \<Rightarrow> cardst \<Rightarrow> bool" where
  "sends v s \<longleftrightarrow> v AND CR_TXP \<noteq> 0 \<and> v AND (CR_STA OR CR_STP) = CR_STA \<and> c_tcr s AND 0x06 = 0"

definition card_cr :: "sheet \<Rightarrow> int \<Rightarrow> cardst \<Rightarrow> cardst" where
  "card_cr sh v s =
    s\<lparr>c_cr := v, c_sent := (if sends v s then c_sent s @ [mem_bytes (view sh s) (c_tpsr s * 256) (nat (c_tbcr s))]
      else c_sent s)\<rparr>"

text \<open>One step of the remote DMA, while its count lasts.\<close>

definition dma_step :: "cardst \<Rightarrow> cardst" where
  "dma_step s = s\<lparr>c_rsar := c_rsar s + 1, c_rbcr := c_rbcr s - 1\<rparr>"

definition card_reset :: "cardst \<Rightarrow> cardst" where
  "card_reset s = s\<lparr>c_cr := CR_NODMA OR CR_STP\<rparr>"

definition card_wr :: "sheet \<Rightarrow> nat \<Rightarrow> int \<Rightarrow> cardst \<Rightarrow> cardst" where
  "card_wr sh r v s =
    (if r = NU_CR then card_cr sh v s
     else if r = NU_RESET then card_reset s
     else if r = NU_DATA then
       (if c_cr s AND 0x38 = CR_RWRITE \<and> c_rbcr s > 0
        then dma_step (s\<lparr>c_mem := (c_mem s)(sh_dec sh (c_rsar s) := word_of_int v)\<rparr>) else s)
     else if c_cr s AND 0xc0 = CR_PAGE1 then (if r = NU_CURR then s\<lparr>c_curr := v mod 256\<rparr> else s)
     else if c_cr s AND 0xc0 \<noteq> 0 then s
     else if r = NU_PSTART then s\<lparr>c_pstart := v\<rparr>
     else if r = NU_PSTOP then s\<lparr>c_pstop := v\<rparr>
     else if r = NU_RSAR0 then s\<lparr>c_rsar := lo_byte v (c_rsar s)\<rparr>
     else if r = NU_RSAR1 then s\<lparr>c_rsar := hi_byte v (c_rsar s)\<rparr>
     else if r = NU_RBCR0 then s\<lparr>c_rbcr := lo_byte v (c_rbcr s)\<rparr>
     else if r = NU_RBCR1 then s\<lparr>c_rbcr := hi_byte v (c_rbcr s)\<rparr>
     else if r = NU_TPSR then s\<lparr>c_tpsr := v\<rparr>
     else if r = NU_TBCR0 then s\<lparr>c_tbcr := lo_byte v (c_tbcr s)\<rparr>
     else if r = NU_TBCR1 then s\<lparr>c_tbcr := hi_byte v (c_tbcr s)\<rparr>
     else if r = NU_BNRY then s\<lparr>c_bnry := v\<rparr>
     else if r = NU_TCR then s\<lparr>c_tcr := v\<rparr>
     else s)"

fun card_acc :: "sheet \<Rightarrow> acc \<Rightarrow> cardst \<Rightarrow> cardst" where
  "card_acc sh (Wr r v) s = card_wr sh r v s"
| "card_acc sh (Rd r) s =
    (if r = NU_RESET then card_reset s
     else if r = NU_DATA \<and> c_cr s AND 0x38 = CR_RREAD \<and> c_rbcr s > 0 then dma_step s else s)"
| "card_acc sh (Delay us) s = s"

text \<open>The cells of the receive ring; what arrives changes no others.\<close>

definition ring_cells :: "sheet \<Rightarrow> cardst \<Rightarrow> int set" where
  "ring_cells sh s = sh_dec sh ` {c_pstart s * 256 ..< c_pstop s * 256}"

definition put_cells :: "int set \<Rightarrow> (int \<Rightarrow> byte) \<Rightarrow> (int \<Rightarrow> byte) \<Rightarrow> int \<Rightarrow> byte" where
  "put_cells X n m a = (if a \<in> X then n a else m a)"

definition card_rx :: "sheet \<Rightarrow> (int \<times> (int \<Rightarrow> byte)) option \<Rightarrow> cardst \<Rightarrow> cardst" where
  "card_rx sh net s =
    (case net of
       None \<Rightarrow> s
     | Some (cur, m) \<Rightarrow> s\<lparr>c_curr := cur mod 256, c_mem := put_cells (ring_cells sh s) m (c_mem s)\<rparr>)"

text \<open>The state after the accesses \<open>l\<close> of the card that was in state \<open>s0\<close> before them.\<close>

definition card_st :: "sheet \<Rightarrow> cardst \<Rightarrow> acc list \<Rightarrow> cardst" where
  "card_st sh s0 l = snd (fold (\<lambda>a (h, s). (h @ [a], card_rx sh (sh_net sh (h @ [a])) (card_acc sh a s))) l ([], s0))"

definition card_ok :: "sheet \<Rightarrow> cardst \<Rightarrow> chip \<Rightarrow> bool" where
  "card_ok sh s0 c \<longleftrightarrow>
    (\<forall>l. let s = card_st sh s0 l in
      uint (c l NU_CR) AND 0xc3 = c_cr s AND 0xc3 \<and>
      (c_cr s AND 0xc0 = CR_PAGE1 \<longrightarrow> uint (c l NU_CURR) = c_curr s) \<and>
      (c_cr s AND 0x38 = CR_RREAD \<and> c_rbcr s > 0 \<longrightarrow> c l NU_DATA = view sh s (c_rsar s)))"

lemma no_send [simp]: "v AND CR_TXP = 0 \<Longrightarrow> \<not> sends v s"
  by (simp add: sends_def)

lemma card_st_Nil: "card_st sh s0 [] = s0"
  by (simp add: card_st_def)

lemma card_st_snoc: "card_st sh s0 (l @ [a]) = card_rx sh (sh_net sh (l @ [a])) (card_acc sh a (card_st sh s0 l))"
proof -
  have "fst (fold (\<lambda>a (h, s). (h @ [a], card_rx sh (sh_net sh (h @ [a])) (card_acc sh a s))) l (h0, s)) = h0 @ l" for h0 s
    by (induction l arbitrary: h0 s) simp_all
  from this [of "[]" s0] show ?thesis by (simp add: card_st_def case_prod_beta)
qed

text \<open>
  What is seen of the card's state: with \<open>None\<close> all of it, while nothing arrives; with \<open>Some X\<close> all but the cells \<open>X\<close> and
  the page the next frame goes to, where the ring lies in \<open>X\<close>.
\<close>

definition mask_cells :: "int set \<Rightarrow> (int \<Rightarrow> byte) \<Rightarrow> int \<Rightarrow> byte" where
  "mask_cells X m a = (if a \<in> X then 0 else m a)"

definition mask :: "int set option \<Rightarrow> cardst \<Rightarrow> cardst" where
  "mask R s = (case R of None \<Rightarrow> s | Some X \<Rightarrow> s\<lparr>c_curr := 0, c_mem := mask_cells X (c_mem s)\<rparr>)"

definition tame :: "sheet \<Rightarrow> cardst \<Rightarrow> int set option \<Rightarrow> nust \<Rightarrow> bool" where
  "tame sh s0 R st = (case R of None \<Rightarrow> \<forall>l. sh_net sh (n_log st @ l) = None
     | Some X \<Rightarrow> ring_cells sh (card_st sh s0 (n_log st)) \<subseteq> X)"

definition cst :: "sheet \<Rightarrow> cardst \<Rightarrow> int set option \<Rightarrow> nust \<Rightarrow> cardst" where
  "cst sh s0 R st = mask R (card_st sh s0 (n_log st))"

lemma mask_fields [simp]: "c_cr (mask R s) = c_cr s" "c_rsar (mask R s) = c_rsar s" "c_rbcr (mask R s) = c_rbcr s"
  "c_tpsr (mask R s) = c_tpsr s" "c_tbcr (mask R s) = c_tbcr s" "c_bnry (mask R s) = c_bnry s" "c_sent (mask R s) = c_sent s"
  "c_pstart (mask R s) = c_pstart s" "c_pstop (mask R s) = c_pstop s" "c_tcr (mask R s) = c_tcr s"
  by (simp_all add: mask_def split: option.split)

lemma mask_upd: "mask R (s\<lparr>c_cr := x\<rparr>) = (mask R s)\<lparr>c_cr := x\<rparr>" "mask R (s\<lparr>c_rsar := x\<rparr>) = (mask R s)\<lparr>c_rsar := x\<rparr>"
  "mask R (s\<lparr>c_rbcr := x\<rparr>) = (mask R s)\<lparr>c_rbcr := x\<rparr>" "mask R (s\<lparr>c_tpsr := x\<rparr>) = (mask R s)\<lparr>c_tpsr := x\<rparr>"
  "mask R (s\<lparr>c_tbcr := x\<rparr>) = (mask R s)\<lparr>c_tbcr := x\<rparr>" "mask R (s\<lparr>c_bnry := x\<rparr>) = (mask R s)\<lparr>c_bnry := x\<rparr>"
  "mask R (s\<lparr>c_pstart := x\<rparr>) = (mask R s)\<lparr>c_pstart := x\<rparr>" "mask R (s\<lparr>c_pstop := x\<rparr>) = (mask R s)\<lparr>c_pstop := x\<rparr>"
  "mask R (s\<lparr>c_tcr := x\<rparr>) = (mask R s)\<lparr>c_tcr := x\<rparr>" "mask R (s\<lparr>c_sent := y\<rparr>) = (mask R s)\<lparr>c_sent := y\<rparr>"
  by (cases R; simp add: mask_def)+

lemma mask_rx:
  assumes "case R of None \<Rightarrow> net = None | Some X \<Rightarrow> ring_cells sh s \<subseteq> X"
  shows "mask R (card_rx sh net s) = mask R s"
proof (cases R)
  case (Some X)
  then have "mask_cells X (put_cells (ring_cells sh s) m (c_mem s)) = mask_cells X (c_mem s)" for m
    using assms by (auto simp: mask_cells_def put_cells_def fun_eq_iff)
  then show ?thesis using Some by (cases net) (auto simp: mask_def card_rx_def)
qed (use assms in \<open>simp add: mask_def card_rx_def\<close>)

lemma ring_cells_rx: "ring_cells sh (card_rx sh net s) = ring_cells sh s"
  by (simp add: card_rx_def ring_cells_def split: option.split)

lemma acc_step:
  assumes "tame sh s0 R st" "n_log st' = n_log st @ [a]" "ring_cells sh (card_acc sh a (card_st sh s0 (n_log st))) = ring_cells sh (card_st sh s0 (n_log st))"
  shows "cst sh s0 R st' = mask R (card_acc sh a (card_st sh s0 (n_log st)))" "tame sh s0 R st'"
proof -
  let ?s = "card_acc sh a (card_st sh s0 (n_log st))"
  have "case R of None \<Rightarrow> sh_net sh (n_log st @ [a]) = None | Some X \<Rightarrow> ring_cells sh ?s \<subseteq> X"
    using assms(1,3) by (auto simp: tame_def split: option.splits)
  then show "cst sh s0 R st' = mask R ?s" by (simp add: cst_def assms(2) card_st_snoc mask_rx)
  show "tame sh s0 R st'" using assms by (auto simp: tame_def card_st_snoc ring_cells_rx split: option.splits)
qed

text \<open>Writes of the registers whose effect is not on the memory or the ring's bounds are seen through the mask.\<close>

lemma tame_other: "n_log st' = n_log st \<Longrightarrow> tame sh s0 R st' = tame sh s0 R st"
  by (simp add: tame_def cong: option.case_cong)

lemma cst_other: "n_log st' = n_log st \<Longrightarrow> cst sh s0 R st' = cst sh s0 R st"
  by (simp add: cst_def)

lemma wr_cells: "r \<noteq> NU_PSTART \<Longrightarrow> r \<noteq> NU_PSTOP \<Longrightarrow> ring_cells sh (card_wr sh r v s) = ring_cells sh s"
  by (simp add: card_wr_def card_cr_def card_reset_def dma_step_def ring_cells_def)

lemma wr_mask:
  assumes "r \<noteq> NU_CURR" "r \<noteq> NU_DATA" "r = NU_CR \<longrightarrow> v AND CR_TXP = 0"
  shows "mask R (card_wr sh r v s) = card_wr sh r v (mask R s)"
proof (cases "r = NU_CR")
  case False
  then show ?thesis using assms(1,2)
    by (simp only: card_wr_def if_distrib [of "mask R"] mask_upd mask_fields card_reset_def if_False)
qed (use assms(3) in \<open>simp add: card_wr_def card_cr_def mask_upd\<close>)

lemma cst_wr:
  assumes "tame sh s0 R st" "r \<notin> {NU_PSTART, NU_PSTOP, NU_CURR, NU_DATA}" "r = NU_CR \<longrightarrow> (v mod 256) AND CR_TXP = 0"
  shows "cst sh s0 R (nu_wr r v st) = card_wr sh r (v mod 256) (cst sh s0 R st)" "tame sh s0 R (nu_wr r v st)"
proof -
  let ?s = "card_st sh s0 (n_log st)"
  have l: "n_log (nu_wr r v st) = n_log st @ [Wr r (v mod 256)]" by (simp add: nu_wr_def)
  have c: "ring_cells sh (card_acc sh (Wr r (v mod 256)) ?s) = ring_cells sh ?s" using assms(2) wr_cells by simp
  show "tame sh s0 R (nu_wr r v st)" by (rule acc_step(2) [OF assms(1) l c])
  show "cst sh s0 R (nu_wr r v st) = card_wr sh r (v mod 256) (cst sh s0 R st)"
    using acc_step(1) [OF assms(1) l c] wr_mask [of r "v mod 256" R sh ?s] assms(2,3) by (simp add: cst_def)
qed

lemma cst_rd:
  assumes "tame sh s0 R st"
  shows "cst sh s0 R (snd (nu_rd c r st)) = card_acc sh (Rd r) (cst sh s0 R st)" "tame sh s0 R (snd (nu_rd c r st))"
proof -
  let ?s = "card_st sh s0 (n_log st)"
  have l: "n_log (snd (nu_rd c r st)) = n_log st @ [Rd r]" by (simp add: nu_rd_def)
  have c: "ring_cells sh (card_acc sh (Rd r) ?s) = ring_cells sh ?s" by (simp add: ring_cells_def card_reset_def dma_step_def)
  show "tame sh s0 R (snd (nu_rd c r st))" by (rule acc_step(2) [OF assms l c])
  have "mask R (card_acc sh (Rd r) ?s) = card_acc sh (Rd r) (mask R ?s)"
    by (simp add: mask_upd card_reset_def dma_step_def)
  then show "cst sh s0 R (snd (nu_rd c r st)) = card_acc sh (Rd r) (cst sh s0 R st)"
    using acc_step(1) [OF assms l c] by (simp add: cst_def)
qed

lemma cst_delay:
  assumes "tame sh s0 R st"
  shows "cst sh s0 R (nu_delay us st) = cst sh s0 R st" "tame sh s0 R (nu_delay us st)"
  using acc_step [OF assms, of "nu_delay us st" "Delay us"] by (simp_all add: nu_delay_def cst_def)

lemma card_ok_rd:
  assumes "card_ok sh s0 c"
  shows "fst (nu_rd c NU_CR st) AND 0xc3 = c_cr (cst sh s0 R st) AND 0xc3"
    "c_cr (cst sh s0 None st) AND 0xc0 = CR_PAGE1 \<Longrightarrow> fst (nu_rd c NU_CURR st) = c_curr (cst sh s0 None st)"
    "c_cr (cst sh s0 None st) AND 0x38 = CR_RREAD \<Longrightarrow> c_rbcr (cst sh s0 None st) > 0 \<Longrightarrow>
       word_of_int (fst (nu_rd c NU_DATA st)) = view sh (cst sh s0 None st) (c_rsar (cst sh s0 None st))"
  using assms by (auto simp: card_ok_def nu_rd_def cst_def mask_def Let_def split: option.split)

section \<open>The operations on such a card\<close>

text \<open>The card is seen in state \<open>s\<close>.\<close>

definition card_at :: "sheet \<Rightarrow> cardst \<Rightarrow> int set option \<Rightarrow> nust \<Rightarrow> cardst \<Rightarrow> bool" where
  "card_at sh s0 R st s \<longleftrightarrow> tame sh s0 R st \<and> cst sh s0 R st = s"

lemma at_fields: "card_at sh s0 R st s \<Longrightarrow> cst sh s0 R st = s"
  by (simp add: card_at_def)

lemma at_other: "card_at sh s0 R st s \<Longrightarrow> n_log st' = n_log st \<Longrightarrow> card_at sh s0 R st' s"
  unfolding card_at_def using cst_other [of st' st sh s0 R] tame_other [of st' st sh s0 R] by simp

lemma at_wr:
  assumes "card_at sh s0 R st s" "r \<notin> {NU_PSTART, NU_PSTOP, NU_CURR, NU_DATA}" "r = NU_CR \<longrightarrow> (v mod 256) AND CR_TXP = 0"
  shows "card_at sh s0 R (nu_wr r v st) (card_wr sh r (v mod 256) s)"
  using assms cst_wr [of sh s0 R st r v] unfolding card_at_def by blast

lemma at_rd: "card_at sh s0 R st s \<Longrightarrow> card_at sh s0 R (snd (nu_rd c r st)) (card_acc sh (Rd r) s)"
  unfolding card_at_def using cst_rd by auto

lemma at_delay: "card_at sh s0 R st s \<Longrightarrow> card_at sh s0 R (nu_delay us st) s"
  unfolding card_at_def using cst_delay by auto

lemma page_match: "x AND 0xc0 = v AND 0xc0 \<Longrightarrow> (x XOR v) AND (CR_PAGE1 OR CR_PAGE2) = 0" for x v :: int
proof -
  assume e: "x AND 0xc0 = v AND 0xc0"
  have "(x XOR v) AND 0xc0 = (x AND 0xc0) XOR (v AND 0xc0)"
    by (rule bit_eqI) (auto simp: bit_and_iff bit_xor_iff)
  then show ?thesis using e by simp
qed

lemma at_setcr:
  assumes "card_ok sh s0 c" "card_at sh s0 R st s" "0 \<le> v" "v < 256" "v AND CR_TXP = 0"
  shows "card_at sh s0 R (nu_setcr c v st) (s\<lparr>c_cr := v\<rparr>)"
proof -
  let ?st = "nu_wr NU_CR v st"
  have w: "card_wr sh NU_CR (v mod 256) s = s\<lparr>c_cr := v\<rparr>" using assms(3-5) by (simp add: card_wr_def card_cr_def)
  have s: "card_at sh s0 R ?st (s\<lparr>c_cr := v\<rparr>)"
    using at_wr [OF assms(2), of NU_CR v] assms(3-5) unfolding w by simp
  then have "fst (nu_rd c NU_CR ?st) AND 0xc3 = v AND 0xc3"
    using card_ok_rd(1) [OF assms(1), of ?st R] by (simp add: at_fields)
  then have "(fst (nu_rd c NU_CR ?st) AND 0xc3) AND 0xc0 = (v AND 0xc3) AND 0xc0" by simp
  then have "fst (nu_rd c NU_CR ?st) AND 0xc0 = v AND 0xc0" by (simp add: and.assoc)
  moreover obtain x st1 where r: "nu_rd c NU_CR ?st = (x, st1)" by fastforce
  ultimately have "setcr_loop c (Suc k) v st = snd (nu_rd c NU_CR ?st)" for k
    using page_match [of x v] by simp
  from this [of 3] have "nu_setcr c v st = snd (nu_rd c NU_CR ?st)" unfolding nu_setcr_def by simp
  then show ?thesis using at_rd [OF s, of c NU_CR] by simp
qed

text \<open>Accesses that leave the memory, the frames sent and the registers but the DMA's alone.\<close>

definition card_eq :: "cardst \<Rightarrow> cardst \<Rightarrow> bool" where
  "card_eq s s' \<longleftrightarrow> (\<exists>cr rs rb. s' = s\<lparr>c_cr := cr, c_rsar := rs, c_rbcr := rb\<rparr>)"

lemma card_eqI: "s' = s\<lparr>c_cr := cr, c_rsar := rs, c_rbcr := rb\<rparr> \<Longrightarrow> card_eq s s'"
  unfolding card_eq_def by blast

lemma card_eq_refl: "card_eq s s"
  by (rule card_eqI [where cr = "c_cr s" and rs = "c_rsar s" and rb = "c_rbcr s"]) simp

lemma card_eq_trans [trans]: "card_eq a b \<Longrightarrow> card_eq b d \<Longrightarrow> card_eq a d"
  unfolding card_eq_def by fastforce

lemma card_eq_fields: "card_eq s s' \<Longrightarrow> c_mem s' = c_mem s \<and> c_sent s' = c_sent s \<and> c_bnry s' = c_bnry s \<and> c_curr s' = c_curr s \<and>
    c_pstart s' = c_pstart s \<and> c_pstop s' = c_pstop s \<and> c_tcr s' = c_tcr s"
  by (auto simp: card_eq_def)

lemma card_eq_view: "card_eq s s' \<Longrightarrow> view sh s' = view sh s"
  using card_eq_fields by (simp add: view_def fun_eq_iff)

lemma card_eq_cr: "card_eq s (s\<lparr>c_cr := v\<rparr>)"
  by (rule card_eqI [where cr = v and rs = "c_rsar s" and rb = "c_rbcr s"]) simp

lemma at_isr: "card_at sh s0 R st s \<Longrightarrow> card_at sh s0 R (nu_wr NU_ISR v st) s \<or> c_cr s AND 0xc0 = CR_PAGE1"
  unfolding card_at_def
proof (rule disjCI)
  assume "tame sh s0 R st \<and> cst sh s0 R st = s" and "c_cr s AND 0xc0 \<noteq> CR_PAGE1"
  note a = this
  let ?s = "card_st sh s0 (n_log st)"
  have l: "n_log (nu_wr NU_ISR v st) = n_log st @ [Wr NU_ISR (v mod 256)]" by (simp add: nu_wr_def)
  have "c_cr ?s AND 0xc0 \<noteq> CR_PAGE1" using a by (auto simp: cst_def)
  then have w: "card_acc sh (Wr NU_ISR (v mod 256)) ?s = ?s" by (simp add: card_wr_def)
  show "tame sh s0 R (nu_wr NU_ISR v st) \<and> cst sh s0 R (nu_wr NU_ISR v st) = s"
    using acc_step [OF _ l, of sh s0 R] a w by (auto simp: cst_def)
qed

lemma at_isr0: "card_at sh s0 R st s \<Longrightarrow> c_cr s AND 0xc0 = 0 \<Longrightarrow> card_at sh s0 R (nu_wr NU_ISR v st) s"
  using at_isr by fastforce

lemma at_dmadone_loop: "card_at sh s0 R st s \<Longrightarrow> card_at sh s0 R (dmadone_loop c k st) s"
proof (induction c k st rule: dmadone_loop.induct)
  case (2 c k st)
  then show ?case using at_rd [OF 2(2), of c NU_ISR] by (auto split: prod.split)
qed simp

lemma at_dmadone: "card_at sh s0 R st s \<Longrightarrow> c_cr s AND 0xc0 = 0 \<Longrightarrow> card_at sh s0 R (nu_dmadone c st) s"
  unfolding nu_dmadone_def by (intro at_isr0 at_dmadone_loop)

lemma at_dma:
  assumes "card_ok sh s0 c" "card_at sh s0 R st s" "cmd = CR_RREAD \<or> cmd = CR_RWRITE" "0 \<le> a" "a < 65536" "0 \<le> n" "n < 65536"
  shows "card_at sh s0 R (nu_dma c a n cmd st) (s\<lparr>c_cr := cmd OR CR_STA, c_rsar := a, c_rbcr := n\<rparr>)"
proof -
  have h: "hi_byte (a div 256) (lo_byte (a mod 256) x) = a" "hi_byte (n div 256) (lo_byte (n mod 256) x) = n" for x
    by (simp_all add: hi_byte_def lo_byte_def)
  have b: "a div 256 mod 256 = a div 256" "n div 256 mod 256 = n div 256" using assms(4-7) by simp_all
  have 0: "card_at sh s0 R (nu_wr NU_ISR ISR_RDC (nu_setcr c (CR_NODMA OR CR_STA) st)) (s\<lparr>c_cr := 0x22\<rparr>)"
    using at_isr0 [OF at_setcr [OF assms(1,2), of "0x22"]] by simp
  note 1 = at_wr [OF 0, of NU_RBCR0 n]
  note 2 = at_wr [OF 1, of NU_RBCR1 "n div 256"]
  note 3 = at_wr [OF 2, of NU_RSAR0 a]
  note 4 = at_wr [OF 3, of NU_RSAR1 "a div 256"]
  note 5 = at_wr [OF 4, of NU_CR "cmd OR CR_STA"]
  have e: "s\<lparr>c_rbcr := n, c_rsar := a, c_cr := x\<rparr> = s\<lparr>c_cr := x, c_rsar := a, c_rbcr := n\<rparr>" for x by simp
  show ?thesis using 5 assms(3) by (auto simp: nu_dma_def card_wr_def card_cr_def h b e)
qed

lemma at_rddata:
  assumes "card_ok sh s0 c"
  shows "card_at sh s0 None st s \<Longrightarrow> c_cr s AND 0x38 = CR_RREAD \<Longrightarrow> int n \<le> c_rbcr s \<Longrightarrow>
    fst (nu_rddata c n st) = mem_bytes (view sh s) (c_rsar s) n \<and>
    card_at sh s0 None (snd (nu_rddata c n st)) (s\<lparr>c_rsar := c_rsar s + int n, c_rbcr := c_rbcr s - int n\<rparr>)"
proof (induction n arbitrary: st s)
  case (Suc n)
  obtain x st1 where r: "nu_rd c NU_DATA st = (x, st1)" by fastforce
  obtain bs st2 where d: "nu_rddata c n st1 = (bs, st2)" by fastforce
  let ?s1 = "dma_step s"
  have s: "card_at sh s0 None st1 ?s1" using at_rd [OF Suc.prems(1), of c NU_DATA] r Suc.prems(2,3) by simp
  have m: "mem_bytes m a (Suc n) = m a # mem_bytes m (a + 1) n" for m :: "int \<Rightarrow> byte" and a
    unfolding mem_bytes_def upt_conv_Cons [OF zero_less_Suc] map_Suc_upt [symmetric] by (simp add: o_def add.assoc)
  have v: "view sh ?s1 = view sh s" by (simp add: view_def dma_step_def fun_eq_iff)
  have "word_of_int x = view sh s (c_rsar s)"
    using card_ok_rd(3) [OF assms, of st] at_fields [OF Suc.prems(1)] Suc.prems(2,3) r by simp
  moreover have "fst (nu_rddata c n st1) = mem_bytes (view sh s) (c_rsar s + 1) n \<and>
      card_at sh s0 None (snd (nu_rddata c n st1)) (?s1\<lparr>c_rsar := c_rsar ?s1 + int n, c_rbcr := c_rbcr ?s1 - int n\<rparr>)"
    using Suc.IH [OF s] Suc.prems(2,3) unfolding v by (simp add: dma_step_def)
  ultimately show ?case using r d m by (simp add: dma_step_def algebra_simps)
qed (simp add: mem_bytes_def)

text \<open>A read of the memory, while nothing arrives; the select of page 0 stays.\<close>

definition page0 :: "cardst \<Rightarrow> bool" where
  "page0 s \<longleftrightarrow> c_cr s AND 0xc0 = 0"

lemma at_rdmem:
  assumes "card_ok sh s0 c" "card_at sh s0 None st s" "0 \<le> a" "a < 65536" "n < 65536"
  shows "\<exists>s'. fst (nu_rdmem c a n st) = mem_bytes (view sh s) a (nat n) \<and> card_eq s s' \<and> (page0 s \<longrightarrow> page0 s') \<and>
    card_at sh s0 None (snd (nu_rdmem c a n st)) s'"
proof (cases "n \<le> 0")
  case False
  let ?d = "nu_dma c a n CR_RREAD st" and ?s = "s\<lparr>c_cr := CR_RREAD OR CR_STA, c_rsar := a, c_rbcr := n\<rparr>"
  let ?s' = "s\<lparr>c_cr := CR_RREAD OR CR_STA, c_rsar := a + n, c_rbcr := 0\<rparr>"
  obtain bs st1 where r: "nu_rddata c (nat n) ?d = (bs, st1)" by fastforce
  have d: "card_at sh s0 None ?d ?s" using at_dma [OF assms(1,2) _ assms(3,4), of CR_RREAD n] False assms(5) by simp
  have v: "view sh ?s = view sh s" by (simp add: view_def fun_eq_iff)
  have "bs = mem_bytes (view sh s) a (nat n) \<and> card_at sh s0 None st1 ?s'"
    using at_rddata [OF assms(1) d, of "nat n"] r False unfolding v by simp
  moreover have "card_eq s ?s'" by (rule card_eqI) simp
  ultimately show ?thesis using False r at_dmadone [of sh s0 None st1 ?s' c]
    by (intro exI [of _ ?s']) (simp add: nu_rdmem_def page0_def)
qed (use assms(2) card_eq_refl in \<open>auto simp: nu_rdmem_def mem_bytes_def\<close>)

section \<open>Writing the memory\<close>

primrec dec_put :: "sheet \<Rightarrow> int \<Rightarrow> byte list \<Rightarrow> (int \<Rightarrow> byte) \<Rightarrow> int \<Rightarrow> byte" where
  "dec_put sh a [] m = m"
| "dec_put sh a (b # bs) m = dec_put sh (a + 1) bs (m(sh_dec sh a := b))"

lemma dec_put_out: "\<forall>x. a \<le> x \<and> x < a + int (length bs) \<longrightarrow> sh_dec sh x \<noteq> y \<Longrightarrow> dec_put sh a bs m y = m y"
proof (induction bs arbitrary: a m)
  case (Cons b bs)
  have "dec_put sh (a + 1) bs (m(sh_dec sh a := b)) y = (m(sh_dec sh a := b)) y" using Cons.prems by (intro Cons.IH) auto
  moreover have "sh_dec sh a \<noteq> y" using Cons.prems by auto
  ultimately show ?case by simp
qed simp

lemma dec_put_bytes:
  assumes "inj_on (sh_dec sh) {a..<a + int (length bs)}"
  shows "mem_bytes (\<lambda>x. dec_put sh a bs m (sh_dec sh x)) a (length bs) = bs"
  using assms
proof (induction bs arbitrary: a m)
  case (Cons b bs)
  have i: "inj_on (sh_dec sh) {a + 1..<a + 1 + int (length bs)}" by (rule inj_on_subset [OF Cons.prems]) auto
  have "dec_put sh (a + 1) bs (m(sh_dec sh a := b)) (sh_dec sh a) = (m(sh_dec sh a := b)) (sh_dec sh a)"
    by (rule dec_put_out) (use inj_onD [OF Cons.prems] in force)
  moreover have "mem_bytes m' a (Suc n) = m' a # mem_bytes m' (a + 1) n" for m' :: "int \<Rightarrow> byte" and n
    unfolding mem_bytes_def upt_conv_Cons [OF zero_less_Suc] map_Suc_upt [symmetric] by (simp add: o_def add.assoc)
  ultimately show ?case using Cons.IH [OF i] by simp
qed (simp add: mem_bytes_def)

text \<open>The cells of a stretch of addresses are seen.\<close>

definition seen :: "sheet \<Rightarrow> int set option \<Rightarrow> int \<Rightarrow> int \<Rightarrow> bool" where
  "seen sh R a n \<longleftrightarrow> (case R of None \<Rightarrow> True | Some X \<Rightarrow> \<forall>x. a \<le> x \<and> x < a + n \<longrightarrow> sh_dec sh x \<notin> X)"

lemma mask_view: "seen sh R a n \<Longrightarrow> a \<le> x \<Longrightarrow> x < a + n \<Longrightarrow> view sh (mask R s) x = view sh s x"
  by (cases R) (auto simp: seen_def mask_def view_def mask_cells_def)

lemma mask_bytes: "seen sh R a (int n) \<Longrightarrow> mem_bytes (view sh (mask R s)) a n = mem_bytes (view sh s) a n"
  by (auto simp: mem_bytes_def intro!: mask_view)

lemma at_data:
  assumes "card_at sh s0 R st s" "seen sh R (c_rsar s) 1" "c_cr s AND 0x38 = CR_RWRITE" "c_rbcr s > 0"
  shows "card_at sh s0 R (nu_wr NU_DATA (uint b) st) (dma_step (s\<lparr>c_mem := (c_mem s)(sh_dec sh (c_rsar s) := b)\<rparr>))"
proof -
  let ?s = "card_st sh s0 (n_log st)"
  have t: "tame sh s0 R st" "s = mask R ?s" using assms(1) by (simp_all add: card_at_def cst_def)
  have u: "uint b mod 256 = uint b" using uint_range_size [of b] by (simp add: word_size)
  have l: "n_log (nu_wr NU_DATA (uint b) st) = n_log st @ [Wr NU_DATA (uint b mod 256)]" by (simp add: nu_wr_def)
  have a: "card_acc sh (Wr NU_DATA (uint b mod 256)) ?s = dma_step (?s\<lparr>c_mem := (c_mem ?s)(sh_dec sh (c_rsar ?s) := b)\<rparr>)"
    using assms(3,4) unfolding t(2) u by (simp add: card_wr_def)
  have c: "ring_cells sh (card_acc sh (Wr NU_DATA (uint b mod 256)) ?s) = ring_cells sh ?s"
    unfolding a by (simp add: ring_cells_def dma_step_def)
  have "mask R (?s\<lparr>c_mem := (c_mem ?s)(y := b)\<rparr>) = s\<lparr>c_mem := (c_mem s)(y := b)\<rparr>" if "y = sh_dec sh (c_rsar ?s)" for y
  proof (cases R)
    case (Some X)
    then have "y \<notin> X" using assms(2) unfolding t(2) that by (simp add: seen_def)
    then have "mask_cells X ((c_mem ?s)(y := b)) = (mask_cells X (c_mem ?s))(y := b)" by (auto simp: mask_cells_def fun_eq_iff)
    then show ?thesis unfolding t(2) Some by (simp add: mask_def)
  qed (simp add: t(2) mask_def)
  then show ?thesis using acc_step [OF t(1) l c] unfolding a card_at_def t(2) by (simp add: dma_step_def mask_upd)
qed

lemma at_wrdata:
  "card_at sh s0 R st s \<Longrightarrow> c_cr s AND 0x38 = CR_RWRITE \<Longrightarrow> int (length bs) \<le> c_rbcr s \<Longrightarrow> seen sh R (c_rsar s) (int (length bs)) \<Longrightarrow>
    card_at sh s0 R (nu_wrdata bs st) (s\<lparr>c_mem := dec_put sh (c_rsar s) bs (c_mem s), c_rsar := c_rsar s + int (length bs),
      c_rbcr := c_rbcr s - int (length bs)\<rparr>)"
  unfolding nu_wrdata_def
proof (induction bs arbitrary: st s)
  case (Cons b bs)
  define m1 where "m1 = (c_mem s)(sh_dec sh (c_rsar s) := b)"
  let ?s1 = "dma_step (s\<lparr>c_mem := m1\<rparr>)"
  have n: "seen sh R (c_rsar s) 1" "seen sh R (c_rsar s + 1) (int (length bs))" using Cons.prems(4)
    by (auto simp: seen_def split: option.splits)
  have s: "card_at sh s0 R (nu_wr NU_DATA (uint b) st) ?s1" unfolding m1_def using at_data [OF Cons.prems(1) n(1) Cons.prems(2)] Cons.prems(3) by simp
  have "card_at sh s0 R (nu_wrs (map (\<lambda>b. (NU_DATA, uint b)) bs) (nu_wr NU_DATA (uint b) st))
      (?s1\<lparr>c_mem := dec_put sh (c_rsar ?s1) bs (c_mem ?s1), c_rsar := c_rsar ?s1 + int (length bs), c_rbcr := c_rbcr ?s1 - int (length bs)\<rparr>)"
    using Cons.IH [OF s] Cons.prems(2,3) n(2) by (simp add: dma_step_def)
  moreover have "dec_put sh (c_rsar s) (b # bs) (c_mem s) = dec_put sh (c_rsar s + 1) bs m1" by (simp add: m1_def)
  ultimately show ?case by (simp add: dma_step_def algebra_simps del: dec_put.simps)
qed simp

lemma at_wrmem:
  assumes "card_ok sh s0 c" "card_at sh s0 R st s" "0 \<le> a" "a < 65536" "length bs < 65536" "seen sh R a (int (length bs))"
  shows "\<exists>s'. card_eq (s\<lparr>c_mem := dec_put sh a bs (c_mem s)\<rparr>) s' \<and> card_at sh s0 R (nu_wrmem c a bs st) s'"
proof (cases "bs = []")
  case True
  then show ?thesis using assms(2) card_eq_refl by (auto simp: nu_wrmem_def)
next
  case False
  let ?s = "s\<lparr>c_cr := CR_RWRITE OR CR_STA, c_rsar := a, c_rbcr := int (length bs)\<rparr>"
  let ?s' = "?s\<lparr>c_mem := dec_put sh a bs (c_mem s), c_rsar := a + int (length bs), c_rbcr := 0\<rparr>"
  have "card_at sh s0 R (nu_dma c a (int (length bs)) CR_RWRITE st) ?s"
    using at_dma [OF assms(1,2) _ assms(3,4), of CR_RWRITE "int (length bs)"] assms(5) by simp
  from at_wrdata [OF this, of bs] assms(6)
  have "card_at sh s0 R (nu_wrdata bs (nu_dma c a (int (length bs)) CR_RWRITE st)) ?s'" by simp
  from at_dmadone [OF this, of c] show ?thesis using False
    by (intro exI [of _ ?s'] conjI card_eqI [where cr = "CR_RWRITE OR CR_STA" and rs = "a + int (length bs)" and rb = 0])
      (simp_all add: nu_wrmem_def)
qed

end
