(* ===== verification/NuWire.thy ===== *)
theory NuWire
  imports NuCard
begin

unbundle bit_operations_syntax

text \<open>
  With a card that keeps its data sheet: the frame given to \<open>nu_txstart\<close> is the frame sent, and
  the frames in the ring are the frames given to the driver, in order.
\<close>

section \<open>Transmit\<close>

lemma card_cr_eq: "v AND CR_TXP = 0 \<Longrightarrow> card_eq s (card_cr sh v s)"
  by (rule card_eqI [where cr = v and rs = "c_rsar s" and rb = "c_rbcr s"]) (simp add: card_cr_def)

lemma at_page0: "card_ok sh s0 c \<Longrightarrow> card_at sh s0 R st s \<Longrightarrow> card_at sh s0 R (nu_page0 c st) (s\<lparr>c_cr := 0x22\<rparr>)"
  unfolding nu_page0_def using at_setcr [of sh s0 c R st s "0x22"] by simp

text \<open>The write that starts a transmit.\<close>

lemma at_txp:
  assumes "card_at sh s0 R st s" "sends v s" "0 \<le> v" "v < 256" "seen sh R (c_tpsr s * 256) (int (nat (c_tbcr s)))"
  shows "c_sent (cst sh s0 R (nu_wr NU_CR v st)) = c_sent s @ [mem_bytes (view sh s) (c_tpsr s * 256) (nat (c_tbcr s))]"
proof -
  let ?s = "card_st sh s0 (n_log st)"
  have t: "tame sh s0 R st" "s = mask R ?s" using assms(1) by (simp_all add: card_at_def cst_def)
  have l: "n_log (nu_wr NU_CR v st) = n_log st @ [Wr NU_CR v]" using assms(3,4) by (simp add: nu_wr_def)
  have c: "ring_cells sh (card_acc sh (Wr NU_CR v) ?s) = ring_cells sh ?s" using wr_cells by simp
  have "c_sent (cst sh s0 R (nu_wr NU_CR v st)) = c_sent (card_cr sh v ?s)"
    using acc_step(1) [OF t(1) l c] by (simp add: card_wr_def)
  also have "\<dots> = c_sent s @ [mem_bytes (view sh ?s) (c_tpsr s * 256) (nat (c_tbcr s))]" using assms(2) by (simp add: card_cr_def t(2) sends_def)
  also have "mem_bytes (view sh ?s) (c_tpsr s * 256) (nat (c_tbcr s)) = mem_bytes (view sh s) (c_tpsr s * 256) (nat (c_tbcr s))"
    using mask_bytes [OF assms(5), of ?s] by (simp add: t(2))
  finally show ?thesis .
qed

lemma kick_card:
  assumes "card_ok sh s0 c" "card_at sh s0 R st s" "0 \<le> n_memlo st" "n_memlo st < 250" "n_txlen st ! 0 = n" "0 \<le> n" "n < 65536"
    "seen sh R (n_memlo st * 256) n" "c_tcr s AND 0x06 = 0"
  shows "c_sent (cst sh s0 R (nu_kick c 0 st)) = c_sent s @ [mem_bytes (view sh s) (n_memlo st * 256) (nat n)]"
proof -
  let ?k = "st\<lparr>n_txcur := int 0, n_txage := 0\<rparr>"
  have m: "n_memlo (nu_page0 c ?k) = n_memlo st" using bus_only_fields(1) [OF bus_only_setcr(2) [of ?k c]] by simp
  have h: "hi_byte (n div 256) (lo_byte (n mod 256) x) = n" for x by (simp add: hi_byte_def lo_byte_def)
  have d: "n div 256 mod 256 = n div 256" "n_memlo st mod 256 = n_memlo st" using assms(3,4,6,7) by simp_all
  have 0: "card_at sh s0 R (nu_page0 c ?k) (s\<lparr>c_cr := 0x22\<rparr>)" by (rule at_page0 [OF assms(1) at_other [OF assms(2)]]) simp
  note 1 = at_wr [OF 0, of NU_TPSR "n_memlo st"]
  note 2 = at_wr [OF 1, of NU_TBCR0 n]
  note 3 = at_wr [OF 2, of NU_TBCR1 "n div 256"]
  let ?s3 = "s\<lparr>c_cr := 0x22, c_tpsr := n_memlo st, c_tbcr := n\<rparr>"
  have e: "card_at sh s0 R (nu_wr NU_TBCR1 (n div 256) (nu_wr NU_TBCR0 n (nu_wr NU_TPSR (n_memlo st) (nu_page0 c ?k)))) ?s3"
    using 3 by (simp add: card_wr_def h d)
  have v: "view sh ?s3 = view sh s" by (simp add: view_def fun_eq_iff)
  show ?thesis using at_txp [OF e, of "CR_NODMA OR CR_STA OR CR_TXP"] assms(5,6,8,9) v m by (simp add: nu_kick_def Let_def sends_def)
qed

lemma kick_fields:
  "n_txcur (nu_kick c b st) = int b \<and> n_txlen (nu_kick c b st) = n_txlen st \<and> n_txfill (nu_kick c b st) = n_txfill st \<and>
    n_txbuf (nu_kick c b st) = n_txbuf st \<and> ring_ok (nu_kick c b st) = ring_ok st \<and> n_input (nu_kick c b st) = n_input st \<and>
    n_running (nu_kick c b st) = n_running st"
proof -
  let ?k = "st\<lparr>n_txcur := int b, n_txage := 0\<rparr>"
  have "bus_only ?k (nu_kick c b st)"
    unfolding nu_kick_def Let_def using bus_only_trans [OF bus_only_setcr(2) bus_only_wrs] by blast
  note f = bus_only_fields [OF this]
  show ?thesis using f by (simp add: ring_ok_def)
qed

definition padded :: "nat \<Rightarrow> byte list \<Rightarrow> byte list" where
  "padded len buf = take len buf @ replicate (60 - len) 0"

text \<open>What \<open>nu_txstart\<close> does to an idle transmitter, whatever card answers.\<close>

lemma txstart_idle:
  assumes "nu_inv st" "n_txcur st < 0" "len \<le> 1514"
  shows "\<exists>st1. bus_only (st\<lparr>n_txbuf := padded len (n_txbuf st) @ drop (max len 60) (n_txbuf st)\<rparr>) st1 \<and>
    st1 = nu_wrmem c (n_memlo st * 256) (padded len (n_txbuf st))
      (st\<lparr>n_txbuf := padded len (n_txbuf st) @ drop (max len 60) (n_txbuf st)\<rparr>) \<and>
    nu_txstart c len st = Some (nu_kick c 0 (st1\<lparr>n_txlen := [int (max len 60)], n_txfill := 0\<rparr>))"
proof -
  have n: "n_txfill st = 0" "length (n_txbuf st) = 1514" "length (n_txlen st) = 1"
    using assms(1) by (auto simp: nu_inv_def tx_ok_def)
  have l: "len + (60 - len) = max len 60" by simp
  let ?buf = "take len (n_txbuf st) @ replicate (60 - len) 0 @ drop (max len 60) (n_txbuf st)"
  have b: "?buf = padded len (n_txbuf st) @ drop (max len 60) (n_txbuf st)" by (simp add: padded_def)
  have t: "take (max len 60) (padded len (n_txbuf st) @ drop (max len 60) (n_txbuf st)) = padded len (n_txbuf st)"
    using n(2) assms(3) by (simp add: padded_def)
  have e: "nat NU_MINFRAME = 60" "nat NU_MAXFRAME = 1514" "NU_NTX = 1" by (simp_all add: nu_consts)
  have z: "n_memlo st + int 0 * NU_TXPAGES = n_memlo st" by simp
  let ?s = "st\<lparr>n_txbuf := padded len (n_txbuf st) @ drop (max len 60) (n_txbuf st)\<rparr>"
  define st1 where "st1 = nu_wrmem c (n_memlo st * 256) (padded len (n_txbuf st)) ?s"
  have bus: "bus_only ?s st1" unfolding st1_def by (rule bus_only_wrmem)
  note f = bus_only_fields [OF bus]
  obtain x where "n_txlen st1 = [x]" using n(3) f(6) by (cases "n_txlen st") auto
  moreover have "n_txcur st1 < 0" using f(7) assms(2) by simp
  ultimately have "nu_txstart c len st = Some (nu_kick c 0 (st1\<lparr>n_txlen := [int (max len 60)], n_txfill := 0\<rparr>))"
    unfolding nu_txstart_def Let_def n(1) e l b t z st1_def [symmetric] using assms(3) by (simp add: f(6))
  then show ?thesis using bus st1_def by blast
qed

text \<open>
  A frame given to an idle transmitter is the frame the card puts on the wire, padded with
  zeros to the 60 bytes of the shortest frame; afterwards the transmitter is taken.
\<close>

lemma txstart_sends:
  assumes "card_ok sh s0 c" "card_at sh s0 R st s" "nu_inv st" "n_txcur st < 0" "len \<le> 1514" "0 \<le> n_memlo st" "n_memlo st < 250"
    "c_tcr s AND 0x06 = 0" "seen sh R (n_memlo st * 256) 1514" "inj_on (sh_dec sh) {n_memlo st * 256..<n_memlo st * 256 + 1514}"
  shows "\<exists>st'. nu_txstart c len st = Some st' \<and> nu_inv st' \<and> n_txcur st' = 0 \<and> n_txlen st' = [int (max len 60)] \<and>
    c_sent (cst sh s0 R st') = c_sent s @ [take len (n_txbuf st) @ replicate (60 - len) 0]"
proof -
  let ?f = "padded len (n_txbuf st)" and ?s = "st\<lparr>n_txbuf := padded len (n_txbuf st) @ drop (max len 60) (n_txbuf st)\<rparr>"
  let ?a = "n_memlo st * 256"
  obtain st1 where 1: "bus_only ?s st1" "st1 = nu_wrmem c ?a ?f ?s"
    "nu_txstart c len st = Some (nu_kick c 0 (st1\<lparr>n_txlen := [int (max len 60)], n_txfill := 0\<rparr>))"
    using txstart_idle [OF assms(3-5)] by blast
  let ?st2 = "st1\<lparr>n_txlen := [int (max len 60)], n_txfill := 0\<rparr>"
  note f = bus_only_fields [OF 1(1)]
  have n: "length (n_txbuf st) = 1514" "ring_ok st" using assms(3) by (auto simp: nu_inv_def tx_ok_def)
  have l: "length ?f = max len 60" using n(1) assms(5) by (simp add: padded_def)
  have q: "seen sh R ?a (int (max len 60))" "inj_on (sh_dec sh) {?a..<?a + int (length ?f)}"
    using assms(9) inj_on_subset [OF assms(10), of "{?a..<?a + int (length ?f)}"] assms(5) l by (auto simp: seen_def split: option.splits)
  have "\<exists>s'. card_eq (s\<lparr>c_mem := dec_put sh ?a ?f (c_mem s)\<rparr>) s' \<and> card_at sh s0 R st1 s'"
    unfolding 1(2) using assms(5-7) l q(1) by (intro at_wrmem [OF assms(1) at_other [OF assms(2)]]) simp_all
  then obtain s' where s': "card_eq (s\<lparr>c_mem := dec_put sh ?a ?f (c_mem s)\<rparr>) s'" "card_at sh s0 R st1 s'" by blast
  have k: "n_memlo ?st2 = n_memlo st" "n_txlen ?st2 ! 0 = int (max len 60)" "c_tcr s' AND 0x06 = 0"
    using f(1) card_eq_fields [OF s'(1)] assms(8) by simp_all
  have "c_sent (cst sh s0 R (nu_kick c 0 ?st2)) = c_sent s' @ [mem_bytes (view sh s') (n_memlo ?st2 * 256) (nat (int (max len 60)))]"
    by (rule kick_card [OF assms(1) at_other [OF s'(2)]]) (use k assms(5-7) q(1) in simp_all)
  moreover have "view sh s' = (\<lambda>x. dec_put sh ?a ?f (c_mem s) (sh_dec sh x))" using card_eq_fields [OF s'(1)] by (simp add: view_def fun_eq_iff)
  moreover have "c_sent s' = c_sent s" using card_eq_fields [OF s'(1)] by simp
  ultimately have "c_sent (cst sh s0 R (nu_kick c 0 ?st2)) = c_sent s @ [?f]"
    using dec_put_bytes [OF q(2), of "c_mem s"] l k(1) by simp
  moreover have "ring_ok ?st2" using n(2) f by (simp add: ring_ok_def)
  ultimately show ?thesis
    using 1(3) kick_fields [of c 0 ?st2] f(19) n(1) assms(5) l f(18)
    by (auto simp: nu_inv_def tx_ok_def padded_def)
qed

section \<open>Receive\<close>

text \<open>Bytes of the ring of pages \<open>a\<close> to \<open>b\<close> from address \<open>x\<close>, which wrap at its end.\<close>

definition ring_bytes :: "(int \<Rightarrow> byte) \<Rightarrow> int \<Rightarrow> int \<Rightarrow> int \<Rightarrow> nat \<Rightarrow> byte list" where
  "ring_bytes m a b x n = map (\<lambda>k. m (if x + int k \<ge> b * 256 then x + int k - (b - a) * 256 else x + int k)) [0..<n]"

text \<open>
  The ring holds the frames \<open>fs\<close> from page \<open>p\<close> to page \<open>cur\<close>: each with a header (status received,
  next page, count with the header and the \<open>e\<close> bytes of CRC the chip counts), the next page as many pages on as the count
  takes, or one more.
\<close>

fun ring_frames :: "(int \<Rightarrow> byte) \<Rightarrow> int \<Rightarrow> int \<Rightarrow> int \<Rightarrow> int \<Rightarrow> int \<Rightarrow> byte list list \<Rightarrow> bool" where
  "ring_frames m e a b p cur [] \<longleftrightarrow> p = cur"
| "ring_frames m e a b p cur (f # fs) \<longleftrightarrow>
    (let h = ring_bytes m a b (p * 256) 4; nxt = uint (h ! 1); cnt = int (length f) + 4 + e;
         pages = (cnt + 255) div 256; dist = (nxt - p + (b - a)) mod (b - a)
     in p \<noteq> cur \<and> h ! 0 AND 0x01 \<noteq> 0 \<and> uint (h ! 2) + 256 * uint (h ! 3) = cnt \<and> a \<le> nxt \<and> nxt < b \<and>
        (dist = pages \<or> dist = pages + 1) \<and> frame_ok f \<and> ring_bytes m a b (p * 256 + 4) (length f) = f \<and>
        ring_frames m e a b nxt cur fs)"

lemma ring_bytes_take: "k \<le> n \<Longrightarrow> take k (ring_bytes m a b x n) = ring_bytes m a b x k"
  by (simp add: ring_bytes_def take_map)

lemma ring_bytes_split:
  assumes "x < b * 256" "a \<le> b" "k \<le> n" "x + int k = b * 256 \<or> k = n \<and> x + int n \<le> b * 256" "n \<le> k + nat ((b - a) * 256)"
  shows "ring_bytes m a b x n = mem_bytes m x k @ mem_bytes m (a * 256) (n - k)"
proof (rule nth_equalityI)
  show "length (ring_bytes m a b x n) = length (mem_bytes m x k @ mem_bytes m (a * 256) (n - k))"
    using assms(3) by (simp add: ring_bytes_def mem_bytes_def)
next
  fix i assume "i < length (ring_bytes m a b x n)"
  then have "i < n" by (simp add: ring_bytes_def)
  then have "ring_bytes m a b x n ! i = m (if x + int i \<ge> b * 256 then x + int i - (b - a) * 256 else x + int i)"
    by (simp add: ring_bytes_def)
  also have "(if x + int i \<ge> b * 256 then x + int i - (b - a) * 256 else x + int i) =
      (if i < k then x + int i else a * 256 + int (i - k))"
    using assms(1-4) \<open>i < n\<close> by (auto simp: of_nat_diff algebra_simps)
  also have "m \<dots> = (mem_bytes m x k @ mem_bytes m (a * 256) (n - k)) ! i"
    using assms(3) \<open>i < n\<close> by (cases "i < k") (simp_all add: mem_bytes_def nth_append)
  finally show "ring_bytes m a b x n ! i = (mem_bytes m x k @ mem_bytes m (a * 256) (n - k)) ! i" .
qed

text \<open>What leaves the card as it was but for the DMA's registers, while nothing arrives.\<close>

definition card_like :: "cardst \<Rightarrow> cardst \<Rightarrow> bool" where
  "card_like s s' \<longleftrightarrow> (\<exists>t. card_eq (s\<lparr>c_tcr := t\<rparr>) s')"

lemma card_like_eq: "card_eq s s' \<Longrightarrow> card_like s s'"
  unfolding card_like_def by (rule exI [of _ "c_tcr s"]) simp

lemma card_like_refl: "card_like s s"
  by (rule card_like_eq [OF card_eq_refl])

lemma card_like_trans: "card_like a b \<Longrightarrow> card_like b d \<Longrightarrow> card_like a d"
  unfolding card_like_def card_eq_def by force

lemma card_like_fields: "card_like s s' \<Longrightarrow> c_mem s' = c_mem s \<and> c_sent s' = c_sent s \<and> c_bnry s' = c_bnry s \<and> c_curr s' = c_curr s"
  using card_eq_fields by (fastforce simp: card_like_def)

lemma card_like_view: "card_like s s' \<Longrightarrow> view sh s' = view sh s"
  using card_like_fields by (simp add: view_def fun_eq_iff)

definition like :: "sheet \<Rightarrow> cardst \<Rightarrow> nust \<Rightarrow> nust \<Rightarrow> bool" where
  "like sh s0 a b \<longleftrightarrow> tame sh s0 None b \<and> card_like (cst sh s0 None a) (cst sh s0 None b)"

lemma like_trans: "like sh s0 a b \<Longrightarrow> like sh s0 b d \<Longrightarrow> like sh s0 a d"
  unfolding like_def using card_like_trans by blast

abbreviation (input) on_page0 :: "sheet \<Rightarrow> cardst \<Rightarrow> nust \<Rightarrow> bool" where
  "on_page0 sh s0 st \<equiv> page0 (cst sh s0 None st)"

abbreviation (input) ringm :: "sheet \<Rightarrow> cardst \<Rightarrow> nust \<Rightarrow> int \<Rightarrow> byte" where
  "ringm sh s0 st \<equiv> view sh (cst sh s0 None st)"

lemma like_view: "like sh s0 a b \<Longrightarrow> ringm sh s0 b = ringm sh s0 a"
  unfolding like_def using card_like_view by blast

lemma rdmem_like:
  assumes "card_ok sh s0 c" "tame sh s0 None st" "0 \<le> a" "a < 65536" "n < 65536"
  shows "fst (nu_rdmem c a n st) = mem_bytes (ringm sh s0 st) a (nat n)" "like sh s0 st (snd (nu_rdmem c a n st))"
    "on_page0 sh s0 st \<Longrightarrow> on_page0 sh s0 (snd (nu_rdmem c a n st))"
proof -
  have "card_at sh s0 None st (cst sh s0 None st)" using assms(2) by (simp add: card_at_def)
  from at_rdmem [OF assms(1) this assms(3-5)] obtain s' where "fst (nu_rdmem c a n st) = mem_bytes (ringm sh s0 st) a (nat n)"
    "card_eq (cst sh s0 None st) s'" "page0 (cst sh s0 None st) \<longrightarrow> page0 s'" "card_at sh s0 None (snd (nu_rdmem c a n st)) s'" by blast
  then show "fst (nu_rdmem c a n st) = mem_bytes (ringm sh s0 st) a (nat n)" "like sh s0 st (snd (nu_rdmem c a n st))"
    "on_page0 sh s0 st \<Longrightarrow> on_page0 sh s0 (snd (nu_rdmem c a n st))" by (auto simp: like_def card_at_def card_like_eq)
qed

lemma rdring_card:
  assumes "card_ok sh s0 c" "tame sh s0 None st" "on_page0 sh s0 st" "ring_ok st" "n_rxstart st \<le> p" "p < n_rxstop st"
    "0 \<le> off" "off < 256" "0 \<le> n" "n \<le> (n_rxstop st - n_rxstart st) * 256"
  shows "fst (nu_rdring c p off n st) =
      ring_bytes (ringm sh s0 st) (n_rxstart st) (n_rxstop st) (p * 256 + off) (nat n) \<and>
    like sh s0 st (snd (nu_rdring c p off n st)) \<and> on_page0 sh s0 (snd (nu_rdring c p off n st))"
proof -
  define top where "top = n_rxstop st * 256"
  define a where "a = p * 256 + off"
  define k where "k = (if top - a > n then n else top - a)"
  have b: "0 < n_rxstart st" "n_rxstart st < n_rxstop st" "n_rxstop st \<le> 256" using assms(4) by (auto simp: ring_ok_def)
  have a: "0 \<le> a" "a < top" "a < 65536" using assms(5-8) b unfolding a_def top_def by linarith+
  have s: "0 \<le> n_rxstart st * 256" "n_rxstart st * 256 < 65536" using b by linarith+
  have k: "0 \<le> k" "k \<le> n" using a(2) assms(9) by (auto simp: k_def)
  have "(n_rxstop st - n_rxstart st) * 256 \<le> 255 * 256" using b by simp
  then have n: "n < 65536" using assms(10) by simp
  then have n: "n < 65536" "k < 65536" "n - k < 65536" using k by simp_all
  obtain xs st1 where 1: "nu_rdmem c a k st = (xs, st1)" by fastforce
  obtain ys st2 where 2: "nu_rdmem c (n_rxstart st * 256) (n - k) st1 = (ys, st2)" by fastforce
  have r: "nu_rdring c p off n st = (xs @ ys, st2)"
    unfolding nu_rdring_def Let_def top_def [symmetric] a_def [symmetric] using 1 2 a
    by (cases "top - a > n") (simp_all add: k_def)
  have x: "xs = mem_bytes (ringm sh s0 st) a (nat k)" "like sh s0 st st1" "on_page0 sh s0 st1"
    using rdmem_like [OF assms(1,2) a(1,3) n(2)] assms(3) 1 by auto
  have t1: "tame sh s0 None st1" using x(2) by (simp add: like_def)
  have y: "ys = mem_bytes (ringm sh s0 st1) (n_rxstart st * 256) (nat (n - k))" "like sh s0 st1 st2" "on_page0 sh s0 st2"
    using rdmem_like [OF assms(1) t1 s n(3)] x(3) 2 by auto
  have nk: "nat (n - k) = nat n - nat k" using k by simp
  have "ring_bytes (ringm sh s0 st) (n_rxstart st) (n_rxstop st) a (nat n) = xs @ ys"
    unfolding x(1) y(1) like_view [OF x(2)] nk
    by (rule ring_bytes_split) (use a k b assms(9,10) in \<open>auto simp: top_def k_def\<close>)
  then show ?thesis
    using r y(3) like_trans [OF x(2) y(2)] unfolding a_def by simp
qed

lemma curr_card:
  assumes "card_ok sh s0 c" "tame sh s0 None st"
  shows "fst (nu_curr c st) = c_curr (cst sh s0 None st) \<and> like sh s0 st (snd (nu_curr c st)) \<and> on_page0 sh s0 (snd (nu_curr c st))"
proof -
  let ?s = "cst sh s0 None st" and ?p = "nu_setcr c (CR_NODMA OR CR_STA OR CR_PAGE1) st"
  obtain x st1 where r: "nu_rd c NU_CURR ?p = (x, st1)" by fastforce
  have "card_at sh s0 None st ?s" using assms(2) by (simp add: card_at_def)
  then have s: "card_at sh s0 None ?p (?s\<lparr>c_cr := 0x62\<rparr>)" using at_setcr [OF assms(1), of None st ?s "0x62"] by simp
  have "x = c_curr ?s" using card_ok_rd(2) [OF assms(1), of ?p] r at_fields [OF s] by simp
  moreover have "card_at sh s0 None st1 (?s\<lparr>c_cr := 0x62\<rparr>)" using at_rd [OF s, of c NU_CURR] r by simp
  then have "card_at sh s0 None (nu_page0 c st1) (?s\<lparr>c_cr := 0x62, c_cr := 0x22\<rparr>)" by (rule at_page0 [OF assms(1)])
  ultimately show ?thesis using r card_like_eq [OF card_eq_cr [of ?s "0x22"]] by (simp add: nu_curr_def like_def card_at_def page0_def)
qed

text \<open>A ring that holds \<open>fs\<close>, on a chip that counts the CRC or, as the driver has found out, does not.\<close>

definition rx_pre :: "sheet \<Rightarrow> cardst \<Rightarrow> nust \<Rightarrow> byte list list \<Rightarrow> bool" where
  "rx_pre sh s0 st fs \<longleftrightarrow> tame sh s0 None st \<and> ring_ok st \<and> n_rxstart st \<le> c_curr (cst sh s0 None st) \<and>
     c_curr (cst sh s0 None st) < n_rxstop st \<and>
     ring_frames (ringm sh s0 st) (if n_nocrc st then 0 else 4) (n_rxstart st) (n_rxstop st) (n_rxnext st) (c_curr (cst sh s0 None st)) fs"

definition bnry_page :: "nust \<Rightarrow> int" where
  "bnry_page st = (if n_rxnext st = n_rxstart st then n_rxstop st else n_rxnext st) - 1"

lemma like_curr: "like sh s0 a b \<Longrightarrow> c_curr (cst sh s0 None b) = c_curr (cst sh s0 None a) \<and> c_sent (cst sh s0 None b) = c_sent (cst sh s0 None a) \<and>
    c_bnry (cst sh s0 None b) = c_bnry (cst sh s0 None a)"
  unfolding like_def using card_like_fields by blast

lemma rx_pre_bus:
  assumes "bus_only st st'" "like sh s0 st st'" "rx_pre sh s0 st fs"
  shows "rx_pre sh s0 st' fs"
  using bus_only_fields [OF assms(1)] like_view [OF assms(2)] like_curr [OF assms(2)] assms(2,3)
  by (simp add: rx_pre_def ring_ok_def like_def)

lemma frame_card:
  assumes "card_ok sh s0 c" "tame sh s0 None st" "on_page0 sh s0 st" "ring_ok st" "e = (if n_nocrc st then 0 else 4)" "frame_ok f"
    "int (length f) + 4 + e \<le> (n_rxstop st - n_rxstart st) * 256" "h ! 0 AND 0x01 \<noteq> 0"
    "ring_bytes (ringm sh s0 st) (n_rxstart st) (n_rxstop st) (n_rxnext st * 256 + 4) (length f) = f"
  shows "\<exists>st2. bus_only st st2 \<and> like sh s0 st st2 \<and> on_page0 sh s0 st2 \<and>
    rx_frame c h (int (length f) + 4 + e) st =
      Some ((nu_stat (\<lambda>s. s\<lparr>ipackets := u32 (ipackets s + 1)\<rparr>) st2)\<lparr>n_input := n_input st2 @ [f]\<rparr>)"
proof -
  have r: "n_rxstart st \<le> n_rxnext st" "n_rxnext st < n_rxstop st" using assms(4) by (auto simp: ring_ok_def)
  obtain buf st2 where b: "nu_rdring c (n_rxnext st) 4 (int (length f) + e) st = (buf, st2)" by fastforce
  have e: "0 \<le> e" "e \<le> 4" using assms(5) by simp_all
  have n: "nat (int (length f) + e) = length f + nat e" using e by simp
  have c: "buf = ring_bytes (ringm sh s0 st) (n_rxstart st) (n_rxstop st) (n_rxnext st * 256 + 4) (length f + nat e)"
    "like sh s0 st st2" "on_page0 sh s0 st2"
    using rdring_card [OF assms(1-4) r, of 4 "int (length f) + e"] assms(7) e b unfolding n by auto
  then have t: "take (length f) buf = f" using ring_bytes_take [of "length f" "length f + nat e"] assms(9) by simp
  have "bus_only st st2" using bus_only_rdring [OF r(2), of "int (length f) + e" 4 c] b e by simp
  moreover define cnt where "cnt = int (length f) + 4 + e"
  have n1: "(if n_crcprobe st \<and> cnt \<ge> 4 + NU_MINFRAME \<and> cnt < 4 + NU_MINFRAME + 4 then st\<lparr>n_nocrc := True\<rparr> else st) = st"
    using assms(5,6) by (cases st) (auto simp: frame_ok_def nu_consts cnt_def)
  have n2: "\<not> (cnt < 4 + NU_MINFRAME + e \<or> cnt > 4 + NU_MAXFRAME + e)" "\<not> cnt - 4 > NU_MAXFRAME + 4" "cnt - 4 = int (length f) + e"
    "nat (cnt - 4 - e) = length f" using assms(6) e by (auto simp: frame_ok_def nu_consts cnt_def)
  have "rx_frame c h cnt st = Some ((nu_stat (\<lambda>s. s\<lparr>ipackets := u32 (ipackets s + 1)\<rparr>) st2)\<lparr>n_input := n_input st2 @ [f]\<rparr>)"
    unfolding rx_frame_def n1 Let_def assms(5) [symmetric] if_not_P [OF n2(1)] if_P [OF assms(8)] n2(3)
    using b t n2 by simp
  ultimately show ?thesis using c(2,3) unfolding cnt_def by blast
qed

lemma setbnry_card:
  assumes "tame sh s0 None st" "on_page0 sh s0 st" "n_rxstart st \<le> x" "x < n_rxstop st" "0 < n_rxstart st" "n_rxstop st \<le> 256"
  shows "cst sh s0 None (nu_setbnry (st\<lparr>n_rxnext := x\<rparr>)) = (cst sh s0 None st)\<lparr>c_bnry := bnry_page (st\<lparr>n_rxnext := x\<rparr>)\<rparr>"
    "tame sh s0 None (nu_setbnry (st\<lparr>n_rxnext := x\<rparr>))" "bus_only (st\<lparr>n_rxnext := x\<rparr>) (nu_setbnry (st\<lparr>n_rxnext := x\<rparr>))"
proof -
  let ?st = "st\<lparr>n_rxnext := x\<rparr>"
  have c: "cst sh s0 None ?st = cst sh s0 None st" "tame sh s0 None ?st" using assms(1) cst_other [of ?st st] tame_other [of ?st st] by simp_all
  note w = cst_wr [OF c(2), of NU_BNRY "bnry_page ?st"]
  have "bnry_page ?st mod 256 = bnry_page ?st" using assms(3-6) by (simp add: bnry_page_def)
  then show "cst sh s0 None (nu_setbnry ?st) = (cst sh s0 None st)\<lparr>c_bnry := bnry_page ?st\<rparr>" "tame sh s0 None (nu_setbnry ?st)"
    using w assms(2) unfolding c(1) by (simp_all add: nu_setbnry_def bnry_page_def card_wr_def page0_def)
  show "bus_only ?st (nu_setbnry ?st)" by (simp add: nu_setbnry_def bus_only_wr)
qed

lemma page_round: "x \<le> (x + 255) div 256 * 256" for x :: int
  by presburger

text \<open>One frame of the ring: given to the driver, and its pages released.\<close>

lemma drain_frame:
  assumes "card_ok sh s0 c" "rx_pre sh s0 st (f # fs)"
  shows "\<exists>st'. rxdrain_loop c (Suc k) n st = rxdrain_loop c k (n + 1) st' \<and> rx_pre sh s0 st' fs \<and>
    n_input st' = n_input st @ [f] \<and> on_page0 sh s0 st' \<and> c_bnry (cst sh s0 None st') = bnry_page st'"
proof -
  let ?cur = "c_curr (cst sh s0 None st)" and ?e = "if n_nocrc st then 0 else 4 :: int"
  have t: "tame sh s0 None st" using assms(2) by (simp add: rx_pre_def)
  obtain x st1 where 1: "nu_curr c st = (x, st1)" by fastforce
  have b1: "x = ?cur" "like sh s0 st st1" "on_page0 sh s0 st1" "bus_only st st1"
    using curr_card [OF assms(1) t] bus_only_curr [of st c] 1 by auto
  have p1: "rx_pre sh s0 st1 (f # fs)" by (rule rx_pre_bus [OF b1(4,2) assms(2)])
  have t1: "tame sh s0 None st1" and cur1: "c_curr (cst sh s0 None st1) = ?cur" using b1(2) like_curr by (simp add: like_def, blast)
  have e1: "n_nocrc st1 = n_nocrc st" using bus_only_fields [OF b1(4)] by simp
  let ?m = "ringm sh s0 st1" and ?a = "n_rxstart st1" and ?b = "n_rxstop st1" and ?p = "n_rxnext st1"
  define h where "h = ring_bytes ?m ?a ?b (?p * 256) 4"
  have r: "ring_ok st1" "?a \<le> ?p" "?p < ?b" using p1 by (auto simp: rx_pre_def ring_ok_def)
  have f: "?p \<noteq> ?cur" "h ! 0 AND 0x01 \<noteq> 0" "uint (h ! 2) + 256 * uint (h ! 3) = int (length f) + 4 + ?e" "?a \<le> uint (h ! 1)"
    "uint (h ! 1) < ?b" "frame_ok f" "ring_bytes ?m ?a ?b (?p * 256 + 4) (length f) = f"
    "ring_frames ?m ?e ?a ?b (uint (h ! 1)) ?cur fs"
    and d: "(uint (h ! 1) - ?p + (?b - ?a)) mod (?b - ?a) = (int (length f) + 4 + ?e + 255) div 256 \<or>
      (uint (h ! 1) - ?p + (?b - ?a)) mod (?b - ?a) = (int (length f) + 4 + ?e + 255) div 256 + 1"
    using p1 unfolding rx_pre_def cur1 e1 ring_frames.simps Let_def h_def [symmetric] by blast+
  have "(uint (h ! 1) - ?p + (?b - ?a)) mod (?b - ?a) < ?b - ?a" using r by simp
  then have "(int (length f) + 4 + ?e + 255) div 256 < ?b - ?a" using d by linarith
  then have "(int (length f) + 4 + ?e + 255) div 256 * 256 \<le> (?b - ?a) * 256" by (intro mult_right_mono) simp_all
  then have size: "int (length f) + 4 + ?e \<le> (?b - ?a) * 256" using page_round [of "int (length f) + 4 + ?e"] by (rule order_trans [rotated])
  obtain h' st2 where 2: "nu_rdring c ?p 0 4 st1 = (h', st2)" by fastforce
  have "h' = h" and b2: "like sh s0 st1 st2" "on_page0 sh s0 st2" "bus_only st1 st2"
    using rdring_card [OF assms(1) t1 b1(3) r, of 0 4] bus_only_rdring [OF r(3), of 4 0 c] size 2 by (auto simp: h_def split: if_splits)
  note g = bus_only_fields [OF b2(3)]
  have t2: "tame sh s0 None st2" using b2(1) by (simp add: like_def)
  have ok: "rx_header_ok h st2 = Some (uint (h ! 1), int (length f) + 4 + ?e)"
    using f(3-5) d by (auto simp: rx_header_ok_def Let_def g)
  have p2: "rx_pre sh s0 st2 (f # fs)" by (rule rx_pre_bus [OF b2(3,1) p1])
  have m2: "ringm sh s0 st2 = ?m" by (rule like_view [OF b2(1)])
  have e2: "?e = (if n_nocrc st2 then 0 else 4)" using e1 g by simp
  have r2: "ring_ok st2" using p2 by (simp add: rx_pre_def)
  obtain st3 where 3: "bus_only st2 st3" "like sh s0 st2 st3" "on_page0 sh s0 st3"
    "rx_frame c h (int (length f) + 4 + ?e) st2 =
      Some ((nu_stat (\<lambda>s. s\<lparr>ipackets := u32 (ipackets s + 1)\<rparr>) st3)\<lparr>n_input := n_input st3 @ [f]\<rparr>)"
    using frame_card [OF assms(1) t2 b2(2) r2 e2 f(6) _ f(2)] f(7) size unfolding g m2 by blast
  define st4 where "st4 = (nu_stat (\<lambda>s. s\<lparr>ipackets := u32 (ipackets s + 1)\<rparr>) st3)\<lparr>n_input := n_input st3 @ [f]\<rparr>"
  define st5 where "st5 = nu_setbnry (st4\<lparr>n_rxnext := uint (h ! 1)\<rparr>)"
  have l4: "n_log st4 = n_log st3" by (simp add: st4_def nu_stat_def)
  have c4: "cst sh s0 None st4 = cst sh s0 None st3" "tame sh s0 None st4"
    using cst_other [OF l4] tame_other [OF l4] 3(2) by (simp_all add: like_def)
  have g4: "n_rxstart st4 = ?a" "n_rxstop st4 = ?b" "n_nocrc st4 = n_nocrc st" "n_input st4 = n_input st @ [f]"
    using g bus_only_fields [OF 3(1)] bus_only_fields [OF b1(4)] by (simp_all add: nu_stat_def st4_def)
  have c5: "cst sh s0 None st5 = (cst sh s0 None st3)\<lparr>c_bnry := bnry_page (st4\<lparr>n_rxnext := uint (h ! 1)\<rparr>)\<rparr>" "tame sh s0 None st5"
    and b5: "bus_only (st4\<lparr>n_rxnext := uint (h ! 1)\<rparr>) st5"
    using setbnry_card [OF c4(2), of "uint (h ! 1)"] 3(3) c4(1) f(4,5) r(1) g4 by (auto simp: ring_ok_def st5_def)
  note g5 = bus_only_fields [OF b5]
  have "ringm sh s0 st5 = ?m" using like_view [OF 3(2)] m2 unfolding c5(1) by (simp add: view_def fun_eq_iff)
  moreover have "c_curr (cst sh s0 None st5) = ?cur"
    using like_curr [OF 3(2)] like_curr [OF b2(1)] cur1 unfolding c5(1) by simp
  ultimately have "rx_pre sh s0 st5 fs"
    using p1 f(4,5,8) g4 g5 c5(2) cur1 by (simp add: rx_pre_def ring_ok_def)
  moreover have "rxdrain_loop c (Suc k) n st = rxdrain_loop c k (n + 1) st5"
    using 1 2 ok 3(4) b1(1) f(1) p1 \<open>h' = h\<close> cur1 by (simp add: rx_pre_def st4_def [symmetric] st5_def)
  moreover have "c_bnry (cst sh s0 None st5) = bnry_page st5" using g5 unfolding c5(1) by (simp add: bnry_page_def)
  moreover have "on_page0 sh s0 st5" using 3(3) unfolding c5(1) by (simp add: page0_def)
  ultimately show ?thesis
    using g5(19) g4(4) by (intro exI [of _ st5]) simp_all
qed

lemma drain_frames:
  assumes "card_ok sh s0 c"
  shows "rx_pre sh s0 st fs \<Longrightarrow>
    \<exists>st'. rxdrain_loop c k n st = Some (n + int (min k (length fs)), st') \<and> n_input st' = n_input st @ take k fs \<and>
      rx_pre sh s0 st' (drop k fs) \<and> (on_page0 sh s0 st \<longrightarrow> on_page0 sh s0 st') \<and>
      (c_bnry (cst sh s0 None st) = bnry_page st \<or> 0 < k \<and> fs \<noteq> [] \<longrightarrow> c_bnry (cst sh s0 None st') = bnry_page st')"
proof (induction k arbitrary: n st fs)
  case (Suc k)
  show ?case
  proof (cases fs)
    case Nil
    obtain x st1 where 1: "nu_curr c st = (x, st1)" by fastforce
    have b: "x = c_curr (cst sh s0 None st)" "like sh s0 st st1" "bus_only st st1" "on_page0 sh s0 st1"
      using curr_card [OF assms, of st] bus_only_curr [of st c] 1 Suc.prems by (auto simp: rx_pre_def)
    note l = like_curr [OF b(2)]
    have p: "rx_pre sh s0 st1 fs" using rx_pre_bus [OF b(3,2)] Suc.prems by blast
    moreover have "n_rxnext st1 = x" using p Nil b(1) l by (simp add: rx_pre_def)
    ultimately show ?thesis
      using Nil 1 b l bus_only_fields [OF b(3)] Suc.prems
      by (intro exI [of _ st1]) (simp add: rx_pre_def bnry_page_def)
  next
    case (Cons f gs)
    obtain st1 where 1: "rxdrain_loop c (Suc k) n st = rxdrain_loop c k (n + 1) st1" "rx_pre sh s0 st1 gs"
      "n_input st1 = n_input st @ [f]" "on_page0 sh s0 st1" "c_bnry (cst sh s0 None st1) = bnry_page st1"
      using drain_frame [OF assms, of st f gs k n] Suc.prems Cons by blast
    obtain st' where "rxdrain_loop c k (n + 1) st1 = Some (n + 1 + int (min k (length gs)), st')"
      "n_input st' = n_input st1 @ take k gs" "rx_pre sh s0 st' (drop k gs)" "on_page0 sh s0 st'" "c_bnry (cst sh s0 None st') = bnry_page st'"
      using Suc.IH [OF 1(2), of "n + 1"] 1(4,5) by blast
    then show ?thesis using 1(1,3) Cons by (intro exI [of _ st']) simp
  qed
qed simp

text \<open>A card that keeps the data sheet.\<close>

definition sheet_chip :: "sheet \<Rightarrow> cardst \<Rightarrow> chip" where
  "sheet_chip sh s0 l r =
    (let s = card_st sh s0 l
     in if r = NU_DATA then view sh s (c_rsar s)
        else if r = NU_CR then word_of_int (c_cr s)
        else if r = NU_CURR \<and> c_cr s AND 0xc0 = CR_PAGE1 then word_of_int (c_curr s)
        else word_of_int ISR_RDC)"

text \<open>The page the next frame goes to is a byte, as every access and arrival leaves it.\<close>

definition curr_byte :: "cardst \<Rightarrow> bool" where
  "curr_byte s \<longleftrightarrow> 0 \<le> c_curr s \<and> c_curr s < 256"

lemma curr_byte_st: "curr_byte s0 \<Longrightarrow> curr_byte (card_st sh s0 l)"
proof (induction l rule: rev_induct)
  case (snoc a l)
  then have "curr_byte (card_st sh s0 l)" by simp
  then have "curr_byte (card_acc sh a (card_st sh s0 l))"
    by (cases a) (auto simp: curr_byte_def card_wr_def card_cr_def card_reset_def dma_step_def)
  then show ?case by (auto simp: card_st_snoc card_rx_def curr_byte_def split: option.split)
qed (simp add: card_st_Nil)

lemma sheet_chip_ok:
  assumes "curr_byte s0"
  shows "card_ok sh s0 (sheet_chip sh s0)"
proof -
  have "x mod 256 AND 0xc3 = x AND 0xc3" for x :: int
  proof -
    have "take_bit 8 x AND 0xc3 = x AND 0xc3" by (simp add: take_bit_eq_mask mask_eq_exp_minus_1 and.assoc)
    then show ?thesis by (simp add: take_bit_eq_mod)
  qed
  moreover have "c_curr (card_st sh s0 l) mod 256 = c_curr (card_st sh s0 l)" for l
    using curr_byte_st [OF assms, of sh l] by (simp add: curr_byte_def)
  ultimately show ?thesis
    by (simp add: card_ok_def sheet_chip_def Let_def uint_word_of_int take_bit_eq_mod)
qed

text \<open>A card of 8 KB at 0x4000, which answers for 16 KB, and on which nothing arrives.\<close>

definition rtl_sheet :: sheet where
  "rtl_sheet = \<lparr>sh_dec = (\<lambda>a. if 0x6000 \<le> a \<and> a < 0x8000 then a - 0x2000 else a), sh_net = (\<lambda>_. None)\<rparr>"

definition card0 :: "(int \<Rightarrow> byte) \<Rightarrow> int \<Rightarrow> cardst" where
  "card0 m cur = \<lparr>c_cr = 0x22, c_rsar = 0, c_rbcr = 0, c_tpsr = 0, c_tbcr = 0, c_tcr = 0, c_bnry = 0, c_curr = cur, c_pstart = 0x46, c_pstop = 0x60,
     c_mem = m, c_sent = []\<rparr>"

section \<open>A poll of a running card\<close>

text \<open>What leaves the ring and what was handed up alone.\<close>

definition keep :: "sheet \<Rightarrow> cardst \<Rightarrow> nust \<Rightarrow> nust \<Rightarrow> bool" where
  "keep sh s0 a b \<longleftrightarrow> n_input b = n_input a \<and> n_rxstart b = n_rxstart a \<and> n_rxstop b = n_rxstop a \<and> n_rxnext b = n_rxnext a \<and>
     n_nocrc b = n_nocrc a \<and> like sh s0 a b"

lemma like_refl: "tame sh s0 None a \<Longrightarrow> like sh s0 a a"
  by (simp add: like_def card_like_refl)

lemma keep_refl: "tame sh s0 None a \<Longrightarrow> keep sh s0 a a"
  by (simp add: keep_def like_refl)

lemma keep_tame: "keep sh s0 a b \<Longrightarrow> tame sh s0 None b"
  by (simp add: keep_def like_def)

lemma keep_trans: "keep sh s0 a b \<Longrightarrow> keep sh s0 b c \<Longrightarrow> keep sh s0 a c"
  unfolding keep_def using like_trans by auto

lemma keep_bus: "bus_only a b \<Longrightarrow> like sh s0 a b \<Longrightarrow> keep sh s0 a b"
  using bus_only_fields [of a b] by (simp add: keep_def)

lemma keep_rd: "nu_rd c r b = (x, b') \<Longrightarrow> r \<noteq> NU_DATA \<Longrightarrow> r \<noteq> NU_RESET \<Longrightarrow> keep sh s0 a b \<Longrightarrow> keep sh s0 a b'"
proof -
  assume r: "nu_rd c r b = (x, b')" "r \<noteq> NU_DATA" "r \<noteq> NU_RESET" and k: "keep sh s0 a b"
  have "like sh s0 b b'"
    using cst_rd [OF keep_tame [OF k], of c r] r by (simp add: like_def card_like_refl)
  then have "keep sh s0 b b'" using r bus_only_rd [of b c r] by (intro keep_bus) simp_all
  then show ?thesis by (rule keep_trans [OF k])
qed

text \<open>In page 1 the status register's address is that of the current page: the driver is on page 0 there.\<close>

lemma wr_count_eq: "r \<in> {NU_RBCR0, NU_RBCR1, NU_TCR} \<Longrightarrow> card_like s (card_wr sh r v s)"
proof -
  assume r: "r \<in> {NU_RBCR0, NU_RBCR1, NU_TCR}"
  have u: "card_like s (s\<lparr>c_rbcr := x\<rparr>)" for x
    by (intro card_like_eq card_eqI [where cr = "c_cr s" and rs = "c_rsar s" and rb = x]) simp
  have w: "card_like s (s\<lparr>c_tcr := x\<rparr>)" for x unfolding card_like_def using card_eq_refl by blast
  have "card_wr sh NU_RBCR0 v s = (if c_cr s AND 0xc0 = 0 then s\<lparr>c_rbcr := lo_byte v (c_rbcr s)\<rparr> else s)"
    "card_wr sh NU_RBCR1 v s = (if c_cr s AND 0xc0 = 0 then s\<lparr>c_rbcr := hi_byte v (c_rbcr s)\<rparr> else s)"
    "card_wr sh NU_TCR v s = (if c_cr s AND 0xc0 = 0 then s\<lparr>c_tcr := v\<rparr> else s)"
    unfolding card_wr_def by simp_all
  then have "card_like s (card_wr sh NU_RBCR0 v s)" "card_like s (card_wr sh NU_RBCR1 v s)" "card_like s (card_wr sh NU_TCR v s)"
    using u w card_like_refl by (simp_all split: if_split)
  then show ?thesis using r by blast
qed

lemma keep_wr: "r \<in> {NU_RBCR0, NU_RBCR1, NU_TCR} \<Longrightarrow> keep sh s0 a b \<Longrightarrow> keep sh s0 a (nu_wr r v b)"
proof -
  assume r: "r \<in> {NU_RBCR0, NU_RBCR1, NU_TCR}" and k: "keep sh s0 a b"
  let ?s = "cst sh s0 None b"
  have "card_like ?s (card_wr sh r (v mod 256) ?s)"
    by (rule wr_count_eq [OF r])
  then have "like sh s0 b (nu_wr r v b)" using cst_wr [OF keep_tame [OF k], of r v] r by (auto simp: like_def)
  then have "keep sh s0 b (nu_wr r v b)" by (intro keep_bus bus_only_wr)
  then show ?thesis by (rule keep_trans [OF k])
qed

lemma keep_isr:
  assumes "keep sh s0 a b" "on_page0 sh s0 b"
  shows "keep sh s0 a (nu_wr NU_ISR v b)" "on_page0 sh s0 (nu_wr NU_ISR v b)"
proof -
  have "card_at sh s0 None b (cst sh s0 None b)" using keep_tame [OF assms(1)] by (simp add: card_at_def)
  from at_isr0 [OF this] assms(2) have c: "card_at sh s0 None (nu_wr NU_ISR v b) (cst sh s0 None b)" by (simp add: page0_def)
  then have "keep sh s0 b (nu_wr NU_ISR v b)" by (intro keep_bus bus_only_wr) (simp add: like_def card_at_def card_like_refl)
  then show "keep sh s0 a (nu_wr NU_ISR v b)" by (rule keep_trans [OF assms(1)])
  show "on_page0 sh s0 (nu_wr NU_ISR v b)" using c assms(2) by (simp add: card_at_def)
qed

lemma keep_setcr:
  assumes "card_ok sh s0 c" "0 \<le> v" "v < 256" "v AND CR_TXP = 0" "keep sh s0 a b"
  shows "keep sh s0 a (nu_setcr c v b)"
proof -
  have "card_at sh s0 None b (cst sh s0 None b)" using keep_tame [OF assms(5)] by (simp add: card_at_def)
  from at_setcr [OF assms(1) this assms(2-4)] have "like sh s0 b (nu_setcr c v b)" by (simp add: like_def card_at_def card_like_eq [OF card_eq_cr])
  then show ?thesis using keep_trans [OF assms(5) keep_bus [OF bus_only_setcr(1)]] by blast
qed

lemma setcr_page0: "card_ok sh s0 c \<Longrightarrow> tame sh s0 None b \<Longrightarrow> 0 \<le> v \<Longrightarrow> v < 256 \<Longrightarrow> v AND 0xc4 = 0 \<Longrightarrow> on_page0 sh s0 (nu_setcr c v b)"
proof -
  assume a: "card_ok sh s0 c" "tame sh s0 None b" "0 \<le> v" "v < 256" "v AND 0xc4 = 0"
  have "(v AND 0xc4) AND 0x04 = 0" "(v AND 0xc4) AND 0xc0 = 0" using a(5) by simp_all
  then have "v AND CR_TXP = 0" "v AND 0xc0 = 0" by (simp_all add: and.assoc)
  moreover have "card_at sh s0 None b (cst sh s0 None b)" using a(2) by (simp add: card_at_def)
  ultimately show ?thesis using at_setcr [OF a(1) _ a(3,4)] by (fastforce simp: card_at_def page0_def)
qed

lemma keep_delay: "keep sh s0 a b \<Longrightarrow> keep sh s0 a (nu_delay us b)"
proof -
  assume k: "keep sh s0 a b"
  have "cst sh s0 None (nu_delay us b) = cst sh s0 None b" "tame sh s0 None (nu_delay us b)"
    by (rule cst_delay [OF keep_tame [OF k]])+
  then have "like sh s0 b (nu_delay us b)" unfolding like_def by (simp only: card_like_refl)
  then show ?thesis by (rule keep_trans [OF k keep_bus [OF bus_only_delay]])
qed

text \<open>Such a state on page 0, where the status register is.\<close>

definition keep0 :: "sheet \<Rightarrow> cardst \<Rightarrow> nust \<Rightarrow> nust \<Rightarrow> bool" where
  "keep0 sh s0 a b \<longleftrightarrow> keep sh s0 a b \<and> on_page0 sh s0 b"

lemma keep0_refl: "tame sh s0 None a \<Longrightarrow> on_page0 sh s0 a \<Longrightarrow> keep0 sh s0 a a"
  by (simp add: keep0_def keep_refl)

lemma keep0_trans: "keep0 sh s0 a b \<Longrightarrow> keep0 sh s0 b c \<Longrightarrow> keep0 sh s0 a c"
  unfolding keep0_def using keep_trans by blast

lemma keep0_rd: "nu_rd c r b = (x, b') \<Longrightarrow> r \<noteq> NU_DATA \<Longrightarrow> r \<noteq> NU_RESET \<Longrightarrow> keep0 sh s0 a b \<Longrightarrow> keep0 sh s0 a b'"
proof -
  assume r: "nu_rd c r b = (x, b')" "r \<noteq> NU_DATA" "r \<noteq> NU_RESET" and k: "keep0 sh s0 a b"
  have kb: "keep sh s0 a b" and p: "on_page0 sh s0 b" using k by (simp_all add: keep0_def)
  have "cst sh s0 None b' = cst sh s0 None b" using cst_rd(1) [OF keep_tame [OF kb], of c r] r by simp
  then show ?thesis using keep_rd [OF r kb] p by (simp add: keep0_def)
qed

lemma keep0_wr: "r \<in> {NU_RBCR0, NU_RBCR1, NU_TCR} \<Longrightarrow> keep0 sh s0 a b \<Longrightarrow> keep0 sh s0 a (nu_wr r v b)"
proof -
  assume r: "r \<in> {NU_RBCR0, NU_RBCR1, NU_TCR}" and k: "keep0 sh s0 a b"
  have kb: "keep sh s0 a b" and p: "on_page0 sh s0 b" using k by (simp_all add: keep0_def)
  have "cst sh s0 None (nu_wr r v b) = card_wr sh r (v mod 256) (cst sh s0 None b)"
    using cst_wr(1) [OF keep_tame [OF kb], of r v] r by auto
  then have "on_page0 sh s0 (nu_wr r v b)" using r p by (auto simp: card_wr_def page0_def)
  then show ?thesis using keep_wr [OF r kb] by (simp add: keep0_def)
qed

lemma keep0_isr: "keep0 sh s0 a b \<Longrightarrow> keep0 sh s0 a (nu_wr NU_ISR v b)"
  using keep_isr [of sh s0 a b v] by (simp add: keep0_def)

lemma keep0_setcr: "card_ok sh s0 c \<Longrightarrow> 0 \<le> v \<Longrightarrow> v < 256 \<Longrightarrow> v AND 0xc4 = 0 \<Longrightarrow> keep0 sh s0 a b \<Longrightarrow> keep0 sh s0 a (nu_setcr c v b)"
proof -
  assume a: "card_ok sh s0 c" "0 \<le> v" "v < 256" "v AND 0xc4 = 0" "keep0 sh s0 a b"
  have "(v AND 0xc4) AND 0x04 = 0" using a(4) by simp
  then have "v AND CR_TXP = 0" by (simp add: and.assoc)
  moreover have k: "keep sh s0 a b" using a(5) by (simp add: keep0_def)
  ultimately have "keep sh s0 a (nu_setcr c v b)" by (intro keep_setcr [OF a(1-3)])
  then show ?thesis using setcr_page0 [OF a(1) keep_tame [OF k] a(2-4)] by (simp add: keep0_def)
qed

lemma keep0_delay: "keep0 sh s0 a b \<Longrightarrow> keep0 sh s0 a (nu_delay us b)"
proof -
  assume k: "keep0 sh s0 a b"
  have kb: "keep sh s0 a b" and p: "on_page0 sh s0 b" using k by (simp_all add: keep0_def)
  have "cst sh s0 None (nu_delay us b) = cst sh s0 None b" by (rule cst_delay(1) [OF keep_tame [OF kb]])
  then have "on_page0 sh s0 (nu_delay us b)" using p by (simp only:)
  then show ?thesis using keep_delay [OF kb] by (simp add: keep0_def)
qed

lemma keep0_other:
  assumes "keep0 sh s0 a b" "n_log b' = n_log b" "n_input b' = n_input b" "n_rxstart b' = n_rxstart b" "n_rxstop b' = n_rxstop b"
    "n_rxnext b' = n_rxnext b" "n_nocrc b' = n_nocrc b"
  shows "keep0 sh s0 a b'"
proof -
  have "cst sh s0 None b' = cst sh s0 None b" "tame sh s0 None b' = tame sh s0 None b"
    using cst_other [OF assms(2)] tame_other [OF assms(2)] by blast+
  then show ?thesis using assms by (simp add: keep0_def keep_def like_def)
qed

lemma keep0_stat: "keep0 sh s0 a b \<Longrightarrow> keep0 sh s0 a (nu_stat f b)"
  by (erule keep0_other) (simp_all add: nu_stat_def)

lemma keep0_regs: "rd_regs c rs b = (xs, b') \<Longrightarrow> NU_DATA \<notin> set rs \<Longrightarrow> NU_RESET \<notin> set rs \<Longrightarrow> keep0 sh s0 a b \<Longrightarrow> keep0 sh s0 a b'"
proof (induction rs arbitrary: b xs)
  case (Cons r rs)
  obtain x b1 where 1: "nu_rd c r b = (x, b1)" by fastforce
  obtain ys b2 where 2: "rd_regs c rs b1 = (ys, b2)" by fastforce
  have "b2 = b'" using Cons.prems(1) 1 2 by simp
  then show ?case using Cons.IH [of b1 ys] 2 keep0_rd [OF 1 _ _ Cons.prems(4)] Cons.prems(2,3) by auto
qed simp

lemma keep_pre: "keep0 sh s0 a b \<Longrightarrow> rx_pre sh s0 a fs \<Longrightarrow> rx_pre sh s0 b fs"
  using like_view [of sh s0 a b] like_curr [of sh s0 a b] by (simp add: keep0_def keep_def rx_pre_def ring_ok_def like_def)

lemma counters_keep: "tame sh s0 None st \<Longrightarrow> on_page0 sh s0 st \<Longrightarrow> keep0 sh s0 st (poll_counters c isr st)"
proof -
  assume s: "tame sh s0 None st" "on_page0 sh s0 st"
  obtain xs st1 where r: "rd_regs c [0x0d, 0x0e, 0x0f] st = (xs, st1)" by fastforce
  have "keep0 sh s0 st st1" using keep0_regs [OF r _ _ keep0_refl [OF s]] by simp
  then show ?thesis using r keep0_refl [OF s] by (auto simp: poll_counters_def intro!: keep0_isr keep0_stat)
qed

lemma reclaim_keep:
  assumes "nu_inv st" "tame sh s0 None st" "on_page0 sh s0 st"
  shows "keep0 sh s0 st (snd (nu_txreclaim c isr st))"
proof (cases "n_txcur st < 0 \<or> isr AND (ISR_PTX OR ISR_TXE) = 0")
  case False
  obtain t st1 where t: "nu_rd c NU_TSR (nu_wr NU_ISR (isr AND (ISR_PTX OR ISR_TXE)) st) = (t, st1)" by fastforce
  have k: "keep0 sh s0 st st1" by (rule keep0_rd [OF t]) (auto intro: keep0_isr keep0_refl [OF assms(2,3)])
  have b: "bus_only st st1"
    using bus_only_trans [OF bus_only_wr bus_only_rd [of "nu_wr NU_ISR (isr AND (ISR_PTX OR ISR_TXE)) st" c NU_TSR]] t by simp
  have n: "n_txcur st1 = 0" "length (n_txlen st1) = 1"
    using assms(1) False bus_only_fields [OF b] by (auto simp: nu_inv_def tx_ok_def split: if_splits)
  let ?st2 = "(nu_stat (tx_count t) st1)\<lparr>n_txlen := (n_txlen st1)[0 := 0], n_txcur := -1\<rparr>"
  have "n_txlen ?st2 = [0]" using n(2) by (cases "n_txlen st1") auto
  then have e: "nu_txreclaim c isr st = (True, ?st2)" using False t n by (simp add: nu_txreclaim_def Let_def nu_consts)
  show ?thesis unfolding e snd_conv by (rule keep0_other [OF keep0_stat [OF k]]) simp_all
qed (simp add: nu_txreclaim_def keep0_refl [OF assms(2,3)])

lemma keep0_start: "keep0 sh s0 a b \<Longrightarrow> tame sh s0 None b \<and> on_page0 sh s0 b"
  unfolding keep0_def by (blast intro: keep_tame)

text \<open>A transmit that the overflow cut short is started again: it leaves the ring alone.\<close>

lemma resend_pre:
  assumes "rx_pre sh s0 st fs"
  shows "rx_pre sh s0 (nu_wr NU_CR (CR_NODMA OR CR_STA OR CR_TXP) st) fs \<and> n_input (nu_wr NU_CR (CR_NODMA OR CR_STA OR CR_TXP) st) = n_input st \<and>
    on_page0 sh s0 (nu_wr NU_CR (CR_NODMA OR CR_STA OR CR_TXP) st)"
proof -
  let ?w = "nu_wr NU_CR (CR_NODMA OR CR_STA OR CR_TXP) st" and ?s = "card_st sh s0 (n_log st)"
  have t: "tame sh s0 None st" using assms by (simp add: rx_pre_def)
  have l: "n_log ?w = n_log st @ [Wr NU_CR 0x26]" by (simp add: nu_wr_def)
  have c: "ring_cells sh (card_acc sh (Wr NU_CR 0x26) ?s) = ring_cells sh ?s" using wr_cells by simp
  have w: "cst sh s0 None ?w = card_cr sh 0x26 (cst sh s0 None st)" "tame sh s0 None ?w"
    using acc_step [OF t l c] by (simp_all add: cst_def mask_def card_wr_def)
  have "view sh (card_cr sh 0x26 s) = view sh s" "c_curr (card_cr sh 0x26 s) = c_curr s" "page0 (card_cr sh 0x26 s)" for s
    by (simp_all add: card_cr_def view_def page0_def fun_eq_iff)
  then show ?thesis using assms w bus_only_fields [OF bus_only_wr [of st NU_CR "CR_NODMA OR CR_STA OR CR_TXP"]]
    by (simp add: rx_pre_def ring_ok_def)
qed

lemma poll_tx_keep:
  assumes "nu_inv st" "tame sh s0 None st" "on_page0 sh s0 st" "poll_tx c a st = (w, st')"
  shows "keep0 sh s0 st st'"
proof -
  obtain isr st1 where 1: "nu_rd c NU_ISR st = (isr, st1)" by fastforce
  have k1: "keep0 sh s0 st st1" by (rule keep0_rd [OF 1 _ _ keep0_refl [OF assms(2,3)]]) simp_all
  have "bus_only st st1" using bus_only_rd [of st c NU_ISR] 1 by simp
  then have i: "nu_inv st1" using nu_inv_bus assms(1) by blast
  obtain d st2 where 2: "nu_txreclaim c isr st1 = (d, st2)" by fastforce
  have k: "keep0 sh s0 st st2" using keep0_trans [OF k1] reclaim_keep [OF i, of sh s0 c isr] keep0_start [OF k1] 2 by simp
  have u: "keep0 sh s0 st (st2\<lparr>n_done := x\<rparr>)" "keep0 sh s0 st (st2\<lparr>n_txage := y\<rparr>)" for x y
    by (rule keep0_other [OF k]; simp)+
  have v: "keep0 sh s0 st (poll_reinit (nu_stat f (st2\<lparr>n_txage := y\<rparr>)))" for f y
    by (rule keep0_other [OF k]) (simp_all add: poll_reinit_def nu_stat_def)
  show ?thesis
    using assms(4) k u v by (cases d) (auto simp: poll_tx_def 1 2 Let_def split: if_splits)
qed

text \<open>Whatever the interrupt status says, an overflow included, the frames of the ring are drained.\<close>

lemma poll_rx_frames:
  assumes "card_ok sh s0 c" "rx_pre sh s0 st fs" "on_page0 sh s0 st"
  shows "\<exists>w st'. poll_rx c isr st = Some (Some w, st') \<and> n_input st' = n_input st @ take 8 fs \<and>
    rx_pre sh s0 st' (drop 8 fs) \<and> on_page0 sh s0 st'"
proof (cases "isr AND ISR_OVW \<noteq> 0")
  case False
  have t: "tame sh s0 None st" using assms(2) by (simp add: rx_pre_def)
  let ?s = "if isr AND (ISR_PRX OR ISR_RXE) \<noteq> 0 then nu_wr NU_ISR (isr AND (ISR_PRX OR ISR_RXE)) st else st"
  have k: "keep0 sh s0 st ?s" by (auto intro: keep0_isr keep0_refl [OF t assms(3)])
  obtain st' where d: "rxdrain_loop c 8 0 ?s = Some (0 + int (min 8 (length fs)), st')" "n_input st' = n_input ?s @ take 8 fs"
    "rx_pre sh s0 st' (drop 8 fs)" "on_page0 sh s0 st'"
    using drain_frames [OF assms(1) keep_pre [OF k assms(2)], of 8 0] keep0_start [OF k] by blast
  then show ?thesis
    using False k by (simp add: poll_rx_def nu_rxdrain_def NU_RXBURST_def keep0_def keep_def)
next
  case True
  have t: "tame sh s0 None st" using assms(2) by (simp add: rx_pre_def)
  let ?st0 = "nu_stat (\<lambda>s. s\<lparr>st_ovw := u32 (st_ovw s + 1)\<rparr>) st"
  obtain cr st1 where 1: "nu_rd c NU_CR ?st0 = (cr, st1)" by fastforce
  define st2 where "st2 = nu_wrs [(NU_RBCR0, 0), (NU_RBCR1, 0)] (nu_delay 2000 (nu_setcr c (CR_NODMA OR CR_STP) st1))"
  obtain isr' st3 where 3: "(if cr AND CR_TXP \<noteq> 0 then nu_rd c NU_ISR st2 else (0, st2)) = (isr', st3)" by fastforce
  define st4 where "st4 = nu_setcr c (CR_NODMA OR CR_STA) (nu_wr NU_TCR TCR_LOOP st3)"
  have k1: "keep0 sh s0 st st1" by (rule keep0_rd [OF 1]) (auto intro: keep0_stat keep0_refl [OF t assms(3)])
  have k2: "keep0 sh s0 st st2"
    unfolding st2_def by (simp, intro keep0_wr keep0_delay keep0_setcr [OF assms(1)] k1) simp_all
  have k3: "keep0 sh s0 st st3" using 3 k2 keep0_rd [of c NU_ISR st2 isr' st3 sh s0 st] by (auto split: if_splits)
  have k4: "keep0 sh s0 st st4"
    unfolding st4_def by (intro keep0_setcr [OF assms(1)] keep0_wr k3) simp_all
  obtain st5 where d: "rxdrain_loop c 8 0 st4 = Some (0 + int (min 8 (length fs)), st5)" "n_input st5 = n_input st4 @ take 8 fs"
    "rx_pre sh s0 st5 (drop 8 fs)" "on_page0 sh s0 st5"
    using drain_frames [OF assms(1) keep_pre [OF k4 assms(2)], of 8 0] keep0_start [OF k4] by blast
  define resend where "resend = (cr AND CR_TXP \<noteq> 0 \<and> isr' AND (ISR_PTX OR ISR_TXE) = 0)"
  define st6 where "st6 = nu_wrs [(NU_ISR, ISR_OVW), (NU_TCR, 0)] st5"
  have t5: "tame sh s0 None st5" using d(3) by (simp add: rx_pre_def)
  have k6: "keep0 sh s0 st5 st6" unfolding st6_def by (simp, intro keep0_wr keep0_isr keep0_refl t5 d(4)) simp_all
  define st7 where "st7 = (if resend then nu_wr NU_CR (CR_NODMA OR CR_STA OR CR_TXP) st6 else st6)"
  have p6: "rx_pre sh s0 st6 (drop 8 fs)" "on_page0 sh s0 st6" using keep_pre [OF k6 d(3)] keep0_start [OF k6] by simp_all
  have "rx_pre sh s0 st7 (drop 8 fs) \<and> n_input st7 = n_input st6 \<and> on_page0 sh s0 st7"
    using p6 resend_pre [OF p6(1)] by (simp add: st7_def)
  moreover have "nu_overflow c st = Some (int (min 8 (length fs)), st7)"
    unfolding nu_overflow_def 1 prod.case Let_def st2_def [symmetric] 3 st4_def [symmetric] nu_rxdrain_def NU_RXBURST_def d(1)
      option.case st7_def st6_def resend_def by simp
  ultimately show ?thesis using True d(2) k4 k6 by (intro exI [of _ True] exI [of _ st7]) (simp add: poll_rx_def keep0_def keep_def)
qed

text \<open>
  A poll of a started card gives the driver the frames the ring holds, in order and whole, up to
  the eight of a burst; what is left is in the ring still.
\<close>

lemma poll_frames:
  assumes "card_ok sh s0 c" "nu_inv st" "n_running st" "c_cr (cst sh s0 None st) AND 0xc3 = CR_STA" "rx_pre sh s0 st fs"
  shows "\<exists>w st'. nu_poll c st = Some (w, st') \<and> n_input st' = n_input st @ take 8 fs \<and> rx_pre sh s0 st' (drop 8 fs)"
proof -
  have "(c_cr (cst sh s0 None st) AND 0xc3) AND 0xc0 = 0" using assms(4) by simp
  then have t: "tame sh s0 None st" "on_page0 sh s0 st" using assms(5) by (simp_all add: rx_pre_def page0_def and.assoc)
  let ?st0 = "nu_stat (\<lambda>s. s\<lparr>st_polls := u32 (st_polls s + 1), st_crmiss := n_crmiss st\<rparr>) st"
  obtain cr st1 where 1: "nu_rd c NU_CR ?st0 = (cr, st1)" by fastforce
  have k0: "keep0 sh s0 st ?st0" by (rule keep0_stat [OF keep0_refl [OF t]])
  have k1: "keep0 sh s0 st st1" by (rule keep0_rd [OF 1 _ _ k0]) simp_all
  have "cst sh s0 None ?st0 = cst sh s0 None st" by (rule cst_other) (simp add: nu_stat_def)
  then have cr: "cr AND 0xc3 = CR_STA" using card_ok_rd(1) [OF assms(1), of ?st0 None] 1 assms(4) by simp
  obtain isr st2 where 2: "nu_rd c NU_ISR st1 = (isr, st2)" by fastforce
  have k2: "keep0 sh s0 st st2" by (rule keep0_rd [OF 2 _ _ k1]) simp_all
  have "rx_rel ?st0 st1" "rx_rel st1 st2"
    using rx_rel_bus [OF bus_only_rd [of ?st0 c NU_CR]] rx_rel_bus [OF bus_only_rd [of st1 c NU_ISR]] 1 2 by simp_all
  then have r2: "rx_rel st st2" using rx_rel_trans [OF rx_rel_stat rx_rel_trans] by blast
  obtain w st3 where 3: "poll_rx c isr st2 = Some (Some w, st3)" "n_input st3 = n_input st2 @ take 8 fs" "rx_pre sh s0 st3 (drop 8 fs)"
    "on_page0 sh s0 st3"
    using poll_rx_frames [OF assms(1) keep_pre [OF k2 assms(5)]] keep0_start [OF k2] by blast
  let ?st4 = "poll_counters c isr st3"
  have "rx_rel st2 st3" using poll_rx_inv [OF nu_inv_rx [OF r2 assms(2)], of c isr] 3(1) by auto
  then have i4: "nu_inv ?st4"
    using nu_inv_rx [OF rx_rel_trans [OF rx_rel_trans [OF r2] poll_counters_rel] assms(2)] by blast
  obtain w' st5 where 5: "poll_tx c w ?st4 = (w', st5)" by fastforce
  have t3: "tame sh s0 None st3" using 3(3) by (simp add: rx_pre_def)
  note k4 = counters_keep [OF t3 3(4), of c isr]
  have k5: "keep0 sh s0 st3 st5" using keep0_trans [OF k4 poll_tx_keep [OF i4 _ _ 5]] keep0_start [OF k4] by blast
  have "nu_poll c st = Some (w', st5)"
    using assms(3) 1 2 3(1) 5 cr by (simp add: nu_poll_def)
  then show ?thesis using keep_pre [OF k5 3(3)] 3(2) k2 k5 by (simp add: keep0_def keep_def)
qed

definition one_frame :: "int \<Rightarrow> byte" where
  "one_frame x = (if x = 0x4600 then 1 else if x = 0x4601 then 0x47 else if x = 0x4602 then 68 else 0)"

end
