(* ===== verification/NuHash.thy ===== *)
theory NuHash
  imports NuChip
begin

unbundle bit_operations_syntax

text \<open>
  The hash of the multicast filter against the Ethernet CRC of the textbooks: the code keeps the
  register mirrored and feeds it bit by bit, most significant first.
\<close>

section \<open>The hash is the Ethernet CRC\<close>

text \<open>The CRC as it is usually written: the byte first, then eight shifts down.\<close>

definition eth_shift :: "32 word \<Rightarrow> 32 word" where
  "eth_shift r = (if bit r 0 then drop_bit 1 r XOR 0xedb88320 else drop_bit 1 r)"

definition eth_byte :: "byte \<Rightarrow> 32 word \<Rightarrow> 32 word" where
  "eth_byte x r = (eth_shift ^^ 8) (r XOR ucast x)"

definition eth_crc :: "byte list \<Rightarrow> 32 word" where
  "eth_crc a = fold eth_byte a 0xffffffff"

definition mirrored :: "32 word \<Rightarrow> 32 word \<Rightarrow> bool" where
  "mirrored r s \<longleftrightarrow> (\<forall>i < 32. bit r i \<longleftrightarrow> bit s (31 - i))"

definition eth_bit :: "32 word \<Rightarrow> bool \<Rightarrow> 32 word" where
  "eth_bit r b = (if bit r 0 \<noteq> b then drop_bit 1 r XOR 0xedb88320 else drop_bit 1 r)"

lemma mirrored_poly: "mirrored 0xedb88320 0x04c11db7"
proof -
  have "list_all (\<lambda>i. bit (0xedb88320 :: 32 word) i \<longleftrightarrow> bit (0x04c11db7 :: 32 word) (31 - i)) [0..<32]"
    by code_simp
  then show ?thesis by (simp add: mirrored_def list_all_iff)
qed

lemma mirrored_xor: "mirrored r s \<Longrightarrow> mirrored r' s' \<Longrightarrow> mirrored (r XOR r') (s XOR s')"
  by (simp add: mirrored_def bit_xor_iff)

lemma mirrored_shift: "mirrored r s \<Longrightarrow> mirrored (drop_bit 1 r) (push_bit 1 s)"
  unfolding mirrored_def
proof (intro allI impI)
  fix i :: nat assume m: "\<forall>i<32. bit r i = bit s (31 - i)" and i: "i < 32"
  show "bit (drop_bit 1 r) i = bit (push_bit 1 s) (31 - i)"
  proof (cases "i = 31")
    case True
    then show ?thesis using bit_imp_le_length [of r 32] by (auto simp: bit_drop_bit_eq bit_push_bit_iff bit_0)
  next
    case False
    then have "31 - Suc i = 30 - i" "Suc i < 32" "Suc 0 \<le> 31 - i" "31 - i < 32" using i by auto
    then show ?thesis using m unfolding bit_drop_bit_eq bit_push_bit_iff by simp
  qed
qed

lemma mirrored_bit: "mirrored r s \<Longrightarrow> mirrored (eth_bit r b) (crc_step s b)"
  unfolding eth_bit_def crc_step_def
  using mirrored_xor [OF mirrored_shift mirrored_poly] mirrored_shift by (auto simp: mirrored_def)

lemma eth_shift_bit: "eth_shift (r XOR ucast y) = eth_bit r (bit y 0) XOR ucast (drop_bit 1 y)"
  for y :: byte
proof -
  have "drop_bit 1 (r XOR ucast y) = drop_bit 1 r XOR (ucast (drop_bit 1 y) :: 32 word)"
    by (rule bit_word_eqI) (simp add: bit_drop_bit_eq bit_xor_iff bit_ucast_iff, use bit_imp_le_length in fastforce)
  moreover have "bit (r XOR ucast y) 0 \<longleftrightarrow> bit r 0 \<noteq> bit y 0" by (auto simp: bit_xor_iff bit_ucast_iff)
  ultimately show ?thesis by (simp add: eth_shift_def eth_bit_def xor.assoc xor.commute xor.left_commute)
qed

lemma eth_shifts:
  "(eth_shift ^^ k) (r XOR ucast x) = fold (\<lambda>j s. eth_bit s (bit x j)) [0..<k] r XOR ucast (drop_bit k x)"
  for x :: byte
proof (induction k)
  case (Suc k)
  then show ?case using eth_shift_bit [of _ "drop_bit k x"] by (simp add: bit_drop_bit_eq)
qed simp

lemma eth_byte_bits: "eth_byte x r = fold (\<lambda>j s. eth_bit s (bit x j)) [0..<8] r"
proof -
  have "drop_bit 8 x = 0" by (rule bit_word_eqI) (use bit_imp_le_length [of x] in \<open>fastforce simp: bit_drop_bit_eq\<close>)
  then show ?thesis unfolding eth_byte_def eth_shifts by simp
qed

lemma mirrored_fold: "mirrored r s \<Longrightarrow> mirrored (fold (\<lambda>j s. eth_bit s (P j)) js r) (fold (\<lambda>j s. crc_step s (P j)) js s)"
  by (induction js arbitrary: r s) (simp_all add: mirrored_bit)

lemma mirrored_crc: "mirrored r s \<Longrightarrow> mirrored (fold eth_byte a r) (fold crc_byte a s)"
  by (induction a arbitrary: r s) (simp_all add: eth_byte_bits crc_byte_def mirrored_fold)

lemma hash_lt: "nu_hash a < 64"
proof -
  have "drop_bit 26 w AND (0x3f :: 32 word) = take_bit 6 (drop_bit 26 w)" for w :: "32 word"
    by (simp add: take_bit_eq_mask mask_eq_exp_minus_1)
  then show ?thesis unfolding nu_hash_def using take_bit_nat_less_exp [of 6] by (simp add: unsigned_take_bit_eq)
qed

text \<open>
  The hash \<open>nu_hash\<close> of an address is the low six bits, in reverse order, of the register of the
  usual (reflected, byte at a time) Ethernet CRC over the address.
\<close>

theorem nu_hash_is_crc:
  "nu_hash a = (\<Sum>i<6. of_bool (bit (eth_crc (take 6 a)) (5 - i)) * 2 ^ i)"
proof -
  define s where "s = fold crc_byte (take 6 a) 0xffffffff"
  have ones: "(0xffffffff :: 32 word) = -1" by simp
  have "mirrored 0xffffffff 0xffffffff"
    unfolding mirrored_def ones by (auto simp: bit_minus_1_iff)
  then have m: "mirrored (eth_crc (take 6 a)) s" unfolding eth_crc_def s_def by (rule mirrored_crc)
  have n: "bit (nu_hash a) i \<longleftrightarrow> bit (eth_crc (take 6 a)) (5 - i)" if "i < 6" for i
  proof -
    have "i \<in> {0, 1, 2, 3, 4, 5}" using that by auto
    then have "bit (0x3f :: 32 word) i" "31 - (5 - i) = 26 + i" "5 - i < 32" by (auto simp: bit_numeral_rec)
    then show ?thesis
      using m unfolding mirrored_def nu_hash_def s_def [symmetric]
      by (simp add: bit_unsigned_iff bit_and_iff bit_drop_bit_eq)
  qed
  have "nu_hash a = take_bit 6 (nu_hash a)" using hash_lt [of a] by (simp add: take_bit_nat_eq_self)
  also have "\<dots> = (\<Sum>i = 0..<6. push_bit i (of_bool (bit (nu_hash a) i)))" by (rule take_bit_sum)
  also have "\<dots> = (\<Sum>i<6. of_bool (bit (eth_crc (take 6 a)) (5 - i)) * 2 ^ i)"
    unfolding lessThan_atLeast0 by (rule sum.cong) (auto simp: n push_bit_eq_mult)
  finally show ?thesis .
qed

end
