(* ===== verification/NuMcast.thy ===== *)
theory NuMcast
  imports NuProps NuHash
begin

unbundle bit_operations_syntax

text \<open>
  The multicast filter: the table of addresses with their counts is a multiset of at most
  \<open>NU_NMC\<close> different addresses, the chip's hash filter follows it, and the hash is the
  Ethernet CRC.
\<close>

section \<open>A counted set\<close>

text \<open>
  One operation, \<open>(True, e)\<close> to add and \<open>(False, e)\<close> to remove, on the multiset it stands for. The counts end at \<open>lim\<close>:
  an interface as the driver's says nothing of an element added once more.
\<close>

definition cs_spec :: "nat \<Rightarrow> bool \<times> 'e \<Rightarrow> 'e multiset \<Rightarrow> bool \<times> 'e multiset" where
  "cs_spec cap p M =
    (if fst p then (if snd p \<in># M \<or> card (set_mset M) < cap then (True, add_mset (snd p) M) else (False, M))
     else (snd p \<in># M, M - {#snd p#}))"

lemma cs_spec_count: "count (snd (cs_spec cap p M)) e \<le> count M e + (if p = (True, e) then 1 else 0)"
  by (cases p) (auto simp: cs_spec_def)

definition room :: "nat \<Rightarrow> (bool \<times> 'e) list \<Rightarrow> 'e multiset \<Rightarrow> bool" where
  "room lim ps M \<longleftrightarrow> (\<forall>e. count M e + count_list ps (True, e) \<le> lim)"

lemma room_Cons: "room lim (p # ps) M \<Longrightarrow> room lim [p] M \<and> room lim ps (snd (cs_spec cap p M))"
proof -
  assume r: "room lim (p # ps) M"
  have "count M e + (if p = (True, e) then 1 else 0) + count_list ps (True, e) \<le> lim" for e
    using r by (auto simp: room_def split: if_splits)
  then have b: "count M e + (if p = (True, e) then 1 else 0) \<le> lim" for e using add_leD1 by blast
  have "count (snd (cs_spec cap p M)) e + count_list ps (True, e) \<le> lim" for e
    using r add_right_mono [OF cs_spec_count [of cap p M e], of "count_list ps (True, e)"]
    by (auto simp: room_def split: if_splits intro: order_trans dest!: spec [of _ e])
  moreover have "room lim [p] M"
    unfolding room_def
  proof
    show "count M e + count_list [p] (True, e) \<le> lim" for e using b [of e] by (cases "p = (True, e)") simp_all
  qed
  ultimately show ?thesis by (simp add: room_def)
qed

locale counted_set =
  fixes step :: "bool \<times> 'e \<Rightarrow> 't \<Rightarrow> bool \<times> 't" and abs :: "'t \<Rightarrow> 'e multiset" and ok :: "'t \<Rightarrow> bool"
    and valid :: "'e \<Rightarrow> bool" and cap :: nat and lim :: nat
  assumes step_ok: "ok t \<Longrightarrow> valid (snd p) \<Longrightarrow> room lim [p] (abs t) \<Longrightarrow> ok (snd (step p t))"
    and step_abs: "ok t \<Longrightarrow> valid (snd p) \<Longrightarrow> room lim [p] (abs t) \<Longrightarrow>
      (fst (step p t), abs (snd (step p t))) = cs_spec cap p (abs t)"
    and cap_ok: "ok t \<Longrightarrow> card (set_mset (abs t)) \<le> cap"
begin

lemma run:
  "ok t \<Longrightarrow> list_all valid (map snd ps) \<Longrightarrow> room lim ps (abs t) \<Longrightarrow>
    ok (fold (\<lambda>p s. snd (step p s)) ps t) \<and>
    abs (fold (\<lambda>p s. snd (step p s)) ps t) = fold (\<lambda>p M. snd (cs_spec cap p M)) ps (abs t)"
proof (induction ps arbitrary: t)
  case (Cons p ps)
  note r = room_Cons [OF Cons.prems(3), of cap]
  then have "ok (snd (step p t))" "abs (snd (step p t)) = snd (cs_spec cap p (abs t))"
    using Cons.prems step_ok [of t p] arg_cong [OF step_abs [of t p], of snd] by simp_all
  then show ?case using Cons.IH [of "snd (step p t)"] Cons.prems r by simp
qed simp

text \<open>A client that adds and later removes leaves the set as it found it.\<close>

lemma add_del:
  assumes "ok t" "valid e" "room lim [(True, e), (False, e)] (abs t)" "fst (step (True, e) t)"
  shows "fst (step (False, e) (snd (step (True, e) t))) \<and>
    abs (snd (step (False, e) (snd (step (True, e) t)))) = abs t"
proof -
  let ?t = "snd (step (True, e) t)"
  note r = room_Cons [OF assms(3), of cap]
  have a: "(fst (step (True, e) t), abs ?t) = cs_spec cap (True, e) (abs t)"
    using step_abs [OF assms(1), of "(True, e)"] assms(2) r by simp
  then have b: "abs ?t = add_mset e (abs t)" "abs ?t = snd (cs_spec cap (True, e) (abs t))"
    using assms(4) by (auto simp: cs_spec_def split: if_splits)
  have "(fst (step (False, e) ?t), abs (snd (step (False, e) ?t))) = (True, abs t)"
    using step_abs [OF step_ok [OF assms(1), of "(True, e)"], of "(False, e)"] assms(2) r b by (simp add: cs_spec_def)
  then show ?thesis by simp
qed

lemma full: "ok t \<Longrightarrow> valid e \<Longrightarrow> room lim [(True, e)] (abs t) \<Longrightarrow> \<not> fst (step (True, e) t) \<Longrightarrow> card (set_mset (abs t)) = cap \<and> e \<notin># abs t"
  using step_abs [of t "(True, e)"] cap_ok [of t] by (auto simp: cs_spec_def split: if_splits)

end

section \<open>The table\<close>

fun mc_bag :: "byte list list \<Rightarrow> int list \<Rightarrow> byte list multiset" where
  "mc_bag (a # as) (r # rs) = replicate_mset (nat r) a + mc_bag as rs"
| "mc_bag _ _ = {#}"

definition mc_abs :: "nust \<Rightarrow> byte list multiset" where
  "mc_abs st = mc_bag (n_mc st) (n_mcref st)"

definition mc_inv :: "nust \<Rightarrow> bool" where
  "mc_inv st \<longleftrightarrow> length (n_mcref st) = length (n_mc st) \<and> length (n_mc st) \<le> NU_NMC \<and> distinct (n_mc st) \<and>
     list_all (\<lambda>a. length a = 6) (n_mc st) \<and> list_all (\<lambda>r. 1 \<le> r) (n_mcref st) \<and>
     list_all (\<lambda>r. r \<le> 2147483647) (n_mcref st)"

text \<open>The count of an address is a C \<open>int\<close>.\<close>

definition MCMAX :: nat where
  "MCMAX = 2147483647"

text \<open>The filter the driver keeps is that of its table.\<close>

definition filt_ok :: "nust \<Rightarrow> bool" where
  "filt_ok st \<longleftrightarrow> n_mar st = mar_bits (n_mc st) \<and> (n_rcr st AND RCR_AM \<noteq> 0 \<longleftrightarrow> n_mc st \<noteq> [])"

definition mc_step :: "chip \<Rightarrow> bool \<times> byte list \<Rightarrow> nust \<Rightarrow> bool \<times> nust" where
  "mc_step c p st = (if fst p then nu_addmc c (snd p) st else nu_delmc c (snd p) st)"

lemma mcfind_Some:
  "mcfind mc a = Some i \<Longrightarrow> list_all (\<lambda>a. length a = 6) mc \<Longrightarrow> length a = 6 \<Longrightarrow> i < length mc \<and> mc ! i = a"
  by (induction mc arbitrary: i) (auto split: if_splits)

lemma mcfind_None:
  "list_all (\<lambda>a. length a = 6) mc \<Longrightarrow> length a = 6 \<Longrightarrow> mcfind mc a = None \<longleftrightarrow> a \<notin> set mc"
  by (induction mc) auto

lemma mc_bag_set:
  "length rs = length mc \<Longrightarrow> list_all (\<lambda>r. 1 \<le> r) rs \<Longrightarrow> set_mset (mc_bag mc rs) = set mc"
  by (induction mc rs rule: mc_bag.induct) auto

lemma mc_bag_snoc:
  "length rs = length mc \<Longrightarrow> mc_bag (mc @ [a]) (rs @ [r]) = mc_bag mc rs + replicate_mset (nat r) a"
  by (induction mc rs rule: mc_bag.induct) auto

lemma mc_bag_count:
  "length rs = length mc \<Longrightarrow> distinct mc \<Longrightarrow> i < length mc \<Longrightarrow> count (mc_bag mc rs) (mc ! i) = nat (rs ! i)"
proof (induction mc rs arbitrary: i rule: mc_bag.induct)
  case (1 a as r rs)
  have z: "x \<notin> set as \<Longrightarrow> length rs' = length as \<Longrightarrow> count (mc_bag as rs') x = 0" for x as rs'
    by (induction as rs' rule: mc_bag.induct) auto
  show ?case using 1 z [of a as rs] nth_mem [of "i - 1" as] by (cases i) auto
qed auto

lemma mc_bag_inc:
  "length rs = length mc \<Longrightarrow> i < length mc \<Longrightarrow> 0 \<le> rs ! i \<Longrightarrow>
     mc_bag mc (rs[i := rs ! i + 1]) = add_mset (mc ! i) (mc_bag mc rs)"
proof (induction mc rs arbitrary: i rule: mc_bag.induct)
  case (1 a as r rs)
  then show ?case by (cases i) (auto simp: nat_add_distrib)
qed auto

lemma mc_bag_dec:
  "length rs = length mc \<Longrightarrow> i < length mc \<Longrightarrow> 1 \<le> rs ! i \<Longrightarrow>
     add_mset (mc ! i) (mc_bag mc (rs[i := rs ! i - 1])) = mc_bag mc rs"
  using mc_bag_inc [of "rs[i := rs ! i - 1]" mc i] by simp

lemma mc_bag_drop:
  "length rs = length mc \<Longrightarrow> i < length mc \<Longrightarrow> rs ! i = 0 \<Longrightarrow>
     mc_bag (take i mc @ drop (Suc i) mc) (take i rs @ drop (Suc i) rs) = mc_bag mc rs"
proof (induction mc rs arbitrary: i rule: mc_bag.induct)
  case (1 a as r rs)
  then show ?case by (cases i) auto
qed auto

section \<open>What the operations change\<close>

lemma nu_filter_bus: "bus_only st (nu_filter c st)"
proof -
  have s: "bus_only a b \<Longrightarrow> bus_only a (nu_setcr c v b)" "bus_only a b \<Longrightarrow> bus_only a (nu_wrs ws b)"
    "bus_only a b \<Longrightarrow> bus_only a (nu_wr r v' b)" for a b v ws r v'
    by (blast intro: bus_only_trans bus_only_setcr(1) bus_only_wrs bus_only_wr)+
  show ?thesis unfolding nu_filter_def Let_def by (intro s bus_only_refl)
qed

lemma rcr_bits: "(x OR RCR_AM) AND RCR_AM \<noteq> 0" "(x AND NOT RCR_AM) AND RCR_AM = 0"
proof -
  have e: "RCR_AM = 2 ^ 3" by simp
  show "(x OR RCR_AM) AND RCR_AM \<noteq> 0" "(x AND NOT RCR_AM) AND RCR_AM = 0"
    unfolding e and_exp_eq_0_iff_not_bit by (simp_all only: bit_or_iff bit_and_iff bit_not_iff bit_exp_iff) auto
qed

lemma nu_mcload_state:
  "n_mc (nu_mcload c st) = n_mc st \<and> n_mcref (nu_mcload c st) = n_mcref st \<and> filt_ok (nu_mcload c st)"
proof -
  let ?s = "st\<lparr>n_mar := mar_bits (n_mc st), n_rcr := (if n_mc st \<noteq> [] then n_rcr st OR RCR_AM else n_rcr st AND NOT RCR_AM)\<rparr>"
  note f = bus_only_fields [OF nu_filter_bus [of ?s c]]
  show ?thesis
    unfolding nu_mcload_def filt_ok_def using rcr_bits by (simp add: f)
qed

lemma nu_addmc_step:
  assumes "mc_inv st" "length a = 6" "room MCMAX [(True, a)] (mc_abs st)"
  shows "mc_inv (snd (nu_addmc c a st)) \<and>
    (fst (nu_addmc c a st), mc_abs (snd (nu_addmc c a st))) = cs_spec NU_NMC (True, a) (mc_abs st)"
proof (cases "mcfind (n_mc st) a")
  case None
  then have n: "a \<notin> set (n_mc st)" using assms mcfind_None by (auto simp: mc_inv_def)
  have "card (set_mset (mc_abs st)) = length (n_mc st)" "set_mset (mc_abs st) = set (n_mc st)"
    using assms(1) mc_bag_set by (auto simp: mc_inv_def mc_abs_def distinct_card)
  then show ?thesis
    using n None assms nu_mcload_state
    by (auto simp: nu_addmc_def mc_inv_def cs_spec_def mc_abs_def mc_bag_snoc)
next
  case (Some i)
  then have i: "i < length (n_mc st)" "n_mc st ! i = a" using assms mcfind_Some by (auto simp: mc_inv_def)
  then have r: "1 \<le> n_mcref st ! i" using assms(1) by (auto simp: mc_inv_def list_all_length)
  have "count (mc_abs st) a = nat (n_mcref st ! i)"
    using i assms(1) mc_bag_count [of "n_mcref st" "n_mc st" i] by (auto simp: mc_inv_def mc_abs_def)
  moreover have "count (mc_abs st) a + 1 \<le> MCMAX" using assms(3) by (auto simp: room_def split: if_splits)
  ultimately have m: "n_mcref st ! i < 2147483647" "s32 (n_mcref st ! i + 1) = n_mcref st ! i + 1"
    using r by (simp_all add: MCMAX_def s32_id)
  have "a \<in># mc_abs st"
    using i assms(1) mc_bag_set [of "n_mcref st" "n_mc st"] nth_mem [OF i(1)] by (auto simp: mc_inv_def mc_abs_def)
  then show ?thesis
    using i r m Some assms mc_bag_inc [of "n_mcref st" "n_mc st" i]
    by (auto simp: nu_addmc_def mc_inv_def cs_spec_def mc_abs_def list_all_length nth_list_update)
qed

lemma list_all_update: "list_all P xs \<Longrightarrow> P x \<Longrightarrow> list_all P (xs[i := x])"
  by (auto simp: list_all_iff dest!: set_update_subset_insert [THEN subsetD])

lemma list_all_cut: "list_all P xs \<Longrightarrow> list_all P (take i xs @ drop (Suc i) xs)"
  by (auto simp: list_all_iff dest: in_set_takeD in_set_dropD)

lemma distinct_cut: "distinct xs \<Longrightarrow> distinct (take i xs @ drop (Suc i) xs)"
  using set_take_disj_set_drop_if_distinct [of xs i "Suc i"] by auto

lemma nu_delmc_step:
  assumes "mc_inv st" "length a = 6"
  shows "mc_inv (snd (nu_delmc c a st)) \<and>
    (fst (nu_delmc c a st), mc_abs (snd (nu_delmc c a st))) = cs_spec NU_NMC (False, a) (mc_abs st)"
proof (cases "mcfind (n_mc st) a")
  case None
  then have "a \<notin># mc_abs st"
    using assms mcfind_None mc_bag_set [of "n_mcref st" "n_mc st"] by (auto simp: mc_inv_def mc_abs_def)
  then show ?thesis using None assms(1) by (simp add: nu_delmc_def cs_spec_def diff_single_trivial)
next
  case (Some i)
  then have i: "i < length (n_mc st)" "n_mc st ! i = a" using assms mcfind_Some by (auto simp: mc_inv_def)
  have l: "length (n_mcref st) = length (n_mc st)" using assms(1) by (simp add: mc_inv_def)
  have r: "1 \<le> n_mcref st ! i" "list_all ((\<le>) 1) (n_mcref st)" using i assms(1) by (auto simp: mc_inv_def list_all_length)
  have u: "n_mcref st ! i \<le> 2147483647" "list_all (\<lambda>r. r \<le> 2147483647) (n_mcref st)"
    using i l assms(1) by (auto simp: mc_inv_def list_all_length)
  define rs where "rs = (n_mcref st)[i := n_mcref st ! i - 1]"
  have rs: "rs = (n_mcref st)[i := s32 (n_mcref st ! i - 1)]" using r(1) u(1) by (simp add: rs_def s32_id)
  have top: "list_all (\<lambda>r. r \<le> 2147483647) rs" using list_all_update [OF u(2), of "n_mcref st ! i - 1" i] u(1) by (simp add: rs_def)
  have m: "a \<in># mc_abs st"
    using i assms(1) mc_bag_set [of "n_mcref st" "n_mc st"] nth_mem [OF i(1)] by (auto simp: mc_inv_def mc_abs_def)
  have d: "add_mset a (mc_bag (n_mc st) rs) = mc_abs st"
    using mc_bag_dec [OF l i(1) r(1)] i(2) by (simp add: rs_def mc_abs_def)
  have rl: "length rs = length (n_mc st)" "rs ! i = n_mcref st ! i - 1" using l i(1) by (simp_all add: rs_def)
  have d2: "mc_bag (n_mc st) rs = mc_abs st - {#a#}" using d by (metis add_mset_remove_trivial)
  show ?thesis
  proof (cases "rs ! i > 0")
    case True
    then have "list_all ((\<le>) 1) rs"
      using rl(2) list_all_update [OF r(2), of "n_mcref st ! i - 1" i] True by (simp add: rs_def)
    then show ?thesis
      using True Some assms(1) m d2 rl top by (auto simp: nu_delmc_def Let_def rs [symmetric] mc_inv_def cs_spec_def mc_abs_def)
  next
    case False
    then have z: "rs ! i = 0" using rl r(1) by simp
    have "list_all ((\<le>) 1) (take i rs @ drop (Suc i) rs)"
      using list_all_cut [OF r(2), of i] by (simp add: rs_def)
    moreover note list_all_cut [OF top, of i] list_all_cut [of "\<lambda>a. length a = 6" "n_mc st" i] distinct_cut [of "n_mc st" i] mc_bag_drop [OF rl(1) i(1) z]
    ultimately show ?thesis
      using False Some assms(1) m d2 rl i(1) nu_mcload_state
      by (auto simp: nu_delmc_def Let_def rs [symmetric] mc_inv_def cs_spec_def mc_abs_def)
  qed
qed

lemma mc_inv_card: "mc_inv st \<Longrightarrow> card (set_mset (mc_abs st)) \<le> NU_NMC"
  using mc_bag_set [of "n_mcref st" "n_mc st"] card_length [of "n_mc st"] by (auto simp: mc_inv_def mc_abs_def)

interpretation mc: counted_set "mc_step c" mc_abs mc_inv "\<lambda>a. length a = 6" NU_NMC MCMAX
  by unfold_locales
    (use nu_addmc_step nu_delmc_step mc_inv_card in \<open>auto simp: mc_step_def split_paired_all\<close>)

section \<open>The hash filter\<close>

definition mar_bit :: "byte list \<Rightarrow> nat \<Rightarrow> bool" where
  "mar_bit mar h \<longleftrightarrow> bit (mar ! (h div 8)) (h mod 8)"

lemma bit_one_word: "bit (2 ^ k :: byte) j \<longleftrightarrow> k = j \<and> j < 8"
  by (auto simp: bit_exp_iff)

lemma mar_bit_set:
  assumes "length mar = 8" "g < 64" "h < 64"
  shows "mar_bit (mar[g div 8 := mar ! (g div 8) OR push_bit (g mod 8) 1]) h \<longleftrightarrow> mar_bit mar h \<or> g = h"
proof -
  have "g = h \<longleftrightarrow> g div 8 = h div 8 \<and> g mod 8 = h mod 8" by (metis div_mult_mod_eq)
  then show ?thesis using assms by (auto simp: mar_bit_def nth_list_update bit_or_iff bit_one_word)
qed

lemma mar_bits_fold:
  assumes "length mar = 8" "h < 64"
  shows "length (fold (\<lambda>a mar. mar[nu_hash a div 8 := mar ! (nu_hash a div 8) OR push_bit (nu_hash a mod 8) 1]) mc mar) = 8 \<and>
    (mar_bit (fold (\<lambda>a mar. mar[nu_hash a div 8 := mar ! (nu_hash a div 8) OR push_bit (nu_hash a mod 8) 1]) mc mar) h \<longleftrightarrow>
      mar_bit mar h \<or> (\<exists>a\<in>set mc. nu_hash a = h))"
  using assms(1)
proof (induction mc arbitrary: mar)
  case (Cons a mc)
  then show ?case using mar_bit_set [OF Cons.prems hash_lt [of a] assms(2)] by auto
qed simp

lemma mar_bits_exact: "h < 64 \<Longrightarrow> mar_bit (mar_bits mc) h \<longleftrightarrow> (\<exists>a\<in>set mc. nu_hash a = h)"
proof -
  assume h: "h < 64"
  then have "\<not> mar_bit (replicate 8 0) h" by (simp add: mar_bit_def)
  then show ?thesis using mar_bits_fold [of "replicate 8 0" h mc] h unfolding mar_bits_def by simp
qed

lemma mc_step_filt: "filt_ok st \<Longrightarrow> filt_ok (snd (mc_step c p st))"
  using nu_mcload_state
  by (auto simp: mc_step_def nu_addmc_def nu_delmc_def Let_def filt_ok_def split: option.split)

lemma mc_run_filt: "filt_ok st \<Longrightarrow> filt_ok (fold (\<lambda>p s. snd (mc_step c p s)) ps st)"
  by (induction ps arbitrary: st) (auto simp: mc_step_filt)

text \<open>
  C30. The multicast table is a counted set of at most \<open>NU_NMC\<close> addresses: after any requests, each
  by \<open>nu_addmc\<close> or \<open>nu_delmc\<close>, it holds the multiset the requests make, where an add is refused
  exactly for a seventeenth address; the counts are C integers, so no address may be added more than
  2147483647 times in all (past that a count is negative, and \<open>nu_delmc\<close> may drop an address still asked for). The filter accepts multicasts exactly while there is one, and its
  64 bits are exactly those of the hashes of the addresses held.
\<close>

theorem nu_multicast_counts:
  assumes "mc_inv st" "filt_ok st" "list_all (\<lambda>p. length (snd p) = 6) ps"
    "\<forall>a. count (mc_abs st) a + count_list ps (True, a) \<le> 2147483647"
  shows "let st' = fold (\<lambda>p s. snd (mc_step c p s)) ps st in
    mc_abs st' = fold (\<lambda>p M. snd (cs_spec NU_NMC p M)) ps (mc_abs st) \<and>
    (n_rcr st' AND RCR_AM \<noteq> 0 \<longleftrightarrow> mc_abs st' \<noteq> {#}) \<and>
    (\<forall>h. h < 64 \<longrightarrow> mar_bit (n_mar st') h = (\<exists>a. a \<in># mc_abs st' \<and> nu_hash a = h))"
proof -
  define st' where "st' = fold (\<lambda>p s. snd (mc_step c p s)) ps st"
  have v: "list_all (\<lambda>a. length a = 6) (map snd ps)" using assms(3) by (simp add: list_all_iff)
  have "room MCMAX ps (mc_abs st)" using assms(4) by (simp add: room_def MCMAX_def)
  then have r: "mc_inv st'" "mc_abs st' = fold (\<lambda>p M. snd (cs_spec NU_NMC p M)) ps (mc_abs st)"
    unfolding st'_def using mc.run [OF assms(1) v] by simp_all
  have f: "filt_ok st'" unfolding st'_def using assms(2) by (rule mc_run_filt)
  have s: "set_mset (mc_abs st') = set (n_mc st')"
    using r(1) mc_bag_set by (simp add: mc_inv_def mc_abs_def)
  then have e: "mc_abs st' = {#} \<longleftrightarrow> n_mc st' = []"
    by (metis set_mset_eq_empty_iff set_empty2)
  show ?thesis
    unfolding st'_def [symmetric] Let_def
    using r(2) f e s mar_bits_exact by (auto simp: filt_ok_def)
qed

theorem nu_multicast_counts_witness:
  "let st' = fold (\<lambda>p s. snd (mc_step (\<lambda>l r. 0) p s)) [(True, [1, 0, 0x5e, 0, 0, 1]), (True, [1, 0, 0x5e, 0, 0, 1]),
       (False, [1, 0, 0x5e, 0, 0, 1])] nu0 in
    mc_abs st' = {#[1, 0, 0x5e, 0, 0, 1]#} \<and> n_rcr st' AND RCR_AM \<noteq> 0"
proof -
  have "mc_inv nu0" "filt_ok nu0" "mc_abs nu0 = {#}"
    by (simp_all add: nu0_def mc_inv_def filt_ok_def mar_bits_def mc_abs_def)
  then show ?thesis
    using nu_multicast_counts [of nu0 "[(True, [1, 0, 0x5e, 0, 0, 1]), (True, [1, 0, 0x5e, 0, 0, 1]),
       (False, [1, 0, 0x5e, 0, 0, 1])]" "\<lambda>l r. 0"]
    by (simp add: Let_def cs_spec_def NU_NMC_def)
qed

end
