(* ===== verification/NuSetup.thy ===== *)
theory NuSetup
  imports NuWire NuMcast
begin

text \<open>
  What setting up the chip keeps and establishes, whatever card answers: \<open>nu_probe\<close>, \<open>nu_init\<close>,
  \<open>nu_recover\<close>, and the invariant under the operations of a running chip.
\<close>

section \<open>Accesses\<close>

lemma bus_ops:
  "bus_only a b \<Longrightarrow> bus_only a (nu_setcr c v b)"
  "bus_only a b \<Longrightarrow> bus_only a (nu_wrs ws b)"
  "bus_only a b \<Longrightarrow> bus_only a (nu_wr r x b)"
  "bus_only a b \<Longrightarrow> bus_only a (nu_delay us b)"
  "bus_only a b \<Longrightarrow> bus_only a (nu_wrmem c y bs b)"
  using bus_only_trans bus_only_setcr(1) bus_only_wrs bus_only_wr bus_only_delay bus_only_wrmem by blast+

lemma bus_results:
  "nu_rd c r b = (x, b') \<Longrightarrow> bus_only a b \<Longrightarrow> bus_only a b'"
  "nu_rdmem c y n b = (bs, b') \<Longrightarrow> bus_only a b \<Longrightarrow> bus_only a b'"
  "rd_regs c rs b = (xs, b') \<Longrightarrow> bus_only a b \<Longrightarrow> bus_only a b'"
  using bus_only_trans bus_only_rd [of b c r] bus_only_rdmem [of b c y n] rd_regs_bus [of b c rs] by auto

lemma reset_loop_bus: "reset_loop c k st = (ok, st') \<Longrightarrow> bus_only a st \<Longrightarrow> bus_only a st'"
proof (induction k arbitrary: st)
  case (Suc k)
  obtain x st1 where r: "nu_rd c NU_ISR st = (x, st1)" by fastforce
  have b: "bus_only a st1" using bus_results(1) [OF r Suc.prems(2)] .
  show ?case using Suc r b bus_ops(4) [OF b] by (auto split: if_splits)
qed simp

lemma nu_reset_bus: "nu_reset c st = (ok, st') \<Longrightarrow> bus_only a st \<Longrightarrow> bus_only a st'"
  by (auto simp: nu_reset_def split: prod.splits intro!: bus_ops dest!: bus_results(1) reset_loop_bus [OF _ bus_ops(4) [OF bus_ops(3)]])

lemma nu_memok_bus: "nu_memok c p st = (ok, st') \<Longrightarrow> bus_only a st \<Longrightarrow> bus_only a st'"
  by (auto simp: nu_memok_def split: prod.splits dest!: bus_results(2) [OF _ bus_ops(5)])

lemma nu_memalias_bus: "nu_memalias c p q st = (ok, st') \<Longrightarrow> bus_only a st \<Longrightarrow> bus_only a st'"
  by (auto simp: nu_memalias_def Let_def split: prod.splits dest!: bus_results(2) [OF _ bus_ops(5) [OF bus_ops(5)]])

lemma probe_8390_bus:
  assumes "probe_8390 c st = (ok, st')" "bus_only a st"
  shows "bus_only a st'"
proof -
  obtain cr st1 where 1: "nu_rd c NU_CR st = (cr, st1)" by fastforce
  have b1: "bus_only a st1" using bus_results(1) [OF 1 assms(2)] .
  obtain m st2 where 2: "nu_rd c (NU_MAR0 + 5) (nu_setcr c (CR_NODMA OR CR_STP OR CR_PAGE1) st1) = (m, st2)" by fastforce
  have b2: "bus_only a st2" using bus_results(1) [OF 2 bus_ops(1) [OF b1]] .
  obtain cs st3 where 3: "rd_regs c [0x0d, 0x0d] (nu_setcr c (CR_NODMA OR CR_STP) (nu_wr (NU_MAR0 + 5) 0xff st2)) = (cs, st3)"
    by fastforce
  have b3: "bus_only a st3" using bus_results(3) [OF 3 bus_ops(1) [OF bus_ops(3) [OF b2]]] .
  show ?thesis
    using assms(1) b1 b3 unfolding probe_8390_def 1 2 3 prod.case
    by (auto split: if_splits intro!: bus_ops)
qed

section \<open>The probe\<close>

text \<open>What a set-up leaves alone.\<close>

definition su_rel :: "nust \<Rightarrow> nust \<Rightarrow> bool" where
  "su_rel a b \<longleftrightarrow> n_txbuf b = n_txbuf a \<and> n_running b = n_running a \<and> n_failrun b = n_failrun a \<and> n_input b = n_input a"

definition mem_ok :: "nust \<Rightarrow> bool" where
  "mem_ok st \<longleftrightarrow> n_memlo st = 0x40 \<and> n_memhi st = 0x80 \<or> n_memlo st = 0x40 \<and> n_memhi st = 0x60 \<or>
     n_memlo st = 0x20 \<and> n_memhi st = 0x40"

definition same_mem :: "nust \<Rightarrow> nust \<Rightarrow> bool" where
  "same_mem a b \<longleftrightarrow> n_memlo b = n_memlo a \<and> n_memhi b = n_memhi a"

lemma su_bus: "bus_only a b \<Longrightarrow> su_rel a b \<and> same_mem a b"
  by (auto simp: bus_only_def su_rel_def same_mem_def)

lemma su_trans: "su_rel a b \<Longrightarrow> su_rel b c \<Longrightarrow> su_rel a c" "same_mem a b \<Longrightarrow> same_mem b c \<Longrightarrow> same_mem a c"
  by (auto simp: su_rel_def same_mem_def)

lemma probe_rtl_rel: "su_rel st (probe_rtl c st) \<and> same_mem st (probe_rtl c st)"
proof -
  obtain i0 st1 where 1: "nu_rd c 0x0a st = (i0, st1)" by fastforce
  obtain rtl st2 where 2: "(if i0 \<noteq> 0x50 then (False, st1)
         else (case nu_rd c 0x0b st1 of (a, s2) \<Rightarrow>
           if a = 0x70 then (True, s2)
           else (case nu_rd c 0x0b s2 of (b, s3) \<Rightarrow> (b = 0x43, s3)))) = (rtl, st2)" by fastforce
  have "bus_only st st1" using bus_results(1) [OF 1 bus_only_refl] .
  then have b2: "bus_only st st2"
    using 2 by (auto split: if_splits prod.splits dest: bus_results(1))
  obtain xs st4 where 4: "rd_regs c [NU_CONFIG1, NU_CONFIG1 + 1, NU_CONFIG1 + 2]
      (nu_setcr c (CR_NODMA OR CR_STP OR CR_PAGE3) (st2\<lparr>n_rtl := rtl\<rparr>)) = (xs, st4)" by fastforce
  have b4: "bus_only (st2\<lparr>n_rtl := rtl\<rparr>) st4" using bus_results(3) [OF 4 bus_ops(1) [OF bus_only_refl]] .
  have b5: "bus_only (st4\<lparr>n_cfg := ys\<rparr>) (nu_setcr c v (st4\<lparr>n_cfg := ys\<rparr>))" for ys v by (rule bus_only_setcr(1))
  show ?thesis
    unfolding probe_rtl_def 1 prod.case Let_def 2 4
    using su_bus [OF b2] su_bus [OF b4] su_bus [OF b5]
    by (simp add: su_rel_def same_mem_def)
qed

lemma probe_mem_rel:
  assumes "probe_mem c st = (ok, st')"
  shows "su_rel st st' \<and> (if ok then mem_ok st' else same_mem st st')"
proof -
  obtain m40 st1 where 1: "nu_memok c 0x40 st = (m40, st1)" by fastforce
  obtain hi st2 where 2: "(if m40 then nu_memok c 0x7f st1 else (False, st1)) = (hi, st2)" by fastforce
  have b1: "bus_only st st1" using nu_memok_bus [OF 1 bus_only_refl] .
  have b2: "bus_only st st2" using 2 b1 by (auto split: if_splits dest: nu_memok_bus)
  show ?thesis
  proof (cases hi)
    case True
    let ?s = "st2\<lparr>n_memlo := 0x40, n_memhi := 0x80\<rparr>"
    obtain b0 st3 where 3: "nu_rd c NU_RBCR0 ?s = (b0, st3)" by fastforce
    obtain sig st4 where 4: "(if b0 = 0x50 then (case nu_rd c NU_RBCR1 st3 of (b1, s) \<Rightarrow> (b1 = 0x70, s))
        else (False, st3)) = (sig, st4)" by fastforce
    obtain al st5 where 5: "(if sig then (True, st4) else nu_memalias c 0x40 0x60 st4) = (al, st5)" by fastforce
    have "bus_only ?s st3" using bus_results(1) [OF 3 bus_only_refl] .
    then have "bus_only ?s st4" using 4 by (auto split: if_splits prod.splits dest: bus_results(1))
    then have b5: "bus_only ?s st5" using 5 by (auto split: if_splits dest: nu_memalias_bus)
    have "ok" "st' = (if al then st5\<lparr>n_memhi := 0x60\<rparr> else st5)"
      using assms True unfolding probe_mem_def 1 prod.case Let_def 2 3 4 5 by simp_all
    then show ?thesis
      using su_bus [OF b2] su_bus [OF b5] by (auto simp: su_rel_def mem_ok_def same_mem_def)
  next
    case False
    obtain m20 st3 where 3: "nu_memok c 0x20 st2 = (m20, st3)" by fastforce
    obtain lo st4 where 4: "(if m20 then nu_memok c 0x3f st3 else (False, st3)) = (lo, st4)" by fastforce
    have "bus_only st st3" using nu_memok_bus [OF 3 b2] .
    then have b4: "bus_only st st4" using 4 by (auto split: if_splits dest: nu_memok_bus)
    have "ok = lo" "st' = (if lo then st4\<lparr>n_memlo := 0x20, n_memhi := 0x40\<rparr> else st4)"
      using assms False unfolding probe_mem_def 1 prod.case Let_def 2 3 4 by (auto split: if_splits)
    then show ?thesis
      using su_bus [OF b4] by (auto simp: su_rel_def mem_ok_def same_mem_def)
  qed
qed

lemma nu_probe_rel:
  assumes "nu_probe c st = (ok, st')"
  shows "su_rel st st' \<and> (if ok then mem_ok st' \<and> length (n_prom st') = 6 else same_mem st st')"
proof -
  obtain cr st1 where 1: "nu_rd c NU_CR st = (cr, st1)" by fastforce
  have b1: "bus_only st st1" using bus_results(1) [OF 1 bus_only_refl] .
  obtain r st2 where 2: "nu_reset c st1 = (r, st2)" by fastforce
  have b2: "bus_only st st2" using nu_reset_bus [OF 2 b1] .
  obtain is8 st3 where 3: "probe_8390 c st2 = (is8, st3)" by fastforce
  have b3: "bus_only st st3" using probe_8390_bus [OF 3 b2] .
  define st3' where "st3' = nu_wrs [(NU_DCR, NU_DCRMODE), (NU_RCR, RCR_MON), (NU_TCR, TCR_LOOP), (NU_IMR, 0),
                   (NU_ISR, 0xff)] (probe_rtl c st3)"
  obtain m st4 where 4: "probe_mem c st3' = (m, st4)" by fastforce
  obtain pr st5 where 5: "nu_rdmem c 0 32 st4 = (pr, st5)" by fastforce
  have "bus_only (probe_rtl c st3) st3'" unfolding st3'_def by (rule bus_only_wrs)
  then have w: "su_rel (probe_rtl c st3) st3' \<and> same_mem (probe_rtl c st3) st3'" by (rule su_bus)
  have s3: "su_rel st st3'" "same_mem st st3'"
    using su_bus [OF b3] probe_rtl_rel [of st3 c] w by (auto simp: su_rel_def same_mem_def)
  have s4: "su_rel st st4" "if m then mem_ok st4 else same_mem st st4"
    using probe_mem_rel [OF 4] s3 su_trans(1) [OF s3(1)] su_trans(2) [OF s3(2)] by (auto split: if_splits)
  have s5: "su_rel st4 st5" "same_mem st4 st5" using su_bus [OF bus_results(2) [OF 5 bus_only_refl]] by auto
  have l: "length (prom_addr pr) = 6" by (simp add: prom_addr_def)
  have run: "nu_probe c st = (if cr = 0xff then (False, st1) else if \<not> r then (False, st2) else if \<not> is8 then (False, st3)
      else if \<not> m then (False, st4) else (True, st5\<lparr>n_prom := prom_addr pr, n_crcprobe := True, n_nocrc := False\<rparr>))"
    unfolding nu_probe_def 1 2 3 prod.case st3'_def [symmetric] 4 5 by simp
  have f: "su_rel st st'" "same_mem st st'" if "ok = False" "st' \<in> {st1, st2, st3}"
    using su_bus [OF b1] su_bus [OF b2] su_bus [OF b3] that by auto
  have "su_rel st st5" "m \<Longrightarrow> mem_ok st5"
    using su_trans(1) [OF s4(1) s5(1)] s4(2) s5(2) by (simp_all add: mem_ok_def same_mem_def)
  then have "su_rel st (st5\<lparr>n_prom := x, n_crcprobe := True, n_nocrc := False\<rparr>)"
    "m \<Longrightarrow> mem_ok (st5\<lparr>n_prom := x, n_crcprobe := True, n_nocrc := False\<rparr>)" for x
    by (simp_all add: su_rel_def mem_ok_def)
  then show ?thesis
    using assms f s4 l unfolding run by (simp split: if_splits) auto
qed

section \<open>The init\<close>

text \<open>The ring and transmitter as \<open>nu_init\<close> sets them, on a state that differs in the log only.\<close>

lemma verify_regs_rel: "verify_regs c page rs (bad, st) = (bad', st') \<Longrightarrow> \<exists>x. bus_only (st\<lparr>n_bad := x\<rparr>) st'"
proof (induction rs arbitrary: bad st)
  case Nil
  then show ?case using bus_only_refl [of st] by (intro exI [of _ "n_bad st"]) simp
next
  case (Cons r rs)
  obtain reg mk want where r: "r = (reg, mk, want)" by (cases r)
  obtain x st1 where 1: "nu_rd c reg st = (x, st1)" by fastforce
  have b: "st1 = st\<lparr>n_log := n_log st @ [Rd reg]\<rparr>" using 1 by (auto simp: nu_rd_def)
  obtain bad2 st2 where 2: "(if x AND mk \<noteq> want AND mk
         then (bad + 1, st1\<lparr>n_bad := (page * 256 + int reg, want AND mk, x AND mk)\<rparr>) else (bad, st1)) = (bad2, st2)"
    by fastforce
  obtain y where y: "bus_only (st2\<lparr>n_bad := y\<rparr>) st'"
    using Cons.IH [of bad2 st2] Cons.prems unfolding r by (auto simp: 1 2)
  have "bus_only (st\<lparr>n_bad := y\<rparr>) (st2\<lparr>n_bad := y\<rparr>)"
    using 2 b by (auto simp: bus_only_def split: if_splits intro!: exI [of _ "[Rd reg]"] exI [of _ "n_crmiss st"])
  then show ?case using y bus_only_trans by blast
qed

lemma bad_bus: "bus_only a b \<Longrightarrow> bus_only (a\<lparr>n_bad := x\<rparr>) (b\<lparr>n_bad := x\<rparr>)"
  unfolding bus_only_def
proof (elim exE)
  fix l n assume "b = a\<lparr>n_log := n_log a @ l, n_crmiss := n\<rparr>"
  then show "\<exists>l n. b\<lparr>n_bad := x\<rparr> = (a\<lparr>n_bad := x\<rparr>)\<lparr>n_log := n_log (a\<lparr>n_bad := x\<rparr>) @ l, n_crmiss := n\<rparr>"
    by (intro exI [of _ l] exI [of _ n]) simp
qed

lemma nu_verify_rel: "\<exists>x. bus_only (st\<lparr>n_bad := x\<rparr>) (snd (nu_verify c st))"
proof -
  have step: "\<exists>y. bus_only (st\<lparr>n_bad := y\<rparr>) s2"
    if v: "verify_regs c page rs (bad, nu_setcr c cr s) = (bad', s2)" and b: "bus_only (st\<lparr>n_bad := x\<rparr>) s" for page rs bad cr s bad' s2 x
  proof -
    obtain y where y: "bus_only ((nu_setcr c cr s)\<lparr>n_bad := y\<rparr>) s2" using verify_regs_rel [OF v] by blast
    have "bus_only (st\<lparr>n_bad := y\<rparr>) ((nu_setcr c cr s)\<lparr>n_bad := y\<rparr>)"
      using bad_bus [OF bus_ops(1) [OF b], of y] by simp
    then show ?thesis using y bus_only_trans by blast
  qed
  obtain b2 st2 where 2: "verify_regs c 2 [(0x01, 0xff, n_rxstart st), (0x02, 0xff, n_rxstop st), (0x0c, 0x3f, n_rcr st),
           (0x0d, 0x1f, TCR_LOOP), (0x0e, 0x7f, NU_DCRMODE), (0x0f, 0x7f, 0)]
           (0, nu_setcr c (CR_NODMA OR CR_STP OR CR_PAGE2) st) = (b2, st2)" by fastforce
  obtain x2 where x2: "bus_only (st\<lparr>n_bad := x2\<rparr>) st2"
    using step [OF 2, of "n_bad st"] bus_only_refl by auto
  obtain b1 st4 where 4: "verify_regs c 1 (map (\<lambda>i. (NU_PAR0 + i, 0xff, uint (n_ea st ! i))) [0..<6] @
           [(NU_CURR, 0xff, n_rxstart st)]) (b2, nu_setcr c (CR_NODMA OR CR_STP OR CR_PAGE1) st2) = (b1, st4)" by fastforce
  obtain x4 where x4: "bus_only (st\<lparr>n_bad := x4\<rparr>) st4" using step [OF 4 x2] by blast
  obtain b0 st6 where 6: "verify_regs c 0 [(NU_BNRY, 0xff, n_rxstop st - 1)] (b1, nu_setcr c (CR_NODMA OR CR_STP) st4) = (b0, st6)"
    by fastforce
  have "nu_verify c st = (b0, st6)"
    unfolding nu_verify_def Let_def using 2 4 6 by simp
  then show ?thesis using step [OF 6 x4] by simp
qed

text \<open>What both ends of an init share with the state \<open>init_sc\<close> leaves.\<close>

lemma nu_init_rel:
  assumes "nu_init c st = (ok, st')"
  shows "n_txbuf st' = n_txbuf st \<and> same_mem st st' \<and> n_running st' = ok \<and> n_failrun st' = n_failrun st \<and>
    n_input st' = n_input st \<and> n_ea st' = n_ea st \<and>
    (ok \<and> mem_ok st \<and> length (n_txbuf st) = 1514 \<longrightarrow> nu_inv st')"
proof -
  obtain r st1 where 1: "nu_reset c (st\<lparr>n_running := False\<rparr>) = (r, st1)" by fastforce
  have b1: "bus_only (st\<lparr>n_running := False\<rparr>) st1" using nu_reset_bus [OF 1 bus_only_refl] .
  define st2 where "st2 = nu_wrs [(NU_DCR, NU_DCRMODE), (NU_RBCR0, 0), (NU_RBCR1, 0), (NU_RCR, RCR_MON), (NU_TCR, TCR_LOOP)]
              (nu_setcr c (CR_NODMA OR CR_STP) st1)"
  define st3 where "st3 = st2\<lparr>n_rxstart := n_memlo st2 + int NU_NTX * NU_TXPAGES, n_rxstop := n_memhi st2\<rparr>"
  define st4 where "st4 = nu_wrs [(NU_PSTART, n_rxstart st3), (NU_PSTOP, n_rxstop st3), (NU_BNRY, n_rxstop st3 - 1),
              (NU_ISR, 0xff), (NU_IMR, 0)] st3"
  define st5 where "st5 = nu_wr NU_CURR (n_rxstart st4) (nu_setcr c (CR_NODMA OR CR_STP OR CR_PAGE1) st4)"
  define si where "si = init_sc st5"
  obtain bad st6 where 6: "nu_verify c (nu_filter c si) = (bad, st6)" by fastforce
  have b2: "bus_only (st\<lparr>n_running := False\<rparr>) st2" unfolding st2_def by (intro bus_ops b1)
  have b5: "bus_only st3 st5" unfolding st5_def st4_def by (intro bus_ops bus_only_refl)
  obtain x where "bus_only ((nu_filter c si)\<lparr>n_bad := x\<rparr>) st6" using nu_verify_rel [of "nu_filter c si" c] 6 by auto
  then have b6: "bus_only (si\<lparr>n_bad := x\<rparr>) st6"
    using bus_only_trans [OF bad_bus [OF nu_filter_bus [of si c]]] by blast
  note f2 = bus_only_fields [OF b2] and f5 = bus_only_fields [OF b5] and f6 = bus_only_fields [OF b6]
  have g6: "n_txbuf st6 = n_txbuf st5" "n_memlo st6 = n_memlo st5" "n_memhi st6 = n_memhi st5" "n_running st6 = n_running st5"
    "n_input st6 = n_input st5" "n_ea st6 = n_ea st5" "n_failrun st6 = n_failrun st5" "n_rxstart st6 = n_rxstart st5"
    "n_rxstop st6 = n_rxstop st5" "n_rxnext st6 = n_rxstart st5" "n_txlen st6 = [0]" "n_txcur st6 = -1" "n_txfill st6 = 0"
    by (simp_all add: f6 si_def init_sc_def nu_consts)
  have g3: "n_txbuf st5 = n_txbuf st" "n_memlo st5 = n_memlo st" "n_memhi st5 = n_memhi st" "n_running st5 = False"
    "n_input st5 = n_input st" "n_ea st5 = n_ea st" "n_failrun st5 = n_failrun st" "n_rxstart st5 = n_memlo st + 6"
    "n_rxstop st5 = n_memhi st"
    by (simp_all add: f5 st3_def f2 nu_consts)
  have fr: "n_failrun st6 = n_failrun st" by (simp add: g6 g3)
  have i6: "n_txbuf st6 = n_txbuf st" "same_mem st st6" "n_running st6 = False" "n_input st6 = n_input st" "n_ea st6 = n_ea st"
    "mem_ok st \<and> length (n_txbuf st) = 1514 \<Longrightarrow> nu_inv st6"
    by (auto simp: g6 g3 same_mem_def nu_inv_def ring_ok_def tx_ok_def mem_ok_def)
  define st7 where "st7 = nu_wrs [(NU_TCR, 0), (NU_IMR, n_imr (nu_setcr c (CR_NODMA OR CR_STA) st6))]
            (nu_setcr c (CR_NODMA OR CR_STA) st6)"
  have b7: "bus_only st6 st7" unfolding st7_def by (intro bus_ops bus_only_refl)
  define st8 where "st8 = nu_setcr c (CR_NODMA OR CR_STP) (nu_stat (\<lambda>s. s\<lparr>st_initbad := u32 (st_initbad s + 1)\<rparr>) st6)"
  have b8: "bus_only (nu_stat (\<lambda>s. s\<lparr>st_initbad := u32 (st_initbad s + 1)\<rparr>) st6) st8" unfolding st8_def by (rule bus_only_setcr(1))
  note f1 = bus_only_fields [OF b1] and f7 = bus_only_fields [OF b7] and f8 = bus_only_fields [OF b8]
  have g7: "n_txbuf st7 = n_txbuf st" "same_mem st st7" "n_input st7 = n_input st" "n_ea st7 = n_ea st" "n_failrun st7 = n_failrun st"
    using i6 fr by (simp_all add: f7 same_mem_def)
  have g8: "n_txbuf st8 = n_txbuf st" "same_mem st st8" "n_input st8 = n_input st" "n_ea st8 = n_ea st" "n_failrun st8 = n_failrun st"
    "n_running st8 = False"
    using i6 fr by (simp_all add: f8 same_mem_def nu_stat_def)
  have g1: "n_txbuf st1 = n_txbuf st" "same_mem st st1" "n_input st1 = n_input st" "n_ea st1 = n_ea st" "n_failrun st1 = n_failrun st"
    "n_running st1 = False"
    by (simp_all add: f1 same_mem_def)
  have run: "nu_init c st = (if \<not> r then (False, st1) else if bad \<noteq> 0 then (False, st8) else (True, st7\<lparr>n_running := True\<rparr>))"
    unfolding nu_init_def 1 prod.case Let_def st2_def [symmetric] st3_def [symmetric] st4_def [symmetric] st5_def [symmetric]
      si_def [symmetric] 6 st8_def st7_def by simp
  have "nu_inv (st7\<lparr>n_running := True\<rparr>)" if "mem_ok st" "length (n_txbuf st) = 1514"
    using nu_inv_bus [OF b7 i6(6)] that by simp
  then show ?thesis
    using assms run g1 g7 g8 by (auto simp: same_mem_def split: if_splits)
qed

lemma nu_recover_rel:
  assumes "nu_recover c st = (ok, st')" "mem_ok st"
  shows "n_txbuf st' = n_txbuf st \<and> mem_ok st' \<and> n_running st' = ok \<and> n_failrun st' = n_failrun st \<and>
    n_input st' = n_input st \<and> (ok \<and> length (n_txbuf st) = 1514 \<longrightarrow> nu_inv st')"
proof -
  let ?st0 = "(nu_stat (\<lambda>s. s\<lparr>st_recover := u32 (st_recover s + 1)\<rparr>) st)\<lparr>n_running := False\<rparr>"
  obtain found st1 where 1: "nu_probe c ?st0 = (found, st1)" by fastforce
  have p: "su_rel ?st0 st1" "if found then mem_ok st1 else same_mem ?st0 st1" using nu_probe_rel [OF 1] by (auto split: if_splits)
  then have g1: "n_txbuf st1 = n_txbuf st" "n_running st1 = False" "n_failrun st1 = n_failrun st" "n_input st1 = n_input st" "mem_ok st1"
    using assms(2) by (auto simp: su_rel_def same_mem_def mem_ok_def nu_stat_def split: if_splits)
  obtain xs st2 where 2: "rd_regs c [NU_CONFIG1, NU_CONFIG1 + 1, NU_CONFIG1 + 2]
            (nu_setcr c (CR_NODMA OR CR_STP OR CR_PAGE3) st1) = (xs, st2)" by fastforce
  have b2: "bus_only st1 st2" using bus_results(3) [OF 2 bus_ops(1) [OF bus_only_refl]] .
  define fixed where "fixed = length (filter (\<lambda>i. xs ! i \<noteq> uint (n_cfg st2 ! i)) [0..<3])"
  define st3 where "st3 = (if fixed \<noteq> 0 then
                       nu_stat (\<lambda>s. s\<lparr>st_cfgfix := u32 (st_cfgfix s + int fixed)\<rparr>)
                         (nu_wrs ((NU_9346CR, 0xc0) # map (\<lambda>i. (NU_CONFIG1 + i, uint (n_cfg st2 ! i))) [0..<3] @
                           [(NU_9346CR, 0)]) st2)
                     else st2)"
  have "bus_only st2 (nu_wrs ws st2)" for ws by (intro bus_ops bus_only_refl)
  note f3 = bus_only_fields [OF this] and f2 = bus_only_fields [OF b2]
  have g3: "n_txbuf st3 = n_txbuf st1" "n_failrun st3 = n_failrun st1" "n_input st3 = n_input st1" "same_mem st1 st3"
    by (simp_all add: st3_def nu_stat_def f3 f2 same_mem_def del: nu_wrs.simps)
  define st4 where "st4 = nu_setcr c (CR_NODMA OR CR_STP) st3"
  note f4 = bus_only_fields [OF bus_only_setcr(1) [of st3 c "CR_NODMA OR CR_STP"], folded st4_def]
  have g4: "n_txbuf st4 = n_txbuf st" "n_failrun st4 = n_failrun st" "n_input st4 = n_input st" "mem_ok st4"
    using g1 g3 by (simp_all add: f4 same_mem_def mem_ok_def)
  have run: "nu_recover c st = (if \<not> found then (False, st1) else if n_rtl st1 \<and> n_cfgok st1 then nu_init c st4 else nu_init c st1)"
    unfolding nu_recover_def 1 prod.case Let_def 2 fixed_def [symmetric] st3_def [symmetric] st4_def by simp
  have m: "mem_ok st'" if "same_mem a st'" "mem_ok a" for a using that by (simp add: mem_ok_def same_mem_def)
  have "(if \<not> found then (False, st1) else if n_rtl st1 \<and> n_cfgok st1 then nu_init c st4 else nu_init c st1) = (ok, st')"
    using assms(1) run by (rule trans [OF sym, rotated])
  then consider "st' = st1" "\<not> ok" | "nu_init c st4 = (ok, st')" | "nu_init c st1 = (ok, st')"
    by (cases found; cases "n_rtl st1 \<and> n_cfgok st1") simp_all
  then show ?thesis
  proof cases
    case 2
    show ?thesis using nu_init_rel [OF 2] g4 m [of st4] by simp
  next
    case 3
    show ?thesis using nu_init_rel [OF 3] g1 m [of st1] by simp
  qed (use g1 in auto)
qed

section \<open>The running chip\<close>

text \<open>What the operations of a running chip keep.\<close>

definition run_rel :: "nust \<Rightarrow> nust \<Rightarrow> bool" where
  "run_rel a b \<longleftrightarrow> same_mem a b \<and> n_txbuf b = n_txbuf a \<and> n_failrun b = n_failrun a"

lemma run_rel_refl: "run_rel a a"
  by (simp add: run_rel_def same_mem_def)

lemma run_rel_trans: "run_rel a b \<Longrightarrow> run_rel b c \<Longrightarrow> run_rel a c"
  by (simp add: run_rel_def same_mem_def)

lemma run_rel_bus: "bus_only a b \<Longrightarrow> run_rel a b"
  using bus_only_fields [of a b] by (simp add: run_rel_def same_mem_def)

lemma run_rel_stat: "run_rel a (nu_stat f a)"
  by (simp add: run_rel_def same_mem_def nu_stat_def)

lemma run_rel_rx: "rx_rel a b \<Longrightarrow> run_rel a b"
  by (auto simp: rx_rel_def run_rel_def same_mem_def)

lemma txreclaim_rel:
  assumes "nu_inv st"
  shows "run_rel st (snd (nu_txreclaim c isr st)) \<and> n_running (snd (nu_txreclaim c isr st)) = n_running st \<and>
    (fst (nu_txreclaim c isr st) \<longrightarrow> n_txcur (snd (nu_txreclaim c isr st)) < 0) \<and>
    (\<not> fst (nu_txreclaim c isr st) \<longrightarrow> snd (nu_txreclaim c isr st) = st)"
proof (cases "n_txcur st < 0 \<or> isr AND (ISR_PTX OR ISR_TXE) = 0")
  case False
  obtain t st1 where t: "nu_rd c NU_TSR (nu_wr NU_ISR (isr AND (ISR_PTX OR ISR_TXE)) st) = (t, st1)" by fastforce
  have b: "bus_only st st1" using bus_results(1) [OF t bus_ops(3) [OF bus_only_refl]] .
  have n: "n_txcur st1 = 0" "length (n_txlen st1) = 1"
    using assms False bus_only_fields [OF b] by (auto simp: nu_inv_def tx_ok_def split: if_splits)
  let ?st2 = "(nu_stat (tx_count t) st1)\<lparr>n_txlen := (n_txlen st1)[0 := 0], n_txcur := -1\<rparr>"
  have "n_txlen ?st2 = [0]" using n(2) by (cases "n_txlen st1") auto
  then have e: "nu_txreclaim c isr st = (True, ?st2)" using False t n by (simp add: nu_txreclaim_def Let_def nu_consts)
  have "run_rel st1 ?st2" by (simp add: run_rel_def same_mem_def nu_stat_def)
  then have "run_rel st ?st2" by (rule run_rel_trans [OF run_rel_bus [OF b]])
  then show ?thesis unfolding e using bus_only_fields [OF b] by (simp add: nu_stat_def)
qed (simp add: nu_txreclaim_def run_rel_refl)

lemma txroom_rel:
  assumes "nu_inv st" "nu_txroom c st = (ok, st')"
  shows "nu_inv st' \<and> run_rel st st' \<and> n_running st' = n_running st \<and> (ok \<longrightarrow> n_txcur st' < 0)"
proof -
  obtain isr s where r: "nu_rd c NU_ISR st = (isr, s)" by fastforce
  have b: "bus_only st s" using bus_results(1) [OF r bus_only_refl] .
  have i: "nu_inv s" using nu_inv_bus [OF b assms(1)] .
  have fill: "n_txfill st = 0" "n_txlen st = [n_txlen st ! 0]" "n_txlen st ! 0 = 0 \<longleftrightarrow> n_txcur st < 0"
    using assms(1) by (auto simp: nu_inv_def tx_ok_def)
  let ?s' = "snd (nu_txreclaim c isr s)"
  have i': "nu_inv ?s'" using nu_inv_reclaim [OF i] by simp
  then have fill': "n_txfill ?s' = 0" "n_txlen ?s' ! 0 = 0 \<longleftrightarrow> n_txcur ?s' < 0"
    by (auto simp: nu_inv_def tx_ok_def)
  have rel: "run_rel st ?s'" using run_rel_trans [OF run_rel_bus [OF b]] txreclaim_rel [OF i] by blast
  show ?thesis
  proof (cases "n_txlen st ! 0 = 0")
    case True
    then have "ok" "st' = st" using assms(2) fill by (auto simp: nu_txroom_def Let_def)
    then show ?thesis using assms(1) True fill(3) run_rel_refl by simp
  next
    case False
    then have "st' = ?s'" "ok = (n_txlen ?s' ! 0 = 0)" using assms(2) fill(1) fill'(1) r by (auto simp: nu_txroom_def Let_def)
    then show ?thesis using i' fill'(2) rel txreclaim_rel [OF i, of c isr] bus_only_fields(17) [OF b] by simp
  qed
qed

lemma txstart_rel:
  assumes "nu_inv st" "n_txcur st < 0" "len \<le> 1514"
  shows "\<exists>st'. nu_txstart c len st = Some st' \<and> nu_inv st' \<and> same_mem st st' \<and> n_running st' = n_running st \<and>
    n_failrun st' = n_failrun st"
proof -
  let ?s = "st\<lparr>n_txbuf := padded len (n_txbuf st) @ drop (max len 60) (n_txbuf st)\<rparr>"
  obtain st1 where 1: "bus_only ?s st1"
    "nu_txstart c len st = Some (nu_kick c 0 (st1\<lparr>n_txlen := [int (max len 60)], n_txfill := 0\<rparr>))"
    using txstart_idle [OF assms] by blast
  let ?k = "st1\<lparr>n_txlen := [int (max len 60)], n_txfill := 0, n_txcur := int 0, n_txage := 0\<rparr>"
  have b: "bus_only ?k (nu_kick c 0 (st1\<lparr>n_txlen := [int (max len 60)], n_txfill := 0\<rparr>))"
    unfolding nu_kick_def Let_def by (rule bus_only_trans [OF bus_only_setcr(2) bus_only_wrs])
  note f = bus_only_fields [OF 1(1)] and g = bus_only_fields [OF b]
  have n: "length (n_txbuf st) = 1514" "ring_ok st" using assms(1) by (auto simp: nu_inv_def tx_ok_def)
  have "length (n_txbuf ?s) = 1514" using n(1) assms(3) by (simp add: padded_def)
  then have "nu_inv (nu_kick c 0 (st1\<lparr>n_txlen := [int (max len 60)], n_txfill := 0\<rparr>))"
    using n(2) assms(3) by (simp add: nu_inv_def ring_ok_def tx_ok_def g f)
  then show ?thesis using 1(2) by (simp add: same_mem_def g f)
qed

lemma poll_tx_rel:
  assumes "nu_inv st" "poll_tx c a st = (w, st')"
  shows "run_rel st st'"
proof -
  obtain isr st1 where 1: "nu_rd c NU_ISR st = (isr, st1)" by fastforce
  have b: "bus_only st st1" using bus_results(1) [OF 1 bus_only_refl] .
  obtain d st2 where 2: "nu_txreclaim c isr st1 = (d, st2)" by fastforce
  have r: "run_rel st st2"
    using run_rel_trans [OF run_rel_bus [OF b]] txreclaim_rel [OF nu_inv_bus [OF b assms(1)], of c isr] 2 by simp
  show ?thesis
    using assms(2) r by (cases d) (auto simp: poll_tx_def 1 2 Let_def poll_reinit_def nu_stat_def run_rel_def same_mem_def split: if_splits)
qed

text \<open>A poll, with all the driver needs of it.\<close>

lemma poll_rel:
  assumes "n_running st \<longrightarrow> nu_inv st"
  shows "\<exists>w st'. nu_poll c st = Some (w, st') \<and> (n_running st \<longrightarrow> nu_inv st') \<and> (n_running st' \<longrightarrow> n_running st) \<and>
    run_rel st st' \<and> (\<exists>fs. n_input st' = n_input st @ fs \<and> list_all frame_ok fs)"
proof (cases "n_running st")
  case False
  then show ?thesis using run_rel_refl by (intro exI [of _ False] exI [of _ st]) (simp add: nu_poll_def)
next
  case True
  obtain w st' s where p: "nu_poll c st = Some (w, st')" "rx_rel st s"
    "\<not> w \<and> st' = poll_reinit s \<or> (\<exists>a. poll_tx c a s = (w, st'))" using nu_poll_ends assms True by blast
  have i: "nu_inv s" using nu_inv_rx [OF p(2)] assms True by simp
  have "nu_inv st' \<and> n_input st' = n_input s"
    using p(3) poll_reinit_inv [OF i] poll_tx_inv [OF i] by (metis snd_conv)
  moreover have "run_rel s (poll_reinit s)" by (simp add: run_rel_def same_mem_def poll_reinit_def nu_stat_def)
  then have "run_rel s st'" using p(3) poll_tx_rel [OF i] by blast
  ultimately show ?thesis
    using p(1) True rx_rel_input [OF p(2)] run_rel_trans [OF run_rel_rx [OF p(2)]] by (intro exI [of _ w] exI [of _ st']) simp
qed

end
