(* ===== verification/NuDrv.thy ===== *)
theory NuDrv
  imports NuDlpi NuSetup
begin

text \<open>
  The invariant of the driver \<open>driver-nu/nu.c\<close> and that every event keeps it: minors and streams
  are inverse, queued frames are counted, the chip is in a state its core can work with.
\<close>

section \<open>Minors and queues\<close>

definition min_ok :: "enminor list \<Rightarrow> (nat \<Rightarrow> nat option) \<Rightarrow> nat option \<Rightarrow> bool" where
  "min_ok ms qp pq \<longleftrightarrow> length ms = NU_NMINOR \<and>
     (\<forall>q m. qp q = Some m \<longleftrightarrow> m < NU_NMINOR \<and> min_rdq (ms ! m) = Some q) \<and>
     (\<forall>i < NU_NMINOR. \<forall>j < NU_NMINOR. min_state (ms ! i) = DL_IDLE \<and> min_state (ms ! j) = DL_IDLE \<and>
        min_sap (ms ! i) = min_sap (ms ! j) \<longrightarrow> i = j) \<and>
     (\<forall>m < NU_NMINOR. min_rdq (ms ! m) = None \<longrightarrow> min_state (ms ! m) = DL_UNBOUND) \<and>
     (pq = None \<longrightarrow> (\<forall>m < NU_NMINOR. min_rdq (ms ! m) = None)) \<and>
     (\<forall>q. pq = Some q \<longrightarrow> qp q \<noteq> None)"

definition nqlen :: "enminor list \<Rightarrow> (nat \<Rightarrow> mblk list) \<Rightarrow> nat \<Rightarrow> nat" where
  "nqlen ms wq m = (case min_rdq (ms ! m) of None \<Rightarrow> 0 | Some q \<Rightarrow> length (wq q))"

definition wq_ok :: "enminor list \<Rightarrow> (nat \<Rightarrow> nat option) \<Rightarrow> (nat \<Rightarrow> mblk list) \<Rightarrow> nat \<Rightarrow> bool" where
  "wq_ok ms qp wq cnt \<longleftrightarrow> cnt = (\<Sum>m < NU_NMINOR. nqlen ms wq m) \<and> (\<forall>q. qp q = None \<longrightarrow> wq q = []) \<and>
     (\<forall>q. \<forall>mp \<in> set (wq q). 14 \<le> length (mb_data mp))"

lemma min_okD:
  assumes "min_ok ms qp pq"
  shows "length ms = NU_NMINOR" "qp q = Some m \<longleftrightarrow> m < NU_NMINOR \<and> min_rdq (ms ! m) = Some q"
    "i < NU_NMINOR \<Longrightarrow> j < NU_NMINOR \<Longrightarrow> min_state (ms ! i) = DL_IDLE \<Longrightarrow> min_state (ms ! j) = DL_IDLE \<Longrightarrow>
       min_sap (ms ! i) = min_sap (ms ! j) \<Longrightarrow> i = j"
    "m < NU_NMINOR \<Longrightarrow> min_rdq (ms ! m) = None \<Longrightarrow> min_state (ms ! m) = DL_UNBOUND"
    "pq = None \<Longrightarrow> m < NU_NMINOR \<Longrightarrow> min_rdq (ms ! m) = None" "pq = Some q \<Longrightarrow> qp q \<noteq> None"
  using assms unfolding min_ok_def by blast+

lemma find_min_Some: "find_min_nu P ms = Some i \<Longrightarrow> i < NU_NMINOR \<and> P (ms ! i)"
  by (auto simp: find_min_nu_def dest!: find_SomeD)

lemma find_min_None: "find_min_nu P ms = None \<longleftrightarrow> (\<forall>i < NU_NMINOR. \<not> P (ms ! i))"
  by (auto simp: find_min_nu_def find_None_iff)

lemma nqlen_sum:
  assumes "min_ok ms qp pq" "qp q = Some m"
  shows "(\<Sum>i < NU_NMINOR. nqlen ms (wq(q := xs)) i) + length (wq q) = (\<Sum>i < NU_NMINOR. nqlen ms wq i) + length xs"
proof -
  have m: "m < NU_NMINOR" "min_rdq (ms ! m) = Some q" using assms(2) min_okD(2) [OF assms(1)] by auto
  have o: "nqlen ms (wq(q := xs)) i = nqlen ms wq i" if "i < NU_NMINOR" "i \<noteq> m" for i
  proof -
    have "min_rdq (ms ! i) \<noteq> Some q"
      using that assms(2) min_okD(2) [OF assms(1), of q i] by auto
    then show ?thesis by (auto simp: nqlen_def split: option.split)
  qed
  have "(\<Sum>i \<in> {..<NU_NMINOR} - {m}. nqlen ms (wq(q := xs)) i) = (\<Sum>i \<in> {..<NU_NMINOR} - {m}. nqlen ms wq i)"
    by (rule sum.cong) (auto simp: o)
  moreover have "nqlen ms (wq(q := xs)) m = length xs" "nqlen ms wq m = length (wq q)"
    using m(2) by (simp_all add: nqlen_def)
  ultimately show ?thesis
    using sum.remove [of "{..<NU_NMINOR}" m "nqlen ms (wq(q := xs))"] sum.remove [of "{..<NU_NMINOR}" m "nqlen ms wq"] m(1)
    by simp
qed

lemma wq_ok_put:
  assumes "min_ok ms qp pq" "qp q = Some m" "wq_ok ms qp wq cnt" "14 \<le> length (mb_data mp)"
  shows "wq_ok ms qp (wq(q := wq q @ [mp])) (Suc cnt)"
  using assms(2-4) nqlen_sum [OF assms(1,2), of wq "wq q @ [mp]"] by (auto simp: wq_ok_def)

lemma wq_ok_get:
  assumes "min_ok ms qp pq" "qp q = Some m" "wq_ok ms qp wq cnt" "wq q = mp # rest"
  shows "wq_ok ms qp (wq(q := rest)) (cnt - 1)"
proof -
  have "\<forall>x\<in>set (wq q). 14 \<le> length (mb_data x)" using assms(3) by (simp add: wq_ok_def)
  then have "\<forall>x\<in>set rest. 14 \<le> length (mb_data x)" using assms(4) by simp
  then show ?thesis
    using assms(2-4) nqlen_sum [OF assms(1,2), of wq rest] by (auto simp: wq_ok_def)
qed

lemma wq_ok_drop:
  assumes "min_ok ms qp pq" "qp q = Some m" "wq_ok ms qp wq cnt"
  shows "wq_ok ms qp (wq(q := [])) (cnt - length (wq q))"
  using assms(2,3) nqlen_sum [OF assms(1,2), of wq "[]"] by (auto simp: wq_ok_def)

lemma nqlen_update: "m < length ms \<Longrightarrow> min_rdq x = min_rdq (ms ! m) \<Longrightarrow> nqlen (ms[m := x]) wq i = nqlen ms wq i"
  by (cases "i = m") (simp_all add: nqlen_def)

lemma min_ok_bind:
  assumes "min_ok ms qp pq" "m < NU_NMINOR" "\<forall>i < NU_NMINOR. \<not> (min_state (ms ! i) = DL_IDLE \<and> min_sap (ms ! i) = sap)"
    "min_rdq (ms ! m) = Some q"
  shows "min_ok (ms[m := (ms ! m)\<lparr>min_state := DL_IDLE, min_sap := sap\<rparr>]) qp pq"
proof -
  let ?ms = "ms[m := (ms ! m)\<lparr>min_state := DL_IDLE, min_sap := sap\<rparr>]"
  have l: "length ms = NU_NMINOR" using min_okD(1) [OF assms(1)] .
  have r: "min_rdq (?ms ! i) = min_rdq (ms ! i)" for i using l assms(2) by (cases "i = m") simp_all
  have "i = j" if "i < NU_NMINOR" "j < NU_NMINOR" "min_state (?ms ! i) = DL_IDLE" "min_state (?ms ! j) = DL_IDLE"
    "min_sap (?ms ! i) = min_sap (?ms ! j)" for i j
    using that l assms(3) min_okD(3) [OF assms(1), of i j] by (cases "i = m"; cases "j = m") auto
  moreover have "min_state (?ms ! i) = DL_UNBOUND" if "i < NU_NMINOR" "min_rdq (?ms ! i) = None" for i
    using that l assms(4) min_okD(4) [OF assms(1), of i] by (cases "i = m") auto
  ultimately show ?thesis using assms(1) l unfolding min_ok_def r by auto
qed

lemma min_ok_unbind:
  assumes "min_ok ms qp pq" "m < NU_NMINOR"
  shows "min_ok (ms[m := (ms ! m)\<lparr>min_state := DL_UNBOUND, min_sap := 0\<rparr>]) qp pq"
proof -
  let ?ms = "ms[m := (ms ! m)\<lparr>min_state := DL_UNBOUND, min_sap := 0\<rparr>]"
  have l: "length ms = NU_NMINOR" using min_okD(1) [OF assms(1)] .
  have r: "min_rdq (?ms ! i) = min_rdq (ms ! i)" for i using l assms(2) by (cases "i = m") simp_all
  have "i = j" if "i < NU_NMINOR" "j < NU_NMINOR" "min_state (?ms ! i) = DL_IDLE" "min_state (?ms ! j) = DL_IDLE"
    "min_sap (?ms ! i) = min_sap (?ms ! j)" for i j
    using that l min_okD(3) [OF assms(1), of i j] by (cases "i = m"; cases "j = m") auto
  moreover have "min_state (?ms ! i) = DL_UNBOUND" if "i < NU_NMINOR" "min_rdq (?ms ! i) = None" for i
    using that l min_okD(4) [OF assms(1), of i] by (cases "i = m") auto
  ultimately show ?thesis using assms(1) l unfolding min_ok_def r by auto
qed

lemma min_ok_open:
  assumes "min_ok ms qp pq" "m < NU_NMINOR" "min_rdq (ms ! m) = None" "qp q = None"
  shows "min_ok (ms[m := \<lparr>min_rdq = Some q, min_state = DL_UNBOUND, min_sap = 0\<rparr>]) (qp(q := Some m))
    (if pq = None then Some q else pq)"
proof -
  let ?ms = "ms[m := \<lparr>min_rdq = Some q, min_state = DL_UNBOUND, min_sap = 0\<rparr>]"
  have l: "length ms = NU_NMINOR" using min_okD(1) [OF assms(1)] .
  have "(qp(q := Some m)) x = Some i \<longleftrightarrow> i < NU_NMINOR \<and> min_rdq (?ms ! i) = Some x" for x i
    using min_okD(2) [OF assms(1), of x i] min_okD(2) [OF assms(1), of q i] assms(2-4) l
    by (cases "i = m"; cases "x = q") auto
  moreover have "i = j" if "i < NU_NMINOR" "j < NU_NMINOR" "min_state (?ms ! i) = DL_IDLE" "min_state (?ms ! j) = DL_IDLE"
    "min_sap (?ms ! i) = min_sap (?ms ! j)" for i j
    using that l min_okD(3) [OF assms(1), of i j] by (cases "i = m"; cases "j = m") auto
  moreover have "min_state (?ms ! i) = DL_UNBOUND" if "i < NU_NMINOR" "min_rdq (?ms ! i) = None" for i
    using that l min_okD(4) [OF assms(1), of i] by (cases "i = m") auto
  moreover have "(qp(q := Some m)) x \<noteq> None" if "(if pq = None then Some q else pq) = Some x" for x
    using that min_okD(6) [OF assms(1), of x] by (auto split: if_splits)
  ultimately show ?thesis unfolding min_ok_def using l by auto
qed

lemma wq_ok_open:
  assumes "min_ok ms qp pq" "m < NU_NMINOR" "min_rdq (ms ! m) = None" "qp q = None" "wq_ok ms qp wq cnt"
  shows "wq_ok (ms[m := \<lparr>min_rdq = Some q, min_state = DL_UNBOUND, min_sap = 0\<rparr>]) (qp(q := Some m)) wq cnt"
proof -
  have l: "length ms = NU_NMINOR" using min_okD(1) [OF assms(1)] .
  have "wq q = []" using assms(4,5) by (simp add: wq_ok_def)
  then have "nqlen (ms[m := \<lparr>min_rdq = Some q, min_state = DL_UNBOUND, min_sap = 0\<rparr>]) wq i = nqlen ms wq i" for i
    using l assms(2,3) by (cases "i = m") (simp_all add: nqlen_def)
  then show ?thesis using assms(5) by (simp add: wq_ok_def)
qed

lemma close_ok:
  assumes "min_ok ms qp pq" "qp q = Some m" "wq_ok ms qp wq cnt"
    "pq' = (if pq = Some q then (case find_min_nu (\<lambda>x. min_rdq x \<noteq> None) ms' of None \<Rightarrow> None | Some i \<Rightarrow> min_rdq (ms' ! i)) else pq)"
    "ms' = ms[m := \<lparr>min_rdq = None, min_state = DL_UNBOUND, min_sap = 0\<rparr>]"
  shows "min_ok ms' (qp(q := None)) pq' \<and> wq_ok ms' (qp(q := None)) (wq(q := [])) (cnt - length (wq q))"
proof -
  have l: "length ms = NU_NMINOR" using min_okD(1) [OF assms(1)] .
  have m: "m < NU_NMINOR" "min_rdq (ms ! m) = Some q" using assms(2) min_okD(2) [OF assms(1)] by auto
  have qk: "(qp(q := None)) x = Some i \<longleftrightarrow> i < NU_NMINOR \<and> min_rdq (ms' ! i) = Some x" for x i
    using min_okD(2) [OF assms(1), of x i] min_okD(2) [OF assms(1), of q i] assms(2) m l unfolding assms(5)
    by (cases "i = m"; cases "x = q") auto
  have un: "i = j" if "i < NU_NMINOR" "j < NU_NMINOR" "min_state (ms' ! i) = DL_IDLE" "min_state (ms' ! j) = DL_IDLE"
    "min_sap (ms' ! i) = min_sap (ms' ! j)" for i j
    using that l min_okD(3) [OF assms(1), of i j] unfolding assms(5) by (cases "i = m"; cases "j = m") auto
  have st: "min_state (ms' ! i) = DL_UNBOUND" if "i < NU_NMINOR" "min_rdq (ms' ! i) = None" for i
    using that l min_okD(4) [OF assms(1), of i] unfolding assms(5) by (cases "i = m") auto
  have pn: "\<forall>i < NU_NMINOR. min_rdq (ms' ! i) = None" if "pq' = None"
  proof (cases "pq = Some q")
    case True
    then have "find_min_nu (\<lambda>x. min_rdq x \<noteq> None) ms' = None"
      using that find_min_Some [of "\<lambda>x. min_rdq x \<noteq> None" ms'] unfolding assms(4) by (auto split: option.splits)
    then show ?thesis by (simp add: find_min_None)
  next
    case False
    then have "pq = None" using that assms(4) by simp
    then show ?thesis using min_okD(5) [OF assms(1)] m by auto
  qed
  have ps: "(qp(q := None)) x \<noteq> None" if "pq' = Some x" for x
  proof (cases "pq = Some q")
    case True
    then show ?thesis
      using that find_min_Some [of "\<lambda>x. min_rdq x \<noteq> None" ms'] qk [of x] unfolding assms(4) by (auto split: option.splits)
  next
    case False
    then show ?thesis using that min_okD(6) [OF assms(1), of x] assms(4) by auto
  qed
  have "min_ok ms' (qp(q := None)) pq'"
    unfolding min_ok_def using qk un st pn ps l assms(5) by auto
  moreover have "nqlen ms' (wq(q := [])) i = nqlen ms (wq(q := [])) i" for i
    using l m unfolding assms(5) by (cases "i = m") (simp_all add: nqlen_def)
  then have "wq_ok ms' (qp(q := None)) (wq(q := [])) (cnt - length (wq q))"
    using wq_ok_drop [OF assms(1-3)] assms(3) by (simp add: wq_ok_def)
  ultimately show ?thesis by blast
qed

section \<open>Operations that only allocate and send up\<close>

definition dl_core where
  "dl_core st = (v_up st, v_pollq st, v_min st, v_running st, v_enaddr st, v_wqcnt st, v_nextmin st, v_mode st, v_qptr st, v_wq st)"

definition quiet :: "nud \<Rightarrow> nud \<Rightarrow> bool" where
  "quiet a b \<longleftrightarrow> dl_core b = dl_core a \<and> v_sc b = v_sc a \<and> v_lbolt b = v_lbolt a \<and> v_retry b = v_retry a"

lemma quiet_refl: "quiet a a"
  by (simp add: quiet_def)

lemma quiet_trans: "quiet a b \<Longrightarrow> quiet b c \<Longrightarrow> quiet a c"
  by (simp add: quiet_def)

lemma quiet_fields:
  assumes "quiet a b"
  shows "v_up b = v_up a" "v_pollq b = v_pollq a" "v_min b = v_min a" "v_running b = v_running a" "v_enaddr b = v_enaddr a"
    "v_wqcnt b = v_wqcnt a" "v_nextmin b = v_nextmin a" "v_mode b = v_mode a" "v_qptr b = v_qptr a" "v_wq b = v_wq a"
    "v_sc b = v_sc a" "v_lbolt b = v_lbolt a" "v_retry b = v_retry a"
  using assms by (simp_all add: quiet_def dl_core_def)

lemma quiet_alloc: "quiet a b \<Longrightarrow> quiet a (snd (allocb_nu env b))"
  by (simp add: quiet_def dl_core_def allocb_nu_def)

lemma quiet_put: "quiet a b \<Longrightarrow> quiet a (putnext_nu q mp b)"
  by (simp add: quiet_def dl_core_def putnext_nu_def)

lemma quiet_cmn: "quiet a b \<Longrightarrow> quiet a (cmn_err_nu m b)"
  by (simp add: quiet_def dl_core_def cmn_err_nu_def)

lemma quiet_qenable: "quiet a b \<Longrightarrow> quiet a (qenable_poll b)"
  by (simp add: quiet_def dl_core_def qenable_poll_def split: option.split)

lemma quiet_up: "quiet a b \<Longrightarrow> quiet a (en_send_up_nu env q mp b)"
  by (simp add: en_send_up_nu_def quiet_put)

lemma quiet_allocD: "allocb_nu env b = (x, b') \<Longrightarrow> quiet a b \<Longrightarrow> quiet a b'"
  using quiet_alloc [of a b env] by simp

lemma quiet_mkind: "en_mkind_nu env cont d s b = (x, b') \<Longrightarrow> quiet a b \<Longrightarrow> quiet a b'"
  by (auto simp: en_mkind_nu_def split: prod.splits bool.splits dest: quiet_allocD)

lemma quiet_reuse: "en_reuse_nu env mp n b = (x, b') \<Longrightarrow> quiet a b \<Longrightarrow> quiet a b'"
  by (auto simp: en_reuse_nu_def split: if_splits prod.splits bool.splits dest: quiet_allocD)

lemma quiet_error: "quiet a b \<Longrightarrow> quiet a (en_error_ack_nu env q mp p e m b)"
  by (auto simp: en_error_ack_nu_def split: prod.splits option.splits intro!: quiet_put dest: quiet_reuse)

lemma quiet_uderror: "quiet a b \<Longrightarrow> en_uderror_ind_nu env q mp e b = Some c \<Longrightarrow> quiet a c"
  by (auto simp: en_uderror_ind_nu_def quiet_put split: if_splits)

lemma quiet_info: "quiet a b \<Longrightarrow> quiet a (en_info_nu env q m mp b)"
  by (auto simp: en_info_nu_def Let_def split: prod.splits option.splits intro!: quiet_put quiet_error dest: quiet_reuse)

lemma quiet_echo: "quiet a b \<Longrightarrow> quiet a (en_echo_nu env q mp dst b)"
  by (auto simp: en_echo_nu_def split: prod.splits option.splits bool.splits intro!: quiet_up dest: quiet_mkind quiet_allocD)

lemma quiet_rproc: "quiet a b \<Longrightarrow> quiet a (en_rproc_nu env f b)"
  by (auto simp: en_rproc_nu_def split: prod.splits option.splits intro!: quiet_up dest: quiet_mkind)

section \<open>The invariant\<close>

definition chip_ok :: "bool \<Rightarrow> nust \<Rightarrow> bool" where
  "chip_ok up sc \<longleftrightarrow> length (n_txbuf sc) = 1514 \<and>
     (up \<longrightarrow> mem_ok sc \<and> (n_running sc \<longrightarrow> nu_inv sc))"

definition mode_inv :: "numode \<Rightarrow> bool" where
  "mode_inv m \<longleftrightarrow> mode_ok (m_rbase m) (m_wbase m) (m_dly m) (m_nocache m) (m_pad m)"

definition nd_inv :: "nud \<Rightarrow> bool" where
  "nd_inv st \<longleftrightarrow> min_ok (v_min st) (v_qptr st) (v_pollq st) \<and> wq_ok (v_min st) (v_qptr st) (v_wq st) (v_wqcnt st) \<and>
     v_nextmin st < NU_NMINOR \<and> length (v_enaddr st) = 6 \<and> v_running st = v_up st \<and> mode_inv (v_mode st) \<and>
     chip_ok (v_up st) (v_sc st)"

lemma nd_invD:
  assumes "nd_inv st"
  shows "min_ok (v_min st) (v_qptr st) (v_pollq st)" "wq_ok (v_min st) (v_qptr st) (v_wq st) (v_wqcnt st)"
    "v_nextmin st < NU_NMINOR" "length (v_enaddr st) = 6" "v_running st = v_up st" "mode_inv (v_mode st)"
    "chip_ok (v_up st) (v_sc st)"
  using assms by (auto simp: nd_inv_def)

lemma nd_inv_quiet: "quiet a b \<Longrightarrow> nd_inv a \<Longrightarrow> nd_inv b"
  by (simp add: quiet_def dl_core_def nd_inv_def)

text \<open>Only the chip changes.\<close>

lemma nd_inv_sc: "nd_inv st \<Longrightarrow> chip_ok (v_up st) sc \<Longrightarrow> nd_inv (st\<lparr>v_sc := sc\<rparr>)"
  by (simp add: nd_inv_def)

lemma chip_ok_stat: "chip_ok up (nu_stat f sc) = chip_ok up sc"
  by (simp add: chip_ok_def mem_ok_def nu_inv_stat) (simp add: nu_stat_def)

lemma chip_ok_run:
  assumes "run_rel a b" "chip_ok up a" "n_running b \<Longrightarrow> up \<Longrightarrow> nu_inv b"
  shows "chip_ok up b"
  using assms by (auto simp: chip_ok_def run_rel_def same_mem_def mem_ok_def)

lemma chip_ok_bus: "bus_only a b \<Longrightarrow> chip_ok up a \<Longrightarrow> chip_ok up b"
  using chip_ok_run [OF run_rel_bus, of a b up] bus_only_fields(17) [of a b] nu_inv_bus [of a b]
  unfolding chip_ok_def by metis

section \<open>DLPI requests\<close>

lemma nu_bind_inv:
  assumes "nd_inv st" "m < NU_NMINOR" "min_rdq (v_min st ! m) = Some q"
  shows "nd_inv (en_bind_nu env q m mp sap st)"
proof (cases "min_state (v_min st ! m) \<noteq> DL_UNBOUND \<or> find_min_nu (\<lambda>x. min_state x = DL_IDLE \<and> min_sap x = sap) (v_min st) \<noteq> None")
  case True
  then show ?thesis using nd_inv_quiet [OF quiet_error [OF quiet_refl] assms(1)] by (auto simp: en_bind_nu_def)
next
  case False
  note D = nd_invD [OF assms(1)]
  let ?st1 = "st\<lparr>v_min := (v_min st)[m := (v_min st ! m)\<lparr>min_state := DL_IDLE, min_sap := sap\<rparr>]\<rparr>"
  have "min_ok (v_min ?st1) (v_qptr st) (v_pollq st)"
    using min_ok_bind [OF D(1) assms(2) _ assms(3)] False by (auto simp: find_min_None)
  moreover have "wq_ok (v_min ?st1) (v_qptr st) (v_wq st) (v_wqcnt st)"
    using D(2) nqlen_update [of m "v_min st"] min_okD(1) [OF D(1)] assms(2) by (simp add: wq_ok_def)
  ultimately have i: "nd_inv ?st1" using assms(1) by (simp add: nd_inv_def)
  obtain r st2 where 2: "en_reuse_nu env mp 30 ?st1 = (r, st2)" by fastforce
  have "quiet ?st1 st2" using quiet_reuse [OF 2 quiet_refl] .
  then have "quiet ?st1 (en_bind_nu env q m mp sap st)"
    using False 2 by (auto simp: en_bind_nu_def Let_def intro!: quiet_error quiet_put split: option.split)
  then show ?thesis using nd_inv_quiet i by blast
qed

lemma nu_unbind_inv:
  assumes "nd_inv st" "m < NU_NMINOR"
  shows "nd_inv (en_unbind_nu env q m mp st)"
proof (cases "min_state (v_min st ! m) \<noteq> DL_IDLE")
  case True
  then show ?thesis using nd_inv_quiet [OF quiet_error [OF quiet_refl] assms(1)] by (auto simp: en_unbind_nu_def)
next
  case False
  note D = nd_invD [OF assms(1)]
  let ?st1 = "st\<lparr>v_min := (v_min st)[m := (v_min st ! m)\<lparr>min_state := DL_UNBOUND, min_sap := 0\<rparr>]\<rparr>"
  have "min_ok (v_min ?st1) (v_qptr st) (v_pollq st)" using min_ok_unbind [OF D(1) assms(2)] by simp
  moreover have "wq_ok (v_min ?st1) (v_qptr st) (v_wq st) (v_wqcnt st)"
    using D(2) nqlen_update [of m "v_min st"] min_okD(1) [OF D(1)] assms(2) by (simp add: wq_ok_def)
  ultimately have i: "nd_inv ?st1" using assms(1) by (simp add: nd_inv_def)
  obtain r st2 where 2: "en_reuse_nu env mp 8 ?st1 = (r, st2)" by fastforce
  have "quiet ?st1 st2" using quiet_reuse [OF 2 quiet_refl] .
  then have "quiet ?st1 (en_unbind_nu env q m mp st)"
    using False 2 by (auto simp: en_unbind_nu_def Let_def intro!: quiet_error quiet_put split: option.split)
  then show ?thesis using nd_inv_quiet i by blast
qed

lemma qenable_inv: "nd_inv st \<Longrightarrow> nd_inv (qenable_poll st)"
  by (rule nd_inv_quiet [OF quiet_qenable [OF quiet_refl]])

text \<open>The result of an operation: the invariant, or a request the driver is not safe from.\<close>

definition nd_res :: "nud option \<Rightarrow> bool \<Rightarrow> bool" where
  "nd_res r bad \<longleftrightarrow> (case r of None \<Rightarrow> bad | Some st \<Rightarrow> nd_inv st)"

lemma nd_res_simps [simp]: "nd_res (Some st) bad \<longleftrightarrow> nd_inv st" "nd_res None bad \<longleftrightarrow> bad"
  by (simp_all add: nd_res_def)

lemma uderror_res: "nd_inv st \<Longrightarrow> nd_res (en_uderror_ind_nu env q mp e st) (mb_bufsz mp < e_uderr env)"
  using nd_inv_quiet [OF quiet_put [OF quiet_refl]] by (simp add: en_uderror_ind_nu_def)

lemma nd_res_mono: "nd_res r b \<Longrightarrow> (b \<Longrightarrow> b') \<Longrightarrow> nd_res r b'"
  by (auto simp: nd_res_def split: option.splits)

lemma nu_unitdata_inv:
  assumes "nd_inv st" "v_qptr st wq = Some m"
  shows "nd_res (en_unitdata_nu env wq q m mp off st)
    (mb_bufsz mp < e_uderr env \<or> min_state (v_min st ! m) = DL_IDLE \<and> length (mb_data mp) < off + 6)"
proof (cases "min_state (v_min st ! m) \<noteq> DL_IDLE \<or> length (mb_data mp) < off + 6")
  case True
  then show ?thesis using nd_res_mono [OF uderror_res [OF assms(1)]] by (auto simp: en_unitdata_nu_def)
next
  case False
  then have o: "off + 6 \<le> length (mb_data mp)" by auto
  define dst where "dst = take 6 (drop off (mb_data mp))"
  define st1 where "st1 = en_echo_nu env q mp dst st"
  have q1: "quiet st st1" unfolding st1_def by (rule quiet_echo [OF quiet_refl])
  define hdr where "hdr = dst @ v_enaddr st1 @ [word_of_int (drop_bit 8 (min_sap (v_min st1 ! m))), word_of_int (min_sap (v_min st1 ! m))]"
  obtain ok st2 where 2: "allocb_nu env st1 = (ok, st2)" by fastforce
  have q2: "quiet st st2" by (rule quiet_allocD [OF 2 q1])
  have i2: "nd_inv st2" by (rule nd_inv_quiet [OF q2 assms(1)])
  note D = nd_invD [OF i2]
  have h: "length hdr = 14" using o nd_invD(4) [OF nd_inv_quiet [OF q1 assms(1)]] by (simp add: hdr_def dst_def)
  let ?q = "st2\<lparr>v_wq := (v_wq st2)(wq := v_wq st2 wq @ [data_mblk hdr (mb_cont mp)]), v_wqcnt := Suc (v_wqcnt st2)\<rparr>"
  let ?d = "st2\<lparr>v_sc := nu_stat (\<lambda>s. s\<lparr>st_txdead := u32 (st_txdead s + 1)\<rparr>) (v_sc st2)\<rparr>"
  have "v_qptr st2 wq = Some m" using assms(2) quiet_fields(9) [OF q2] by simp
  then have "nd_inv ?q"
    using i2 wq_ok_put [OF D(1) _ D(2), of wq m "data_mblk hdr (mb_cont mp)"] h by (simp add: nd_inv_def data_mblk_def)
  moreover have "nd_inv ?d" using i2 D(7) by (intro nd_inv_sc) (simp_all add: chip_ok_stat)
  moreover have "nd_res (en_uderror_ind_nu env q mp DL_UNDELIVERABLE st2) (mb_bufsz mp < e_uderr env)"
    by (rule uderror_res [OF i2])
  ultimately show ?thesis
    using False unfolding en_unitdata_nu_def Let_def dst_def [symmetric] st1_def [symmetric] hdr_def [symmetric] 2
    by (cases ok) (auto intro: qenable_inv)
qed

text \<open>
  The requests the driver is not safe from: a DL_UNITDATA_REQ on a bound stream whose destination is not in the
  message, and one in a block that does not take the error that may be written over it.
\<close>

definition short_put :: "nenv \<Rightarrow> nat \<Rightarrow> mblk \<Rightarrow> nud \<Rightarrow> bool" where
  "short_put env m mp st \<longleftrightarrow> v_running st \<and> (\<exists>off. mb_prim mp = DL_UNITDATA_REQ off \<and>
     (mb_bufsz mp < e_uderr env \<or> min_state (v_min st ! m) = DL_IDLE \<and> length (mb_data mp) < off + 6))"

lemma nu_proto_inv:
  assumes "nd_inv st" "v_qptr st wq = Some m"
  shows "nd_res (en_proto_nu env wq mp st) (short_put env m mp st)"
proof -
  have m: "m < NU_NMINOR" "min_rdq (v_min st ! m) = Some wq" using assms(2) min_okD(2) [OF nd_invD(1) [OF assms(1)]] by auto
  have e: "nd_inv (en_error_ack_nu env wq mp p d x st)" "nd_inv (en_info_nu env wq m mp st)" for p d x
    using nd_inv_quiet [OF quiet_error [OF quiet_refl] assms(1)] nd_inv_quiet [OF quiet_info [OF quiet_refl] assms(1)] by auto
  show ?thesis
    using assms m e nu_bind_inv [OF assms(1) m] nu_unbind_inv [OF assms(1) m(1)]
      nd_res_mono [OF nu_unitdata_inv [OF assms(1,2)]]
    by (cases "mb_prim mp") (auto simp: en_proto_nu_def short_put_def)
qed

section \<open>ioctls\<close>

lemma snap_pages_bus: "snap_pages c base ps st = (xs, st') \<Longrightarrow> bus_only a st \<Longrightarrow> bus_only a st'"
proof (induction ps arbitrary: st xs)
  case (Cons p ps)
  obtain ys st1 where 1: "rd_regs c [0..<16] (nu_wr NU_CR (base OR push_bit 6 (int p)) st) = (ys, st1)" by fastforce
  have b: "bus_only a st1" using bus_results(3) [OF 1 bus_ops(3) [OF Cons.prems(2)]] .
  obtain zs st2 where 2: "snap_pages c base ps st1 = (zs, st2)" by fastforce
  have "st2 = st'" using Cons.prems(1) 1 2 by simp
  then show ?case using Cons.IH [of st1 zs] 2 b by simp
qed simp

lemma nu_snap_inv:
  assumes "nd_inv st" "nu_snap env st = (b, st')"
  shows "nd_inv st'"
proof -
  obtain cr sc1 where 1: "nu_rd (e_card env) NU_CR (v_sc st) = (cr, sc1)" by fastforce
  let ?base = "(cr AND (CR_STA OR CR_STP)) OR CR_NODMA"
  obtain xs sc2 where 2: "snap_pages (e_card env) ?base [0, 1, 2] sc1 = (xs, sc2)" by fastforce
  obtain r w g where 3: "n_bad (v_sc st) = (r, w, g)" by (cases "n_bad (v_sc st)")
  have "bus_only (v_sc st) (nu_wr NU_CR ?base sc2)"
    using bus_ops(3) [OF snap_pages_bus [OF 2 bus_results(1) [OF 1 bus_only_refl]]] .
  then have "chip_ok (v_up st) (nu_wr NU_CR ?base sc2)" using chip_ok_bus nd_invD(7) [OF assms(1)] by blast
  moreover have "st' = st\<lparr>v_sc := nu_wr NU_CR ?base sc2\<rparr>"
    using assms(2) unfolding nu_snap_def Let_def 1 prod.case 2 3 by simp
  ultimately show ?thesis using nd_inv_sc [OF assms(1)] by simp
qed

lemma raw_ops_bus: "raw_ops c n b st = (b', st') \<Longrightarrow> bus_only a st \<Longrightarrow> bus_only a st'"
proof (induction n arbitrary: b st b')
  case (Suc n)
  obtain v st1 where 1: "(if uint (b ! 0) = 0 then nu_rd c (nat (uint (b ! 1))) st
      else if uint (b ! 0) = 1 then (uint (b ! 2), nu_wr (nat (uint (b ! 1))) (uint (b ! 2)) st)
      else (uint (b ! 2), nu_delay (uint (b ! 2) * 10) st)) = (v, st1)" by fastforce
  have b: "bus_only a st1"
    using 1 Suc.prems(2) bus_ops(3,4) bus_results(1) by (auto split: if_splits)
  obtain r st2 where 2: "raw_ops c n (drop 4 b) st1 = (r, st2)" by fastforce
  have "st2 = st'" using Suc.prems(1) unfolding raw_ops.simps Let_def 1 prod.case 2 by simp
  then show ?case using Suc.IH [of "drop 4 b" st1 r] 2 b by simp
qed simp

lemma nu_raw_inv: "nd_inv st \<Longrightarrow> length b = 2052 \<Longrightarrow> \<exists>r st'. nu_raw env b st = Some (r, st') \<and> nd_inv st'"
proof -
  assume i: "nd_inv st" and l: "length b = 2052"
  obtain b' sc where 1: "raw_ops (e_card env) (nat (s32 (g32 b 0))) (drop 4 b) (v_sc st) = (b', sc)" by fastforce
  have "chip_ok (v_up st) sc" using chip_ok_bus [OF raw_ops_bus [OF 1 bus_only_refl]] nd_invD(7) [OF i] by blast
  then have "nd_inv (st\<lparr>v_sc := sc\<rparr>)" by (rule nd_inv_sc [OF i])
  moreover have "\<exists>r st'. nu_raw env b st = Some (r, st') \<and> (st' = st \<or> st' = st\<lparr>v_sc := sc\<rparr>)"
    using 1 l by (auto simp: nu_raw_def Let_def NU_RAWMAX_def)
  ultimately show ?thesis using i by auto
qed

lemma nu_setmode_inv: "nd_inv st \<Longrightarrow> nu_setmode b st = (r, st') \<Longrightarrow> nd_inv st'"
  by (auto simp: nu_setmode_def Let_def nd_inv_def mode_inv_def split: if_splits)

lemma chip_ok_init:
  assumes "nu_init c sc = (ok, sc')" "length (n_txbuf sc) = 1514" "up \<Longrightarrow> mem_ok sc"
  shows "chip_ok up sc'"
  using nu_init_rel [OF assms(1)] assms(2,3) by (auto simp: chip_ok_def same_mem_def mem_ok_def)

lemma nu_test_inv:
  assumes "nd_inv st" "nu_test env st = (b, st')"
  shows "nd_inv st'"
proof -
  obtain found sc where 1: "nu_probe (e_card env) ((v_sc st)\<lparr>n_running := False\<rparr>) = (found, sc)" by fastforce
  define sc1 where "sc1 = (if found \<and> \<not> v_up st then sc\<lparr>n_ea := n_prom sc, n_rcr := 0x04, n_imr := 0\<rparr> else sc)"
  obtain ok sc2 where 2: "(if found then nu_init (e_card env) sc1 else (False, sc1)) = (ok, sc2)" by fastforce
  let ?st1 = "st\<lparr>v_sc := sc2, v_retry := s32 (v_lbolt st + e_hz env)\<rparr>"
  obtain regs st2 where 3: "nu_snap env ?st1 = (regs, st2)" by fastforce
  obtain r w g where 4: "n_bad sc2 = (r, w, g)" by (cases "n_bad sc2")
  have c: "length (n_txbuf (v_sc st)) = 1514" "v_up st \<Longrightarrow> mem_ok (v_sc st)"
    using nd_invD(7) [OF assms(1)] by (auto simp: chip_ok_def)
  have p: "n_txbuf sc = n_txbuf (v_sc st)" "n_failrun sc = n_failrun (v_sc st)" "n_running sc = False"
    "found \<Longrightarrow> mem_ok sc" "v_up st \<Longrightarrow> mem_ok sc"
    using nu_probe_rel [OF 1] c(2) by (auto simp: su_rel_def same_mem_def mem_ok_def split: if_splits)
  then have "n_txbuf sc1 = n_txbuf (v_sc st)" "n_failrun sc1 = n_failrun (v_sc st)" "n_running sc1 = False" "v_up st \<Longrightarrow> mem_ok sc1"
    by (simp_all add: sc1_def mem_ok_def)
  then have "chip_ok (v_up st) sc2"
    using 2 c chip_ok_init [of "e_card env" sc1 ok sc2 "v_up st"] by (cases found) (auto simp: chip_ok_def)
  then have "nd_inv ?st1" using assms(1) by (simp add: nd_inv_def)
  moreover have "st' = st2" using assms(2) unfolding nu_test_def 1 prod.case Let_def sc1_def [symmetric] 2 3 4 by simp
  ultimately show ?thesis using nu_snap_inv [OF _ 3] by simp
qed

lemma ioc_block_quiet: "ioc_block env n cont st = (r, st') \<Longrightarrow> quiet st st'"
  by (auto simp: ioc_block_def split: list.splits if_splits prod.splits bool.splits intro: quiet_refl dest: quiet_allocD [OF _ quiet_refl])

lemma ioc_block_room: "ioc_block env n cont st = (Some (cap, bs), st') \<Longrightarrow> n \<le> cap"
  by (auto simp: ioc_block_def split: list.splits if_splits prod.splits bool.splits)

lemma ioc_answer_inv: "nd_inv st \<Longrightarrow> ioc_answer env cmd st = (b, st') \<Longrightarrow> nd_inv st'"
  by (auto simp: ioc_answer_def split: if_splits dest: nu_snap_inv nu_test_inv)

lemma put_inv: "nd_inv st \<Longrightarrow> nd_inv (putnext_nu q mp st)"
  by (rule nd_inv_quiet [OF quiet_put [OF quiet_refl]])

lemma en_ioctl_inv:
  assumes "nd_inv st"
  shows "\<exists>st'. en_ioctl_nu env q mp st = Some st' \<and> nd_inv st'"
proof (cases "mb_prim mp")
  case (IOCBLK ioc)
  show ?thesis
  proof (cases "\<not> ioc_whole ioc \<or> ioc_transparent ioc \<or> ioc_size (ioc_cmd ioc) = None")
    case True
    then show ?thesis using put_inv [OF assms] IOCBLK by (auto simp: en_ioctl_nu_def Let_def)
  next
    case False
    then obtain n where n: "ioc_size (ioc_cmd ioc) = Some n" by auto
    have g: "ioc_whole ioc" "\<not> ioc_transparent ioc" using False by auto
    show ?thesis
    proof (cases "ioc_cmd ioc = NUIOC 3 \<or> ioc_cmd ioc = NUIOC 5")
      case True
      have "n = 2052" if "ioc_cmd ioc = NUIOC 5"
        using n that by (simp add: ioc_size_def NUIOC_def ENIOC_GETADDR_NU_def split: if_splits)
      then have r: "\<exists>r st1. (if ioc_cmd ioc = NUIOC 5 then nu_raw env (take n b) st else Some (nu_setmode (take n b) st)) = Some (r, st1) \<and>
          nd_inv st1" if "n \<le> length b" for b
        using that nu_raw_inv [OF assms, of "take n b" env] nu_setmode_inv [OF assms] by (cases "nu_setmode (take n b) st") auto
      show ?thesis
      proof (cases "mb_cont mp")
        case Nil
        then show ?thesis using put_inv [OF assms] True g n IOCBLK by (auto simp: en_ioctl_nu_def Let_def)
      next
        case (Cons b bs)
        show ?thesis
        proof (cases "ioc_count ioc < int n \<or> length b < n")
          case False
          then obtain r st1 where 1: "(if ioc_cmd ioc = NUIOC 5 then nu_raw env (take n b) st else Some (nu_setmode (take n b) st)) = Some (r, st1)"
            "nd_inv st1" using r [of b] by auto
          show ?thesis
            using put_inv [OF 1(2)] 1(1) True False g n IOCBLK Cons
            by (cases r) (auto simp: en_ioctl_nu_def Let_def copy_from_def)
        qed (use put_inv [OF assms] True g n IOCBLK Cons in \<open>auto simp: en_ioctl_nu_def Let_def\<close>)
      qed
    next
      case False
      obtain bs st1 where 1: "ioc_block env n (mb_cont mp) st = (bs, st1)" by fastforce
      have i1: "nd_inv st1" by (rule nd_inv_quiet [OF ioc_block_quiet [OF 1] assms])
      obtain b st2 where 2: "ioc_answer env (ioc_cmd ioc) st1 = (b, st2)" by fastforce
      have "n \<le> cap" if "bs = Some (cap, ds)" for cap ds using 1 ioc_block_room that by blast
      then show ?thesis
        using False put_inv [OF i1] put_inv [OF ioc_answer_inv [OF i1 2]] g n IOCBLK 1 2
        by (cases bs) (auto simp: en_ioctl_nu_def Let_def)
    qed
  qed
qed (use put_inv [OF assms] in \<open>auto simp: en_ioctl_nu_def Let_def\<close>)

section \<open>Put, service, open and close\<close>

lemma drop_frames_inv:
  assumes "nd_inv st" "v_qptr st q = Some m"
  shows "nd_inv (drop_frames q st)"
  using assms wq_ok_drop [OF nd_invD(1) [OF assms(1)] assms(2) nd_invD(2) [OF assms(1)]]
  by (simp add: nd_inv_def drop_frames_def)

lemma nuwput_inv:
  assumes "nd_inv st" "v_qptr st q = Some m"
  shows "nd_res (nuwput env q mp st) ((mb_type mp = M_PROTO \<or> mb_type mp = M_PCPROTO) \<and> short_put env m mp st)"
proof -
  obtain st' where i: "en_ioctl_nu env q mp st = Some st'" "nd_inv st'" using en_ioctl_inv [OF assms(1)] by blast
  show ?thesis
    using nu_proto_inv [OF assms, of env mp] put_inv [OF assms(1)] drop_frames_inv [OF assms] put_inv [OF drop_frames_inv [OF assms]]
      i assms(1)
    by (cases "mb_type mp") (auto simp: nuwput_def split: dlmsg.splits)
qed

section \<open>The service procedure\<close>

text \<open>\<open>nu_input\<close> leaves all but the log and a counter of the chip.\<close>

definition inp_rel :: "nud \<Rightarrow> nud \<Rightarrow> bool" where
  "inp_rel a b \<longleftrightarrow> (\<exists>f. v_sc b = nu_stat f (v_sc a)) \<and> dl_core b = dl_core a \<and> v_lbolt b = v_lbolt a \<and> v_retry b = v_retry a"

lemma inp_rel_refl: "inp_rel a a"
  unfolding inp_rel_def by (auto simp: nu_stat_def intro: exI [of _ "\<lambda>s. s"])

lemma inp_rel_trans: "inp_rel a b \<Longrightarrow> inp_rel b c \<Longrightarrow> inp_rel a c"
proof -
  assume "inp_rel a b" "inp_rel b c"
  then obtain f g where "v_sc b = nu_stat f (v_sc a)" "v_sc c = nu_stat g (v_sc b)" by (auto simp: inp_rel_def)
  then have "v_sc c = nu_stat (g \<circ> f) (v_sc a)" by (simp add: nu_stat_def)
  then show ?thesis using \<open>inp_rel a b\<close> \<open>inp_rel b c\<close> unfolding inp_rel_def by auto
qed

lemma inp_rel_quiet: "quiet a b \<Longrightarrow> inp_rel a b"
  unfolding inp_rel_def quiet_def by (auto simp: nu_stat_def intro: exI [of _ "\<lambda>s. s"])

lemma nu_input_rel: "inp_rel st (nu_input env f st)"
proof (cases "length f < 14")
  case False
  obtain ok st1 where 1: "allocb_nu env st = (ok, st1)" by fastforce
  have q: "quiet st st1" using quiet_allocD [OF 1 quiet_refl] .
  have "inp_rel st1 (st1\<lparr>v_sc := nu_stat (\<lambda>s. s\<lparr>st_nomem := u32 (st_nomem s + 1)\<rparr>) (v_sc st1)\<rparr>)"
    unfolding inp_rel_def dl_core_def by auto
  then show ?thesis
    using False 1 inp_rel_quiet [OF quiet_rproc [OF q]] inp_rel_trans [OF inp_rel_quiet [OF q]]
    by (cases ok) (simp_all add: nu_input_def)
qed (simp add: nu_input_def inp_rel_refl)

lemma nu_inputs_rel: "inp_rel st (fold (nu_input env) fs st)"
proof (induction fs arbitrary: st)
  case (Cons f fs)
  show ?case using inp_rel_trans [OF nu_input_rel [of st env f] Cons.IH] by simp
qed (simp add: inp_rel_refl)

lemma inp_rel_inv: "inp_rel a b \<Longrightarrow> nd_inv a \<Longrightarrow> nd_inv b"
  by (auto simp: inp_rel_def dl_core_def nd_inv_def chip_ok_stat)

lemma poll_nu_inv:
  assumes "nd_inv st" "v_up st"
  shows "\<exists>w st'. poll_nu env st = Some (w, st') \<and> nd_inv st' \<and> v_up st'"
proof -
  let ?sc = "(v_sc st)\<lparr>n_input := []\<rparr>"
  have c: "chip_ok True (v_sc st)" using nd_invD(7) [OF assms(1)] assms(2) by simp
  then have "n_running ?sc \<longrightarrow> nu_inv ?sc" by (auto simp: chip_ok_def nu_inv_def ring_ok_def tx_ok_def)
  from poll_rel [OF this, of "e_card env"] obtain w sc where 1: "nu_poll (e_card env) ?sc = Some (w, sc)"
    "n_running ?sc \<longrightarrow> nu_inv sc" "n_running sc \<longrightarrow> n_running ?sc" "run_rel ?sc sc" by blast
  have "run_rel (v_sc st) ?sc" by (simp add: run_rel_def same_mem_def)
  then have "run_rel (v_sc st) sc" by (rule run_rel_trans [OF _ 1(4)])
  then have "chip_ok True sc" using chip_ok_run [OF _ c] 1(2,3) by blast
  then have i: "nd_inv (st\<lparr>v_sc := sc\<rparr>)" using nd_inv_sc [OF assms(1)] assms(2) by simp
  let ?st' = "fold (nu_input env) (n_input sc) (st\<lparr>v_sc := sc\<rparr>)"
  have "nd_inv ?st'" by (rule inp_rel_inv [OF nu_inputs_rel i])
  moreover have "v_up ?st'" using nu_inputs_rel [of "st\<lparr>v_sc := sc\<rparr>" env "n_input sc"] assms(2) by (simp add: inp_rel_def dl_core_def)
  ultimately show ?thesis using 1(1) by (simp add: poll_nu_def)
qed

lemma nu_copy_length:
  "nu_copy bs len tx = (n, tx') \<Longrightarrow> length tx = 1514 \<Longrightarrow> len \<le> 1514 \<Longrightarrow> length tx' = 1514 \<and> -1 \<le> n \<and> n \<le> 1514"
proof (induction bs len tx rule: nu_copy.induct)
  case (2 b bs len tx)
  then show ?case by (auto simp: NU_MAXFRAME_def put_at_def split: if_splits)
qed auto

text \<open>Sending keeps the invariant of a running chip; what it changes is the chip, the queues and counts.\<close>

lemma nu_xmit_inv:
  assumes "nd_inv st" "v_up st" "n_running (v_sc st)" "n_txcur (v_sc st) < 0"
  shows "\<exists>st'. nu_xmit env mp st = Some st' \<and> nd_inv st' \<and> v_up st' \<and> n_running (v_sc st')"
proof -
  obtain len tx where 1: "nu_copy (mb_data mp # mb_cont mp) 0 (n_txbuf (v_sc st)) = (len, tx)" by fastforce
  have c: "chip_ok True (v_sc st)" using nd_invD(7) [OF assms(1)] assms(2) by simp
  have l: "length tx = 1514" "-1 \<le> len" "len \<le> 1514"
    using nu_copy_length [OF 1] c by (auto simp: chip_ok_def)
  let ?sc = "(v_sc st)\<lparr>n_txbuf := tx\<rparr>"
  have i: "nu_inv ?sc" using c assms(3) l(1) by (auto simp: chip_ok_def nu_inv_def ring_ok_def tx_ok_def)
  have cs: "chip_ok True ?sc" using c l(1) i by (simp add: chip_ok_def mem_ok_def)
  show ?thesis
  proof (cases "len < 14")
    case True
    have "nd_inv (st\<lparr>v_sc := ?sc, v_txdrop := u32 (v_txdrop st + 1)\<rparr>)" using assms(1,2) cs by (simp add: nd_inv_def)
    then show ?thesis using 1 True assms(2,3) by (simp add: nu_xmit_def Let_def)
  next
    case False
    have "nat len \<le> 1514" using l by simp
    then obtain sc where 2: "nu_txstart (e_card env) (nat len) ?sc = Some sc" "nu_inv sc" "same_mem ?sc sc"
      "n_running sc = n_running ?sc" "n_failrun sc = n_failrun ?sc"
      using txstart_rel [OF i, of "nat len" "e_card env"] assms(4) by auto
    have "chip_ok True sc" using cs 2(2-5) by (auto simp: chip_ok_def same_mem_def mem_ok_def nu_inv_def tx_ok_def)
    then have "nd_inv (st\<lparr>v_sc := sc\<rparr>)" using nd_inv_sc [OF assms(1)] assms(2) by simp
    then show ?thesis using 1 2 False assms(2,3) by (simp add: nu_xmit_def Let_def)
  qed
qed

lemma send_loop_inv:
  "nd_inv st \<Longrightarrow> v_up st \<Longrightarrow> n_running (v_sc st) \<Longrightarrow>
    \<exists>s st'. send_loop env t sent st = Some (s, st') \<and> nd_inv st' \<and> v_up st'"
proof (induction t arbitrary: sent st)
  case (Suc t)
  define m where "m = (if Suc (v_nextmin st) \<ge> NU_NMINOR then 0 else Suc (v_nextmin st))"
  let ?st1 = "st\<lparr>v_nextmin := m\<rparr>"
  have m: "m < NU_NMINOR" by (auto simp: m_def NU_NMINOR_def)
  have i1: "nd_inv ?st1" using Suc.prems(1) m by (simp add: nd_inv_def)
  have ih: "\<exists>s st'. send_loop env t sent ?st1 = Some (s, st') \<and> nd_inv st' \<and> v_up st'"
    using Suc.IH [OF i1] Suc.prems(2,3) by simp
  show ?case
  proof (cases "v_wqcnt st = 0 \<or> min_rdq (v_min st ! m) = None \<or> v_wq st (the (min_rdq (v_min st ! m))) = []")
    case True
    show ?thesis
    proof (cases "v_wqcnt st = 0")
      case False
      then show ?thesis
        using True ih by (cases "min_rdq (v_min st ! m)") (auto simp: m_def [symmetric] Let_def)
    qed (use Suc.prems in simp)
  next
    case False
    then obtain q mp rest where q: "min_rdq (v_min st ! m) = Some q" "v_wq st q = mp # rest"
      by (metis list.exhaust option.collapse)
    obtain ok sc where 1: "nu_txroom (e_card env) (v_sc st) = (ok, sc)" by fastforce
    have c: "chip_ok True (v_sc st)" using nd_invD(7) [OF Suc.prems(1)] Suc.prems(2) by simp
    then have "nu_inv (v_sc st)" using Suc.prems(3) by (simp add: chip_ok_def)
    note r = txroom_rel [OF this 1]
    have "chip_ok True sc" using r chip_ok_run [OF _ c] by blast
    then have i2: "nd_inv (?st1\<lparr>v_sc := sc\<rparr>)" using nd_inv_sc [OF i1] Suc.prems(2) by simp
    have qp: "v_qptr st q = Some m" using min_okD(2) [OF nd_invD(1) [OF Suc.prems(1)]] m q(1) by simp
    let ?st2 = "?st1\<lparr>v_sc := sc, v_wq := (v_wq st)(q := rest), v_wqcnt := v_wqcnt st - 1\<rparr>"
    have i3: "nd_inv ?st2"
      using i2 wq_ok_get [OF nd_invD(1) [OF Suc.prems(1)] qp nd_invD(2) [OF Suc.prems(1)] q(2)] by (simp add: nd_inv_def)
    show ?thesis
    proof (cases ok)
      case False
      then show ?thesis using i2 \<open>\<not> (_ \<or> _)\<close> q 1 Suc.prems(2) by (simp add: m_def [symmetric] Let_def)
    next
      case True
      obtain st3 where 3: "nu_xmit env mp ?st2 = Some st3" "nd_inv st3" "v_up st3" "n_running (v_sc st3)"
        using nu_xmit_inv [OF i3, of env mp] True r Suc.prems(2,3) by auto
      show ?thesis
        using Suc.IH [OF 3(2-4), of True] 3(1) True \<open>\<not> (_ \<or> _)\<close> q 1 by (simp add: m_def [symmetric] Let_def)
    qed
  qed
qed simp

lemma nu_send_inv: "nd_inv st \<Longrightarrow> v_up st \<Longrightarrow> \<exists>s st'. nu_send env st = Some (s, st') \<and> nd_inv st' \<and> v_up st'"
  using send_loop_inv by (auto simp: nu_send_def)

lemma srv_loop_inv: "nd_inv st \<Longrightarrow> v_up st \<Longrightarrow> \<exists>w st'. srv_loop env k work st = Some (w, st') \<and> nd_inv st' \<and> v_up st'"
proof (induction k arbitrary: work st)
  case (Suc k)
  obtain w1 st1 where 1: "poll_nu env st = Some (w1, st1)" "nd_inv st1" "v_up st1" using poll_nu_inv Suc.prems by blast
  obtain w2 st2 where 2: "nu_send env st1 = Some (w2, st2)" "nd_inv st2" "v_up st2" using nu_send_inv 1(2,3) by blast
  show ?case using Suc.IH [OF 2(2,3), of True] 1(1) 2 by auto
qed simp

lemma initfail_inv:
  assumes "nd_inv st"
  shows "nd_inv (nu_initfail st) \<and> v_up (nu_initfail st) = v_up st"
proof -
  let ?st1 = "st\<lparr>v_sc := (v_sc st)\<lparr>n_failrun := s32 (n_failrun (v_sc st) + 1)\<rparr>, v_said := s32 (v_said st + 1)\<rparr>"
  have "nu_inv ((v_sc st)\<lparr>n_failrun := x\<rparr>) = nu_inv (v_sc st)" for x
    by (simp add: nu_inv_def ring_ok_def tx_ok_def)
  then have "nd_inv ?st1" using assms by (auto simp: nd_inv_def chip_ok_def mem_ok_def)
  moreover have "quiet ?st1 (nu_initfail st)"
    by (auto simp: nu_initfail_def Let_def intro!: quiet_cmn quiet_refl)
  ultimately show ?thesis using nd_inv_quiet quiet_fields(1) [of ?st1 "nu_initfail st"] by auto
qed

lemma initfail_fields:
  "v_sc (nu_initfail st) = (v_sc st)\<lparr>n_failrun := s32 (n_failrun (v_sc st) + 1)\<rparr>" "v_min (nu_initfail st) = v_min st"
  "v_qptr (nu_initfail st) = v_qptr st" "v_pollq (nu_initfail st) = v_pollq st" "v_wq (nu_initfail st) = v_wq st"
  "v_wqcnt (nu_initfail st) = v_wqcnt st" "v_nextmin (nu_initfail st) = v_nextmin st" "v_enaddr (nu_initfail st) = v_enaddr st"
  "v_up (nu_initfail st) = v_up st" "v_running (nu_initfail st) = v_running st" "v_mode (nu_initfail st) = v_mode st"
  "v_retry (nu_initfail st) = v_retry st" "v_lbolt (nu_initfail st) = v_lbolt st"
  by (cases "v_said st = 0"; simp add: nu_initfail_def Let_def cmn_err_nu_def)+

lemma initok_fields:
  "v_sc (nu_initok st) = (v_sc st)\<lparr>n_failrun := 0\<rparr>" "v_min (nu_initok st) = v_min st"
  "v_qptr (nu_initok st) = v_qptr st" "v_pollq (nu_initok st) = v_pollq st" "v_wq (nu_initok st) = v_wq st"
  "v_wqcnt (nu_initok st) = v_wqcnt st" "v_nextmin (nu_initok st) = v_nextmin st" "v_enaddr (nu_initok st) = v_enaddr st"
  "v_up (nu_initok st) = v_up st" "v_running (nu_initok st) = v_running st" "v_mode (nu_initok st) = v_mode st"
  "v_retry (nu_initok st) = v_retry st" "v_lbolt (nu_initok st) = v_lbolt st"
  by (cases "n_failrun (v_sc st) = 0"; simp add: nu_initok_def Let_def cmn_err_nu_def)+

lemma initok_inv:
  assumes "nd_inv st"
  shows "nd_inv (nu_initok st) \<and> v_up (nu_initok st) = v_up st"
proof -
  define st1 where "st1 = (if n_failrun (v_sc st) \<noteq> 0
                then cmn_err_nu (MsgBack (n_failrun (v_sc st)) (st_recover (n_st (v_sc st))) (st_cfgfix (n_st (v_sc st)))) st else st)"
  have q: "quiet st st1" by (auto simp: st1_def intro!: quiet_cmn quiet_refl)
  have i: "nd_inv st1" by (rule nd_inv_quiet [OF q assms])
  have "nu_inv ((v_sc st1)\<lparr>n_failrun := 0\<rparr>) = nu_inv (v_sc st1)"
    by (simp add: nu_inv_def ring_ok_def tx_ok_def)
  then show ?thesis
    using i quiet_fields(1) [OF q] unfolding nu_initok_def Let_def st1_def [symmetric]
    by (simp add: nd_inv_def chip_ok_def mem_ok_def)
qed

lemma srv_retry_inv:
  assumes "nd_inv st" "v_up st"
  shows "nd_inv (srv_retry env st) \<and> v_up (srv_retry env st)"
proof (cases "n_running (v_sc st) \<or> s32 (v_lbolt st - v_retry st) < 0")
  case True
  then show ?thesis using assms by (simp add: srv_retry_def)
next
  case False
  let ?st1 = "st\<lparr>v_retry := s32 (v_lbolt st + e_hz env)\<rparr>"
  have c: "chip_ok True (v_sc st)" using nd_invD(7) [OF assms(1)] assms(2) by simp
  then have cd: "length (n_txbuf (v_sc st)) = 1514" "mem_ok (v_sc st)" by (auto simp: chip_ok_def)
  define f where "f = n_failrun (v_sc st)"
  obtain ok sc where 1: "(if f \<noteq> 0 \<and> f mod NU_RECOVER_EVERY = 0 then nu_recover (e_card env) (v_sc st)
                 else nu_init (e_card env) (v_sc st)) = (ok, sc)" by fastforce
  have "chip_ok True sc"
    using 1 nu_recover_rel [of "e_card env" "v_sc st" ok sc] chip_ok_init [of "e_card env" "v_sc st" ok sc True] cd
    by (auto simp: chip_ok_def split: if_splits)
  then have i: "nd_inv (?st1\<lparr>v_sc := sc\<rparr>)" using assms by (simp add: nd_inv_def)
  have "srv_retry env st = (case (if f \<noteq> 0 \<and> f mod NU_RECOVER_EVERY = 0 then nu_recover (e_card env) (v_sc st)
      else nu_init (e_card env) (v_sc st)) of (ok, sc) \<Rightarrow>
        if ok then nu_initok (?st1\<lparr>v_sc := sc\<rparr>) else nu_initfail (?st1\<lparr>v_sc := sc\<rparr>))"
    using False by (simp add: srv_retry_def Let_def f_def)
  then have "srv_retry env st = (if ok then nu_initok (?st1\<lparr>v_sc := sc\<rparr>) else nu_initfail (?st1\<lparr>v_sc := sc\<rparr>))"
    unfolding 1 by simp
  then show ?thesis using initok_inv [OF i] initfail_inv [OF i] assms(2) by auto
qed

lemma nursrv_inv:
  assumes "nd_inv st"
  shows "\<exists>st'. nursrv env q st = Some st' \<and> nd_inv st'"
proof (cases "v_up st")
  case True
  obtain w st1 where 1: "srv_loop env 4 False (srv_retry env st) = Some (w, st1)" "nd_inv st1"
    using srv_loop_inv srv_retry_inv [OF assms True] by blast
  have "nd_inv (nu_ifstats st1)" "nd_inv ((nu_ifstats st1)\<lparr>v_enabled := x\<rparr>)" for x
    using 1(2) by (simp_all add: nu_ifstats_def Let_def nd_inv_def)
  then show ?thesis using 1(1) True by (simp add: nursrv_def Let_def)
qed (use assms in \<open>simp add: nursrv_def\<close>)

section \<open>Open, close, and the reachable states\<close>

lemma nu_linit_inv:
  assumes "nd_inv st"
  shows "nd_inv (nu_linit env st) \<and> v_min (nu_linit env st) = v_min st \<and> v_qptr (nu_linit env st) = v_qptr st \<and>
    v_pollq (nu_linit env st) = v_pollq st \<and> v_wq (nu_linit env st) = v_wq st \<and> v_wqcnt (nu_linit env st) = v_wqcnt st"
proof (cases "v_up st")
  case False
  let ?st1 = "st\<lparr>v_perms := nu_calib (e_hz env) (e_lb env (v_calibs st)) (v_perms st), v_calibs := Suc (v_calibs st)\<rparr>"
  have c: "length (n_txbuf (v_sc st)) = 1514" using nd_invD(7) [OF assms] by (auto simp: chip_ok_def)
  obtain found sc where 1: "nu_probe (e_card env) (v_sc ?st1) = (found, sc)" by fastforce
  have p: "n_txbuf sc = n_txbuf (v_sc st)" "n_failrun sc = n_failrun (v_sc st)" "found \<Longrightarrow> mem_ok sc" "found \<Longrightarrow> length (n_prom sc) = 6"
    using nu_probe_rel [OF 1] by (auto simp: su_rel_def split: if_splits)
  show ?thesis
  proof (cases found)
    case False
    have "nd_inv (?st1\<lparr>v_sc := sc\<rparr>)" using assms p c \<open>\<not> v_up st\<close> by (simp add: nd_inv_def chip_ok_def)
    then have "nd_inv (cmn_err_nu MsgNoCard (?st1\<lparr>v_sc := sc\<rparr>))" by (rule nd_inv_quiet [OF quiet_cmn [OF quiet_refl]])
    then show ?thesis using False \<open>\<not> v_up st\<close> 1 by (simp add: nu_linit_def Let_def cmn_err_nu_def)
  next
    case True
    let ?sc = "sc\<lparr>n_ea := n_prom sc, n_rcr := 0x04, n_imr := 0\<rparr>"
    obtain ok sc1 where 2: "nu_init (e_card env) ?sc = (ok, sc1)" by fastforce
    have "mem_ok ?sc" using p(3) True by (simp add: mem_ok_def)
    then have c1: "chip_ok True sc1" using chip_ok_init [OF 2, of True] p c by simp
    define st2 where "st2 = ?st1\<lparr>v_sc := sc1, v_enaddr := n_prom sc\<rparr>"
    define st3 where "st3 = (if ok then nu_initok st2 else nu_initfail st2)"
    define st4 where "st4 = cmn_err_nu (MsgFound (n_rtl (v_sc st3)) (cdiv (n_memhi (v_sc st3) - n_memlo (v_sc st3)) 4)
                        (mac_text (v_enaddr st3)) (v_perms st3)) st3"
    have r: "nu_linit env st = st4\<lparr>v_running := True, v_up := True, v_retry := v_lbolt st4, v_tid := True\<rparr>"
      using \<open>\<not> v_up st\<close> True 1 2
      by (simp add: nu_linit_def Let_def st4_def st3_def st2_def)
    have "nd_inv (st2\<lparr>v_up := True, v_running := True\<rparr>)"
      using assms c1 p(4) True by (simp add: nd_inv_def st2_def)
    then have "nd_inv (nu_initok (st2\<lparr>v_up := True, v_running := True\<rparr>))" "nd_inv (nu_initfail (st2\<lparr>v_up := True, v_running := True\<rparr>))"
      using initok_inv initfail_inv by blast+
    then have "nd_inv ((nu_initok st2)\<lparr>v_up := True, v_running := True\<rparr>)" "nd_inv ((nu_initfail st2)\<lparr>v_up := True, v_running := True\<rparr>)"
      by (simp_all add: nd_inv_def initok_fields initfail_fields)
    then have i3: "nd_inv (st3\<lparr>v_up := True, v_running := True\<rparr>)" by (simp add: st3_def)
    then have "nd_inv (nu_linit env st)" unfolding r st4_def by (simp add: cmn_err_nu_def nd_inv_def)
    moreover have "v_min st3 = v_min st \<and> v_qptr st3 = v_qptr st \<and> v_pollq st3 = v_pollq st \<and> v_wq st3 = v_wq st \<and> v_wqcnt st3 = v_wqcnt st"
      by (simp add: st3_def st2_def initok_fields initfail_fields)
    ultimately show ?thesis unfolding r st4_def by (simp add: cmn_err_nu_def)
  qed
qed (use assms in \<open>simp add: nu_linit_def\<close>)

lemma pad_inv: "nd_inv (st\<lparr>v_pad := b\<rparr>) = nd_inv st"
  by (simp add: nd_inv_def)

lemma nuopen_inv:
  assumes "nd_inv st" "sf = DEVOPEN \<and> v_qptr st q = None \<and> 0 \<le> minor \<and> minor < int NU_NMINOR \<Longrightarrow> min_rdq (v_min st ! nat minor) = None"
  shows "nd_inv (snd (nuopen env q minor sf st))"
proof -
  let ?r = "if sf = CLONEOPEN then
                   (case find_min_nu (\<lambda>m. min_rdq m = None) (v_min st) of
                      None \<Rightarrow> Inl EN_ENOSPC | Some m \<Rightarrow> Inr m)
                 else if minor < 0 \<or> minor \<ge> int NU_NMINOR then Inl EN_EINVAL
                 else Inr (nat minor)"
  show ?thesis
  proof (cases "sf = MODOPEN \<or> v_qptr st q \<noteq> None \<or> (\<exists>e. ?r = Inl e)")
    case True
    then show ?thesis using assms(1) by (auto simp: nuopen_def)
  next
    case False
    then obtain m where m: "?r = Inr m" by (cases ?r) auto
    have free: "m < NU_NMINOR" "min_rdq (v_min st ! m) = None"
      using m False assms(2) find_min_Some [of "\<lambda>m. min_rdq m = None" "v_min st" m]
      by (cases sf; auto split: if_splits option.splits)+
    have q: "v_qptr st q = None" using False by simp
    define st1 where "st1 = nu_linit env (st\<lparr>v_pad := True\<rparr>)"
    have i: "nd_inv st1" "v_min st1 = v_min st" "v_qptr st1 = v_qptr st" "v_pollq st1 = v_pollq st"
      using nu_linit_inv [of "st\<lparr>v_pad := True\<rparr>" env] assms(1) by (simp_all add: st1_def pad_inv)
    have r: "snd (nuopen env q minor sf st) = st1\<lparr>v_qptr := (v_qptr st1)(q := Some m),
             v_min := (v_min st1)[m := \<lparr>min_rdq = Some q, min_state = DL_UNBOUND, min_sap = 0\<rparr>],
             v_pollq := (if v_pollq st1 = None then Some q else v_pollq st1)\<rparr>"
      using False q by (simp add: nuopen_def m st1_def Let_def)
    note D = nd_invD [OF i(1)]
    show ?thesis
      unfolding r using i(1) min_ok_open [OF D(1) free(1), of q] wq_ok_open [OF D(1) free(1) _ _ D(2), of q] free q i(2-4)
      by (simp add: nd_inv_def)
  qed
qed

lemma nuclose_inv:
  assumes "nd_inv st" "v_qptr st q = Some m"
  shows "\<exists>st'. nuclose q st = Some st' \<and> nd_inv st'"
proof -
  let ?ms = "(v_min st)[m := \<lparr>min_rdq = None, min_state = DL_UNBOUND, min_sap = 0\<rparr>]"
  let ?pq = "if v_pollq st = Some q then (case find_min_nu (\<lambda>x. min_rdq x \<noteq> None) ?ms of
      None \<Rightarrow> None | Some i \<Rightarrow> min_rdq (?ms ! i)) else v_pollq st"
  let ?st' = "(drop_frames q st)\<lparr>v_qptr := (v_qptr st)(q := None), v_min := ?ms, v_pollq := ?pq\<rparr>"
  have "nuclose q st = Some ?st'" using assms(2)
    by (auto simp: nuclose_def Let_def drop_frames_def split: option.split)
  moreover have "nd_inv ?st'"
    using assms(1) close_ok [OF nd_invD(1) [OF assms(1)] assms(2) nd_invD(2) [OF assms(1)] refl refl]
    unfolding nd_inv_def drop_frames_def by simp
  ultimately show ?thesis by blast
qed

inductive nu_reach :: "nenv \<Rightarrow> nud \<Rightarrow> bool" for env where
  boot: "nu_reach env (nustart (nu_static\<lparr>v_lbolt := t\<rparr>))"
| step: "nu_reach env st \<Longrightarrow> nu_step env ev st = Some st' \<Longrightarrow> nu_reach env st'"

lemma nu_boot_inv: "nd_inv (nustart (nu_static\<lparr>v_lbolt := t\<rparr>))"
  by (simp add: nustart_def nu_static_def nd_inv_def min_ok_def wq_ok_def nqlen_def mode_inv_def mode_ok_def chip_ok_def sc_zero_def
      NU_NMINOR_def)

definition short_req :: "nenv \<Rightarrow> nuevent \<Rightarrow> nud \<Rightarrow> bool" where
  "short_req env ev st \<longleftrightarrow>
    (case ev of
       NuPut q mp \<Rightarrow> (mb_type mp = M_PROTO \<or> mb_type mp = M_PCPROTO) \<and>
         (case v_qptr st q of None \<Rightarrow> False | Some m \<Rightarrow> short_put env m mp st)
     | _ \<Rightarrow> False)"

lemma nu_step_inv:
  assumes "nd_inv st"
  shows "nd_res (nu_step env ev st) (short_req env ev st)"
proof (cases ev)
  case (NuPut q mp)
  then show ?thesis using assms nuwput_inv [OF assms(1), of q] by (cases "v_qptr st q") (auto simp: nu_step_def short_req_def)
next
  case NuService
  have "\<exists>st'. nursrv env q st = Some st' \<and> nd_inv st'" for q by (rule nursrv_inv [OF assms])
  then have "nd_res (nursrv env q st) b" for q b by (metis nd_res_simps(1))
  then show ?thesis using NuService assms by (auto simp: nu_step_def split: option.split)
next
  case NuTimer
  have "nd_inv (nu_tick st)"
    using qenable_inv [OF assms(1)] assms(1) by (auto simp: nu_tick_def nd_inv_def)
  then show ?thesis using NuTimer assms(1) by (simp add: nu_step_def)
next
  case NuClock
  then show ?thesis using assms(1) by (simp add: nu_step_def nd_inv_def)
next
  case (NuOpen q minor sf)
  then show ?thesis using assms(1) nuopen_inv [OF assms(1), of sf q minor env] by (auto simp: nu_step_def)
next
  case (NuClose q)
  have "nd_res (nuclose q st) b" if "v_qptr st q = Some m" for m b using nuclose_inv [OF assms that] by fastforce
  then show ?thesis using NuClose assms(1) by (cases "v_qptr st q") (auto simp: nu_step_def)
next
  case (NuInfo cmd len)
  have "nd_inv (nu_linit env (st\<lparr>v_pad := True\<rparr>))" using nu_linit_inv assms(1) pad_inv by blast
  then show ?thesis using NuInfo assms(1) by (auto simp: nu_step_def nudriverinfo_def Let_def)
qed

lemma nu_reach_inv: "nu_reach env st \<Longrightarrow> nd_inv st"
proof (induction rule: nu_reach.induct)
  case (boot t)
  show ?case by (rule nu_boot_inv)
next
  case (step st ev st')
  then show ?case using nu_step_inv [of st env ev] by simp
qed

end
