(* ===== verification/NuDrvProps.thy ===== *)
theory NuDrvProps
  imports NuDrv
begin

text \<open>
  What the NetUSBee's driver promises: its invariant over everything the kernel does, frames from
  the ring to the streams and from the streams to the wire, and the handling of an outage.
\<close>

section \<open>A driver to look at\<close>

text \<open>A driver with one stream, 3, bound to the type 0 on minor 0, and the environment of the examples.\<close>

definition demo_nu :: nud where
  "demo_nu = nu_static\<lparr>v_sc := nu0, v_up := True, v_running := True, v_pollq := Some 3,
     v_min := \<lparr>min_rdq = Some 3, min_state = DL_IDLE, min_sap = 0\<rparr> #
       replicate 7 \<lparr>min_rdq = None, min_state = DL_UNBOUND, min_sap = 0\<rparr>,
     v_qptr := (\<lambda>q. if q = 3 then Some 0 else None)\<rparr>"

definition demo_env :: nenv where
  "demo_env = \<lparr>e_card = sheet_chip rtl_sheet (card0 one_frame 0x47), e_alloc = (\<lambda>_. True), e_canput = (\<lambda>_ _. True),
     e_lb = (\<lambda>_ _. 0), e_lim = length, e_hz = 64, e_errack = 16, e_uderr = 20\<rparr>"

lemma less_8: "(i::nat) < 8 \<longleftrightarrow> i = 0 \<or> i = 1 \<or> i = 2 \<or> i = 3 \<or> i = 4 \<or> i = 5 \<or> i = 6 \<or> i = 7"
  by auto

lemma demo_inv: "nd_inv demo_nu"
proof -
  let ?ms = "\<lparr>min_rdq = Some (3::nat), min_state = DL_IDLE, min_sap = 0\<rparr> #
       replicate 7 \<lparr>min_rdq = None, min_state = DL_UNBOUND, min_sap = 0\<rparr>"
  have n: "?ms ! i = (if i = 0 then \<lparr>min_rdq = Some 3, min_state = DL_IDLE, min_sap = 0\<rparr> else
      \<lparr>min_rdq = None, min_state = DL_UNBOUND, min_sap = 0\<rparr>)" if "i < 8" for i
    using that by (cases i) simp_all
  have "min_ok ?ms (\<lambda>q. if q = 3 then Some 0 else None) (Some 3)"
    unfolding min_ok_def NU_NMINOR_def by (auto simp: n split: if_splits)
  moreover have "wq_ok ?ms (\<lambda>q. if q = 3 then Some 0 else None) (\<lambda>_. []) 0"
    by (simp add: wq_ok_def nqlen_def NU_NMINOR_def n)
  moreover have "chip_ok True nu0"
    by (simp add: chip_ok_def mem_ok_def nu_inv_def ring_ok_def tx_ok_def nu0_def)
  ultimately show ?thesis
    by (simp add: demo_nu_def nu_static_def nd_inv_def mode_inv_def mode_ok_def NU_NMINOR_def)
qed

section \<open>Frames up\<close>

definition frame_ind :: "byte list \<Rightarrow> mblk" where
  "frame_ind f = \<lparr>mb_type = M_PROTO, mb_prim = DL_UNITDATA_IND (take 6 f) (take 6 (drop 6 f)), mb_bufsz = 36,
     mb_own = True, mb_data = take 6 f @ take 6 (drop 6 f), mb_cont = [drop 14 f]\<rparr>"

definition route :: "enminor list \<Rightarrow> byte list \<Rightarrow> (nat \<times> mblk) list" where
  "route ms f = (case find_min_nu (\<lambda>m. min_sap m = g16 f 12 \<and> min_state m = DL_IDLE) ms of
     None \<Rightarrow> [] | Some i \<Rightarrow> (case min_rdq (ms ! i) of None \<Rightarrow> [] | Some q \<Rightarrow> [(q, frame_ind f)]))"

lemma nu_input_route:
  assumes "\<forall>k. e_alloc env k" "\<forall>q k. e_canput env q k" "14 \<le> length f"
  shows "v_sent (nu_input env f st) = v_sent st @ route (v_min st) f \<and> v_min (nu_input env f st) = v_min st"
proof -
  have a: "allocb_nu env s = (True, s\<lparr>v_allocs := Suc (v_allocs s)\<rparr>)" for s
    using assms(1) by (simp add: allocb_nu_def)
  show ?thesis
    using assms(2,3)
    by (auto simp: nu_input_def a en_rproc_nu_def en_mkind_nu_def en_send_up_nu_def putnext_nu_def route_def frame_ind_def
        split: option.split)
qed

lemma nu_inputs_route:
  assumes "\<forall>k. e_alloc env k" "\<forall>q k. e_canput env q k"
  shows "\<forall>f\<in>set fs. 14 \<le> length f \<Longrightarrow>
    v_sent (fold (nu_input env) fs st) = v_sent st @ concat (map (route (v_min st)) fs)"
proof (induction fs arbitrary: st)
  case (Cons f fs)
  then show ?case using nu_input_route [OF assms, of f st] by simp
qed simp

text \<open>The messages of one stream.\<close>

lemma route_stream:
  assumes "min_ok ms qp pq" "qp q = Some m"
  shows "map snd (filter (\<lambda>x. fst x = q) (route ms f)) =
    (if min_state (ms ! m) = DL_IDLE \<and> g16 f 12 = min_sap (ms ! m) then [frame_ind f] else [])"
proof -
  let ?P = "\<lambda>x. min_sap x = g16 f 12 \<and> min_state x = DL_IDLE"
  have m: "m < NU_NMINOR" "min_rdq (ms ! m) = Some q" using assms(2) min_okD(2) [OF assms(1)] by auto
  show ?thesis
  proof (cases "find_min_nu ?P ms")
    case None
    then have "\<not> ?P (ms ! m)" using m(1) find_min_None [of ?P ms] by simp
    then show ?thesis using None by (auto simp: route_def)
  next
    case (Some i)
    then have i: "i < NU_NMINOR" "?P (ms ! i)" using find_min_Some [OF Some] by simp_all
    then have "min_rdq (ms ! i) \<noteq> None" using min_okD(4) [OF assms(1), of i] by auto
    then obtain q' where q': "min_rdq (ms ! i) = Some q'" by auto
    have "q' = q \<longleftrightarrow> i = m"
      using q' m i min_okD(2) [OF assms(1), of q i] min_okD(2) [OF assms(1), of q' m] assms(2) by auto
    moreover have "?P (ms ! m) \<Longrightarrow> i = m" using i m(1) min_okD(3) [OF assms(1), of i m] by auto
    ultimately show ?thesis using Some q' i(2) by (auto simp: route_def)
  qed
qed

lemma routes_stream:
  assumes "min_ok ms qp pq" "qp q = Some m"
  shows "map snd (filter (\<lambda>x. fst x = q) (concat (map (route ms) fs))) =
    map frame_ind (filter (\<lambda>f. min_state (ms ! m) = DL_IDLE \<and> g16 f 12 = min_sap (ms ! m)) fs)"
  by (induction fs) (simp_all add: route_stream [OF assms])

lemma ring_frames_ok: "ring_frames m e a b p cur fs \<Longrightarrow> \<forall>f\<in>set fs. frame_ok f"
  by (induction m e a b p cur fs rule: ring_frames.induct) (auto simp: Let_def)

text \<open>
  C26. From the wire to the streams: a poll of a started card that keeps its data sheet hands up, of
  the frames its ring holds (with their CRC in the chip's count, or without it once the driver has found
  its chip to be of that kind), the first eight: each stream gets exactly those of the type it is
  bound to, in order, as DL_UNITDATA_IND with the two addresses and the data after the header. No further frame
  arrives while the poll runs.
\<close>

theorem nu_frames_up:
  assumes "nd_inv st" "v_up st" "n_running (v_sc st)" "card_ok sh s0 (e_card env)" "tame sh s0 None (v_sc st)"
    "s = cst sh s0 None (v_sc st)" "c_cr s AND 0xc3 = CR_STA"
    "n_rxstart (v_sc st) \<le> c_curr s" "c_curr s < n_rxstop (v_sc st)"
    "ring_frames (view sh s) (if n_nocrc (v_sc st) then 0 else 4) (n_rxstart (v_sc st)) (n_rxstop (v_sc st)) (n_rxnext (v_sc st))
       (c_curr s) fs"
    "\<forall>k. e_alloc env k" "\<forall>q k. e_canput env q k" "v_qptr st q = Some m"
  shows "\<exists>w st' ms. poll_nu env st = Some (w, st') \<and> v_sent st' = v_sent st @ ms \<and>
    map snd (filter (\<lambda>x. fst x = q) ms) =
      map frame_ind (filter (\<lambda>f. min_state (v_min st ! m) = DL_IDLE \<and> g16 f 12 = min_sap (v_min st ! m)) (take 8 fs))"
proof -
  note i = assms(1)
  have inv: "nu_inv (v_sc st)" using nd_invD(7) [OF i] assms(2,3) by (simp add: chip_ok_def)
  let ?sc = "(v_sc st)\<lparr>n_input := []\<rparr>"
  have c: "cst sh s0 None ?sc = s" "tame sh s0 None ?sc"
    using cst_other [of ?sc "v_sc st"] tame_other [of ?sc "v_sc st"] assms(5,6) by simp_all
  have "nu_inv ?sc" using inv by (simp add: nu_inv_def ring_ok_def tx_ok_def)
  moreover have "rx_pre sh s0 ?sc fs" using assms(8-10) inv c by (simp add: rx_pre_def nu_inv_def ring_ok_def)
  ultimately obtain w sc where p: "nu_poll (e_card env) ?sc = Some (w, sc)" "n_input sc = take 8 fs"
    using poll_frames [OF assms(4), of ?sc fs] assms(3,7) c by auto
  have "\<forall>f\<in>set (take 8 fs). 14 \<le> length f"
    using ring_frames_ok [OF assms(10)] by (auto simp: frame_ok_def dest!: in_set_takeD)
  then have "v_sent (fold (nu_input env) (take 8 fs) (st\<lparr>v_sc := sc\<rparr>)) = v_sent st @ concat (map (route (v_min st)) (take 8 fs))"
    using nu_inputs_route [OF assms(11,12), of "take 8 fs" "st\<lparr>v_sc := sc\<rparr>"] by simp
  then show ?thesis
    using p routes_stream [OF nd_invD(1) [OF i] assms(13), of "take 8 fs"] by (simp add: poll_nu_def)
qed

theorem nu_frames_up_witness:
  "\<exists>w st'. poll_nu demo_env demo_nu = Some (w, st') \<and> map snd (filter (\<lambda>x. fst x = 3) (v_sent st')) = [frame_ind (replicate 60 0)]"
proof -
  let ?s0 = "card0 one_frame 0x47"
  have d: "v_sc demo_nu = nu0" "v_up demo_nu" "v_qptr demo_nu 3 = Some 0" "v_sent demo_nu = []"
    "v_min demo_nu ! 0 = \<lparr>min_rdq = Some 3, min_state = DL_IDLE, min_sap = 0\<rparr>"
    by (simp_all add: demo_nu_def nu_static_def)
  have e: "e_card demo_env = sheet_chip rtl_sheet ?s0" "\<forall>k. e_alloc demo_env k" "\<forall>q k. e_canput demo_env q k"
    by (simp_all add: demo_env_def)
  have s: "cst rtl_sheet ?s0 None nu0 = ?s0" "tame rtl_sheet ?s0 None nu0"
    by (simp_all add: cst_def mask_def card_st_def nu0_def tame_def rtl_sheet_def)
  have c: "c_cr ?s0 AND 0xc3 = CR_STA" "c_curr ?s0 = 0x47" by (simp_all add: card0_def nu_consts)
  have v: "view rtl_sheet ?s0 x = one_frame (if 0x6000 \<le> x \<and> x < 0x8000 then x - 0x2000 else x)" for x
    by (simp add: view_def rtl_sheet_def card0_def)
  have h: "ring_bytes (view rtl_sheet ?s0) 0x46 0x60 (0x46 * 256) 4 = [1, 0x47, 68, 0]"
    by (simp add: ring_bytes_def one_frame_def v upt_rec)
  have f: "ring_bytes (view rtl_sheet ?s0) 0x46 0x60 (0x46 * 256 + 4) 60 = replicate 60 0"
    by (rule nth_equalityI) (auto simp: ring_bytes_def one_frame_def v)
  have "ring_frames (view rtl_sheet ?s0) 4 0x46 0x60 0x46 0x47 [replicate 60 0]"
    using h f by (simp add: Let_def frame_ok_def)
  moreover have "g16 (replicate 60 (0::byte)) 12 = 0" by (simp add: g16_def g8_def)
  ultimately show ?thesis
    using nu_frames_up [OF demo_inv, of rtl_sheet ?s0 demo_env ?s0 "[replicate 60 0]" 3 0] d e c s
      sheet_chip_ok [of ?s0 rtl_sheet]
    by (simp add: nu0_def curr_byte_def)
qed

section \<open>Outages\<close>

text \<open>Polls and sends leave the count of failed tries and the time of the next one.\<close>

definition same_try :: "nud \<Rightarrow> nud \<Rightarrow> bool" where
  "same_try a b \<longleftrightarrow> n_failrun (v_sc b) = n_failrun (v_sc a) \<and> v_retry b = v_retry a"

lemma same_try_trans: "same_try a b \<Longrightarrow> same_try b c \<Longrightarrow> same_try a c"
  by (simp add: same_try_def)

lemma poll_try: "nd_inv st \<Longrightarrow> v_up st \<Longrightarrow> poll_nu env st = Some (w, st') \<Longrightarrow> same_try st st'"
proof -
  assume a: "nd_inv st" "v_up st" "poll_nu env st = Some (w, st')"
  let ?sc = "(v_sc st)\<lparr>n_input := []\<rparr>"
  have "chip_ok True (v_sc st)" using nd_invD(7) [OF a(1)] a(2) by simp
  then have "n_running ?sc \<longrightarrow> nu_inv ?sc" by (auto simp: chip_ok_def nu_inv_def ring_ok_def tx_ok_def)
  from poll_rel [OF this, of "e_card env"] obtain w' sc where 1: "nu_poll (e_card env) ?sc = Some (w', sc)" "run_rel ?sc sc" by blast
  have "st' = fold (nu_input env) (n_input sc) (st\<lparr>v_sc := sc\<rparr>)" using a(3) 1(1) by (simp add: poll_nu_def)
  then show ?thesis
    using nu_inputs_rel [of "st\<lparr>v_sc := sc\<rparr>" env "n_input sc"] 1(2) by (auto simp: inp_rel_def same_try_def run_rel_def nu_stat_def)
qed

lemma xmit_try:
  assumes "nd_inv st" "v_up st" "n_running (v_sc st)" "n_txcur (v_sc st) < 0" "nu_xmit env mp st = Some st'"
  shows "same_try st st'"
proof -
  obtain len tx where 1: "nu_copy (mb_data mp # mb_cont mp) 0 (n_txbuf (v_sc st)) = (len, tx)" by fastforce
  have c: "chip_ok True (v_sc st)" using nd_invD(7) [OF assms(1)] assms(2) by simp
  have l: "length tx = 1514" "len \<le> 1514" using nu_copy_length [OF 1] c by (auto simp: chip_ok_def)
  let ?sc = "(v_sc st)\<lparr>n_txbuf := tx\<rparr>"
  have i: "nu_inv ?sc" using c assms(3) l(1) by (auto simp: chip_ok_def nu_inv_def ring_ok_def tx_ok_def)
  show ?thesis
  proof (cases "len < 14")
    case True
    then show ?thesis using 1 assms(5) by (auto simp: nu_xmit_def Let_def same_try_def)
  next
    case False
    then have "nat len \<le> 1514" using l by simp
    then obtain sc where "nu_txstart (e_card env) (nat len) ?sc = Some sc" "n_failrun sc = n_failrun ?sc"
      using txstart_rel [OF i, of "nat len" "e_card env"] assms(4) by auto
    then show ?thesis using 1 False assms(5) by (auto simp: nu_xmit_def Let_def same_try_def)
  qed
qed

lemma send_pass:
  assumes "v_wqcnt st \<noteq> 0" "m = (if Suc n \<ge> NU_NMINOR then 0 else Suc n)"
    "case min_rdq (v_min st ! m) of None \<Rightarrow> True | Some q \<Rightarrow> v_wq st q = []"
  shows "send_loop env (Suc t) sent (st\<lparr>v_nextmin := n\<rparr>) = send_loop env t sent (st\<lparr>v_nextmin := m\<rparr>)"
  using assms by (cases "NU_NMINOR \<le> Suc n"; cases "min_rdq (v_min st ! m)") simp_all

lemma send_take:
  assumes "v_wqcnt st \<noteq> 0" "m = (if Suc n \<ge> NU_NMINOR then 0 else Suc n)" "min_rdq (v_min st ! m) = Some q"
    "v_wq st q = mp # rest" "nu_txroom (e_card env) (v_sc st) = (True, sc)"
    "nu_xmit env mp (st\<lparr>v_nextmin := m, v_sc := sc, v_wq := (v_wq st)(q := rest), v_wqcnt := v_wqcnt st - 1\<rparr>) = Some st2"
  shows "send_loop env (Suc t) sent (st\<lparr>v_nextmin := n\<rparr>) = send_loop env t True st2"
  using assms by (cases "NU_NMINOR \<le> Suc n") simp_all

lemma send_stop:
  assumes "v_wqcnt st \<noteq> 0" "m = (if Suc n \<ge> NU_NMINOR then 0 else Suc n)" "min_rdq (v_min st ! m) = Some q"
    "v_wq st q = mp # rest" "nu_txroom (e_card env) (v_sc st) = (False, sc)"
  shows "send_loop env (Suc t) sent (st\<lparr>v_nextmin := n\<rparr>) = Some (sent, st\<lparr>v_nextmin := m, v_sc := sc\<rparr>)"
  using assms by (cases "NU_NMINOR \<le> Suc n") simp_all

lemma send_empty: "v_wqcnt st = 0 \<Longrightarrow> send_loop env t sent st = Some (sent, st)"
  by (cases t) simp_all

lemma send_loop_try:
  "nd_inv st \<Longrightarrow> v_up st \<Longrightarrow> n_running (v_sc st) \<Longrightarrow> send_loop env t sent st = Some (s, st') \<Longrightarrow> same_try st st'"
proof (induction t arbitrary: sent st)
  case (Suc t)
  define m where "m = (if Suc (v_nextmin st) \<ge> NU_NMINOR then 0 else Suc (v_nextmin st))"
  let ?st1 = "st\<lparr>v_nextmin := m\<rparr>"
  have m: "m < NU_NMINOR" by (auto simp: m_def NU_NMINOR_def)
  have i1: "nd_inv ?st1" using Suc.prems(1) m by (simp add: nd_inv_def)
  have s1: "same_try st ?st1" by (simp add: same_try_def)
  have skip: "send_loop env t sent ?st1 = Some (s, st') \<Longrightarrow> same_try st st'"
    using Suc.IH [OF i1, of sent] Suc.prems(2,3) by (simp add: same_try_def)
  show ?case
  proof (cases "v_wqcnt st = 0 \<or> (case min_rdq (v_min st ! m) of None \<Rightarrow> True | Some q \<Rightarrow> v_wq st q = [])")
    case True
    then show ?thesis
      using skip Suc.prems(4) send_pass [of st m "v_nextmin st", OF _ m_def] send_empty [of st env "Suc t" sent] same_try_def
      by (cases "v_wqcnt st = 0") auto
  next
    case False
    then obtain q mp rest where q: "min_rdq (v_min st ! m) = Some q" "v_wq st q = mp # rest" "v_wqcnt st \<noteq> 0"
      by (auto split: option.splits simp: neq_Nil_conv)
    obtain ok sc where 1: "nu_txroom (e_card env) (v_sc st) = (ok, sc)" by fastforce
    have c: "chip_ok True (v_sc st)" using nd_invD(7) [OF Suc.prems(1)] Suc.prems(2) by simp
    then have r: "nu_inv sc" "run_rel (v_sc st) sc" "n_running sc" "ok \<longrightarrow> n_txcur sc < 0"
      using txroom_rel [OF _ 1] Suc.prems(3) by (auto simp: chip_ok_def)
    have "chip_ok True sc" using chip_ok_run [OF r(2) c] r(1) by blast
    then have i2: "nd_inv (?st1\<lparr>v_sc := sc\<rparr>)" using nd_inv_sc [OF i1] Suc.prems(2) by simp
    let ?st2 = "?st1\<lparr>v_sc := sc, v_wq := (v_wq st)(q := rest), v_wqcnt := v_wqcnt st - 1\<rparr>"
    have qp: "v_qptr st q = Some m" using q(1) m min_okD(2) [OF nd_invD(1) [OF Suc.prems(1)]] by blast
    have i3: "nd_inv ?st2"
      using i2 wq_ok_get [OF nd_invD(1) [OF Suc.prems(1)] qp nd_invD(2) [OF Suc.prems(1)] q(2)] by (simp add: nd_inv_def)
    have s2: "same_try st ?st2" using r(2) by (simp add: same_try_def run_rel_def)
    show ?thesis
    proof (cases ok)
      case False
      then show ?thesis
        using r(2) q 1 Suc.prems(4) send_stop [of st m "v_nextmin st", OF _ m_def] by (auto simp: same_try_def run_rel_def)
    next
      case True
      obtain st3 where 3: "nu_xmit env mp ?st2 = Some st3" "nd_inv st3" "v_up st3" "n_running (v_sc st3)"
        using nu_xmit_inv [OF i3, of env mp] True r Suc.prems(2,3) by auto
      have "same_try ?st2 st3" using xmit_try [OF i3 _ _ _ 3(1)] True r Suc.prems(2) by simp
      moreover have "send_loop env t True st3 = Some (s, st')"
        using Suc.prems(4) 3(1) True q 1 send_take [of st m "v_nextmin st" q mp rest env sc st3 t sent, OF _ m_def] by simp
      ultimately show ?thesis using Suc.IH [OF 3(2-4)] same_try_trans s2 by blast
    qed
  qed
qed (simp add: same_try_def)

lemma srv_loop_try:
  "nd_inv st \<Longrightarrow> v_up st \<Longrightarrow> srv_loop env k work st = Some (w, st') \<Longrightarrow> same_try st st'"
proof (induction k arbitrary: work st)
  case (Suc k)
  obtain w1 st1 where 1: "poll_nu env st = Some (w1, st1)" "nd_inv st1" "v_up st1" using poll_nu_inv Suc.prems by blast
  obtain w2 st2 where 2: "nu_send env st1 = Some (w2, st2)" "nd_inv st2" "v_up st2" using nu_send_inv 1(2,3) by blast
  have s1: "same_try st st1" by (rule poll_try [OF Suc.prems(1,2) 1(1)])
  have s2: "same_try st1 st2"
    using 2(1) send_loop_try [OF 1(2,3)] by (auto simp: nu_send_def same_try_def split: if_splits)
  have s: "same_try st st2" by (rule same_try_trans [OF s1 s2])
  show ?case
  proof (cases "w1 \<or> w2")
    case True
    then have "same_try st2 st'" using Suc.IH [OF 2(2,3)] Suc.prems(3) 1(1) 2(1) by auto
    then show ?thesis by (rule same_try_trans [OF s])
  next
    case False
    then show ?thesis using s Suc.prems(3) 1(1) 2(1) by simp
  qed
qed (simp add: same_try_def)

lemma srv_loop_down:
  "\<not> n_running (v_sc st) \<Longrightarrow> srv_loop env (Suc k) work st = Some (False, st\<lparr>v_sc := (v_sc st)\<lparr>n_input := []\<rparr>\<rparr>)"
  by (simp add: poll_nu_def nu_poll_def nu_send_def)

lemma srv_retry_due:
  assumes "\<not> n_running (v_sc st)" "\<not> s32 (v_lbolt st - v_retry st) < 0"
    "(if n_failrun (v_sc st) \<noteq> 0 \<and> n_failrun (v_sc st) mod 3 = 0 then nu_recover (e_card env) (v_sc st)
      else nu_init (e_card env) (v_sc st)) = (ok, sc)"
  shows "srv_retry env st = (if ok then nu_initok (st\<lparr>v_retry := s32 (v_lbolt st + e_hz env), v_sc := sc\<rparr>)
    else nu_initfail (st\<lparr>v_retry := s32 (v_lbolt st + e_hz env), v_sc := sc\<rparr>))"
  using assms by (cases "n_failrun (v_sc st) \<noteq> 0 \<and> n_failrun (v_sc st) mod 3 = 0")
    (auto simp: srv_retry_def Let_def NU_RECOVER_EVERY_def)

text \<open>
  C28. The outage of a chip: while it is down the service procedure leaves it alone until the retry is
  due, then tries once, every third time in a row with the whole set-up from the probe on; the next
  try is a second later, a failure is counted and nothing else happens, a success ends the count.
\<close>

theorem nu_outage:
  assumes "nd_inv st" "v_up st" "\<not> n_running (v_sc st)"
    "r = (if n_failrun (v_sc st) \<noteq> 0 \<and> n_failrun (v_sc st) mod 3 = 0 then nu_recover (e_card env) (v_sc st)
          else nu_init (e_card env) (v_sc st))"
  shows "\<exists>st'. nursrv env q st = Some st' \<and>
    (if s32 (v_lbolt st - v_retry st) < 0
     then n_log (v_sc st') = n_log (v_sc st) \<and> \<not> n_running (v_sc st') \<and>
       n_failrun (v_sc st') = n_failrun (v_sc st) \<and> v_retry st' = v_retry st
     else v_retry st' = s32 (v_lbolt st + e_hz env) \<and> n_failrun (v_sc st') = (if fst r then 0 else s32 (n_failrun (v_sc st) + 1)) \<and>
       (\<not> fst r \<longrightarrow> n_log (v_sc st') = n_log (snd r) \<and> \<not> n_running (v_sc st')))"
proof -
  have up: "nd_inv (srv_retry env st)" "v_up (srv_retry env st)" using srv_retry_inv [OF assms(1,2)] by blast+
  obtain w st1 where 1: "srv_loop env 4 False (srv_retry env st) = Some (w, st1)" using srv_loop_inv [OF up] by blast
  have t: "same_try (srv_retry env st) st1" by (rule srv_loop_try [OF up 1])
  define st' where "st' = (if w then (nu_ifstats st1)\<lparr>v_enabled := v_enabled (nu_ifstats st1) @ [q]\<rparr> else nu_ifstats st1)"
  have s: "nursrv env q st = Some st'" using assms(2) 1 by (simp add: nursrv_def Let_def st'_def)
  have f: "v_sc st' = v_sc st1" "v_retry st' = v_retry st1" by (simp_all add: st'_def nu_ifstats_def Let_def)
  have down: "v_sc st1 = (v_sc (srv_retry env st))\<lparr>n_input := []\<rparr>" if "\<not> n_running (v_sc (srv_retry env st))"
  proof -
    have "srv_loop env 4 False (srv_retry env st) =
        Some (False, (srv_retry env st)\<lparr>v_sc := (v_sc (srv_retry env st))\<lparr>n_input := []\<rparr>\<rparr>)"
      using srv_loop_down [OF that, of env 3 False] by simp
    then have "st1 = (srv_retry env st)\<lparr>v_sc := (v_sc (srv_retry env st))\<lparr>n_input := []\<rparr>\<rparr>" using 1 by simp
    then show ?thesis by simp
  qed
  show ?thesis
  proof (cases "s32 (v_lbolt st - v_retry st) < 0")
    case True
    then have "srv_retry env st = st" by (simp add: srv_retry_def)
    then show ?thesis using True s f down assms(3) t by (simp add: same_try_def)
  next
    case False
    obtain ok sc where r: "r = (ok, sc)" by (cases r)
    let ?st1 = "st\<lparr>v_retry := s32 (v_lbolt st + e_hz env)\<rparr>"
    have rt: "srv_retry env st = (if ok then nu_initok (?st1\<lparr>v_sc := sc\<rparr>) else nu_initfail (?st1\<lparr>v_sc := sc\<rparr>))"
      using False assms(3,4) r by (intro srv_retry_due) simp_all
    have "mem_ok (v_sc st)" using nd_invD(7) [OF assms(1)] assms(2) by (simp add: chip_ok_def)
    then have k: "n_running sc = ok" "n_failrun sc = n_failrun (v_sc st)"
      using r assms(4) nu_recover_rel [of "e_card env" "v_sc st" ok sc] nu_init_rel [of "e_card env" "v_sc st" ok sc]
      by (auto split: if_splits)
    show ?thesis
      using False s f t down k unfolding rt r
      by (cases ok) (auto simp: same_try_def initok_fields initfail_fields)
  qed
qed

definition down_nu :: nud where
  "down_nu = demo_nu\<lparr>v_sc := nu0\<lparr>n_running := False, n_failrun := 2\<rparr>, v_retry := 5\<rparr>"

theorem nu_outage_witness:
  "\<exists>st'. nursrv demo_env 3 down_nu = Some st' \<and> n_failrun (v_sc st') = 2 \<and> v_retry st' = 5"
proof -
  have "chip_ok True (nu0\<lparr>n_running := False, n_failrun := 2\<rparr>)"
    by (simp add: chip_ok_def mem_ok_def nu0_def)
  then have "nd_inv down_nu" using demo_inv by (simp add: down_nu_def nd_inv_def demo_nu_def)
  moreover have "v_up down_nu" "\<not> n_running (v_sc down_nu)" "n_failrun (v_sc down_nu) = 2" "v_retry down_nu = 5" "v_lbolt down_nu = 0"
    by (simp_all add: down_nu_def demo_nu_def nu_static_def)
  moreover have "s32 (0 - 5) < 0" by (simp add: s32_def)
  ultimately show ?thesis using nu_outage [of down_nu, OF _ _ _ refl, of demo_env 3] by auto
qed

section \<open>Frames down\<close>

lemma nu_copy_all:
  "len + sum_list (map length bs) \<le> 1514 \<Longrightarrow> length tx = 1514 \<Longrightarrow>
    nu_copy bs len tx = (int (len + sum_list (map length bs)), take len tx @ concat bs @ drop (len + sum_list (map length bs)) tx)"
proof (induction bs len tx rule: nu_copy.induct)
  case (2 b bs len tx)
  show ?case
  proof (cases "b = []")
    case False
    have "nu_copy bs (len + length b) (put_at tx len b) = (int (len + length b + sum_list (map length bs)),
        take (len + length b) (put_at tx len b) @ concat bs @ drop (len + length b + sum_list (map length bs)) (put_at tx len b))"
      using 2 False by (auto simp: NU_MAXFRAME_def put_at_def)
    then show ?thesis
      using False 2(3,4) by (simp add: NU_MAXFRAME_def put_at_def ac_simps)
  qed (use 2 in simp)
qed simp

lemma send_skip:
  assumes "\<forall>i < NU_NMINOR. i \<noteq> m \<longrightarrow> (case min_rdq (v_min st ! i) of None \<Rightarrow> True | Some q \<Rightarrow> v_wq st q = [])" "v_wqcnt st \<noteq> 0"
  shows "(n + Suc d) mod NU_NMINOR = m \<Longrightarrow> d < NU_NMINOR \<Longrightarrow> n < NU_NMINOR \<Longrightarrow> d < t \<Longrightarrow>
    \<exists>x. send_loop env t sent (st\<lparr>v_nextmin := n\<rparr>) = send_loop env (t - d) sent (st\<lparr>v_nextmin := x\<rparr>) \<and>
      (if Suc x \<ge> NU_NMINOR then 0 else Suc x) = m \<and> x < NU_NMINOR"
proof (induction d arbitrary: n t)
  case 0
  then have "(if Suc n \<ge> NU_NMINOR then 0 else Suc n) = m" by (cases "n = 7") (auto simp: NU_NMINOR_def)
  then show ?case using 0 by (intro exI [of _ n]) simp
next
  case (Suc d)
  define n1 where "n1 = (if Suc n \<ge> NU_NMINOR then 0 else Suc n)"
  have n1: "n1 = Suc n mod NU_NMINOR" "n1 < NU_NMINOR" using Suc.prems(3) by (cases "n = 7"; auto simp: n1_def NU_NMINOR_def)+
  have e: "(n1 + Suc d) mod NU_NMINOR = m"
    using Suc.prems(1) mod_add_left_eq [of "Suc n" NU_NMINOR "Suc d"] unfolding n1(1) by simp
  have "n1 \<noteq> m"
  proof
    assume "n1 = m"
    then have "(n1 + Suc d) mod NU_NMINOR = n1 mod NU_NMINOR" using e n1(2) by simp
    then have "Suc d mod NU_NMINOR = 0" using n1(2) Suc.prems(2) by (auto simp: NU_NMINOR_def mod_if split: if_splits)
    then show False using Suc.prems(2) by simp
  qed
  obtain t' where t: "t = Suc t'" using Suc.prems(4) by (cases t) auto
  have "send_loop env t sent (st\<lparr>v_nextmin := n\<rparr>) = send_loop env t' sent (st\<lparr>v_nextmin := n1\<rparr>)"
    unfolding t using assms n1(2) \<open>n1 \<noteq> m\<close> by (intro send_pass n1_def) simp_all
  moreover obtain x where "send_loop env t' sent (st\<lparr>v_nextmin := n1\<rparr>) = send_loop env (t' - d) sent (st\<lparr>v_nextmin := x\<rparr>)"
    "(if Suc x \<ge> NU_NMINOR then 0 else Suc x) = m" "x < NU_NMINOR"
    using Suc.IH [OF e _ n1(2), of t'] Suc.prems(2,4) t by auto
  ultimately show ?case using t by (intro exI [of _ x]) simp
qed

text \<open>
  The card is ready to transmit: it is not in loopback, its transmit pages name 1514 cells, and none of the cells \<open>R\<close> that
  arriving frames may change, the ring's, is among them.
\<close>

definition tx_clear :: "sheet \<Rightarrow> cardst \<Rightarrow> int set option \<Rightarrow> nust \<Rightarrow> bool" where
  "tx_clear sh s0 R sc \<longleftrightarrow> tame sh s0 R sc \<and> c_tcr (cst sh s0 R sc) AND 0x06 = 0 \<and> seen sh R (n_memlo sc * 256) 1514 \<and>
     inj_on (sh_dec sh) {n_memlo sc * 256 ..< n_memlo sc * 256 + 1514}"

text \<open>The one frame queued, on an idle transmitter of a card that keeps its data sheet.\<close>

lemma send_one:
  assumes "nd_inv st" "v_up st" "n_running (v_sc st)" "n_txcur (v_sc st) < 0" "card_ok sh s0 (e_card env)"
    "tx_clear sh s0 R (v_sc st)" "v_qptr st q = Some m" "v_wq st q = [mp]" "\<forall>q'. q' \<noteq> q \<longrightarrow> v_wq st q' = []"
    "length (mb_data mp) + sum_list (map length (mb_cont mp)) \<le> 1514"
  shows "\<exists>st'. nu_send env st = Some (True, st') \<and> v_wqcnt st' = 0 \<and> v_wq st' q = [] \<and>
    c_sent (cst sh s0 R (v_sc st')) = c_sent (cst sh s0 R (v_sc st)) @
      [mb_data mp @ concat (mb_cont mp) @ replicate (60 - length (mb_data mp @ concat (mb_cont mp))) 0]"
proof -
  note D = nd_invD [OF assms(1)]
  have m: "m < NU_NMINOR" "min_rdq (v_min st ! m) = Some q" using assms(7) min_okD(2) [OF D(1)] by auto
  have others: "case min_rdq (v_min st ! i) of None \<Rightarrow> True | Some q' \<Rightarrow> v_wq st q' = []" if "i < NU_NMINOR" "i \<noteq> m" for i
    using that min_okD(2) [OF D(1), of q i] assms(7,9) by (auto split: option.split)
  have "(\<Sum>i < NU_NMINOR. nqlen (v_min st) (v_wq st) i) = (\<Sum>i < NU_NMINOR. if i = m then 1 else 0)"
    using others m(2) assms(8) by (intro sum.cong refl) (force simp: nqlen_def split: option.splits)
  then have cnt: "v_wqcnt st = 1" using D(2) m(1) by (simp add: wq_ok_def sum.delta)
  define d where "d = (m + NU_NMINOR - Suc (v_nextmin st)) mod NU_NMINOR"
  have d: "d < NU_NMINOR" "(v_nextmin st + Suc d) mod NU_NMINOR = m"
    using D(3) m(1) mod_add_right_eq [of "Suc (v_nextmin st)" "m + NU_NMINOR - Suc (v_nextmin st)" NU_NMINOR]
    by (simp_all add: d_def NU_NMINOR_def)
  obtain x where x: "send_loop env (2 * NU_NMINOR) False (st\<lparr>v_nextmin := v_nextmin st\<rparr>) =
      send_loop env (2 * NU_NMINOR - d) False (st\<lparr>v_nextmin := x\<rparr>)" "(if Suc x \<ge> NU_NMINOR then 0 else Suc x) = m"
    using send_skip [of m st "v_nextmin st" d "2 * NU_NMINOR" env False] others cnt d D(3) by auto
  obtain t where t: "2 * NU_NMINOR - d = Suc (Suc t)" using d(1) by (cases "2 * NU_NMINOR - d"; cases "2 * NU_NMINOR - d - 1") auto
  have c: "chip_ok True (v_sc st)" using D(7) assms(2) by simp
  then have inv: "nu_inv (v_sc st)" "mem_ok (v_sc st)" "length (n_txbuf (v_sc st)) = 1514" using assms(3) by (auto simp: chip_ok_def)
  then have room: "nu_txroom (e_card env) (v_sc st) = (True, v_sc st)"
    using assms(4) by (auto simp: nu_txroom_def nu_inv_def tx_ok_def split: if_splits)
  define bs where "bs = mb_data mp # mb_cont mp"
  define n where "n = sum_list (map length bs)"
  have n: "n \<le> 1514" "length (concat bs) = n" "14 \<le> n"
    using assms(10) D(2) assms(8) by (auto simp: n_def bs_def length_concat wq_ok_def) (metis list.set_intros(1) trans_le_add1)
  let ?tx = "concat bs @ drop n (n_txbuf (v_sc st))"
  have cp: "nu_copy bs 0 (n_txbuf (v_sc st)) = (int n, ?tx)"
    using nu_copy_all [of 0 bs "n_txbuf (v_sc st)"] n(1) inv(3) by (simp add: n_def [symmetric])
  let ?sc = "(v_sc st)\<lparr>n_txbuf := ?tx\<rparr>"
  have i: "nu_inv ?sc" using inv n(1,2) by (auto simp: nu_inv_def ring_ok_def tx_ok_def)
  have l: "n_log ?sc = n_log (v_sc st)" by simp
  have at: "card_at sh s0 R ?sc (cst sh s0 R (v_sc st))"
    using tame_other [OF l] cst_other [OF l] assms(6) by (simp add: card_at_def tx_clear_def)
  have "c_tcr (cst sh s0 R (v_sc st)) AND 6 = 0" "seen sh R (n_memlo ?sc * 256) 1514"
    "inj_on (sh_dec sh) {n_memlo ?sc * 256..<n_memlo ?sc * 256 + 1514}"
    using assms(6) by (simp_all add: tx_clear_def)
  note x1 = txstart_sends [OF assms(5) at i _ n(1) _ _ this]
  have "n_txcur ?sc < 0" "0 \<le> n_memlo ?sc" "n_memlo ?sc < 250" using assms(4) inv(2) by (auto simp: mem_ok_def)
  from x1 [OF this] obtain sc where sc: "nu_txstart (e_card env) n ?sc = Some sc"
    "c_sent (cst sh s0 R sc) = c_sent (cst sh s0 R (v_sc st)) @ [take n ?tx @ replicate (60 - n) 0]" by auto
  let ?st2 = "st\<lparr>v_nextmin := m, v_sc := v_sc st, v_wq := (v_wq st)(q := []), v_wqcnt := 0\<rparr>"
  have "nu_xmit env mp ?st2 = Some (?st2\<lparr>v_sc := sc\<rparr>)"
    using cp sc(1) n(3) by (simp add: nu_xmit_def bs_def [symmetric])
  then have "send_loop env (Suc (Suc t)) False (st\<lparr>v_nextmin := x\<rparr>) = Some (True, ?st2\<lparr>v_sc := sc\<rparr>)"
    using send_take [of st, OF _ x(2) [symmetric] m(2) assms(8) room, of "?st2\<lparr>v_sc := sc\<rparr>" "Suc t" False] cnt
    by (simp add: send_empty)
  moreover have "take n ?tx = concat bs" using n(2) by simp
  ultimately show ?thesis
    using x(1) t sc(2) assms(3) n(2) by (simp add: nu_send_def bs_def)
qed

lemma wqcnt_zero: "nd_inv st \<Longrightarrow> v_wqcnt st = 0 \<Longrightarrow> v_wq st q = []"
proof (cases "v_qptr st q")
  case (Some m)
  assume a: "nd_inv st" "v_wqcnt st = 0"
  note D = nd_invD [OF a(1)]
  have m: "m < NU_NMINOR" "min_rdq (v_min st ! m) = Some q" using Some min_okD(2) [OF D(1)] by auto
  have "(\<Sum>i < NU_NMINOR. nqlen (v_min st) (v_wq st) i) = 0" using D(2) a(2) by (simp add: wq_ok_def)
  then have "nqlen (v_min st) (v_wq st) m = 0" using m(1) by simp
  then show ?thesis using m(2) by (simp add: nqlen_def)
qed (auto simp: nd_inv_def wq_ok_def)

text \<open>
  C27. From the streams to the wire: a DL_UNITDATA_REQ on a bound stream of an idle driver queues
  one frame, and the next sends put exactly it on the wire of a card that keeps its data sheet, is not in
  loopback, and whose transmit pages are no other addresses of its ring, whatever arrives meanwhile: the
  destination, the card's address, the bound type, the data, with zeros up to 60 bytes.
\<close>

theorem nu_frame_sent:
  assumes "nd_inv st" "v_up st" "n_running (v_sc st)" "n_txcur (v_sc st) < 0" "v_wqcnt st = 0"
    "card_ok sh s0 (e_card env)" "tx_clear sh s0 (Some X) (v_sc st)" "\<forall>k. e_alloc env k" "v_qptr st q = Some m"
    "min_state (v_min st ! m) = DL_IDLE"
    "mb_type mp = M_PROTO" "mb_prim mp = DL_UNITDATA_REQ off" "off + 6 \<le> length (mb_data mp)"
    "length (concat (mb_cont mp)) \<le> 1500"
    "fr = take 6 (drop off (mb_data mp)) @ v_enaddr st @
       [word_of_int (min_sap (v_min st ! m) div 256), word_of_int (min_sap (v_min st ! m))] @ concat (mb_cont mp)"
  shows "\<exists>st1 st2. nuwput env q mp st = Some st1 \<and> v_sc st1 = v_sc st \<and> nu_send env st1 = Some (True, st2) \<and>
    v_wqcnt st2 = 0 \<and>
    c_sent (card_st sh s0 (n_log (v_sc st2))) = c_sent (card_st sh s0 (n_log (v_sc st))) @ [fr @ replicate (60 - length fr) 0]"
proof -
  note D = nd_invD [OF assms(1)]
  have m: "m < NU_NMINOR" "min_rdq (v_min st ! m) = Some q" using assms(9) min_okD(2) [OF D(1)] by auto
  define dst where "dst = take 6 (drop off (mb_data mp))"
  define e where "e = snd (allocb_nu env (en_echo_nu env q mp dst st))"
  have q1: "quiet st (en_echo_nu env q mp dst st)" by (rule quiet_echo [OF quiet_refl])
  have qe: "quiet st e" unfolding e_def by (rule quiet_alloc [OF q1])
  note E = quiet_fields [OF qe]
  define hdr where "hdr = dst @ v_enaddr st @ [word_of_int (min_sap (v_min st ! m) div 256), word_of_int (min_sap (v_min st ! m))]"
  have h: "length hdr = 14" using D(4) assms(13) by (simp add: hdr_def dst_def)
  define st1 where "st1 = qenable_poll (e\<lparr>v_wq := (v_wq e)(q := v_wq e q @ [data_mblk hdr (mb_cont mp)]), v_wqcnt := Suc (v_wqcnt e)\<rparr>)"
  have "allocb_nu env (en_echo_nu env q mp dst st) = (True, e)" using assms(8) by (simp add: e_def allocb_nu_def)
  then have w: "nuwput env q mp st = Some st1"
    using assms(3,9-13) m(2) D(5) assms(2) E(11) quiet_fields(3,5) [OF q1]
    by (simp add: nuwput_def en_proto_nu_def en_unitdata_nu_def Let_def dst_def [symmetric] hdr_def [symmetric] st1_def drop_bit_eq_div)
  have q2: "quiet (e\<lparr>v_wq := (v_wq e)(q := v_wq e q @ [data_mblk hdr (mb_cont mp)]), v_wqcnt := Suc (v_wqcnt e)\<rparr>) st1"
    unfolding st1_def by (rule quiet_qenable [OF quiet_refl])
  have f: "v_sc st1 = v_sc st" "v_up st1" "v_qptr st1 q = Some m" "v_wq st1 q = [data_mblk hdr (mb_cont mp)]"
    "\<forall>q'. q' \<noteq> q \<longrightarrow> v_wq st1 q' = []"
    using quiet_fields [OF q2] E assms(2,9) wqcnt_zero [OF assms(1,5)] by simp_all
  have i: "nd_inv st1" using nuwput_inv [OF assms(1,9), of env mp] w by simp
  have s: "length (mb_data (data_mblk hdr (mb_cont mp))) + sum_list (map length (mb_cont (data_mblk hdr (mb_cont mp)))) \<le> 1514"
    using h assms(14) by (simp add: data_mblk_def length_concat)
  have "fr = hdr @ concat (mb_cont mp)" by (simp add: assms(15) hdr_def dst_def)
  then show ?thesis
    using send_one [OF i f(2) _ _ assms(6) _ f(3,4,5) s, of "Some X"] assms(3,4,7) f(1) w by (auto simp: data_mblk_def cst_def)
qed

theorem nu_frame_sent_witness:
  "\<exists>st1 st2. nuwput demo_env 3 \<lparr>mb_type = M_PROTO, mb_prim = DL_UNITDATA_REQ 0, mb_bufsz = 36, mb_own = True,
       mb_data = [1, 2, 3, 4, 5, 6], mb_cont = [[7, 8]]\<rparr> demo_nu = Some st1 \<and> nu_send demo_env st1 = Some (True, st2) \<and>
     c_sent (card_st rtl_sheet (card0 one_frame 0x47) (n_log (v_sc st2))) = [[1, 2, 3, 4, 5, 6] @ replicate 8 0 @ [7, 8] @ replicate 44 0]"
proof -
  let ?mp = "\<lparr>mb_type = M_PROTO, mb_prim = DL_UNITDATA_REQ 0, mb_bufsz = 36, mb_own = True,
       mb_data = [1, 2, 3, 4, 5, 6], mb_cont = [[7, 8]]\<rparr>"
  have d: "v_sc demo_nu = nu0" "v_up demo_nu" "v_qptr demo_nu 3 = Some 0" "v_wqcnt demo_nu = 0" "v_enaddr demo_nu = replicate 6 0"
    "v_min demo_nu ! 0 = \<lparr>min_rdq = Some 3, min_state = DL_IDLE, min_sap = 0\<rparr>"
    by (simp_all add: demo_nu_def nu_static_def)
  let ?s0 = "card0 one_frame 0x47" and ?X = "{0x4600 ..< 0x6000} :: int set"
  have e: "e_card demo_env = sheet_chip rtl_sheet ?s0" "\<forall>k. e_alloc demo_env k" by (simp_all add: demo_env_def)
  have n: "n_running nu0" "n_txcur nu0 < 0" "c_sent (card_st rtl_sheet ?s0 (n_log nu0)) = []" "n_log nu0 = []" "n_memlo nu0 = 0x40"
    by (simp_all add: nu0_def card_st_def card0_def)
  have "ring_cells rtl_sheet ?s0 \<subseteq> ?X" by (auto simp: ring_cells_def card0_def rtl_sheet_def)
  then have "tx_clear rtl_sheet ?s0 (Some ?X) nu0"
    using n by (simp add: tx_clear_def tame_def cst_def card_st_Nil seen_def inj_on_def rtl_sheet_def card0_def)
  then show ?thesis
    using nu_frame_sent [OF demo_inv, of rtl_sheet ?s0 demo_env ?X 3 0 ?mp 0, OF _ _ _ _ _ _ _ _ _ _ _ _ _ refl] d e n
      sheet_chip_ok [of ?s0 rtl_sheet]
    by (auto simp: numeral_eq_Suc curr_byte_def card0_def)
qed

section \<open>The driver under the kernel's events\<close>



text \<open>
  C29. What the driver's state is made of, after any events: eight minors, a six byte address, a
  transmit buffer of 1514 bytes, and a way of reaching the card that is one of the two address
  pairs with a delay of at most 1000 turns of the wait loop and a pad mode the bus code knows.
\<close>

theorem nu_state_type:
  assumes "nu_reach env st"
  shows "length (v_min st) = 8 \<and> v_nextmin st < 8 \<and> length (v_enaddr st) = 6 \<and> length (n_txbuf (v_sc st)) = 1514 \<and>
    (m_rbase (v_mode st) = 0xfffa0000 \<and> m_wbase (v_mode st) = 0xfffb0000 \<or>
     m_rbase (v_mode st) = 0x00fa0000 \<and> m_wbase (v_mode st) = 0x00fb0000 \<and> m_nocache (v_mode st)) \<and>
    0 \<le> m_dly (v_mode st) \<and> m_dly (v_mode st) \<le> 1000 \<and> 0 \<le> m_pad (v_mode st) \<and> m_pad (v_mode st) \<le> 15"
proof -
  note D = nd_invD [OF nu_reach_inv [OF assms]]
  show ?thesis
    using D(3,4,6,7) min_okD(1) [OF D(1)] by (auto simp: NU_NMINOR_def mode_inv_def mode_ok_def chip_ok_def)
qed

theorem nu_state_type_witness: "length (v_min (nustart (nu_static\<lparr>v_lbolt := 7\<rparr>))) = 8"
  using nu_state_type [OF nu_reach.boot [of demo_env 7]] by blast

end
