(* ===== verification/Midi.thy ===== *)
theory Midi
  imports Prelude
begin

unbundle bit_operations_syntax

text \<open>
  The MIDI driver \<open>driver-midi/midi.c\<close>: the ring, the transmit interrupt, the timed stream, and the
  calls of one process that has the device open. The ring's indices are the 13-bit words that
  \<open>& (RING - 1)\<close> keeps them to. The port's status and the keyboard's are functions of the
  environment, what goes to the port is a log of bytes with the tick they were sent at. A sleeping
  call is a process state that \<open>wakeup\<close> makes runnable again.
\<close>

section \<open>State and environment\<close>

definition RING :: int where "RING = 8192"
definition BOUNCE :: nat where "BOUNCE = 512"
definition WAIT :: byte where "WAIT = 0xf9"
definition SNAP_TICKS :: int where "SNAP_TICKS = 4"
definition CR_IDLE :: byte where "CR_IDLE = 0x15"
definition CR_SEND :: byte where "CR_SEND = 0x35"
definition S_TDRE :: byte where "S_TDRE = 0x02"
definition S_IRQ :: byte where "S_IRQ = 0x80"

lemmas midi_consts = RING_def BOUNCE_def WAIT_def SNAP_TICKS_def CR_IDLE_def CR_SEND_def S_TDRE_def S_IRQ_def

record midi_stats =
  mst_bytes :: int
  mst_intrs :: int
  mst_waits :: int
  mst_late :: int
  mst_snaps :: int
  mst_kicks :: int
  mst_queued :: int
  mst_hz :: int

datatype merr = M_ENXIO | M_EBUSY | M_EINTR | M_EFAULT | M_EINVAL

datatype mret = MOk | MVal int | MStats midi_stats | MErr merr

text \<open>What the process that opened the device is in; the number: the sleeps so far.\<close>

datatype mproc = Idle | Writing "byte list" | Closing nat | Draining nat

text \<open>
  \<open>mi_ctrl\<close>: the port's control register; \<open>mi_now\<close>: \<open>lbolt\<close>; \<open>mi_wake_at\<close>: the tick the callout of
  \<open>midi_wake\<close> is due at; \<open>mi_ticks\<close>: the callouts of \<open>midi_tick\<close> pending. Logs since the device was
  opened or flushed: \<open>mi_in\<close> the bytes put into the ring, \<open>mi_out\<close> those sent, each with the tick and with
  \<open>due\<close> then, \<open>mi_snapped\<close> whether the timeline was restarted.
\<close>

record midist =
  mi_open :: bool
  mi_timed :: bool
  mi_hooked :: bool
  mi_ring :: "13 word \<Rightarrow> byte"
  mi_head :: "13 word"
  mi_tail :: "13 word"
  mi_sending :: bool
  mi_waiting :: bool
  mi_tid :: bool
  mi_start :: int
  mi_due_ms :: int
  mi_due :: int
  mi_st :: midi_stats
  mi_ctrl :: byte
  mi_in :: "byte list"
  mi_out :: "(int \<times> int \<times> byte) list"
  mi_snapped :: bool
  mi_reads :: nat
  mi_kreads :: nat
  mi_now :: int
  mi_wake_at :: "int option"
  mi_ticks :: nat
  mi_proc :: mproc
  mi_awake :: bool
  mi_moves :: nat
  mi_ret :: "mret list"

text \<open>
  \<open>a_stat c k\<close>: the \<open>k\<close>-th reading of the port's status, when its control register is \<open>c\<close>;
  \<open>k_stat k\<close>: the keyboard's; \<open>m_fault k\<close>: the \<open>k\<close>-th copy from or to the user fails; \<open>m_hz\<close>: \<open>hertz\<close>.
\<close>

record menv =
  a_stat :: "byte \<Rightarrow> nat \<Rightarrow> byte"
  k_stat :: "nat \<Rightarrow> byte"
  m_fault :: "nat \<Rightarrow> bool"
  m_hz :: int

definition mstat :: "(midi_stats \<Rightarrow> midi_stats) \<Rightarrow> midist \<Rightarrow> midist" where
  "mstat f st = st\<lparr>mi_st := f (mi_st st)\<rparr>"

definition rd_ctrl :: "menv \<Rightarrow> midist \<Rightarrow> byte \<times> midist" where
  "rd_ctrl env st = (a_stat env (mi_ctrl st) (mi_reads st), st\<lparr>mi_reads := Suc (mi_reads st)\<rparr>)"

text \<open>\<open>USED()\<close> and \<open>FREE()\<close>\<close>

definition m_used :: "midist \<Rightarrow> nat" where
  "m_used st = unat (mi_tail st - mi_head st)"

definition m_free :: "midist \<Rightarrow> int" where
  "m_free st = RING - 1 - int (m_used st)"

definition ms_to_ticks :: "int \<Rightarrow> int \<Rightarrow> int" where
  "ms_to_ticks hz ms = s32 (s32 (cdiv ms 1000 * hz) + cdiv (s32 ((ms - cdiv ms 1000 * 1000) * hz)) 1000)"

definition midi_wakeup :: "midist \<Rightarrow> midist" where
  "midi_wakeup st = st\<lparr>mi_awake := True\<rparr>"

section \<open>Sending\<close>

definition midi_quiet :: "midist \<Rightarrow> midist" where
  "midi_quiet st = (if mi_sending st then st\<lparr>mi_ctrl := CR_IDLE, mi_sending := False\<rparr> else st)"

definition midi_sendon :: "midist \<Rightarrow> midist" where
  "midi_sendon st = (if mi_sending st then st else st\<lparr>mi_ctrl := CR_SEND, mi_sending := True\<rparr>)"

text \<open>The wait at the head of the ring: its timeline, with the wait taken off the ring.\<close>

definition take_wait :: "menv \<Rightarrow> midist \<Rightarrow> midist" where
  "take_wait env st =
    (let now = mi_now st;
         st1 = (if s32 (mi_due st + SNAP_TICKS) < now
                then mstat (\<lambda>s. s\<lparr>mst_snaps := u32 (mst_snaps s + 1)\<rparr>) (st\<lparr>mi_start := now, mi_due_ms := 0, mi_snapped := True\<rparr>) else st);
         ms = s32 (mi_due_ms st1 + uint (mi_ring st1 (mi_head st1 + 1)))
     in mstat (\<lambda>s. s\<lparr>mst_waits := u32 (mst_waits s + 1)\<rparr>)
          (st1\<lparr>mi_due_ms := ms, mi_due := s32 (mi_start st1 + ms_to_ticks (m_hz env) ms), mi_head := mi_head st1 + 2\<rparr>))"

definition send_byte :: "midist \<Rightarrow> midist" where
  "send_byte st = mstat (\<lambda>s. s\<lparr>mst_bytes := u32 (mst_bytes s + 1)\<rparr>)
     (st\<lparr>mi_out := mi_out st @ [(mi_now st, mi_due st, mi_ring st (mi_head st))], mi_head := mi_head st + 1\<rparr>)"

lemma take_wait_ring: "mi_head (take_wait env st) = mi_head st + 2" "mi_tail (take_wait env st) = mi_tail st"
  by (simp_all add: take_wait_def Let_def mstat_def)

lemma m_used_drop:
  assumes "k \<le> m_used st"
  shows "unat (mi_tail st - (mi_head st + of_nat k)) = m_used st - k"
proof -
  have l: "k < 2 ^ 13" using assms unsigned_less [of "mi_tail st - mi_head st", where 'a = nat] by (simp add: m_used_def)
  then have u: "unat (of_nat k :: 13 word) = k" by (simp add: unat_of_nat)
  then have "(of_nat k :: 13 word) \<le> mi_tail st - mi_head st"
    using assms by (simp add: m_used_def word_le_nat_alt)
  then have "unat (mi_tail st - mi_head st - of_nat k) = m_used st - k" by (simp add: m_used_def unat_sub u)
  then show ?thesis by (simp add: algebra_simps)
qed

lemma m_used_0: "m_used st = 0 \<longleftrightarrow> mi_head st = mi_tail st"
  unfolding m_used_def by (metis eq_iff_diff_eq_0 unat_eq_zero)

function midi_kick :: "menv \<Rightarrow> midist \<Rightarrow> midist" where
  "midi_kick env st =
    (if mi_head st = mi_tail st then midi_wakeup (midi_quiet st)
     else if mi_timed st \<and> mi_ring st (mi_head st) = WAIT then
       (if m_used st < 2 then midi_quiet st
        else
          let st1 = take_wait env st
          in if mi_due st1 > mi_now st1 then
               (midi_quiet st1)\<lparr>mi_waiting := True, mi_tid := True,
                 mi_wake_at := Some (mi_now st1 + s32 (mi_due st1 - mi_now st1))\<rparr>
             else midi_kick env (mstat (\<lambda>s. s\<lparr>mst_late := u32 (mst_late s + 1)\<rparr>) st1))
     else
       (case rd_ctrl env st of (b, st1) \<Rightarrow>
         if b AND S_TDRE = 0 then midi_sendon st1
         else midi_kick env (midi_sendon (send_byte st1))))"
  by pat_completeness auto

termination
proof (relation "measure (m_used \<circ> snd)", goal_cases)
  case (2 env st st1)
  have "unat (mi_tail st - (mi_head st + 2)) = m_used st - 2" using m_used_drop [of 2 st] 2(3) by simp
  then show ?case using 2(3,4) by (simp add: m_used_def mstat_def take_wait_ring)
next
  case (3 env st b st1)
  have "m_used st \<noteq> 0" using 3(1) m_used_0 by simp
  then have "unat (mi_tail st - (mi_head st + 1)) < m_used st" using m_used_drop [of 1 st] by simp
  then show ?case using 3(3) by (auto simp: m_used_def mstat_def send_byte_def midi_sendon_def rd_ctrl_def)
qed simp

declare midi_kick.simps [simp del]

section \<open>Callouts and the interrupt\<close>

definition midi_wake :: "menv \<Rightarrow> midist \<Rightarrow> midist" where
  "midi_wake env st =
    (let st1 = st\<lparr>mi_waiting := False, mi_tid := False, mi_wake_at := None\<rparr>
     in if mi_open st1 then midi_kick env st1 else st1)"

text \<open>One of the \<open>mi_ticks\<close> callouts of \<open>midi_tick\<close> that are pending.\<close>

definition midi_tick :: "menv \<Rightarrow> midist \<Rightarrow> midist" where
  "midi_tick env st =
    (let st1 = st\<lparr>mi_ticks := mi_ticks st - 1\<rparr>
     in if mi_open st1 then
          let st2 = (if mi_head st1 \<noteq> mi_tail st1 \<and> \<not> mi_sending st1 \<and> \<not> mi_waiting st1
                     then midi_kick env (mstat (\<lambda>s. s\<lparr>mst_kicks := u32 (mst_kicks s + 1)\<rparr>) st1) else st1)
          in st2\<lparr>mi_ticks := Suc (mi_ticks st2)\<rparr>
        else st1)"

text \<open>The port's turn in the loop of the shared line, before the keyboard's.\<close>

definition int_port :: "menv \<Rightarrow> midist \<Rightarrow> midist" where
  "int_port env st =
    (case rd_ctrl env st of (b, st1) \<Rightarrow>
      if b AND S_IRQ = 0 then st1
      else if mi_open st1 then midi_kick env (mstat (\<lambda>s. s\<lparr>mst_intrs := u32 (mst_intrs s + 1)\<rparr>) st1)
      else (snd (rd_ctrl env st1))\<lparr>mi_ctrl := CR_IDLE\<rparr>)"

text \<open>The loop ends when neither chip asserts its interrupt, and goes on for ever when one never stops.\<close>

definition int_done :: "menv \<Rightarrow> midist \<Rightarrow> bool \<times> midist" where
  "int_done env st =
    (case rd_ctrl env st of (b, st1) \<Rightarrow>
      if b AND S_IRQ \<noteq> 0 then (False, st1)
      else (k_stat env (mi_kreads st1) AND S_IRQ = 0, st1\<lparr>mi_kreads := Suc (mi_kreads st1)\<rparr>))"

partial_function (option) midiint :: "menv \<Rightarrow> midist \<Rightarrow> midist option" where
  "midiint env st =
    (case int_done env (int_port env st) of (q, st1) \<Rightarrow> if q then Some st1 else midiint env st1)"

section \<open>Open, write, close, ioctl\<close>

definition mstats0 :: midi_stats where
  "mstats0 = \<lparr>mst_bytes = 0, mst_intrs = 0, mst_waits = 0, mst_late = 0, mst_snaps = 0, mst_kicks = 0, mst_queued = 0, mst_hz = 0\<rparr>"

definition mi_answer :: "mret \<Rightarrow> midist \<Rightarrow> midist" where
  "mi_answer r st = st\<lparr>mi_ret := mi_ret st @ [r], mi_proc := Idle\<rparr>"

definition mi_sleep :: "mproc \<Rightarrow> midist \<Rightarrow> midist" where
  "mi_sleep p st = st\<lparr>mi_proc := p, mi_awake := False\<rparr>"

definition midiopen :: "menv \<Rightarrow> int \<Rightarrow> bool \<Rightarrow> midist \<Rightarrow> midist" where
  "midiopen env m chr st =
    (if m \<noteq> 0 \<and> m \<noteq> 1 \<or> \<not> chr then mi_answer (MErr M_ENXIO) st
     else if mi_open st then mi_answer (MErr M_EBUSY) st
     else
       let st1 = snd (rd_ctrl env (st\<lparr>mi_timed := (m = 1), mi_head := 0, mi_tail := 0, mi_sending := False, mi_waiting := False,
             mi_tid := False, mi_start := mi_now st, mi_due_ms := 0, mi_due := mi_now st, mi_st := mstats0,
             mi_ctrl := CR_IDLE, mi_in := [], mi_out := [], mi_snapped := False\<rparr>))
       in mi_answer MOk (st1\<lparr>mi_hooked := True, mi_open := True, mi_ticks := Suc (mi_ticks st1)\<rparr>))"

definition ring_put :: "byte \<Rightarrow> midist \<Rightarrow> midist" where
  "ring_put b st = st\<lparr>mi_ring := (mi_ring st)(mi_tail st := b), mi_tail := mi_tail st + 1, mi_in := mi_in st @ [b]\<rparr>"

text \<open>\<open>midiwrite\<close>, from its start or from where it slept, with the bytes not yet moved.\<close>

function midi_write_go :: "menv \<Rightarrow> byte list \<Rightarrow> midist \<Rightarrow> midist" where
  "midi_write_go env bs st =
    (if bs = [] then mi_answer MOk st
     else
       let n = min BOUNCE (length bs)
       in if m_free st < int n then mi_sleep (Writing bs) st
          else
            let st1 = st\<lparr>mi_moves := Suc (mi_moves st)\<rparr>
            in if m_fault env (mi_moves st) then mi_answer (MErr M_EFAULT) st1
               else
                 let st2 = fold ring_put (take n bs) st1;
                     st3 = (if \<not> mi_sending st2 \<and> \<not> mi_waiting st2 then midi_kick env st2 else st2)
                 in midi_write_go env (drop n bs) st3)"
  by pat_completeness auto

termination
  by (relation "measure (\<lambda>(env, bs, st). length bs)") (auto simp: BOUNCE_def)

declare midi_write_go.simps [simp del]

definition midi_untime :: "midist \<Rightarrow> midist" where
  "midi_untime st = (if mi_waiting st \<and> mi_tid st then st\<lparr>mi_wake_at := None\<rparr> else st)"

definition midi_shut :: "midist \<Rightarrow> midist" where
  "midi_shut st =
    (let st1 = midi_untime (midi_quiet st)
     in mi_answer MOk (st1\<lparr>mi_waiting := False, mi_tid := False, mi_head := 0, mi_tail := 0, mi_open := False\<rparr>))"

definition midi_close_go :: "menv \<Rightarrow> nat \<Rightarrow> midist \<Rightarrow> midist" where
  "midi_close_go env t st =
    (if mi_head st \<noteq> mi_tail st \<and> int t < 5 * m_hz env then mi_sleep (Closing t) st else midi_shut st)"

definition midi_drain_go :: "menv \<Rightarrow> nat \<Rightarrow> midist \<Rightarrow> midist" where
  "midi_drain_go env t st =
    (if mi_head st \<noteq> mi_tail st \<and> int t < 30 * m_hz env then mi_sleep (Draining t) st else mi_answer MOk st)"

definition midi_flush :: "midist \<Rightarrow> midist" where
  "midi_flush st =
    (let st1 = midi_quiet ((midi_untime (st\<lparr>mi_head := mi_tail st\<rparr>))\<lparr>mi_waiting := False, mi_tid := False\<rparr>)
     in midi_wakeup (st1\<lparr>mi_start := mi_now st1, mi_due_ms := 0, mi_due := mi_now st1,
          mi_in := [], mi_out := [], mi_snapped := False\<rparr>))"

definition MIDI_IOC :: "int \<Rightarrow> int" where "MIDI_IOC n = push_bit 8 77 OR n"

definition midiioctl :: "menv \<Rightarrow> int \<Rightarrow> midist \<Rightarrow> midist" where
  "midiioctl env cmd st =
    (if cmd = MIDI_IOC 1 then mi_answer MOk (midi_flush st)
     else if cmd = MIDI_IOC 2 then mi_answer (MVal (int (m_used st))) st
     else if cmd = MIDI_IOC 3 then midi_drain_go env 0 st
     else if cmd = MIDI_IOC 4 then
       (let st1 = mstat (\<lambda>s. s\<lparr>mst_queued := int (m_used st), mst_hz := m_hz env\<rparr>) (st\<lparr>mi_moves := Suc (mi_moves st)\<rparr>)
        in mi_answer (if m_fault env (mi_moves st) then MErr M_EFAULT else MStats (mi_st st1)) st1)
     else if cmd = MIDI_IOC 5 then mi_answer (MVal RING) st
     else mi_answer (MErr M_EINVAL) st)"

section \<open>The driver under events\<close>

datatype mevent = MOpen int bool | MWrite "byte list" | MClose | MIoctl int | MRun | MSignal
  | MClock | MWake | MTick | MInt

text \<open>A call that slept goes on when it is woken, or is broken off by a signal.\<close>

definition midi_resume :: "menv \<Rightarrow> midist \<Rightarrow> midist" where
  "midi_resume env st =
    (case mi_proc st of
       Idle \<Rightarrow> st
     | Writing bs \<Rightarrow> midi_write_go env bs st
     | Closing t \<Rightarrow> midi_close_go env (Suc t) st
     | Draining t \<Rightarrow> midi_drain_go env (Suc t) st)"

definition midi_signal :: "midist \<Rightarrow> midist" where
  "midi_signal st =
    (case mi_proc st of
       Idle \<Rightarrow> st
     | Closing t \<Rightarrow> midi_shut st
     | _ \<Rightarrow> mi_answer (MErr M_EINTR) st)"

definition midi_step :: "menv \<Rightarrow> mevent \<Rightarrow> midist \<Rightarrow> midist option" where
  "midi_step env ev st =
    (case ev of
       MOpen m chr \<Rightarrow> Some (if mi_proc st = Idle then midiopen env m chr st else st)
     | MWrite bs \<Rightarrow> Some (if mi_proc st = Idle \<and> mi_open st then midi_write_go env bs st else st)
     | MClose \<Rightarrow> Some (if mi_proc st = Idle \<and> mi_open st then midi_close_go env 0 st else st)
     | MIoctl cmd \<Rightarrow> Some (if mi_proc st = Idle \<and> mi_open st then midiioctl env cmd st else st)
     | MRun \<Rightarrow> Some (if mi_awake st then midi_resume env st else st)
     | MSignal \<Rightarrow> Some (if mi_awake st then st else midi_signal st)
     | MClock \<Rightarrow> Some (st\<lparr>mi_now := s32 (mi_now st + 1)\<rparr>)
     | MWake \<Rightarrow> Some (case mi_wake_at st of None \<Rightarrow> st | Some t \<Rightarrow> if t \<le> mi_now st then midi_wake env st else st)
     | MTick \<Rightarrow> Some (if mi_ticks st = 0 then st else midi_tick env st)
     | MInt \<Rightarrow> (if mi_hooked st then midiint env st else Some st))"

definition midi_boot :: "int \<Rightarrow> midist" where
  "midi_boot now = \<lparr>mi_open = False, mi_timed = False, mi_hooked = False, mi_ring = (\<lambda>_. 0), mi_head = 0, mi_tail = 0,
     mi_sending = False, mi_waiting = False, mi_tid = False, mi_start = 0, mi_due_ms = 0, mi_due = 0, mi_st = mstats0,
     mi_ctrl = 0x95, mi_in = [], mi_out = [], mi_snapped = False, mi_reads = 0, mi_kreads = 0, mi_now = now, mi_wake_at = None, mi_ticks = 0,
     mi_proc = Idle, mi_awake = True, mi_moves = 0, mi_ret = []\<rparr>"

end
