(* ===== verification/MidiProps.thy ===== *)
theory MidiProps
  imports Midi
begin

unbundle bit_operations_syntax

text \<open>
  What the MIDI driver promises: the bytes of a stream leave once each, in order, and never before
  their time; and where it does not: a wait whose count has not come is never woken from.
\<close>

section \<open>The ring as a queue\<close>

definition mqueue :: "midist \<Rightarrow> byte list" where
  "mqueue st = map (\<lambda>k. mi_ring st (mi_head st + of_nat k)) [0..<m_used st]"

lemma mqueue_cong:
  "mi_ring a = mi_ring b \<Longrightarrow> mi_head a = mi_head b \<Longrightarrow> mi_tail a = mi_tail b \<Longrightarrow> mqueue a = mqueue b"
  by (simp add: mqueue_def m_used_def)

lemma mqueue_Nil: "mqueue st = [] \<longleftrightarrow> mi_head st = mi_tail st"
  by (simp add: mqueue_def m_used_0)

lemma mqueue_Cons:
  assumes "mi_head st \<noteq> mi_tail st"
  shows "mqueue st = mi_ring st (mi_head st) # mqueue (st\<lparr>mi_head := mi_head st + 1\<rparr>)"
proof -
  have "1 \<le> m_used st" using assms m_used_0 [of st] by simp
  then have u: "m_used (st\<lparr>mi_head := mi_head st + 1\<rparr>) = m_used st - 1" "m_used st = Suc (m_used st - 1)"
    using m_used_drop [of 1 st] by (simp_all add: m_used_def)
  have "mqueue st = map (\<lambda>k. mi_ring st (mi_head st + of_nat k)) (0 # map Suc [0..<m_used st - 1])"
    unfolding mqueue_def by (subst u(2)) (simp only: upt_conv_Cons map_Suc_upt zero_less_Suc)
  then show ?thesis by (simp add: mqueue_def [of "st\<lparr>mi_head := mi_head st + 1\<rparr>"] u(1) comp_def add.assoc)
qed

lemma mqueue_two:
  assumes "2 \<le> m_used st"
  shows "mqueue st = mi_ring st (mi_head st) # mi_ring st (mi_head st + 1) # mqueue (st\<lparr>mi_head := mi_head st + 2\<rparr>)"
proof -
  let ?s = "st\<lparr>mi_head := mi_head st + 1\<rparr>"
  have h: "mi_head st \<noteq> mi_tail st" using assms m_used_0 [of st] by auto
  have "m_used ?s = m_used st - 1" using m_used_drop [of 1 st] assms by (simp add: m_used_def)
  then have "mi_head ?s \<noteq> mi_tail ?s" using assms m_used_0 [of ?s] by auto
  from mqueue_Cons [OF h] mqueue_Cons [OF this] show ?thesis by (simp add: add.assoc)
qed

lemma m_used_put:
  assumes "m_used st < 8191"
  shows "m_used (ring_put b st) = Suc (m_used st)"
proof -
  let ?w = "mi_tail st - mi_head st"
  have "1 + ?w \<noteq> 0"
  proof
    assume "1 + ?w = 0"
    then have "?w = -1" by (metis add.inverse_unique)
    then show False using assms by (simp add: m_used_def unsigned_minus_1_eq_mask mask_eq_exp_minus_1)
  qed
  then have "unat (1 + ?w) = Suc (unat ?w)" by (rule unatSuc)
  then show ?thesis by (simp add: m_used_def ring_put_def algebra_simps)
qed

lemma mqueue_put:
  assumes "m_used st < 8191"
  shows "mqueue (ring_put b st) = mqueue st @ [b]"
proof -
  have i: "mi_head st + of_nat k = mi_tail st \<longleftrightarrow> k = m_used st" if "k \<le> m_used st" for k
  proof
    assume e: "mi_head st + of_nat k = mi_tail st"
    then have "unat (mi_tail st - (mi_head st + of_nat k)) = 0" by simp
    then show "k = m_used st" using m_used_drop [OF that] that by simp
  next
    assume "k = m_used st"
    then show "mi_head st + of_nat k = mi_tail st" by (simp add: m_used_def)
  qed
  have "mqueue (ring_put b st) = map (\<lambda>k. mi_ring (ring_put b st) (mi_head st + of_nat k)) ([0..<m_used st] @ [m_used st])"
    unfolding mqueue_def m_used_put [OF assms] by (simp add: ring_put_def)
  also have "\<dots> = mqueue st @ [b]"
    using i by (auto simp: mqueue_def ring_put_def)
  finally show ?thesis .
qed

section \<open>The stream of commands\<close>

text \<open>A timed stream's bytes with the milliseconds of waits before each, and the sum of the waits.\<close>

fun stamp :: "int \<Rightarrow> byte list \<Rightarrow> (int \<times> byte) list" where
  "stamp t [] = []"
| "stamp t [b] = (if b = WAIT then [] else [(t, b)])"
| "stamp t (b # n # r) = (if b = WAIT then stamp (t + uint n) r else (t, b) # stamp t (n # r))"

fun wait_ms :: "byte list \<Rightarrow> int" where
  "wait_ms [] = 0"
| "wait_ms [b] = 0"
| "wait_ms (b # n # r) = (if b = WAIT then uint n + wait_ms r else wait_ms (n # r))"

fun whole :: "byte list \<Rightarrow> bool" where
  "whole [] = True"
| "whole [b] = (b \<noteq> WAIT)"
| "whole (b # n # r) = (if b = WAIT then whole r else whole (n # r))"

lemma whole_append_byte: "whole c \<Longrightarrow> b \<noteq> WAIT \<Longrightarrow>
    whole (c @ [b]) \<and> wait_ms (c @ [b]) = wait_ms c \<and> stamp t (c @ [b]) = stamp t c @ [(t + wait_ms c, b)]"
proof (induction t c rule: stamp.induct)
  case (3 t x n r)
  then show ?case by (cases "x = WAIT") (simp_all add: algebra_simps)
qed simp_all

lemma whole_append_wait: "whole c \<Longrightarrow>
    whole (c @ [WAIT, n]) \<and> wait_ms (c @ [WAIT, n]) = wait_ms c + uint n \<and> stamp t (c @ [WAIT, n]) = stamp t c"
proof (induction t c rule: stamp.induct)
  case (3 t x k r)
  then show ?case by (cases "x = WAIT") (simp_all add: algebra_simps)
qed simp_all

lemma wait_ms_nonneg: "0 \<le> wait_ms c"
  by (induction c rule: wait_ms.induct) auto

lemma wait_ms_Cons: "b \<noteq> WAIT \<Longrightarrow> wait_ms (b # r) = wait_ms r"
  by (cases r) simp_all

lemma wait_ms_append: "whole c \<Longrightarrow> wait_ms (c @ r) = wait_ms c + wait_ms r"
  by (induction c rule: whole.induct) (auto simp: wait_ms_Cons split: if_splits)

section \<open>The invariant\<close>

text \<open>
  \<open>c\<close>: what of the bytes put into the ring has left it. Times fit: \<open>fits\<close> says of a state that the
  machine has been up, and the timeline of the stream is, under \<open>2 ^ 29\<close> ticks and milliseconds.
\<close>

definition order_ok :: "midist \<Rightarrow> byte list \<Rightarrow> bool" where
  "order_ok st c \<longleftrightarrow> mi_in st = c @ mqueue st \<and>
     (if mi_timed st then whole c \<and> map (snd \<circ> snd) (mi_out st) = map snd (stamp 0 c)
      else map (snd \<circ> snd) (mi_out st) = c)"

definition line_ok :: "int \<Rightarrow> midist \<Rightarrow> byte list \<Rightarrow> bool" where
  "line_ok hz st c \<longleftrightarrow> (mi_timed st \<and> \<not> mi_snapped st \<longrightarrow> mi_due_ms st = wait_ms c \<and>
     0 \<le> mi_start st \<and> mi_start st \<le> 2 ^ 29 \<and> mi_due st = mi_start st + ms_to_ticks hz (wait_ms c) \<and>
     map (\<lambda>(t, d, b). (d, b)) (mi_out st) = map (\<lambda>(ms, b). (mi_start st + ms_to_ticks hz ms, b)) (stamp 0 c))"

definition when_ok :: "midist \<Rightarrow> bool" where
  "when_ok st \<longleftrightarrow> (\<forall>(t, d, b) \<in> set (mi_out st). d \<le> t) \<and> (\<not> mi_waiting st \<longrightarrow> mi_due st \<le> mi_now st) \<and>
     (mi_waiting st \<longrightarrow> mi_wake_at st = Some (mi_due st)) \<and> mi_due st < 2147483648"

definition ctrl_ok :: "midist \<Rightarrow> bool" where
  "ctrl_ok st \<longleftrightarrow> mi_ctrl st = (if mi_sending st then CR_SEND else CR_IDLE) \<and> (mi_waiting st \<longrightarrow> \<not> mi_sending st \<and> mi_tid st) \<and>
     (\<not> mi_waiting st \<longrightarrow> mi_wake_at st = None)"

definition fits :: "midist \<Rightarrow> bool" where
  "fits st \<longleftrightarrow> 0 \<le> mi_now st \<and> mi_now st \<le> 2 ^ 29 \<and> wait_ms (mi_in st) \<le> 2 ^ 29"

lemma ms_to_ticks_bounds:
  assumes "0 \<le> ms" "ms \<le> 2 ^ 29" "0 < hz" "hz \<le> 1000"
  shows "ms_to_ticks hz ms = ms * hz div 1000" "0 \<le> ms_to_ticks hz ms" "ms_to_ticks hz ms \<le> 2 ^ 29"
proof -
  have a: "ms div 1000 * hz \<le> ms div 1000 * 1000" "ms div 1000 * 1000 \<le> ms" using assms by (simp_all add: mult_left_mono)
  have "ms mod 1000 \<le> 999" "0 \<le> ms mod 1000" by simp_all
  then have b: "ms mod 1000 * hz \<le> 999 * 1000" "0 \<le> ms mod 1000 * hz"
    using assms by (intro mult_mono mult_nonneg_nonneg; simp)+
  have p: "ms \<le> 536870912" using assms by simp
  have d: "0 \<le> ms div 1000 * hz" using assms by (intro mult_nonneg_nonneg) simp_all
  have "ms * hz = (ms div 1000 * 1000 + ms mod 1000) * hz" by simp
  also have "\<dots> = ms mod 1000 * hz + 1000 * (ms div 1000 * hz)" by (simp only: distrib_right distrib_left mult_ac add_ac)
  finally have e: "ms * hz div 1000 = ms div 1000 * hz + ms mod 1000 * hz div 1000" by simp
  have "ms - ms div 1000 * 1000 = ms mod 1000" by (simp add: minus_div_mult_eq_mod)
  then have m: "ms_to_ticks hz ms = s32 (s32 (ms div 1000 * hz) + cdiv (s32 (ms mod 1000 * hz)) 1000)"
    using assms by (simp add: ms_to_ticks_def cdiv_nonneg)
  have c: "s32 (ms mod 1000 * hz) = ms mod 1000 * hz" "s32 (ms div 1000 * hz) = ms div 1000 * hz"
    using a b d p by (intro s32_id; linarith)+
  have "ms * hz div 1000 \<le> ms * 1000 div 1000" using assms by (intro zdiv_mono1 mult_left_mono) simp_all
  then have t: "ms * hz div 1000 \<le> 2 ^ 29" "0 \<le> ms * hz div 1000" using assms by (simp_all add: pos_imp_zdiv_nonneg_iff)
  show "ms_to_ticks hz ms = ms * hz div 1000" using m c e t b by (simp add: cdiv_nonneg s32_id)
  then show "0 \<le> ms_to_ticks hz ms" "ms_to_ticks hz ms \<le> 2 ^ 29" using t by simp_all
qed

section \<open>Sending keeps it\<close>

lemma order_cong:
  "order_ok st c \<Longrightarrow> mi_in st' = mi_in st \<Longrightarrow> mi_ring st' = mi_ring st \<Longrightarrow> mi_head st' = mi_head st \<Longrightarrow> mi_tail st' = mi_tail st \<Longrightarrow>
    mi_timed st' = mi_timed st \<Longrightarrow> mi_out st' = mi_out st \<Longrightarrow> order_ok st' c"
  using mqueue_cong [of st' st] by (simp add: order_ok_def)

lemma line_cong:
  "line_ok hz st c \<Longrightarrow> mi_timed st' = mi_timed st \<Longrightarrow> mi_snapped st' = mi_snapped st \<Longrightarrow> mi_due_ms st' = mi_due_ms st \<Longrightarrow>
    mi_start st' = mi_start st \<Longrightarrow> mi_due st' = mi_due st \<Longrightarrow> mi_out st' = mi_out st \<Longrightarrow> line_ok hz st' c"
  by (simp add: line_ok_def)

lemma order_send:
  assumes "order_ok st c" "mi_head st \<noteq> mi_tail st" "\<not> (mi_timed st \<and> mi_ring st (mi_head st) = WAIT)"
  shows "order_ok (send_byte st) (c @ [mi_ring st (mi_head st)])"
proof -
  have "mqueue (send_byte st) = mqueue (st\<lparr>mi_head := mi_head st + 1\<rparr>)" by (rule mqueue_cong) (simp_all add: send_byte_def mstat_def)
  then show ?thesis
    using assms mqueue_Cons [OF assms(2)] whole_append_byte [of c "mi_ring st (mi_head st)" 0]
    by (auto simp: order_ok_def send_byte_def mstat_def)
qed

lemma line_send:
  assumes "line_ok hz st c" "order_ok st c" "\<not> (mi_timed st \<and> mi_ring st (mi_head st) = WAIT)"
  shows "line_ok hz (send_byte st) (c @ [mi_ring st (mi_head st)])"
  using assms whole_append_byte [of c "mi_ring st (mi_head st)" 0] by (auto simp: line_ok_def order_ok_def send_byte_def mstat_def)

lemma order_wait:
  assumes "order_ok st c" "2 \<le> m_used st" "mi_timed st" "mi_ring st (mi_head st) = WAIT"
  shows "order_ok (take_wait env st) (c @ [WAIT, mi_ring st (mi_head st + 1)])"
proof -
  have "mqueue (take_wait env st) = mqueue (st\<lparr>mi_head := mi_head st + 2\<rparr>)"
    by (rule mqueue_cong) (simp_all add: take_wait_def mstat_def Let_def)
  then show ?thesis
    using assms mqueue_two [OF assms(2)] whole_append_wait [of c _ 0]
    by (auto simp: order_ok_def take_wait_def mstat_def Let_def)
qed

lemma line_wait:
  assumes "line_ok (m_hz env) st c" "order_ok st c" "2 \<le> m_used st" "mi_timed st" "mi_ring st (mi_head st) = WAIT" "fits st"
    "0 < m_hz env" "m_hz env \<le> 1000"
  shows "line_ok (m_hz env) (take_wait env st) (c @ [WAIT, mi_ring st (mi_head st + 1)])"
proof (cases "mi_snapped (take_wait env st)")
  case False
  let ?n = "mi_ring st (mi_head st + 1)"
  have ns: "\<not> mi_snapped st" "\<not> s32 (mi_due st + SNAP_TICKS) < mi_now st"
    using False by (auto simp: take_wait_def mstat_def Let_def split: if_splits)
  have w: "whole c" "mi_in st = c @ WAIT # ?n # mqueue (st\<lparr>mi_head := mi_head st + 2\<rparr>)"
    using assms(2,4,5) mqueue_two [OF assms(3)] by (simp_all add: order_ok_def)
  have "0 \<le> wait_ms (mqueue (st\<lparr>mi_head := mi_head st + 2\<rparr>))" by (rule wait_ms_nonneg)
  then have "wait_ms c + uint ?n \<le> wait_ms (mi_in st)" using wait_ms_append [OF w(1)] w(2) by simp
  then have b: "0 \<le> wait_ms c + uint ?n" "wait_ms c + uint ?n \<le> 2 ^ 29"
    using assms(6) wait_ms_nonneg [of c] by (simp_all add: fits_def)
  have l: "mi_due_ms st = wait_ms c" "0 \<le> mi_start st" "mi_start st \<le> 2 ^ 29"
    "map (\<lambda>(t, d, b). (d, b)) (mi_out st) = map (\<lambda>(ms, b). (mi_start st + ms_to_ticks (m_hz env) ms, b)) (stamp 0 c)"
    using assms(1,4) ns(1) by (simp_all add: line_ok_def)
  have "s32 (wait_ms c + uint ?n) = wait_ms c + uint ?n" using b by (intro s32_id) simp_all
  moreover have "s32 (mi_start st + ms_to_ticks (m_hz env) (wait_ms c + uint ?n)) = mi_start st + ms_to_ticks (m_hz env) (wait_ms c + uint ?n)"
    using l(2,3) ms_to_ticks_bounds [OF b assms(7,8)] by (intro s32_id) simp_all
  ultimately show ?thesis
    using l ns(2) whole_append_wait [OF w(1), of ?n 0]
    by (simp add: line_ok_def take_wait_def mstat_def Let_def)
qed (simp add: line_ok_def)

text \<open>What sending leaves alone.\<close>

definition kick_frame :: "midist \<Rightarrow> midist \<Rightarrow> bool" where
  "kick_frame a b \<longleftrightarrow> mi_in b = mi_in a \<and> mi_ring b = mi_ring a \<and> mi_tail b = mi_tail a \<and> mi_timed b = mi_timed a \<and>
     mi_open b = mi_open a \<and> mi_hooked b = mi_hooked a \<and> mi_now b = mi_now a \<and> mi_proc b = mi_proc a \<and>
     mi_ticks b = mi_ticks a \<and> mi_moves b = mi_moves a \<and> mi_ret b = mi_ret a"

lemma kick_frame_refl: "kick_frame a a"
  by (simp add: kick_frame_def)

lemma kick_frame_steps:
  "kick_frame a b \<Longrightarrow> kick_frame a (midi_quiet b)" "kick_frame a b \<Longrightarrow> kick_frame a (midi_sendon b)"
  "kick_frame a b \<Longrightarrow> kick_frame a (take_wait env b)" "kick_frame a b \<Longrightarrow> kick_frame a (send_byte b)"
  "kick_frame a b \<Longrightarrow> kick_frame a (mstat f b)" "kick_frame a b \<Longrightarrow> kick_frame a (midi_wakeup b)"
  "kick_frame a b \<Longrightarrow> kick_frame a (snd (rd_ctrl env b))"
  by (simp_all add: kick_frame_def midi_quiet_def midi_sendon_def take_wait_def send_byte_def mstat_def Let_def midi_wakeup_def
      rd_ctrl_def)

lemma kick_frame_fits: "kick_frame a b \<Longrightarrow> fits b = fits a"
  by (simp add: kick_frame_def fits_def)

text \<open>The ways through one turn of \<open>midi_kick\<close>.\<close>

lemma midi_kick_turn:
  obtains "mi_head st = mi_tail st" "midi_kick env st = midi_wakeup (midi_quiet st)"
  | "mi_head st \<noteq> mi_tail st" "mi_timed st" "mi_ring st (mi_head st) = WAIT" "m_used st < 2" "midi_kick env st = midi_quiet st"
  | st1 where "2 \<le> m_used st" "mi_timed st" "mi_ring st (mi_head st) = WAIT" "st1 = take_wait env st" "mi_due st1 > mi_now st1"
      "midi_kick env st = (midi_quiet st1)\<lparr>mi_waiting := True, mi_tid := True,
         mi_wake_at := Some (mi_now st1 + s32 (mi_due st1 - mi_now st1))\<rparr>"
  | st1 where "2 \<le> m_used st" "mi_timed st" "mi_ring st (mi_head st) = WAIT"
      "st1 = mstat (\<lambda>s. s\<lparr>mst_late := u32 (mst_late s + 1)\<rparr>) (take_wait env st)" "mi_due st1 \<le> mi_now st1"
      "midi_kick env st = midi_kick env st1"
  | "mi_head st \<noteq> mi_tail st" "\<not> (mi_timed st \<and> mi_ring st (mi_head st) = WAIT)"
      "a_stat env (mi_ctrl st) (mi_reads st) AND S_TDRE = 0" "midi_kick env st = midi_sendon (snd (rd_ctrl env st))"
  | st1 where "mi_head st \<noteq> mi_tail st" "\<not> (mi_timed st \<and> mi_ring st (mi_head st) = WAIT)"
      "a_stat env (mi_ctrl st) (mi_reads st) AND S_TDRE \<noteq> 0" "st1 = midi_sendon (send_byte (snd (rd_ctrl env st)))"
      "midi_kick env st = midi_kick env st1"
proof (cases "mi_head st = mi_tail st")
  case True
  then show ?thesis using that(1) by (simp add: midi_kick.simps [of env st])
next
  case ne: False
  show ?thesis
  proof (cases "mi_timed st \<and> mi_ring st (mi_head st) = WAIT")
    case w: True
    show ?thesis
    proof (cases "m_used st < 2")
      case True
      then show ?thesis using that(2) ne w by (simp add: midi_kick.simps [of env st])
    next
      case u: False
      show ?thesis
      proof (cases "mi_due (take_wait env st) > mi_now (take_wait env st)")
        case True
        then show ?thesis using that(3) [OF _ _ _ refl] ne w u by (simp add: midi_kick.simps [of env st] Let_def)
      next
        case False
        then show ?thesis using that(4) [OF _ _ _ refl] ne w u by (simp add: midi_kick.simps [of env st] Let_def mstat_def)
      qed
    qed
  next
    case False
    then show ?thesis using that(5) that(6) [OF _ _ _ refl] ne
      by (cases "a_stat env (mi_ctrl st) (mi_reads st) AND S_TDRE = 0")
        (auto simp: midi_kick.simps [of env st] rd_ctrl_def)
  qed
qed

lemma kick_rule:
  assumes "J st"
    and wait: "\<And>st. J st \<Longrightarrow> 2 \<le> m_used st \<Longrightarrow> mi_timed st \<Longrightarrow> mi_ring st (mi_head st) = WAIT \<Longrightarrow>
       mi_due (take_wait env st) \<le> mi_now (take_wait env st) \<Longrightarrow> J (mstat (\<lambda>s. s\<lparr>mst_late := u32 (mst_late s + 1)\<rparr>) (take_wait env st))"
    and send: "\<And>st. J st \<Longrightarrow> mi_head st \<noteq> mi_tail st \<Longrightarrow> \<not> (mi_timed st \<and> mi_ring st (mi_head st) = WAIT) \<Longrightarrow>
       J (midi_sendon (send_byte (snd (rd_ctrl env st))))"
    and empty: "\<And>st. J st \<Longrightarrow> mi_head st = mi_tail st \<Longrightarrow> Q (midi_wakeup (midi_quiet st))"
    and lone: "\<And>st. J st \<Longrightarrow> mi_head st \<noteq> mi_tail st \<Longrightarrow> m_used st < 2 \<Longrightarrow> mi_timed st \<Longrightarrow> mi_ring st (mi_head st) = WAIT \<Longrightarrow>
       Q (midi_quiet st)"
    and later: "\<And>st st1. J st \<Longrightarrow> 2 \<le> m_used st \<Longrightarrow> mi_timed st \<Longrightarrow> mi_ring st (mi_head st) = WAIT \<Longrightarrow> st1 = take_wait env st \<Longrightarrow>
       mi_due st1 > mi_now st1 \<Longrightarrow> Q ((midi_quiet st1)\<lparr>mi_waiting := True, mi_tid := True,
         mi_wake_at := Some (mi_now st1 + s32 (mi_due st1 - mi_now st1))\<rparr>)"
    and busy: "\<And>st. J st \<Longrightarrow> mi_head st \<noteq> mi_tail st \<Longrightarrow> \<not> (mi_timed st \<and> mi_ring st (mi_head st) = WAIT) \<Longrightarrow>
       Q (midi_sendon (snd (rd_ctrl env st)))"
  shows "Q (midi_kick env st)"
  using assms(1)
proof (induction "m_used st" arbitrary: st rule: less_induct)
  case less
  show ?case
  proof (rule midi_kick_turn [of st env])
    fix st1 assume t: "2 \<le> m_used st" "mi_timed st" "mi_ring st (mi_head st) = WAIT"
      "st1 = mstat (\<lambda>s. s\<lparr>mst_late := u32 (mst_late s + 1)\<rparr>) (take_wait env st)" "mi_due st1 \<le> mi_now st1"
      "midi_kick env st = midi_kick env st1"
    have "J st1" using wait [OF less(2) t(1-3)] t(4,5) by (simp add: mstat_def)
    moreover have "m_used st1 < m_used st"
      using m_used_drop [of 2 st] t(1,4) by (simp add: m_used_def mstat_def take_wait_ring)
    ultimately show ?thesis using less(1) t(6) by simp
  next
    fix st1 assume t: "mi_head st \<noteq> mi_tail st" "\<not> (mi_timed st \<and> mi_ring st (mi_head st) = WAIT)"
      "a_stat env (mi_ctrl st) (mi_reads st) AND S_TDRE \<noteq> 0" "st1 = midi_sendon (send_byte (snd (rd_ctrl env st)))"
      "midi_kick env st = midi_kick env st1"
    have "J st1" unfolding t(4) by (rule send [OF less(2) t(1,2)])
    moreover have "m_used st1 < m_used st"
      using m_used_drop [of 1 st] t(1,4) m_used_0 [of st]
      by (auto simp: m_used_def mstat_def send_byte_def midi_sendon_def rd_ctrl_def)
    ultimately show ?thesis using less(1) t(5) by simp
  qed (use less(2) empty lone later busy in auto)
qed

lemma kick_keeps_frame: "kick_frame a st \<Longrightarrow> kick_frame a (midi_kick env st)"
  by (rule kick_rule [where J = "kick_frame a"]) (simp_all add: kick_frame_steps, simp add: kick_frame_def take_wait_def
    mstat_def Let_def midi_quiet_def)

text \<open>Order, and the timeline.\<close>

lemma sent_cong:
  "mi_in (midi_sendon st) = mi_in st" "mi_ring (midi_sendon st) = mi_ring st" "mi_head (midi_sendon st) = mi_head st"
  "mi_tail (midi_sendon st) = mi_tail st" "mi_timed (midi_sendon st) = mi_timed st" "mi_out (midi_sendon st) = mi_out st"
  "mi_snapped (midi_sendon st) = mi_snapped st" "mi_due_ms (midi_sendon st) = mi_due_ms st" "mi_start (midi_sendon st) = mi_start st"
  "mi_due (midi_sendon st) = mi_due st" "mi_now (midi_sendon st) = mi_now st" "mi_waiting (midi_sendon st) = mi_waiting st"
  "mi_in (midi_quiet st) = mi_in st" "mi_ring (midi_quiet st) = mi_ring st" "mi_head (midi_quiet st) = mi_head st"
  "mi_tail (midi_quiet st) = mi_tail st" "mi_timed (midi_quiet st) = mi_timed st" "mi_out (midi_quiet st) = mi_out st"
  "mi_snapped (midi_quiet st) = mi_snapped st" "mi_due_ms (midi_quiet st) = mi_due_ms st" "mi_start (midi_quiet st) = mi_start st"
  "mi_due (midi_quiet st) = mi_due st" "mi_now (midi_quiet st) = mi_now st" "mi_waiting (midi_quiet st) = mi_waiting st"
  by (simp_all add: midi_sendon_def midi_quiet_def)

definition stream_ok :: "bool \<Rightarrow> menv \<Rightarrow> midist \<Rightarrow> bool" where
  "stream_ok L env st \<longleftrightarrow> (\<exists>c. order_ok st c \<and> (L \<and> fits st \<longrightarrow> line_ok (m_hz env) st c))"

lemma stream_cong:
  "stream_ok L env st \<Longrightarrow> mi_in st' = mi_in st \<Longrightarrow> mi_ring st' = mi_ring st \<Longrightarrow> mi_head st' = mi_head st \<Longrightarrow> mi_tail st' = mi_tail st \<Longrightarrow>
    mi_timed st' = mi_timed st \<Longrightarrow> mi_out st' = mi_out st \<Longrightarrow> mi_snapped st' = mi_snapped st \<Longrightarrow> mi_due_ms st' = mi_due_ms st \<Longrightarrow>
    mi_start st' = mi_start st \<Longrightarrow> mi_due st' = mi_due st \<Longrightarrow> (L \<Longrightarrow> fits st' \<Longrightarrow> fits st) \<Longrightarrow> stream_ok L env st'"
  unfolding stream_ok_def using order_cong [of st _ st'] line_cong [of "m_hz env" st _ st'] by blast

lemma stream_wait:
  assumes "stream_ok L env st" "2 \<le> m_used st" "mi_timed st" "mi_ring st (mi_head st) = WAIT" "0 < m_hz env" "m_hz env \<le> 1000"
  shows "stream_ok L env (take_wait env st)"
proof -
  obtain c where c: "order_ok st c" "L \<and> fits st \<longrightarrow> line_ok (m_hz env) st c" using assms(1) by (auto simp: stream_ok_def)
  have "fits (take_wait env st) = fits st" by (rule kick_frame_fits) (intro kick_frame_steps kick_frame_refl)
  then show ?thesis
    using order_wait [OF c(1) assms(2-4)] line_wait [OF _ c(1) assms(2-4) _ assms(5,6)] c(2) unfolding stream_ok_def by blast
qed

lemma stream_send:
  assumes "stream_ok L env st" "mi_head st \<noteq> mi_tail st" "\<not> (mi_timed st \<and> mi_ring st (mi_head st) = WAIT)"
  shows "stream_ok L env (send_byte st)"
proof -
  obtain c where c: "order_ok st c" "L \<and> fits st \<longrightarrow> line_ok (m_hz env) st c" using assms(1) by (auto simp: stream_ok_def)
  have "fits (send_byte st) = fits st" by (rule kick_frame_fits) (intro kick_frame_steps kick_frame_refl)
  then show ?thesis
    using order_send [OF c(1) assms(2,3)] line_send [OF _ c(1) assms(3)] c(2) unfolding stream_ok_def by blast
qed

lemma kick_stream:
  assumes "stream_ok L env st" "0 < m_hz env" "m_hz env \<le> 1000"
  shows "stream_ok L env (midi_kick env st)"
proof (rule kick_rule [where J = "stream_ok L env", OF assms(1)], goal_cases)
  case (1 st)
  show ?case by (rule stream_cong [OF stream_wait [OF 1(1-4) assms(2,3)]]) (simp_all add: mstat_def fits_def)
next
  case (2 st)
  have "stream_ok L env (snd (rd_ctrl env st))" by (rule stream_cong [OF 2(1)]) (simp_all add: rd_ctrl_def fits_def)
  then have "stream_ok L env (send_byte (snd (rd_ctrl env st)))" using 2(2,3) by (intro stream_send) (simp_all add: rd_ctrl_def)
  then show ?case by (rule stream_cong) (simp_all add: sent_cong fits_def)
next
  case (3 st)
  show ?case by (rule stream_cong [OF 3(1)]) (simp_all add: sent_cong fits_def midi_wakeup_def)
next
  case (4 st)
  show ?case by (rule stream_cong [OF 4(1)]) (simp_all add: sent_cong fits_def)
next
  case (5 st st1)
  have "stream_ok L env st1" using stream_wait [OF 5(1-4) assms(2,3)] 5(5) by simp
  then show ?case by (rule stream_cong) (simp_all add: sent_cong fits_def)
next
  case (6 st)
  show ?case by (rule stream_cong [OF 6(1)]) (simp_all add: sent_cong fits_def rd_ctrl_def)
qed

section \<open>The whole driver keeps it\<close>

definition ctrl_inv :: "midist \<Rightarrow> bool" where
  "ctrl_inv st \<longleftrightarrow> (mi_open st \<longrightarrow> mi_ctrl st = (if mi_sending st then CR_SEND else CR_IDLE)) \<and>
     (\<not> mi_open st \<longrightarrow> \<not> mi_sending st \<and> \<not> mi_waiting st \<and> mi_proc st = Idle) \<and>
     (mi_waiting st \<longrightarrow> \<not> mi_sending st \<and> mi_tid st) \<and> (\<not> mi_waiting st \<longrightarrow> mi_wake_at st = None)"

definition minv :: "bool \<Rightarrow> menv \<Rightarrow> midist \<Rightarrow> bool" where
  "minv L env st \<longleftrightarrow> ctrl_inv st \<and> (mi_open st \<longrightarrow> stream_ok L env st \<and> (L \<longrightarrow> when_ok st)) \<and>
     (L \<longrightarrow> 0 \<le> mi_now st \<and> mi_now st \<le> 2 ^ 29)"

lemma kick_ctrl: "ctrl_inv st \<Longrightarrow> mi_open st \<Longrightarrow> \<not> mi_waiting st \<Longrightarrow> ctrl_inv (midi_kick env st)"
  by (rule kick_rule [where J = "\<lambda>s. ctrl_inv s \<and> mi_open s \<and> \<not> mi_waiting s"])
    (auto simp: ctrl_inv_def mstat_def take_wait_def Let_def midi_sendon_def midi_quiet_def send_byte_def rd_ctrl_def midi_wakeup_def)

lemma kick_when:
  assumes "when_ok st" "\<not> mi_waiting st" "0 \<le> mi_now st"
  shows "when_ok (midi_kick env st)"
proof (rule kick_rule [where J = "\<lambda>s. when_ok s \<and> \<not> mi_waiting s \<and> 0 \<le> mi_now s"], goal_cases)
  case 1
  then show ?case using assms by simp
next
  case (2 st)
  then show ?case by (simp add: when_ok_def mstat_def take_wait_def Let_def)
next
  case (3 st)
  then show ?case by (auto simp: when_ok_def sent_cong mstat_def send_byte_def rd_ctrl_def)
next
  case (4 st)
  then show ?case by (auto simp: when_ok_def sent_cong midi_wakeup_def)
next
  case (5 st)
  then show ?case by (auto simp: when_ok_def sent_cong)
next
  case (6 st st1)
  have f: "mi_now st1 = mi_now st" "mi_out st1 = mi_out st" "mi_due st1 < 2147483648"
    using 6(5) by (simp_all add: mstat_def take_wait_def Let_def)
  then have "s32 (mi_due st1 - mi_now st1) = mi_due st1 - mi_now st1" using 6(1,6) by (intro s32_id) simp_all
  then show ?case using f 6(1) by (simp add: when_ok_def sent_cong)
next
  case (7 st)
  then show ?case by (auto simp: when_ok_def sent_cong rd_ctrl_def)
qed

lemma kick_minv:
  assumes "minv L env st" "mi_open st" "\<not> mi_waiting st" "0 < m_hz env" "m_hz env \<le> 1000"
  shows "minv L env (midi_kick env st)"
proof -
  have "kick_frame st (midi_kick env st)" by (rule kick_keeps_frame [OF kick_frame_refl])
  then have "mi_now (midi_kick env st) = mi_now st" by (simp add: kick_frame_def)
  then show ?thesis
    using assms kick_ctrl [of st env] kick_when [of st env] kick_stream [of L env st] by (simp add: minv_def)
qed

text \<open>Changes of what the invariant does not speak of.\<close>

lemma minv_cong:
  "minv L env st \<Longrightarrow> mi_in st' = mi_in st \<Longrightarrow> mi_ring st' = mi_ring st \<Longrightarrow> mi_head st' = mi_head st \<Longrightarrow> mi_tail st' = mi_tail st \<Longrightarrow>
    mi_timed st' = mi_timed st \<Longrightarrow> mi_out st' = mi_out st \<Longrightarrow> mi_snapped st' = mi_snapped st \<Longrightarrow> mi_due_ms st' = mi_due_ms st \<Longrightarrow>
    mi_start st' = mi_start st \<Longrightarrow> mi_due st' = mi_due st \<Longrightarrow> mi_now st' = mi_now st \<Longrightarrow> mi_open st' = mi_open st \<Longrightarrow>
    mi_ctrl st' = mi_ctrl st \<Longrightarrow> mi_sending st' = mi_sending st \<Longrightarrow> mi_waiting st' = mi_waiting st \<Longrightarrow> mi_tid st' = mi_tid st \<Longrightarrow>
    mi_wake_at st' = mi_wake_at st \<Longrightarrow> (mi_open st \<or> mi_proc st' = mi_proc st \<or> mi_proc st' = Idle) \<Longrightarrow> minv L env st'"
  using stream_cong [of L env st st'] by (auto simp: minv_def ctrl_inv_def when_ok_def fits_def)

lemma mstat_minv: "minv L env st \<Longrightarrow> minv L env (mstat f st)"
  by (erule minv_cong) (simp_all add: mstat_def)

lemma answer_minv: "minv L env st \<Longrightarrow> minv L env (mi_answer r st)"
  by (erule minv_cong) (simp_all add: mi_answer_def)

lemma sleep_minv: "minv L env st \<Longrightarrow> mi_open st \<Longrightarrow> minv L env (mi_sleep p st)"
  by (erule minv_cong) (simp_all add: mi_sleep_def)

lemma rd_ctrl_minv: "minv L env st \<Longrightarrow> minv L env (snd (rd_ctrl env st))"
  by (erule minv_cong) (simp_all add: rd_ctrl_def)

lemma wait_ms_snoc: "wait_ms xs \<le> wait_ms (xs @ [b])"
proof (induction xs rule: wait_ms.induct)
  case (2 x)
  then show ?case by simp
next
  case (3 x n r)
  then show ?case by (cases r) simp_all
qed simp

lemma stream_put:
  assumes "stream_ok L env st" "m_used st < 8191" "0 < m_hz env" "m_hz env \<le> 1000"
  shows "stream_ok L env (ring_put b st)"
proof -
  obtain c where c: "order_ok st c" "L \<and> fits st \<longrightarrow> line_ok (m_hz env) st c" using assms(1) by (auto simp: stream_ok_def)
  have "order_ok (ring_put b st) c" using c(1) mqueue_put [OF assms(2), of b] by (simp add: order_ok_def ring_put_def)
  moreover have "fits (ring_put b st) \<Longrightarrow> fits st" using wait_ms_snoc [of "mi_in st" b] by (simp add: fits_def ring_put_def)
  moreover have "line_ok (m_hz env) st c \<Longrightarrow> line_ok (m_hz env) (ring_put b st) c"
    by (erule line_cong) (simp_all add: ring_put_def)
  ultimately show ?thesis using c(2) unfolding stream_ok_def by blast
qed

lemma puts_minv:
  assumes "0 < m_hz env" "m_hz env \<le> 1000"
  shows "minv L env st \<Longrightarrow> mi_open st \<Longrightarrow> m_used st + length bs \<le> 8191 \<Longrightarrow>
    minv L env (fold ring_put bs st) \<and> mi_open (fold ring_put bs st) \<and>
    mi_waiting (fold ring_put bs st) = mi_waiting st \<and> m_used (fold ring_put bs st) = m_used st + length bs"
proof (induction bs arbitrary: st)
  case (Cons b bs)
  have "minv L env (ring_put b st)"
    using Cons.prems stream_put [of L env st b] assms by (auto simp: minv_def ctrl_inv_def when_ok_def ring_put_def)
  moreover have "m_used (ring_put b st) = Suc (m_used st)" using Cons.prems(3) by (intro m_used_put) simp
  ultimately show ?case using Cons.IH [of "ring_put b st"] Cons.prems by (simp add: ring_put_def)
qed simp

lemma kick_open: "mi_open (midi_kick env st) = mi_open st" "mi_proc (midi_kick env st) = mi_proc st"
    "mi_now (midi_kick env st) = mi_now st" "mi_ticks (midi_kick env st) = mi_ticks st" "mi_hooked (midi_kick env st) = mi_hooked st"
  using kick_keeps_frame [OF kick_frame_refl, of st env] by (simp_all add: kick_frame_def)

lemma write_minv:
  "minv L env st \<Longrightarrow> mi_open st \<Longrightarrow> 0 < m_hz env \<Longrightarrow> m_hz env \<le> 1000 \<Longrightarrow> minv L env (midi_write_go env bs st)"
proof (induction env bs st rule: midi_write_go.induct)
  case (1 env bs st)
  let ?n = "min BOUNCE (length bs)"
  let ?st1 = "st\<lparr>mi_moves := Suc (mi_moves st)\<rparr>"
  define st2 where "st2 = fold ring_put (take ?n bs) ?st1"
  define st3 where "st3 = (if \<not> mi_sending st2 \<and> \<not> mi_waiting st2 then midi_kick env st2 else st2)"
  have m1: "minv L env ?st1" by (rule minv_cong [OF 1(2)]) simp_all
  show ?case
  proof (cases "bs = [] \<or> m_free st < int ?n \<or> m_fault env (mi_moves st)")
    case True
    then show ?thesis
      using 1(2,3) answer_minv [OF 1(2)] answer_minv [OF m1] sleep_minv [OF 1(2,3)]
      by (auto simp: midi_write_go.simps [of env bs st] Let_def)
  next
    case False
    moreover have "m_used ?st1 = m_used st" by (simp add: m_used_def)
    ultimately have "m_used ?st1 + length (take ?n bs) \<le> 8191" by (simp add: m_free_def RING_def)
    then have p: "minv L env st2 \<and> mi_open st2" using puts_minv [OF 1(4,5) m1] 1(3) by (simp add: st2_def)
    then have "minv L env st3 \<and> mi_open st3"
      using kick_minv [of L env st2] 1(4,5) by (simp add: st3_def kick_open)
    then have "minv L env (midi_write_go env (drop ?n bs) st3)" using 1(4,5) 1(1) [OF _ refl _ refl _ st2_def st3_def] False by simp
    moreover have "midi_write_go env bs st = midi_write_go env (drop ?n bs) st3"
      using False unfolding st3_def st2_def by (simp add: midi_write_go.simps [of env bs st] Let_def)
    ultimately show ?thesis by simp
  qed
qed

lemma quiet_minv:
  assumes "minv L env st"
  shows "minv L env (midi_quiet st)"
proof (cases "mi_sending st")
  case True
  have "stream_ok L env st \<Longrightarrow> stream_ok L env (st\<lparr>mi_ctrl := CR_IDLE, mi_sending := False\<rparr>)"
    by (erule stream_cong) (simp_all add: fits_def)
  then show ?thesis using assms True by (auto simp: midi_quiet_def minv_def ctrl_inv_def when_ok_def)
qed (use assms in \<open>simp add: midi_quiet_def\<close>)

lemma shut_minv: "minv L env st \<Longrightarrow> minv L env (midi_shut st)"
  by (auto simp: minv_def ctrl_inv_def midi_shut_def Let_def mi_answer_def midi_untime_def midi_quiet_def)

lemma close_minv: "minv L env st \<Longrightarrow> mi_open st \<Longrightarrow> minv L env (midi_close_go env t st)"
  by (simp add: midi_close_go_def shut_minv sleep_minv)

lemma drain_minv: "minv L env st \<Longrightarrow> mi_open st \<Longrightarrow> minv L env (midi_drain_go env t st)"
  by (simp add: midi_drain_go_def answer_minv sleep_minv)

text \<open>A new timeline with an empty ring.\<close>

lemma fresh_stream:
  assumes "mi_head st = mi_tail st" "mi_in st = []" "mi_out st = []" "mi_due_ms st = 0" "mi_due st = mi_start st"
    "L \<Longrightarrow> 0 \<le> mi_start st \<and> mi_start st \<le> 2 ^ 29"
  shows "stream_ok L env st"
proof -
  have "order_ok st []" using assms(1-3) mqueue_Nil [of st] by (simp add: order_ok_def)
  moreover have "L \<Longrightarrow> line_ok (m_hz env) st []"
    using assms by (simp add: line_ok_def ms_to_ticks_def cdiv_def s32_def)
  ultimately show ?thesis unfolding stream_ok_def by blast
qed

lemma flush_minv:
  assumes "minv L env st" "mi_open st"
  shows "minv L env (midi_flush st)"
proof -
  let ?st = "midi_flush st"
  have f: "mi_head ?st = mi_tail ?st" "mi_in ?st = []" "mi_out ?st = []" "mi_due_ms ?st = 0" "mi_due ?st = mi_start ?st"
    "mi_start ?st = mi_now st" "mi_now ?st = mi_now st" "\<not> mi_waiting ?st" "mi_due ?st = mi_now st" "mi_wake_at ?st = None"
    "\<not> mi_sending ?st" "mi_open ?st" "mi_ctrl ?st = CR_IDLE"
    using assms by (auto simp: midi_flush_def Let_def midi_untime_def midi_quiet_def midi_wakeup_def minv_def ctrl_inv_def)
  have "stream_ok L env ?st" using f assms(1) by (intro fresh_stream) (simp_all add: minv_def)
  then show ?thesis using f assms(1) by (auto simp: minv_def ctrl_inv_def when_ok_def)
qed

lemma open_minv:
  assumes "minv L env st"
  shows "minv L env (midiopen env m chr st)"
proof (cases "(m \<noteq> 0 \<and> m \<noteq> 1 \<or> \<not> chr) \<or> mi_open st")
  case False
  define st1 where "st1 = snd (rd_ctrl env (st\<lparr>mi_timed := (m = 1), mi_head := 0, mi_tail := 0, mi_sending := False, mi_waiting := False,
             mi_tid := False, mi_start := mi_now st, mi_due_ms := 0, mi_due := mi_now st, mi_st := mstats0,
             mi_ctrl := CR_IDLE, mi_in := [], mi_out := [], mi_snapped := False\<rparr>))"
  let ?st2 = "st1\<lparr>mi_hooked := True, mi_open := True, mi_ticks := Suc (mi_ticks st1)\<rparr>"
  have f: "mi_head ?st2 = mi_tail ?st2" "mi_in ?st2 = []" "mi_out ?st2 = []" "mi_due_ms ?st2 = 0" "mi_due ?st2 = mi_start ?st2"
    "mi_start ?st2 = mi_now st" "mi_now ?st2 = mi_now st" "\<not> mi_waiting ?st2" "mi_due ?st2 = mi_now st" "mi_wake_at ?st2 = None"
    "\<not> mi_sending ?st2" "mi_open ?st2" "mi_ctrl ?st2 = CR_IDLE"
    using assms False by (simp_all add: st1_def rd_ctrl_def minv_def ctrl_inv_def)
  have "stream_ok L env ?st2" using f assms by (intro fresh_stream) (simp_all add: minv_def)
  then have "minv L env ?st2" using f assms by (auto simp: minv_def ctrl_inv_def when_ok_def)
  then have "minv L env (mi_answer MOk ?st2)" by (rule answer_minv)
  moreover have "midiopen env m chr st = mi_answer MOk ?st2" using False by (auto simp: midiopen_def Let_def st1_def)
  ultimately show ?thesis by simp
qed (use answer_minv [OF assms] in \<open>auto simp: midiopen_def\<close>)

lemma ioctl_minv:
  assumes "minv L env st" "mi_open st"
  shows "minv L env (midiioctl env cmd st)"
proof -
  have "minv L env (st\<lparr>mi_moves := Suc (mi_moves st)\<rparr>)" by (rule minv_cong [OF assms(1)]) simp_all
  then show ?thesis
    using assms by (auto simp: midiioctl_def Let_def intro!: answer_minv flush_minv drain_minv mstat_minv)
qed

text \<open>The port interrupts only when its transmit interrupt is on, and never for bytes received.\<close>

definition acia_ok :: "menv \<Rightarrow> bool" where
  "acia_ok env \<longleftrightarrow> (\<forall>k. a_stat env CR_IDLE k AND S_IRQ = 0)"

definition menv_ok :: "menv \<Rightarrow> bool" where
  "menv_ok env \<longleftrightarrow> acia_ok env \<and> 0 < m_hz env \<and> m_hz env \<le> 1000"

lemma wake_minv:
  assumes "minv L env st" "mi_wake_at st = Some t" "t \<le> mi_now st" "menv_ok env"
  shows "minv L env (midi_wake env st)"
proof -
  let ?st1 = "st\<lparr>mi_waiting := False, mi_tid := False, mi_wake_at := None\<rparr>"
  have "stream_ok L env st \<Longrightarrow> stream_ok L env ?st1" by (erule stream_cong) (simp_all add: fits_def)
  then have "minv L env ?st1" using assms(1-3) by (auto simp: minv_def ctrl_inv_def when_ok_def)
  then show ?thesis
    using kick_minv [of L env ?st1] assms(4) by (simp add: midi_wake_def Let_def menv_ok_def)
qed

lemma ticks_minv: "minv L env st \<Longrightarrow> minv L env (st\<lparr>mi_ticks := n\<rparr>)"
  by (erule minv_cong) simp_all

lemma tick_minv:
  assumes "minv L env st" "menv_ok env"
  shows "minv L env (midi_tick env st)"
proof -
  let ?st1 = "st\<lparr>mi_ticks := mi_ticks st - 1\<rparr>"
  let ?st2 = "mstat (\<lambda>s. s\<lparr>mst_kicks := u32 (mst_kicks s + 1)\<rparr>) ?st1"
  have "minv L env ?st1" by (rule ticks_minv [OF assms(1)])
  moreover have "minv L env ?st2" by (rule mstat_minv [OF ticks_minv [OF assms(1)]])
  moreover have "mi_open ?st2 = mi_open st" "mi_waiting ?st2 = mi_waiting st" by (simp_all add: mstat_def)
  ultimately show ?thesis
    using kick_minv [of L env ?st2] assms by (auto simp: midi_tick_def Let_def menv_ok_def intro!: ticks_minv)
qed

lemma int_port_minv:
  assumes "minv L env st" "menv_ok env"
  shows "minv L env (int_port env st)"
proof -
  obtain b st1 where 1: "rd_ctrl env st = (b, st1)" by fastforce
  have m: "minv L env st1" using rd_ctrl_minv [OF assms(1)] 1 by simp
  have f: "mi_open st1 = mi_open st" "mi_waiting st1 = mi_waiting st" "b = a_stat env (mi_ctrl st) (mi_reads st)"
    using 1 by (auto simp: rd_ctrl_def)
  let ?st2 = "mstat (\<lambda>s. s\<lparr>mst_intrs := u32 (mst_intrs s + 1)\<rparr>) st1"
  have k: "minv L env (midi_kick env ?st2)" if "b AND S_IRQ \<noteq> 0" "mi_open st1"
  proof -
    have "mi_ctrl st \<noteq> CR_IDLE" using that(1) f(3) assms(2) by (auto simp: menv_ok_def acia_ok_def)
    then have "\<not> mi_waiting st1" using assms(1) f that(2) by (auto simp: minv_def ctrl_inv_def split: if_splits)
    then show ?thesis using kick_minv [OF mstat_minv [OF m]] that(2) assms(2) by (simp add: mstat_def menv_ok_def)
  qed
  have c: "minv L env ((snd (rd_ctrl env st1))\<lparr>mi_ctrl := CR_IDLE\<rparr>)" if "\<not> mi_open st1"
    using rd_ctrl_minv [OF m] that by (simp add: minv_def ctrl_inv_def rd_ctrl_def)
  show ?thesis using m k c by (simp add: int_port_def 1)
qed

lemma int_done_minv: "minv L env st \<Longrightarrow> minv L env (snd (int_done env st))"
  by (erule minv_cong) (auto simp: int_done_def rd_ctrl_def)

lemma midiint_minv:
  assumes "midiint env st = Some st'" "minv L env st" "menv_ok env"
  shows "minv L env st'"
proof -
  have "minv L e r" if "\<And>e s r. f e s = Some r \<Longrightarrow> minv L e s \<longrightarrow> menv_ok e \<longrightarrow> minv L e r" "minv L e s" "menv_ok e"
    "(case int_done e (int_port e s) of (q, st1) \<Rightarrow> if q then Some st1 else f e st1) = Some r" for f e s r
  proof -
    obtain q st1 where 2: "int_done e (int_port e s) = (q, st1)" by fastforce
    have "minv L e st1" using int_done_minv [OF int_port_minv [OF that(2,3)]] 2 by simp
    then show ?thesis using that 2 by (cases q) auto
  qed
  then show ?thesis
    using midiint.raw_induct [of "\<lambda>e s r. minv L e s \<longrightarrow> menv_ok e \<longrightarrow> minv L e r" env st st'] assms by blast
qed

lemma run_minv:
  assumes "minv L env st" "menv_ok env"
  shows "minv L env (midi_resume env st)" "minv L env (midi_signal st)"
proof -
  have "mi_proc st \<noteq> Idle \<Longrightarrow> mi_open st" using assms(1) by (auto simp: minv_def ctrl_inv_def)
  then show "minv L env (midi_resume env st)" "minv L env (midi_signal st)"
    using assms write_minv [of L env st] close_minv [of L env st] drain_minv [of L env st] shut_minv [of L env st] answer_minv [of L env st]
    by (auto simp: midi_resume_def midi_signal_def menv_ok_def split: mproc.split)
qed

text \<open>The clock does not reach the end of its range, if \<open>L\<close>.\<close>

inductive midi_reach :: "bool \<Rightarrow> menv \<Rightarrow> midist \<Rightarrow> bool" for L env where
  boot: "0 \<le> now \<Longrightarrow> now \<le> 2 ^ 29 \<Longrightarrow> midi_reach L env (midi_boot now)"
| step: "midi_reach L env st \<Longrightarrow> midi_step env ev st = Some st' \<Longrightarrow> (L \<Longrightarrow> 0 \<le> mi_now st' \<and> mi_now st' \<le> 2 ^ 29) \<Longrightarrow>
    midi_reach L env st'"

lemma clock_minv:
  assumes "minv L env st" "L \<Longrightarrow> 0 \<le> s32 (mi_now st + 1) \<and> s32 (mi_now st + 1) \<le> 2 ^ 29"
  shows "minv L env (st\<lparr>mi_now := s32 (mi_now st + 1)\<rparr>)"
proof -
  have n: "L \<Longrightarrow> s32 (mi_now st + 1) = mi_now st + 1 \<and> 0 \<le> mi_now st \<and> mi_now st \<le> 2 ^ 29"
    using assms(1) by (auto simp: minv_def intro!: s32_id)
  then have "stream_ok L env st \<Longrightarrow> stream_ok L env (st\<lparr>mi_now := s32 (mi_now st + 1)\<rparr>)"
    by (elim stream_cong) (simp_all add: fits_def)
  then show ?thesis using assms n by (auto simp: minv_def ctrl_inv_def when_ok_def)
qed

lemma step_minv:
  assumes "minv L env st" "menv_ok env" "midi_step env ev st = Some st'" "L \<Longrightarrow> 0 \<le> mi_now st' \<and> mi_now st' \<le> 2 ^ 29"
  shows "minv L env st'"
proof -
  have hz: "0 < m_hz env" "m_hz env \<le> 1000" using assms(2) by (simp_all add: menv_ok_def)
  show ?thesis
  proof (cases ev)
    case MClock
    then show ?thesis using assms clock_minv [OF assms(1)] by (auto simp: midi_step_def)
  next
    case MWake
    then show ?thesis
      using assms wake_minv [OF assms(1) _ _ assms(2)] by (auto simp: midi_step_def split: option.splits if_splits)
  next
    case MInt
    then show ?thesis using assms midiint_minv [of env st st' L] by (auto simp: midi_step_def split: if_splits)
  qed (use assms(1-3) hz open_minv [OF assms(1)] write_minv [OF assms(1)] close_minv [OF assms(1)] ioctl_minv [OF assms(1)]
      run_minv [OF assms(1,2)] tick_minv [OF assms(1,2)] in \<open>auto simp: midi_step_def split: if_splits\<close>)
qed

lemma boot_minv: "0 \<le> now \<Longrightarrow> now \<le> 2 ^ 29 \<Longrightarrow> minv L env (midi_boot now)"
  by (simp add: minv_def ctrl_inv_def midi_boot_def)

lemma reach_minv: "midi_reach L env st \<Longrightarrow> menv_ok env \<Longrightarrow> minv L env st"
proof (induction rule: midi_reach.induct)
  case (boot now)
  then show ?case by (intro boot_minv)
next
  case (step st ev st')
  then show ?case using step_minv [of L env st ev st'] by blast
qed

section \<open>Order and time\<close>

text \<open>
  C31. Whatever calls, interrupts, signals and ticks come in whatever order, the bytes sent since the
  device was opened or flushed are the bytes written, once each and in order, up to what is still
  in the ring; on the timed device without the wait commands, which are never sent.
\<close>

theorem midi_stream_order:
  assumes "midi_reach L env st" "menv_ok env" "mi_open st"
  shows "\<exists>c. mi_in st = c @ mqueue st \<and>
    map (snd \<circ> snd) (mi_out st) = (if mi_timed st then map snd (stamp 0 c) else c)"
  using reach_minv [OF assms(1,2)] assms(3) by (auto simp: minv_def stream_ok_def order_ok_def)

text \<open>
  C32. Nothing of a timed stream is sent early: each byte leaves when its wait is over, and as long as
  the timeline was not restarted that is the sum of the milliseconds of all waits written before it,
  in ticks from the stream's start. The uptime is below \<open>2 ^ 29\<close> ticks, the waits sum up to less than that.
\<close>

theorem midi_never_early:
  assumes "midi_reach True env st" "menv_ok env" "mi_open st" "mi_timed st"
  shows "(\<forall>(t, due, b) \<in> set (mi_out st). due \<le> t) \<and>
    (\<not> mi_snapped st \<and> wait_ms (mi_in st) \<le> 2 ^ 29 \<longrightarrow> (\<exists>c. mi_in st = c @ mqueue st \<and>
       map (\<lambda>(t, due, b). (due, b)) (mi_out st) =
         map (\<lambda>(ms, b). (mi_start st + ms_to_ticks (m_hz env) ms, b)) (stamp 0 c)))"
proof -
  note m = reach_minv [OF assms(1,2)]
  obtain c where c: "order_ok st c" "fits st \<longrightarrow> line_ok (m_hz env) st c" using m assms(3) by (auto simp: minv_def stream_ok_def)
  have "mi_in st = c @ mqueue st" using c(1) by (simp add: order_ok_def)
  then show ?thesis using m assms(3,4) c(2) by (auto simp: minv_def when_ok_def fits_def line_ok_def)
qed

section \<open>A wait without its count\<close>

definition lone_wait :: "mproc \<Rightarrow> midist \<Rightarrow> bool" where
  "lone_wait p st \<longleftrightarrow> mi_open st \<and> mi_timed st \<and> \<not> mi_sending st \<and> \<not> mi_waiting st \<and> mi_ctrl st = CR_IDLE \<and>
     m_used st = 1 \<and> mi_ring st (mi_head st) = WAIT \<and> mi_wake_at st = None \<and> mi_proc st = p \<and> p \<noteq> Idle \<and> \<not> mi_awake st"

lemma lone_kick: "lone_wait p st \<Longrightarrow> midi_kick env st = st"
  using m_used_0 [of st] by (simp add: midi_kick.simps [of env st] lone_wait_def midi_quiet_def)

lemma lone_stat: "lone_wait p (mstat f st) = lone_wait p st" "lone_wait p (st\<lparr>mi_ticks := n\<rparr>) = lone_wait p st"
    "lone_wait p (st\<lparr>mi_now := t\<rparr>) = lone_wait p st" "lone_wait p (st\<lparr>mi_reads := k\<rparr>) = lone_wait p st"
    "lone_wait p (st\<lparr>mi_reads := k, mi_kreads := j\<rparr>) = lone_wait p st"
  by (simp_all add: lone_wait_def mstat_def m_used_def)

lemma lone_int:
  assumes "midiint env st = Some st'" "lone_wait p st" "acia_ok env"
  shows "lone_wait p st'"
proof -
  have "lone_wait p r" if "\<And>e s r. f e s = Some r \<Longrightarrow> lone_wait p s \<longrightarrow> acia_ok e \<longrightarrow> lone_wait p r" "lone_wait p s" "acia_ok e"
    "(case int_done e (int_port e s) of (q, st1) \<Rightarrow> if q then Some st1 else f e st1) = Some r" for f e s r
  proof -
    obtain q st1 where 2: "int_done e (int_port e s) = (q, st1)" by fastforce
    have "a_stat e (mi_ctrl s) k AND S_IRQ = 0" for k using that(2,3) by (simp add: lone_wait_def acia_ok_def)
    then have "int_port e s = s\<lparr>mi_reads := Suc (mi_reads s)\<rparr>" by (simp add: int_port_def rd_ctrl_def)
    then have "lone_wait p st1" using 2 that(2) by (auto simp: int_done_def rd_ctrl_def lone_stat split: if_splits)
    then show ?thesis using that 2 by (cases q) auto
  qed
  then show ?thesis
    using midiint.raw_induct [of "\<lambda>e s r. lone_wait p s \<longrightarrow> acia_ok e \<longrightarrow> lone_wait p r" env st st'] assms by blast
qed

text \<open>
  C33. A wait command whose count is not in the ring stops the driver for good: a call that sleeps
  then, a write for room that there is or a close that gives the rest "a few seconds at most", is
  never woken by the clock, the interrupt or the driver's own tick; only a signal ends it.
\<close>

theorem midi_lone_wait_sleeps:
  assumes "lone_wait p st" "menv_ok env" "midi_step env ev st = Some st'" "ev \<noteq> MSignal"
  shows "lone_wait p st' \<and> m_free st' = 8190"
proof -
  have "lone_wait p st'"
  proof (cases ev)
    case MTick
    then show ?thesis
      using assms(1,3) lone_kick [of p "mstat (\<lambda>s. s\<lparr>mst_kicks := u32 (mst_kicks s + 1)\<rparr>) (st\<lparr>mi_ticks := mi_ticks st - 1\<rparr>)" env]
      by (auto simp: midi_step_def midi_tick_def Let_def lone_stat split: if_splits)
  next
    case MInt
    then show ?thesis using assms lone_int [of env st st'] by (auto simp: midi_step_def menv_ok_def split: if_splits)
  qed (use assms(1,3,4) in \<open>auto simp: midi_step_def lone_wait_def m_used_def split: if_splits\<close>)
  then show ?thesis by (simp add: m_free_def RING_def lone_wait_def)
qed

definition quiet_midi :: menv where
  "quiet_midi = \<lparr>a_stat = (\<lambda>_ _. 0), k_stat = (\<lambda>_. 0), m_fault = (\<lambda>_. False), m_hz = 128\<rparr>"

definition stuck_midi :: midist where
  "stuck_midi = midi_close_go quiet_midi 0 (midi_write_go quiet_midi [WAIT] (midiopen quiet_midi 1 True (midi_boot 0)))"

lemma stuck_midi: "lone_wait (Closing 0) stuck_midi" "mi_ticks stuck_midi = 1"
proof -
  define d0 where "d0 = midiopen quiet_midi 1 True (midi_boot 0)"
  have d0: "mi_head d0 = 0" "mi_tail d0 = 0" "mi_timed d0" "mi_open d0" "\<not> mi_sending d0" "\<not> mi_waiting d0" "mi_ctrl d0 = CR_IDLE"
    "mi_wake_at d0 = None" "mi_proc d0 = Idle" "mi_ticks d0 = 1" "m_used d0 = 0"
    by (simp_all add: d0_def midiopen_def Let_def mi_answer_def rd_ctrl_def midi_boot_def m_used_def)
  define w where "w = ring_put WAIT (d0\<lparr>mi_moves := Suc (mi_moves d0)\<rparr>)"
  have w: "mi_head w = 0" "mi_tail w = 1" "mi_timed w" "mi_open w" "\<not> mi_sending w" "\<not> mi_waiting w" "mi_ctrl w = CR_IDLE"
    "mi_wake_at w = None" "mi_ticks w = 1" "m_used w = 1" "mi_ring w 0 = WAIT"
    using d0 by (simp_all add: w_def ring_put_def m_used_def)
  have k: "midi_kick quiet_midi w = w"
    using w by (simp add: midi_kick.simps [of quiet_midi w] midi_quiet_def)
  have "\<not> m_fault quiet_midi n" for n by (simp add: quiet_midi_def)
  then have "midi_write_go quiet_midi [WAIT] d0 = mi_answer MOk w"
    using d0 k w by (simp add: midi_write_go.simps [of _ "[WAIT]"] midi_write_go.simps [of _ "[]"] Let_def m_free_def RING_def
        BOUNCE_def w_def [symmetric])
  then have sm: "stuck_midi = mi_sleep (Closing 0) (mi_answer MOk w)"
    using w by (simp add: stuck_midi_def d0_def [symmetric] midi_close_go_def mi_answer_def) (simp add: quiet_midi_def)
  show "lone_wait (Closing 0) stuck_midi" "mi_ticks stuck_midi = 1"
    unfolding sm using w by (simp_all add: lone_wait_def mi_sleep_def mi_answer_def m_used_def)
qed

lemma quiet_midi_ok: "menv_ok quiet_midi"
  by (simp add: menv_ok_def acia_ok_def quiet_midi_def)

theorem midi_lone_wait_sleeps_witness: "\<exists>st'. midi_step quiet_midi MTick stuck_midi = Some st' \<and> lone_wait (Closing 0) st'"
  using midi_lone_wait_sleeps [OF stuck_midi(1) quiet_midi_ok, of MTick] by (simp add: midi_step_def)

definition ready_midi :: menv where
  "ready_midi = \<lparr>a_stat = (\<lambda>_ _. 2), k_stat = (\<lambda>_. 0), m_fault = (\<lambda>_. False), m_hz = 128\<rparr>"

definition played_midi :: midist where
  "played_midi = midi_write_go ready_midi [0x90, WAIT, 0, 0x40, WAIT, 100, 0x7f] (midiopen ready_midi 1 True (midi_boot 0))"

lemma played_midi: "mi_out played_midi = [(0, 0, 0x90), (0, 0, 0x40)]" "mi_open played_midi" "mi_timed played_midi"
    "\<not> mi_snapped played_midi" "mi_now played_midi = 0" "mi_in played_midi = [0x90, WAIT, 0, 0x40, WAIT, 100, 0x7f]"
    "mi_start played_midi = 0" "ms_to_ticks (m_hz ready_midi) 0 = 0"
  by code_simp+

lemma ready_midi_ok: "menv_ok ready_midi"
  by (simp add: menv_ok_def acia_ok_def ready_midi_def S_IRQ_def)

lemma played_reach: "midi_reach L ready_midi played_midi"
proof -
  let ?st = "midiopen ready_midi 1 True (midi_boot 0)"
  have f: "mi_open ?st" "mi_now ?st = 0" "mi_proc ?st = Idle"
    by (simp_all add: midiopen_def Let_def mi_answer_def rd_ctrl_def midi_boot_def)
  have "midi_step ready_midi (MOpen 1 True) (midi_boot 0) = Some ?st" by (simp add: midi_step_def midi_boot_def)
  then have r: "midi_reach L ready_midi ?st" using midi_reach.step [OF midi_reach.boot [of 0 L ready_midi]] f(2) by simp
  have "midi_step ready_midi (MWrite [0x90, WAIT, 0, 0x40, WAIT, 100, 0x7f]) ?st = Some played_midi"
    using f by (simp add: midi_step_def played_midi_def)
  then show ?thesis using midi_reach.step [OF r] played_midi(5) by simp
qed

theorem midi_stream_order_witness:
  "\<exists>c. [0x90, WAIT, 0, 0x40, WAIT, 100, 0x7f] = c @ mqueue played_midi \<and> [0x90, 0x40] = map snd (stamp 0 c)"
  using midi_stream_order [OF played_reach [of False] ready_midi_ok] played_midi by simp

theorem midi_never_early_witness:
  "\<exists>c. [0x90, WAIT, 0, 0x40, WAIT, 100, 0x7f] = c @ mqueue played_midi \<and>
    [(0, 0x90), (0, 0x40)] = map (\<lambda>(ms, b). (mi_start played_midi + ms_to_ticks (m_hz ready_midi) ms, b)) (stamp 0 c)"
  using midi_never_early [OF played_reach ready_midi_ok] played_midi by (simp add: WAIT_def)

end
