(* ===== verification/Snd.thy ===== *)
theory Snd
  imports Prelude
begin

unbundle bit_operations_syntax

text \<open>
  The sound driver \<open>driver-snd/snd.c\<close>: the ring the DMA plays, the accounting of the tick, the chain
  of frames and its interrupt, and the calls of the process that has the device open. Positions in
  the ring are 16-bit words, as \<open>& (RING - 1)\<close> keeps them. Where the DMA is comes with each event
  that asks for it; what is programmed into its registers is part of the state.
\<close>

section \<open>State\<close>

definition S_RING :: int where "S_RING = 0x10000"
definition LEAD :: "16 word" where "LEAD = 512"
definition BLOCK :: int where "BLOCK = 1024"
definition SND_BOUNCE :: nat where "SND_BOUNCE = 1024"

lemmas snd_consts = S_RING_def LEAD_def BLOCK_def SND_BOUNCE_def

record snd_stats =
  sst_intrs :: int
  sst_skips :: int
  sst_late :: int
  sst_repeats :: int
  sst_fallbacks :: int

datatype serr = S_ENXIO | S_EBUSY | S_ENOMEM | S_EINTR | S_EFAULT | S_EINVAL | S_EPERM

record snd_diag =
  sd_phys :: int
  sd_base :: int
  sd_end :: int
  sd_count :: int
  sd_mwmask :: int
  sd_mwdata :: int
  sd_ctrl :: int
  sd_mode :: int
  sd_at :: "byte list"

datatype sret = SOk | SVal int | SStats snd_stats bool | SDiag snd_diag | SErr serr

datatype sproc = SIdle | SWriting "byte list" | SClosing nat | SDraining nat

text \<open>
  \<open>sn_base\<close>, \<open>sn_end\<close>: the frame the DMA plays next, as programmed; \<open>sn_play\<close>: the control register is
  set to play; \<open>sn_ta\<close>: Timer A counts frames; \<open>sn_mw\<close>: the commands sent to the LMC1992; \<open>sn_psg\<close>: the
  registers of the PSG set; \<open>sn_in\<close>: the bytes put into the ring since the device was opened.
\<close>

record sndst =
  sn_open :: bool
  sn_have :: bool
  sn_ring :: "16 word \<Rightarrow> byte"
  sn_phys :: int
  sn_mode :: int
  sn_wpos :: "16 word"
  sn_cpos :: "16 word"
  sn_filled :: int
  sn_gap :: int
  sn_tid :: bool
  sn_underruns :: int
  sn_volume :: int
  sn_chained :: bool
  sn_nextblk :: "16 word"
  sn_inwork :: bool
  sn_lastintrs :: int
  sn_quiet :: int
  sn_quietmax :: int
  sn_unchain_at :: "16 word"
  sn_st :: snd_stats
  sn_base :: int
  sn_end :: int
  sn_play :: bool
  sn_ta :: bool
  sn_modereg :: int
  sn_mw :: "int list"
  sn_psg :: "(int \<times> int) list"
  sn_in :: "byte list"
  sn_proc :: sproc
  sn_awake :: bool
  sn_moves :: nat
  sn_ret :: "sret list"

text \<open>
  \<open>s_fault k\<close>: the \<open>k\<close>-th copy from or to the user fails. \<open>s_reg k\<close>, \<open>s_mwregs k\<close> and \<open>s_pos k\<close>: what a snapshot of
  the registers before that copy finds, the byte at an offset, the two registers of the Microwire, and the play position.
\<close>

record senv =
  s_fault :: "nat \<Rightarrow> bool"
  s_reg :: "nat \<Rightarrow> nat \<Rightarrow> int"
  s_mwregs :: "nat \<Rightarrow> int \<times> int"
  s_pos :: "nat \<Rightarrow> 16 word"
  s_hertz :: int
  s_HZ :: int

definition sstat :: "(snd_stats \<Rightarrow> snd_stats) \<Rightarrow> sndst \<Rightarrow> sndst" where
  "sstat f st = st\<lparr>sn_st := f (sn_st st)\<rparr>"

text \<open>\<open>USED(a, b)\<close>: the bytes from \<open>a\<close> to \<open>b\<close>\<close>

definition s_used :: "16 word \<Rightarrow> 16 word \<Rightarrow> int" where
  "s_used a b = uint (b - a)"

definition s_room :: "sndst \<Rightarrow> int" where
  "s_room st = S_RING - 2 - sn_gap st - sn_filled st"

section \<open>The DMA\<close>

text \<open>The frame address counter, \<open>cnt k\<close> its \<open>k\<close>-th reading, read until two readings agree.\<close>

partial_function (option) snd_ppos :: "int \<Rightarrow> (nat \<Rightarrow> int) \<Rightarrow> nat \<Rightarrow> (16 word \<times> nat) option" where
  "snd_ppos phys cnt k =
    (if cnt k = cnt (Suc k) then Some (word_of_int (cnt k - phys), k + 2) else snd_ppos phys cnt (k + 2))"

text \<open>\<open>snd_setaddr\<close>: three bytes, the lowest bit dropped.\<close>

definition snd_setaddr :: "int \<Rightarrow> int" where
  "snd_setaddr a = ((drop_bit 16 a AND 0xff) * 65536 + (drop_bit 8 a AND 0xff) * 256 + (a AND 0xfe))"

definition snd_frame :: "int \<Rightarrow> int \<Rightarrow> sndst \<Rightarrow> sndst" where
  "snd_frame a b st = st\<lparr>sn_base := snd_setaddr a, sn_end := snd_setaddr b\<rparr>"

definition snd_mw :: "int \<Rightarrow> sndst \<Rightarrow> sndst" where
  "snd_mw c st = st\<lparr>sn_mw := sn_mw st @ [c]\<rparr>"

definition snd_mwinit :: "int \<Rightarrow> sndst \<Rightarrow> sndst" where
  "snd_mwinit v st = fold snd_mw [0x401, 0x4c0 OR v, 0x554, 0x514, 0x486, 0x446] st"

text \<open>The end of a frame: the block after next is queued; the work after that, which there is none of yet, is not nested.\<close>

definition intr_work :: "sndst \<Rightarrow> sndst" where
  "intr_work st =
    (if sn_inwork st then sstat (\<lambda>s. s\<lparr>sst_late := u32 (sst_late s + 1)\<rparr>) st
     else (st\<lparr>sn_inwork := True\<rparr>)\<lparr>sn_inwork := False\<rparr>)"

definition sndintr :: "16 word \<Rightarrow> sndst \<Rightarrow> sndst" where
  "sndintr p st =
    (if \<not> sn_open st \<or> \<not> sn_chained st then st
     else
       let st1 = sstat (\<lambda>s. s\<lparr>sst_intrs := u32 (sst_intrs s + 1)\<rparr>) st;
           st2 = (if s_used (sn_nextblk st1) p \<ge> BLOCK
                  then sstat (\<lambda>s. s\<lparr>sst_skips := u32 (sst_skips s + 1)\<rparr>) (st1\<lparr>sn_nextblk := p AND NOT 1023\<rparr>) else st1);
           nb = sn_nextblk st2 + 1024
       in intr_work ((snd_frame (sn_phys st2 + uint nb) (sn_phys st2 + uint nb + BLOCK) st2)\<lparr>sn_nextblk := nb\<rparr>))"

definition s_rates :: "int list" where "s_rates = [6258, 12517, 25033, 50066]"

definition snd_setquiet :: "senv \<Rightarrow> sndst \<Rightarrow> sndst" where
  "snd_setquiet env st =
    (let bps = s_rates ! nat (sn_mode st AND 3) * (if sn_mode st AND 0x80 \<noteq> 0 then 1 else 2)
     in st\<lparr>sn_quietmax := cdiv (2 * BLOCK * s_hertz env + bps - 1) bps + 2\<rparr>)"

definition snd_unchain :: "sndst \<Rightarrow> sndst" where
  "snd_unchain st =
    (let nb = sn_nextblk st + 1024
     in (snd_frame (sn_phys st + uint nb) (sn_phys st + S_RING) (st\<lparr>sn_chained := False, sn_ta := False\<rparr>))
          \<lparr>sn_unchain_at := nb\<rparr>)"

section \<open>The tick\<close>

text \<open>A block played again, the end of an unchaining, then what has played since the last tick.\<close>

definition tick_back :: "16 word \<Rightarrow> sndst \<Rightarrow> sndst" where
  "tick_back p st =
    (if (sn_chained st \<or> sn_unchain_at st \<noteq> 0) \<and> s_used (sn_cpos st) p > S_RING div 2
     then sstat (\<lambda>s. s\<lparr>sst_repeats := u32 (sst_repeats s + 1)\<rparr>)
            (st\<lparr>sn_gap := sn_gap st + s_used p (sn_cpos st), sn_cpos := p\<rparr>)
     else st)"

definition tick_last :: "16 word \<Rightarrow> sndst \<Rightarrow> sndst" where
  "tick_last p st =
    (if sn_unchain_at st \<noteq> 0 \<and> p \<ge> sn_unchain_at st
     then (snd_frame (sn_phys st) (sn_phys st + S_RING) st)\<lparr>sn_unchain_at := 0\<rparr> else st)"

definition ring_zero :: "16 word \<Rightarrow> int \<Rightarrow> (16 word \<Rightarrow> byte) \<Rightarrow> 16 word \<Rightarrow> byte" where
  "ring_zero a n r x = (if uint (x - a) < n then 0 else r x)"

definition tick_play :: "16 word \<Rightarrow> sndst \<Rightarrow> sndst" where
  "tick_play p st =
    (let n = s_used (sn_cpos st) p;
         st1 = st\<lparr>sn_ring := ring_zero (sn_cpos st) n (sn_ring st)\<rparr>;
         st2 = (if n > sn_gap st1 + sn_filled st1 then
                  (let w = (p + LEAD) AND NOT 1
                   in st1\<lparr>sn_underruns := (if sn_filled st1 \<noteq> 0 then s32 (sn_underruns st1 + 1) else sn_underruns st1),
                        sn_wpos := w, sn_gap := s_used p w, sn_filled := 0\<rparr>)
                else if n > sn_gap st1 then st1\<lparr>sn_filled := sn_filled st1 - (n - sn_gap st1), sn_gap := 0\<rparr>
                else st1\<lparr>sn_gap := sn_gap st1 - n\<rparr>)
     in st2\<lparr>sn_cpos := p\<rparr>)"

definition tick_chain :: "sndst \<Rightarrow> sndst" where
  "tick_chain st =
    (if \<not> sn_chained st then st
     else if sst_intrs (sn_st st) \<noteq> sn_lastintrs st then st\<lparr>sn_lastintrs := sst_intrs (sn_st st), sn_quiet := 0\<rparr>
     else
       let st1 = st\<lparr>sn_quiet := sn_quiet st + 1\<rparr>
       in if sn_quiet st1 > sn_quietmax st1
          then snd_unchain (sstat (\<lambda>s. s\<lparr>sst_fallbacks := u32 (sst_fallbacks s + 1)\<rparr>) st1) else st1)"

definition snd_tick :: "16 word \<Rightarrow> sndst \<Rightarrow> sndst" where
  "snd_tick p st = (tick_chain (tick_play p (tick_last p (tick_back p st))))\<lparr>sn_awake := True, sn_tid := sn_open st\<rparr>"

section \<open>Open, write, close, ioctl\<close>

definition sstats0 :: snd_stats where
  "sstats0 = \<lparr>sst_intrs = 0, sst_skips = 0, sst_late = 0, sst_repeats = 0, sst_fallbacks = 0\<rparr>"

definition snd_start :: "senv \<Rightarrow> sndst \<Rightarrow> sndst" where
  "snd_start env st =
    (let st1 = snd_setquiet env (st\<lparr>sn_play := False, sn_ring := (\<lambda>_. 0), sn_modereg := sn_mode st, sn_cpos := 0, sn_filled := 0,
           sn_wpos := LEAD, sn_gap := uint LEAD, sn_st := sstats0, sn_lastintrs := 0, sn_quiet := 0, sn_unchain_at := 0,
           sn_inwork := False, sn_in := []\<rparr>);
         st2 = (snd_frame (sn_phys st1) (sn_phys st1 + BLOCK) (st1\<lparr>sn_ta := True\<rparr>))\<lparr>sn_play := True\<rparr>
     in (snd_frame (sn_phys st2 + BLOCK) (sn_phys st2 + 2 * BLOCK) st2)\<lparr>sn_nextblk := 1024, sn_chained := True\<rparr>)"

text \<open>\<open>sndinit\<close> and \<open>sndstart\<close>: \<open>mem\<close> the physical address \<open>iomem_alloc\<close> gave, if any.\<close>

definition snd_boot :: "int option \<Rightarrow> sndst" where
  "snd_boot mem =
    (let phys = (case mem of None \<Rightarrow> 0 | Some a \<Rightarrow> a)
     in \<lparr>sn_open = False, sn_have = (mem \<noteq> None \<and> \<not> (phys + S_RING > 0x400000 \<or> phys AND 1 \<noteq> 0)), sn_ring = (\<lambda>_. 0),
          sn_phys = phys, sn_mode = 0x82, sn_wpos = 0, sn_cpos = 0, sn_filled = 0, sn_gap = 0, sn_tid = False, sn_underruns = 0,
          sn_volume = 40, sn_chained = False, sn_nextblk = 0, sn_inwork = False, sn_lastintrs = 0, sn_quiet = 0, sn_quietmax = 0,
          sn_unchain_at = 0, sn_st = sstats0, sn_base = 0, sn_end = 0, sn_play = False, sn_ta = False, sn_modereg = 0,
          sn_mw = [], sn_psg = [], sn_in = [], sn_proc = SIdle, sn_awake = True, sn_moves = 0, sn_ret = []\<rparr>)"

definition s_answer :: "sret \<Rightarrow> sndst \<Rightarrow> sndst" where
  "s_answer r st = st\<lparr>sn_ret := sn_ret st @ [r], sn_proc := SIdle\<rparr>"

definition s_sleep :: "sproc \<Rightarrow> sndst \<Rightarrow> sndst" where
  "s_sleep p st = st\<lparr>sn_proc := p, sn_awake := False\<rparr>"

definition sndopen :: "senv \<Rightarrow> int \<Rightarrow> bool \<Rightarrow> sndst \<Rightarrow> sndst" where
  "sndopen env m chr st =
    (if m \<noteq> 0 \<or> \<not> chr then s_answer (SErr S_ENXIO) st
     else if sn_open st then s_answer (SErr S_EBUSY) st
     else if \<not> sn_have st then s_answer (SErr S_ENOMEM) st
     else s_answer SOk ((snd_start env (snd_mwinit (sn_volume st) (st\<lparr>sn_open := True, sn_underruns := 0\<rparr>)))\<lparr>sn_tid := True\<rparr>))"

text \<open>The copy into the ring, up to its end at a time.\<close>

definition ring_copy :: "16 word \<Rightarrow> byte list \<Rightarrow> (16 word \<Rightarrow> byte) \<Rightarrow> 16 word \<Rightarrow> byte" where
  "ring_copy a bs r x = (if a \<le> x \<and> unat x < unat a + length bs then bs ! (unat x - unat a) else r x)"

function snd_copy :: "byte list \<Rightarrow> sndst \<Rightarrow> sndst" where
  "snd_copy bs st =
    (if bs = [] then st
     else
       let chunk = min (65536 - unat (sn_wpos st)) (length bs)
       in snd_copy (drop chunk bs) (st\<lparr>sn_ring := ring_copy (sn_wpos st) (take chunk bs) (sn_ring st),
            sn_wpos := sn_wpos st + of_nat chunk, sn_in := sn_in st @ take chunk bs\<rparr>))"
  by pat_completeness auto

termination
proof (relation "measure (\<lambda>(bs, st). length bs)", goal_cases)
  case (2 bs st chunk)
  have "unat (sn_wpos st) < 65536" using unsigned_less [of "sn_wpos st", where 'a = nat] by simp
  then show ?case using 2 by simp
qed simp

declare snd_copy.simps [simp del]

function snd_write_go :: "senv \<Rightarrow> byte list \<Rightarrow> sndst \<Rightarrow> sndst" where
  "snd_write_go env bs st =
    (if bs = [] then s_answer SOk st
     else
       let n = min SND_BOUNCE (length bs)
       in if s_room st < int n then s_sleep (SWriting bs) st
          else
            let st1 = st\<lparr>sn_moves := Suc (sn_moves st)\<rparr>
            in if s_fault env (sn_moves st) then s_answer (SErr S_EFAULT) st1
               else
                 let st2 = snd_copy (take n bs) st1
                 in snd_write_go env (drop n bs) (st2\<lparr>sn_filled := sn_filled st2 + int n\<rparr>))"
  by pat_completeness auto

termination
  by (relation "measure (\<lambda>(env, bs, st). length bs)") (auto simp: SND_BOUNCE_def)

declare snd_write_go.simps [simp del]

definition snd_shut :: "sndst \<Rightarrow> sndst" where
  "snd_shut st = s_answer SOk (st\<lparr>sn_play := False, sn_chained := False, sn_unchain_at := 0, sn_ta := False, sn_open := False,
     sn_tid := False\<rparr>)"

definition snd_close_go :: "senv \<Rightarrow> nat \<Rightarrow> sndst \<Rightarrow> sndst" where
  "snd_close_go env t st =
    (if sn_filled st > 0 \<and> int t < 5 * s_HZ env then s_sleep (SClosing t) st else snd_shut st)"

definition snd_drain_go :: "senv \<Rightarrow> nat \<Rightarrow> sndst \<Rightarrow> sndst" where
  "snd_drain_go env t st =
    (if sn_filled st > 0 \<and> int t < 30 * s_HZ env then s_sleep (SDraining t) st else s_answer SOk st)"

text \<open>The rate nearest to the one asked for, the first of two as near.\<close>

definition s_best :: "int \<Rightarrow> nat" where
  "s_best arg = fold (\<lambda>i best. if \<bar>arg - s_rates ! i\<bar> < \<bar>arg - s_rates ! best\<bar> then i else best) [1..<4] 0"

datatype scmd = SND_SETRATE | SND_SETSTEREO | SND_DRAIN | SND_GETSPACE | SND_GETDELAY | SND_GETRING | SND_SETVOLUME
  | SND_DIAG | SND_BEEP | SND_STATS | SND_TEST | SND_GETUNDERRUNS | SND_OTHER

text \<open>An address register of three bytes, two apart, and the snapshot of \<open>SND_DIAG\<close>.\<close>

definition snd_addr :: "(nat \<Rightarrow> int) \<Rightarrow> nat \<Rightarrow> int" where
  "snd_addr r a = push_bit 16 (r a) OR push_bit 8 (r (a + 2)) OR r (a + 4)"

definition snd_snapshot :: "senv \<Rightarrow> sndst \<Rightarrow> snd_diag" where
  "snd_snapshot env st =
    (let k = sn_moves st; r = s_reg env k; p = s_pos env k
     in \<lparr>sd_phys = sn_phys st, sd_base = snd_addr r 0x03, sd_end = snd_addr r 0x0f, sd_count = snd_addr r 0x09,
          sd_mwmask = fst (s_mwregs env k), sd_mwdata = snd (s_mwregs env k), sd_ctrl = r 0x01, sd_mode = r 0x21,
          sd_at = (if sn_have st then map (\<lambda>i. sn_ring st (p + of_nat i)) [0..<32] else replicate 32 0)\<rparr>)"

text \<open>The snapshot, the beep, the statistics, the test and the count of underruns; any other command is refused.\<close>

definition snd_ioctl_more :: "senv \<Rightarrow> bool \<Rightarrow> scmd \<Rightarrow> int \<Rightarrow> sndst \<Rightarrow> sndst" where
  "snd_ioctl_more env priv cmd arg st =
    (case cmd of
       SND_DIAG \<Rightarrow>
         if \<not> priv then s_answer (SErr S_EPERM) st
         else s_answer (if s_fault env (sn_moves st) then SErr S_EFAULT else SDiag (snd_snapshot env st))
           (st\<lparr>sn_moves := Suc (sn_moves st)\<rparr>)
     | SND_BEEP \<Rightarrow>
         if \<not> priv then s_answer (SErr S_EPERM) st
         else if arg < 1 \<or> arg > 5000 then s_answer (SErr S_EINVAL) st
         else s_answer SOk (st\<lparr>sn_psg := sn_psg st @ [(0, 284 AND 0xff), (1, drop_bit 8 284), (8, 15), (7, 0xfe), (8, 0), (7, 0xff)]\<rparr>)
     | SND_STATS \<Rightarrow>
         s_answer (if s_fault env (sn_moves st) then SErr S_EFAULT else SStats (sn_st st) (sn_chained st))
           (st\<lparr>sn_moves := Suc (sn_moves st)\<rparr>)
     | SND_TEST \<Rightarrow>
         if \<not> priv then s_answer (SErr S_EPERM) st
         else s_answer SOk (if arg = 1 then st\<lparr>sn_ta := False\<rparr> else st)
     | SND_GETUNDERRUNS \<Rightarrow> s_answer (SVal (sn_underruns st)) st
     | _ \<Rightarrow> s_answer (SErr S_EINVAL) st)"

definition sndioctl :: "senv \<Rightarrow> bool \<Rightarrow> scmd \<Rightarrow> int \<Rightarrow> sndst \<Rightarrow> sndst" where
  "sndioctl env priv cmd arg st =
    (case cmd of
       SND_SETRATE \<Rightarrow>
         let best = s_best arg; m = (sn_mode st AND 0x80) OR int best
         in s_answer (SVal (s_rates ! best)) (snd_setquiet env (st\<lparr>sn_mode := m, sn_modereg := m\<rparr>))
     | SND_SETSTEREO \<Rightarrow>
         let m = (sn_mode st AND 3) OR (if arg \<noteq> 0 then 0 else 0x80)
         in s_answer SOk (snd_setquiet env (st\<lparr>sn_mode := m, sn_modereg := m\<rparr>))
     | SND_DRAIN \<Rightarrow> snd_drain_go env 0 st
     | SND_GETSPACE \<Rightarrow> s_answer (SVal (s_room st)) st
     | SND_GETDELAY \<Rightarrow> s_answer (SVal (sn_gap st + sn_filled st)) st
     | SND_GETRING \<Rightarrow> s_answer (SVal S_RING) st
     | SND_SETVOLUME \<Rightarrow>
         if arg < 0 \<or> arg > 40 then s_answer (SErr S_EINVAL) st
         else s_answer SOk (snd_mw (0x4c0 OR arg) (st\<lparr>sn_volume := arg\<rparr>))
     | _ \<Rightarrow> snd_ioctl_more env priv cmd arg st)"

section \<open>The driver under events\<close>

datatype sevent = SOpen int bool | SWrite "byte list" | SClose | SIoctl bool scmd int | SRun | SSignal
  | STick "16 word" | SIntr "16 word"

definition snd_resume :: "senv \<Rightarrow> sndst \<Rightarrow> sndst" where
  "snd_resume env st =
    (case sn_proc st of
       SIdle \<Rightarrow> st
     | SWriting bs \<Rightarrow> snd_write_go env bs st
     | SClosing t \<Rightarrow> snd_close_go env (Suc t) st
     | SDraining t \<Rightarrow> snd_drain_go env (Suc t) st)"

definition snd_signal :: "sndst \<Rightarrow> sndst" where
  "snd_signal st =
    (case sn_proc st of SIdle \<Rightarrow> st | SClosing t \<Rightarrow> snd_shut st | _ \<Rightarrow> s_answer (SErr S_EINTR) st)"

definition snd_step :: "senv \<Rightarrow> sevent \<Rightarrow> sndst \<Rightarrow> sndst" where
  "snd_step env ev st =
    (case ev of
       SOpen m chr \<Rightarrow> if sn_proc st = SIdle then sndopen env m chr st else st
     | SWrite bs \<Rightarrow> if sn_proc st = SIdle \<and> sn_open st then snd_write_go env bs st else st
     | SClose \<Rightarrow> if sn_proc st = SIdle \<and> sn_open st then snd_close_go env 0 st else st
     | SIoctl priv cmd arg \<Rightarrow> if sn_proc st = SIdle \<and> sn_open st then sndioctl env priv cmd arg st else st
     | SRun \<Rightarrow> if sn_awake st then snd_resume env st else st
     | SSignal \<Rightarrow> if sn_awake st then st else snd_signal st
     | STick p \<Rightarrow> if sn_tid st then snd_tick p st else st
     | SIntr p \<Rightarrow> sndintr p st)"

end
