(* ===== verification/SndProps.thy ===== *)
theory SndProps
  imports Snd "HOL-Library.Sublist"
begin

unbundle bit_operations_syntax

text \<open>
  What the sound driver promises of its ring: silence, then what was written and has not played,
  then silence again, and frames that stay in the ring; and what a replayed block does to a full ring.
\<close>

section \<open>The content of the ring\<close>

definition cont :: "int \<Rightarrow> byte list \<Rightarrow> int \<Rightarrow> byte" where
  "cont g pend k = (if g \<le> k \<and> k < g + int (length pend) then pend ! nat (k - g) else 0)"

definition sinv :: "sndst \<Rightarrow> byte list \<Rightarrow> bool" where
  "sinv st pend \<longleftrightarrow> sn_filled st = int (length pend) \<and> 0 \<le> sn_gap st \<and> sn_gap st + sn_filled st \<le> 65534 \<and>
     sn_wpos st = sn_cpos st + word_of_int (sn_gap st + sn_filled st) \<and>
     (\<forall>x. sn_ring st x = cont (sn_gap st) pend (uint (x - sn_cpos st)))"

text \<open>The distance of a position from another start.\<close>

lemma uint16 [simp]: "uint (x :: 16 word) < 65536"
  using uint_lt2p [of x] by simp

lemma used_shift: "uint (x - b) = (uint (x - a) - uint (b - a)) mod 65536" for x :: "16 word"
proof -
  have "x - b = (x - a) - (b - a)" by simp
  then show ?thesis using uint_word_ariths(2) [of "x - a" "b - a"] by simp
qed

lemma used_shift_ge: "uint (b - a) \<le> uint (x - a) \<Longrightarrow> uint (x - b) = uint (x - a) - uint (b - a)" for x :: "16 word"
proof -
  assume l: "uint (b - a) \<le> uint (x - a)"
  have "0 \<le> uint (x - a) - uint (b - a)" "uint (x - a) - uint (b - a) < 65536"
    using l uint16 [of "x - a"] uint_ge_0 [of "b - a"] by linarith+
  then show ?thesis using used_shift [of x b a] by simp
qed

lemma used_shift_lt: "uint (x - a) < uint (b - a) \<Longrightarrow> uint (x - b) = uint (x - a) - uint (b - a) + 65536" for x :: "16 word"
proof -
  assume l: "uint (x - a) < uint (b - a)"
  have "0 \<le> uint (x - a) - uint (b - a) + 65536" "uint (x - a) - uint (b - a) + 65536 < 65536"
    using l uint16 [of "b - a"] uint_ge_0 [of "x - a"] by linarith+
  then have "(uint (x - a) - uint (b - a) + 65536) mod 65536 = uint (x - a) - uint (b - a) + 65536" by (rule mod_pos_pos_trivial)
  then show ?thesis using used_shift [of x b a] mod_add_self2 [of "uint (x - a) - uint (b - a)" 65536] by simp
qed

lemma ring_zero_cont:
  fixes x p c :: "16 word"
  assumes "\<forall>x. r x = cont g pend (uint (x - c))" "0 \<le> g" "g + int (length pend) \<le> 65534" "n = uint (p - c)"
  shows "n \<le> g \<Longrightarrow> ring_zero c n r x = cont (g - n) pend (uint (x - p))"
    "g < n \<Longrightarrow> n \<le> g + int (length pend) \<Longrightarrow> ring_zero c n r x = cont 0 (drop (nat (n - g)) pend) (uint (x - p))"
    "g + int (length pend) < n \<Longrightarrow> ring_zero c n r x = 0"
proof -
  define k where "k = uint (x - c)"
  define j where "j = uint (x - p)"
  have b: "0 \<le> k" "0 \<le> n" "k < 65536" "n < 65536" "r x = cont g pend k" by (simp_all add: k_def assms(1,4))
  have j: "k < n \<Longrightarrow> j = k - n + 65536" "n \<le> k \<Longrightarrow> j = k - n"
    using used_shift_ge [of p c x] used_shift_lt [of x c p] by (simp_all add: k_def j_def assms(4))
  have z: "ring_zero c n r x = (if k < n then 0 else cont g pend k)" by (simp add: ring_zero_def k_def assms(1))
  show "n \<le> g \<Longrightarrow> ring_zero c n r x = cont (g - n) pend (uint (x - p))"
    using j b assms(2,3) unfolding z j_def [symmetric] by (cases "k < n") (auto simp: cont_def)
  show "ring_zero c n r x = cont 0 (drop (nat (n - g)) pend) (uint (x - p))" if "g < n" "n \<le> g + int (length pend)"
  proof (cases "k < n")
    case True
    then show ?thesis using j b that assms(2,3) unfolding z j_def [symmetric] by (auto simp: cont_def)
  next
    case False
    have "nat (n - g) + nat (k - n) = nat (k - g)" using False that by simp
    then show ?thesis using False j b that assms(2,3) unfolding z j_def [symmetric] by (auto simp: cont_def)
  qed
  show "g + int (length pend) < n \<Longrightarrow> ring_zero c n r x = 0" unfolding z by (auto simp: cont_def)
qed

lemma and_not_mask: "x AND NOT (mask k) = x - take_bit k x" for x :: "'a::len word"
proof -
  have "x AND NOT (mask k) = push_bit k (drop_bit k x)" by (rule bit_eqI) (auto simp: bit_simps)
  then show ?thesis using bits_ident [of k x] by (simp add: eq_diff_eq)
qed

lemma lead_used: "0 \<le> uint (((p + LEAD) AND NOT 1) - p)" "uint (((p + LEAD) AND NOT 1) - p) \<le> 512" for p :: "16 word"
proof -
  have "(p + 512) AND NOT 1 = p + 512 - take_bit 1 (p + 512)" using and_not_mask [of "p + 512" 1] by (simp add: mask_1)
  then have "((p + LEAD) AND NOT 1) - p = 512 - of_bool (odd (p + 512))" by (simp add: LEAD_def take_bit_eq_mod mod2_eq_if)
  then show "uint (((p + LEAD) AND NOT 1) - p) \<le> 512" by (cases "odd (p + 512)") simp_all
qed simp

lemma cont_Nil: "cont g [] k = 0"
  by (auto simp: cont_def)

lemma cont_shift: "cont (g + m) pend (k + m) = cont g pend k"
  by (simp add: cont_def)

section \<open>The tick\<close>

lemma tick_play_short:
  assumes "sinv st pend" "n = uint (p - sn_cpos st)" "n \<le> sn_gap st"
  shows "sinv (tick_play p st) pend"
proof -
  have e: "tick_play p st = st\<lparr>sn_ring := ring_zero (sn_cpos st) n (sn_ring st), sn_gap := sn_gap st - n, sn_cpos := p\<rparr>"
    using assms by (auto simp: tick_play_def Let_def s_used_def sinv_def)
  have "\<forall>x. ring_zero (sn_cpos st) n (sn_ring st) x = cont (sn_gap st - n) pend (uint (x - p))"
    using assms ring_zero_cont(1) [of "sn_ring st" "sn_gap st" pend "sn_cpos st" n p] by (simp add: sinv_def)
  moreover have "word_of_int n = p - sn_cpos st" using assms(2) by simp
  then have "sn_cpos st + word_of_int (sn_gap st + sn_filled st) = p + word_of_int (sn_gap st - n + sn_filled st)"
    by (simp add: algebra_simps)
  moreover have "0 \<le> n" "sn_gap st - n + sn_filled st \<le> 65534"
    using assms(1) uint_ge_0 [of "p - sn_cpos st"] unfolding sinv_def assms(2) by linarith+
  ultimately show ?thesis using assms(1,3) unfolding e sinv_def by simp
qed

lemma tick_play_data:
  assumes "sinv st pend" "n = uint (p - sn_cpos st)" "sn_gap st < n" "n \<le> sn_gap st + sn_filled st"
  shows "sinv (tick_play p st) (drop (nat (n - sn_gap st)) pend)"
proof -
  have e: "tick_play p st = st\<lparr>sn_ring := ring_zero (sn_cpos st) n (sn_ring st), sn_filled := sn_filled st - (n - sn_gap st),
      sn_gap := 0, sn_cpos := p\<rparr>"
    using assms by (auto simp: tick_play_def Let_def s_used_def)
  have "\<forall>x. ring_zero (sn_cpos st) n (sn_ring st) x = cont 0 (drop (nat (n - sn_gap st)) pend) (uint (x - p))"
    using assms ring_zero_cont(2) [of "sn_ring st" "sn_gap st" pend "sn_cpos st" n p] by (simp add: sinv_def)
  moreover have "word_of_int n = p - sn_cpos st" using assms(2) by simp
  then have "sn_cpos st + word_of_int (sn_gap st + sn_filled st) = p + word_of_int (sn_filled st - (n - sn_gap st))"
    by (simp add: algebra_simps)
  ultimately show ?thesis using assms unfolding e sinv_def by simp
qed

lemma tick_play_dry:
  assumes "sinv st pend" "n = uint (p - sn_cpos st)" "sn_gap st + sn_filled st < n"
  shows "sinv (tick_play p st) [] \<and> 0 \<le> sn_gap (tick_play p st) \<and> sn_gap (tick_play p st) \<le> 512"
proof -
  let ?w = "(p + LEAD) AND NOT 1"
  have g: "sn_ring (tick_play p st) = ring_zero (sn_cpos st) n (sn_ring st)" "sn_filled (tick_play p st) = 0"
    "sn_gap (tick_play p st) = uint (?w - p)" "sn_wpos (tick_play p st) = ?w" "sn_cpos (tick_play p st) = p"
    using assms by (simp_all add: tick_play_def Let_def s_used_def)
  have "\<forall>x. ring_zero (sn_cpos st) n (sn_ring st) x = 0"
    using assms ring_zero_cont(3) [of "sn_ring st" "sn_gap st" pend "sn_cpos st" n p] by (simp add: sinv_def)
  moreover have "?w = p + word_of_int (uint (?w - p))" by simp
  ultimately show ?thesis using lead_used [of p] unfolding sinv_def g by (simp add: cont_Nil)
qed

lemma tick_back_ok:
  assumes "sinv st pend" "sn_gap st + sn_filled st + uint (sn_cpos st - p) \<le> 65534"
  shows "sinv (tick_back p st) pend"
proof (cases "(sn_chained st \<or> sn_unchain_at st \<noteq> 0) \<and> s_used (sn_cpos st) p > S_RING div 2")
  case True
  let ?m = "uint (sn_cpos st - p)"
  have e: "sn_ring (tick_back p st) = sn_ring st" "sn_gap (tick_back p st) = sn_gap st + ?m" "sn_cpos (tick_back p st) = p"
    "sn_wpos (tick_back p st) = sn_wpos st" "sn_filled (tick_back p st) = sn_filled st"
    using True by (simp_all add: tick_back_def sstat_def s_used_def)
  have "sn_ring st x = cont (sn_gap st + ?m) pend (uint (x - p))" for x
  proof -
    have r: "sn_ring st x = cont (sn_gap st) pend (uint (x - sn_cpos st))" using assms(1) by (simp add: sinv_def)
    have g: "0 \<le> sn_gap st" "int (length pend) = sn_filled st" using assms(1) by (auto simp: sinv_def)
    show ?thesis
    proof (cases "?m \<le> uint (x - p)")
      case True
      then have k: "uint (x - sn_cpos st) = uint (x - p) - ?m" by (rule used_shift_ge)
      then have "uint (x - p) = uint (x - sn_cpos st) + ?m" by simp
      then show ?thesis unfolding r by (simp only: cont_shift)
    next
      case False
      then have "uint (x - sn_cpos st) = uint (x - p) - ?m + 65536" by (intro used_shift_lt) simp
      then show ?thesis using r False g assms(2) uint_ge_0 [of "x - p"] by (auto simp: cont_def)
    qed
  qed
  moreover have "word_of_int ?m = sn_cpos st - p" by simp
  then have "sn_wpos st = p + word_of_int (sn_gap st + ?m + sn_filled st)"
    using assms(1) by (simp add: sinv_def algebra_simps)
  ultimately show ?thesis using assms uint_ge_0 [of "sn_cpos st - p"] unfolding sinv_def e by simp
qed (use assms in \<open>auto simp: tick_back_def\<close>)

text \<open>What the other parts of the tick, and the interrupt, leave of the ring's accounting.\<close>

definition acct where "acct st = (sn_filled st, sn_gap st, sn_wpos st, sn_cpos st, sn_ring st)"

lemma sinv_acct: "acct a = acct b \<Longrightarrow> sinv a pend = sinv b pend"
  by (simp add: acct_def sinv_def)

lemma acct_same: "acct (tick_last p st) = acct st" "acct (tick_chain st) = acct st" "acct (sndintr p st) = acct st"
    "acct (snd_setquiet env st) = acct st" "acct (s_answer r st) = acct st" "acct (s_sleep q st) = acct st"
    "acct (snd_mw c st) = acct st"
  by (auto simp: acct_def tick_last_def tick_chain_def sndintr_def intr_work_def snd_frame_def Let_def snd_unchain_def sstat_def snd_setquiet_def
      s_answer_def s_sleep_def snd_mw_def)

section \<open>Writing\<close>

lemma ring_copy_rel:
  assumes "unat a + length bs \<le> 65536"
  shows "ring_copy a bs r x = (if uint (x - a) < int (length bs) then bs ! nat (uint (x - a)) else r x)"
proof (cases "a \<le> x")
  case True
  then have d: "uint (x - a) = int (unat x) - int (unat a)"
    using used_shift_ge [of a 0 x] by (simp add: word_le_def)
  then have "uint (x - a) < int (length bs) \<longleftrightarrow> unat x < unat a + length bs" "nat (uint (x - a)) = unat x - unat a"
    by linarith+
  then show ?thesis using True unfolding ring_copy_def by simp
next
  case False
  then have "uint (x - a) = int (unat x) - int (unat a) + 65536"
    using used_shift_lt [of x 0 a] by (simp add: word_le_def)
  then have "\<not> uint (x - a) < int (length bs)" using assms by linarith
  then show ?thesis using False unfolding ring_copy_def by simp
qed

lemma snd_copy_spec:
  "length bs < 65536 \<Longrightarrow>
    sn_ring (snd_copy bs st) = (\<lambda>x. if uint (x - sn_wpos st) < int (length bs) then bs ! nat (uint (x - sn_wpos st)) else sn_ring st x) \<and>
    sn_wpos (snd_copy bs st) = sn_wpos st + of_nat (length bs) \<and> sn_in (snd_copy bs st) = sn_in st @ bs"
proof (induction bs st rule: snd_copy.induct)
  case (1 bs st)
  show ?case
  proof (cases "bs = []")
    case False
    define c where "c = min (65536 - unat (sn_wpos st)) (length bs)"
    let ?st1 = "st\<lparr>sn_ring := ring_copy (sn_wpos st) (take c bs) (sn_ring st), sn_wpos := sn_wpos st + of_nat c,
      sn_in := sn_in st @ take c bs\<rparr>"
    have e: "snd_copy bs st = snd_copy (drop c bs) ?st1" using False by (simp add: snd_copy.simps [of bs st] Let_def c_def)
    have c: "c \<le> length bs" "unat (sn_wpos st) + length (take c bs) \<le> 65536" "c < 65536"
      using 1(2) unsigned_less [of "sn_wpos st", where 'a = nat] by (auto simp: c_def)
    have u: "uint (of_nat c :: 16 word) = int c" using c(3) by (simp add: uint_nat unat_of_nat)
    have r: "(if uint (x - (sn_wpos st + of_nat c)) < int (length (drop c bs)) then drop c bs ! nat (uint (x - (sn_wpos st + of_nat c)))
        else ring_copy (sn_wpos st) (take c bs) (sn_ring st) x) =
      (if uint (x - sn_wpos st) < int (length bs) then bs ! nat (uint (x - sn_wpos st)) else sn_ring st x)" for x
    proof (cases "int c \<le> uint (x - sn_wpos st)")
      case True
      then have "uint (x - (sn_wpos st + of_nat c)) = uint (x - sn_wpos st) - int c"
        using used_shift_ge [of "sn_wpos st + of_nat c" "sn_wpos st" x] u by simp
      moreover have "c \<le> nat (uint (x - sn_wpos st))" using True by linarith
      ultimately show ?thesis using True c by (auto simp: ring_copy_rel nat_diff_distrib)
    next
      case False
      then have "uint (x - (sn_wpos st + of_nat c)) = uint (x - sn_wpos st) - int c + 65536"
        using used_shift_lt [of x "sn_wpos st" "sn_wpos st + of_nat c"] u by simp
      moreover define k where "k = uint (x - sn_wpos st)"
      moreover have k: "0 \<le> k" by (simp add: k_def)
      moreover have F: "k < int c" using False by (simp add: k_def)
      moreover have "int (length (drop c bs)) = int (length bs) - int c" using c(1) by simp
      then have "nat k < c" "k < int (length bs)" "\<not> k - int c + 65536 < int (length (drop c bs))"
        using F c(1) k 1(2) by linarith+
      ultimately show ?thesis using c(1) ring_copy_rel [OF c(2), of "sn_ring st" x] by simp
    qed
    have l: "length (drop c bs) < 65536" using 1(2) by simp
    have sel: "sn_wpos ?st1 = sn_wpos st + of_nat c" "sn_in ?st1 = sn_in st @ take c bs"
      "sn_ring ?st1 = ring_copy (sn_wpos st) (take c bs) (sn_ring st)" by simp_all
    have n: "sn_wpos st + of_nat c + of_nat (length (drop c bs)) = sn_wpos st + of_nat (length bs)"
      using c(1) by (simp flip: of_nat_add add: add.assoc)
    from 1(1) [OF False c_def l, unfolded sel n r] show ?thesis unfolding e by simp
  qed (simp add: snd_copy.simps [of "[]"])
qed

definition copy_keep where
  "copy_keep st = (sn_gap st, sn_cpos st, sn_filled st, sn_open st, sn_phys st, sn_base st, sn_end st, sn_nextblk st, sn_have st,
     sn_tid st, sn_ret st)"

lemma snd_copy_keep: "copy_keep (snd_copy bs st) = copy_keep st"
proof (induction bs st rule: snd_copy.induct)
  case (1 bs st)
  show ?case
  proof (cases "bs = []")
    case False
    then show ?thesis using 1 [OF False refl] by (simp add: snd_copy.simps [of bs st] Let_def copy_keep_def)
  next
    case True
    then show ?thesis by (simp add: snd_copy.simps [of "[]"])
  qed
qed

lemma snd_copy_frame:
  "sn_gap (snd_copy bs st) = sn_gap st" "sn_cpos (snd_copy bs st) = sn_cpos st" "sn_filled (snd_copy bs st) = sn_filled st"
  "sn_open (snd_copy bs st) = sn_open st" "sn_phys (snd_copy bs st) = sn_phys st" "sn_base (snd_copy bs st) = sn_base st"
  "sn_end (snd_copy bs st) = sn_end st" "sn_nextblk (snd_copy bs st) = sn_nextblk st"
  "sn_have (snd_copy bs st) = sn_have st" "sn_tid (snd_copy bs st) = sn_tid st"
  "sn_ret (snd_copy bs st) = sn_ret st"
  using snd_copy_keep [of bs st] by (simp_all add: copy_keep_def)

lemma cont_append:
  assumes "f = g + int (length pend)" "0 \<le> g"
  shows "cont g (pend @ bs) k = (if f \<le> k \<and> k < f + int (length bs) then bs ! nat (k - f) else cont g pend k)"
proof (cases "g \<le> k")
  case True
  have "nat (k - g) < length pend \<longleftrightarrow> k < f" using True assms by linarith
  moreover have "f \<le> k \<Longrightarrow> nat (k - g) - length pend = nat (k - f)" using True assms by linarith
  ultimately show ?thesis using True assms by (auto simp: cont_def nth_append)
qed (use assms in \<open>simp add: cont_def\<close>)

lemma copy_sinv:
  assumes "sinv st pend" "sn_gap st + sn_filled st + int (length bs) \<le> 65534"
  shows "sinv ((snd_copy bs st)\<lparr>sn_filled := sn_filled st + int (length bs)\<rparr>) (pend @ bs)"
proof -
  define f where "f = sn_gap st + sn_filled st"
  have i: "sn_filled st = int (length pend)" "0 \<le> sn_gap st" "sn_wpos st = sn_cpos st + word_of_int f"
    "\<forall>x. sn_ring st x = cont (sn_gap st) pend (uint (x - sn_cpos st))"
    using assms(1) by (simp_all add: sinv_def f_def)
  have f: "0 \<le> f" "f + int (length bs) \<le> 65534" using i(1,2) assms(2) by (simp_all add: f_def)
  have u: "uint (sn_wpos st - sn_cpos st) = f" using f by (simp add: i(3) uint_word_of_int)
  have l: "length bs < 65536" using f by simp
  note C = snd_copy_spec [OF l, of st]
  have fr: "sn_gap (snd_copy bs st) = sn_gap st" "sn_cpos (snd_copy bs st) = sn_cpos st"
    by (simp_all add: snd_copy_frame)
  have "(if uint (x - sn_wpos st) < int (length bs) then bs ! nat (uint (x - sn_wpos st)) else sn_ring st x) =
      cont (sn_gap st) (pend @ bs) (uint (x - sn_cpos st))" for x
  proof -
    define k where "k = uint (x - sn_cpos st)"
    define j where "j = uint (x - sn_wpos st)"
    have "j = (if f \<le> k then k - f else k - f + 65536)" "0 \<le> k" "k < 65536"
      using used_shift_ge [of "sn_wpos st" "sn_cpos st" x] used_shift_lt [of x "sn_cpos st" "sn_wpos st"] u
      by (simp_all add: k_def j_def)
    moreover have "f = sn_gap st + int (length pend)" using i(1) by (simp add: f_def)
    ultimately show ?thesis
      using f i(2) i(4) [rule_format, of x, folded k_def] cont_append [of f "sn_gap st" pend bs k]
      unfolding k_def [symmetric] j_def [symmetric] by simp
  qed
  moreover have "sn_wpos st + of_nat (length bs) = sn_cpos st + word_of_int (sn_gap st + (sn_filled st + int (length bs)))"
    by (simp add: i(3) f_def algebra_simps)
  ultimately show ?thesis using C i f by (simp add: sinv_def fr f_def)
qed

text \<open>A write puts a part of its bytes behind those still to play: all of them, or as many as there was
  room for, or up to the piece that could not be read.\<close>

definition wrote :: "byte list \<Rightarrow> nat \<Rightarrow> sndst \<Rightarrow> sndst \<Rightarrow> bool" where
  "wrote bs k st st' \<longleftrightarrow> sn_in st' = sn_in st @ take k bs \<and>
     (k = length bs \<and> sn_ret st' = sn_ret st @ [SOk] \<and> sn_proc st' = SIdle \<or>
      k < length bs \<and> sn_ret st' = sn_ret st \<and> sn_proc st' = SWriting (drop k bs) \<and> \<not> sn_awake st' \<and> s_room st' < 1024 \<or>
      k < length bs \<and> sn_ret st' = sn_ret st @ [SErr S_EFAULT] \<and> sn_proc st' = SIdle)"

lemma write_spec:
  assumes "sinv st pend"
  shows "\<exists>k. sinv (snd_write_go env bs st) (pend @ take k bs) \<and> wrote bs k st (snd_write_go env bs st)"
  using assms
proof (induction env bs st arbitrary: pend rule: snd_write_go.induct)
  case (1 env bs st)
  define n where "n = min SND_BOUNCE (length bs)"
  let ?st1 = "st\<lparr>sn_moves := Suc (sn_moves st)\<rparr>"
  define st2 where "st2 = snd_copy (take n bs) ?st1"
  let ?st3 = "st2\<lparr>sn_filled := sn_filled st2 + int n\<rparr>"
  consider "bs = []" | "bs \<noteq> []" "s_room st < int n" | "bs \<noteq> []" "\<not> s_room st < int n" "s_fault env (sn_moves st)"
    | "bs \<noteq> []" "\<not> s_room st < int n" "\<not> s_fault env (sn_moves st)" by blast
  then show ?case
  proof cases
    case 1
    then show ?thesis using \<open>sinv st pend\<close>
      by (intro exI [of _ 0]) (simp add: snd_write_go.simps [of env "[]"] wrote_def s_answer_def sinv_def)
  next
    case 2
    then have "snd_write_go env bs st = s_sleep (SWriting bs) st" by (simp add: snd_write_go.simps [of env bs st] n_def)
    moreover have "s_room st < 1024" using 2 by (simp add: n_def SND_BOUNCE_def)
    ultimately show ?thesis using \<open>sinv st pend\<close> 2(1)
      by (intro exI [of _ 0]) (simp add: wrote_def s_sleep_def sinv_def s_room_def)
  next
    case 3
    then have "snd_write_go env bs st = s_answer (SErr S_EFAULT) ?st1" by (simp add: snd_write_go.simps [of env bs st] n_def)
    then show ?thesis using \<open>sinv st pend\<close> 3(1) by (intro exI [of _ 0]) (simp add: wrote_def s_answer_def sinv_def)
  next
    case 4
    have e: "snd_write_go env bs st = snd_write_go env (drop n bs) ?st3"
      using 4 by (simp add: snd_write_go.simps [of env bs st] n_def st2_def Let_def)
    have n: "n \<le> length bs" "int (length (take n bs)) = int n" by (simp_all add: n_def)
    have "sinv ?st1 pend" "sn_gap ?st1 + sn_filled ?st1 + int (length (take n bs)) \<le> 65534"
      using "1.prems" 4(2) by (simp_all add: sinv_def s_room_def S_RING_def n(2))
    from copy_sinv [OF this] have i: "sinv ?st3 (pend @ take n bs)" unfolding st2_def n(2) by (simp add: snd_copy_frame)
    have "length (take n bs) < 65536" by (simp add: n_def SND_BOUNCE_def)
    from snd_copy_spec [OF this, of ?st1] have j: "sn_in ?st3 = sn_in st @ take n bs" "sn_ret ?st3 = sn_ret st"
      by (simp_all add: st2_def snd_copy_frame)
    from "1.IH" [OF 4(1) n_def 4(2) refl 4(3) st2_def i] obtain k where
      k: "sinv (snd_write_go env bs st) ((pend @ take n bs) @ take k (drop n bs))"
         "wrote (drop n bs) k ?st3 (snd_write_go env bs st)" unfolding e by blast
    have t: "take n bs @ take k (drop n bs) = take (n + k) bs" by (simp add: take_add)
    have "wrote bs (n + k) st (snd_write_go env bs st)"
      using k(2) n(1) unfolding wrote_def j by (auto simp: t add.commute)
    then show ?thesis using k(1) by (intro exI [of _ "n + k"]) (simp add: t)
  qed
qed

section \<open>The driver under events\<close>

text \<open>The frame the DMA plays next lies in the ring, and the queue of blocks stays on block borders.\<close>

definition frames_in :: "sndst \<Rightarrow> bool" where
  "frames_in st \<longleftrightarrow> sn_phys st \<le> sn_base st \<and> sn_base st < sn_end st \<and> sn_end st \<le> sn_phys st + 65536 \<and>
     uint (sn_nextblk st) mod 1024 = 0"

definition phys_ok :: "int \<Rightarrow> bool" where
  "phys_ok a \<longleftrightarrow> 0 \<le> a \<and> even a \<and> a + 65536 \<le> 0x400000"

definition snd_inv :: "sndst \<Rightarrow> bool" where
  "snd_inv st \<longleftrightarrow> (sn_tid st \<longrightarrow> sn_open st) \<and> (sn_have st \<longrightarrow> phys_ok (sn_phys st)) \<and> (sn_proc st \<noteq> SIdle \<longrightarrow> sn_open st) \<and>
     (sn_open st \<longrightarrow> sn_have st \<and> frames_in st \<and> (\<exists>pend. sinv st pend \<and> suffix pend (sn_in st)))"

text \<open>A replayed stretch still fits between what is queued and the play position.\<close>

definition snd_fits :: "16 word \<Rightarrow> sndst \<Rightarrow> bool" where
  "snd_fits p st \<longleftrightarrow> ((sn_chained st \<or> sn_unchain_at st \<noteq> 0) \<and> s_used (sn_cpos st) p > S_RING div 2 \<longrightarrow>
     s_used p (sn_cpos st) \<le> s_room st)"

inductive snd_reach :: "senv \<Rightarrow> sndst \<Rightarrow> bool" for env where
  boot: "(\<And>a. mem = Some a \<Longrightarrow> 0 \<le> a) \<Longrightarrow> snd_reach env (snd_boot mem)"
| step: "snd_reach env st \<Longrightarrow> (\<And>p. ev = STick p \<Longrightarrow> snd_fits p st) \<Longrightarrow> snd_reach env (snd_step env ev st)"

lemma setaddr_id:
  assumes "0 \<le> a" "a < 16777216" "even a"
  shows "snd_setaddr a = a"
proof -
  have m: "(255 :: int) = mask 8" "254 = mask 8 AND NOT (mask 1 :: int)" by (simp_all add: mask_eq_exp_minus_1)
  have "take_bit 8 a AND NOT (mask 1) = take_bit 8 a"
    by (rule bit_eqI) (use assms(3) in \<open>auto simp: bit_simps bit_0\<close>)
  then have l: "a AND 254 = a mod 256" unfolding m
    by (simp add: and.assoc [symmetric] take_bit_eq_mask [symmetric] take_bit_eq_mod)
  have "0 \<le> a div 65536" "a div 65536 < 256" using assms by linarith+
  then have h: "drop_bit 16 a AND 255 = a div 65536" unfolding m
    by (simp add: take_bit_eq_mask [symmetric] take_bit_eq_mod drop_bit_eq_div)
  have "drop_bit 8 a AND 255 = (a div 256) mod 256" unfolding m
    by (simp add: take_bit_eq_mask [symmetric] take_bit_eq_mod drop_bit_eq_div)
  moreover have "a div 65536 = a div 256 div 256" using zdiv_zmult2_eq [of 256 a 256] by simp
  ultimately show ?thesis
    using div_mult_mod_eq [of a 256] div_mult_mod_eq [of "a div 256" 256] unfolding snd_setaddr_def l h by linarith
qed

lemma frame_ok:
  assumes "phys_ok (sn_phys st)" "0 \<le> a" "a < b" "b \<le> 65536" "even a" "even b"
  shows "sn_base (snd_frame (sn_phys st + a) (sn_phys st + b) st) = sn_phys st + a"
    "sn_end (snd_frame (sn_phys st + a) (sn_phys st + b) st) = sn_phys st + b"
  using assms by (auto simp: snd_frame_def phys_ok_def intro!: setaddr_id)

lemma frame_frame: "sn_phys (snd_frame a b st) = sn_phys st" "sn_nextblk (snd_frame a b st) = sn_nextblk st"
  by (simp_all add: snd_frame_def)

lemma block_next:
  assumes "uint (b :: 16 word) mod 1024 = 0"
  shows "uint (b + 1024) mod 1024 = 0" "uint (b + 1024) \<le> 64512" "even (uint (b + 1024))"
proof -
  have "uint (b + 1024) = (uint b + 1024) mod 65536" by (simp add: uint_word_ariths)
  moreover have "(uint b + 1024) mod 65536 mod 1024 = (uint b + 1024) mod 1024" by (rule mod_mod_cancel) simp
  ultimately show m: "uint (b + 1024) mod 1024 = 0" using assms by simp
  then obtain q where q: "uint (b + 1024) = 1024 * q" by (metis dvd_eq_mod_eq_0 dvd_def)
  then show "even (uint (b + 1024))" by simp
  have "q < 64" using q uint16 [of "b + 1024"] by linarith
  then show "uint (b + 1024) \<le> 64512" using q by linarith
qed

lemma block_start: "uint (p AND NOT 1023) mod 1024 = 0" for p :: "16 word"
proof -
  have m: "(1023 :: 16 word) = mask 10" by (simp add: mask_eq_exp_minus_1)
  have "take_bit 10 (p AND NOT (mask 10)) = 0" by (rule bit_eqI) (auto simp: bit_simps)
  then have "take_bit 10 (uint (p AND NOT 1023)) = 0" unfolding m by (metis unsigned_take_bit_eq uint_0_eq)
  then show ?thesis by (simp add: take_bit_eq_mod)
qed

lemma work_frames: "frames_in (intr_work st) = frames_in st"
  by (simp add: intr_work_def frames_in_def sstat_def)

lemma intr_frames:
  assumes "frames_in st" "phys_ok (sn_phys st)"
  shows "frames_in (sndintr p st)"
proof -
  define st1 where "st1 = sstat (\<lambda>s. s\<lparr>sst_intrs := u32 (sst_intrs s + 1)\<rparr>) st"
  define st2 where "st2 = (if s_used (sn_nextblk st1) p \<ge> BLOCK
    then sstat (\<lambda>s. s\<lparr>sst_skips := u32 (sst_skips s + 1)\<rparr>) (st1\<lparr>sn_nextblk := p AND NOT 1023\<rparr>) else st1)"
  have s: "sn_phys st2 = sn_phys st" "uint (sn_nextblk st2) mod 1024 = 0"
    using assms(1) block_start [of p] by (auto simp: st2_def st1_def sstat_def frames_in_def)
  note B = block_next [OF s(2)]
  let ?b = "uint (sn_nextblk st2 + 1024)"
  have "0 \<le> ?b" "?b < ?b + 1024" "?b + 1024 \<le> 65536" "even (?b + 1024)" using B by simp_all
  note F = frame_ok [of st2, unfolded s(1), OF assms(2) this(1-3) B(3) this(4)]
  have "frames_in ((snd_frame (sn_phys st2 + ?b) (sn_phys st2 + ?b + BLOCK) st2)\<lparr>sn_nextblk := sn_nextblk st2 + 1024\<rparr>)"
    using F B by (simp add: frames_in_def s(1) BLOCK_def frame_frame add.assoc)
  moreover have "sndintr p st = (if \<not> sn_open st \<or> \<not> sn_chained st then st
      else intr_work ((snd_frame (sn_phys st2 + ?b) (sn_phys st2 + ?b + BLOCK) st2)\<lparr>sn_nextblk := sn_nextblk st2 + 1024\<rparr>))"
    by (simp add: sndintr_def Let_def st1_def st2_def)
  ultimately show ?thesis using assms(1) by (simp add: work_frames)
qed

lemma unchain_frames:
  assumes "frames_in st" "phys_ok (sn_phys st)"
  shows "frames_in (snd_unchain st)"
proof -
  note B = block_next [of "sn_nextblk st"]
  have s: "uint (sn_nextblk st) mod 1024 = 0" using assms(1) by (simp add: frames_in_def)
  let ?b = "uint (sn_nextblk st + 1024)"
  let ?st = "st\<lparr>sn_chained := False, sn_ta := False\<rparr>"
  have p: "phys_ok (sn_phys ?st)" "0 \<le> ?b" "?b < 65536" using assms(2) by simp_all
  note F = frame_ok [OF p order_refl B(3) [OF s]]
  show ?thesis using F p(2,3) s by (simp add: snd_unchain_def Let_def frames_in_def S_RING_def frame_frame)
qed

lemma last_frames:
  assumes "frames_in st" "phys_ok (sn_phys st)"
  shows "frames_in (tick_last p st)"
  using assms frame_ok [of st 0 65536] by (simp add: tick_last_def frames_in_def S_RING_def frame_frame)

definition geom where "geom st = (sn_phys st, sn_base st, sn_end st, sn_nextblk st)"

lemma frames_geom: "geom a = geom b \<Longrightarrow> frames_in a = frames_in b"
  by (simp add: geom_def frames_in_def)

lemma geom_same: "geom (tick_back p st) = geom st" "geom (tick_play p st) = geom st"
    "geom (snd_setquiet env st) = geom st" "geom (s_answer r st) = geom st" "geom (s_sleep q st) = geom st" "geom (snd_mw c st) = geom st"
    "geom (sn_quiet_update f st) = geom st" "geom (sn_lastintrs_update f' st) = geom st" "geom (sstat h st) = geom st"
    "geom (sn_awake_update f'' st) = geom st" "geom (sn_tid_update f'' st) = geom st"
  by (simp_all add: geom_def tick_back_def tick_play_def Let_def sstat_def snd_setquiet_def s_answer_def s_sleep_def snd_mw_def)

lemma chain_frames:
  assumes "frames_in st" "phys_ok (sn_phys st)"
  shows "frames_in (tick_chain st)"
proof -
  let ?st = "sstat (\<lambda>s. s\<lparr>sst_fallbacks := u32 (sst_fallbacks s + 1)\<rparr>) (st\<lparr>sn_quiet := sn_quiet st + 1\<rparr>)"
  have "frames_in ?st" using assms(1) frames_geom [of ?st st] by (simp add: geom_same)
  moreover have "phys_ok (sn_phys ?st)" using assms(2) by (simp add: sstat_def)
  ultimately have "frames_in (snd_unchain ?st)" by (rule unchain_frames)
  then show ?thesis using assms(1) by (auto simp: tick_chain_def Let_def frames_in_def)
qed

lemma tick_frames:
  assumes "frames_in st" "phys_ok (sn_phys st)"
  shows "frames_in (snd_tick p st)" "sn_phys (snd_tick p st) = sn_phys st"
proof -
  let ?a = "tick_last p (tick_back p st)"
  have p: "sn_phys (tick_back p st) = sn_phys st" "sn_phys ?a = sn_phys st" "sn_phys (tick_play p ?a) = sn_phys st"
    by (simp_all add: tick_back_def tick_last_def tick_play_def Let_def sstat_def snd_frame_def)
  have "frames_in (tick_back p st)" using assms(1) frames_geom [OF geom_same(1)] by simp
  then have "frames_in ?a" using last_frames p assms(2) by simp
  then have "frames_in (tick_play p ?a)" using frames_geom [OF geom_same(2)] by simp
  then have "frames_in (tick_chain (tick_play p ?a))" using chain_frames p assms(2) by simp
  then show "frames_in (snd_tick p st)" by (simp add: snd_tick_def frames_in_def)
  show "sn_phys (snd_tick p st) = sn_phys st"
    using p(3) by (simp add: snd_tick_def tick_chain_def Let_def sstat_def snd_unchain_def snd_frame_def)
qed

definition kept where "kept st = (sn_open st, sn_have st, sn_in st, sn_proc st)"

lemma tick_play_acct: "acct a = acct b \<Longrightarrow> acct (tick_play p a) = acct (tick_play p b)"
  by (simp add: acct_def tick_play_def Let_def)

lemma kept_back: "kept (tick_back p st) = kept st" and kept_last: "kept (tick_last p st) = kept st"
    and kept_play: "kept (tick_play p st) = kept st" and kept_chain: "kept (tick_chain st) = kept st"
  by (simp_all add: kept_def tick_back_def tick_last_def tick_play_def tick_chain_def Let_def sstat_def snd_unchain_def snd_frame_def)

lemma kept_tick: "kept (snd_tick p st) = kept st" "sn_tid (snd_tick p st) = sn_open st" "acct (snd_tick p st) = acct (tick_play p (tick_back p st))"
proof -
  define t where "t = tick_chain (tick_play p (tick_last p (tick_back p st)))"
  have s: "snd_tick p st = t\<lparr>sn_awake := True, sn_tid := sn_open st\<rparr>" by (simp add: snd_tick_def t_def)
  have k: "kept t = kept st" by (simp add: t_def kept_back kept_last kept_play kept_chain)
  then show "kept (snd_tick p st) = kept st" "sn_tid (snd_tick p st) = sn_open st" by (simp_all add: s kept_def)
  have "acct t = acct (tick_play p (tick_back p st))"
    unfolding t_def by (simp only: acct_same(2) tick_play_acct [OF acct_same(1)])
  then show "acct (snd_tick p st) = acct (tick_play p (tick_back p st))" by (simp add: s acct_def)
qed

lemma sinv_pend: "sinv st pend \<Longrightarrow> int (length pend) = sn_filled st" "sinv st pend \<Longrightarrow> 0 \<le> sn_filled st"
  by (simp_all add: sinv_def)

lemma play_queue:
  assumes "sinv st pend"
  shows "sinv (tick_play p st) (drop (nat (s_used (sn_cpos st) p - sn_gap st)) pend)"
proof -
  let ?n = "uint (p - sn_cpos st)"
  consider "?n \<le> sn_gap st" | "sn_gap st < ?n" "?n \<le> sn_gap st + sn_filled st" | "sn_gap st + sn_filled st < ?n" by linarith
  then show ?thesis
  proof cases
    case 1 then show ?thesis using tick_play_short [OF assms refl] by (simp add: s_used_def)
  next
    case 2 then show ?thesis using tick_play_data [OF assms refl] by (simp add: s_used_def)
  next
    case 3 then show ?thesis using tick_play_dry [OF assms refl] sinv_pend [OF assms] by (simp add: s_used_def)
  qed
qed

lemma tick_queue:
  assumes "sinv st pend" "snd_fits p st"
  shows "\<exists>k. sinv (snd_tick p st) (drop k pend)"
proof -
  have "sinv (tick_back p st) pend"
  proof (cases "(sn_chained st \<or> sn_unchain_at st \<noteq> 0) \<and> s_used (sn_cpos st) p > S_RING div 2")
    case True
    then have "sn_gap st + sn_filled st + uint (sn_cpos st - p) \<le> 65534"
      using assms(2) by (simp add: snd_fits_def s_room_def s_used_def S_RING_def)
    then show ?thesis by (rule tick_back_ok [OF assms(1)])
  qed (use assms(1) in \<open>auto simp: tick_back_def\<close>)
  from play_queue [OF this] show ?thesis using sinv_acct [OF kept_tick(3)] by blast
qed

lemma tick_inv:
  assumes "snd_inv st" "sn_tid st" "snd_fits p st"
  shows "snd_inv (snd_tick p st)"
proof -
  from assms(1,2) obtain pend where o: "sn_open st" "sn_have st" "frames_in st" "sinv st pend" "suffix pend (sn_in st)"
    "phys_ok (sn_phys st)" by (auto simp: snd_inv_def)
  from tick_queue [OF o(4) assms(3)] obtain k where "sinv (snd_tick p st) (drop k pend)" ..
  moreover have "suffix (drop k pend) (sn_in st)" using o(5) suffix_drop suffix_order.trans by blast
  ultimately show ?thesis
    using o tick_frames [OF o(3,6), of p] kept_tick(1,2) [of p st] unfolding snd_inv_def kept_def by auto
qed

lemma write_inv:
  assumes "snd_inv st" "sn_open st"
  shows "snd_inv (snd_write_go env bs st)"
proof -
  from assms obtain pend where o: "sn_have st" "frames_in st" "sinv st pend" "suffix pend (sn_in st)"
    "phys_ok (sn_phys st)" by (auto simp: snd_inv_def)
  from write_spec [OF o(3)] obtain k where
    k: "sinv (snd_write_go env bs st) (pend @ take k bs)" "wrote bs k st (snd_write_go env bs st)" by blast
  have "suffix (pend @ take k bs) (sn_in (snd_write_go env bs st))" using k(2) o(4) by (auto simp: wrote_def suffix_def)
  moreover have "geom (snd_write_go env bs st) = geom st \<and> sn_open (snd_write_go env bs st) = sn_open st \<and>
      sn_have (snd_write_go env bs st) = sn_have st \<and> sn_tid (snd_write_go env bs st) = sn_tid st"
  proof (induction env bs st rule: snd_write_go.induct)
    case (1 env bs st)
    then show ?case
      by (subst (1 2 3 4) snd_write_go.simps) (simp add: Let_def geom_def s_answer_def s_sleep_def snd_copy_frame)
  qed
  ultimately show ?thesis using o k(1) assms frames_geom [of "snd_write_go env bs st" st] unfolding snd_inv_def
    by (auto simp: geom_def)
qed

lemma boot_inv:
  assumes "\<And>a. mem = Some a \<Longrightarrow> 0 \<le> a"
  shows "snd_inv (snd_boot mem)"
  using assms by (cases mem) (auto simp: snd_boot_def snd_inv_def phys_ok_def S_RING_def and_one_eq odd_iff_mod_2_eq_one)

text \<open>What leaves the ring, the frames and the open flag alone keeps the invariant, while a waiting
  process has the device open.\<close>

lemma inv_cong:
  assumes "snd_inv a" "acct b = acct a" "geom b = geom a" "sn_open b = sn_open a" "sn_have b = sn_have a" "sn_in b = sn_in a"
    "sn_tid b = sn_tid a" "sn_proc b \<noteq> SIdle \<longrightarrow> sn_open b"
  shows "snd_inv b"
  using assms frames_geom [OF assms(3)] sinv_acct [OF assms(2)] unfolding snd_inv_def by (auto simp: geom_def)

lemma answer_inv: "snd_inv st \<Longrightarrow> snd_inv (s_answer r st)"
  by (erule inv_cong) (simp_all add: acct_def geom_def s_answer_def)

lemma sleep_inv: "snd_inv st \<Longrightarrow> sn_open st \<Longrightarrow> snd_inv (s_sleep q st)"
  by (erule inv_cong) (simp_all add: acct_def geom_def s_sleep_def)

lemma shut_inv: "snd_inv st \<Longrightarrow> snd_inv (snd_shut st)"
  by (simp add: snd_inv_def snd_shut_def s_answer_def)

lemma mwinit_same: "acct (snd_mwinit v st) = acct st \<and> geom (snd_mwinit v st) = geom st \<and> sn_have (snd_mwinit v st) = sn_have st \<and>
    sn_open (snd_mwinit v st) = sn_open st"
  by (simp add: snd_mwinit_def acct_def geom_def snd_mw_def)

lemma start_inv:
  assumes "phys_ok (sn_phys st)" "sn_have st" "sn_open st"
  shows "snd_inv (s_answer SOk ((snd_start env st)\<lparr>sn_tid := True\<rparr>))"
proof -
  let ?s = "s_answer SOk ((snd_start env st)\<lparr>sn_tid := True\<rparr>)"
  have a: "sn_ring ?s = (\<lambda>_. 0)" "sn_gap ?s = 512" "sn_filled ?s = 0" "sn_wpos ?s = 512" "sn_cpos ?s = 0" "sn_in ?s = []"
    by (simp_all add: snd_start_def Let_def s_answer_def snd_frame_def snd_setquiet_def LEAD_def)
  have "snd_setaddr (sn_phys st + 1024) = sn_phys st + 1024" "snd_setaddr (sn_phys st + 2048) = sn_phys st + 2048"
    using assms(1) by (auto simp: phys_ok_def intro!: setaddr_id)
  then have b: "sn_base ?s = sn_phys st + 1024" "sn_end ?s = sn_phys st + 2048" "sn_nextblk ?s = 1024" "sn_phys ?s = sn_phys st"
    by (simp_all add: snd_start_def Let_def s_answer_def snd_frame_def snd_setquiet_def BLOCK_def)
  have c: "sn_have ?s" "sn_open ?s" "sn_proc ?s = SIdle" using assms(2,3)
    by (simp_all add: snd_start_def Let_def s_answer_def snd_frame_def snd_setquiet_def)
  have "sinv ?s []" unfolding sinv_def a by (simp add: cont_Nil)
  then show ?thesis using assms(1) unfolding snd_inv_def b frames_in_def a(6) by (simp add: c)
qed

lemma open_inv:
  assumes "snd_inv st" "sn_proc st = SIdle"
  shows "snd_inv (sndopen env m chr st)"
proof (cases "\<not> (m \<noteq> 0 \<or> \<not> chr) \<and> \<not> sn_open st \<and> sn_have st")
  case True
  let ?s = "snd_mwinit (sn_volume st) (st\<lparr>sn_open := True, sn_underruns := 0\<rparr>)"
  have "phys_ok (sn_phys ?s)" "sn_have ?s" "sn_open ?s"
    using True assms(1) mwinit_same [of "sn_volume st" "st\<lparr>sn_open := True, sn_underruns := 0\<rparr>"]
    by (auto simp: snd_inv_def geom_def)
  from start_inv [OF this] show ?thesis using True by (simp add: sndopen_def)
qed (use answer_inv [OF assms(1)] in \<open>auto simp: sndopen_def\<close>)

lemma ioctl_inv:
  assumes "snd_inv st" "sn_open st"
  shows "snd_inv (sndioctl env priv cmd arg st)"
proof -
  have q: "snd_inv (snd_setquiet env (st\<lparr>sn_mode := m, sn_modereg := m\<rparr>))" for m
    using assms(1) by (rule inv_cong) (use assms in \<open>simp_all add: snd_setquiet_def Let_def acct_def geom_def\<close>)
  have p: "snd_inv (st\<lparr>sn_psg := x\<rparr>)" "snd_inv (st\<lparr>sn_ta := y\<rparr>)" "snd_inv (st\<lparr>sn_moves := z\<rparr>)"
    "snd_inv (snd_mw c (st\<lparr>sn_volume := arg\<rparr>))" for x y z c
    using assms by (simp_all add: snd_inv_def snd_mw_def sinv_def frames_in_def)
  show ?thesis
    by (cases cmd) (use assms answer_inv sleep_inv q p in \<open>simp_all add: sndioctl_def snd_ioctl_more_def Let_def snd_drain_go_def\<close>)
qed

lemma step_inv:
  assumes "snd_inv st" "\<And>p. ev = STick p \<Longrightarrow> snd_fits p st"
  shows "snd_inv (snd_step env ev st)"
proof (cases ev)
  case (SOpen m chr) then show ?thesis using open_inv assms(1) by (simp add: snd_step_def)
next
  case (SWrite bs) then show ?thesis using write_inv assms(1) by (simp add: snd_step_def)
next
  case SClose
  then show ?thesis using shut_inv sleep_inv assms(1) by (simp add: snd_step_def snd_close_go_def)
next
  case (SIoctl priv cmd arg) then show ?thesis using ioctl_inv assms(1) by (simp add: snd_step_def)
next
  case SRun
  have "sn_proc st \<noteq> SIdle \<Longrightarrow> sn_open st" using assms(1) by (simp add: snd_inv_def)
  then show ?thesis using SRun assms(1) write_inv shut_inv sleep_inv answer_inv
    by (auto simp: snd_step_def snd_resume_def snd_close_go_def snd_drain_go_def split: sproc.splits)
next
  case SSignal
  then show ?thesis using assms(1) shut_inv answer_inv by (auto simp: snd_step_def snd_signal_def split: sproc.splits)
next
  case (STick p) then show ?thesis using assms tick_inv by (simp add: snd_step_def)
next
  case (SIntr p)
  have "kept (sndintr p st) = kept st" "sn_tid (sndintr p st) = sn_tid st" "sn_phys (sndintr p st) = sn_phys st"
    by (simp_all add: kept_def sndintr_def intr_work_def snd_frame_def Let_def sstat_def)
  moreover have "sn_open st \<Longrightarrow> frames_in (sndintr p st)" using assms(1) intr_frames by (simp add: snd_inv_def)
  ultimately show ?thesis using SIntr assms(1) sinv_acct [OF acct_same(3) [of p st]]
    by (auto simp: snd_step_def snd_inv_def kept_def)
qed

lemma reach_inv: "snd_reach env st \<Longrightarrow> snd_inv st"
  by (induction rule: snd_reach.induct) (simp_all add: boot_inv step_inv)

section \<open>The properties\<close>

lemma ring_at:
  assumes "sinv st pend" "0 \<le> k" "k < 65536"
  shows "sn_ring st (sn_cpos st + word_of_int k) = cont (sn_gap st) pend k"
  using assms by (simp add: sinv_def uint_word_of_int)

text \<open>
  C34. While the device is open, as long as no replayed stretch is longer than the room in the ring,
  the ring holds, from the position last cleaned: the gap of silence, then exactly the newest
  \<open>filled\<close> bytes written since the open, in order, and silence everywhere else, old samples never; the room is
  never negative, the write position is behind the data, and the frame programmed into the DMA
  lies in the ring.
\<close>

theorem snd_queue:
  assumes "snd_reach env st" "sn_open st"
  shows "(\<exists>pend. suffix pend (sn_in st) \<and> int (length pend) = sn_filled st \<and>
      (\<forall>k. 0 \<le> k \<and> k < 65536 \<longrightarrow> sn_ring st (sn_cpos st + word_of_int k) =
         (if sn_gap st \<le> k \<and> k < sn_gap st + sn_filled st then pend ! nat (k - sn_gap st) else 0))) \<and>
    0 \<le> sn_gap st \<and> 0 \<le> s_room st \<and> sn_wpos st = sn_cpos st + word_of_int (sn_gap st + sn_filled st) \<and>
    sn_phys st \<le> sn_base st \<and> sn_base st < sn_end st \<and> sn_end st \<le> sn_phys st + S_RING"
proof -
  obtain pend where i: "sinv st pend" "suffix pend (sn_in st)" "frames_in st"
    using reach_inv [OF assms(1)] assms(2) by (auto simp: snd_inv_def)
  have "\<forall>k. 0 \<le> k \<and> k < 65536 \<longrightarrow> sn_ring st (sn_cpos st + word_of_int k) =
      (if sn_gap st \<le> k \<and> k < sn_gap st + sn_filled st then pend ! nat (k - sn_gap st) else 0)"
    using ring_at [OF i(1)] i(1) by (auto simp: cont_def sinv_def)
  then show ?thesis using i by (auto simp: sinv_def frames_in_def s_room_def S_RING_def)
qed

definition snd_demo_env :: senv where
  "snd_demo_env = \<lparr>s_fault = (\<lambda>_. False), s_reg = (\<lambda>_ _. 0), s_mwregs = (\<lambda>_. (0, 0)), s_pos = (\<lambda>_. 0), s_hertz = 96, s_HZ = 96\<rparr>"

definition demo_first :: sndst where
  "demo_first = snd_step snd_demo_env (SOpen 0 True) (snd_boot (Some 0x200000))"

definition demo_open :: sndst where
  "demo_open = snd_step snd_demo_env (SWrite [1, 2, 3]) demo_first"

lemma snd_demo_reach: "snd_reach snd_demo_env demo_open"
  unfolding demo_open_def demo_first_def by (intro snd_reach.step snd_reach.boot) simp_all

lemma demo_first: "sn_open demo_first" "sn_tid demo_first" "sn_cpos demo_first = 0" "sn_gap demo_first = 512" "sn_filled demo_first = 0"
    "sn_in demo_first = []" "sn_proc demo_first = SIdle"
  by (simp_all add: demo_first_def snd_step_def sndopen_def snd_boot_def S_RING_def snd_start_def Let_def s_answer_def snd_frame_def
      snd_setquiet_def LEAD_def snd_mwinit_def snd_mw_def)

lemma demo_write: "demo_open = s_answer SOk ((snd_copy [1, 2, 3] (demo_first\<lparr>sn_moves := Suc (sn_moves demo_first)\<rparr>))\<lparr>sn_filled := 3\<rparr>)"
  by (simp add: demo_open_def snd_step_def demo_first snd_write_go.simps Let_def SND_BOUNCE_def s_room_def S_RING_def
      snd_copy_frame snd_demo_env_def)

lemma demo_queue: "sn_open demo_open" "sn_tid demo_open" "sn_cpos demo_open = 0" "sn_gap demo_open = 512" "sn_filled demo_open = 3"
    "sn_in demo_open = [1, 2, 3]"
  using snd_copy_spec [of "[1, 2, 3]" "demo_first\<lparr>sn_moves := Suc (sn_moves demo_first)\<rparr>"]
  by (simp_all add: demo_write s_answer_def snd_copy_frame demo_first)

theorem snd_queue_witness: "0 \<le> s_room demo_open \<and> sn_wpos demo_open = 515"
  using snd_queue [OF snd_demo_reach demo_queue(1)] by (simp add: demo_queue)





text \<open>A block played again: the replayed bytes are added to the gap.\<close>

lemma tick_replay:
  assumes "sn_chained st" "m = s_used p (sn_cpos st)" "0 < m" "m < 32768" "0 \<le> sn_gap st" "0 \<le> sn_filled st"
  shows "acct (snd_tick p st) = (sn_filled st, sn_gap st + m, sn_wpos st, p, sn_ring st)"
proof -
  have "s_used (sn_cpos st) p = (0 - m) mod 65536"
    using used_shift [of p "sn_cpos st" p] by (simp add: s_used_def assms(2))
  also have "\<dots> = 65536 - m" using assms(3,4) by (simp add: zmod_zminus1_eq_if)
  finally have "tick_back p st = sstat (\<lambda>s. s\<lparr>sst_repeats := u32 (sst_repeats s + 1)\<rparr>) (st\<lparr>sn_gap := sn_gap st + m, sn_cpos := p\<rparr>)"
    using assms by (simp add: tick_back_def S_RING_def)
  then have "acct (tick_play p (tick_back p st)) = (sn_filled st, sn_gap st + m, sn_wpos st, p, sn_ring st)"
    using assms(3,5,6) by (simp add: acct_def tick_play_def Let_def s_used_def sstat_def ring_zero_def fun_eq_iff)
  then show ?thesis using kept_tick(3) by metis
qed

text \<open>
  C36. A replayed block in a full ring: when gap, data and the replayed stretch do not fit in the ring,
  the tick that waits the replayed stretch out zeroes the newest bytes of the data, as many as did
  not fit, while it still counts them as data to play: the accounting is then not exact.
\<close>

theorem snd_repeat_full_loses:
  assumes "sinv st pend" "sn_chained st" "m = s_used p (sn_cpos st)" "m < 32768"
    "lost = sn_gap st + sn_filled st + m - S_RING" "0 < lost" "lost \<le> sn_filled st"
    "st2 = snd_tick (sn_cpos st) (snd_tick p st)"
    "sn_filled st - lost \<le> i" "i < sn_filled st" "x = sn_cpos st + word_of_int (sn_gap st + i)"
  shows "sn_filled st2 = sn_filled st \<and> sn_gap st2 = sn_gap st \<and> sn_cpos st2 = sn_cpos st \<and>
    sn_ring st x = pend ! nat i \<and> sn_ring st2 x = 0"
proof -
  have i: "0 \<le> sn_gap st" "sn_gap st + sn_filled st \<le> 65534" "int (length pend) = sn_filled st" using assms(1) by (simp_all add: sinv_def)
  have m: "0 < m" using i assms(5,6) by (simp add: S_RING_def)
  let ?s1 = "snd_tick p st"
  have f: "0 \<le> sn_filled st" using i(3) by simp
  note a = tick_replay [OF assms(2,3) m assms(4) i(1) f]
  have s1: "sn_filled ?s1 = sn_filled st" "sn_gap ?s1 = sn_gap st + m" "sn_cpos ?s1 = p" "sn_ring ?s1 = sn_ring st"
    using a by (simp_all add: acct_def)
  have n: "s_used p (sn_cpos st) = m" by (simp add: assms(3))
  have b: "tick_back (sn_cpos st) ?s1 = ?s1" using assms(4) by (simp add: tick_back_def s1 n S_RING_def)
  have "acct st2 = acct (tick_play (sn_cpos st) ?s1)" unfolding assms(8) kept_tick(3) b ..
  also have "\<dots> = (sn_filled st, sn_gap st, sn_wpos ?s1, sn_cpos st, ring_zero p m (sn_ring st))"
    using m i(1) f by (simp add: acct_def tick_play_def Let_def s1 n)
  finally have s2: "sn_filled st2 = sn_filled st" "sn_gap st2 = sn_gap st" "sn_cpos st2 = sn_cpos st" "sn_ring st2 = ring_zero p m (sn_ring st)"
    by (simp_all add: acct_def)
  define k where "k = sn_gap st + i"
  have k: "0 \<le> k" "k < 65534" "65536 \<le> k + m" "sn_gap st \<le> k" "k < sn_gap st + sn_filled st" "nat (k - sn_gap st) = nat i"
    using i assms(5,9,10,7) by (simp_all add: k_def S_RING_def)
  have r: "sn_ring st x = pend ! nat i"
    using ring_at [OF assms(1) k(1)] k i(3) unfolding assms(11) k_def [symmetric] by (simp add: cont_def)
  have "x - p = word_of_int (k + m)"
    using assms(3) unfolding assms(11) k_def [symmetric] by (simp add: s_used_def)
  then have u: "uint (x - p) = (k + m) mod 65536" by (simp only: uint_word_of_int) simp
  have "(k + m - 65536) mod 65536 = k + m - 65536" by (rule mod_pos_pos_trivial) (use k(2,3) assms(4) in linarith)+
  then have "(k + m) mod 65536 = k + m - 65536" by (metis minus_mod_self2)
  then have "uint (x - p) < m" using u k(2) by linarith
  then have z: "sn_ring st2 x = 0" unfolding s2(4) ring_zero_def by (rule if_P)
  show ?thesis by (simp add: s2(1-3) r z)
qed

definition demo_full :: sndst where
  "demo_full = demo_first\<lparr>sn_chained := True, sn_filled := 65022, sn_wpos := 65534,
     sn_ring := (\<lambda>x. cont 512 (replicate 65022 1) (uint x))\<rparr>"

theorem snd_repeat_full_loses_witness:
  "sn_ring demo_full 65533 = 1 \<and> sn_ring (snd_tick 0 (snd_tick 64512 demo_full)) 65533 = 0 \<and>
   sn_filled (snd_tick 0 (snd_tick 64512 demo_full)) = 65022"
proof -
  have "sinv demo_full (replicate 65022 1)" by (simp add: demo_full_def sinv_def demo_first)
  moreover have "sn_chained demo_full" "1024 = s_used 64512 (sn_cpos demo_full)" by (simp_all add: demo_full_def demo_first s_used_def)
  moreover have d: "sn_gap demo_full = 512" "sn_filled demo_full = 65022" "sn_cpos demo_full = 0" by (simp_all add: demo_full_def demo_first)
  ultimately show ?thesis
    using snd_repeat_full_loses [of demo_full "replicate 65022 1" 1024 64512 1022 _ 65021 65533, OF _ _ _ _ _ _ _ refl]
    by (simp add: d S_RING_def)
qed

end
