(* ===== verification/Tlk.thy ===== *)
theory Tlk
  imports Prelude
begin

unbundle bit_operations_syntax

text \<open>
  The transputer link driver \<open>driver-tlk/tlk.c\<close>. The link adapter is an arbitrary function of the
  accesses made to it so far: of its registers, of which of them answer with a bus error, and of the
  card's id block. Signals, faults of user addresses and \<open>lbolt\<close> come from the environment by a
  count. An answer \<open>None\<close> of an operation is a call that never returns.
\<close>

section \<open>State and environment\<close>

definition TR_IN :: int where "TR_IN = 0x01"
definition TR_OUT :: int where "TR_OUT = 0x03"
definition TR_ISTAT :: int where "TR_ISTAT = 0x05"
definition TR_OSTAT :: int where "TR_OSTAT = 0x07"
definition TR_RESET :: int where "TR_RESET = 0x11"
definition TR_ANAL :: int where "TR_ANAL = 0x17"
definition SPIN :: nat where "SPIN = 400"
definition CHUNK :: nat where "CHUNK = 256"
definition TLK_DIAG_LIMIT :: int where "TLK_DIAG_LIMIT = 2000000"

lemmas tlk_regs = TR_IN_def TR_OUT_def TR_ISTAT_def TR_OSTAT_def TR_RESET_def TR_ANAL_def

datatype terr = T_ENXIO | T_EBUSY | T_EIO | T_EINTR | T_EFAULT | T_EINVAL | T_EPERM

text \<open>An access: a register read with what it gave, a register write, or an \<open>ioprobe\<close> that bus-errored.\<close>

datatype tacc = TRd int byte | TWr int byte | TErr int

text \<open>\<open>tk_base\<close>: where the registers are; \<open>tk_log\<close>: the accesses so far.\<close>

record tlk =
  tk_base :: int
  tk_open :: bool
  tk_timeout :: int
  tk_pace :: int
  tk_log :: "tacc list"
  tk_sleeps :: nat
  tk_moves :: nat
  tk_bolts :: nat

record tenv =
  t_val :: "int \<Rightarrow> tacc list \<Rightarrow> int \<Rightarrow> byte"
  t_berr :: "int \<Rightarrow> tacc list \<Rightarrow> int \<Rightarrow> bool"
  t_long :: "int \<Rightarrow> int option"
  t_sig :: "nat \<Rightarrow> bool"
  t_fault :: "nat \<Rightarrow> bool"
  t_lbolt :: "nat \<Rightarrow> int"
  t_HZ :: int

section \<open>Register accesses\<close>

definition acc_rd :: "tenv \<Rightarrow> int \<Rightarrow> tlk \<Rightarrow> byte \<times> tlk" where
  "acc_rd env r t = (let v = t_val env (tk_base t) (tk_log t) r in (v, t\<lparr>tk_log := tk_log t @ [TRd r v]\<rparr>))"

definition acc_wr :: "int \<Rightarrow> byte \<Rightarrow> tlk \<Rightarrow> tlk" where
  "acc_wr r v t = t\<lparr>tk_log := tk_log t @ [TWr r v]\<rparr>"

text \<open>\<open>rd\<close> and \<open>wr\<close>, through \<open>ioprobe\<close>.\<close>

definition tlk_rd :: "tenv \<Rightarrow> int \<Rightarrow> tlk \<Rightarrow> byte option \<times> tlk" where
  "tlk_rd env r t =
    (if t_berr env (tk_base t) (tk_log t) r then (None, t\<lparr>tk_log := tk_log t @ [TErr r]\<rparr>)
     else (case acc_rd env r t of (v, t1) \<Rightarrow> (Some v, t1)))"

definition tlk_wr :: "tenv \<Rightarrow> int \<Rightarrow> byte \<Rightarrow> tlk \<Rightarrow> bool \<times> tlk" where
  "tlk_wr env r v t =
    (if t_berr env (tk_base t) (tk_log t) r then (False, t\<lparr>tk_log := tk_log t @ [TErr r]\<rparr>) else (True, acc_wr r v t))"

definition tk_fault :: "tenv \<Rightarrow> tlk \<Rightarrow> bool \<times> tlk" where
  "tk_fault env t = (t_fault env (tk_moves t), t\<lparr>tk_moves := Suc (tk_moves t)\<rparr>)"

definition tk_lbolt :: "tenv \<Rightarrow> tlk \<Rightarrow> int \<times> tlk" where
  "tk_lbolt env t = (t_lbolt env (tk_bolts t), t\<lparr>tk_bolts := Suc (tk_bolts t)\<rparr>)"

text \<open>\<open>tlk_tick\<close>: a tick's sleep, true when a signal came.\<close>

definition tlk_tick :: "tenv \<Rightarrow> tlk \<Rightarrow> bool \<times> tlk" where
  "tlk_tick env t = (t_sig env (tk_sleeps t), t\<lparr>tk_sleeps := Suc (tk_sleeps t)\<rparr>)"

section \<open>Waiting\<close>

text \<open>At most \<open>n\<close> polls of a status register; \<open>tlk_pace\<close> passes time between two of them only.\<close>

primrec tlk_spin :: "tenv \<Rightarrow> int \<Rightarrow> nat \<Rightarrow> tlk \<Rightarrow> bool \<times> tlk" where
  "tlk_spin env reg 0 t = (False, t)"
| "tlk_spin env reg (Suc n) t =
    (case acc_rd env reg t of (v, t1) \<Rightarrow> if v AND 1 \<noteq> 0 then (True, t1) else tlk_spin env reg n t1)"

partial_function (option) tlk_wait :: "tenv \<Rightarrow> int \<Rightarrow> int \<Rightarrow> tlk \<Rightarrow> (terr option \<times> tlk) option" where
  "tlk_wait env reg ticks t =
    (case tlk_spin env reg SPIN t of (ready, t1) \<Rightarrow>
      if ready then Some (None, t1)
      else if tk_timeout t1 \<noteq> 0 \<and> ticks \<ge> tk_timeout t1 then Some (Some T_EIO, t1)
      else (case tlk_tick env t1 of (s, t2) \<Rightarrow>
        if s then Some (Some T_EINTR, t2)
        else tlk_wait env reg (if tk_timeout t1 \<noteq> 0 then ticks + 1 else ticks) t2))"

section \<open>Reset\<close>

primrec reset_drain :: "tenv \<Rightarrow> nat \<Rightarrow> tlk \<Rightarrow> terr option \<times> tlk" where
  "reset_drain env 0 t = (None, t)"
| "reset_drain env (Suc n) t =
    (case tlk_rd env TR_ISTAT t of (v, t1) \<Rightarrow>
      (case v of
         None \<Rightarrow> (Some T_EIO, t1)
       | Some b \<Rightarrow>
           if b AND 1 = 0 then (None, t1)
           else (case tlk_rd env TR_IN t1 of (w, t2) \<Rightarrow>
             if w = None then (Some T_EIO, t2) else reset_drain env n t2)))"

definition tlk_reset :: "tenv \<Rightarrow> bool \<Rightarrow> tlk \<Rightarrow> terr option \<times> tlk" where
  "tlk_reset env analyse t =
    (case tlk_wr env TR_RESET 1 t of (a, t1) \<Rightarrow>
      if \<not> a then (Some T_EIO, t1)
      else (case tlk_wr env TR_ANAL (if analyse then 1 else 0) t1 of (b, t2) \<Rightarrow>
        if \<not> b then (Some T_EIO, t2)
        else
          let t3 = snd (tlk_tick env t2); t4 = snd (tlk_tick env t3)
          in (case tlk_wr env TR_RESET 0 t4 of (c, t5) \<Rightarrow>
               if \<not> c then (Some T_EIO, t5) else reset_drain env 64 (snd (tlk_tick env t5)))))"

section \<open>The two links\<close>

text \<open>The FPGA link is below the top of the window whose id block answers.\<close>

definition tlk_fpga :: "tenv \<Rightarrow> tlk list \<Rightarrow> tlk list" where
  "tlk_fpga env ts =
    (case List.find (\<lambda>w. t_long env (w - 0xE00 + 24) = Some 0x2063706D) [0xFEE00000, 0xFEC00000] of
       None \<Rightarrow> ts
     | Some w \<Rightarrow> ts[1 := (ts ! 1)\<lparr>tk_base := w - 0x540\<rparr>])"

definition tlk_init1 :: "tenv \<Rightarrow> int \<Rightarrow> tlk" where
  "tlk_init1 env b = \<lparr>tk_base = b, tk_open = False, tk_timeout = 2 * t_HZ env, tk_pace = 0, tk_log = [],
     tk_sleeps = 0, tk_moves = 0, tk_bolts = 0\<rparr>"

definition tlkinit :: "tenv \<Rightarrow> tlk list" where
  "tlkinit env = [tlk_init1 env 0xFEFFFAC0, tlk_init1 env 0xFEDFFAC0]"

text \<open>\<open>m\<close> registers must answer a read, up to the first that does not.\<close>

primrec regs_answer :: "tenv \<Rightarrow> int list \<Rightarrow> tlk \<Rightarrow> bool \<times> tlk" where
  "regs_answer env [] t = (True, t)"
| "regs_answer env (r # rs) t =
    (case tlk_rd env r t of (v, t1) \<Rightarrow> if v = None then (False, t1) else regs_answer env rs t1)"

definition tlkopen1 :: "tenv \<Rightarrow> tlk \<Rightarrow> terr option \<times> tlk" where
  "tlkopen1 env t =
    (case tlk_rd env TR_ISTAT t of (is0, t1) \<Rightarrow>
      (case is0 of
         None \<Rightarrow> (Some T_ENXIO, t1)
       | Some b \<Rightarrow>
           (case regs_answer env [TR_OSTAT, TR_OUT, TR_RESET, TR_ANAL] t1 of (ok, t2) \<Rightarrow>
             if \<not> ok then (Some T_ENXIO, t2)
             else (case (if b AND 1 = 0 then regs_answer env [TR_IN] t2 else (True, t2)) of (ok2, t3) \<Rightarrow>
               if \<not> ok2 then (Some T_ENXIO, t3)
               else if tk_open t3 then (Some T_EBUSY, t3)
               else (None, t3\<lparr>tk_open := True\<rparr>)))))"

definition tlkopen :: "tenv \<Rightarrow> int \<Rightarrow> bool \<Rightarrow> tlk list \<Rightarrow> terr option \<times> tlk list" where
  "tlkopen env m chr ts =
    (if m < 0 \<or> m \<ge> 2 \<or> \<not> chr then (Some T_ENXIO, ts)
     else
       let ts1 = (if m = 1 \<and> \<not> tk_open (ts ! nat m) then tlk_fpga env ts else ts)
       in (case tlkopen1 env (ts1 ! nat m) of (e, t) \<Rightarrow> (e, ts1[nat m := t])))"

definition tlkclose :: "tlk \<Rightarrow> tlk" where
  "tlkclose t = t\<lparr>tk_open := False\<rparr>"

section \<open>Reading and writing\<close>

text \<open>Up to \<open>n\<close> bytes while they keep coming, at most \<open>SPIN\<close> polls for each.\<close>

primrec take_bytes :: "tenv \<Rightarrow> nat \<Rightarrow> tlk \<Rightarrow> byte list \<times> tlk" where
  "take_bytes env 0 t = ([], t)"
| "take_bytes env (Suc n) t =
    (case tlk_spin env TR_ISTAT SPIN t of (ready, t1) \<Rightarrow>
      if \<not> ready then ([], t1)
      else (case acc_rd env TR_IN t1 of (b, t2) \<Rightarrow>
        (case take_bytes env n t2 of (bs, t3) \<Rightarrow> (b # bs, t3))))"

lemma take_bytes_length: "length (fst (take_bytes env n t)) \<le> n"
proof (induction n arbitrary: t)
  case (Suc n)
  then show ?case using Suc by (auto simp: split: prod.splits) (metis fst_conv)
qed simp

text \<open>\<open>resid\<close>: the bytes the user still has room for, \<open>got\<close>: those delivered.\<close>

function read_go :: "tenv \<Rightarrow> nat \<Rightarrow> byte list \<Rightarrow> tlk \<Rightarrow> terr option \<times> byte list \<times> tlk" where
  "read_go env resid got t =
    (if resid = 0 then (None, got, t)
     else
       let n = min CHUNK resid
       in (case take_bytes env n t of (bs, t1) \<Rightarrow>
         (case (if bs \<noteq> [] then tk_fault env t1 else (False, t1)) of (f, t2) \<Rightarrow>
           if f then (Some T_EFAULT, got, t2)
           else if length bs < n then (None, got @ bs, t2)
           else read_go env (resid - n) (got @ bs) t2)))"
  by pat_completeness auto

termination
  by (relation "measure (\<lambda>(env, resid, got, t). resid)") (auto simp: CHUNK_def)

declare read_go.simps [simp del]

definition tlkread :: "tenv \<Rightarrow> nat \<Rightarrow> tlk \<Rightarrow> (terr option \<times> byte list \<times> tlk) option" where
  "tlkread env resid t =
    (case tlk_wait env TR_ISTAT 0 t of
       None \<Rightarrow> None
     | Some (e, t1) \<Rightarrow> Some (if e \<noteq> None then (e, [], t1) else read_go env resid [] t1))"

text \<open>The bytes of a piece one after the other: the error that stopped it, with what was not sent.\<close>

fun send_bytes :: "tenv \<Rightarrow> byte list \<Rightarrow> tlk \<Rightarrow> (terr option \<times> nat \<times> tlk) option" where
  "send_bytes env [] t = Some (None, 0, t)"
| "send_bytes env (b # bs) t =
    (case acc_rd env TR_OSTAT t of (v, t1) \<Rightarrow>
      (case (if v AND 1 = 0 then tlk_wait env TR_OSTAT 0 t1 else Some (None, t1)) of
         None \<Rightarrow> None
       | Some (e, t2) \<Rightarrow>
           if e \<noteq> None then Some (e, Suc (length bs), t2) else send_bytes env bs (acc_wr TR_OUT b t2)))"

text \<open>The error and the bytes moved; \<open>sent\<close>: the bytes of the pieces before.\<close>

function write_go :: "tenv \<Rightarrow> byte list \<Rightarrow> nat \<Rightarrow> tlk \<Rightarrow> (terr option \<times> nat \<times> tlk) option" where
  "write_go env bs sent t =
    (if bs = [] then Some (None, sent, t)
     else
       let n = min CHUNK (length bs)
       in (case tk_fault env t of (f, t1) \<Rightarrow>
         if f then Some (Some T_EFAULT, sent, t1)
         else (case send_bytes env (take n bs) t1 of
             None \<Rightarrow> None
           | Some (e, k, t2) \<Rightarrow>
               if e \<noteq> None then Some (if sent + (n - k) \<noteq> 0 then None else e, sent + (n - k), t2)
               else write_go env (drop n bs) (sent + n) t2)))"
  by pat_completeness auto

termination
  by (relation "measure (\<lambda>(env, bs, sent, t). length bs)") (auto simp: CHUNK_def)

declare write_go.simps [simp del]

definition tlkwrite :: "tenv \<Rightarrow> byte list \<Rightarrow> tlk \<Rightarrow> (terr option \<times> nat \<times> tlk) option" where
  "tlkwrite env bs t = write_go env bs 0 t"

section \<open>The diagnostic\<close>

record tdiag =
  dg_mode :: int
  dg_n :: int
  dg_nspoll :: int
  dg_polls :: "int list"
  dg_data :: "byte list"

primrec reads :: "tenv \<Rightarrow> int \<Rightarrow> nat \<Rightarrow> tlk \<Rightarrow> byte list \<times> tlk" where
  "reads env reg 0 t = ([], t)"
| "reads env reg (Suc n) t =
    (case acc_rd env reg t of (v, t1) \<Rightarrow> (case reads env reg n t1 of (vs, t2) \<Rightarrow> (v # vs, t2)))"

text \<open>The polls until the status bit is set, a poll counting \<open>w\<close> against what is left of the limit.\<close>

partial_function (option) diag_polls :: "tenv \<Rightarrow> int \<Rightarrow> int \<Rightarrow> int \<Rightarrow> int \<Rightarrow> tlk \<Rightarrow> (int \<times> tlk) option" where
  "diag_polls env reg w tot c t =
    (if s32 (tot + s32 (c * w)) < TLK_DIAG_LIMIT then
       (case acc_rd env reg t of (v, t1) \<Rightarrow>
         if v AND 1 \<noteq> 0 then Some (c, t1) else diag_polls env reg w tot (s32 (c + 1)) t1)
     else Some (c, t))"

definition diag_poke :: "byte list" where
  "diag_poke = [0, 0x00, 0x01, 0x00, 0x80, 0x78, 0x56, 0x34, 0x12]"

text \<open>At most \<open>m\<close> more bytes timed.\<close>

primrec diag_bytes :: "tenv \<Rightarrow> bool \<Rightarrow> int \<Rightarrow> nat \<Rightarrow> int \<Rightarrow> tdiag \<Rightarrow> tlk \<Rightarrow> (tdiag \<times> tlk) option" where
  "diag_bytes env inp w 0 tot d t = Some (d, t)"
| "diag_bytes env inp w (Suc m) tot d t =
    (case diag_polls env (if inp then TR_ISTAT else TR_OSTAT) w tot 0 t of
       None \<Rightarrow> None
     | Some (c, t1) \<Rightarrow>
         let tot1 = s32 (tot + s32 (c * w)); k = nat (dg_n d); d1 = d\<lparr>dg_polls := (dg_polls d)[k := c]\<rparr>
         in if tot1 \<ge> TLK_DIAG_LIMIT then Some (d, t1)
            else if inp then
              (case acc_rd env TR_IN t1 of (v, t2) \<Rightarrow>
                diag_bytes env inp w m tot1 (d1\<lparr>dg_data := (dg_data d1)[k := v], dg_n := dg_n d + 1\<rparr>) t2)
            else diag_bytes env inp w m tot1 (d1\<lparr>dg_n := dg_n d + 1\<rparr>) (acc_wr TR_OUT (diag_poke ! (k mod 9)) t1))"

definition diag_out :: "tenv \<Rightarrow> tdiag \<Rightarrow> tlk \<Rightarrow> terr option \<times> tdiag option \<times> tlk" where
  "diag_out env d t = (case tk_fault env t of (f, t1) \<Rightarrow> if f then (Some T_EFAULT, None, t1) else (None, Some d, t1))"

text \<open>\<open>u\<close>: the structure the user gives; what is copied back comes with the answer.\<close>

definition tlk_diag :: "tenv \<Rightarrow> tdiag \<Rightarrow> tlk \<Rightarrow> (terr option \<times> tdiag option \<times> tlk) option" where
  "tlk_diag env u t =
    (case tk_fault env t of (f, t1) \<Rightarrow>
      if f then Some (Some T_EFAULT, None, t1)
      else if dg_mode u < 1 \<or> dg_mode u > 5 then Some (Some T_EINVAL, None, t1)
      else
        let pause = (if dg_mode u = 5 then dg_n u else 0);
            d = (if dg_mode u = 5 then u\<lparr>dg_mode := 1\<rparr> else u);
            inp = odd (dg_mode d);
            reg = (if inp then TR_ISTAT else TR_OSTAT)
        in if dg_mode d \<ge> 3 then
             (case diag_polls env reg 1 0 0 t1 of
                None \<Rightarrow> None
              | Some (c, t2) \<Rightarrow>
                  let t3 = (if dg_mode d = 3 then snd (acc_rd env TR_IN t2) else acc_wr TR_OUT 0 t2)
                  in (case reads env reg 64 t3 of (vs, t4) \<Rightarrow>
                       Some (diag_out env (d\<lparr>dg_polls := (dg_polls d)[0 := c], dg_data := vs, dg_n := 64, dg_nspoll := 0\<rparr>) t4)))
           else
             (case tk_lbolt env t1 of (b0, t2) \<Rightarrow>
               (case reads env reg 400000 t2 of (vs, t3) \<Rightarrow>
                 (case tk_lbolt env t3 of (b1, t4) \<Rightarrow>
                   (case diag_bytes env inp (s32 (1 + cdiv pause 2)) 64 0
                       (d\<lparr>dg_nspoll := cdiv (s32 ((b1 - b0) * cdiv 1000000 (t_HZ env))) 400, dg_n := 0\<rparr>) t4 of
                      None \<Rightarrow> None
                    | Some (d1, t5) \<Rightarrow> Some (diag_out env d1 t5))))))"

section \<open>ioctl\<close>

datatype tcmd = TLK_RESET | TLK_ANALYSE | TLK_STATUS | TLK_TIMEOUT | TLK_PACE | TLK_DIAG tdiag | TLK_OTHER

datatype tans = TOk | TVal int | TDiag tdiag | TFail terr

definition t_ans :: "terr option \<Rightarrow> tans" where
  "t_ans e = (case e of None \<Rightarrow> TOk | Some x \<Rightarrow> TFail x)"

definition tlk_status :: "tenv \<Rightarrow> tlk \<Rightarrow> int \<times> tlk" where
  "tlk_status env t =
    (case acc_rd env TR_ISTAT t of (i, t1) \<Rightarrow>
      (case acc_rd env TR_OSTAT t1 of (out, t2) \<Rightarrow>
        (case acc_rd env TR_RESET t2 of (e, t3) \<Rightarrow>
          ((if i AND 1 \<noteq> 0 then 1 else 0) OR (if out AND 1 \<noteq> 0 then 2 else 0) OR (if e AND 1 \<noteq> 0 then 4 else 0), t3))))"

definition tlkioctl :: "tenv \<Rightarrow> bool \<Rightarrow> tcmd \<Rightarrow> int \<Rightarrow> tlk \<Rightarrow> (tans \<times> tlk) option" where
  "tlkioctl env priv cmd arg t =
    (case cmd of
       TLK_RESET \<Rightarrow> (case tlk_reset env False t of (e, t1) \<Rightarrow> Some (t_ans e, t1))
     | TLK_ANALYSE \<Rightarrow> (case tlk_reset env True t of (e, t1) \<Rightarrow> Some (t_ans e, t1))
     | TLK_STATUS \<Rightarrow> (case tlk_status env t of (v, t1) \<Rightarrow> Some (TVal v, t1))
     | TLK_TIMEOUT \<Rightarrow>
         if arg < 0 then Some (TFail T_EINVAL, t)
         else Some (TOk, t\<lparr>tk_timeout := (if arg \<noteq> 0 then cdiv (s32 (s32 (arg * t_HZ env) + 999)) 1000 else 0)\<rparr>)
     | TLK_PACE \<Rightarrow>
         if \<not> priv then Some (TFail T_EPERM, t)
         else if arg < 0 \<or> arg > 100000 then Some (TFail T_EINVAL, t)
         else Some (TVal (tk_pace t), t\<lparr>tk_pace := arg\<rparr>)
     | TLK_DIAG u \<Rightarrow>
         if \<not> priv then Some (TFail T_EPERM, t)
         else map_option (\<lambda>(e, r, t1). (case r of Some d \<Rightarrow> TDiag d | None \<Rightarrow> t_ans e, t1)) (tlk_diag env u t)
     | TLK_OTHER \<Rightarrow> Some (TFail T_EINVAL, t))"

section \<open>What prtconf shows\<close>

definition tlk_names :: "string list" where
  "tlk_names = [''Transputer link adapter (C011), TRAM'', ''ATW800/2 FPGA link, T425 40 MHz'']"

definition tlk_ksize :: "int list" where "tlk_ksize = [0, 5120]"

text \<open>The structure of a link: its name in 64 bytes, its number, its memory.\<close>

definition tlk_xedt :: "nat \<Rightarrow> byte list" where
  "tlk_xedt i = take 64 (map (\<lambda>c. of_nat (of_char c)) (tlk_names ! i) @ replicate 64 0) @ p32 (int i) @ p32 (tlk_ksize ! i)"

definition tlk_answers :: "tenv \<Rightarrow> tlk \<Rightarrow> bool \<times> tlk" where
  "tlk_answers env t =
    (case tlk_rd env TR_ISTAT t of (v, t1) \<Rightarrow>
      if v = None then (False, t1) else (case tlk_rd env TR_OSTAT t1 of (w, t2) \<Rightarrow> (w \<noteq> None, t2)))"

text \<open>The entries copied out, up to the first that the user's buffer refuses.\<close>

primrec xedt_out :: "tenv \<Rightarrow> bool list \<Rightarrow> nat \<Rightarrow> byte list \<Rightarrow> tlk \<Rightarrow> terr option \<times> byte list \<times> tlk" where
  "xedt_out env [] i acc t = (None, acc, t)"
| "xedt_out env (h # hs) i acc t =
    (if \<not> h then xedt_out env hs (Suc i) acc t
     else (case tk_fault env t of (f, t1) \<Rightarrow>
       if f then (Some T_EFAULT, acc, t1) else xedt_out env hs (Suc i) (acc @ tlk_xedt i) t1))"

definition tlkdriverinfo :: "tenv \<Rightarrow> int \<Rightarrow> int \<Rightarrow> tlk list \<Rightarrow> terr option \<times> byte list \<times> tlk list" where
  "tlkdriverinfo env cmd len ts =
    (if cmd \<noteq> 76 then (Some T_EINVAL, [], ts)
     else
       let ts1 = (if \<not> tk_open (ts ! 1) then tlk_fpga env ts else ts)
       in (case tlk_answers env (ts1 ! 0) of (h0, t0) \<Rightarrow>
            (case tlk_answers env (ts1 ! 1) of (h1, t1) \<Rightarrow>
              let n = (if h0 then 1 else 0) + (if h1 then 1 else 0 :: int)
              in if len \<noteq> 4 \<and> len \<noteq> 4 + n * 72 then (Some T_EINVAL, [], [t0, t1])
                 else (case tk_fault env t0 of (f, t2) \<Rightarrow>
                   if f then (Some T_EFAULT, [], [t2, t1])
                   else if len = 4 then (None, p32 n, [t2, t1])
                   else (case xedt_out env [h0, h1] 0 (p32 n) t2 of (e, bs, t3) \<Rightarrow> (e, bs, [t3, t1]))))))"

end
