(* ===== verification/Lnk.thy ===== *)
theory Lnk
  imports Tlk
begin

unbundle bit_operations_syntax

text \<open>
  iserver's link module \<open>iserver/lnktlk.c\<close>, over the model of the driver it calls: \<open>read\<close>, \<open>write\<close> and
  \<open>ioctl\<close> on the open device are the driver's entry points. The clock, the system's tick rate and which
  device a path names come from the environment.
\<close>

definition LINK_OK :: int where "LINK_OK = 1"
definition ER_LINK_BAD :: int where "ER_LINK_BAD = -1"
definition ER_LINK_CANT :: int where "ER_LINK_CANT = -2"
definition ER_LINK_SOFT :: int where "ER_LINK_SOFT = -3"

lemmas lnk_codes = LINK_OK_def ER_LINK_BAD_def ER_LINK_CANT_def ER_LINK_SOFT_def

text \<open>\<open>lk_fd\<close>: the link the open descriptor is for; \<open>lk_clk\<close>: the readings of \<open>times\<close> so far.\<close>

record lnk =
  lk_fd :: "nat option"
  lk_hz :: int
  lk_ts :: "tlk list"
  lk_clk :: nat

record lenv =
  l_drv :: tenv
  l_times :: "nat \<Rightarrow> int"
  l_clktck :: int
  l_minor :: "string \<Rightarrow> nat option"

definition lnk_now :: "lenv \<Rightarrow> lnk \<Rightarrow> int \<times> lnk" where
  "lnk_now env st = (l_times env (lk_clk st), st\<lparr>lk_clk := Suc (lk_clk st)\<rparr>)"

definition link_path :: "string option \<Rightarrow> string" where
  "link_path name =
    (let n = (case name of None \<Rightarrow> ''/dev/link0'' | Some s \<Rightarrow> if s = [] then ''/dev/link0'' else s)
     in if n = ''0'' \<or> n = ''1'' then ''/dev/link'' @ n else n)"

definition OpenLink :: "lenv \<Rightarrow> string option \<Rightarrow> lnk \<Rightarrow> int \<times> lnk" where
  "OpenLink env name st =
    (if lk_fd st \<noteq> None then (ER_LINK_CANT, st)
     else
       let st1 = st\<lparr>lk_hz := (if l_clktck env \<le> 0 then 100 else l_clktck env)\<rparr>
       in (case l_minor env (link_path name) of
            None \<Rightarrow> (ER_LINK_BAD, st1)
          | Some m \<Rightarrow>
              (case tlkopen (l_drv env) (int m) True (lk_ts st1) of (e, ts) \<Rightarrow>
                if e \<noteq> None then (ER_LINK_BAD, st1\<lparr>lk_ts := ts\<rparr>)
                else (LINK_OK, st1\<lparr>lk_ts := ts, lk_fd := Some m\<rparr>))))"

definition lk_link :: "lnk \<Rightarrow> tlk" where
  "lk_link st = lk_ts st ! the (lk_fd st)"

definition lk_put :: "tlk \<Rightarrow> lnk \<Rightarrow> lnk" where
  "lk_put t st = st\<lparr>lk_ts := (lk_ts st)[the (lk_fd st) := t]\<rparr>"

definition lk_bad :: "int \<Rightarrow> lnk \<Rightarrow> bool" where
  "lk_bad lid st \<longleftrightarrow> lid \<noteq> LINK_OK \<or> lk_fd st = None"

definition CloseLink :: "int \<Rightarrow> lnk \<Rightarrow> int \<times> lnk" where
  "CloseLink lid st =
    (if lk_bad lid st then (ER_LINK_BAD, st)
     else (LINK_OK, (lk_put (tlkclose (lk_link st)) st)\<lparr>lk_fd := None\<rparr>))"

text \<open>One \<open>read\<close> or \<open>write\<close>: the error, the count, the bytes read.\<close>

definition link_call :: "tenv \<Rightarrow> bool \<Rightarrow> byte list \<Rightarrow> tlk \<Rightarrow> (terr option \<times> nat \<times> byte list \<times> tlk) option" where
  "link_call env out bs t =
    (if out then map_option (\<lambda>(e, n, t1). (e, n, [], t1)) (tlkwrite env bs t)
     else map_option (\<lambda>(e, ds, t1). (e, length ds, ds, t1)) (tlkread env (length bs) t))"

text \<open>The loop of \<open>move\<close>; \<open>fin\<close>: the time it has to end, 0 for none; \<open>got\<close>: the bytes read.\<close>

partial_function (option) move_go :: "lenv \<Rightarrow> bool \<Rightarrow> byte list \<Rightarrow> int \<Rightarrow> nat \<Rightarrow> byte list \<Rightarrow> lnk \<Rightarrow> (int \<times> byte list \<times> lnk) option" where
  "move_go env out bs fin n got st =
    (if n \<ge> length bs then Some (int n, got, st)
     else (case (if fin \<noteq> 0 then (case lnk_now env st of (now, s) \<Rightarrow> (cdiv (s32 (s32 (fin - now) * 1000)) (lk_hz st), s)) else (0, st)) of
       (left, st1) \<Rightarrow>
         if fin \<noteq> 0 \<and> left \<le> 0 then Some (int n, got, st1)
         else (case tlkioctl (l_drv env) False TLK_TIMEOUT left (lk_link st1) of
             None \<Rightarrow> None
           | Some (a, t1) \<Rightarrow>
               (case link_call (l_drv env) out (drop n bs) t1 of
                  None \<Rightarrow> None
                | Some (e, k, ds, t2) \<Rightarrow>
                    let st2 = lk_put t2 st1
                    in if e = None \<and> k > 0 then move_go env out bs fin (n + k) (got @ ds) st2
                       else if e = Some T_EINTR \<or> e = Some T_EIO then move_go env out bs fin n got st2
                       else Some (if n \<noteq> 0 then int n else ER_LINK_SOFT, got, st2)))))"

definition link_move :: "lenv \<Rightarrow> int \<Rightarrow> bool \<Rightarrow> byte list \<Rightarrow> int \<Rightarrow> lnk \<Rightarrow> (int \<times> byte list \<times> lnk) option" where
  "link_move env lid out bs timeout st =
    (case (if timeout > 0 then (case lnk_now env st of (now, s) \<Rightarrow> (s32 (now + cdiv (s32 (s32 (timeout * lk_hz st) + 9)) 10), s)) else (0, st)) of
       (fin, st1) \<Rightarrow>
         if lk_bad lid st1 then Some (ER_LINK_BAD, [], st1) else move_go env out bs fin 0 [] st1)"

definition ReadLink :: "lenv \<Rightarrow> int \<Rightarrow> nat \<Rightarrow> int \<Rightarrow> lnk \<Rightarrow> (int \<times> byte list \<times> lnk) option" where
  "ReadLink env lid n timeout st = link_move env lid False (replicate n 0) timeout st"

definition WriteLink :: "lenv \<Rightarrow> int \<Rightarrow> byte list \<Rightarrow> int \<Rightarrow> lnk \<Rightarrow> (int \<times> byte list \<times> lnk) option" where
  "WriteLink env lid bs timeout st = link_move env lid True bs timeout st"

definition reset_link :: "lenv \<Rightarrow> tcmd \<Rightarrow> int \<Rightarrow> lnk \<Rightarrow> (int \<times> lnk) option" where
  "reset_link env cmd lid st =
    (if lk_bad lid st then Some (ER_LINK_BAD, st)
     else map_option (\<lambda>(a, t). (case a of TFail x \<Rightarrow> ER_LINK_SOFT | _ \<Rightarrow> LINK_OK, lk_put t st))
            (tlkioctl (l_drv env) False cmd 0 (lk_link st)))"

definition ResetLink :: "lenv \<Rightarrow> int \<Rightarrow> lnk \<Rightarrow> (int \<times> lnk) option" where
  "ResetLink env = reset_link env TLK_RESET"

definition AnalyseLink :: "lenv \<Rightarrow> int \<Rightarrow> lnk \<Rightarrow> (int \<times> lnk) option" where
  "AnalyseLink env = reset_link env TLK_ANALYSE"

definition link_status :: "lenv \<Rightarrow> int \<Rightarrow> lnk \<Rightarrow> int \<times> lnk" where
  "link_status env lid st =
    (if lk_bad lid st then (ER_LINK_BAD, st) else (case tlk_status (l_drv env) (lk_link st) of (v, t) \<Rightarrow> (v, lk_put t st)))"

definition test_link :: "lenv \<Rightarrow> int \<Rightarrow> int \<Rightarrow> lnk \<Rightarrow> int \<times> lnk" where
  "test_link env b lid st =
    (case link_status env lid st of (s, st1) \<Rightarrow> (if s < 0 then ER_LINK_BAD else if s AND b \<noteq> 0 then 1 else 0, st1))"

definition TestError where "TestError env = test_link env 4"
definition TestRead where "TestRead env = test_link env 1"
definition TestWrite where "TestWrite env = test_link env 2"

end
