(* ===== verification/TlkProps.thy ===== *)
theory TlkProps
  imports Tlk "HOL-Library.Sublist"
begin

unbundle bit_operations_syntax

text \<open>
  What the link driver promises on any card: bytes pass in order, each moved only when the status
  before it said so, and calls return when a timeout is set; where a timeout is not what was asked
  for, and a diagnostic that never returns.
\<close>

section \<open>The accesses of an operation\<close>

text \<open>The bytes read from and written to the data registers.\<close>

primrec data_in :: "tacc list \<Rightarrow> byte list" where
  "data_in [] = []"
| "data_in (a # l) = (case a of TRd r v \<Rightarrow> (if r = TR_IN then [v] else []) | _ \<Rightarrow> []) @ data_in l"

primrec data_out :: "tacc list \<Rightarrow> byte list" where
  "data_out [] = []"
| "data_out (a # l) = (case a of TWr r v \<Rightarrow> (if r = TR_OUT then [v] else []) | _ \<Rightarrow> []) @ data_out l"

lemma data_append [simp]: "data_in (k @ l) = data_in k @ data_in l" "data_out (k @ l) = data_out k @ data_out l"
  by (induction k) auto

definition tk_ready :: "int \<Rightarrow> tacc \<Rightarrow> bool" where
  "tk_ready reg a = (case a of TRd r v \<Rightarrow> r = reg \<and> v AND 1 \<noteq> 0 | _ \<Rightarrow> False)"

text \<open>\<open>prev\<close>: the access before the list.\<close>

primrec polite :: "tacc option \<Rightarrow> tacc list \<Rightarrow> bool" where
  "polite prev [] = True"
| "polite prev (a # l) =
    ((case a of
        TRd r v \<Rightarrow> r = TR_IN \<longrightarrow> (case prev of Some p \<Rightarrow> tk_ready TR_ISTAT p | None \<Rightarrow> False)
      | TWr r v \<Rightarrow> r = TR_OUT \<longrightarrow> (case prev of Some p \<Rightarrow> tk_ready TR_OSTAT p | None \<Rightarrow> False)
      | TErr r \<Rightarrow> True) \<and> polite (Some a) l)"

text \<open>Only polls of one status register.\<close>

definition polls_of :: "int \<Rightarrow> tacc list \<Rightarrow> bool" where
  "polls_of reg l \<longleftrightarrow> (\<forall>a\<in>set l. \<exists>v. a = TRd reg v)"

lemma polite_any: "polite None l \<Longrightarrow> polite p l"
  by (cases l) (auto split: tacc.splits)

lemma polite_append: "polite p k \<Longrightarrow> polite None l \<Longrightarrow> polite p (k @ l)"
  by (induction k arbitrary: p) (auto intro: polite_any)

lemma polite_polls: "polls_of reg l \<Longrightarrow> reg = TR_ISTAT \<or> reg = TR_OSTAT \<Longrightarrow> polite p l \<and> data_in l = [] \<and> data_out l = []"
  by (induction l arbitrary: p) (auto simp: polls_of_def tlk_regs)

lemma polls_simps: "polls_of reg []" "polls_of reg (k @ l) = (polls_of reg k \<and> polls_of reg l)" "polls_of reg (TRd reg v # l) = polls_of reg l"
  by (auto simp: polls_of_def)

lemma polite_snoc_move:
  assumes "polite p k" "k \<noteq> []" "tk_ready (if w then TR_OSTAT else TR_ISTAT) (last k)"
  shows "polite p (k @ [if w then TWr TR_OUT v else TRd TR_IN v])"
  using assms
proof (induction k arbitrary: p)
  case (Cons a k)
  then show ?case by (cases "k = []") (auto simp: tlk_regs)
qed simp

section \<open>Waiting\<close>

lemma acc_rd_log: "acc_rd env r t = (v, t1) \<Longrightarrow> tk_log t1 = tk_log t @ [TRd r v] \<and> tk_timeout t1 = tk_timeout t \<and>
    tk_sleeps t1 = tk_sleeps t"
  by (auto simp: acc_rd_def Let_def)

lemma spin_log:
  "tlk_spin env reg n t = (ready, t1) \<Longrightarrow> \<exists>l. tk_log t1 = tk_log t @ l \<and> polls_of reg l \<and> length l \<le> n \<and>
     (ready \<longrightarrow> l \<noteq> [] \<and> tk_ready reg (last l)) \<and> tk_timeout t1 = tk_timeout t \<and> tk_sleeps t1 = tk_sleeps t"
proof (induction n arbitrary: t)
  case (Suc n)
  obtain v s where a: "acc_rd env reg t = (v, s)" by fastforce
  show ?case
  proof (cases "v AND 1 \<noteq> 0")
    case True
    then show ?thesis using Suc.prems a acc_rd_log [OF a] by (auto simp: polls_simps tk_ready_def)
  next
    case False
    then have "tlk_spin env reg n s = (ready, t1)" using Suc.prems a by simp
    from Suc.IH [OF this] obtain l where l: "tk_log t1 = tk_log s @ l" "polls_of reg l" "length l \<le> n"
      "ready \<longrightarrow> l \<noteq> [] \<and> tk_ready reg (last l)" "tk_timeout t1 = tk_timeout s" "tk_sleeps t1 = tk_sleeps s" by blast
    then show ?thesis using acc_rd_log [OF a] by (intro exI [of _ "TRd reg v # l"]) (auto simp: polls_of_def)
  qed
qed (simp add: polls_simps)

definition waited :: "int \<Rightarrow> terr option \<Rightarrow> tlk \<Rightarrow> tlk \<Rightarrow> bool" where
  "waited reg e t t1 \<longleftrightarrow> (\<exists>l. tk_log t1 = tk_log t @ l \<and> polls_of reg l \<and> (e = None \<longrightarrow> l \<noteq> [] \<and> tk_ready reg (last l))) \<and>
     tk_timeout t1 = tk_timeout t \<and> e \<noteq> Some T_EFAULT"

lemma waitedE:
  assumes "waited reg e t t1"
  obtains l where "tk_log t1 = tk_log t @ l" "polls_of reg l" "e = None \<longrightarrow> l \<noteq> [] \<and> tk_ready reg (last l)"
    "tk_timeout t1 = tk_timeout t" "e \<noteq> Some T_EFAULT"
  using assms by (auto simp: waited_def)

lemma wait_log:
  assumes "tlk_wait env reg ticks t = Some y"
  shows "waited reg (fst y) t (snd y)"
proof (rule tlk_wait.raw_induct [of "\<lambda>env reg ticks t y. waited reg (fst y) t (snd y)", OF _ assms], goal_cases)
  case (1 wait env reg ticks t y)
  note IH = 1(1) and res = 1(2)
  obtain ready t1 where s: "tlk_spin env reg SPIN t = (ready, t1)" by fastforce
  from spin_log [OF s] obtain l where l: "tk_log t1 = tk_log t @ l" "polls_of reg l"
    "ready \<longrightarrow> l \<noteq> [] \<and> tk_ready reg (last l)" "tk_timeout t1 = tk_timeout t" by blast
  obtain sg t2 where k: "tlk_tick env t1 = (sg, t2)" by fastforce
  then have t2: "tk_log t2 = tk_log t1" "tk_timeout t2 = tk_timeout t1" by (auto simp: tlk_tick_def)
  consider (ready) "ready" | (stop) "\<not> ready" "fst y \<noteq> None" "fst y \<noteq> Some T_EFAULT" "snd y = t1 \<or> snd y = t2"
    | (again) "\<not> ready" "wait env reg (if tk_timeout t1 \<noteq> 0 then ticks + 1 else ticks) t2 = Some y"
    using res s k by (cases ready) (auto split: if_splits)
  then show ?case
  proof cases
    case ready then show ?thesis using res s l unfolding waited_def by auto
  next
    case stop then show ?thesis using l t2 unfolding waited_def by auto
  next
    case again
    have "waited reg (fst y) t2 (snd y)" by (rule IH [OF again(2)])
    then obtain l' where "tk_log (snd y) = tk_log t2 @ l'" "polls_of reg l'"
      "fst y = None \<longrightarrow> l' \<noteq> [] \<and> tk_ready reg (last l')" "tk_timeout (snd y) = tk_timeout t2" "fst y \<noteq> Some T_EFAULT" by (rule waitedE)
    then show ?thesis using l t2 unfolding waited_def by (auto simp: polls_simps intro!: exI [of _ "l @ l'"])
  qed
qed

text \<open>With a timeout a wait returns.\<close>

lemma wait_returns:
  assumes "tk_timeout t \<noteq> 0"
  shows "\<exists>e t1. tlk_wait env reg ticks t = Some (e, t1) \<and> tk_timeout t1 = tk_timeout t \<and>
    int (tk_sleeps t1) \<le> int (tk_sleeps t) + max 0 (tk_timeout t - ticks)"
  using assms
proof (induction "nat (tk_timeout t - ticks)" arbitrary: t ticks rule: less_induct)
  case less
  obtain ready t1 where s: "tlk_spin env reg SPIN t = (ready, t1)" by fastforce
  from spin_log [OF s] have t1: "tk_timeout t1 = tk_timeout t" "tk_sleeps t1 = tk_sleeps t" by blast+
  obtain sg t2 where k: "tlk_tick env t1 = (sg, t2)" by fastforce
  then have t2: "tk_timeout t2 = tk_timeout t" "tk_sleeps t2 = Suc (tk_sleeps t)" using t1 by (auto simp: tlk_tick_def)
  show ?case
  proof (cases "ready \<or> ticks \<ge> tk_timeout t")
    case True
    then show ?thesis using less.prems s t1 by (subst tlk_wait.simps) auto
  next
    case False
    show ?thesis
    proof (cases sg)
      case True
      then show ?thesis using False less.prems s t1 t2 k by (subst tlk_wait.simps) auto
    next
      case ns: False
      have e: "tlk_wait env reg ticks t = tlk_wait env reg (ticks + 1) t2"
        using False ns less.prems s t1 k by (subst tlk_wait.simps) auto
      have "nat (tk_timeout t2 - (ticks + 1)) < nat (tk_timeout t - ticks)" using False t2 by simp
      from less.hyps [OF this] less.prems t2(1) obtain e t3 where
        r: "tlk_wait env reg (ticks + 1) t2 = Some (e, t3)" "tk_timeout t3 = tk_timeout t2"
        "int (tk_sleeps t3) \<le> int (tk_sleeps t2) + max 0 (tk_timeout t2 - (ticks + 1))" by auto
      moreover have "int (tk_sleeps t2) + max 0 (tk_timeout t2 - (ticks + 1)) \<le> int (tk_sleeps t) + max 0 (tk_timeout t - ticks)"
        using False t2 by simp
      ultimately show ?thesis unfolding e using t2 by simp
    qed
  qed
qed

section \<open>Reading\<close>

definition moved :: "tacc list \<Rightarrow> tlk \<Rightarrow> tlk \<Rightarrow> bool" where
  "moved l t t1 \<longleftrightarrow> tk_log t1 = tk_log t @ l \<and> polite None l \<and> tk_timeout t1 = tk_timeout t"

lemma moved_trans: "moved k t t1 \<Longrightarrow> moved l t1 t2 \<Longrightarrow> moved (k @ l) t t2"
  by (simp add: moved_def polite_append)

lemma moved_refl: "moved [] t t"
  by (simp add: moved_def)

definition can_fault :: "tenv \<Rightarrow> bool" where
  "can_fault env \<longleftrightarrow> (\<exists>k. t_fault env k)"

lemma fault_can: "tk_fault env t = (True, t1) \<Longrightarrow> can_fault env"
  by (auto simp: tk_fault_def can_fault_def)

lemma fault_moved: "tk_fault env t = (f, t1) \<Longrightarrow> moved [] t t1"
  by (auto simp: tk_fault_def moved_def)

lemma polls_moved:
  assumes "tk_log t1 = tk_log t @ l" "polls_of reg l" "tk_timeout t1 = tk_timeout t" "reg = TR_ISTAT \<or> reg = TR_OSTAT"
  shows "moved l t t1" "data_in l = []" "data_out l = []"
  using polite_polls [OF assms(2,4)] assms(1,3) by (auto simp: moved_def)

text \<open>A move after the poll that allows it.\<close>

lemma in_moved:
  assumes "moved k t t1" "k \<noteq> []" "tk_ready TR_ISTAT (last k)" "acc_rd env TR_IN t1 = (b, t2)"
  shows "moved (k @ [TRd TR_IN b]) t t2"
  using assms(1) acc_rd_log [OF assms(4)] polite_snoc_move [of None k False b] assms(2,3) by (auto simp: moved_def)

lemma out_moved:
  assumes "moved k t t1" "k \<noteq> []" "tk_ready TR_OSTAT (last k)"
  shows "moved (k @ [TWr TR_OUT b]) t (acc_wr TR_OUT b t1)"
  using assms polite_snoc_move [of None k True b] by (auto simp: moved_def acc_wr_def)

lemma take_bytes_log:
  "take_bytes env n t = (bs, t1) \<Longrightarrow> \<exists>l. moved l t t1 \<and> data_in l = bs \<and> data_out l = [] \<and> length bs \<le> n"
proof (induction n arbitrary: t bs)
  case 0
  then show ?case by (intro exI [of _ "[]"]) (simp add: moved_refl)
next
  case (Suc n)
  obtain ready s where s: "tlk_spin env TR_ISTAT SPIN t = (ready, s)" by fastforce
  from spin_log [OF s] obtain k where k: "tk_log s = tk_log t @ k" "polls_of TR_ISTAT k" "tk_timeout s = tk_timeout t"
    "ready \<longrightarrow> k \<noteq> [] \<and> tk_ready TR_ISTAT (last k)" by blast
  note m = polls_moved [OF k(1-3) disjI1 [OF refl]]
  show ?case
  proof (cases ready)
    case True
    obtain b s1 where b: "acc_rd env TR_IN s = (b, s1)" by fastforce
    obtain bs' where r: "take_bytes env n s1 = (bs', t1)" "bs = b # bs'"
      using Suc.prems True s b by (auto split: prod.splits)
    from Suc.IH [OF r(1)] obtain l where l: "moved l s1 t1" "data_in l = bs'" "data_out l = []" "length bs' \<le> n" by blast
    have "moved ((k @ [TRd TR_IN b]) @ l) t t1"
      by (rule moved_trans [OF in_moved [OF m(1) _ _ b] l(1)]) (use k(4) True in auto)
    then show ?thesis using l m r(2) by (intro exI [of _ "(k @ [TRd TR_IN b]) @ l"]) simp
  next
    case False
    then have "bs = []" "t1 = s" using Suc.prems s by auto
    then show ?thesis using m by (intro exI [of _ k]) simp
  qed
qed

lemma read_go_log:
  "read_go env resid got t = (e, out, t1) \<Longrightarrow> \<exists>l d. moved l t t1 \<and> out = got @ d \<and> prefix d (data_in l) \<and> (e = None \<longrightarrow> d = data_in l) \<and>
     length d \<le> resid \<and> data_out l = [] \<and> (e = None \<or> e = Some T_EFAULT \<and> can_fault env)"
proof (induction env resid got t arbitrary: e out rule: read_go.induct)
  case (1 env resid got t)
  show ?case
  proof (cases "resid = 0")
    case True
    then show ?thesis using "1.prems" by (intro exI [of _ "[]"]) (simp add: read_go.simps [of env 0] moved_refl)
  next
    case False
    define n where "n = min CHUNK resid"
    obtain bs s where b: "take_bytes env n t = (bs, s)" by fastforce
    from take_bytes_log [OF b] obtain k where k: "moved k t s" "data_in k = bs" "data_out k = []" "length bs \<le> n" by blast
    obtain f s1 where f: "(if bs \<noteq> [] then tk_fault env s else (False, s)) = (f, s1)" by fastforce
    then have "moved [] s s1" "f \<Longrightarrow> can_fault env" using fault_moved moved_refl fault_can by (auto split: if_splits)
    then have m: "moved k t s1" "f \<Longrightarrow> can_fault env" using moved_trans [OF k(1), of "[]" s1] by simp_all
    have e: "read_go env resid got t = (if f then (Some T_EFAULT, got, s1) else if length bs < n then (None, got @ bs, s1)
        else read_go env (resid - n) (got @ bs) s1)"
      using False b f by (subst read_go.simps) (simp add: n_def)
    have n: "n \<le> resid" by (simp add: n_def)
    show ?thesis
    proof (cases "f \<or> length bs < n")
      case True
      then show ?thesis using "1.prems" m k n unfolding e
        by (intro exI [of _ k] exI [of _ "if f then [] else bs"]) (auto split: if_splits)
    next
      case again: False
      have g: "read_go env (resid - n) (got @ bs) s1 = (e, out, t1)" using "1.prems" again e by auto
      from "1.IH" [OF False n_def b [symmetric] f [symmetric] _ _ g] again
      obtain l d where l: "moved l s1 t1" "out = (got @ bs) @ d" "prefix d (data_in l)" "e = None \<longrightarrow> d = data_in l"
        "length d \<le> resid - n" "data_out l = []" "e = None \<or> e = Some T_EFAULT \<and> can_fault env" by blast
      then show ?thesis using moved_trans [OF m(1) l(1)] k n again
        by (intro exI [of _ "k @ l"] exI [of _ "bs @ d"]) auto
    qed
  qed
qed

section \<open>Writing\<close>

lemma send_bytes_log:
  "send_bytes env bs t = Some (e, k, t1) \<Longrightarrow> \<exists>l. moved l t t1 \<and> data_out l = take (length bs - k) bs \<and> data_in l = [] \<and>
     k \<le> length bs \<and> (e = None \<longleftrightarrow> k = 0) \<and> e \<noteq> Some T_EFAULT"
proof (induction env bs t rule: send_bytes.induct)
  case (1 env t)
  then show ?case by (intro exI [of _ "[]"]) (simp add: moved_refl)
next
  case (2 env b bs t)
  obtain v s where v: "acc_rd env TR_OSTAT t = (v, s)" by fastforce
  have p: "polls_of TR_OSTAT [TRd TR_OSTAT v]" by (simp add: polls_simps)
  have a: "tk_log s = tk_log t @ [TRd TR_OSTAT v]" "tk_timeout s = tk_timeout t" using acc_rd_log [OF v] by simp_all
  obtain e1 s1 where w: "(if v AND 1 = 0 then tlk_wait env TR_OSTAT 0 s else Some (None, s)) = Some (e1, s1)"
    using "2.prems" v by (cases "if v AND 1 = 0 then tlk_wait env TR_OSTAT 0 s else Some (None, s)") auto
  have "\<exists>q. tk_log s1 = tk_log t @ q \<and> polls_of TR_OSTAT q \<and> tk_timeout s1 = tk_timeout t \<and>
      (e1 = None \<longrightarrow> q \<noteq> [] \<and> tk_ready TR_OSTAT (last q)) \<and> e1 \<noteq> Some T_EFAULT"
  proof (cases "v AND 1 = 0")
    case True
    then have "waited TR_OSTAT e1 s s1" using w wait_log [of env TR_OSTAT 0 s "(e1, s1)"] by simp
    then obtain l where "tk_log s1 = tk_log s @ l" "polls_of TR_OSTAT l" "e1 = None \<longrightarrow> l \<noteq> [] \<and> tk_ready TR_OSTAT (last l)"
      "tk_timeout s1 = tk_timeout s" "e1 \<noteq> Some T_EFAULT" by (rule waitedE)
    then show ?thesis using a p by (intro exI [of _ "[TRd TR_OSTAT v] @ l"]) (auto simp: polls_simps)
  next
    case False
    then show ?thesis using w a p by (intro exI [of _ "[TRd TR_OSTAT v]"]) (auto simp: tk_ready_def)
  qed
  then obtain q where q: "tk_log s1 = tk_log t @ q" "polls_of TR_OSTAT q" "tk_timeout s1 = tk_timeout t"
    "e1 = None \<longrightarrow> q \<noteq> [] \<and> tk_ready TR_OSTAT (last q)" "e1 \<noteq> Some T_EFAULT" by blast
  note m = polls_moved [OF q(1-3) disjI2 [OF refl]]
  show ?case
  proof (cases e1)
    case None
    then have g: "send_bytes env bs (acc_wr TR_OUT b s1) = Some (e, k, t1)" using "2.prems" v w by simp
    from "2.IH" [OF v [symmetric] w refl _ g] None obtain l where
      l: "moved l (acc_wr TR_OUT b s1) t1" "data_out l = take (length bs - k) bs" "data_in l = []" "k \<le> length bs" "(e = None) = (k = 0)"
      "e \<noteq> Some T_EFAULT" by auto
    have "moved ((q @ [TWr TR_OUT b]) @ l) t t1" by (rule moved_trans [OF out_moved [OF m(1)] l(1)]) (use q(4) None in auto)
    then show ?thesis using l m by (intro exI [of _ "(q @ [TWr TR_OUT b]) @ l"]) (auto simp: Suc_diff_le)
  next
    case (Some x)
    then have "e = e1" "k = Suc (length bs)" "t1 = s1" using "2.prems" v w by auto
    then show ?thesis using m Some q(5) by (intro exI [of _ q]) auto
  qed
qed

lemma write_go_log:
  "write_go env bs sent t = Some (e, n, t1) \<Longrightarrow> \<exists>l k. moved l t t1 \<and> n = sent + k \<and> k \<le> length bs \<and> data_out l = take k bs \<and>
     data_in l = [] \<and> (e = None \<longrightarrow> k = length bs \<or> n \<noteq> 0) \<and> (e \<noteq> None \<and> e \<noteq> Some T_EFAULT \<longrightarrow> n = 0) \<and> (e = Some T_EFAULT \<longrightarrow> can_fault env)"
proof (induction env bs sent t arbitrary: e n rule: write_go.induct)
  case (1 env bs sent t)
  show ?case
  proof (cases "bs = []")
    case True
    then show ?thesis using "1.prems" by (intro exI [of _ "[]"]) (simp add: write_go.simps [of env "[]"] moved_refl)
  next
    case False
    define m where "m = min CHUNK (length bs)"
    obtain f s where f: "tk_fault env t = (f, s)" by fastforce
    note mf = fault_moved [OF f]
    have ff: "f \<Longrightarrow> can_fault env" using f fault_can by auto
    have m: "m \<le> length bs" by (simp add: m_def)
    show ?thesis
    proof (cases f)
      case True
      then have "e = Some T_EFAULT" "n = sent" "t1 = s" using "1.prems" False f by (simp_all add: write_go.simps [of env bs])
      then show ?thesis using mf ff True by (intro exI [of _ "[]"] exI [of _ 0]) simp
    next
      case nf: False
      obtain e1 k s1 where w: "send_bytes env (take m bs) s = Some (e1, k, s1)"
        using "1.prems" False f nf by (cases "send_bytes env (take m bs) s") (auto simp: write_go.simps [of env bs] m_def)
      from send_bytes_log [OF w] m obtain l where
        l: "moved l s s1" "data_out l = take (m - k) (take m bs)" "data_in l = []" "k \<le> m" "(e1 = None) = (k = 0)" "e1 \<noteq> Some T_EFAULT" by auto
      have ml: "moved l t s1" using moved_trans [OF mf l(1)] by simp
      show ?thesis
      proof (cases e1)
        case None
        then have g: "write_go env (drop m bs) (sent + m) s1 = Some (e, n, t1)"
          using "1.prems" False f nf w by (simp add: write_go.simps [of env bs] m_def Let_def)
        from "1.IH" [OF False m_def f [symmetric] nf w refl refl _ g] None obtain q j where
          q: "moved q s1 t1" "n = sent + m + j" "j \<le> length (drop m bs)" "data_out q = take j (drop m bs)" "data_in q = []"
            "e = None \<longrightarrow> j = length (drop m bs) \<or> n \<noteq> 0" "e \<noteq> None \<and> e \<noteq> Some T_EFAULT \<longrightarrow> n = 0" "e = Some T_EFAULT \<longrightarrow> can_fault env" by auto
        have "data_out (l @ q) = take (m + j) bs" using l q None m by (simp add: take_add)
        then show ?thesis using moved_trans [OF ml q(1)] q l m by (intro exI [of _ "l @ q"] exI [of _ "m + j"]) auto
      next
        case (Some x)
        have p: "write_go env bs sent t = Some (if sent + (m - k) \<noteq> 0 then None else e1, sent + (m - k), s1)"
          using Some False f nf w by (simp add: write_go.simps [of env bs] m_def Let_def)
        have r: "e = (if sent + (m - k) \<noteq> 0 then None else e1)" "n = sent + (m - k)" "t1 = s1"
          using "1.prems" unfolding p by (auto split: if_splits)
        then show ?thesis using ml l m Some by (intro exI [of _ l] exI [of _ "m - k"]) auto
      qed
    qed
  qed
qed


lemma read_log:
  assumes "tlkread env n t = Some (e, bs, t1)"
  shows "\<exists>l. tk_log t1 = tk_log t @ l \<and> polite None l \<and> length bs \<le> n \<and> prefix bs (data_in l) \<and>
    (e \<noteq> Some T_EFAULT \<longrightarrow> bs = data_in l) \<and> data_out l = [] \<and>
    (e = Some T_EFAULT \<longrightarrow> can_fault env) \<and> (e \<noteq> None \<and> e \<noteq> Some T_EFAULT \<longrightarrow> bs = [])"
proof -
  obtain e1 s where w: "tlk_wait env TR_ISTAT 0 t = Some (e1, s)"
    using assms by (cases "tlk_wait env TR_ISTAT 0 t") (auto simp: tlkread_def)
  then have "waited TR_ISTAT e1 t s" using wait_log [OF w] by simp
  then obtain k where k: "tk_log s = tk_log t @ k" "polls_of TR_ISTAT k" "tk_timeout s = tk_timeout t" and e1: "e1 \<noteq> Some T_EFAULT"
    by (rule waitedE)
  note m = polls_moved [OF k disjI1 [OF refl]]
  show ?thesis
  proof (cases e1)
    case None
    then have "read_go env n [] s = (e, bs, t1)" using assms w by (simp add: tlkread_def)
    from read_go_log [OF this] obtain l d where
      l: "moved l s t1" "bs = d" "prefix d (data_in l)" "e \<noteq> Some T_EFAULT \<longrightarrow> d = data_in l" "length d \<le> n" "data_out l = []"
      "e = None \<or> e = Some T_EFAULT \<and> can_fault env" by auto
    then show ?thesis using moved_trans [OF m(1) l(1)] m by (intro exI [of _ "k @ l"]) (auto simp: moved_def)
  next
    case (Some x)
    then show ?thesis using assms w m e1 by (intro exI [of _ k]) (auto simp: tlkread_def moved_def)
  qed
qed

lemma tick_timeout: "tlk_tick env t = (s, t1) \<Longrightarrow> tk_timeout t1 = tk_timeout t"
  by (auto simp: tlk_tick_def)

lemma send_returns: "tk_timeout t \<noteq> 0 \<Longrightarrow> \<exists>e k t1. send_bytes env bs t = Some (e, k, t1) \<and> tk_timeout t1 = tk_timeout t"
proof (induction bs arbitrary: t)
  case (Cons b bs)
  obtain v s where v: "acc_rd env TR_OSTAT t = (v, s)" by fastforce
  have s: "tk_timeout s = tk_timeout t" using acc_rd_log [OF v] by simp
  obtain e1 s1 where w: "(if v AND 1 = 0 then tlk_wait env TR_OSTAT 0 s else Some (None, s)) = Some (e1, s1)" "tk_timeout s1 = tk_timeout t"
    using wait_returns [of s env TR_OSTAT 0] Cons.prems s by (cases "v AND 1 = 0") auto
  have "tk_timeout (acc_wr TR_OUT b s1) \<noteq> 0" "tk_timeout (acc_wr TR_OUT b s1) = tk_timeout t"
    using w(2) Cons.prems by (simp_all add: acc_wr_def)
  then show ?case using Cons.IH [of "acc_wr TR_OUT b s1"] v w by (cases e1) auto
qed simp

lemma calls_return:
  assumes "tk_timeout t \<noteq> 0"
  shows "(\<exists>r. tlkread env n t = Some r) \<and> (\<exists>r. tlkwrite env bs t = Some r)"
proof
  obtain e t1 where "tlk_wait env TR_ISTAT 0 t = Some (e, t1)" using wait_returns [OF assms] by blast
  then show "\<exists>r. tlkread env n t = Some r" by (simp add: tlkread_def del: split_paired_Ex)
  have "\<exists>r. write_go env bs sent t = Some r" for sent
    using assms
  proof (induction env bs sent t rule: write_go.induct)
    case (1 env bs sent t)
    show ?case
    proof (cases "bs = []")
      case False
      define m where "m = min CHUNK (length bs)"
      obtain f s where f: "tk_fault env t = (f, s)" by fastforce
      then have s: "tk_timeout s = tk_timeout t" by (auto simp: tk_fault_def)
      obtain e k s1 where w: "send_bytes env (take m bs) s = Some (e, k, s1)" "tk_timeout s1 = tk_timeout t"
        using send_returns [of s env "take m bs"] "1.prems" s by auto
      show ?thesis
      proof (cases "f \<or> e \<noteq> None")
        case True
        then show ?thesis using False f w by (subst write_go.simps) (auto simp: m_def Let_def)
      next
        case g: False
        have "\<exists>r. write_go env (drop m bs) (sent + m) s1 = Some r"
          using "1.IH" [OF False m_def f [symmetric] _ w(1) refl refl] g w(2) "1.prems" by simp
        then show ?thesis using False f w g by (subst write_go.simps) (auto simp: m_def Let_def)
      qed
    qed (simp add: write_go.simps [of env "[]"])
  qed
  then show "\<exists>r. tlkwrite env bs t = Some r" by (simp add: tlkwrite_def)
qed

section \<open>A link that is always ready\<close>

definition demo_card :: "byte \<Rightarrow> tenv" where
  "demo_card v = \<lparr>t_val = (\<lambda>_ _ _. v), t_berr = (\<lambda>_ _ _. False), t_long = (\<lambda>_. None), t_sig = (\<lambda>_. False),
     t_fault = (\<lambda>_. False), t_lbolt = (\<lambda>_. 0), t_HZ = 100\<rparr>"

definition demo_link :: tlk where
  "demo_link = tlk_init1 (demo_card 1) 0xFEFFFAC0"

lemma link_demo_write: "\<exists>t1. tlkwrite (demo_card 1) [5, 6] demo_link = Some (None, 2, t1)"
  by (simp add: tlkwrite_def write_go.simps CHUNK_def tk_fault_def acc_rd_def demo_card_def)

section \<open>The properties\<close>

text \<open>
  Reading a link, on any card: the input register is read only right after a poll that found a
  byte there, and what the user gets is exactly the bytes taken, in order, and no more than asked
  for; when the user's buffer refuses them, what was delivered before is a part of them.
\<close>

theorem tlk_read_bytes:
  assumes "tlkread env n t = Some (e, bs, t1)"
  shows "\<exists>l. tk_log t1 = tk_log t @ l \<and> polite None l \<and> length bs \<le> n \<and> prefix bs (data_in l) \<and>
    (e \<noteq> Some T_EFAULT \<longrightarrow> bs = data_in l) \<and> data_out l = []"
  using read_log [OF assms] by blast

text \<open>
  C39. Writing a link, on any card: every byte goes out right after a poll that found the link ready, and
  what goes out is exactly the first \<open>n\<close> bytes of what was given, \<open>n\<close> the number the call says it moved;
  it answers a timeout or a signal only when it moved none, and without an error it moved all or at least one.
\<close>

theorem tlk_write_bytes:
  assumes "tlkwrite env bs t = Some (e, n, t1)"
  shows "\<exists>l. tk_log t1 = tk_log t @ l \<and> polite None l \<and> n \<le> length bs \<and> data_out l = take n bs \<and> data_in l = [] \<and>
    (e = None \<longrightarrow> n = length bs \<or> n \<noteq> 0) \<and> (e \<noteq> None \<and> e \<noteq> Some T_EFAULT \<longrightarrow> n = 0)"
  using write_go_log [OF assms [unfolded tlkwrite_def]] by (auto simp: moved_def)

theorem tlk_write_bytes_witness:
  "\<exists>t1 l. tlkwrite (demo_card 1) [5, 6] demo_link = Some (None, 2, t1) \<and> tk_log t1 = tk_log demo_link @ l \<and> data_out l = [5, 6]"
proof -
  obtain t1 where w: "tlkwrite (demo_card 1) [5, 6] demo_link = Some (None, 2, t1)" using link_demo_write by blast
  from tlk_write_bytes [OF w] obtain l where "tk_log t1 = tk_log demo_link @ l" "data_out l = take 2 [5, 6]" by blast
  then show ?thesis using w by auto
qed

text \<open>
  With a timeout set every read and every write of a link returns, whatever the card does.
\<close>

theorem tlk_calls_return:
  assumes "tk_timeout t \<noteq> 0"
  shows "(\<exists>r. tlkread env n t = Some r) \<and> (\<exists>r. tlkwrite env bs t = Some r)"
  by (rule calls_return [OF assms])

text \<open>
  A timeout longer than a signed long can count in ticks is accepted, and then a wait gives up at
  once: the ticks come out negative.
\<close>

theorem tlk_long_timeout:
  assumes "arg * t_HZ env + 999 = 2147483648 + d" "1000 \<le> d" "d \<le> 2147483648 - 1000" "0 < arg"
    "\<And>l. t_val env (tk_base t) l reg AND 1 = 0"
  shows "\<exists>t1 t2. tlkioctl env priv TLK_TIMEOUT arg t = Some (TOk, t1) \<and> tk_timeout t1 < 0 \<and>
    tlk_wait env reg 0 t1 = Some (Some T_EIO, t2) \<and> tk_sleeps t2 = tk_sleeps t"
proof -
  have "s32 (s32 (arg * t_HZ env) + 999) = d - 2147483648"
  proof -
    have "arg * t_HZ env + 2147483648 = (d - 999) + 4294967296" using assms(1) by simp
    then have "(arg * t_HZ env + 2147483648) mod 4294967296 = (d - 999) mod 4294967296" by (simp only: mod_add_self2)
    also have "\<dots> = d - 999" using assms(2,3) by simp
    finally have "(arg * t_HZ env + 2147483648) mod 4294967296 = d - 999" .
    then have "s32 (arg * t_HZ env) = d - 999 - 2147483648" by (simp add: s32_def)
    then show ?thesis using assms(2,3) by (simp add: s32_def)
  qed
  then have c: "cdiv (s32 (s32 (arg * t_HZ env) + 999)) 1000 < 0" using assms(2,3) by (simp add: cdiv_def)
  define t1 where "t1 = t\<lparr>tk_timeout := cdiv (s32 (s32 (arg * t_HZ env) + 999)) 1000\<rparr>"
  have spin: "\<exists>s1. tlk_spin env reg n s = (False, s1) \<and> tk_timeout s1 = tk_timeout s \<and> tk_sleeps s1 = tk_sleeps s"
    if "tk_base s = tk_base t" for n s
    using that
  proof (induction n arbitrary: s)
    case (Suc n)
    let ?s = "s\<lparr>tk_log := tk_log s @ [TRd reg (t_val env (tk_base s) (tk_log s) reg)]\<rparr>"
    have "tlk_spin env reg (Suc n) s = tlk_spin env reg n ?s"
      using assms(5) Suc.prems by (simp add: acc_rd_def Let_def)
    then show ?case using Suc.IH [of ?s] Suc.prems by simp
  qed simp
  obtain s1 where s1: "tlk_spin env reg SPIN t1 = (False, s1)" "tk_timeout s1 = tk_timeout t1" "tk_sleeps s1 = tk_sleeps t"
    using spin [of t1 SPIN] by (auto simp: t1_def)
  have "tlkioctl env priv TLK_TIMEOUT arg t = Some (TOk, t1)" using assms(4) by (simp add: tlkioctl_def t1_def)
  moreover have "tk_timeout t1 < 0" using c by (simp add: t1_def)
  moreover from this have "tlk_wait env reg 0 t1 = Some (Some T_EIO, s1)" using s1 by (subst tlk_wait.simps) simp
  ultimately show ?thesis using s1(3) by blast
qed

text \<open>
  An open of a link that is open, when no byte was waiting, reads the input register, and only
  then finds the link busy: a byte that came in between is lost to the process that has it open.
\<close>

theorem tlk_busy_open_reads:
  assumes "tk_open t" "\<And>l r. \<not> t_berr env (tk_base t) l r" "t_val env (tk_base t) (tk_log t) TR_ISTAT AND 1 = 0"
  shows "\<exists>t1 l v. tlkopen1 env t = (Some T_EBUSY, t1) \<and> tk_log t1 = tk_log t @ l @ [TRd TR_IN v]"
  using assms by (auto simp: tlkopen1_def tlk_rd_def acc_rd_def Let_def)

text \<open>
  C40. The diagnostic with a pause of -2 never returns from a link where no byte comes: the pause makes a poll
  count nothing against the limit.
\<close>

theorem tlk_diag_never_returns:
  assumes "\<not> t_fault env (tk_moves t)" "dg_mode u = 5" "dg_n u = -2" "\<And>l. t_val env (tk_base t) l TR_ISTAT AND 1 = 0"
  shows "tlkioctl env True (TLK_DIAG u) arg t = None"
proof -
  have step: "\<not> (w = 0 \<and> tot = 0 \<and> (\<forall>l. t_val e (tk_base s) l reg AND 1 = 0))" if "diag_polls e reg w tot c s = Some y" for e reg w tot c s y
  proof (rule diag_polls.raw_induct [of "\<lambda>e reg w tot c s y. \<not> (w = 0 \<and> tot = 0 \<and> (\<forall>l. t_val e (tk_base s) l reg AND 1 = 0))", OF _ that],
      goal_cases)
    case (1 f e reg w tot c s y)
    obtain v s1 where v: "acc_rd e reg s = (v, s1)" by fastforce
    then have "tk_base s1 = tk_base s" "v = t_val e (tk_base s) (tk_log s) reg" by (auto simp: acc_rd_def Let_def)
    then show ?case using 1(1) [of e reg w tot "s32 (c + 1)" s1 y] 1(2) v by (auto simp: s32_def TLK_DIAG_LIMIT_def split: if_splits)
  qed
  have base: "tk_base (snd (reads env reg n s)) = tk_base s" for reg n s
  proof (induction n arbitrary: s)
    case (Suc n)
    obtain v s1 where v: "acc_rd env reg s = (v, s1)" by fastforce
    obtain vs s2 where r: "reads env reg n s1 = (vs, s2)" by fastforce
    have "tk_base s1 = tk_base s" using v by (auto simp: acc_rd_def Let_def)
    then show ?case using Suc.IH [of s1] v r by simp
  qed simp
  obtain s where s: "tk_fault env t = (False, s)" "tk_base s = tk_base t" using assms(1) by (auto simp: tk_fault_def)
  obtain b0 s0 where s0: "tk_lbolt env s = (b0, s0)" "tk_base s0 = tk_base t" using s(2) by (auto simp: tk_lbolt_def)
  obtain vs s1 where s1: "reads env TR_ISTAT 400000 s0 = (vs, s1)" by fastforce
  then have b1: "tk_base s1 = tk_base t" using base [of TR_ISTAT 400000 s0] s0(2) by simp
  obtain b2 s2 where s2: "tk_lbolt env s1 = (b2, s2)" "tk_base s2 = tk_base t" using b1 by (auto simp: tk_lbolt_def)
  have pn: "diag_polls env TR_ISTAT 0 0 0 s2 = None"
    using step [of env TR_ISTAT 0 0 0 s2] assms(4) s2(2) by (cases "diag_polls env TR_ISTAT 0 0 0 s2") auto
  have "diag_bytes env True 0 (Suc 63) 0 x s2 = None" for x unfolding diag_bytes.simps using pn by simp
  moreover have n: "(64 :: nat) = Suc 63" by simp
  ultimately have d: "diag_bytes env True 0 64 0 x s2 = None" for x by (simp only: n)
  have p: "s32 (1 + cdiv (-2) 2) = 0" by (simp add: cdiv_def s32_def)
  have "tlk_diag env u t = None" using assms(2,3) s s0 s1 s2 p d by (simp add: tlk_diag_def Let_def)
  then show ?thesis by (simp add: tlkioctl_def)
qed

theorem tlk_diag_never_returns_witness:
  "tlkioctl (demo_card 0) True (TLK_DIAG \<lparr>dg_mode = 5, dg_n = -2, dg_nspoll = 0, dg_polls = replicate 64 0, dg_data = replicate 64 0\<rparr>)
     0 demo_link = None"
  by (rule tlk_diag_never_returns) (simp_all add: demo_card_def)

end
