(* ===== verification/LnkProps.thy ===== *)
theory LnkProps
  imports Lnk TlkProps
begin

unbundle bit_operations_syntax

text \<open>
  What the link module promises its caller through the driver: the count it answers is the bytes
  that passed on the link, whatever timeouts and signals broke the driver's calls off.
\<close>

text \<open>The accesses a part of a call made to its link.\<close>

definition ran :: "tacc list \<Rightarrow> lnk \<Rightarrow> lnk \<Rightarrow> bool" where
  "ran l st st1 \<longleftrightarrow> tk_log (lk_link st1) = tk_log (lk_link st) @ l \<and> polite None l \<and> lk_fd st1 = lk_fd st \<and>
     length (lk_ts st1) = length (lk_ts st)"

lemma ran_trans: "ran k st st1 \<Longrightarrow> ran l st1 st2 \<Longrightarrow> ran (k @ l) st st2"
  by (simp add: ran_def polite_append)

text \<open>What a call moved: \<open>n\<close> bytes of \<open>bs\<close> out, or the bytes \<open>ds\<close> in.\<close>

definition carried :: "bool \<Rightarrow> byte list \<Rightarrow> nat \<Rightarrow> byte list \<Rightarrow> tacc list \<Rightarrow> bool" where
  "carried out bs n ds l \<longleftrightarrow> (if out then data_out l = take n bs \<and> data_in l = [] \<and> ds = [] else data_in l = ds \<and> data_out l = [] \<and> length ds = n) \<and>
     n \<le> length bs"

lemma carried_append:
  "carried out bs n ds k \<Longrightarrow> carried out (drop n bs) m es l \<Longrightarrow> carried out bs (n + m) (ds @ es) (k @ l)"
  by (auto simp: carried_def take_add split: if_splits)

lemma call_carried:
  assumes "link_call env out bs t = Some (e, n, ds, t1)" "\<not> can_fault env"
  shows "\<exists>l. tk_log t1 = tk_log t @ l \<and> polite None l \<and> carried out bs n ds l \<and> (e \<noteq> None \<longrightarrow> n = 0)"
proof (cases out)
  case True
  then have w: "tlkwrite env bs t = Some (e, n, t1)" "ds = []" using assms(1) by (auto simp: link_call_def)
  from write_go_log [OF w(1) [unfolded tlkwrite_def]] w(2) True assms(2) show ?thesis by (auto simp: moved_def carried_def)
next
  case False
  then have r: "tlkread env (length bs) t = Some (e, ds, t1)" "n = length ds" using assms(1) by (auto simp: link_call_def)
  from read_log [OF r(1)] r(2) False assms(2) show ?thesis by (auto simp: carried_def)
qed

lemma put_link: "lk_fd st = Some m \<Longrightarrow> m < length (lk_ts st) \<Longrightarrow> lk_link (lk_put t st) = t"
  by (simp add: lk_link_def lk_put_def)

lemma timeout_log: "tlkioctl env priv TLK_TIMEOUT arg t = Some (a, t1) \<Longrightarrow> tk_log t1 = tk_log t"
  by (auto simp: tlkioctl_def split: if_splits)

definition move_post :: "bool \<Rightarrow> byte list \<Rightarrow> nat \<Rightarrow> byte list \<Rightarrow> lnk \<Rightarrow> int \<times> byte list \<times> lnk \<Rightarrow> bool" where
  "move_post out bs n got st r \<longleftrightarrow> (case r of (ans, got1, st1) \<Rightarrow>
     \<exists>l ds k. ran l st st1 \<and> carried out (drop n bs) k ds l \<and> got1 = got @ ds \<and>
       (ans = int (n + k) \<or> ans = ER_LINK_SOFT \<and> n + k = 0))"

lemma move_go_post:
  assumes "move_go env out bs fin n got st = Some r" "\<not> can_fault (l_drv env)" "lk_fd st = Some m" "m < length (lk_ts st)" "n \<le> length bs"
  shows "move_post out bs n got st r"
proof -
  have "\<not> can_fault (l_drv env) \<and> lk_fd st = Some m \<and> m < length (lk_ts st) \<and> n \<le> length bs \<longrightarrow> move_post out bs n got st r"
  proof (rule move_go.raw_induct [of "\<lambda>env out bs fin n got st r. \<not> can_fault (l_drv env) \<and> lk_fd st = Some m \<and>
      m < length (lk_ts st) \<and> n \<le> length bs \<longrightarrow> move_post out bs n got st r", OF _ assms(1)], goal_cases)
    case (1 f env out bs fin n got st r)
    note IH = 1(1) and res = 1(2)
    show ?case
    proof
      assume a: "\<not> can_fault (l_drv env) \<and> lk_fd st = Some m \<and> m < length (lk_ts st) \<and> n \<le> length bs"
      obtain left st1 where n: "(if fin \<noteq> 0 then (case lnk_now env st of (now, s) \<Rightarrow> (cdiv (s32 (s32 (fin - now) * 1000)) (lk_hz st), s)) else (0, st)) =
          (left, st1)" by fastforce
      then have s1: "lk_fd st1 = lk_fd st" "lk_ts st1 = lk_ts st" "lk_link st1 = lk_link st"
        by (auto simp: lnk_now_def lk_link_def split: if_splits)
      have q: "ran [] st st1" "carried out (drop n bs) 0 [] []" by (simp_all add: ran_def s1 carried_def)
      show "move_post out bs n got st r"
      proof (cases "n \<ge> length bs \<or> fin \<noteq> 0 \<and> left \<le> 0")
        case True
        have "ran [] st st" by (simp add: ran_def)
        moreover have "r = (int n, got, st) \<or> r = (int n, got, st1)" using True res n by (auto split: if_splits)
        ultimately show ?thesis using q unfolding move_post_def by (auto intro!: exI [of _ "[]"] exI [of _ "0 :: nat"])
      next
        case False
        have rn: "(case tlkioctl (l_drv env) False TLK_TIMEOUT left (lk_link st1) of
             None \<Rightarrow> None
           | Some (a, t1) \<Rightarrow>
               (case link_call (l_drv env) out (drop n bs) t1 of
                  None \<Rightarrow> None
                | Some (e, k, ds, t2) \<Rightarrow>
                    let st2 = lk_put t2 st1
                    in if e = None \<and> k > 0 then f env out bs fin (n + k) (got @ ds) st2
                       else if e = Some T_EINTR \<or> e = Some T_EIO then f env out bs fin n got st2
                       else Some (if n \<noteq> 0 then int n else ER_LINK_SOFT, got, st2))) = Some r"
          using res False n by (simp split: if_splits)
        then obtain an t1 where t1: "tlkioctl (l_drv env) False TLK_TIMEOUT left (lk_link st1) = Some (an, t1)"
          by (cases "tlkioctl (l_drv env) False TLK_TIMEOUT left (lk_link st1)") auto
        obtain e k ds t2 where c: "link_call (l_drv env) out (drop n bs) t1 = Some (e, k, ds, t2)"
          using rn t1 by (cases "link_call (l_drv env) out (drop n bs) t1") auto
        define st2 where "st2 = lk_put t2 st1"
        have st2: "lk_link st2 = t2" "lk_fd st2 = Some m" "m < length (lk_ts st2)" "length (lk_ts st2) = length (lk_ts st)"
          using a s1 by (auto simp: st2_def put_link) (simp_all add: lk_put_def)
        obtain l where l: "tk_log t2 = tk_log t1 @ l" "polite None l" "carried out (drop n bs) k ds l" "e \<noteq> None \<longrightarrow> k = 0"
          using call_carried [OF c] a by blast
        have rl: "ran l st st2" using l timeout_log [OF t1] st2 s1 a by (simp add: ran_def)
        have k: "n + k \<le> length bs" using l(3) False by (auto simp: carried_def)
        have z: "k = 0 \<Longrightarrow> ds = []" using l(3) by (auto simp: carried_def split: if_splits)
        consider (more) "e = None" "k > 0" "f env out bs fin (n + k) (got @ ds) st2 = Some r"
          | (again) "k = 0" "f env out bs fin n got st2 = Some r"
          | (stop) "k = 0" "r = (if n \<noteq> 0 then int n else ER_LINK_SOFT, got, st2)"
          using rn t1 c l(4) unfolding st2_def by (auto simp: Let_def split: if_splits)
        then show ?thesis
        proof cases
          case more
          have "move_post out bs (n + k) (got @ ds) st2 r" using IH [OF more(3)] a st2 k by simp
          then obtain l2 ds2 k2 where p: "ran l2 st2 (snd (snd r))" "carried out (drop (n + k) bs) k2 ds2 l2"
            "fst (snd r) = (got @ ds) @ ds2" "fst r = int (n + k + k2) \<or> fst r = ER_LINK_SOFT \<and> n + k + k2 = 0"
            unfolding move_post_def by (cases r) auto
          have "carried out (drop n bs) (k + k2) (ds @ ds2) (l @ l2)" using carried_append [OF l(3)] p(2) by (simp add: add.commute)
          then show ?thesis using ran_trans [OF rl p(1)] p(3,4) unfolding move_post_def
            by (cases r) (auto intro!: exI [of _ "l @ l2"] exI [of _ "ds @ ds2"] exI [of _ "k + k2"])
        next
          case again
          have "move_post out bs n got st2 r" using IH [OF again(2)] a st2 k by simp
          then obtain l2 ds2 k2 where p: "ran l2 st2 (snd (snd r))" "carried out (drop n bs) k2 ds2 l2"
            "fst (snd r) = got @ ds2" "fst r = int (n + k2) \<or> fst r = ER_LINK_SOFT \<and> n + k2 = 0"
            unfolding move_post_def by (cases r) auto
          have "carried out (drop n bs) k2 ds2 (l @ l2)" using carried_append [OF l(3)] p(2) again(1) z by simp
          then show ?thesis using ran_trans [OF rl p(1)] p(3,4) unfolding move_post_def
            by (cases r) (auto intro!: exI [of _ "l @ l2"] exI [of _ ds2] exI [of _ k2])
        next
          case stop
          then show ?thesis using rl l(3) z unfolding move_post_def by (auto intro!: exI [of _ l] exI [of _ "[] :: byte list"] exI [of _ "0 :: nat"])
        qed
      qed
    qed
  qed
  then show ?thesis using assms by blast
qed

section \<open>Timeouts\<close>

lemma cdiv_pos: "0 < a \<Longrightarrow> 0 < b \<Longrightarrow> cdiv a b = a div b"
  by (simp add: cdiv_def)

lemma cdiv_nonpos: "a \<le> 0 \<Longrightarrow> 0 < b \<Longrightarrow> cdiv a b \<le> 0"
  by (auto simp: cdiv_def sgn_if pos_imp_zdiv_nonneg_iff)

lemma call_returns: "tk_timeout t \<noteq> 0 \<Longrightarrow> \<exists>e n ds t1. link_call env out bs t = Some (e, n, ds, t1)"
  using calls_return [of t env "length bs" bs] by (auto simp: link_call_def)

text \<open>A timeout in milliseconds that fits comes to at least a tick.\<close>

lemma timeout_ticks:
  assumes "0 < left" "left * t_HZ env \<le> 2000000000" "0 < t_HZ env"
  shows "\<exists>t1. tlkioctl env priv TLK_TIMEOUT left t = Some (TOk, t1) \<and> tk_timeout t1 \<noteq> 0"
proof -
  define x where "x = left * t_HZ env"
  have "0 < x" using assms by (simp add: x_def)
  then have x: "1 \<le> x" by linarith
  have x2: "x \<le> 2000000000" using assms by (simp add: x_def)
  with x have "s32 (s32 x + 999) = x + 999" by (simp add: s32_id)
  moreover have "cdiv (x + 999) 1000 = (x + 999) div 1000" using x x2 by (intro cdiv_pos) simp_all
  moreover have "(x + 999) div 1000 \<noteq> 0" using x by simp
  ultimately show ?thesis using assms(1) by (simp add: tlkioctl_def x_def [symmetric])
qed

lemma move_returns:
  assumes "fin \<noteq> 0" "0 < lk_hz st" "lk_hz st = t_HZ (l_drv env)" "lk_clk st \<le> K" "fin \<le> l_times env K"
    "\<And>k. lk_clk st \<le> k \<Longrightarrow> k \<le> K \<Longrightarrow> \<bar>fin - l_times env k\<bar> \<le> 2000000"
  shows "\<exists>r. move_go env out bs fin n got st = Some r"
  using assms
proof (induction "K - lk_clk st" arbitrary: st n got rule: less_induct)
  case less
  show ?case
  proof (cases "n \<ge> length bs")
    case True
    then show ?thesis by (subst move_go.simps) simp
  next
    case nf: False
    define x where "x = fin - l_times env (lk_clk st)"
    define st1 where "st1 = st\<lparr>lk_clk := Suc (lk_clk st)\<rparr>"
    define left where "left = cdiv (x * 1000) (lk_hz st)"
    have x: "\<bar>x\<bar> \<le> 2000000" using less.prems(4,6) by (simp add: x_def)
    then have "s32 (s32 x * 1000) = x * 1000" by (simp add: s32_id)
    then have now: "(if fin \<noteq> 0 then (case lnk_now env st of (now, s) \<Rightarrow> (cdiv (s32 (s32 (fin - now) * 1000)) (lk_hz st), s)) else (0, st)) =
        (left, st1)" using less.prems(1) by (simp add: lnk_now_def left_def x_def st1_def)
    show ?thesis
    proof (cases "left \<le> 0")
      case True
      then show ?thesis using nf now less.prems(1) by (subst move_go.simps) simp
    next
      case False
      then have xp: "0 < x" using cdiv_nonpos [of "x * 1000" "lk_hz st"] less.prems(2) unfolding left_def by fastforce
      have "lk_clk st \<noteq> K" using xp less.prems(5) by (auto simp: x_def)
      then have K: "lk_clk st1 \<le> K" "K - lk_clk st1 < K - lk_clk st" using less.prems(4) by (auto simp: st1_def)
      have "left = x * 1000 div lk_hz st" unfolding left_def using xp less.prems(2) by (intro cdiv_pos) simp_all
      then have "left * lk_hz st \<le> x * 1000" using pos_mod_sign [OF less.prems(2), of "x * 1000"]
        by (simp add: minus_mod_eq_div_mult [symmetric])
      then have "left * t_HZ (l_drv env) \<le> 2000000000" using x less.prems(3) by simp
      then obtain t1 where t1: "tlkioctl (l_drv env) False TLK_TIMEOUT left (lk_link st1) = Some (TOk, t1)" "tk_timeout t1 \<noteq> 0"
        using timeout_ticks [of left "l_drv env" False "lk_link st1"] False less.prems(2,3) by auto
      obtain e k ds t2 where c: "link_call (l_drv env) out (drop n bs) t1 = Some (e, k, ds, t2)"
        using call_returns [OF t1(2)] by blast
      have IH: "\<exists>r. move_go env out bs fin n' got' (lk_put t2 st1) = Some r" for n' got'
        by (rule less.hyps) (use less.prems K in \<open>auto simp: lk_put_def st1_def\<close>)
      show ?thesis using nf now False t1 c less.prems(1) IH by (subst move_go.simps) (auto simp: Let_def)
    qed
  qed
qed

section \<open>A link that is always ready\<close>

definition demo_lenv :: lenv where
  "demo_lenv = \<lparr>l_drv = demo_card 1, l_times = (\<lambda>k. 1000 + int k), l_clktck = 100,
     l_minor = (\<lambda>n. if n = ''/dev/link0'' then Some 0 else None)\<rparr>"

definition demo_lnk :: lnk where
  "demo_lnk = \<lparr>lk_fd = Some 0, lk_hz = 100, lk_ts = [demo_link, demo_link], lk_clk = 0\<rparr>"

lemma demo_faults: "\<not> can_fault (l_drv demo_lenv)"
  by (simp add: can_fault_def demo_lenv_def demo_card_def)

lemma demo_move: "\<exists>st1. link_move demo_lenv LINK_OK True [5, 6] 10 demo_lnk = Some (2, [], st1)"
proof -
  obtain t1 where w: "tlkioctl (demo_card 1) False TLK_TIMEOUT 990 demo_link = Some (TOk, t1)" "tk_timeout t1 \<noteq> 0" "tk_moves t1 = 0"
    by (simp add: tlkioctl_def demo_card_def s32_def cdiv_def demo_link_def tlk_init1_def)
  have "\<exists>t2. link_call (demo_card 1) True [5, 6] t1 = Some (None, 2, [], t2)"
    by (simp add: link_call_def tlkwrite_def write_go.simps CHUNK_def tk_fault_def acc_rd_def demo_card_def)
  then obtain t2 where c: "link_call (demo_card 1) True [5, 6] t1 = Some (None, 2, [], t2)" ..
  have l: "lk_link (demo_lnk\<lparr>lk_clk := k\<rparr>) = demo_link" for k by (simp add: lk_link_def demo_lnk_def)
  have over: "length bs \<le> n \<Longrightarrow> move_go env out bs fin n [] st = Some (int n, [], st)" for env out bs fin n st
    by (subst move_go.simps) simp
  have "move_go demo_lenv True [5, 6] 1100 0 [] (demo_lnk\<lparr>lk_clk := 1\<rparr>) = Some (2, [], lk_put t2 (demo_lnk\<lparr>lk_clk := 2\<rparr>))"
    using w c by (subst move_go.simps) (simp add: lnk_now_def demo_lenv_def [symmetric] l over Let_def, simp add: demo_lenv_def l over s32_def cdiv_def demo_lnk_def numeral_2_eq_2)
  then show ?thesis by (simp add: link_move_def lnk_now_def demo_lnk_def lk_bad_def demo_lenv_def s32_def cdiv_def)
qed

section \<open>The properties\<close>

text \<open>
  C37. WriteLink and ReadLink answer what passed on the link, however often the driver's calls were broken off by
  its timeout or a signal: a count \<open>n\<close> means that exactly the first \<open>n\<close> bytes of the buffer went out, or that
  exactly the \<open>n\<close> bytes in the buffer came in, in order and each when the status allowed it; a failure means that none did.
\<close>

theorem link_counts:
  assumes "link_move env LINK_OK out bs timeout st = Some (ans, got, st1)" "\<not> can_fault (l_drv env)" "lk_fd st = Some m" "m < length (lk_ts st)"
  shows "\<exists>l n. tk_log (lk_link st1) = tk_log (lk_link st) @ l \<and> polite None l \<and>
    (if out then data_out l = take n bs \<and> data_in l = [] \<and> got = [] else data_in l = got \<and> length got = n \<and> data_out l = []) \<and>
    n \<le> length bs \<and> (ans = int n \<or> ans = ER_LINK_SOFT \<and> n = 0)"
proof -
  obtain fin s where f: "(if timeout > 0 then (case lnk_now env st of (now, s) \<Rightarrow> (s32 (now + cdiv (s32 (s32 (timeout * lk_hz st) + 9)) 10), s))
      else (0, st)) = (fin, s)" by fastforce
  then have s: "lk_fd s = Some m" "m < length (lk_ts s)" "lk_link s = lk_link st"
    using assms(3,4) by (auto simp: lnk_now_def lk_link_def split: if_splits)
  have "move_go env out bs fin 0 [] s = Some (ans, got, st1)" using assms(1) f s(1) by (simp add: link_move_def lk_bad_def)
  from move_go_post [OF this assms(2) s(1,2)] show ?thesis using s(3) by (auto simp: move_post_def ran_def carried_def)
qed

theorem link_counts_witness:
  "\<exists>st1 l. link_move demo_lenv LINK_OK True [5, 6] 10 demo_lnk = Some (2, [], st1) \<and> tk_log (lk_link st1) = tk_log demo_link @ l \<and>
     data_out l = [5, 6]"
proof -
  obtain st1 where m: "link_move demo_lenv LINK_OK True [5, 6] 10 demo_lnk = Some (2, [], st1)" using demo_move by blast
  have "lk_fd demo_lnk = Some 0" "0 < length (lk_ts demo_lnk)" "lk_link demo_lnk = demo_link" by (simp_all add: demo_lnk_def lk_link_def)
  then show ?thesis using link_counts [OF m demo_faults, of 0] m by (auto simp: lnk_codes)
qed

text \<open>
  C38. With a timeout, WriteLink and ReadLink return on a clock that passes it, whatever the card does: no wait of
  the driver is left without a limit, and a wait that ran out is tried again only while time is left.
\<close>

theorem link_returns:
  assumes "0 < timeout" "timeout * lk_hz st \<le> 1000000000" "0 < lk_hz st" "lk_hz st = t_HZ (l_drv env)"
    "fin = l_times env (lk_clk st) + (timeout * lk_hz st + 9) div 10" "0 < fin" "fin < 2147483648"
    "lk_clk st < K" "fin \<le> l_times env K" "\<And>k. lk_clk st < k \<Longrightarrow> k \<le> K \<Longrightarrow> \<bar>fin - l_times env k\<bar> \<le> 2000000"
  shows "\<exists>r. link_move env d out bs timeout st = Some r"
proof -
  define s where "s = st\<lparr>lk_clk := Suc (lk_clk st)\<rparr>"
  define x where "x = timeout * lk_hz st"
  have x: "0 < x" "x \<le> 1000000000" using assms(1-3) by (simp_all add: x_def)
  then have "s32 (s32 x + 9) = x + 9" by (simp add: s32_id)
  moreover have "cdiv (x + 9) 10 = (x + 9) div 10" using x by (intro cdiv_pos) simp_all
  moreover have "s32 fin = fin" using assms(6,7) by (simp add: s32_id)
  ultimately have f: "(if timeout > 0 then (case lnk_now env st of (now, s) \<Rightarrow> (s32 (now + cdiv (s32 (s32 (timeout * lk_hz st) + 9)) 10), s))
      else (0, st)) = (fin, s)" using assms(1,5) by (simp add: lnk_now_def x_def [symmetric] s_def)
  have "\<exists>r. move_go env out bs fin 0 [] s = Some r"
    by (rule move_returns [of _ _ _ K]) (use assms in \<open>auto simp: s_def\<close>)
  then show ?thesis using f by (auto simp: link_move_def)
qed

theorem link_returns_witness: "\<exists>r. link_move demo_lenv LINK_OK False (replicate 9 0) 10 demo_lnk = Some r"
  by (rule link_returns [where fin = 1100 and K = 100]) (auto simp: demo_lenv_def demo_lnk_def demo_card_def)

end
