(* ===== verification/Spec2Isabelle.thy ===== *)
theory Spec2Isabelle
  imports UfsProps DpProps AmxProps DhcpProps TtntpProps NuDrvProps MidiProps SndProps LnkProps
begin

text \<open>
  A verification library for the service pack's own C programs for Atari System V Release 4.0.
  The pack is not one program but several that meet at the machine's kernel and network; each is
  modelled in its own theories, over a common prelude.

  The parts and how they interact. The DaynaPORT driver \<open>driver-dp/dp.c\<close> gives the system its
  network: a DLPI STREAMS driver below TCP/IP that exchanges frames with the card over the SCSI
  driver. The DHCP client \<open>dhcpc/dhcpc.c\<close> opens such a device before TCP/IP is up, obtains an
  address from a server with frames of its own, and writes it to the files the boot scripts
  read. \<open>tools/ttntp/ttntp.c\<close> sets the clock over that network, and repairs the login records
  that were stamped before it did. The gate \<open>driver-amix/amx.c\<close> sits between AMIX programs and the
  kernel's system calls and converts what differs between the two. \<open>mint/ufsxfs/ufs.c\<close> reads the
  system's UFS slices from the other operating system of the machine, MiNT. They share no state;
  what they share is the big-endian machine, 32-bit C integers and buffers of fixed size.

  Theories and the code they model:

  \<^item> \<open>Prelude\<close>: C integers (\<open>u16\<close>, \<open>u32\<close>, \<open>s32\<close>), big-endian access (\<open>g16\<close>, \<open>g32\<close>, \<open>p16\<close>, \<open>p32\<close>),
    \<open>fgets\<close> and C strings, with the lemma collections \<open>be_simps\<close> and \<open>cint_simps\<close>.
  \<^item> \<open>UfsDisk\<close>, \<open>UfsFile\<close>, \<open>UfsDir\<close>, \<open>UfsMount\<close>, \<open>UfsCalls\<close>: \<open>mint/ufsxfs/ufs.c\<close>. On-disk
    structures and superblock checks; \<open>ufs_bmap\<close>, \<open>ufs_iget\<close>, \<open>ufs_readfile\<close>; directory blocks and
    the two lookups; scanning disks, drive letters and the mount table; the file system and
    device calls the kernel makes. A disk is a function from block numbers to bytes. \<open>UfsProps\<close>
    has the properties: reading is slicing of the file's content, \<open>ufs_bmap\<close> is the walk of the
    inode's tree, directories enumerate and find their entries, \<open>ufs_getname\<close> inverts lookup,
    mounting keeps its table's invariant.
  \<^item> \<open>DpScsi\<close>, \<open>DpDlpi\<close>: \<open>driver-dp/dp.c\<close>. The SCSI half (one command buffer and one job at a time:
    \<open>dp_kick\<close>, \<open>dp_next\<close>, \<open>dp_async_done\<close>, \<open>dp_xmit\<close>, the receive loop) and the STREAMS half
    (\<open>enopen\<close>, \<open>enclose\<close>, \<open>enwput\<close>, the DLPI primitives, frames up and down). The state is the
    record of the driver's globals with the queues of its minors. \<open>DpInv\<close> has the invariant and
    that every step keeps it; \<open>DpProps\<close> states the reachable steps as an inductive relation and
    shows that no step reaches undefined behaviour, what is staged, delivered and acknowledged,
    and that queued frames drain.
  \<^item> \<open>AmxConv\<close>, \<open>AmxGate\<close>: \<open>driver-amix/amx.c\<close>. Conversion of signals, masks, contexts, \<open>stat\<close>,
    terminal settings and errors; the whole \<open>trap #0\<close> gate over user memory and the trap frame;
    signal delivery and the table of delivered contexts. \<open>AmxInv\<close> holds the locales
    \<open>user_memory\<close> and \<open>bounded_bag\<close>, interpreted on the gate's \<open>copyin\<close> and \<open>copyout\<close> and on its context
    table; \<open>AmxProps\<close> the properties of registers, answers and errors.
  \<^item> \<open>Dhcp\<close>, \<open>DhcpProps\<close>: \<open>dhcpc/dhcpc.c\<close>. Building and parsing messages, the discover and request
    exchange over a clock and a network, and the files that are written.
  \<^item> \<open>Ttntp\<close>, \<open>TtntpProps\<close>: \<open>tools/ttntp/ttntp.c\<close>. The DNS query and its answers, one SNTP exchange,
    stepping and slewing the clock, the clock chip, and the login records that are moved.
  \<^item> \<open>NuChip\<close>: \<open>driver-nu/nuchip.c\<close>, the chip core of the NetUSBee's Ethernet driver: finding and
    setting up the chip, transmit, the receive ring, the poll, multicast. The card is an arbitrary
    function of the accesses made so far, so what \<open>NuProps\<close> shows (no buffer is left, the ring and
    transmit invariant) holds for a broken card too. \<open>NuSetup\<close> has what finding and setting up the
    chip leave behind. \<open>NuCard\<close> states what the chip's data sheet says of its answers, \<open>NuWire\<close> that
    with such a card frames pass whole and in order both ways. \<open>NuMcast\<close> has the multicast table as
    a counted set (locale \<open>counted_set\<close>), \<open>NuHash\<close> its hash as the Ethernet CRC.
  \<^item> \<open>NuDlpi\<close>: \<open>driver-nu/nu.c\<close>, the driver above the chip core: DLPI, queueing and sending,
    receiving, ioctls, the handling of a chip that is down, open and close. \<open>NuDrv\<close> has its invariant
    over every event, \<open>NuDrvProps\<close> shows frames from the card's ring to the streams and from the
    streams to the wire, and the schedule of retries. \<open>Streams\<close> holds the messages and minors both
    network drivers use.
  \<^item> \<open>Midi\<close>: \<open>driver-midi/midi.c\<close>. The ring of 8 KB, the transmit interrupt on the line shared with the
    keyboard, the timed stream and its callout, the tick, and the calls, where a sleeping call is a
    state of the process. \<open>MidiProps\<close> shows by an invariant over all events that what is sent is what was
    written, in order, and never before its time, and that a lone wait byte at the end puts a
    close to sleep for good.
  \<^item> \<open>Snd\<close>: \<open>driver-snd/snd.c\<close>. The ring the DMA plays, the accounting of the tick, the chain of frames
    and its interrupt, and the calls. \<open>SndProps\<close> shows that the ring is silence but for the newest
    bytes not yet played, how a tick takes bytes from it, and where a replayed block breaks the accounting.
  \<^item> \<open>Tlk\<close>, \<open>Lnk\<close>: \<open>driver-tlk/tlk.c\<close>, the transputer links' driver, over a link adapter that is an
    arbitrary function of the accesses so far, and \<open>iserver/lnktlk.c\<close>, the module that calls it.
    \<open>TlkProps\<close> shows what reads, writes and waits do to the link, \<open>LnkProps\<close> that the module's counts are
    what passed on the link and that its calls return.

  Conventions. Records carry the code's fields, definitions the code's names (a prefix is added
  where a name is a constant of HOL). Every early return is a branch; a result \<open>None\<close> of an
  operation means that the C code has no defined result there: it leaves a buffer, or spins for
  ever. What is not in the repository is a parameter: disk contents, the SCSI driver, the
  kernel's own calls, clocks, sockets, and the rounding of the floating point unit.

  Bounds and termination. Loops of the code are structural recursions or functions with a measure
  (the bytes left of a buffer for directory blocks, DHCP options and DNS names; the depth of the
  tree for \<open>ufs_getname\<close>). \<open>en_wloop\<close> is given twice \<open>DP_NMINOR\<close> tries, the bound the code itself counts;
  \<open>dp_rxloop\<close> recurses on the bytes of the receive buffer. Loops that wait for a clock or a
  message are partial functions in the option type: that the DHCP client returns on a clock that
  passes its deadline, and \<open>ttntp\<close> on a clock that is read clear of a second boundary, is proved.

  Not modelled: the USB driver and the dynamic loader, which are other projects' code in the main;
  the X servers and the login screen; test programs, benchmarks and scripts. What programs
  print is modelled only where others read it (the DHCP client's files). In \<open>dhcpc.c\<close> the DLPI
  messages of opening and binding the device are not modelled, only what they deliver.
\<close>

end
